(* ===== verification/Prelude.thy ===== *)
theory Prelude
  imports Main "HOL-Library.Multiset" "HOL-Library.Word"
begin

text \<open>
  Shared vocabulary of the development: the error values an operation of the C++ code can end
  with, the result type and its sequencing, bounds-checked access to spans and arrays, counted
  loops, and the generic lemmas on them that the component theories rest on.

  Conventions. A C++ exception, an early \<open>throw\<close> or an access that C++ leaves undefined is a
  value of \<open>err\<close>; an operation that can fail has type \<open>'a res\<close>. An out-of-range read or write
  is \<open>OutOfBounds\<close>, so that a safety theorem is the statement that an operation returns \<open>Inr\<close>.
  \<open>assert\<close> is not part of the model (release builds drop it): the asserted conditions are
  theorems instead. Token ids are \<open>int\<close>, sizes and indices are \<open>nat\<close>; where the code computes
  in 32 bits and the result can leave that range, \<open>s32\<close> writes the wrap-around out.
\<close>

section \<open>Errors and results\<close>

datatype err =
    RuntimeError string
  | UnknownValueError
  | OutOfBounds
  | DivisionByZero
  | BadAlloc
  | BadOptionalAccess
  | BadVariantAccess
  | NullPointer
  | UseAfterFree
  | UninitializedRead
  | TypeConfusion
  | OrtException
  | DeviceRemoved
  | WaitsForever

type_synonym 'a res = "err + 'a"

definition res_bind :: "'e + 'a \<Rightarrow> ('a \<Rightarrow> 'e + 'b) \<Rightarrow> 'e + 'b" where
  "res_bind m f = (case m of Inl e \<Rightarrow> Inl e | Inr x \<Rightarrow> f x)"

named_theorems res_simps \<open>equations of the result type and of checked accesses\<close>
named_theorems safe_intros \<open>an access or a loop that stays in bounds returns a value\<close>

lemma res_bind_Inr [simp, res_simps]: "res_bind (Inr x) f = f x"
  by (simp add: res_bind_def)

lemma res_bind_Inl [simp, res_simps]: "res_bind (Inl e) f = Inl e"
  by (simp add: res_bind_def)

lemma res_bind_eq_Inr: "res_bind m f = Inr y \<longleftrightarrow> (\<exists>x. m = Inr x \<and> f x = Inr y)"
  by (cases m) auto

lemma res_bind_assoc: "res_bind (res_bind m f) g = res_bind m (\<lambda>x. res_bind (f x) g)"
  by (cases m) auto

lemma res_bind_cong [fundef_cong]:
  "m = m' \<Longrightarrow> (\<And>x. m' = Inr x \<Longrightarrow> f x = f' x) \<Longrightarrow> res_bind m f = res_bind m' f'"
  by (cases m') auto

text \<open>Case split on the result of a cascade of tests, forgetting the tests.\<close>

lemma if_eqE: "(if b then x else y) = z \<Longrightarrow> (x = z \<Longrightarrow> P) \<Longrightarrow> (y = z \<Longrightarrow> P) \<Longrightarrow> P"
  by (auto split: if_splits)

section \<open>Spans: checked reads, writes and block copies\<close>

definition get :: "'a list \<Rightarrow> nat \<Rightarrow> 'a res" where
  "get xs i = (if i < length xs then Inr (xs ! i) else Inl OutOfBounds)"

definition put :: "'a list \<Rightarrow> nat \<Rightarrow> 'a \<Rightarrow> 'a list res" where
  "put xs i v = (if i < length xs then Inr (xs[i := v]) else Inl OutOfBounds)"

definition subspan :: "'a list \<Rightarrow> nat \<Rightarrow> nat \<Rightarrow> 'a list res" where
  "subspan xs off n = (if off + n \<le> length xs then Inr (take n (drop off xs)) else Inl OutOfBounds)"

text \<open>\<open>blit\<close> overwrites the elements from \<open>off\<close> on; \<open>copy_into\<close> is the checked copy of a source
  span over a destination sub-span of the same size.\<close>

definition blit :: "'a list \<Rightarrow> nat \<Rightarrow> 'a list \<Rightarrow> 'a list" where
  "blit xs off ys = take off xs @ ys @ drop (off + length ys) xs"

definition copy_into :: "'a list \<Rightarrow> nat \<Rightarrow> 'a list \<Rightarrow> 'a list res" where
  "copy_into xs off ys =
     (if off + length ys \<le> length xs then Inr (blit xs off ys) else Inl OutOfBounds)"

text \<open>A C++ \<open>int\<close> used as an index: a negative one converts to a huge \<open>size_t\<close>.\<close>

definition index_of :: "int \<Rightarrow> nat res" where
  "index_of i = (if 0 \<le> i then Inr (nat i) else Inl OutOfBounds)"

lemma get_Inr [simp, res_simps]: "i < length xs \<Longrightarrow> get xs i = Inr (xs ! i)"
  by (simp add: get_def)

lemma put_Inr [simp, res_simps]: "i < length xs \<Longrightarrow> put xs i v = Inr (xs[i := v])"
  by (simp add: put_def)

lemma subspan_Inr [simp, res_simps]:
  "off + n \<le> length xs \<Longrightarrow> subspan xs off n = Inr (take n (drop off xs))"
  by (simp add: subspan_def)

lemma copy_into_Inr [simp, res_simps]:
  "off + length ys \<le> length xs \<Longrightarrow> copy_into xs off ys = Inr (blit xs off ys)"
  by (simp add: copy_into_def)

lemma index_of_Inr [simp, res_simps]: "0 \<le> i \<Longrightarrow> index_of i = Inr (nat i)"
  by (simp add: index_of_def)

lemma index_of_of_nat [simp]: "index_of (int n) = Inr n"
  by (simp add: index_of_def)

lemma length_blit [simp]: "off + length ys \<le> length xs \<Longrightarrow> length (blit xs off ys) = length xs"
  by (simp add: blit_def)

lemma length_slice: "off + n \<le> length xs \<Longrightarrow> length (take n (drop off xs)) = n"
  by simp

lemma slice_blit_same:
  "off + length ys \<le> length xs \<Longrightarrow> n = length ys \<Longrightarrow> take n (drop off (blit xs off ys)) = ys"
  by (simp add: blit_def)

lemma slice_blit_other:
  assumes "off + length ys \<le> length xs" and "o' + n \<le> off \<or> off + length ys \<le> o'"
  shows "take n (drop o' (blit xs off ys)) = take n (drop o' xs)"
  using assms(2)
proof
  assume le: "o' + n \<le> off"
  then have "take n (drop o' (blit xs off ys)) = take n (drop o' (take off xs))"
    using assms(1) by (simp add: blit_def)
  also have "\<dots> = take n (drop o' xs)"
    using le by (simp add: drop_take min_def)
  finally show ?thesis .
next
  assume le: "off + length ys \<le> o'"
  then show ?thesis
    using assms(1) by (simp add: blit_def)
qed

lemma nth_blit:
  "off + length ys \<le> length xs \<Longrightarrow> i < length xs \<Longrightarrow>
   blit xs off ys ! i = (if off \<le> i \<and> i < off + length ys then ys ! (i - off) else xs ! i)"
  by (auto simp: blit_def nth_append min_def)

lemma blit_snoc:
  "off + length ys < length xs \<Longrightarrow> (blit xs off ys)[off + length ys := v] = blit xs off (ys @ [v])"
  by (rule nth_equalityI) (auto simp: nth_blit nth_list_update nth_append)

lemma blit_Nil [simp]: "blit xs off [] = xs"
  by (simp add: blit_def)

lemma blit_update_slice:
  "off + n \<le> length xs \<Longrightarrow> i < n \<Longrightarrow>
   blit xs off ((take n (drop off xs))[i := v]) = xs[off + i := v]"
  by (rule nth_equalityI) (auto simp: nth_blit nth_list_update)

section \<open>Counted loops\<close>

text \<open>\<open>for_res body is s\<close> runs \<open>body i\<close> for the indices in \<open>is\<close> in turn and stops at the first
  error: the shape of every \<open>for\<close> loop over indices of the code.\<close>

fun for_res :: "('i \<Rightarrow> 's \<Rightarrow> 's res) \<Rightarrow> 'i list \<Rightarrow> 's \<Rightarrow> 's res" where
  "for_res body [] s = Inr s"
| "for_res body (i # is) s = res_bind (body i s) (for_res body is)"

lemma for_res_append [simp]:
  "for_res body (is @ js) s = res_bind (for_res body is s) (for_res body js)"
proof (induction "is" arbitrary: s)
  case (Cons i "is")
  then show ?case by (cases "body i s") auto
qed simp

lemma for_res_cong [fundef_cong]:
  "is = js \<Longrightarrow> s = t \<Longrightarrow> (\<And>i u. i \<in> set js \<Longrightarrow> body i u = body' i u) \<Longrightarrow>
   for_res body is s = for_res body' js t"
proof (induction js arbitrary: "is" s t)
  case (Cons j js)
  then have "for_res body js = for_res body' js"
    by (intro ext) auto
  with Cons.prems show ?case by simp
qed simp

lemma for_res_map: "for_res body (map f is) = for_res (\<lambda>i. body (f i)) is"
  by (induction "is") (auto intro!: ext)

lemma for_res_singleton [simp]: "for_res body [i] = body i"
  by (rule ext) (simp add: res_bind_def split: sum.splits)

text \<open>Two nested loops over a batch and its beams are one loop over the flattened index.\<close>

lemma for_res_flatten:
  "for_res (\<lambda>b. for_res (\<lambda>k. body (b * m + k)) [0..<m]) [0..<n] s = for_res body [0..<n * m] s"
proof (induction n)
  case (Suc n)
  have "[n * m..<n * m + m] = map (\<lambda>k. n * m + k) [0..<m]"
    using map_add_upt [of "n * m" m] by (simp add: add.commute)
  moreover have "[0..<Suc n * m] = [0..<n * m] @ [n * m..<n * m + m]"
    using upt_add_eq_append [of 0 "n * m" m] by (simp add: add.commute)
  ultimately show ?case using Suc by (simp add: for_res_map)
qed simp

text \<open>The total-correctness rule: an invariant indexed by the number of finished rounds.\<close>

lemma for_res_upt_rule:
  assumes "I 0 s"
    and "\<And>i t. i < n \<Longrightarrow> I i t \<Longrightarrow> \<exists>t'. body i t = Inr t' \<and> I (Suc i) t'"
  shows "\<exists>t. for_res body [0..<n] s = Inr t \<and> I n t"
  using assms
proof (induction n)
  case (Suc n)
  then obtain t where t: "for_res body [0..<n] s = Inr t" "I n t"
    by force
  moreover obtain t' where "body n t = Inr t'" "I (Suc n) t'"
    using Suc.prems(2) [of n t] t by auto
  ultimately show ?case by simp
qed simp

lemma for_res_list_rule:
  assumes "I s" and "\<And>i t. i \<in> set is \<Longrightarrow> I t \<Longrightarrow> \<exists>t'. body i t = Inr t' \<and> I t'"
  shows "\<exists>t. for_res body is s = Inr t \<and> I t"
  using assms
proof (induction "is" arbitrary: s)
  case (Cons i "is")
  obtain t where t: "body i s = Inr t" "I t"
    using Cons.prems(2) [of i s] Cons.prems(1) by auto
  have "\<exists>u. for_res body is t = Inr u \<and> I u"
    using Cons.prems(2) t(2) by (intro Cons.IH) auto
  then show ?case using t(1) by simp
qed simp

text \<open>The partial-correctness rule: what holds of the result whenever the loop finishes.\<close>

lemma for_res_inv:
  assumes "for_res body is s = Inr t" and "I s"
    and "\<And>i u u'. i \<in> set is \<Longrightarrow> I u \<Longrightarrow> body i u = Inr u' \<Longrightarrow> I u'"
  shows "I t"
  using assms
proof (induction "is" arbitrary: s)
  case (Cons i "is")
  obtain u where u: "body i s = Inr u" "for_res body is u = Inr t"
    using Cons.prems(1) by (auto simp: res_bind_eq_Inr)
  have "I u" using Cons.prems(3) [of i s u] Cons.prems(2) u(1) by simp
  with u(2) show ?case by (rule Cons.IH) (use Cons.prems(3) in auto)
qed simp

text \<open>A loop that copies element by element is one block copy.\<close>

lemma for_res_copy:
  assumes "so + n \<le> length src" and "off + n \<le> length dst"
  shows "for_res (\<lambda>j d. res_bind (get src (so + j)) (put d (off + j))) [0..<n] dst =
         Inr (blit dst off (take n (drop so src)))"
  using assms
proof (induction n)
  case (Suc n)
  have len: "length (take n (drop so src)) = n"
    using Suc.prems by simp
  have "(blit dst off (take n (drop so src)))[off + n := src ! (so + n)] =
        blit dst off (take n (drop so src) @ [src ! (so + n)])"
    using blit_snoc [of off "take n (drop so src)" dst "src ! (so + n)"] Suc.prems len by simp
  also have "take n (drop so src) @ [src ! (so + n)] = take (Suc n) (drop so src)"
    using Suc.prems by (simp add: take_Suc_conv_app_nth)
  finally show ?case using Suc by simp
qed simp

text \<open>A loop that copies one block per round, from any block of the source to the next block of the
  destination, whether the destination offset is computed or carried along.\<close>

lemma row_bound0: "r < n \<Longrightarrow> r * w + w \<le> n * (w::nat)"
  using mult_le_mono1 [of "Suc r" n w] by simp

definition blocks :: "'a list \<Rightarrow> nat \<Rightarrow> (nat \<Rightarrow> nat) \<Rightarrow> nat \<Rightarrow> 'a list" where
  "blocks src w g n = concat (map (\<lambda>r. take w (drop (g r * w) src)) [0..<n])"

lemma blocks_0 [simp]: "blocks src w g 0 = []"
  by (simp add: blocks_def)

lemma blocks_Suc: "blocks src w g (Suc n) = blocks src w g n @ take w (drop (g n * w) src)"
  by (simp add: blocks_def)

lemma length_blocks: "(\<And>r. r < n \<Longrightarrow> g r * w + w \<le> length src) \<Longrightarrow> length (blocks src w g n) = n * w"
proof (induction n)
  case (Suc n)
  have "length (take w (drop (g n * w) src)) = w" using Suc.prems [OF lessI] by simp
  then show ?case using Suc by (simp add: blocks_Suc)
qed simp

lemma blit_blocks:
  assumes "\<And>r. r < Suc n \<Longrightarrow> g r * w + w \<le> length src"
  shows "blit (blocks src w g n @ drop (n * w) dst) (n * w) (take w (drop (g n * w) src))
      = blocks src w g (Suc n) @ drop (Suc n * w) dst"
proof -
  have "length (take w (drop (g n * w) src)) = w" using assms [OF lessI] by simp
  moreover have "length (blocks src w g n) = n * w" using assms by (intro length_blocks) simp
  ultimately show ?thesis by (simp only: blit_def blocks_Suc) (simp add: add.commute)
qed

lemma for_res_blocks_carried:
  assumes "n * w \<le> length dst" and "\<And>r. r < n \<Longrightarrow> g r * w + w \<le> length src"
  shows "for_res (\<lambda>r (d, t). res_bind (subspan src (g r * w) w) (\<lambda>b. res_bind (copy_into d t b) (\<lambda>d'. Inr (d', t + w))))
           [0..<n] (dst, 0) = Inr (blocks src w g n @ drop (n * w) dst, n * w)"
  using assms
proof (induction n)
  case (Suc n)
  then show ?case
    using blit_blocks [of n g w src dst] length_blocks [of n g w src] Suc.prems(2) [of n] by (simp add: add.commute)
qed simp

lemma for_res_blocks:
  assumes "n * w \<le> length dst" and "\<And>r. r < n \<Longrightarrow> g r * w + w \<le> length src"
  shows "for_res (\<lambda>r d. res_bind (subspan src (g r * w) w) (copy_into d (r * w))) [0..<n] dst
         = Inr (blocks src w g n @ drop (n * w) dst)"
  using assms
proof (induction n)
  case (Suc n)
  then show ?case
    using blit_blocks [of n g w src dst] length_blocks [of n g w src] Suc.prems(2) [of n] by simp
qed simp

lemma blocks_row:
  assumes "r < n" and "\<And>r. r < n \<Longrightarrow> g r * w + w \<le> length src"
  shows "take w (drop (r * w) (blocks src w g n)) = take w (drop (g r * w) src)"
  using assms
proof (induction n)
  case (Suc n)
  have len: "length (blocks src w g n) = n * w" using Suc.prems by (intro length_blocks) simp
  show ?case
  proof (cases "r = n")
    case True
    then show ?thesis using len by (simp add: blocks_Suc)
  next
    case False
    then have "r < n" using Suc.prems(1) by simp
    then show ?thesis using Suc row_bound0 [of r n w] len by (simp add: blocks_Suc)
  qed
qed simp

lemma blit_append_left: "off + length x \<le> length a \<Longrightarrow> blit (a @ b) off x = blit a off x @ b"
  by (simp add: blit_def)

lemma blit_append_right: "length a = n \<Longrightarrow> blit (a @ b) (n + off) x = a @ blit b off x"
  by (simp add: blit_def)

lemma blit_next:
  "length pre = i * w \<Longrightarrow> length x = w \<Longrightarrow> blit (pre @ drop (i * w) d) (i * w) x = (pre @ x) @ drop (Suc i * w) d"
  by (simp add: blit_def add.commute)

text \<open>A loop that overwrites row after row of a matrix.\<close>

lemma for_res_full_rows:
  assumes "length d = n * w"
    and "\<And>i t. i < n \<Longrightarrow> length t = n * w \<Longrightarrow> drop (i * w) t = drop (i * w) d \<Longrightarrow> body i t = Inr (blit t (i * w) (f i))"
    and "\<And>i. i < n \<Longrightarrow> length (f i) = w"
  shows "for_res body [0..<n] d = Inr (concat (map f [0..<n]))"
proof -
  have "for_res body [0..<k] d = Inr (concat (map f [0..<k]) @ drop (k * w) d) \<and> length (concat (map f [0..<k])) = k * w"
    if "k \<le> n" for k
    using that
  proof (induction k)
    case (Suc k)
    let ?pre = "concat (map f [0..<k])"
    have IH: "for_res body [0..<k] d = Inr (?pre @ drop (k * w) d)" "length ?pre = k * w" and k: "k < n"
      using Suc by auto
    have "k * w \<le> n * w" using k by (intro mult_le_mono1) simp
    then have "body k (?pre @ drop (k * w) d) = Inr (blit (?pre @ drop (k * w) d) (k * w) (f k))"
      using IH(2) k assms(1) by (intro assms(2)) simp_all
    also have "blit (?pre @ drop (k * w) d) (k * w) (f k) = concat (map f [0..<Suc k]) @ drop (Suc k * w) d"
      using IH(2) assms(3) [OF k] by (simp add: blit_def add.commute)
    finally show ?case using IH assms(3) [OF k] by simp
  qed simp
  from this [of n] show ?thesis using assms(1) by simp
qed

section \<open>Rows of a flattened matrix\<close>

text \<open>Rows \<open>i\<close> and \<open>r\<close> of a matrix with row width \<open>w\<close> do not overlap.\<close>

lemma row_disjoint:
  assumes "i \<noteq> r" and "n \<le> w" and "m \<le> (w::nat)"
  shows "i * w + n \<le> r * w \<or> r * w + m \<le> i * w"
proof (cases "i < r")
  case True
  then have "Suc i * w \<le> r * w" by (intro mult_le_mono1) simp
  then show ?thesis using assms by simp
next
  case False
  then have "Suc r * w \<le> i * w" using assms(1) by (intro mult_le_mono1) simp
  then show ?thesis using assms by simp
qed

lemma row_bound: "i < h \<Longrightarrow> n \<le> w \<Longrightarrow> i * w + n \<le> h * (w::nat)"
proof -
  assume "i < h" and "n \<le> w"
  then have "Suc i * w \<le> h * w" by (intro mult_le_mono1) simp
  with \<open>n \<le> w\<close> show ?thesis by simp
qed

lemma row_bound_less: "i < h \<Longrightarrow> j < w \<Longrightarrow> i * w + j < h * (w::nat)"
  using row_bound [of i h "Suc j" w] by simp

text \<open>Row and column of a flattened index.\<close>

lemma row_col: "k < w \<Longrightarrow> (r * w + k) div w = r \<and> (r * w + k) mod w = (k::nat)"
  by auto

lemma flat_index_eq: "k < w \<Longrightarrow> j = r * w + k \<longleftrightarrow> j div w = r \<and> j mod w = (k::nat)"
  using row_col [of k w r] div_mult_mod_eq [of j w] by auto

section \<open>Decimal numerals\<close>

text \<open>\<open>std::to_string\<close> on integers.\<close>

definition digit_char :: "nat \<Rightarrow> char" where
  "digit_char d = char_of (48 + d)"

fun nat_to_string :: "nat \<Rightarrow> string" where
  "nat_to_string n = (if n < 10 then [digit_char n] else nat_to_string (n div 10) @ [digit_char (n mod 10)])"

declare nat_to_string.simps [simp del]

definition int_to_string :: "int \<Rightarrow> string" where
  "int_to_string i = (if i < 0 then CHR ''-'' # nat_to_string (nat (- i)) else nat_to_string (nat i))"

definition is_digit :: "char \<Rightarrow> bool" where
  "is_digit c \<longleftrightarrow> 48 \<le> (of_char c :: nat) \<and> (of_char c :: nat) \<le> 57"

lemma of_char_digit_char: "d < 10 \<Longrightarrow> (of_char (digit_char d) :: nat) = 48 + d"
  by (simp add: digit_char_def)

lemma is_digit_digit_char: "d < 10 \<Longrightarrow> is_digit (digit_char d)"
  by (simp add: is_digit_def of_char_digit_char)

lemma nat_to_string_digits: "c \<in> set (nat_to_string n) \<Longrightarrow> is_digit c"
proof (induction n rule: nat_to_string.induct)
  case (1 n)
  then show ?case by (subst (asm) nat_to_string.simps) (auto split: if_splits intro: is_digit_digit_char)
qed

lemma nat_to_string_ne [simp]: "nat_to_string n \<noteq> []"
  by (subst nat_to_string.simps) simp

section \<open>32-bit signed arithmetic\<close>

definition s32 :: "int \<Rightarrow> int" where
  "s32 x = (x + 2 ^ 31) mod 2 ^ 32 - 2 ^ 31"

lemma s32_id: "- (2 ^ 31) \<le> x \<Longrightarrow> x < 2 ^ 31 \<Longrightarrow> s32 x = x"
  by (simp add: s32_def)

lemma s32_range: "- (2 ^ 31) \<le> s32 x \<and> s32 x < 2 ^ 31"
  by (simp add: s32_def)

end
