(* ===== verification/Cxx.thy ===== *)
theory Cxx
  imports Prelude
begin

text \<open>
  What the code uses of C++ beyond integers and arrays: single-precision arithmetic, the random
  number engine, and library algorithms whose result the standard leaves partly open.

  A \<open>float\<close> is an element of a linear order \<open>'f\<close> (comparisons are exact; NaN is not modelled, and
  the two zeros count as one); its arithmetic, which rounds, is a field of the record \<open>cxx\<close> and so
  arbitrary. The engine state of \<open>std::mt19937\<close> is the type \<open>'g\<close>. \<open>std::sort\<close> and
  \<open>std::partial_sort\<close> do not fix the order of equal elements and \<open>std::priority_queue\<close> does not
  fix which of several maximal elements is on top: these are fields too, and the predicates below
  state what the standard guarantees of them. Every definition that computes with floats takes the
  record as its first argument.
\<close>

record ('f, 'g) cxx =
  fzero :: 'f
  fone :: 'f
  flowest :: 'f
  fbig_neg :: 'f  \<comment> \<open>the literal \<open>-1e9\<close>\<close>
  fadd :: "'f \<Rightarrow> 'f \<Rightarrow> 'f"
  fsub :: "'f \<Rightarrow> 'f \<Rightarrow> 'f"
  fmul :: "'f \<Rightarrow> 'f \<Rightarrow> 'f"
  fdiv :: "'f \<Rightarrow> 'f \<Rightarrow> 'f"
  fexp :: "'f \<Rightarrow> 'f"
  flog :: "'f \<Rightarrow> 'f"
  fpow :: "'f \<Rightarrow> 'f \<Rightarrow> 'f"
  fof_int :: "int \<Rightarrow> 'f"
  sort_indices :: "'f list \<Rightarrow> nat \<Rightarrow> nat list"  \<comment> \<open>\<open>iota\<close>, then \<open>partial_sort\<close> of the first \<open>k\<close>\<close>
  queue_top :: "('f \<times> nat) list \<Rightarrow> 'f \<times> nat"  \<comment> \<open>\<open>priority_queue::top\<close>, ordered by score only\<close>
  uniform :: "'f \<Rightarrow> 'g \<Rightarrow> 'f \<times> 'g"  \<comment> \<open>\<open>uniform_real_distribution<float>(0, p)\<close>\<close>
  discrete :: "'f list \<Rightarrow> 'g \<Rightarrow> nat \<times> 'g"  \<comment> \<open>\<open>discrete_distribution<>(weights)\<close>\<close>

section \<open>What the standard library guarantees\<close>

text \<open>\<open>partial_sort\<close> with the comparator \<open>scores[i] > scores[j]\<close>: a permutation of all indices
  whose first \<open>k\<close> are in descending order of score and none of whose others beats them.\<close>

definition partially_sorted :: "'f::linorder list \<Rightarrow> nat \<Rightarrow> nat list \<Rightarrow> bool" where
  "partially_sorted scores k idx \<longleftrightarrow>
     mset idx = mset [0..<length scores]
     \<and> (\<forall>i j. i < j \<longrightarrow> i < k \<longrightarrow> j < length idx \<longrightarrow> scores ! (idx ! j) \<le> scores ! (idx ! i))"

definition sort_ok :: "('f::linorder, 'g, 'z) cxx_scheme \<Rightarrow> bool" where
  "sort_ok cx \<longleftrightarrow> (\<forall>scores k. k \<le> length scores \<longrightarrow> partially_sorted scores k (sort_indices cx scores k))"

definition queue_ok :: "('f::linorder, 'g, 'z) cxx_scheme \<Rightarrow> bool" where
  "queue_ok cx \<longleftrightarrow> (\<forall>q. q \<noteq> [] \<longrightarrow> queue_top cx q \<in> set q \<and> (\<forall>x\<in>set q. fst x \<le> fst (queue_top cx q)))"

definition discrete_ok :: "('f, 'g, 'z) cxx_scheme \<Rightarrow> bool" where
  "discrete_ok cx \<longleftrightarrow> (\<forall>w g. w \<noteq> [] \<longrightarrow> fst (discrete cx w g) < length w)"

lemma partially_sorted_length: "partially_sorted scores k idx \<Longrightarrow> length idx = length scores"
  by (metis diff_zero length_upt partially_sorted_def size_mset)

lemma partially_sorted_set: "partially_sorted scores k idx \<Longrightarrow> set idx = {..<length scores}"
  by (metis partially_sorted_def mset_eq_setD set_upt atLeast0LessThan)

lemma partially_sorted_nth:
  "partially_sorted scores k idx \<Longrightarrow> i < length scores \<Longrightarrow> idx ! i < length scores"
  using partially_sorted_set [of scores k idx] partially_sorted_length [of scores k idx] nth_mem [of i idx]
  by auto

section \<open>\<open>std::max_element\<close>\<close>

text \<open>The index of the first maximal element, as the library's loop finds it (0 on an empty range,
  whose end is its begin).\<close>

fun max_element_loop :: "'f::linorder list \<Rightarrow> nat \<Rightarrow> 'f \<Rightarrow> nat \<Rightarrow> nat" where
  "max_element_loop [] best largest i = best"
| "max_element_loop (x # xs) best largest i =
     (if largest < x then max_element_loop xs i x (Suc i)
      else max_element_loop xs best largest (Suc i))"

definition max_element :: "'f::linorder list \<Rightarrow> nat" where
  "max_element xs = (case xs of [] \<Rightarrow> 0 | x # ys \<Rightarrow> max_element_loop ys 0 x 1)"

definition first_max :: "'f::linorder list \<Rightarrow> nat \<Rightarrow> bool" where
  "first_max xs m \<longleftrightarrow> m < length xs \<and> (\<forall>j<length xs. xs ! j \<le> xs ! m) \<and> (\<forall>j<m. xs ! j < xs ! m)"

lemma first_max_snoc_gt:
  "first_max ys m \<Longrightarrow> ys ! m < x \<Longrightarrow> first_max (ys @ [x]) (length ys)"
  by (auto simp: first_max_def nth_append less_Suc_eq intro: le_less_trans less_imp_le)

lemma first_max_snoc_le:
  "first_max ys m \<Longrightarrow> x \<le> ys ! m \<Longrightarrow> first_max (ys @ [x]) m"
  by (auto simp: first_max_def nth_append less_Suc_eq)

lemma max_element_loop_first_max:
  "first_max ys m \<Longrightarrow> first_max (ys @ xs) (max_element_loop xs m (ys ! m) (length ys))"
proof (induction xs arbitrary: ys m)
  case (Cons x xs)
  show ?case
  proof (cases "ys ! m < x")
    case True
    with Cons.IH [OF first_max_snoc_gt [OF Cons.prems True]] show ?thesis by simp
  next
    case False
    then have "first_max (ys @ [x]) m" using first_max_snoc_le [OF Cons.prems] by simp
    from Cons.IH [OF this] have "first_max (ys @ x # xs)
        (max_element_loop xs m ((ys @ [x]) ! m) (Suc (length ys)))" by simp
    moreover have "(ys @ [x]) ! m = ys ! m" using Cons.prems by (simp add: first_max_def nth_append)
    ultimately show ?thesis using False by simp
  qed
qed simp

lemma max_element_first_max: "xs \<noteq> [] \<Longrightarrow> first_max xs (max_element xs)"
proof (cases xs)
  case (Cons x ys)
  have "first_max [x] 0" by (simp add: first_max_def)
  from max_element_loop_first_max [OF this, of ys] Cons show ?thesis
    by (simp add: max_element_def)
qed simp

lemma max_element_less: "xs \<noteq> [] \<Longrightarrow> max_element xs < length xs"
  using max_element_first_max [of xs] by (simp add: first_max_def)

lemma first_max_unique: "first_max xs m \<Longrightarrow> first_max xs m' \<Longrightarrow> m = m'"
  by (metis first_max_def leD linorder_neqE_nat)

section \<open>Softmax\<close>

text \<open>\<open>src/search.cpp\<close> \<open>SoftMax\<close> (with temperature) and \<open>src/softmax_cpu.cpp\<close>. The maximum is
  dereferenced, so an empty span is an out-of-range read.\<close>

definition SoftMax :: "('f::linorder, 'g, 'z) cxx_scheme \<Rightarrow> 'f \<Rightarrow> 'f list \<Rightarrow> 'f list res" where
  "SoftMax cx temperature scores =
     res_bind (get scores (max_element scores)) (\<lambda>max_score.
       let es = map (\<lambda>score. fexp cx (fdiv cx (fsub cx score max_score) temperature)) scores;
           exp_sum = foldl (fadd cx) (fzero cx) es
       in Inr (map (\<lambda>score. fdiv cx score exp_sum) es))"

definition softmax :: "('f::linorder, 'g, 'z) cxx_scheme \<Rightarrow> 'f list \<Rightarrow> 'f list res" where
  "softmax cx values =
     res_bind (get values (max_element values)) (\<lambda>max.
       let es = map (\<lambda>v. fexp cx (fsub cx v max)) values;
           sum = foldl (fadd cx) (fzero cx) es
       in Inr (map (\<lambda>v. fdiv cx v sum) es))"

definition log_softmax :: "('f::linorder, 'g, 'z) cxx_scheme \<Rightarrow> 'f list \<Rightarrow> 'f list res" where
  "log_softmax cx values =
     res_bind (get values (max_element values)) (\<lambda>max.
       let scaled = map (\<lambda>v. fexp cx (fsub cx v max)) values;
           sum = foldl (fadd cx) (fzero cx) scaled;
           log_max = flog cx sum
       in Inr (map (\<lambda>v. fsub cx (fsub cx v max) log_max) values))"

lemma SoftMax_Inr:
  "scores \<noteq> [] \<Longrightarrow> \<exists>ys. SoftMax cx temperature scores = Inr ys \<and> length ys = length scores"
  using max_element_first_max [of scores] by (auto simp: SoftMax_def first_max_def Let_def)

text \<open>Monotone arithmetic: what IEEE rounding keeps of the order when \<open>temperature\<close> and the sum of
  exponentials are positive.\<close>

definition monotone_ops :: "('f::linorder, 'g, 'z) cxx_scheme \<Rightarrow> bool" where
  "monotone_ops cx \<longleftrightarrow> (\<forall>a b c. a \<le> b \<longrightarrow> fsub cx a c \<le> fsub cx b c)
     \<and> (\<forall>a b c. a \<le> b \<longrightarrow> fzero cx < c \<longrightarrow> fdiv cx a c \<le> fdiv cx b c)
     \<and> (\<forall>a b. a \<le> b \<longrightarrow> fexp cx a \<le> fexp cx b)"

section \<open>A concrete instance\<close>

text \<open>Integer scores, a counter for the random engine and stable library algorithms: the instance the
  examples are evaluated on. It meets every guarantee above, so none of them is contradictory.\<close>

definition int_cxx :: "(int, nat) cxx" where
  "int_cxx = \<lparr>fzero = 0, fone = 1, flowest = -1000000, fbig_neg = -100000,
     fadd = (+), fsub = (-), fmul = (*), fdiv = (\<lambda>a b. if b = 1 then a else a div b),
     fexp = (\<lambda>x. x), flog = (\<lambda>x. x), fpow = (\<lambda>a b. a), fof_int = (\<lambda>x. x),
     sort_indices = (\<lambda>scores k. sort_key (\<lambda>i. - (scores ! i)) [0..<length scores]),
     queue_top = (\<lambda>q. q ! max_element (map fst q)),
     uniform = (\<lambda>p g. (0, Suc g)),
     discrete = (\<lambda>w g. (g mod length w, Suc g))\<rparr>"

lemma int_cxx_sort_ok: "sort_ok int_cxx"
proof -
  have "partially_sorted scores k (sort_key (\<lambda>i. - (scores ! i)) [0..<length scores])"
    for scores :: "int list" and k
  proof -
    let ?idx = "sort_key (\<lambda>i. - (scores ! i)) [0..<length scores]"
    have "sorted (map (\<lambda>i. - (scores ! i)) ?idx)" by (rule sorted_sort_key)
    then have "scores ! (?idx ! j) \<le> scores ! (?idx ! i)" if "i < j" "j < length ?idx" for i j
      using sorted_nth_mono [of "map (\<lambda>i. - (scores ! i)) ?idx" i j] that by simp
    then show ?thesis by (simp add: partially_sorted_def)
  qed
  then show ?thesis by (simp add: sort_ok_def int_cxx_def)
qed

lemma int_cxx_queue_ok: "queue_ok int_cxx"
proof -
  have "q ! max_element (map fst q) \<in> set q \<and> (\<forall>x\<in>set q. fst x \<le> fst (q ! max_element (map fst q)))"
    if "q \<noteq> []" for q :: "(int \<times> nat) list"
    using max_element_first_max [of "map fst q"] that
    by (auto simp: first_max_def in_set_conv_nth) (metis fst_conv)
  then show ?thesis by (simp add: queue_ok_def int_cxx_def)
qed

lemma int_cxx_discrete_ok: "discrete_ok int_cxx"
  by (simp add: discrete_ok_def int_cxx_def)

end
