(* ===== verification/Params.thy ===== *)
theory Params
  imports Cxx
begin

text \<open>
  The parameters of a generation: \<open>Config::Search\<close> (\<open>src/config.h\<close>) and \<open>GeneratorParams\<close>
  (\<open>src/generators.h\<close>). C++ \<open>int\<close> fields are \<open>int\<close>; a loop bound or a size read from one is its
  \<open>nat\<close> value (a negative bound runs no iteration).
\<close>

record 'f Search_cfg =
  do_sample :: bool
  min_length :: int
  max_length :: int
  num_beams :: int
  num_return_sequences :: int
  repetition_penalty :: 'f
  top_k :: int
  top_p :: 'f
  temperature :: 'f
  early_stopping :: bool
  no_repeat_ngram_size :: int
  diversity_penalty :: 'f
  length_penalty :: 'f
  past_present_share_buffer :: bool
  random_seed :: int

datatype DeviceType = CPU | CUDA | DML

definition DeviceType_to_string :: "DeviceType \<Rightarrow> string" where
  "DeviceType_to_string device_type =
     (case device_type of CPU \<Rightarrow> ''CPU'' | CUDA \<Rightarrow> ''CUDA'' | DML \<Rightarrow> ''DirectML'')"

text \<open>The fields a search and a generator read. \<open>extra_inputs\<close> pairs an input name with a tensor of
  type \<open>'t\<close>, the runtime's value type.\<close>

record ('f, 't) GeneratorParams =
  search :: "'f Search_cfg"
  pad_token_id :: int
  eos_token_id :: int
  vocab_size :: int
  context_length :: int
  batch_size :: int
  max_batch_size :: int
  use_cuda_graph :: bool
  sequence_length :: int
  hidden_size :: int
  device_type :: DeviceType
  input_ids :: "int list"
  whisper_input_features :: "'t option"
  extra_inputs :: "(string \<times> 't) list"
  is_cuda_graph_enabled :: bool

definition BatchBeamSize :: "('f, 't) GeneratorParams \<Rightarrow> int" where
  "BatchBeamSize p = num_beams (search p) * batch_size p"

abbreviation nbatch :: "('f, 't) GeneratorParams \<Rightarrow> nat" where
  "nbatch p \<equiv> nat (batch_size p)"

abbreviation nbeams :: "('f, 't) GeneratorParams \<Rightarrow> nat" where
  "nbeams p \<equiv> nat (num_beams (search p))"

abbreviation nvocab :: "('f, 't) GeneratorParams \<Rightarrow> nat" where
  "nvocab p \<equiv> nat (vocab_size p)"

abbreviation nmax_length :: "('f, 't) GeneratorParams \<Rightarrow> nat" where
  "nmax_length p \<equiv> nat (max_length (search p))"

text \<open>What the constructor of \<open>Generator\<close> has checked by the time a search exists.\<close>

definition params_ok :: "('f, 't) GeneratorParams \<Rightarrow> bool" where
  "params_ok p \<longleftrightarrow> 1 \<le> batch_size p \<and> 1 \<le> vocab_size p \<and> 0 \<le> sequence_length p
     \<and> sequence_length p < max_length (search p)
     \<and> length (input_ids p) = nat (sequence_length p) * nbatch p"

lemma nat_BatchBeamSize: "params_ok p \<Longrightarrow> nat (BatchBeamSize p) = nbatch p * nbeams p"
  using nat_mult_distrib [of "batch_size p" "num_beams (search p)"]
  by (simp add: params_ok_def BatchBeamSize_def mult.commute)

section \<open>A concrete instance\<close>

text \<open>Two prompts of one token, a vocabulary of three, room for two more tokens; end-of-sequence id 2,
  pad id 0.\<close>

definition example_search :: "int Search_cfg" where
  "example_search = \<lparr>do_sample = False, min_length = 0, max_length = 3, num_beams = 1,
     num_return_sequences = 1, repetition_penalty = 1, top_k = 0, top_p = 0, temperature = 1,
     early_stopping = True, no_repeat_ngram_size = 0, diversity_penalty = 0, length_penalty = 1,
     past_present_share_buffer = False, random_seed = -1\<rparr>"

definition example_params :: "(int, unit) GeneratorParams" where
  "example_params = \<lparr>search = example_search, pad_token_id = 0, eos_token_id = 2, vocab_size = 3,
     context_length = 8, batch_size = 2, max_batch_size = 0, use_cuda_graph = False,
     sequence_length = 1, hidden_size = 0, device_type = CPU, input_ids = [1, 1],
     whisper_input_features = None, extra_inputs = [], is_cuda_graph_enabled = False\<rparr>"

lemmas example_params_defs = example_params_def example_search_def

lemma example_params_ok: "params_ok example_params"
  by (simp add: params_ok_def example_params_defs)

end
