(* ===== verification/Config.thy ===== *)
theory Config
  imports Params
begin

text \<open>
  \<open>src/config.h\<close>: the configuration of a model and of a search, with the default values of the
  structs, and the two operations on the map of nominal names (\<open>src/config.cpp\<close>). Field names carry a
  prefix for their struct. \<open>Config::Search\<close> is the record of theory \<open>Params\<close>.
\<close>

section \<open>Structs\<close>

type_synonym ProviderOption = "string \<times> string"

record ProviderOptions =
  po_name :: string
  po_options :: "ProviderOption list"

record SessionOptions =
  so_intra_op_num_threads :: "int option"
  so_inter_op_num_threads :: "int option"
  so_enable_cpu_mem_arena :: "bool option"
  so_enable_mem_pattern :: "bool option"
  so_log_id :: "string option"
  so_log_severity_level :: "int option"
  so_enable_profiling :: "string option"
  so_provider_options :: "ProviderOptions list"

record Embedding =
  em_filename :: string
  em_input_ids :: string
  em_embeddings :: string

record Vision =
  vi_filename :: string
  vi_pixel_values :: string
  vi_image_sizes :: string
  vi_visual_features :: string

record Decoder_Inputs =
  di_input_ids :: string
  di_embeddings :: string
  di_position_ids :: string
  di_attention_mask :: string
  di_seqlens_k :: string
  di_total_sequence_length :: string
  di_past_key_names :: string
  di_past_value_names :: string
  di_past_names :: string
  di_cross_past_key_names :: string
  di_cross_past_value_names :: string

record Decoder_Outputs =
  do_logits :: string
  do_present_key_names :: string
  do_present_value_names :: string
  do_present_names :: string
  do_cross_present_key_names :: string
  do_cross_present_value_names :: string

record Decoder =
  de_filename :: string
  de_session_options :: SessionOptions
  de_hidden_size :: int
  de_num_attention_heads :: int
  de_num_key_value_heads :: int
  de_num_hidden_layers :: int
  de_head_size :: int
  de_inputs :: Decoder_Inputs
  de_outputs :: Decoder_Outputs

record Model_cfg =
  mo_type :: string
  mo_pad_token_id :: int
  mo_eos_token_id :: int
  mo_eos_token_ids :: "int list"
  mo_bos_token_id :: int
  mo_sep_token_id :: int
  mo_decoder_start_token_id :: int
  mo_vocab_size :: int
  mo_context_length :: int
  mo_encoder_decoder_init :: string
  mo_embedding :: Embedding
  mo_vision :: Vision
  mo_decoder :: Decoder

record 'f Config =
  co_config_path :: string
  co_model :: Model_cfg
  co_search :: "'f Search_cfg"
  co_nominal_names :: "string \<rightharpoonup> string"

section \<open>Default values\<close>

definition SessionOptions_default :: SessionOptions where
  "SessionOptions_default = \<lparr>so_intra_op_num_threads = None, so_inter_op_num_threads = None,
     so_enable_cpu_mem_arena = None, so_enable_mem_pattern = None, so_log_id = None,
     so_log_severity_level = None, so_enable_profiling = None, so_provider_options = []\<rparr>"

definition Decoder_Inputs_default :: Decoder_Inputs where
  "Decoder_Inputs_default = \<lparr>di_input_ids = ''input_ids'', di_embeddings = ''inputs_embeds'',
     di_position_ids = ''position_ids'', di_attention_mask = ''attention_mask'', di_seqlens_k = ''seqlens_k'',
     di_total_sequence_length = ''total_seq_len'', di_past_key_names = ''past_key_values.%d.key'',
     di_past_value_names = ''past_key_values.%d.value'', di_past_names = [], di_cross_past_key_names = [],
     di_cross_past_value_names = []\<rparr>"

definition Decoder_Outputs_default :: Decoder_Outputs where
  "Decoder_Outputs_default = \<lparr>do_logits = ''logits'', do_present_key_names = ''present.%d.key'',
     do_present_value_names = ''present.%d.value'', do_present_names = [], do_cross_present_key_names = [],
     do_cross_present_value_names = []\<rparr>"

definition Decoder_default :: Decoder where
  "Decoder_default = \<lparr>de_filename = [], de_session_options = SessionOptions_default, de_hidden_size = 0,
     de_num_attention_heads = 0, de_num_key_value_heads = 0, de_num_hidden_layers = 0, de_head_size = 0,
     de_inputs = Decoder_Inputs_default, de_outputs = Decoder_Outputs_default\<rparr>"

definition Embedding_default :: Embedding where
  "Embedding_default = \<lparr>em_filename = [], em_input_ids = ''input_ids'', em_embeddings = ''inputs_embeds''\<rparr>"

definition Vision_default :: Vision where
  "Vision_default = \<lparr>vi_filename = [], vi_pixel_values = ''pixel_values'', vi_image_sizes = ''image_sizes'',
     vi_visual_features = ''visual_features''\<rparr>"

definition Model_cfg_default :: Model_cfg where
  "Model_cfg_default = \<lparr>mo_type = [], mo_pad_token_id = 0, mo_eos_token_id = 0, mo_eos_token_ids = [],
     mo_bos_token_id = 0, mo_sep_token_id = 0, mo_decoder_start_token_id = 0, mo_vocab_size = 0,
     mo_context_length = 0, mo_encoder_decoder_init = [], mo_embedding = Embedding_default,
     mo_vision = Vision_default, mo_decoder = Decoder_default\<rparr>"

definition Search_default :: "('f, 'g, 'z) cxx_scheme \<Rightarrow> 'f Search_cfg" where
  "Search_default cx = \<lparr>do_sample = False, min_length = 0, max_length = 0, num_beams = 1,
     num_return_sequences = 1, repetition_penalty = fone cx, top_k = 0, top_p = fzero cx,
     temperature = fone cx, early_stopping = True, no_repeat_ngram_size = 0, diversity_penalty = fzero cx,
     length_penalty = fone cx, past_present_share_buffer = False, random_seed = -1\<rparr>"

definition Config_default :: "('f, 'g, 'z) cxx_scheme \<Rightarrow> string \<Rightarrow> 'f Config" where
  "Config_default cx path = \<lparr>co_config_path = path, co_model = Model_cfg_default,
     co_search = Search_default cx, co_nominal_names = Map.empty\<rparr>"

lemmas config_defaults = SessionOptions_default_def Decoder_Inputs_default_def Decoder_Outputs_default_def
  Decoder_default_def Embedding_default_def Vision_default_def Model_cfg_default_def Search_default_def
  Config_default_def

section \<open>Nominal names\<close>

definition AddMapping :: "string \<Rightarrow> string \<Rightarrow> 'f Config \<Rightarrow> 'f Config res" where
  "AddMapping nominal_name graph_name c =
     (case co_nominal_names c nominal_name of
        None \<Rightarrow> Inr (c\<lparr>co_nominal_names := (co_nominal_names c)(nominal_name \<mapsto> graph_name)\<rparr>)
      | Some g \<Rightarrow>
          if g \<noteq> graph_name then
            Inl (RuntimeError (''Duplicate nominal name: '' @ nominal_name @ '' with graph names: ''
                               @ graph_name @ '' and '' @ g))
          else Inr c)"

definition GetGraphName :: "'f Config \<Rightarrow> string \<Rightarrow> string \<times> bool" where
  "GetGraphName c nominal_name =
     (case co_nominal_names c nominal_name of None \<Rightarrow> (nominal_name, False) | Some g \<Rightarrow> (g, True))"

text \<open>Whether graph capture is enabled: the first \<open>cuda\<close> entry that has the option, or a \<open>dml\<close> entry
  before it, decides.\<close>

fun find_option :: "string \<Rightarrow> ProviderOption list \<Rightarrow> string option" where
  "find_option key [] = None"
| "find_option key (kv # opts) = (if fst kv = key then Some (snd kv) else find_option key opts)"

fun cuda_graph_in :: "ProviderOptions list \<Rightarrow> bool" where
  "cuda_graph_in [] = False"
| "cuda_graph_in (p # ps) =
     (if po_name p = ''cuda'' then
        (case find_option ''enable_cuda_graph'' (po_options p) of
           Some v \<Rightarrow> v = ''1''
         | None \<Rightarrow> cuda_graph_in ps)
      else if po_name p = ''dml'' then True
      else cuda_graph_in ps)"

definition IsCudaGraphEnabled :: "SessionOptions \<Rightarrow> bool" where
  "IsCudaGraphEnabled session_options = cuda_graph_in (so_provider_options session_options)"

text \<open>The map of nominal names keeps its bindings: adding one succeeds exactly when the name is
  unbound or bound to the same graph name, afterwards the name resolves to the graph name, and every
  other name resolves as before; an unbound name resolves to itself.\<close>

theorem AddMapping_GetGraphName:
  "((\<exists>c'. AddMapping n g c = Inr c') \<longleftrightarrow> (snd (GetGraphName c n) \<longrightarrow> fst (GetGraphName c n) = g))
   \<and> (\<forall>c'. AddMapping n g c = Inr c' \<longrightarrow> GetGraphName c' n = (g, True)
        \<and> (\<forall>m. m \<noteq> n \<longrightarrow> GetGraphName c' m = GetGraphName c m) \<and> AddMapping n g c' = Inr c')"
  by (auto simp: AddMapping_def GetGraphName_def split: option.splits if_splits)

theorem AddMapping_GetGraphName_witness:
  "\<exists>c'. AddMapping ''input_ids'' ''ids'' (Config_default int_cxx []) = Inr c'
     \<and> GetGraphName c' ''input_ids'' = (''ids'', True) \<and> GetGraphName c' ''x'' = (''x'', False)"
  using AddMapping_GetGraphName [of "''input_ids''" "''ids''" "Config_default int_cxx []"]
  by (auto simp: GetGraphName_def config_defaults)

end
