(* ===== verification/Json.thy ===== *)
theory Json
  imports Prelude
begin

text \<open>
  \<open>src/json.h\<close>, \<open>src/json.cpp\<close>: the event-driven JSON parser. A document is the list of its
  characters and the position \<open>current_\<close> is the unread rest. The tree of \<open>JSON::Element\<close> objects a
  caller supplies is a record of handlers over element names \<open>'e\<close> and the state \<open>'s\<close> they write.
  An error carries the rest at which it was raised, from which the parser's message computes line and
  index. The mutually recursive functions are bounded by fuel; the lemmas show that three times
  the length of the document is always enough, and that parsing a printed document visits its tree.
\<close>

section \<open>Handlers\<close>

record ('e, 's, 'd) Element =
  OnComplete :: "'e \<Rightarrow> bool \<Rightarrow> 's \<Rightarrow> 's res"
  OnString :: "'e \<Rightarrow> string \<Rightarrow> string \<Rightarrow> 's \<Rightarrow> 's res"
  OnNumber :: "'e \<Rightarrow> string \<Rightarrow> 'd \<Rightarrow> 's \<Rightarrow> 's res"
  OnBool :: "'e \<Rightarrow> string \<Rightarrow> bool \<Rightarrow> 's \<Rightarrow> 's res"
  OnNull :: "'e \<Rightarrow> string \<Rightarrow> 's \<Rightarrow> 's res"
  OnArray :: "'e \<Rightarrow> string \<Rightarrow> 's \<Rightarrow> ('e \<times> 's) res"
  OnObject :: "'e \<Rightarrow> string \<Rightarrow> 's \<Rightarrow> ('e \<times> 's) res"
  from_chars :: "string \<Rightarrow> ('d \<times> string) option"  \<comment> \<open>\<open>std::from_chars\<close> on doubles\<close>

text \<open>What \<open>from_chars\<close> guarantees: a number is a non-empty prefix.\<close>

definition from_chars_ok :: "('e, 's, 'd, 'z) Element_scheme \<Rightarrow> bool" where
  "from_chars_ok H \<longleftrightarrow> (\<forall>s v r. from_chars H s = Some (v, r) \<longrightarrow> (\<exists>p. p \<noteq> [] \<and> s = p @ r))"

section \<open>The parser\<close>

datatype perr = Err err string | OutOfFuel

type_synonym 'a pres = "perr + 'a"

definition lift_at :: "string \<Rightarrow> 'a res \<Rightarrow> 'a pres" where
  "lift_at rest m = (case m of Inl e \<Rightarrow> Inl (Err e rest) | Inr x \<Rightarrow> Inr x)"

definition fail_at :: "string \<Rightarrow> string \<Rightarrow> 'a pres" where
  "fail_at rest msg = Inl (Err (RuntimeError msg) rest)"

definition is_space :: "char \<Rightarrow> bool" where
  "is_space c \<longleftrightarrow> c = CHR 0x20 \<or> c = CHR 0x09 \<or> c = CHR 0x0D \<or> c = CHR 0x0A"

definition Parse_Whitespace :: "string \<Rightarrow> string" where
  "Parse_Whitespace rest = dropWhile is_space rest"

definition Skip :: "char \<Rightarrow> string \<Rightarrow> bool \<times> string" where
  "Skip c rest = (case rest of [] \<Rightarrow> (False, rest) | d # r \<Rightarrow> if d = c then (True, r) else (False, rest))"

text \<open>The comparison with \<open>end_\<close> wants at least one character behind the literal.\<close>

definition Skip_literal :: "string \<Rightarrow> string \<Rightarrow> bool \<times> string" where
  "Skip_literal sz rest =
     (if length rest \<le> length sz \<or> take (length sz) rest \<noteq> sz then (False, rest)
      else (True, drop (length sz) rest))"

definition GetChar :: "string \<Rightarrow> (char \<times> string) pres" where
  "GetChar rest = (case rest of [] \<Rightarrow> fail_at [] ''Unexpected end of JSON data'' | c # r \<Rightarrow> Inr (c, r))"

definition unescape :: "char \<Rightarrow> char" where
  "unescape c = (if c = CHR ''b'' then CHR 0x08 else if c = CHR ''n'' then CHR 0x0A
     else if c = CHR ''f'' then CHR 0x0C else if c = CHR ''r'' then CHR 0x0D
     else if c = CHR ''t'' then CHR 0x09 else c)"

definition is_hex :: "char \<Rightarrow> bool" where
  "is_hex c \<longleftrightarrow> is_digit c \<or> (let n = of_char c :: nat in 97 \<le> n \<and> n \<le> 102 \<or> 65 \<le> n \<and> n \<le> 70)"

text \<open>A NUL character ends a string like a quote does.\<close>

fun Parse_String :: "string \<Rightarrow> string \<Rightarrow> (string \<times> string) pres" where
  "Parse_String acc [] = fail_at [] ''Unexpected end of JSON data''"
| "Parse_String acc (c # r) =
     (if c = CHR 0x00 \<or> c = CHR 0x22 then Inr (rev acc, r)
      else if c = CHR 0x5C then
        (case r of
           [] \<Rightarrow> fail_at [] ''Unexpected end of JSON data''
         | d # r' \<Rightarrow>
             if d = CHR ''u'' then
               (if length r' < 4 then fail_at r' ''End of file parsing string uXXXX code''
                else if \<not> list_all is_hex (take 4 r') then fail_at r' ''Error parsing uXXXX code''
                else fail_at (drop 4 r') ''Unsupported uXXXX code used'')
             else Parse_String (unescape d # acc) r')
      else Parse_String (c # acc) r)"

definition Parse_Number :: "('e, 's, 'd, 'z) Element_scheme \<Rightarrow> string \<Rightarrow> ('d \<times> string) pres" where
  "Parse_Number H rest = (case from_chars H rest of None \<Rightarrow> fail_at rest ''Expecting number'' | Some x \<Rightarrow> Inr x)"

text \<open>\<open>catch (const unknown_value_error&)\<close>\<close>

definition catch_unknown :: "string \<Rightarrow> 'a pres \<Rightarrow> 'a pres" where
  "catch_unknown name m = (case m of
     Inl (Err UnknownValueError pos) \<Rightarrow> fail_at pos (''Unknown value: '' @ name)
   | _ \<Rightarrow> m)"

text \<open>The five parsing loops call each other: a task names the function to run and its arguments, the
  body of each function takes the parser for the calls it makes, and \<open>run\<close> ties the knot with fuel.
  \<open>Members\<close> and \<open>Items\<close> are the \<open>while\<close> loops of \<open>Parse_Object\<close> and \<open>Parse_Array\<close>.\<close>

datatype 'e task = Value 'e string | Object 'e | Members 'e | Array 'e | Items 'e

type_synonym ('e, 's) parser = "'e task \<Rightarrow> 's \<Rightarrow> string \<Rightarrow> ('s \<times> string) pres"

definition event :: "string \<Rightarrow> 's res \<Rightarrow> ('s \<times> string) pres" where
  "event r m = res_bind (lift_at r m) (\<lambda>st'. Inr (st', r))"

definition literal :: "string \<Rightarrow> ('s \<Rightarrow> 's res) \<Rightarrow> 's \<Rightarrow> string \<Rightarrow> ('s \<times> string) pres" where
  "literal sz act st r = (case Skip_literal sz r of (ok, r') \<Rightarrow> if ok then event r' (act st) else Inr (st, r'))"

definition value_switch :: "('e, 's) parser \<Rightarrow> ('e, 's, 'd, 'z) Element_scheme \<Rightarrow> 'e \<Rightarrow> string \<Rightarrow> 's \<Rightarrow>
    char \<Rightarrow> string \<Rightarrow> ('s \<times> string) pres" where
  "value_switch rec H e name st c r =
     (if c = CHR 0x7B then res_bind (lift_at r (OnObject H e name st)) (\<lambda>(e', st'). rec (Object e') st' r)
      else if c = CHR 0x5B then res_bind (lift_at r (OnArray H e name st)) (\<lambda>(e', st'). rec (Array e') st' r)
      else if c = CHR 0x22 then res_bind (Parse_String [] r) (\<lambda>(v, r'). event r' (OnString H e name v st))
      else if c = CHR ''t'' then literal ''rue'' (OnBool H e name True) st r
      else if c = CHR ''f'' then literal ''alse'' (OnBool H e name False) st r
      else if c = CHR ''n'' then literal ''ull'' (OnNull H e name) st r
      else if is_digit c \<or> c = CHR ''-'' then
        res_bind (Parse_Number H (c # r)) (\<lambda>(v, r'). event r' (OnNumber H e name v st))
      else Inr (st, r))"

definition Parse_Value :: "('e, 's) parser \<Rightarrow> ('e, 's, 'd, 'z) Element_scheme \<Rightarrow> 'e \<Rightarrow> string \<Rightarrow> 's \<Rightarrow> string \<Rightarrow>
    ('s \<times> string) pres" where
  "Parse_Value rec H e name st rest =
     res_bind (catch_unknown name
       (res_bind (GetChar (Parse_Whitespace rest)) (\<lambda>(c, r). value_switch rec H e name st c r)))
       (\<lambda>(st', r). Inr (st', Parse_Whitespace r))"

definition Parse_Object :: "('e, 's) parser \<Rightarrow> ('e, 's, 'd, 'z) Element_scheme \<Rightarrow> 'e \<Rightarrow> 's \<Rightarrow> string \<Rightarrow> ('s \<times> string) pres" where
  "Parse_Object rec H e st rest =
     (case Skip CHR 0x7D (Parse_Whitespace rest) of (ok, r) \<Rightarrow>
        if ok then event r (OnComplete H e True st) else rec (Members e) st r)"

definition after_member :: "('e, 's) parser \<Rightarrow> ('e, 's, 'd, 'z) Element_scheme \<Rightarrow> 'e \<Rightarrow> 's \<Rightarrow> string \<Rightarrow> ('s \<times> string) pres" where
  "after_member rec H e st r =
     res_bind (GetChar r) (\<lambda>(c, r').
       if c = CHR '','' then rec (Members e) st (Parse_Whitespace r')
       else if c = CHR 0x7D then event r' (OnComplete H e False st)
       else fail_at r' ''Expecting } or ,'')"

definition Parse_Members :: "('e, 's) parser \<Rightarrow> ('e, 's, 'd, 'z) Element_scheme \<Rightarrow> 'e \<Rightarrow> 's \<Rightarrow> string \<Rightarrow> ('s \<times> string) pres" where
  "Parse_Members rec H e st rest =
     (case Skip CHR 0x22 rest of (ok, r) \<Rightarrow>
        if \<not> ok then fail_at r (''Expecting '' @ [CHR 0x22] @
          '' to start next object name, possibly due to an extra trailing '' @ [CHR 0x27, CHR 0x2C, CHR 0x27] @ '' before this'')
        else res_bind (Parse_String [] r) (\<lambda>(name, r1).
             res_bind (GetChar (Parse_Whitespace r1)) (\<lambda>(c, r2).
             if c \<noteq> CHR '':'' then fail_at r2 ''Expecting :''
             else res_bind (rec (Value e name) st r2) (\<lambda>(st', r3). after_member rec H e st' r3))))"

definition Parse_Array :: "('e, 's) parser \<Rightarrow> ('e, 's, 'd, 'z) Element_scheme \<Rightarrow> 'e \<Rightarrow> 's \<Rightarrow> string \<Rightarrow> ('s \<times> string) pres" where
  "Parse_Array rec H e st rest =
     (case Skip CHR 0x5D (Parse_Whitespace rest) of (ok, r) \<Rightarrow>
        if ok then event r (OnComplete H e True st) else rec (Items e) st r)"

definition after_item :: "('e, 's) parser \<Rightarrow> ('e, 's, 'd, 'z) Element_scheme \<Rightarrow> 'e \<Rightarrow> 's \<Rightarrow> string \<Rightarrow> ('s \<times> string) pres" where
  "after_item rec H e st r =
     res_bind (GetChar r) (\<lambda>(c, r').
       if c = CHR '','' then rec (Items e) st r'
       else if c = CHR 0x5D then event r' (OnComplete H e False st)
       else fail_at r' ''Expecting ] or ,'')"

definition Parse_Items :: "('e, 's) parser \<Rightarrow> ('e, 's, 'd, 'z) Element_scheme \<Rightarrow> 'e \<Rightarrow> 's \<Rightarrow> string \<Rightarrow> ('s \<times> string) pres" where
  "Parse_Items rec H e st rest =
     res_bind (rec (Value e []) st rest) (\<lambda>(st', r). after_item rec H e st' r)"

primrec run :: "nat \<Rightarrow> ('e, 's, 'd, 'z) Element_scheme \<Rightarrow> ('e, 's) parser" where
  "run 0 H t st rest = Inl OutOfFuel"
| "run (Suc n) H t st rest = (case t of
     Value e name \<Rightarrow> Parse_Value (run n H) H e name st rest
   | Object e \<Rightarrow> Parse_Object (run n H) H e st rest
   | Members e \<Rightarrow> Parse_Members (run n H) H e st rest
   | Array e \<Rightarrow> Parse_Array (run n H) H e st rest
   | Items e \<Rightarrow> Parse_Items (run n H) H e st rest)"

text \<open>The constructor of \<open>JSON\<close> reports the line of an error (counting line feeds before it) and its
  distance from the last line feed.\<close>

definition err_what :: "err \<Rightarrow> string" where
  "err_what e = (case e of RuntimeError m \<Rightarrow> m | _ \<Rightarrow> ''std::exception'')"

definition json_error :: "string \<Rightarrow> err \<Rightarrow> string \<Rightarrow> string" where
  "json_error document e pos =
     (let consumed = take (length document - length pos) document;
          line = Suc (count_list consumed CHR 0x0A);
          index = (if CHR 0x0A \<in> set consumed then Suc (length (takeWhile (\<lambda>c. c \<noteq> CHR 0x0A) (rev consumed)))
                   else length consumed)
      in ''JSON Error: '' @ err_what e @ '' at line '' @ nat_to_string line @ '' index '' @ nat_to_string index)"

definition Parse :: "('e, 's, 'd, 'z) Element_scheme \<Rightarrow> 'e \<Rightarrow> 's \<Rightarrow> string \<Rightarrow> 's pres" where
  "Parse H e st document =
     (case run (3 * length document + 1) H (Value e []) st document of
        Inl OutOfFuel \<Rightarrow> Inl OutOfFuel
      | Inl (Err er pos) \<Rightarrow> fail_at pos (json_error document er pos)
      | Inr (st', _) \<Rightarrow> Inr st')"

section \<open>Termination: enough fuel\<close>

lemma GetChar_Inr [simp]: "GetChar rest = Inr (c, r) \<longleftrightarrow> rest = c # r"
  by (cases rest) (auto simp: GetChar_def fail_at_def)

lemma GetChar_fuel [simp]: "GetChar rest \<noteq> Inl OutOfFuel"
  by (cases rest) (auto simp: GetChar_def fail_at_def)

lemma length_Parse_Whitespace: "length (Parse_Whitespace rest) \<le> length rest"
  by (simp add: Parse_Whitespace_def length_dropWhile_le)

lemma Parse_String_consumes: "Parse_String acc rest = Inr (v, r) \<Longrightarrow> length r < length rest"
proof (induction acc rest rule: Parse_String.induct)
  case (2 acc c r')
  then show ?case
    by (fastforce simp: fail_at_def split: if_splits list.splits)
qed (simp add: fail_at_def)

lemma Parse_String_fuel: "Parse_String acc rest \<noteq> Inl OutOfFuel"
  by (induction acc rest rule: Parse_String.induct) (auto simp: fail_at_def split: list.splits)

lemma Skip_length: "Skip c rest = (ok, r) \<Longrightarrow> length r \<le> length rest"
  by (auto simp: Skip_def split: list.splits if_splits)

lemma Skip_True: "Skip c rest = (True, r) \<Longrightarrow> rest = c # r"
  by (auto simp: Skip_def split: list.splits if_splits)

lemma lift_at_Inr [simp]: "lift_at r m = Inr x \<longleftrightarrow> m = Inr x"
  by (cases m) (auto simp: lift_at_def)

lemma lift_at_fuel [simp]: "lift_at r m \<noteq> Inl OutOfFuel"
  by (cases m) (auto simp: lift_at_def)

lemma event_Inr [simp]: "event r m = Inr (st, r') \<longleftrightarrow> m = Inr st \<and> r' = r"
  by (auto simp: event_def res_bind_eq_Inr)

lemma res_bind_fuel:
  "m \<noteq> Inl OutOfFuel \<Longrightarrow> (\<And>x. m = Inr x \<Longrightarrow> f x \<noteq> Inl OutOfFuel) \<Longrightarrow> res_bind m f \<noteq> Inl OutOfFuel"
  by (cases m) auto

lemma event_fuel [simp]: "event r m \<noteq> Inl OutOfFuel"
  unfolding event_def by (rule res_bind_fuel) auto

lemma catch_unknown_Inr [simp]: "catch_unknown name m = Inr x \<longleftrightarrow> m = Inr x"
  by (auto simp: catch_unknown_def fail_at_def split: sum.splits perr.splits err.splits)

lemma catch_unknown_fuel [simp]: "catch_unknown name m = Inl OutOfFuel \<longleftrightarrow> m = Inl OutOfFuel"
  by (auto simp: catch_unknown_def fail_at_def split: sum.splits perr.splits err.splits)

lemma fail_at_simps [simp]: "fail_at r m \<noteq> Inl OutOfFuel" "fail_at r m \<noteq> Inr x"
  by (auto simp: fail_at_def)

lemma literal_Inr: "literal sz act st r = Inr (st', r') \<Longrightarrow> length r' \<le> length r"
  by (auto simp: literal_def Skip_literal_def split: if_splits)

lemma literal_fuel [simp]: "literal sz act st r \<noteq> Inl OutOfFuel"
  by (auto simp: literal_def Skip_literal_def)

lemma Parse_Number_Inr: "from_chars_ok H \<Longrightarrow> Parse_Number H rest = Inr (v, r) \<Longrightarrow> length r < length rest"
  by (fastforce simp: Parse_Number_def from_chars_ok_def split: option.splits)

lemma Parse_Number_fuel [simp]: "Parse_Number H rest \<noteq> Inl OutOfFuel"
  by (auto simp: Parse_Number_def split: option.splits)

text \<open>Every function leaves a rest no longer than what it was given, and \<open>Parse_Value\<close> a shorter one.\<close>

definition consumes :: "('e, 's) parser \<Rightarrow> bool" where
  "consumes rec \<longleftrightarrow> (\<forall>t st rest st' r. rec t st rest = Inr (st', r) \<longrightarrow> length r \<le> length rest)"

lemma consumesD: "consumes rec \<Longrightarrow> rec t st rest = Inr (st', r) \<Longrightarrow> length r \<le> length rest"
  by (auto simp: consumes_def)

lemma value_switch_consumes:
  assumes "consumes rec" and "from_chars_ok H" and "value_switch rec H e name st c r = Inr (st', r')"
  shows "length r' \<le> length r"
  using assms(3) unfolding value_switch_def
  by (elim if_eqE)
    (auto simp: res_bind_eq_Inr dest: Parse_String_consumes Parse_Number_Inr [OF assms(2)] literal_Inr
       consumesD [OF assms(1)])

lemma Parse_Value_consumes:
  assumes "consumes rec" and "from_chars_ok H" and "Parse_Value rec H e name st rest = Inr (st', r')"
  shows "length r' < length rest"
proof -
  obtain c r st1 r1 where "Parse_Whitespace rest = c # r" "value_switch rec H e name st c r = Inr (st1, r1)"
    "r' = Parse_Whitespace r1"
    using assms(3) by (auto simp: Parse_Value_def res_bind_eq_Inr)
  then show ?thesis
    using value_switch_consumes [OF assms(1,2)] length_Parse_Whitespace [of rest] length_Parse_Whitespace [of r1]
    by fastforce
qed

lemma after_member_consumes:
  "consumes rec \<Longrightarrow> after_member rec H e st r = Inr (st', r') \<Longrightarrow> length r' \<le> length r"
  using length_Parse_Whitespace
  by (auto simp: after_member_def res_bind_eq_Inr elim!: if_eqE dest!: consumesD) (meson le_SucI order_trans)

lemma after_item_consumes:
  "consumes rec \<Longrightarrow> after_item rec H e st r = Inr (st', r') \<Longrightarrow> length r' \<le> length r"
  by (auto simp: after_item_def res_bind_eq_Inr elim!: if_eqE dest!: consumesD)

text \<open>What a successful round of the object loop has read.\<close>

lemma Parse_Members_Inr:
  assumes "Parse_Members rec H e st rest = Inr res"
  obtains r0 name r1 r2 st1 r3 where "rest = CHR 0x22 # r0" "Parse_String [] r0 = Inr (name, r1)"
    "Parse_Whitespace r1 = CHR '':'' # r2" "rec (Value e name) st r2 = Inr (st1, r3)"
    "after_member rec H e st1 r3 = Inr res"
proof -
  obtain ok r where sk: "Skip CHR 0x22 rest = (ok, r)" by fastforce
  have ok: "ok"
  proof (rule ccontr)
    assume "\<not> ok"
    then show False using assms sk by (simp add: Parse_Members_def)
  qed
  then have "res_bind (Parse_String [] r) (\<lambda>(name, r1). res_bind (GetChar (Parse_Whitespace r1)) (\<lambda>(c, r2).
       if c \<noteq> CHR '':'' then fail_at r2 ''Expecting :''
       else res_bind (rec (Value e name) st r2) (\<lambda>(st', r3). after_member rec H e st' r3))) = Inr res"
    using assms sk by (simp add: Parse_Members_def)
  then obtain name r1 c r2 where n: "Parse_String [] r = Inr (name, r1)" "Parse_Whitespace r1 = c # r2"
    "(if c \<noteq> CHR '':'' then fail_at r2 ''Expecting :''
       else res_bind (rec (Value e name) st r2) (\<lambda>(st', r3). after_member rec H e st' r3)) = Inr res"
    by (auto simp: res_bind_eq_Inr simp del: if_split)
  then have "c = CHR '':''" by (auto split: if_splits)
  with n obtain st1 r3 where "rec (Value e name) st r2 = Inr (st1, r3)" "after_member rec H e st1 r3 = Inr res"
    by (auto simp: res_bind_eq_Inr)
  with n \<open>c = CHR '':''\<close> Skip_True [of "CHR 0x22" rest r] sk ok show thesis by (intro that) auto
qed

lemma Parse_Members_consumes:
  assumes "consumes rec" and "Parse_Members rec H e st rest = Inr (st', r')"
  shows "length r' \<le> length rest"
proof (rule Parse_Members_Inr [OF assms(2)])
  fix r0 name r1 r2 st1 r3
  assume p: "rest = CHR 0x22 # r0" "Parse_String [] r0 = Inr (name, r1)" "Parse_Whitespace r1 = CHR '':'' # r2"
    "rec (Value e name) st r2 = Inr (st1, r3)" "after_member rec H e st1 r3 = Inr (st', r')"
  then show ?thesis
    using Parse_String_consumes [OF p(2)] length_Parse_Whitespace [of r1] consumesD [OF assms(1) p(4)]
      after_member_consumes [OF assms(1) p(5)] by simp
qed

lemma Parse_Items_consumes:
  assumes "consumes rec" and "Parse_Items rec H e st rest = Inr (st', r')"
  shows "length r' \<le> length rest"
  using assms(2) consumesD [OF assms(1)] after_item_consumes [OF assms(1)]
  by (fastforce simp: Parse_Items_def res_bind_eq_Inr)

lemma run_consumes: "from_chars_ok H \<Longrightarrow> consumes (run n H)"
proof (induction n)
  case 0
  show ?case by (simp add: consumes_def)
next
  case (Suc n)
  have rec: "consumes (run n H)" using Suc by blast
  have "length r \<le> length rest" if "run (Suc n) H t st rest = Inr (st', r)" for t st rest st' r
  proof (cases t)
    case (Value e name)
    then show ?thesis using that Parse_Value_consumes [OF rec Suc.prems] by fastforce
  next
    case (Members e)
    then show ?thesis using that Parse_Members_consumes [OF rec] by simp
  next
    case (Items e)
    then show ?thesis using that Parse_Items_consumes [OF rec] by simp
  next
    case (Object e)
    then show ?thesis
      using that length_Parse_Whitespace [of rest]
      by (fastforce simp: Parse_Object_def split: prod.splits if_splits dest: Skip_length consumesD [OF rec])
  next
    case (Array e)
    then show ?thesis
      using that length_Parse_Whitespace [of rest]
      by (fastforce simp: Parse_Array_def split: prod.splits if_splits dest: Skip_length consumesD [OF rec])
  qed
  then show ?case by (auto simp: consumes_def)
qed

text \<open>The fuel a task needs, by the length of the rest.\<close>

definition need :: "'e task \<Rightarrow> nat \<Rightarrow> nat" where
  "need t len = 3 * len + (case t of Value _ _ \<Rightarrow> 1 | Object _ \<Rightarrow> 3 | Members _ \<Rightarrow> 2 | Array _ \<Rightarrow> 3 | Items _ \<Rightarrow> 2)"

definition fueled :: "('e, 's) parser \<Rightarrow> nat \<Rightarrow> bool" where
  "fueled rec n \<longleftrightarrow> (\<forall>t st rest. need t (length rest) \<le> n \<longrightarrow> rec t st rest \<noteq> Inl OutOfFuel)"

lemma fueledD: "fueled rec n \<Longrightarrow> need t (length rest) \<le> n \<Longrightarrow> rec t st rest \<noteq> Inl OutOfFuel"
  by (auto simp: fueled_def)

lemma if_fuel:
  "x \<noteq> Inl OutOfFuel \<Longrightarrow> y \<noteq> Inl OutOfFuel \<Longrightarrow> (if b then x else y) \<noteq> Inl OutOfFuel"
  by simp

lemma value_switch_fuel:
  assumes "fueled rec n" and "3 * length r + 3 \<le> n"
  shows "value_switch rec H e name st c r \<noteq> Inl OutOfFuel"
proof -
  have "rec (Object e') st' r \<noteq> Inl OutOfFuel" "rec (Array e') st' r \<noteq> Inl OutOfFuel" for e' st'
    using assms(2) by (auto intro!: fueledD [OF assms(1)] simp: need_def)
  then show ?thesis
    unfolding value_switch_def
    by (intro if_fuel res_bind_fuel Parse_String_fuel literal_fuel) (auto split: prod.splits)
qed

lemma Parse_Value_fuel:
  assumes "fueled rec n" and "need (Value e name) (length rest) \<le> Suc n"
  shows "Parse_Value rec H e name st rest \<noteq> Inl OutOfFuel"
proof -
  have "res_bind (GetChar (Parse_Whitespace rest)) (\<lambda>(c, r). value_switch rec H e name st c r) \<noteq> Inl OutOfFuel"
  proof (rule res_bind_fuel)
    fix x assume x: "GetChar (Parse_Whitespace rest) = Inr x"
    obtain c r where cr: "x = (c, r)" by (cases x)
    then have "Parse_Whitespace rest = c # r" using x by simp
    then have "length (c # r) \<le> length rest" using length_Parse_Whitespace [of rest] by simp
    then have "3 * length r + 3 \<le> n" using assms(2) by (simp add: need_def)
    then show "(case x of (c, r) \<Rightarrow> value_switch rec H e name st c r) \<noteq> Inl OutOfFuel"
      using value_switch_fuel [OF assms(1)] cr by simp
  qed simp
  then show ?thesis unfolding Parse_Value_def by (intro res_bind_fuel) auto
qed

lemma after_member_fuel:
  assumes "fueled rec n" and "3 * length r \<le> n"
  shows "after_member rec H e st r \<noteq> Inl OutOfFuel"
  unfolding after_member_def
proof (rule res_bind_fuel)
  fix x assume "GetChar r = Inr x"
  then obtain c r' where x: "x = (c, r')" "r = c # r'" by (cases x) auto
  have "rec (Members e) st (Parse_Whitespace r') \<noteq> Inl OutOfFuel"
    using assms(2) x length_Parse_Whitespace [of r'] by (intro fueledD [OF assms(1)]) (simp add: need_def)
  then show "(case x of (c, r') \<Rightarrow>
       if c = CHR '','' then rec (Members e) st (Parse_Whitespace r')
       else if c = CHR 0x7D then event r' (OnComplete H e False st)
       else fail_at r' ''Expecting } or ,'') \<noteq> Inl OutOfFuel"
    unfolding x prod.case by (intro if_fuel) simp_all
qed simp

lemma after_item_fuel:
  assumes "fueled rec n" and "3 * length r \<le> n"
  shows "after_item rec H e st r \<noteq> Inl OutOfFuel"
  unfolding after_item_def
proof (rule res_bind_fuel)
  fix x assume "GetChar r = Inr x"
  then obtain c r' where x: "x = (c, r')" "r = c # r'" by (cases x) auto
  have "rec (Items e) st r' \<noteq> Inl OutOfFuel"
    using assms(2) x by (intro fueledD [OF assms(1)]) (simp add: need_def)
  then show "(case x of (c, r') \<Rightarrow>
       if c = CHR '','' then rec (Items e) st r'
       else if c = CHR 0x5D then event r' (OnComplete H e False st)
       else fail_at r' ''Expecting ] or ,'') \<noteq> Inl OutOfFuel"
    unfolding x prod.case by (intro if_fuel) simp_all
qed simp

lemma Parse_Items_fuel:
  assumes "fueled rec n" and "consumes rec" and "need (Items e) (length rest) \<le> Suc n"
  shows "Parse_Items rec H e st rest \<noteq> Inl OutOfFuel"
  unfolding Parse_Items_def
proof (rule res_bind_fuel)
  show "rec (Value e []) st rest \<noteq> Inl OutOfFuel"
    using assms(3) by (intro fueledD [OF assms(1)]) (simp add: need_def)
  fix x assume "rec (Value e []) st rest = Inr x"
  then show "(case x of (st', r) \<Rightarrow> after_item rec H e st' r) \<noteq> Inl OutOfFuel"
    using assms(3) consumesD [OF assms(2)]
    by (cases x) (force intro!: after_item_fuel [OF assms(1)] simp: need_def)
qed

lemma Parse_Members_fuel:
  assumes "fueled rec n" and "consumes rec" and "need (Members e) (length rest) \<le> Suc n"
  shows "Parse_Members rec H e st rest \<noteq> Inl OutOfFuel"
proof -
  obtain ok r where sk: "Skip CHR 0x22 rest = (ok, r)" by fastforce
  have "res_bind (rec (Value e name) st r2) (\<lambda>(st', r3). after_member rec H e st' r3) \<noteq> Inl OutOfFuel"
    if r2: "Suc (length r2) \<le> length rest" for name r2
  proof (rule res_bind_fuel)
    show "rec (Value e name) st r2 \<noteq> Inl OutOfFuel"
      using assms(3) r2 by (intro fueledD [OF assms(1)]) (simp add: need_def)
    fix x assume "rec (Value e name) st r2 = Inr x"
    then show "(case x of (st', r) \<Rightarrow> after_member rec H e st' r) \<noteq> Inl OutOfFuel"
      using assms(3) r2 consumesD [OF assms(2)]
      by (cases x) (force intro!: after_member_fuel [OF assms(1)] simp: need_def)
  qed
  then have "res_bind (GetChar (Parse_Whitespace r1)) (\<lambda>(c, r2).
      if c \<noteq> CHR '':'' then fail_at r2 ''Expecting :''
      else res_bind (rec (Value e name) st r2) (\<lambda>(st', r3). after_member rec H e st' r3)) \<noteq> Inl OutOfFuel"
    if "length r1 \<le> length rest" for name r1
    using that length_Parse_Whitespace [of r1] by (intro res_bind_fuel) (auto elim!: if_eqE)
  then have "res_bind (Parse_String [] r) (\<lambda>(name, r1). res_bind (GetChar (Parse_Whitespace r1)) (\<lambda>(c, r2).
      if c \<noteq> CHR '':'' then fail_at r2 ''Expecting :''
      else res_bind (rec (Value e name) st r2) (\<lambda>(st', r3). after_member rec H e st' r3))) \<noteq> Inl OutOfFuel"
    using Skip_length [OF sk] Parse_String_consumes [of "[]" r]
    by (intro res_bind_fuel Parse_String_fuel) (auto simp del: if_split)
  then show ?thesis using sk by (simp add: Parse_Members_def)
qed

lemma run_fueled: "from_chars_ok H \<Longrightarrow> fueled (run n H) n"
proof (induction n)
  case 0
  show ?case by (auto simp: fueled_def need_def split: task.splits)
next
  case (Suc n)
  have rec: "fueled (run n H) n" and con: "consumes (run n H)" using Suc run_consumes by auto
  have "run (Suc n) H t st rest \<noteq> Inl OutOfFuel" if n: "need t (length rest) \<le> Suc n" for t st rest
  proof (cases t)
    case (Value e name)
    then show ?thesis using n Parse_Value_fuel [OF rec] by simp
  next
    case (Members e)
    then show ?thesis using n Parse_Members_fuel [OF rec con] by simp
  next
    case (Items e)
    then show ?thesis using n Parse_Items_fuel [OF rec con] by simp
  next
    case (Object e)
    have "run n H (Members e) st r \<noteq> Inl OutOfFuel" if "Skip CHR 0x7D (Parse_Whitespace rest) = (False, r)" for r
      using n Object Skip_length [OF that] length_Parse_Whitespace [of rest]
      by (intro fueledD [OF rec]) (simp add: need_def)
    then show ?thesis using Object by (auto simp: Parse_Object_def split: prod.splits)
  next
    case (Array e)
    have "run n H (Items e) st r \<noteq> Inl OutOfFuel" if "Skip CHR 0x5D (Parse_Whitespace rest) = (False, r)" for r
      using n Array Skip_length [OF that] length_Parse_Whitespace [of rest]
      by (intro fueledD [OF rec]) (simp add: need_def)
    then show ?thesis using Array by (auto simp: Parse_Array_def split: prod.splits)
  qed
  then show ?case by (auto simp: fueled_def)
qed

text \<open>C23. The parser terminates on every document: whatever the elements do, \<open>Parse\<close> ends with a state
  or with an error message, never by running out of fuel.\<close>

theorem Parse_terminates:
  assumes "from_chars_ok H"
  shows "Parse H e st document \<noteq> Inl OutOfFuel"
proof -
  have "run (3 * length document + 1) H (Value e []) st document \<noteq> Inl OutOfFuel"
    by (rule fueledD [OF run_fueled [OF assms]]) (simp add: need_def)
  then show ?thesis by (auto simp: Parse_def split: sum.splits perr.splits prod.splits)
qed

section \<open>Printing and visiting a document\<close>

datatype json = JString string | JInt int | JBool bool | JNull | JArray "json list" | JObject "(string \<times> json) list"

definition escape :: "char \<Rightarrow> string" where
  "escape c = (if c = CHR 0x22 \<or> c = CHR 0x5C then [CHR 0x5C, c] else [c])"

definition print_string :: "string \<Rightarrow> string" where
  "print_string s = CHR 0x22 # concat (map escape s) @ [CHR 0x22]"

fun join :: "string list \<Rightarrow> string" where
  "join [] = []"
| "join [x] = x"
| "join (x # y # xs) = x @ CHR '','' # join (y # xs)"

fun print_json :: "json \<Rightarrow> string" where
  "print_json (JString s) = print_string s"
| "print_json (JInt i) = int_to_string i"
| "print_json (JBool b) = (if b then ''true'' else ''false'')"
| "print_json JNull = ''null''"
| "print_json (JArray ts) = CHR 0x5B # join (map print_json ts) @ [CHR 0x5D]"
| "print_json (JObject ms) = CHR 0x7B # join (map (\<lambda>(k, v). print_string k @ CHR '':'' # print_json v) ms) @ [CHR 0x7D]"

text \<open>A handler's unknown-value error, as \<open>Parse_Value\<close> reports it.\<close>

definition name_unknown :: "string \<Rightarrow> 'a res \<Rightarrow> 'a res" where
  "name_unknown name m = (case m of Inl UnknownValueError \<Rightarrow> Inl (RuntimeError (''Unknown value: '' @ name)) | _ \<Rightarrow> m)"

text \<open>The specification of a parse: the handlers are called along the tree, in document order.\<close>

fun visit :: "('e, 's, 'd, 'z) Element_scheme \<Rightarrow> (int \<Rightarrow> 'd) \<Rightarrow> 'e \<Rightarrow> string \<Rightarrow> json \<Rightarrow> 's \<Rightarrow> 's res" where
  "visit H num e name (JString s) st = name_unknown name (OnString H e name s st)"
| "visit H num e name (JInt i) st = name_unknown name (OnNumber H e name (num i) st)"
| "visit H num e name (JBool b) st = name_unknown name (OnBool H e name b st)"
| "visit H num e name JNull st = name_unknown name (OnNull H e name st)"
| "visit H num e name (JArray ts) st = name_unknown name (
     res_bind (OnArray H e name st) (\<lambda>(e', st').
     res_bind (for_res (\<lambda>t. visit H num e' [] t) ts st') (\<lambda>st''. OnComplete H e' (ts = []) st'')))"
| "visit H num e name (JObject ms) st = name_unknown name (
     res_bind (OnObject H e name st) (\<lambda>(e', st').
     res_bind (for_res (\<lambda>(k, v). visit H num e' k v) ms st') (\<lambda>st''. OnComplete H e' (ms = []) st'')))"

text \<open>Strings hold no NUL, which would end them.\<close>

fun printable :: "json \<Rightarrow> bool" where
  "printable (JString s) \<longleftrightarrow> CHR 0x00 \<notin> set s"
| "printable (JArray ts) \<longleftrightarrow> list_all printable ts"
| "printable (JObject ms) \<longleftrightarrow> list_all (\<lambda>(k, v). CHR 0x00 \<notin> set k \<and> printable v) ms"
| "printable _ \<longleftrightarrow> True"

text \<open>What may follow a value: a separator, a closing bracket or white space.\<close>

definition follow :: "string \<Rightarrow> bool" where
  "follow rest \<longleftrightarrow> (\<exists>c r. rest = c # r \<and> (c = CHR '','' \<or> c = CHR 0x5D \<or> c = CHR 0x7D \<or> is_space c))"

definition reads_ints :: "('e, 's, 'd, 'z) Element_scheme \<Rightarrow> (int \<Rightarrow> 'd) \<Rightarrow> bool" where
  "reads_ints H num \<longleftrightarrow> (\<forall>i rest. follow rest \<longrightarrow> from_chars H (int_to_string i @ rest) = Some (num i, rest))"

definition agrees :: "('s \<times> string) pres \<Rightarrow> 's res \<Rightarrow> string \<Rightarrow> bool" where
  "agrees p m r \<longleftrightarrow> (case m of Inr st \<Rightarrow> p = Inr (st, r) | Inl er \<Rightarrow> \<exists>pos. p = Inl (Err er pos))"

lemma agrees_event: "agrees (event r m) m r"
  by (cases m) (auto simp: agrees_def event_def lift_at_def)

lemma agrees_bind:
  assumes "agrees p m r" and "\<And>st. m = Inr st \<Longrightarrow> agrees (f (st, r)) (g st) r'"
  shows "agrees (res_bind p f) (res_bind m g) r'"
  using assms by (cases m) (auto simp: agrees_def)

lemma agrees_lift:
  assumes "\<And>e st. m = Inr (e, st) \<Longrightarrow> agrees (f (e, st)) (g (e, st)) r'"
  shows "agrees (res_bind (lift_at r m) f) (res_bind m g) r'"
  using assms by (cases m) (auto simp: agrees_def lift_at_def)

lemma agrees_catch: "agrees p m r \<Longrightarrow> agrees (catch_unknown name p) (name_unknown name m) r"
  by (cases m) (auto simp: agrees_def catch_unknown_def name_unknown_def fail_at_def split: err.splits)

lemma agrees_ws: "agrees p m r \<Longrightarrow> agrees (res_bind p (\<lambda>(st, r). Inr (st, Parse_Whitespace r))) m (Parse_Whitespace r)"
  by (cases m) (auto simp: agrees_def)

lemma Parse_Value_agrees:
  assumes "\<not> is_space c" and "agrees (value_switch rec H e name st c r) m r'"
  shows "agrees (Parse_Value rec H e name st (c # r)) (name_unknown name m) (Parse_Whitespace r')"
  unfolding Parse_Value_def using assms
  by (intro agrees_ws agrees_catch) (simp add: Parse_Whitespace_def GetChar_def)

lemma Parse_String_print:
  "CHR 0x00 \<notin> set s \<Longrightarrow> Parse_String acc (concat (map escape s) @ CHR 0x22 # rest) = Inr (rev acc @ s, rest)"
proof (induction s arbitrary: acc)
  case (Cons c s)
  have "unescape c = c" if "c = CHR 0x22 \<or> c = CHR 0x5C" using that by (auto simp: unescape_def)
  then show ?case using Cons by (auto simp: escape_def)
qed simp

lemma Skip_literal_print: "rest \<noteq> [] \<Longrightarrow> Skip_literal sz (sz @ rest) = (True, rest)"
  by (simp add: Skip_literal_def)

lemma literal_print: "rest \<noteq> [] \<Longrightarrow> literal sz act st (sz @ rest) = event rest (act st)"
  by (simp add: literal_def Skip_literal_print)

lemma int_to_string_head:
  "\<exists>c r. int_to_string i = c # r \<and> (is_digit c \<or> c = CHR ''-'')"
proof (cases "i < 0")
  case True
  then show ?thesis by (simp add: int_to_string_def)
next
  case False
  then show ?thesis
    using nat_to_string_digits [of "hd (nat_to_string (nat i))" "nat i"] nat_to_string_ne [of "nat i"]
    by (cases "nat_to_string (nat i)") (auto simp: int_to_string_def)
qed

lemma digit_or_minus:
  assumes "is_digit c \<or> c = CHR ''-''"
  shows "\<not> is_space c" "c \<noteq> CHR 0x7B" "c \<noteq> CHR 0x5B" "c \<noteq> CHR 0x22" "c \<noteq> CHR ''t''" "c \<noteq> CHR ''f''" "c \<noteq> CHR ''n''"
  using assms by (auto simp: is_digit_def is_space_def)

lemma follow_ne: "follow rest \<Longrightarrow> rest \<noteq> []"
  by (auto simp: follow_def)

lemma run_string:
  assumes "CHR 0x00 \<notin> set s"
  shows "agrees (run (Suc n) H (Value e name) st (print_string s @ rest)) (visit H num e name (JString s) st) (Parse_Whitespace rest)"
proof -
  have "agrees (value_switch (run n H) H e name st CHR 0x22 (concat (map escape s) @ CHR 0x22 # rest))
      (OnString H e name s st) rest"
    using Parse_String_print [OF assms, of "[]" rest] by (simp add: value_switch_def agrees_event)
  from Parse_Value_agrees [OF _ this] show ?thesis by (simp add: print_string_def is_space_def)
qed

lemma run_int:
  assumes "reads_ints H num" and "follow rest"
  shows "agrees (run (Suc n) H (Value e name) st (int_to_string i @ rest)) (visit H num e name (JInt i) st) (Parse_Whitespace rest)"
proof -
  obtain c r where cr: "int_to_string i = c # r" "is_digit c \<or> c = CHR ''-''" using int_to_string_head by blast
  have "from_chars H (c # r @ rest) = Some (num i, rest)" using assms cr(1) by (metis append_Cons reads_ints_def)
  then have "agrees (value_switch (run n H) H e name st c (r @ rest)) (OnNumber H e name (num i) st) rest"
    using digit_or_minus [OF cr(2)] cr(2) by (auto simp: value_switch_def Parse_Number_def agrees_event)
  from Parse_Value_agrees [OF digit_or_minus(1) [OF cr(2)] this] show ?thesis using cr(1) by simp
qed

lemma run_literals:
  assumes "follow rest"
  shows "agrees (run (Suc n) H (Value e name) st (print_json (JBool b) @ rest)) (visit H num e name (JBool b) st) (Parse_Whitespace rest)"
    and "agrees (run (Suc n) H (Value e name) st (print_json JNull @ rest)) (visit H num e name JNull st) (Parse_Whitespace rest)"
proof -
  have t: "agrees (value_switch (run n H) H e name st CHR ''t'' (''rue'' @ rest)) (OnBool H e name True st) rest"
    and f: "agrees (value_switch (run n H) H e name st CHR ''f'' (''alse'' @ rest)) (OnBool H e name False st) rest"
    and n: "agrees (value_switch (run n H) H e name st CHR ''n'' (''ull'' @ rest)) (OnNull H e name st) rest"
    using literal_print [OF follow_ne [OF assms], of "''rue''" "OnBool H e name True" st]
      literal_print [OF follow_ne [OF assms], of "''alse''" "OnBool H e name False" st]
      literal_print [OF follow_ne [OF assms], of "''ull''" "OnNull H e name" st]
    by (simp_all add: value_switch_def agrees_event)
  show "agrees (run (Suc n) H (Value e name) st (print_json (JBool b) @ rest)) (visit H num e name (JBool b) st) (Parse_Whitespace rest)"
    using Parse_Value_agrees [OF _ t] Parse_Value_agrees [OF _ f] by (cases b) (simp_all add: is_space_def)
  show "agrees (run (Suc n) H (Value e name) st (print_json JNull @ rest)) (visit H num e name JNull st) (Parse_Whitespace rest)"
    using Parse_Value_agrees [OF _ n] by (simp add: is_space_def)
qed

text \<open>Value \<open>t\<close> is parsed as it is visited, whatever follows it.\<close>

definition parses_as :: "('e, 's, 'd, 'z) Element_scheme \<Rightarrow> (int \<Rightarrow> 'd) \<Rightarrow> json \<Rightarrow> bool" where
  "parses_as H num t \<longleftrightarrow> (\<forall>n e name st rest. follow rest \<longrightarrow> 3 * length (print_json t @ rest) + 1 \<le> n \<longrightarrow>
     agrees (run n H (Value e name) st (print_json t @ rest)) (visit H num e name t st) (Parse_Whitespace rest))"

lemma parses_asD:
  "parses_as H num t \<Longrightarrow> follow rest \<Longrightarrow> 3 * length (print_json t @ rest) + 1 \<le> n \<Longrightarrow>
   agrees (run n H (Value e name) st (print_json t @ rest)) (visit H num e name t st) (Parse_Whitespace rest)"
  by (auto simp: parses_as_def)

lemma follow_close [simp]: "follow (CHR '','' # r)" "follow (CHR 0x5D # r)" "follow (CHR 0x7D # r)" "follow [CHR 0x0A]"
  by (auto simp: follow_def is_space_def)

lemma ws_close [simp]: "Parse_Whitespace (CHR '','' # r) = CHR '','' # r" "Parse_Whitespace (CHR 0x5D # r) = CHR 0x5D # r"
  "Parse_Whitespace (CHR 0x7D # r) = CHR 0x7D # r" "Parse_Whitespace (CHR 0x22 # r) = CHR 0x22 # r"
  "Parse_Whitespace (CHR '':'' # r) = CHR '':'' # r"
  by (simp_all add: Parse_Whitespace_def is_space_def)

lemma GetChar_Cons [simp]: "GetChar (c # r) = Inr (c, r)"
  by (simp add: GetChar_def)

lemma after_item_close [simp]: "after_item rec H e st (CHR 0x5D # r) = event r (OnComplete H e False st)"
  and after_item_comma [simp]: "after_item rec H e st (CHR '','' # r) = rec (Items e) st r"
  by (simp_all add: after_item_def)

lemma after_member_close [simp]: "after_member rec H e st (CHR 0x7D # r) = event r (OnComplete H e False st)"
  and after_member_comma [simp]: "after_member rec H e st (CHR '','' # r) = rec (Members e) st (Parse_Whitespace r)"
  by (simp_all add: after_member_def)

lemma run_items:
  assumes "\<forall>t\<in>set ts. parses_as H num t" and "ts \<noteq> []"
    and "3 * length (join (map print_json ts) @ CHR 0x5D # rest) + 2 \<le> n"
  shows "agrees (run n H (Items e) st (join (map print_json ts) @ CHR 0x5D # rest))
     (res_bind (for_res (visit H num e []) ts st) (OnComplete H e False)) rest"
  using assms
proof (induction ts arbitrary: st n)
  case (Cons t ts)
  obtain m where n: "n = Suc m" using Cons.prems(3) by (cases n) auto
  have t: "parses_as H num t" using Cons.prems(1) by simp
  show ?case
  proof (cases ts)
    case Nil
    have "agrees (run m H (Value e []) st (print_json t @ CHR 0x5D # rest)) (visit H num e [] t st) (CHR 0x5D # rest)"
      using parses_asD [OF t, of "CHR 0x5D # rest" m] Cons.prems(3) Nil n by simp
    then show ?thesis
      unfolding n run.simps task.case Parse_Items_def Nil
      by (simp, rule agrees_bind) (simp_all add: agrees_event)
  next
    case (Cons u us)
    let ?rest = "join (map print_json ts) @ CHR 0x5D # rest"
    have j: "join (map print_json (t # ts)) @ CHR 0x5D # rest = print_json t @ CHR '','' # ?rest"
      using Cons by simp
    have v: "agrees (run m H (Value e []) st (print_json t @ CHR '','' # ?rest)) (visit H num e [] t st) (CHR '','' # ?rest)"
      using parses_asD [OF t, of "CHR '','' # ?rest" m] Cons.prems(3) n unfolding j by simp
    have r: "agrees (run m H (Items e) st' ?rest)
        (res_bind (for_res (visit H num e []) ts st') (OnComplete H e False)) rest" for st'
      using Cons.IH [of m st'] Cons.prems n Cons unfolding j by simp
    show ?thesis
      unfolding n run.simps task.case Parse_Items_def j for_res.simps res_bind_assoc
      by (rule agrees_bind [OF v]) (simp add: r)
  qed
qed simp

lemma Parse_Members_print:
  assumes "CHR 0x00 \<notin> set k"
  shows "Parse_Members rec H e st (print_string k @ CHR '':'' # r) =
    res_bind (rec (Value e k) st r) (\<lambda>(st', r'). after_member rec H e st' r')"
  using Parse_String_print [OF assms, of "[]" "CHR '':'' # r"]
  by (simp add: Parse_Members_def print_string_def Skip_def)

abbreviation print_member :: "string \<times> json \<Rightarrow> string" where
  "print_member \<equiv> \<lambda>(k, v). print_string k @ CHR '':'' # print_json v"

lemma run_members:
  assumes "\<forall>(k, v)\<in>set ms. CHR 0x00 \<notin> set k \<and> parses_as H num v" and "ms \<noteq> []"
    and "3 * length (join (map print_member ms) @ CHR 0x7D # rest) + 2 \<le> n"
  shows "agrees (run n H (Members e) st (join (map print_member ms) @ CHR 0x7D # rest))
     (res_bind (for_res (\<lambda>(k, v). visit H num e k v) ms st) (OnComplete H e False)) rest"
  using assms
proof (induction ms arbitrary: st n)
  case (Cons kv ms)
  obtain k v where kv: "kv = (k, v)" by (cases kv)
  obtain m where n: "n = Suc m" using Cons.prems(3) by (cases n) auto
  have k: "CHR 0x00 \<notin> set k" and v: "parses_as H num v" using Cons.prems(1) kv by auto
  show ?case
  proof (cases ms)
    case Nil
    have "agrees (run m H (Value e k) st (print_json v @ CHR 0x7D # rest)) (visit H num e k v st) (CHR 0x7D # rest)"
      using parses_asD [OF v, of "CHR 0x7D # rest" m] Cons.prems(3) Nil n kv by simp
    then have "agrees (res_bind (run m H (Value e k) st (print_json v @ CHR 0x7D # rest))
          (\<lambda>(st', r'). after_member (run m H) H e st' r')) (res_bind (visit H num e k v st) (OnComplete H e False)) rest"
      by (rule agrees_bind) (simp add: agrees_event)
    then show ?thesis
      unfolding n run.simps task.case Nil kv by (simp add: Parse_Members_print [OF k])
  next
    case (Cons u us)
    let ?rest = "join (map print_member ms) @ CHR 0x7D # rest"
    have j: "join (map print_member (kv # ms)) @ CHR 0x7D # rest = print_string k @ CHR '':'' # print_json v @ CHR '','' # ?rest"
      using Cons kv by simp
    have q: "Parse_Whitespace ?rest = ?rest" using Cons by (cases us) (auto simp: print_string_def split: prod.splits)
    have a: "agrees (run m H (Value e k) st (print_json v @ CHR '','' # ?rest)) (visit H num e k v st) (CHR '','' # ?rest)"
      using parses_asD [OF v, of "CHR '','' # ?rest" m] Cons.prems(3) n unfolding j by simp
    have r: "agrees (run m H (Members e) st' ?rest)
        (res_bind (for_res (\<lambda>(k, v). visit H num e k v) ms st') (OnComplete H e False)) rest" for st'
      using Cons.IH [of m st'] Cons.prems n Cons unfolding j by simp
    show ?thesis
      unfolding n run.simps task.case j for_res.simps res_bind_assoc Parse_Members_print [OF k]
      unfolding kv prod.case
      by (rule agrees_bind [OF a]) (simp add: q r)
  qed
qed simp

lemma print_json_head: "\<exists>c r. print_json t = c # r \<and> c \<noteq> CHR 0x5D \<and> \<not> is_space c"
proof (cases t)
  case (JInt i)
  then show ?thesis using int_to_string_head [of i] digit_or_minus(1) by (fastforce simp: is_digit_def)
qed (auto simp: print_string_def is_space_def)

lemma run_array:
  assumes ts: "\<forall>t\<in>set ts. parses_as H num t" and n: "3 * length (print_json (JArray ts) @ rest) + 1 \<le> n"
  shows "agrees (run n H (Value e name) st (print_json (JArray ts) @ rest)) (visit H num e name (JArray ts) st) (Parse_Whitespace rest)"
proof -
  let ?r = "join (map print_json ts) @ CHR 0x5D # rest"
  obtain m where m: "n = Suc (Suc m)" "3 * length ?r + 2 \<le> m" using n by (cases n; cases "n - 1") auto
  have inner: "agrees (run (Suc m) H (Array e') st' ?r)
      (res_bind (for_res (visit H num e' []) ts st') (OnComplete H e' (ts = []))) rest" for e' st'
  proof (cases ts)
    case Nil
    then show ?thesis by (simp add: Parse_Array_def Skip_def agrees_event)
  next
    case (Cons u us)
    have "\<exists>c r. ?r = c # r \<and> c \<noteq> CHR 0x5D \<and> \<not> is_space c"
      using Cons print_json_head [of u] by (cases us) fastforce+
    then have "run (Suc m) H (Array e') st' ?r = run m H (Items e') st' ?r"
      by (auto simp: Parse_Array_def Parse_Whitespace_def Skip_def)
    then show ?thesis using run_items [OF ts _ m(2), of e' st'] Cons by simp
  qed
  have "agrees (value_switch (run (Suc m) H) H e name st CHR 0x5B ?r)
      (res_bind (OnArray H e name st) (\<lambda>(e', st'). res_bind (for_res (visit H num e' []) ts st') (OnComplete H e' (ts = []))))
      rest"
    unfolding value_switch_def by (simp del: run.simps, rule agrees_lift) (simp add: inner del: run.simps)
  from Parse_Value_agrees [OF _ this] show ?thesis by (simp add: m(1) is_space_def)
qed

lemma run_object:
  assumes ms: "\<forall>(k, v)\<in>set ms. CHR 0x00 \<notin> set k \<and> parses_as H num v"
    and n: "3 * length (print_json (JObject ms) @ rest) + 1 \<le> n"
  shows "agrees (run n H (Value e name) st (print_json (JObject ms) @ rest)) (visit H num e name (JObject ms) st) (Parse_Whitespace rest)"
proof -
  let ?r = "join (map print_member ms) @ CHR 0x7D # rest"
  obtain m where m: "n = Suc (Suc m)" "3 * length ?r + 2 \<le> m" using n by (cases n; cases "n - 1") auto
  have inner: "agrees (run (Suc m) H (Object e') st' ?r)
      (res_bind (for_res (\<lambda>(k, v). visit H num e' k v) ms st') (OnComplete H e' (ms = []))) rest" for e' st'
  proof (cases ms)
    case Nil
    then show ?thesis by (simp add: Parse_Object_def Skip_def agrees_event)
  next
    case (Cons u us)
    have "\<exists>r. ?r = CHR 0x22 # r"
      using Cons by (cases us) (auto simp: print_string_def split: prod.splits)
    then have "run (Suc m) H (Object e') st' ?r = run m H (Members e') st' ?r"
      by (auto simp: Parse_Object_def Skip_def)
    then show ?thesis using run_members [OF ms _ m(2), of e' st'] Cons by simp
  qed
  have "agrees (value_switch (run (Suc m) H) H e name st CHR 0x7B ?r)
      (res_bind (OnObject H e name st) (\<lambda>(e', st'). res_bind (for_res (\<lambda>(k, v). visit H num e' k v) ms st') (OnComplete H e' (ms = []))))
      rest"
    unfolding value_switch_def by (simp del: run.simps, rule agrees_lift) (simp add: inner del: run.simps)
  from Parse_Value_agrees [OF _ this] show ?thesis by (simp add: m(1) is_space_def)
qed

lemma parses_as_leaf:
  assumes "\<And>m e name st rest. follow rest \<Longrightarrow>
    agrees (run (Suc m) H (Value e name) st (print_json t @ rest)) (visit H num e name t st) (Parse_Whitespace rest)"
  shows "parses_as H num t"
  unfolding parses_as_def
proof (intro allI impI)
  fix n e name st rest
  assume f: "follow rest" and "3 * length (print_json t @ rest) + 1 \<le> n"
  then obtain m where "n = Suc m" by (cases n) auto
  then show "agrees (run n H (Value e name) st (print_json t @ rest)) (visit H num e name t st) (Parse_Whitespace rest)"
    using assms [OF f] by blast
qed

lemma printable_parses_as: "reads_ints H num \<Longrightarrow> printable t \<Longrightarrow> parses_as H num t"
proof (induction t)
  case (JString s)
  then show ?case using run_string [of s] by (intro parses_as_leaf) (simp del: run.simps visit.simps)
next
  case (JInt i)
  then show ?case using run_int [of H num] by (intro parses_as_leaf) (simp del: run.simps visit.simps)
next
  case (JBool b)
  show ?case by (rule parses_as_leaf, rule run_literals(1))
next
  case JNull
  show ?case by (rule parses_as_leaf, rule run_literals(2))
next
  case (JArray ts)
  then have "\<forall>t\<in>set ts. parses_as H num t" by (simp add: list_all_iff)
  from run_array [OF this] show ?case unfolding parses_as_def by blast
next
  case (JObject ms)
  then have "\<forall>(k, v)\<in>set ms. CHR 0x00 \<notin> set k \<and> parses_as H num v" by (fastforce simp: list_all_iff)
  from run_object [OF this] show ?case unfolding parses_as_def by blast
qed


section \<open>A concrete instance\<close>

text \<open>Handlers that log the events, and a number reader for decimal integers.\<close>

fun read_digits :: "nat \<Rightarrow> string \<Rightarrow> nat \<times> string" where
  "read_digits acc [] = (acc, [])"
| "read_digits acc (c # r) = (if is_digit c then read_digits (10 * acc + (of_char c - 48)) r else (acc, c # r))"

definition int_from_chars :: "string \<Rightarrow> (int \<times> string) option" where
  "int_from_chars s = (case s of [] \<Rightarrow> None
     | c # r \<Rightarrow> if c = CHR ''-'' then
          (case r of [] \<Rightarrow> None | d # _ \<Rightarrow> if is_digit d then (case read_digits 0 r of (n, r') \<Rightarrow> Some (- int n, r')) else None)
        else if is_digit c then (case read_digits 0 s of (n, r') \<Rightarrow> Some (int n, r')) else None)"

definition log_handler :: "(unit, string list, int) Element" where
  "log_handler = \<lparr>OnComplete = (\<lambda>_ b st. Inr (st @ [''end''])),
     OnString = (\<lambda>_ k v st. Inr (st @ [k @ ''='' @ v])),
     OnNumber = (\<lambda>_ k v st. Inr (st @ [k @ ''#'' @ int_to_string v])),
     OnBool = (\<lambda>_ k v st. Inl UnknownValueError),
     OnNull = (\<lambda>_ k st. Inr (st @ [k])),
     OnArray = (\<lambda>_ k st. Inr ((), st @ [k @ ''['' ])),
     OnObject = (\<lambda>_ k st. Inr ((), st @ [k @ [CHR 0x7B]])),
     from_chars = int_from_chars\<rparr>"

lemma read_digits_prefix: "read_digits acc s = (n, r) \<Longrightarrow> \<exists>p. s = p @ r"
proof (induction acc s rule: read_digits.induct)
  case (2 acc c s)
  show ?case
  proof (cases "is_digit c")
    case True
    then obtain p where "s = p @ r" using 2 by auto
    then show ?thesis by (intro exI [of _ "c # p"]) simp
  next
    case False
    then show ?thesis using 2 by (intro exI [of _ "[]"]) simp
  qed
qed simp

lemma read_digits_append:
  "\<forall>c\<in>set ds. is_digit c \<Longrightarrow> rest = [] \<or> \<not> is_digit (hd rest) \<Longrightarrow>
   read_digits acc (ds @ rest) = (foldl (\<lambda>a c. 10 * a + (of_char c - 48)) acc ds, rest)"
proof (induction ds arbitrary: acc)
  case Nil
  then show ?case by (cases rest) auto
qed simp

lemma foldl_nat_to_string: "foldl (\<lambda>a c. 10 * a + (of_char c - 48)) 0 (nat_to_string n) = n"
proof (induction n rule: nat_to_string.induct)
  case (1 n)
  show ?case
  proof (cases "n < 10")
    case True
    then show ?thesis by (subst nat_to_string.simps) (simp add: of_char_digit_char)
  next
    case False
    then show ?thesis using 1 by (subst nat_to_string.simps) (simp add: of_char_digit_char)
  qed
qed

lemma read_digits_nat:
  "rest = [] \<or> \<not> is_digit (hd rest) \<Longrightarrow> read_digits 0 (nat_to_string n @ rest) = (n, rest)"
  using read_digits_append [of "nat_to_string n" rest 0] nat_to_string_digits foldl_nat_to_string by auto

lemma follow_not_digit: "follow rest \<Longrightarrow> \<not> is_digit (hd rest)"
  by (auto simp: follow_def is_digit_def is_space_def)

lemma nat_to_string_head: "\<exists>c r. nat_to_string n = c # r \<and> is_digit c"
  using nat_to_string_digits [of "hd (nat_to_string n)" n] by (cases "nat_to_string n") auto

lemma int_from_chars_print:
  assumes f: "follow rest"
  shows "int_from_chars (int_to_string i @ rest) = Some (i, rest)"
proof -
  obtain c r where cr: "nat_to_string (nat \<bar>i\<bar>) = c # r" "is_digit c" using nat_to_string_head by blast
  have rd: "read_digits 0 (c # r @ rest) = (nat \<bar>i\<bar>, rest)"
    using read_digits_nat [of rest "nat \<bar>i\<bar>"] follow_not_digit [OF f] cr(1) by simp
  have "c \<noteq> CHR ''-''" using cr(2) by (auto simp: is_digit_def)
  then show ?thesis using cr rd by (cases "i < 0") (simp_all add: int_to_string_def int_from_chars_def)
qed

lemma log_handler_reads_ints: "reads_ints log_handler (\<lambda>i. i)"
  by (simp add: reads_ints_def log_handler_def int_from_chars_print)

lemma read_digits_shorter: "is_digit c \<Longrightarrow> read_digits acc (c # s) = (n, r) \<Longrightarrow> \<exists>p. p \<noteq> [] \<and> c # s = p @ r"
  using read_digits_prefix [of "10 * acc + (of_char c - 48)" s n r] by (metis append_Cons list.distinct(1) read_digits.simps(2))

lemma log_handler_from_chars_ok: "from_chars_ok log_handler"
  unfolding from_chars_ok_def
proof (intro allI impI)
  fix s v r
  assume "from_chars log_handler s = Some (v, r)"
  then have "int_from_chars s = Some (v, r)" by (simp add: log_handler_def)
  then consider d s' n where "s = CHR ''-'' # d # s'" "is_digit d" "read_digits 0 (d # s') = (n, r)"
    | d s' n where "s = d # s'" "is_digit d" "read_digits 0 (d # s') = (n, r)"
    by (auto simp: int_from_chars_def split: list.splits if_splits prod.splits)
  then show "\<exists>p. p \<noteq> [] \<and> s = p @ r"
    by cases (metis read_digits_shorter append_Cons list.distinct(1))+
qed

theorem Parse_terminates_witness:
  "Parse log_handler () [] (CHR 0x7B # replicate 3 CHR 0x22) \<noteq> Inl OutOfFuel"
  by (rule Parse_terminates [OF log_handler_from_chars_ok])


text \<open>A literal at the very end of a document is not recognised: \<open>null\<close> calls its handler when a line
  feed follows, and is silently ignored when the document ends with it; an unknown character in value
  position is ignored as well.\<close>

theorem Parse_ignores_final_literal:
  "Parse log_handler () [] ''null'' = Inr [] \<and> Parse log_handler () [] (''null'' @ [CHR 0x0A]) = Inr [[]]
   \<and> Parse log_handler () [] ''?'' = Inr []"
  by (simp add: Parse_def numeral_eq_Suc Parse_Value_def Parse_Whitespace_def is_space_def value_switch_def
      literal_def Skip_literal_def event_def lift_at_def catch_unknown_def log_handler_def is_digit_def)

end
