(* ===== verification/ElementType.thy ===== *)
theory ElementType
  imports Prelude
begin

text \<open>
  The element types of tensors, in the order of the runtime's enumeration (which \<open>OgaElementType\<close> of
  \<open>src/ort_genai_c.h\<close> repeats), their codes, and their sizes (\<open>SizeOf\<close> of \<open>src/models/utils.cpp\<close>).
\<close>

datatype ONNXTensorElementDataType =
    ONNX_UNDEFINED | ONNX_FLOAT | ONNX_UINT8 | ONNX_INT8 | ONNX_UINT16 | ONNX_INT16 | ONNX_INT32 | ONNX_INT64
  | ONNX_STRING | ONNX_BOOL | ONNX_FLOAT16 | ONNX_DOUBLE | ONNX_UINT32 | ONNX_UINT64 | ONNX_COMPLEX64
  | ONNX_COMPLEX128 | ONNX_BFLOAT16

fun SizeOf :: "ONNXTensorElementDataType \<Rightarrow> nat res" where
  "SizeOf ONNX_UINT8 = Inr 1"
| "SizeOf ONNX_INT8 = Inr 1"
| "SizeOf ONNX_UINT16 = Inr 2"
| "SizeOf ONNX_INT16 = Inr 2"
| "SizeOf ONNX_UINT32 = Inr 4"
| "SizeOf ONNX_INT32 = Inr 4"
| "SizeOf ONNX_UINT64 = Inr 8"
| "SizeOf ONNX_INT64 = Inr 8"
| "SizeOf ONNX_BOOL = Inr 1"
| "SizeOf ONNX_FLOAT = Inr 4"
| "SizeOf ONNX_DOUBLE = Inr 8"
| "SizeOf ONNX_FLOAT16 = Inr 2"
| "SizeOf ONNX_BFLOAT16 = Inr 2"
| "SizeOf _ = Inl (RuntimeError ''Unsupported ONNXTensorElementDataType in GetTypeSize'')"

fun onnx_code :: "ONNXTensorElementDataType \<Rightarrow> nat" where
  "onnx_code ONNX_UNDEFINED = 0" | "onnx_code ONNX_FLOAT = 1" | "onnx_code ONNX_UINT8 = 2"
| "onnx_code ONNX_INT8 = 3" | "onnx_code ONNX_UINT16 = 4" | "onnx_code ONNX_INT16 = 5"
| "onnx_code ONNX_INT32 = 6" | "onnx_code ONNX_INT64 = 7" | "onnx_code ONNX_STRING = 8"
| "onnx_code ONNX_BOOL = 9" | "onnx_code ONNX_FLOAT16 = 10" | "onnx_code ONNX_DOUBLE = 11"
| "onnx_code ONNX_UINT32 = 12" | "onnx_code ONNX_UINT64 = 13" | "onnx_code ONNX_COMPLEX64 = 14"
| "onnx_code ONNX_COMPLEX128 = 15" | "onnx_code ONNX_BFLOAT16 = 16"

end
