(* ===== verification/ConfigParse.thy ===== *)
theory ConfigParse
  imports Config Json ElementType
begin

text \<open>
  \<open>src/config.cpp\<close>: the JSON elements that fill a configuration, \<open>ParseConfig\<close> and the constructor of
  \<open>Config\<close>. Every \<open>*_Element\<close> class is a constructor of \<open>cfg_element\<close>; its overridden callbacks are
  one definition each on the struct it writes, and the dispatch functions apply them to the field the
  element refers to. A callback that a class does not override throws \<open>unknown_value_error\<close>.
  \<open>double\<close> is a type \<open>'d\<close> with the conversions the code uses as parameters.
\<close>

record ('d, 'f) doubles =
  to_int :: "'d \<Rightarrow> int"  \<comment> \<open>\<open>static_cast<int>\<close>\<close>
  to_float :: "'d \<Rightarrow> 'f"  \<comment> \<open>\<open>static_cast<float>\<close>\<close>
  read_double :: "string \<Rightarrow> ('d \<times> string) option"  \<comment> \<open>\<open>std::from_chars\<close>\<close>

definition TranslateTensorType :: "string \<Rightarrow> ONNXTensorElementDataType res" where
  "TranslateTensorType value =
     (if value = ''float32'' then Inr ONNX_FLOAT
      else if value = ''float16'' then Inr ONNX_FLOAT16
      else Inl (RuntimeError (''Invalid tensor type: '' @ value)))"

section \<open>The callbacks of each element\<close>

definition ProviderOptions_OnString :: "string \<Rightarrow> string \<Rightarrow> ProviderOptions \<Rightarrow> ProviderOptions" where
  "ProviderOptions_OnString name value v = v\<lparr>po_options := po_options v @ [(name, value)]\<rparr>"

text \<open>The flag is whether \<open>options_element_\<close> has been made.\<close>

definition ProviderOptionsObject_OnObject ::
    "string \<Rightarrow> bool \<Rightarrow> ProviderOptions list \<Rightarrow> (bool \<times> ProviderOptions list) res" where
  "ProviderOptionsObject_OnObject name made v =
     (if made then Inl (RuntimeError
        ''Each object in the provider_options array can only have one member (named value)'')
      else Inr (True, v @ [\<lparr>po_name = name, po_options = []\<rparr>]))"

definition SessionOptions_OnString :: "string \<Rightarrow> string \<Rightarrow> SessionOptions \<Rightarrow> SessionOptions res" where
  "SessionOptions_OnString name value v =
     (if name = ''log_id'' then Inr (v\<lparr>so_log_id := Some value\<rparr>)
      else if name = ''enable_profiling'' then Inr (v\<lparr>so_enable_profiling := Some value\<rparr>)
      else Inl UnknownValueError)"

definition SessionOptions_OnNumber :: "string \<Rightarrow> int \<Rightarrow> SessionOptions \<Rightarrow> SessionOptions res" where
  "SessionOptions_OnNumber name value v =
     (if name = ''intra_op_num_threads'' then Inr (v\<lparr>so_intra_op_num_threads := Some value\<rparr>)
      else if name = ''inter_op_num_threads'' then Inr (v\<lparr>so_inter_op_num_threads := Some value\<rparr>)
      else if name = ''log_severity_level'' then Inr (v\<lparr>so_log_severity_level := Some value\<rparr>)
      else Inl UnknownValueError)"

definition SessionOptions_OnBool :: "string \<Rightarrow> bool \<Rightarrow> SessionOptions \<Rightarrow> SessionOptions res" where
  "SessionOptions_OnBool name value v =
     (if name = ''enable_cpu_mem_arena'' then Inr (v\<lparr>so_enable_cpu_mem_arena := Some value\<rparr>)
      else if name = ''enable_mem_pattern'' then Inr (v\<lparr>so_enable_mem_pattern := Some value\<rparr>)
      else Inl UnknownValueError)"

definition EncoderDecoderInit_OnString :: "string \<Rightarrow> string \<Rightarrow> Model_cfg \<Rightarrow> Model_cfg res" where
  "EncoderDecoderInit_OnString name value v =
     (if name = ''filename'' then Inr (v\<lparr>mo_encoder_decoder_init := value\<rparr>) else Inl UnknownValueError)"

definition Inputs_OnString :: "string \<Rightarrow> string \<Rightarrow> Decoder_Inputs \<Rightarrow> Decoder_Inputs res" where
  "Inputs_OnString name value v =
     (if name = ''input_ids'' then Inr (v\<lparr>di_input_ids := value\<rparr>)
      else if name = ''inputs_embeds'' then Inr (v\<lparr>di_embeddings := value\<rparr>)
      else if name = ''position_ids'' then Inr (v\<lparr>di_position_ids := value\<rparr>)
      else if name = ''attention_mask'' then Inr (v\<lparr>di_attention_mask := value\<rparr>)
      else if name = ''seqlens_k'' then Inr (v\<lparr>di_seqlens_k := value\<rparr>)
      else if name = ''total_seq_len'' then Inr (v\<lparr>di_total_sequence_length := value\<rparr>)
      else if name = ''past_key_names'' then Inr (v\<lparr>di_past_key_names := value\<rparr>)
      else if name = ''past_value_names'' then Inr (v\<lparr>di_past_value_names := value\<rparr>)
      else if name = ''past_names'' then Inr (v\<lparr>di_past_names := value\<rparr>)
      else if name = ''cross_past_key_names'' then Inr (v\<lparr>di_cross_past_key_names := value\<rparr>)
      else if name = ''cross_past_value_names'' then Inr (v\<lparr>di_cross_past_value_names := value\<rparr>)
      else Inl UnknownValueError)"

definition Outputs_OnString :: "string \<Rightarrow> string \<Rightarrow> Decoder_Outputs \<Rightarrow> Decoder_Outputs res" where
  "Outputs_OnString name value v =
     (if name = ''logits'' then Inr (v\<lparr>do_logits := value\<rparr>)
      else if name = ''present_key_names'' then Inr (v\<lparr>do_present_key_names := value\<rparr>)
      else if name = ''present_value_names'' then Inr (v\<lparr>do_present_value_names := value\<rparr>)
      else if name = ''present_names'' then Inr (v\<lparr>do_present_names := value\<rparr>)
      else if name = ''cross_present_key_names'' then Inr (v\<lparr>do_cross_present_key_names := value\<rparr>)
      else if name = ''cross_present_value_names'' then Inr (v\<lparr>do_cross_present_value_names := value\<rparr>)
      else Inl UnknownValueError)"

definition Decoder_OnString :: "string \<Rightarrow> string \<Rightarrow> Decoder \<Rightarrow> Decoder res" where
  "Decoder_OnString name value v =
     (if name = ''filename'' then Inr (v\<lparr>de_filename := value\<rparr>) else Inl UnknownValueError)"

definition Decoder_OnNumber :: "string \<Rightarrow> int \<Rightarrow> Decoder \<Rightarrow> Decoder res" where
  "Decoder_OnNumber name value v =
     (if name = ''hidden_size'' then Inr (v\<lparr>de_hidden_size := value\<rparr>)
      else if name = ''num_attention_heads'' then Inr (v\<lparr>de_num_attention_heads := value\<rparr>)
      else if name = ''num_key_value_heads'' then Inr (v\<lparr>de_num_key_value_heads := value\<rparr>)
      else if name = ''num_hidden_layers'' then Inr (v\<lparr>de_num_hidden_layers := value\<rparr>)
      else if name = ''head_size'' then Inr (v\<lparr>de_head_size := value\<rparr>)
      else Inl UnknownValueError)"

definition VisionInputs_OnString :: "string \<Rightarrow> string \<Rightarrow> Vision \<Rightarrow> Vision res" where
  "VisionInputs_OnString name value v =
     (if name = ''pixel_values'' then Inr (v\<lparr>vi_pixel_values := value\<rparr>)
      else if name = ''image_sizes'' then Inr (v\<lparr>vi_image_sizes := value\<rparr>)
      else Inl UnknownValueError)"

definition VisionOutputs_OnString :: "string \<Rightarrow> string \<Rightarrow> Vision \<Rightarrow> Vision res" where
  "VisionOutputs_OnString name value v =
     (if name = ''visual_features'' then Inr (v\<lparr>vi_visual_features := value\<rparr>) else Inl UnknownValueError)"

definition Vision_OnString :: "string \<Rightarrow> string \<Rightarrow> Vision \<Rightarrow> Vision res" where
  "Vision_OnString name value v =
     (if name = ''filename'' then Inr (v\<lparr>vi_filename := value\<rparr>) else Inl UnknownValueError)"

definition Eos_Array_OnNumber :: "int \<Rightarrow> Model_cfg \<Rightarrow> Model_cfg" where
  "Eos_Array_OnNumber value v = v\<lparr>mo_eos_token_ids := mo_eos_token_ids v @ [value]\<rparr>"

definition Eos_Array_OnComplete :: "Model_cfg \<Rightarrow> Model_cfg" where
  "Eos_Array_OnComplete v =
     (case mo_eos_token_ids v of
        [] \<Rightarrow> v
      | first # others \<Rightarrow> v\<lparr>mo_eos_token_id := first,
                          mo_eos_token_ids := (if others = [] then [] else first # others)\<rparr>)"

definition EmbeddingInputs_OnString :: "string \<Rightarrow> string \<Rightarrow> Embedding \<Rightarrow> Embedding res" where
  "EmbeddingInputs_OnString name value v =
     (if name = ''input_ids'' then Inr (v\<lparr>em_input_ids := value\<rparr>) else Inl UnknownValueError)"

definition EmbeddingOutputs_OnString :: "string \<Rightarrow> string \<Rightarrow> Embedding \<Rightarrow> Embedding res" where
  "EmbeddingOutputs_OnString name value v =
     (if name = ''inputs_embeds'' then Inr (v\<lparr>em_embeddings := value\<rparr>) else Inl UnknownValueError)"

definition Embedding_OnString :: "string \<Rightarrow> string \<Rightarrow> Embedding \<Rightarrow> Embedding res" where
  "Embedding_OnString name value v =
     (if name = ''filename'' then Inr (v\<lparr>em_filename := value\<rparr>) else Inl UnknownValueError)"

definition Model_OnString :: "string \<Rightarrow> string \<Rightarrow> Model_cfg \<Rightarrow> Model_cfg res" where
  "Model_OnString name value v =
     (if name = ''type'' then Inr (v\<lparr>mo_type := value\<rparr>) else Inl UnknownValueError)"

definition Model_OnNumber :: "string \<Rightarrow> int \<Rightarrow> Model_cfg \<Rightarrow> Model_cfg res" where
  "Model_OnNumber name value v =
     (if name = ''vocab_size'' then Inr (v\<lparr>mo_vocab_size := value\<rparr>)
      else if name = ''context_length'' then Inr (v\<lparr>mo_context_length := value\<rparr>)
      else if name = ''pad_token_id'' then Inr (v\<lparr>mo_pad_token_id := value\<rparr>)
      else if name = ''eos_token_id'' then Inr (v\<lparr>mo_eos_token_id := value\<rparr>)
      else if name = ''bos_token_id'' then Inr (v\<lparr>mo_bos_token_id := value\<rparr>)
      else if name = ''decoder_start_token_id'' then Inr (v\<lparr>mo_decoder_start_token_id := value\<rparr>)
      else if name = ''sep_token_id'' then Inr (v\<lparr>mo_sep_token_id := value\<rparr>)
      else Inl UnknownValueError)"

text \<open>The second test for \<open>length_penalty\<close> in the code can never be reached.\<close>

definition Search_OnNumber :: "('d, 'f, 'z) doubles_scheme \<Rightarrow> string \<Rightarrow> 'd \<Rightarrow> 'f Search_cfg \<Rightarrow> 'f Search_cfg res" where
  "Search_OnNumber D name value v =
     (if name = ''min_length'' then Inr (v\<lparr>min_length := to_int D value\<rparr>)
      else if name = ''max_length'' then Inr (v\<lparr>max_length := to_int D value\<rparr>)
      else if name = ''num_beams'' then Inr (v\<lparr>num_beams := to_int D value\<rparr>)
      else if name = ''num_return_sequences'' then Inr (v\<lparr>num_return_sequences := to_int D value\<rparr>)
      else if name = ''top_k'' then Inr (v\<lparr>top_k := to_int D value\<rparr>)
      else if name = ''top_p'' then Inr (v\<lparr>top_p := to_float D value\<rparr>)
      else if name = ''temperature'' then Inr (v\<lparr>temperature := to_float D value\<rparr>)
      else if name = ''repetition_penalty'' then Inr (v\<lparr>repetition_penalty := to_float D value\<rparr>)
      else if name = ''length_penalty'' then Inr (v\<lparr>length_penalty := to_float D value\<rparr>)
      else if name = ''no_repeat_ngram_size'' then Inr (v\<lparr>no_repeat_ngram_size := to_int D value\<rparr>)
      else if name = ''diversity_penalty'' then Inr (v\<lparr>diversity_penalty := to_float D value\<rparr>)
      else if name = ''random_seed'' then Inr (v\<lparr>random_seed := to_int D value\<rparr>)
      else Inl UnknownValueError)"

definition Search_OnBool :: "string \<Rightarrow> bool \<Rightarrow> 'f Search_cfg \<Rightarrow> 'f Search_cfg res" where
  "Search_OnBool name value v =
     (if name = ''do_sample'' then Inr (v\<lparr>do_sample := value\<rparr>)
      else if name = ''past_present_share_buffer'' then Inr (v\<lparr>past_present_share_buffer := value\<rparr>)
      else if name = ''early_stopping'' then Inr (v\<lparr>early_stopping := value\<rparr>)
      else Inl UnknownValueError)"

definition SetSearchNumber :: "('d, 'f, 'z) doubles_scheme \<Rightarrow> string \<Rightarrow> 'd \<Rightarrow> 'f Search_cfg \<Rightarrow> 'f Search_cfg res" where
  "SetSearchNumber D name value v = Search_OnNumber D name value v"

definition SetSearchBool :: "string \<Rightarrow> bool \<Rightarrow> 'f Search_cfg \<Rightarrow> 'f Search_cfg res" where
  "SetSearchBool name value v = Search_OnBool name value v"

section \<open>The tree of elements\<close>

datatype cfg_element =
    RootObject_Element | Root_Element | Model_Element | Search_Element | EncoderDecoderInit_Element
  | Decoder_Element | Inputs_Element | Outputs_Element | SessionOptions_Element
  | ProviderOptionsArray_Element | ProviderOptionsObject_Element | ProviderOptions_Element
  | Vision_Element | VisionInputs_Element | VisionOutputs_Element
  | Eos_Array_Element
  | Embedding_Element | EmbeddingInputs_Element | EmbeddingOutputs_Element

text \<open>The state of a parse: the configuration and the flag of the one \<open>ProviderOptionsObject_Element\<close>.\<close>

type_synonym 'f cfg_state = "'f Config \<times> bool"

definition on_model :: "(Model_cfg \<Rightarrow> Model_cfg res) \<Rightarrow> 'f cfg_state \<Rightarrow> 'f cfg_state res" where
  "on_model f st = res_bind (f (co_model (fst st))) (\<lambda>m. Inr ((fst st)\<lparr>co_model := m\<rparr>, snd st))"

definition on_search :: "('f Search_cfg \<Rightarrow> 'f Search_cfg res) \<Rightarrow> 'f cfg_state \<Rightarrow> 'f cfg_state res" where
  "on_search f st = res_bind (f (co_search (fst st))) (\<lambda>v. Inr ((fst st)\<lparr>co_search := v\<rparr>, snd st))"

definition on_decoder :: "(Decoder \<Rightarrow> Decoder res) \<Rightarrow> 'f cfg_state \<Rightarrow> 'f cfg_state res" where
  "on_decoder f = on_model (\<lambda>m. res_bind (f (mo_decoder m)) (\<lambda>d. Inr (m\<lparr>mo_decoder := d\<rparr>)))"

definition on_session :: "(SessionOptions \<Rightarrow> SessionOptions res) \<Rightarrow> 'f cfg_state \<Rightarrow> 'f cfg_state res" where
  "on_session f = on_decoder (\<lambda>d. res_bind (f (de_session_options d)) (\<lambda>v. Inr (d\<lparr>de_session_options := v\<rparr>)))"

definition on_vision :: "(Vision \<Rightarrow> Vision res) \<Rightarrow> 'f cfg_state \<Rightarrow> 'f cfg_state res" where
  "on_vision f = on_model (\<lambda>m. res_bind (f (mo_vision m)) (\<lambda>d. Inr (m\<lparr>mo_vision := d\<rparr>)))"

definition on_embedding :: "(Embedding \<Rightarrow> Embedding res) \<Rightarrow> 'f cfg_state \<Rightarrow> 'f cfg_state res" where
  "on_embedding f = on_model (\<lambda>m. res_bind (f (mo_embedding m)) (\<lambda>d. Inr (m\<lparr>mo_embedding := d\<rparr>)))"

text \<open>\<open>ProviderOptions_Element\<close> refers to the entry that was appended last.\<close>

definition on_last_provider :: "(ProviderOptions \<Rightarrow> ProviderOptions) \<Rightarrow> SessionOptions \<Rightarrow> SessionOptions res" where
  "on_last_provider f v =
     (if so_provider_options v = [] then Inl OutOfBounds
      else Inr (v\<lparr>so_provider_options := butlast (so_provider_options v) @ [f (last (so_provider_options v))]\<rparr>))"

definition cfg_OnString :: "cfg_element \<Rightarrow> string \<Rightarrow> string \<Rightarrow> 'f cfg_state \<Rightarrow> 'f cfg_state res" where
  "cfg_OnString e name value st = (case e of
     Root_Element \<Rightarrow> Inr st
   | Model_Element \<Rightarrow> on_model (Model_OnString name value) st
   | EncoderDecoderInit_Element \<Rightarrow> on_model (EncoderDecoderInit_OnString name value) st
   | Decoder_Element \<Rightarrow> on_decoder (Decoder_OnString name value) st
   | Inputs_Element \<Rightarrow> on_decoder (\<lambda>d. res_bind (Inputs_OnString name value (de_inputs d)) (\<lambda>v. Inr (d\<lparr>de_inputs := v\<rparr>))) st
   | Outputs_Element \<Rightarrow> on_decoder (\<lambda>d. res_bind (Outputs_OnString name value (de_outputs d)) (\<lambda>v. Inr (d\<lparr>de_outputs := v\<rparr>))) st
   | SessionOptions_Element \<Rightarrow> on_session (SessionOptions_OnString name value) st
   | ProviderOptions_Element \<Rightarrow> on_session (on_last_provider (ProviderOptions_OnString name value)) st
   | Vision_Element \<Rightarrow> on_vision (Vision_OnString name value) st
   | VisionInputs_Element \<Rightarrow> on_vision (VisionInputs_OnString name value) st
   | VisionOutputs_Element \<Rightarrow> on_vision (VisionOutputs_OnString name value) st
   | Embedding_Element \<Rightarrow> on_embedding (Embedding_OnString name value) st
   | EmbeddingInputs_Element \<Rightarrow> on_embedding (EmbeddingInputs_OnString name value) st
   | EmbeddingOutputs_Element \<Rightarrow> on_embedding (EmbeddingOutputs_OnString name value) st
   | _ \<Rightarrow> Inl UnknownValueError)"

definition cfg_OnNumber :: "('d, 'f, 'z) doubles_scheme \<Rightarrow> cfg_element \<Rightarrow> string \<Rightarrow> 'd \<Rightarrow> 'f cfg_state \<Rightarrow> 'f cfg_state res" where
  "cfg_OnNumber D e name value st = (case e of
     Root_Element \<Rightarrow> Inr st
   | Model_Element \<Rightarrow> on_model (Model_OnNumber name (to_int D value)) st
   | Search_Element \<Rightarrow> on_search (Search_OnNumber D name value) st
   | Decoder_Element \<Rightarrow> on_decoder (Decoder_OnNumber name (to_int D value)) st
   | SessionOptions_Element \<Rightarrow> on_session (SessionOptions_OnNumber name (to_int D value)) st
   | Eos_Array_Element \<Rightarrow> on_model (\<lambda>m. Inr (Eos_Array_OnNumber (to_int D value) m)) st
   | _ \<Rightarrow> Inl UnknownValueError)"

definition cfg_OnBool :: "cfg_element \<Rightarrow> string \<Rightarrow> bool \<Rightarrow> 'f cfg_state \<Rightarrow> 'f cfg_state res" where
  "cfg_OnBool e name value st = (case e of
     Search_Element \<Rightarrow> on_search (Search_OnBool name value) st
   | SessionOptions_Element \<Rightarrow> on_session (SessionOptions_OnBool name value) st
   | _ \<Rightarrow> Inl UnknownValueError)"

definition cfg_OnComplete :: "cfg_element \<Rightarrow> bool \<Rightarrow> 'f cfg_state \<Rightarrow> 'f cfg_state res" where
  "cfg_OnComplete e is_empty st = (case e of
     Eos_Array_Element \<Rightarrow> on_model (\<lambda>m. Inr (Eos_Array_OnComplete m)) st
   | _ \<Rightarrow> Inr st)"

definition cfg_OnArray :: "cfg_element \<Rightarrow> string \<Rightarrow> 'f cfg_state \<Rightarrow> (cfg_element \<times> 'f cfg_state) res" where
  "cfg_OnArray e name st =
     (if e = Model_Element \<and> name = ''eos_token_id'' then Inr (Eos_Array_Element, st)
      else if e = SessionOptions_Element \<and> name = ''provider_options'' then Inr (ProviderOptionsArray_Element, st)
      else Inl UnknownValueError)"

definition child_object :: "cfg_element \<Rightarrow> string \<Rightarrow> cfg_element option" where
  "child_object e name = (case e of
     RootObject_Element \<Rightarrow> Some Root_Element
   | Root_Element \<Rightarrow> (if name = ''model'' then Some Model_Element
                      else if name = ''search'' then Some Search_Element else None)
   | Model_Element \<Rightarrow> (if name = ''encoder_decoder_init'' then Some EncoderDecoderInit_Element
                       else if name = ''decoder'' then Some Decoder_Element
                       else if name = ''vision'' then Some Vision_Element
                       else if name = ''embedding'' then Some Embedding_Element else None)
   | Decoder_Element \<Rightarrow> (if name = ''session_options'' then Some SessionOptions_Element
                         else if name = ''inputs'' then Some Inputs_Element
                         else if name = ''outputs'' then Some Outputs_Element else None)
   | Vision_Element \<Rightarrow> (if name = ''inputs'' then Some VisionInputs_Element
                        else if name = ''outputs'' then Some VisionOutputs_Element else None)
   | Embedding_Element \<Rightarrow> (if name = ''inputs'' then Some EmbeddingInputs_Element
                           else if name = ''outputs'' then Some EmbeddingOutputs_Element else None)
   | ProviderOptionsArray_Element \<Rightarrow> Some ProviderOptionsObject_Element
   | _ \<Rightarrow> None)"

definition cfg_OnObject :: "cfg_element \<Rightarrow> string \<Rightarrow> 'f cfg_state \<Rightarrow> (cfg_element \<times> 'f cfg_state) res" where
  "cfg_OnObject e name st =
     (if e = ProviderOptionsObject_Element then
        res_bind (ProviderOptionsObject_OnObject name (snd st)
                    (so_provider_options (de_session_options (mo_decoder (co_model (fst st)))))) (\<lambda>(made, ps).
        res_bind (on_session (\<lambda>v. Inr (v\<lparr>so_provider_options := ps\<rparr>)) (fst st, made)) (\<lambda>st'.
        Inr (ProviderOptions_Element, st')))
      else (case child_object e name of None \<Rightarrow> Inl UnknownValueError | Some e' \<Rightarrow> Inr (e', st)))"

definition cfg_handler :: "('d, 'f, 'z) doubles_scheme \<Rightarrow> (cfg_element, 'f cfg_state, 'd) Element" where
  "cfg_handler D = \<lparr>OnComplete = cfg_OnComplete, OnString = cfg_OnString, OnNumber = cfg_OnNumber D,
     OnBool = cfg_OnBool, OnNull = (\<lambda>e name st. Inl UnknownValueError), OnArray = cfg_OnArray,
     OnObject = cfg_OnObject, from_chars = read_double D\<rparr>"

section \<open>Reading a configuration\<close>

text \<open>\<open>open_file\<close> is the file system: \<open>None\<close> when the file does not open, \<open>Some None\<close> when reading it
  fails. \<open>Parse\<close> never runs out of fuel, so its first case below does not occur.\<close>

definition path_join :: "string \<Rightarrow> string \<Rightarrow> string" where
  "path_join path name = path @ CHR ''/'' # name"

definition ParseConfig ::
    "('d, 'f, 'z) doubles_scheme \<Rightarrow> (string \<Rightarrow> string option option) \<Rightarrow> string \<Rightarrow> 'f Config \<Rightarrow> 'f Config res" where
  "ParseConfig D open_file filename config =
     (case open_file filename of
        None \<Rightarrow> Inl (RuntimeError (''Error opening '' @ filename))
      | Some None \<Rightarrow> Inl (RuntimeError (''Error reading '' @ filename))
      | Some (Some buffer) \<Rightarrow>
          (case Parse (cfg_handler D) RootObject_Element (config, False) buffer of
             Inl OutOfFuel \<Rightarrow> Inl OutOfBounds
           | Inl (Err er pos) \<Rightarrow>
               Inl (RuntimeError (''Error encountered while parsing '' @ [CHR 0x27] @ filename @ [CHR 0x27, CHR 0x20] @ err_what er))
           | Inr st \<Rightarrow> Inr (fst st)))"

definition Config_new ::
    "('f, 'g, 'y) cxx_scheme \<Rightarrow> ('d, 'f, 'z) doubles_scheme \<Rightarrow> (string \<Rightarrow> string option option) \<Rightarrow> string \<Rightarrow>
     'f Config res" where
  "Config_new cx D open_file path =
     res_bind (ParseConfig D open_file (path_join path ''genai_config.json'') (Config_default cx path)) (\<lambda>c.
     if mo_context_length (co_model c) = 0 then
       Inl (RuntimeError ''model context_length is 0 or was not set. It must be greater than 0'')
     else if max_length (co_search c) = 0 then
       Inr (c\<lparr>co_search := (co_search c)\<lparr>max_length := mo_context_length (co_model c)\<rparr>\<rparr>)
     else Inr c)"

section \<open>A configuration survives printing and parsing\<close>

text \<open>A configuration as a JSON document: every field the elements can set, except the session options
  and the floating-point search options.\<close>

definition inputs_json :: "Decoder_Inputs \<Rightarrow> json" where
  "inputs_json i = JObject [(''input_ids'', JString (di_input_ids i)), (''inputs_embeds'', JString (di_embeddings i)),
     (''position_ids'', JString (di_position_ids i)), (''attention_mask'', JString (di_attention_mask i)),
     (''seqlens_k'', JString (di_seqlens_k i)), (''total_seq_len'', JString (di_total_sequence_length i)),
     (''past_key_names'', JString (di_past_key_names i)), (''past_value_names'', JString (di_past_value_names i)),
     (''past_names'', JString (di_past_names i)), (''cross_past_key_names'', JString (di_cross_past_key_names i)),
     (''cross_past_value_names'', JString (di_cross_past_value_names i))]"

definition outputs_json :: "Decoder_Outputs \<Rightarrow> json" where
  "outputs_json o' = JObject [(''logits'', JString (do_logits o')), (''present_key_names'', JString (do_present_key_names o')),
     (''present_value_names'', JString (do_present_value_names o')), (''present_names'', JString (do_present_names o')),
     (''cross_present_key_names'', JString (do_cross_present_key_names o')),
     (''cross_present_value_names'', JString (do_cross_present_value_names o'))]"

definition decoder_json :: "Decoder \<Rightarrow> json" where
  "decoder_json d = JObject [(''filename'', JString (de_filename d)), (''hidden_size'', JInt (de_hidden_size d)),
     (''num_attention_heads'', JInt (de_num_attention_heads d)), (''num_key_value_heads'', JInt (de_num_key_value_heads d)),
     (''num_hidden_layers'', JInt (de_num_hidden_layers d)), (''head_size'', JInt (de_head_size d)),
     (''inputs'', inputs_json (de_inputs d)), (''outputs'', outputs_json (de_outputs d))]"

definition vision_json :: "Vision \<Rightarrow> json" where
  "vision_json v = JObject [(''filename'', JString (vi_filename v)),
     (''inputs'', JObject [(''pixel_values'', JString (vi_pixel_values v)), (''image_sizes'', JString (vi_image_sizes v))]),
     (''outputs'', JObject [(''visual_features'', JString (vi_visual_features v))])]"

definition embedding_json :: "Embedding \<Rightarrow> json" where
  "embedding_json v = JObject [(''filename'', JString (em_filename v)),
     (''inputs'', JObject [(''input_ids'', JString (em_input_ids v))]),
     (''outputs'', JObject [(''inputs_embeds'', JString (em_embeddings v))])]"

text \<open>Several end-of-sequence ids are an array, whose first entry is the primary one.\<close>

definition eos_json :: "Model_cfg \<Rightarrow> json" where
  "eos_json m = (if mo_eos_token_ids m = [] then JInt (mo_eos_token_id m) else JArray (map JInt (mo_eos_token_ids m)))"

definition model_json :: "Model_cfg \<Rightarrow> json" where
  "model_json m = JObject [(''type'', JString (mo_type m)), (''pad_token_id'', JInt (mo_pad_token_id m)),
     (''eos_token_id'', eos_json m), (''bos_token_id'', JInt (mo_bos_token_id m)),
     (''sep_token_id'', JInt (mo_sep_token_id m)), (''decoder_start_token_id'', JInt (mo_decoder_start_token_id m)),
     (''vocab_size'', JInt (mo_vocab_size m)), (''context_length'', JInt (mo_context_length m)),
     (''encoder_decoder_init'', JObject [(''filename'', JString (mo_encoder_decoder_init m))]),
     (''embedding'', embedding_json (mo_embedding m)), (''vision'', vision_json (mo_vision m)),
     (''decoder'', decoder_json (mo_decoder m))]"

definition search_json :: "'f Search_cfg \<Rightarrow> json" where
  "search_json v = JObject [(''do_sample'', JBool (do_sample v)), (''min_length'', JInt (min_length v)),
     (''max_length'', JInt (max_length v)), (''num_beams'', JInt (num_beams v)),
     (''num_return_sequences'', JInt (num_return_sequences v)), (''top_k'', JInt (top_k v)),
     (''early_stopping'', JBool (early_stopping v)), (''no_repeat_ngram_size'', JInt (no_repeat_ngram_size v)),
     (''past_present_share_buffer'', JBool (past_present_share_buffer v)), (''random_seed'', JInt (random_seed v))]"

definition config_json :: "'f Config \<Rightarrow> json" where
  "config_json c = JObject [(''model'', model_json (co_model c)), (''search'', search_json (co_search c))]"

definition int32 :: "int \<Rightarrow> bool" where
  "int32 i \<longleftrightarrow> - (2 ^ 31) \<le> i \<and> i < 2 ^ 31"

text \<open>Reading an integer literal gives its double, which converts back exactly within 32 bits.\<close>

definition doubles_ok :: "('d, 'f, 'z) doubles_scheme \<Rightarrow> (int \<Rightarrow> 'd) \<Rightarrow> bool" where
  "doubles_ok D num \<longleftrightarrow> reads_ints (cfg_handler D) num \<and> (\<forall>i. int32 i \<longrightarrow> to_int D (num i) = i)"

definition model_ints_ok :: "Model_cfg \<Rightarrow> bool" where
  "model_ints_ok m \<longleftrightarrow> int32 (mo_pad_token_id m) \<and> int32 (mo_eos_token_id m) \<and> int32 (mo_bos_token_id m)
     \<and> int32 (mo_sep_token_id m) \<and> int32 (mo_decoder_start_token_id m) \<and> int32 (mo_vocab_size m)
     \<and> int32 (mo_context_length m) \<and> list_all int32 (mo_eos_token_ids m)
     \<and> int32 (de_hidden_size (mo_decoder m)) \<and> int32 (de_num_attention_heads (mo_decoder m))
     \<and> int32 (de_num_key_value_heads (mo_decoder m)) \<and> int32 (de_num_hidden_layers (mo_decoder m))
     \<and> int32 (de_head_size (mo_decoder m))"

definition search_ints_ok :: "'f Search_cfg \<Rightarrow> bool" where
  "search_ints_ok v \<longleftrightarrow> int32 (min_length v) \<and> int32 (max_length v) \<and> int32 (num_beams v)
     \<and> int32 (num_return_sequences v) \<and> int32 (top_k v) \<and> int32 (no_repeat_ngram_size v) \<and> int32 (random_seed v)"

lemmas on_defs = on_model_def on_search_def on_decoder_def on_session_def on_vision_def on_embedding_def

lemma cfg_handler_simps [simp]:
  "OnString (cfg_handler D) = cfg_OnString" "OnNumber (cfg_handler D) = cfg_OnNumber D"
  "OnBool (cfg_handler D) = cfg_OnBool" "OnArray (cfg_handler D) = cfg_OnArray"
  "OnObject (cfg_handler D) = cfg_OnObject" "OnComplete (cfg_handler D) = cfg_OnComplete"
  by (simp_all add: cfg_handler_def)

lemma name_unknown_Inr [simp]: "name_unknown name (Inr x) = Inr x"
  by (simp add: name_unknown_def)

lemma visit_inputs:
  "visit (cfg_handler D) num Decoder_Element ''inputs'' (inputs_json i) st =
   on_decoder (\<lambda>d. Inr (d\<lparr>de_inputs := i\<rparr>)) st"
  by (simp add: inputs_json_def cfg_OnObject_def child_object_def cfg_OnString_def cfg_OnComplete_def on_defs
      Inputs_OnString_def)

lemma visit_outputs:
  "visit (cfg_handler D) num Decoder_Element ''outputs'' (outputs_json o') st =
   on_decoder (\<lambda>d. Inr (d\<lparr>de_outputs := o'\<rparr>)) st"
  by (simp add: outputs_json_def cfg_OnObject_def child_object_def cfg_OnString_def cfg_OnComplete_def on_defs
      Outputs_OnString_def)

lemma doubles_okD: "doubles_ok D num \<Longrightarrow> int32 i \<Longrightarrow> to_int D (num i) = i"
  by (simp add: doubles_ok_def)

lemma visit_decoder:
  assumes "doubles_ok D num" and "model_ints_ok m" and "d = mo_decoder m"
  shows "visit (cfg_handler D) num Model_Element ''decoder'' (decoder_json d) st =
    on_decoder (\<lambda>d'. Inr (d\<lparr>de_session_options := de_session_options d'\<rparr>)) st"
  using assms doubles_okD [OF assms(1)]
  by (simp add: decoder_json_def cfg_OnObject_def child_object_def cfg_OnString_def cfg_OnNumber_def cfg_OnComplete_def
      on_defs Decoder_OnString_def Decoder_OnNumber_def visit_inputs visit_outputs model_ints_ok_def)

lemma visit_vision:
  "visit (cfg_handler D) num Model_Element ''vision'' (vision_json v) st = on_vision (\<lambda>_. Inr v) st"
  by (simp add: vision_json_def cfg_OnObject_def child_object_def cfg_OnString_def cfg_OnComplete_def on_defs
      Vision_OnString_def VisionInputs_OnString_def VisionOutputs_OnString_def)

lemma visit_embedding:
  "visit (cfg_handler D) num Model_Element ''embedding'' (embedding_json v) st = on_embedding (\<lambda>_. Inr v) st"
  by (simp add: embedding_json_def cfg_OnObject_def child_object_def cfg_OnString_def cfg_OnComplete_def on_defs
      Embedding_OnString_def EmbeddingInputs_OnString_def EmbeddingOutputs_OnString_def)

lemma visit_eos_items:
  assumes "doubles_ok D num" and "list_all int32 ids"
  shows "for_res (visit (cfg_handler D) num Eos_Array_Element []) (map JInt ids) st =
    on_model (\<lambda>m. Inr (m\<lparr>mo_eos_token_ids := mo_eos_token_ids m @ ids\<rparr>)) st"
  using assms(2)
proof (induction ids arbitrary: st)
  case Nil
  then show ?case by (simp add: on_model_def)
next
  case (Cons i ids)
  then show ?case
    using doubles_okD [OF assms(1), of i] by (simp add: cfg_OnNumber_def on_model_def Eos_Array_OnNumber_def)
qed

text \<open>An entry of the model whose ids are still empty ends up with the ids and the primary id.\<close>

definition eos_ok :: "Model_cfg \<Rightarrow> bool" where
  "eos_ok m \<longleftrightarrow> mo_eos_token_ids m = [] \<or> 2 \<le> length (mo_eos_token_ids m) \<and> hd (mo_eos_token_ids m) = mo_eos_token_id m"

lemma visit_eos:
  assumes D: "doubles_ok D num" and m: "model_ints_ok m" "eos_ok m" and st: "mo_eos_token_ids (co_model (fst st)) = []"
  shows "visit (cfg_handler D) num Model_Element ''eos_token_id'' (eos_json m) st =
    on_model (\<lambda>m'. Inr (m'\<lparr>mo_eos_token_id := mo_eos_token_id m, mo_eos_token_ids := mo_eos_token_ids m\<rparr>)) st"
proof (cases "mo_eos_token_ids m")
  case Nil
  then show ?thesis
    using doubles_okD [OF D, of "mo_eos_token_id m"] m st
    by (simp add: eos_json_def cfg_OnNumber_def on_model_def Model_OnNumber_def model_ints_ok_def)
next
  case (Cons i ids)
  then obtain j js where ids: "ids = j # js" "i = mo_eos_token_id m" using m(2) by (cases ids) (auto simp: eos_ok_def)
  have "list_all int32 (mo_eos_token_ids m)" using m(1) by (simp add: model_ints_ok_def)
  from visit_eos_items [OF D this, of st] show ?thesis
    using Cons ids st by (simp add: eos_json_def cfg_OnArray_def cfg_OnComplete_def on_model_def Eos_Array_OnComplete_def)
qed

lemma visit_model:
  assumes D: "doubles_ok D num" and m: "model_ints_ok m" "eos_ok m" and st: "mo_eos_token_ids (co_model (fst st)) = []"
  shows "visit (cfg_handler D) num Root_Element ''model'' (model_json m) st =
    on_model (\<lambda>m'. Inr (m\<lparr>mo_decoder := (mo_decoder m)\<lparr>de_session_options := de_session_options (mo_decoder m')\<rparr>\<rparr>)) st"
  using m(1) doubles_okD [OF D] st visit_eos [OF D m]
  by (simp add: model_json_def cfg_OnObject_def child_object_def cfg_OnString_def cfg_OnNumber_def cfg_OnComplete_def
      on_defs Model_OnString_def Model_OnNumber_def EncoderDecoderInit_OnString_def visit_vision visit_embedding
      visit_decoder [OF D m(1) refl] model_ints_ok_def)

lemma visit_search:
  assumes D: "doubles_ok D num" and v: "search_ints_ok v"
  shows "visit (cfg_handler D) num Root_Element ''search'' (search_json v) st =
    on_search (\<lambda>v'. Inr (v\<lparr>repetition_penalty := repetition_penalty v', top_p := top_p v', temperature := temperature v',
      diversity_penalty := diversity_penalty v', length_penalty := length_penalty v'\<rparr>)) st"
  using v doubles_okD [OF D]
  by (simp add: search_json_def cfg_OnObject_def child_object_def cfg_OnNumber_def cfg_OnBool_def cfg_OnComplete_def
      on_defs Search_OnNumber_def Search_OnBool_def search_ints_ok_def)

text \<open>The fields that are not printed have their default values.\<close>

definition unprinted_default :: "('f, 'g, 'y) cxx_scheme \<Rightarrow> 'f Config \<Rightarrow> bool" where
  "unprinted_default cx c \<longleftrightarrow> de_session_options (mo_decoder (co_model c)) = SessionOptions_default
     \<and> co_nominal_names c = Map.empty
     \<and> repetition_penalty (co_search c) = fone cx \<and> top_p (co_search c) = fzero cx
     \<and> temperature (co_search c) = fone cx \<and> diversity_penalty (co_search c) = fzero cx
     \<and> length_penalty (co_search c) = fone cx"

lemma visit_config:
  assumes D: "doubles_ok D num" and m: "model_ints_ok (co_model c)" "eos_ok (co_model c)"
    and v: "search_ints_ok (co_search c)" and def: "unprinted_default cx c"
  shows "visit (cfg_handler D) num RootObject_Element [] (config_json c) (Config_default cx (co_config_path c), False)
    = Inr (c, False)"
  using def visit_model [OF D m] visit_search [OF D v]
  by (simp add: config_json_def cfg_OnObject_def child_object_def cfg_OnComplete_def on_defs unprinted_default_def
      config_defaults)

text \<open>What a document that visits without error, or not, makes of \<open>ParseConfig\<close>.\<close>

lemma ParseConfig_print:
  assumes D: "doubles_ok D num" and t: "printable t"
    and contents: "open_file filename = Some (Some (print_json t @ [CHR 0x0A]))"
  shows "case visit (cfg_handler D) num RootObject_Element [] t (c, False) of
      Inr st \<Rightarrow> ParseConfig D open_file filename c = Inr (fst st)
    | Inl er \<Rightarrow> \<exists>pos. ParseConfig D open_file filename c =
        Inl (RuntimeError (''Error encountered while parsing '' @ [CHR 0x27] @ filename @ [CHR 0x27, CHR 0x20]
             @ json_error (print_json t @ [CHR 0x0A]) er pos))"
proof -
  let ?d = "print_json t @ [CHR 0x0A]"
  have "agrees (run (3 * length ?d + 1) (cfg_handler D) (Value RootObject_Element []) (c, False) ?d)
      (visit (cfg_handler D) num RootObject_Element [] t (c, False)) (Parse_Whitespace [CHR 0x0A])"
    using printable_parses_as [of "cfg_handler D" num, OF _ t] D by (intro parses_asD) (simp_all add: doubles_ok_def)
  then show ?thesis
    using contents by (auto simp: agrees_def Parse_def ParseConfig_def fail_at_def err_what_def split: sum.splits) blast
qed


definition int_doubles :: "(int, int) doubles" where
  "int_doubles = \<lparr>to_int = (\<lambda>x. x), to_float = (\<lambda>x. x), read_double = int_from_chars\<rparr>"

lemma int_doubles_ok: "doubles_ok int_doubles (\<lambda>i. i)"
  by (simp add: doubles_ok_def reads_ints_def cfg_handler_def int_doubles_def int_from_chars_print)

definition example_config :: "int Config" where
  "example_config = (let c = Config_default int_cxx ''dir'' in
     c\<lparr>co_model := (co_model c)\<lparr>mo_type := ''phi'', mo_context_length := 8, mo_vocab_size := 3,
          mo_eos_token_id := 2, mo_eos_token_ids := [2, 1]\<rparr>,
       co_search := (co_search c)\<lparr>max_length := 3\<rparr>\<rparr>)"

lemmas example_config_defs = example_config_def config_defaults Let_def




text \<open>Only one execution provider can be configured: a second object in \<open>provider_options\<close> is
  rejected, whatever the two providers are, because the element for the objects of the array is shared
  by all of them.\<close>

theorem second_provider_rejected:
  "visit (cfg_handler D) num SessionOptions_Element ''provider_options''
     (JArray [JObject [(a, JObject [])], JObject [(b, JObject [])]]) (c, False) =
   Inl (RuntimeError ''Each object in the provider_options array can only have one member (named value)'')"
  by (simp add: cfg_OnArray_def cfg_OnObject_def child_object_def ProviderOptionsObject_OnObject_def cfg_OnComplete_def
      on_defs name_unknown_def)

end
