(* ===== verification/TopK.thy ===== *)
theory TopK
  imports Cxx "HOL-Library.Product_Lexorder"
begin

text \<open>
  \<open>src/top_k_cpu.cpp\<close>: the indices of the \<open>k\<close> largest inputs, found with a min-heap of
  (value, index) pairs. The locale \<open>min_queue\<close> states what the algorithm uses of
  \<open>std::priority_queue\<close> with \<open>std::greater\<close>; pairs are totally ordered, so the queue's answers are
  determined and a sorted list models it. The algorithm is proved once against the interface.
\<close>

section \<open>The algorithm\<close>

text \<open>The second loop: an input larger than the smallest kept one replaces it.\<close>

fun replace_loop ::
    "('f::linorder \<times> nat \<Rightarrow> 'q \<Rightarrow> 'q) \<Rightarrow> ('q \<Rightarrow> ('f \<times> nat) res) \<Rightarrow> ('q \<Rightarrow> 'q res) \<Rightarrow>
     'f list \<Rightarrow> nat \<Rightarrow> 'q \<Rightarrow> 'q res" where
  "replace_loop push qtop pop [] i q = Inr q"
| "replace_loop push qtop pop (x # xs) i q =
     res_bind (qtop q) (\<lambda>t.
       if x \<le> fst t then replace_loop push qtop pop xs (Suc i) q
       else res_bind (pop q) (\<lambda>q'. replace_loop push qtop pop xs (Suc i) (push (x, i) q')))"

text \<open>The last loop fills the result from its end.\<close>

fun output_loop ::
    "('q \<Rightarrow> ('f \<times> nat) res) \<Rightarrow> ('q \<Rightarrow> 'q res) \<Rightarrow> nat \<Rightarrow> nat list \<Rightarrow> 'q \<Rightarrow> nat list res" where
  "output_loop qtop pop 0 acc q = Inr acc"
| "output_loop qtop pop (Suc n) acc q =
     res_bind (qtop q) (\<lambda>t. res_bind (pop q) (\<lambda>q'. output_loop qtop pop n (snd t # acc) q'))"

definition top_k_with ::
    "'q \<Rightarrow> ('f::linorder \<times> nat \<Rightarrow> 'q \<Rightarrow> 'q) \<Rightarrow> ('q \<Rightarrow> ('f \<times> nat) res) \<Rightarrow> ('q \<Rightarrow> 'q res) \<Rightarrow>
     nat \<Rightarrow> 'f list \<Rightarrow> nat list res" where
  "top_k_with qempty push qtop pop k inputs =
     res_bind (for_res (\<lambda>i q. res_bind (get inputs i) (\<lambda>x. Inr (push (x, i) q))) [0..<k] qempty) (\<lambda>q.
     res_bind (replace_loop push qtop pop (drop k inputs) k q) (\<lambda>q'.
     output_loop qtop pop k [] q'))"

section \<open>What the queue promises\<close>

locale min_queue =
  fixes qempty :: "'q" and push :: "'f::linorder \<times> nat \<Rightarrow> 'q \<Rightarrow> 'q"
    and qtop :: "'q \<Rightarrow> ('f \<times> nat) res" and pop :: "'q \<Rightarrow> 'q res"
    and elems :: "'q \<Rightarrow> ('f \<times> nat) set" and wf :: "'q \<Rightarrow> bool"
  assumes wf_empty: "wf qempty" and elems_empty: "elems qempty = {}"
    and finite_elems: "wf q \<Longrightarrow> finite (elems q)"
    and wf_push: "wf q \<Longrightarrow> x \<notin> elems q \<Longrightarrow> wf (push x q)"
    and elems_push: "wf q \<Longrightarrow> x \<notin> elems q \<Longrightarrow> elems (push x q) = insert x (elems q)"
    and top_min: "wf q \<Longrightarrow> elems q \<noteq> {} \<Longrightarrow> qtop q = Inr (Min (elems q))"
    and pop_min: "wf q \<Longrightarrow> elems q \<noteq> {} \<Longrightarrow>
      \<exists>q'. pop q = Inr q' \<and> wf q' \<and> elems q' = elems q - {Min (elems q)}"
begin

text \<open>The queue holds the pairs of \<open>k\<close> positions below \<open>i\<close>, and no other position below \<open>i\<close> beats
  one of them.\<close>

definition kept :: "'f list \<Rightarrow> nat \<Rightarrow> nat \<Rightarrow> 'q \<Rightarrow> bool" where
  "kept inputs k i q \<longleftrightarrow> wf q \<and> card (elems q) = k
     \<and> (\<forall>p\<in>elems q. snd p < i \<and> fst p = inputs ! snd p)
     \<and> (\<forall>j<i. (inputs ! j, j) \<notin> elems q \<longrightarrow> (\<forall>p\<in>elems q. inputs ! j \<le> fst p))"

lemma fill_kept:
  assumes "k \<le> length inputs"
  shows "\<exists>q. for_res (\<lambda>i q. res_bind (get inputs i) (\<lambda>x. Inr (push (x, i) q))) [0..<k] qempty = Inr q
     \<and> wf q \<and> elems q = (\<lambda>i. (inputs ! i, i)) ` {..<k}"
proof (rule for_res_upt_rule [where I = "\<lambda>i q. wf q \<and> elems q = (\<lambda>i. (inputs ! i, i)) ` {..<i}"])
  fix i t
  assume i: "i < k" and I: "wf t \<and> elems t = (\<lambda>i. (inputs ! i, i)) ` {..<i}"
  then have "(inputs ! i, i) \<notin> elems t" by auto
  then show "\<exists>t'. res_bind (get inputs i) (\<lambda>x. Inr (push (x, i) t)) = Inr t'
      \<and> wf t' \<and> elems t' = (\<lambda>i. (inputs ! i, i)) ` {..<Suc i}"
    using I i assms wf_push elems_push by (auto simp: lessThan_Suc)
qed (simp add: wf_empty elems_empty)

lemma replace_kept:
  assumes "0 < k" and "kept inputs k i q" and "i + length xs = length inputs" and "xs = drop i inputs"
  shows "\<exists>q'. replace_loop push qtop pop xs i q = Inr q' \<and> kept inputs k (length inputs) q'"
  using assms(2-)
proof (induction xs arbitrary: i q)
  case Nil
  then show ?case by simp
next
  case (Cons x xs)
  let ?E = "elems q" and ?m = "Min (elems q)"
  have i: "i < length inputs" using Cons.prems(2) by simp
  then have "drop i inputs = inputs ! i # drop (Suc i) inputs" by (simp add: Cons_nth_drop_Suc)
  then have x: "x = inputs ! i" and rest: "xs = drop (Suc i) inputs" using Cons.prems(3) by simp_all
  have k: "wf q" "card ?E = k" "\<forall>p\<in>?E. snd p < i \<and> fst p = inputs ! snd p"
    and out: "\<And>j p. j < i \<Longrightarrow> (inputs ! j, j) \<notin> ?E \<Longrightarrow> p \<in> ?E \<Longrightarrow> inputs ! j \<le> fst p"
    using Cons.prems(1) unfolding kept_def by blast+
  have fin: "finite ?E" and ne: "?E \<noteq> {}" using k assms(1) finite_elems by auto
  then have m: "?m \<in> ?E" "\<And>p. p \<in> ?E \<Longrightarrow> fst ?m \<le> fst p"
    using Min_in Min_le [OF fin] by (auto simp: less_eq_prod_def intro: less_imp_le)
  have new: "(x, i) \<notin> ?E" using k(3) by auto
  show ?case
  proof (cases "x \<le> fst ?m")
    case True
    have "kept inputs k (Suc i) q"
      unfolding kept_def using k out m True x by (auto simp: less_Suc_eq intro: order_trans)
    then have "\<exists>q'. replace_loop push qtop pop xs (Suc i) q = Inr q' \<and> kept inputs k (length inputs) q'"
      using Cons.IH [of "Suc i" q] Cons.prems(2) rest by simp
    then show ?thesis using True top_min [OF k(1) ne] by simp
  next
    case False
    obtain q' where q': "pop q = Inr q'" "wf q'" "elems q' = ?E - {?m}" using pop_min [OF k(1) ne] by blast
    have new': "(x, i) \<notin> elems q'" using new q'(3) by simp
    have E: "elems (push (x, i) q') = insert (x, i) (?E - {?m})" using elems_push [OF q'(2) new'] q'(3) by simp
    have c: "card (elems (push (x, i) q')) = k" using E fin m(1) new k(2) assms(1) by (simp add: card_Diff_singleton)
    have "kept inputs k (Suc i) (push (x, i) q')"
      unfolding kept_def
    proof (intro conjI allI impI ballI)
      show "wf (push (x, i) q')" using wf_push [OF q'(2) new'] .
      show "card (elems (push (x, i) q')) = k" by (rule c)
      fix p assume "p \<in> elems (push (x, i) q')"
      then show "snd p < Suc i" "fst p = inputs ! snd p" using E k(3) x by (auto simp: less_SucI)
    next
      fix j p
      assume j: "j < Suc i" "(inputs ! j, j) \<notin> elems (push (x, i) q')" and p: "p \<in> elems (push (x, i) q')"
      have "j < i" using j E x by (auto simp: less_Suc_eq)
      have small: "inputs ! j \<le> fst ?m"
      proof (cases "(inputs ! j, j) = ?m")
        case True
        then show ?thesis by (metis fst_conv order_refl)
      next
        case False
        then have "(inputs ! j, j) \<notin> ?E" using j E by auto
        then show ?thesis using out [OF \<open>j < i\<close>] m(1) by simp
      qed
      show "inputs ! j \<le> fst p"
      proof (cases "p = (x, i)")
        case True
        then show ?thesis using small False by simp
      next
        case False
        then show ?thesis using small m(2) [of p] p E by auto
      qed
    qed
    then have "\<exists>q''. replace_loop push qtop pop xs (Suc i) (push (x, i) q') = Inr q'' \<and> kept inputs k (length inputs) q''"
      using Cons.IH [of "Suc i" "push (x, i) q'"] Cons.prems(2) rest by simp
    then show ?thesis using False top_min [OF k(1) ne] q'(1) by simp
  qed
qed


text \<open>The result: the pairs of the queue in ascending order, prepended one by one.\<close>

lemma output_sorted:
  assumes "wf q" and "card (elems q) = n"
  shows "\<exists>ps. output_loop qtop pop n acc q = Inr (map snd ps @ acc) \<and> set ps = elems q
     \<and> length ps = n \<and> sorted_wrt (\<lambda>a b. b < a) ps"
  using assms
proof (induction n arbitrary: q acc)
  case 0
  then show ?case using finite_elems [of q] by (intro exI [of _ "[]"]) simp
next
  case (Suc n)
  let ?E = "elems q" and ?m = "Min (elems q)"
  have ne: "?E \<noteq> {}" and fin: "finite ?E" using Suc.prems finite_elems by auto
  obtain q' where q': "pop q = Inr q'" "wf q'" "elems q' = ?E - {?m}" using pop_min [OF Suc.prems(1) ne] by blast
  have "card (elems q') = n" using q'(3) Suc.prems(2) fin ne by (simp add: card_Diff_singleton)
  from Suc.IH [OF q'(2) this, of "snd ?m # acc"] obtain ps where
    ps: "output_loop qtop pop n (snd ?m # acc) q' = Inr (map snd ps @ snd ?m # acc)" "set ps = elems q'"
      "length ps = n" "sorted_wrt (\<lambda>a b. b < a) ps"
    by blast
  have "?m < p" if "p \<in> set ps" for p
    using that ps(2) q'(3) Min_le [OF fin, of p] by (auto simp: less_le)
  then show ?case
    using ps q' Suc.prems top_min [OF Suc.prems(1) ne] Min_in [OF fin ne]
    by (intro exI [of _ "ps @ [?m]"]) (auto simp: sorted_wrt_append)
qed

end

text \<open>The specification: \<open>k\<close> distinct positions, best first (of equal values the later position first),
  none of the others beating one of them.\<close>

definition is_top_k :: "'f::linorder list \<Rightarrow> nat \<Rightarrow> nat list \<Rightarrow> bool" where
  "is_top_k inputs k r \<longleftrightarrow> length r = k \<and> distinct r \<and> set r \<subseteq> {..<length inputs}
     \<and> sorted_wrt (\<lambda>a b. (inputs ! b, b) < (inputs ! a, a)) r
     \<and> (\<forall>j<length inputs. j \<notin> set r \<longrightarrow> (\<forall>i\<in>set r. inputs ! j \<le> inputs ! i))"

context min_queue
begin

lemma kept_is_top_k:
  assumes kept: "kept inputs k (length inputs) q" and ps: "set ps = elems q" "length ps = k"
    and srt: "sorted_wrt (\<lambda>a b. b < a) ps"
  shows "is_top_k inputs k (map snd ps)"
proof -
  have p: "p = (inputs ! snd p, snd p)" "snd p < length inputs" if "p \<in> set ps" for p
    using kept that ps(1) by (auto simp: kept_def prod_eq_iff)
  have w: "sorted_wrt (\<lambda>a b. (inputs ! b, b) < (inputs ! a, a)) (map snd ps)"
    unfolding sorted_wrt_map using srt by (rule sorted_wrt_mono_rel [rotated]) (metis p(1))
  have "distinct (map snd ps)" using w by (induction ps) auto
  moreover have "inputs ! j \<le> inputs ! i"
    if "j < length inputs" "j \<notin> set (map snd ps)" "i \<in> set (map snd ps)" for i j
  proof -
    have "(inputs ! j, j) \<notin> elems q" using that(2) ps(1) by force
    moreover have "(inputs ! i, i) \<in> elems q" using that(3) p(1) ps(1) by force
    ultimately show ?thesis using kept that(1) by (force simp: kept_def)
  qed
  ultimately show ?thesis using w ps(2) p(2) by (auto simp: is_top_k_def)
qed

lemma top_k_with_correct:
  assumes "0 < k" and "k \<le> length inputs"
  shows "\<exists>r. top_k_with qempty push qtop pop k inputs = Inr r \<and> is_top_k inputs k r"
proof -
  obtain q where q: "for_res (\<lambda>i q. res_bind (get inputs i) (\<lambda>x. Inr (push (x, i) q))) [0..<k] qempty = Inr q"
    "wf q" "elems q = (\<lambda>i. (inputs ! i, i)) ` {..<k}"
    using fill_kept [OF assms(2)] by blast
  have "card (elems q) = k" unfolding q(3) by (subst card_image) (auto simp: inj_on_def)
  then have "kept inputs k k q" using q by (auto simp: kept_def)
  then obtain q' where q': "replace_loop push qtop pop (drop k inputs) k q = Inr q'" "kept inputs k (length inputs) q'"
    using replace_kept [OF assms(1), of inputs k q "drop k inputs"] assms(2) by auto
  obtain ps where "output_loop qtop pop k [] q' = Inr (map snd ps)" "set ps = elems q'" "length ps = k"
    "sorted_wrt (\<lambda>a b. b < a) ps"
    using output_sorted [of q' k "[]"] q'(2) by (auto simp: kept_def)
  then show ?thesis
    using q(1) q'(1) kept_is_top_k [OF q'(2)] by (auto simp: top_k_with_def)
qed

end

section \<open>The queue of the code\<close>

text \<open>A min-queue of pairs as the ascending list of its elements.\<close>

definition pq_push :: "'f::linorder \<times> nat \<Rightarrow> ('f \<times> nat) list \<Rightarrow> ('f \<times> nat) list" where
  "pq_push x q = insort x q"

definition pq_top :: "('f \<times> nat) list \<Rightarrow> ('f \<times> nat) res" where
  "pq_top q = (case q of [] \<Rightarrow> Inl OutOfBounds | x # _ \<Rightarrow> Inr x)"

definition pq_pop :: "('f \<times> nat) list \<Rightarrow> ('f \<times> nat) list res" where
  "pq_pop q = (case q of [] \<Rightarrow> Inl OutOfBounds | _ # q' \<Rightarrow> Inr q')"

lemma Min_sorted: "sorted (x # xs) \<Longrightarrow> Min (set (x # xs)) = x"
  by (intro Min_eqI) auto

interpretation pq: min_queue "[]" pq_push pq_top pq_pop set "\<lambda>q. sorted q \<and> distinct q"
proof
  fix q :: "('f::linorder \<times> nat) list"
  assume q: "sorted q \<and> distinct q" and "set q \<noteq> {}"
  then obtain x xs where c: "q = x # xs" by (cases q) auto
  then have m: "Min (set q) = x" using q Min_sorted by metis
  then show "pq_top q = Inr (Min (set q))" using c by (simp add: pq_top_def)
  show "\<exists>q'. pq_pop q = Inr q' \<and> (sorted q' \<and> distinct q') \<and> set q' = set q - {Min (set q)}"
    using q m c by (auto simp: pq_pop_def)
qed (auto simp: pq_push_def sorted_insort set_insort_key distinct_insort)

definition top_k_indices :: "nat \<Rightarrow> 'f::linorder list \<Rightarrow> nat list res" where
  "top_k_indices k inputs = top_k_with [] pq_push pq_top pq_pop k inputs"

text \<open>C22. \<open>top_k_indices\<close> is a correct selection: for a non-qempty result span that is no longer than
  the inputs it returns the positions of the largest inputs, best first.\<close>

theorem top_k_indices_correct:
  assumes "0 < k" and "k \<le> length inputs"
  shows "\<exists>r. top_k_indices k inputs = Inr r \<and> is_top_k inputs k r"
  unfolding top_k_indices_def using assms by (rule pq.top_k_with_correct)

theorem top_k_indices_correct_witness:
  "\<exists>r. top_k_indices 2 [3, 9, 1, 7::int] = Inr r \<and> is_top_k [3, 9, 1, 7::int] 2 r \<and> r = [1, 3]"
  using top_k_indices_correct [of 2 "[3, 9, 1, 7::int]"]
  by (auto simp: top_k_indices_def top_k_with_def pq_push_def pq_top_def pq_pop_def numeral_eq_Suc)

end
