(* ===== verification/Logging.thy ===== *)
theory Logging
  imports Prelude
begin

text \<open>
  \<open>src/logging.h\<close>, \<open>src/logging.cpp\<close>: the global log switches, the choice of the log stream and the
  text of a log line. The stream is either the standard error stream or an open log file, named by its
  path; what is written to it is returned as a string.
\<close>

record LogItems =
  log_enabled :: bool
  log_ansi_tags :: bool
  log_warning :: bool
  log_generate_next_token :: bool
  log_append_next_tokens :: bool
  log_hit_eos :: bool
  log_hit_max_length :: bool
  log_model_input_values :: bool
  log_model_output_shapes :: bool
  log_model_output_values :: bool
  log_model_logits :: bool

definition LogItems_default :: LogItems where
  "LogItems_default = \<lparr>log_enabled = False, log_ansi_tags = True, log_warning = True,
     log_generate_next_token = False, log_append_next_tokens = False, log_hit_eos = False,
     log_hit_max_length = False, log_model_input_values = False, log_model_output_shapes = False,
     log_model_output_values = False, log_model_logits = False\<rparr>"

definition SetLogBool :: "string \<Rightarrow> bool \<Rightarrow> LogItems \<Rightarrow> LogItems res" where
  "SetLogBool name value g =
     (if name = ''enabled'' then Inr (g\<lparr>log_enabled := value\<rparr>)
      else if name = ''ansi_tags'' then Inr (g\<lparr>log_ansi_tags := value\<rparr>)
      else if name = ''warning'' then Inr (g\<lparr>log_warning := value\<rparr>)
      else if name = ''generate_next_token'' then Inr (g\<lparr>log_generate_next_token := value\<rparr>)
      else if name = ''append_next_tokens'' then Inr (g\<lparr>log_append_next_tokens := value\<rparr>)
      else if name = ''hit_eos'' then Inr (g\<lparr>log_hit_eos := value\<rparr>)
      else if name = ''hit_max_length'' then Inr (g\<lparr>log_hit_max_length := value\<rparr>)
      else if name = ''model_input_values'' then Inr (g\<lparr>log_model_input_values := value\<rparr>)
      else if name = ''model_output_shapes'' then Inr (g\<lparr>log_model_output_shapes := value\<rparr>)
      else if name = ''model_output_values'' then Inr (g\<lparr>log_model_output_values := value\<rparr>)
      else if name = ''model_logits'' then Inr (g\<lparr>log_model_logits := value\<rparr>)
      else Inl UnknownValueError)"

text \<open>\<open>gp_logfile\<close> and \<open>gp_stream\<close> agree: the log file, if there is one, is the stream.\<close>

datatype log_stream = Cerr | LogFile string

definition SetLogString :: "string \<Rightarrow> string \<Rightarrow> log_stream \<Rightarrow> log_stream res" where
  "SetLogString name value stream =
     (if name = ''filename'' then Inr (if value = [] then Cerr else LogFile value)
      else Inl UnknownValueError)"

datatype SGR = Reset | Bold | Faint | Underline
  | Fg_Black | Fg_Red | Fg_Green | Fg_Yellow | Fg_Blue | Fg_Magenta | Fg_Cyan | Fg_White
  | Bg_Black | Bg_Red | Bg_Green | Bg_Yellow | Bg_Blue | Bg_Magenta | Bg_Cyan | Bg_White

fun sgr_code :: "SGR \<Rightarrow> nat" where
  "sgr_code Reset = 0" | "sgr_code Bold = 1" | "sgr_code Faint = 2" | "sgr_code Underline = 4"
| "sgr_code Fg_Black = 30" | "sgr_code Fg_Red = 31" | "sgr_code Fg_Green = 32" | "sgr_code Fg_Yellow = 33"
| "sgr_code Fg_Blue = 34" | "sgr_code Fg_Magenta = 35" | "sgr_code Fg_Cyan = 36" | "sgr_code Fg_White = 37"
| "sgr_code Bg_Black = 40" | "sgr_code Bg_Red = 41" | "sgr_code Bg_Green = 42" | "sgr_code Bg_Yellow = 43"
| "sgr_code Bg_Blue = 44" | "sgr_code Bg_Magenta = 45" | "sgr_code Bg_Cyan = 46" | "sgr_code Bg_White = 47"

definition put_sgr :: "LogItems \<Rightarrow> SGR \<Rightarrow> string" where
  "put_sgr g code = (if log_ansi_tags g then CHR 0x1B # CHR 0x5B # nat_to_string (sgr_code code) @ ''m'' else [])"

definition Log :: "LogItems \<Rightarrow> string \<Rightarrow> string \<Rightarrow> string" where
  "Log g label text =
     put_sgr g Bold @ put_sgr g (if label = ''warning'' then Bg_Yellow else Bg_Blue) @ ''  '' @ label @ ''  ''
     @ put_sgr g Reset @ '' '' @ (if text = [] then [] else text @ [CHR 0x0A])"

text \<open>The value of the switch of that name.\<close>

definition log_item :: "LogItems \<Rightarrow> string \<rightharpoonup> bool" where
  "log_item g = [''enabled'' \<mapsto> log_enabled g, ''ansi_tags'' \<mapsto> log_ansi_tags g, ''warning'' \<mapsto> log_warning g,
     ''generate_next_token'' \<mapsto> log_generate_next_token g, ''append_next_tokens'' \<mapsto> log_append_next_tokens g,
     ''hit_eos'' \<mapsto> log_hit_eos g, ''hit_max_length'' \<mapsto> log_hit_max_length g,
     ''model_input_values'' \<mapsto> log_model_input_values g, ''model_output_shapes'' \<mapsto> log_model_output_shapes g,
     ''model_output_values'' \<mapsto> log_model_output_values g, ''model_logits'' \<mapsto> log_model_logits g]"

text \<open>Every log switch is set by its own name and by no other: \<open>SetLogBool\<close> succeeds exactly on the
  names of the switches, and then changes the switch of that name and no other one.\<close>

theorem SetLogBool_by_name:
  "((\<exists>g'. SetLogBool name value g = Inr g') \<longleftrightarrow> name \<in> dom (log_item g))
   \<and> (\<forall>g'. SetLogBool name value g = Inr g' \<longrightarrow> log_item g' = (log_item g)(name \<mapsto> value))"
  by (simp add: SetLogBool_def log_item_def fun_upd_twist)

theorem SetLogBool_by_name_witness:
  "\<exists>g'. SetLogBool ''hit_eos'' True LogItems_default = Inr g'
     \<and> log_item g' ''hit_eos'' = Some True \<and> log_item g' ''enabled'' = Some False"
proof -
  have "''hit_eos'' \<in> dom (log_item LogItems_default)" "log_item LogItems_default ''enabled'' = Some False"
    by (simp_all add: LogItems_default_def log_item_def)
  then show ?thesis
    using SetLogBool_by_name [of "''hit_eos''" True LogItems_default] by force
qed

end
