(* ===== verification/Float16.thy ===== *)
theory Float16
  imports ElementType Complex_Main "HOL-Library.Log_Nat"
begin

text \<open>
  \<open>src/models/utils.cpp\<close>: the conversions between 16-bit and 32-bit
  floats. A \<open>float\<close> is its 32-bit pattern; \<open>decode32\<close> reads the number a pattern stands for, so that
  the bit-twiddling conversion can be compared with the arithmetic one. A shift by the width of the word
  or more, which C++ leaves undefined, only ever happens in a summand that is then multiplied by zero;
  the model gives it the value 0.
\<close>

unbundle bit_operations_syntax

section \<open>The reference conversion\<close>

text \<open>A float as a sign and a magnitude, an infinity or a NaN. Every magnitude below is exact in a
  \<open>float\<close>.\<close>

datatype fp = Fp bool rat | FpInf bool | FpNaN

definition Float16ToFloat32 :: "16 word \<Rightarrow> fp" where
  "Float16ToFloat32 v =
     (let sign = drop_bit 15 (v AND 0x8000); exponent = unat (drop_bit 10 (v AND 0x7C00));
          fraction = unat (v AND 0x03FF) in
      if exponent = 0 then
        (if fraction = 0 then Fp (sign \<noteq> 0) 0
         else Fp (sign \<noteq> 0) (of_nat fraction / 1024 / 2 ^ 14))
      else if exponent = 31 then
        (if fraction = 0 then FpInf (sign \<noteq> 0) else FpNaN)
      else Fp (sign \<noteq> 0) ((1 + of_nat fraction / 1024) * 2 ^ exponent / 2 ^ 15))"

text \<open>The number of an IEEE single-precision pattern.\<close>

definition decode32 :: "32 word \<Rightarrow> fp" where
  "decode32 b =
     (let neg = bit b 31; e = unat (take_bit 8 (drop_bit 23 b)); m = unat (take_bit 23 b) in
      if e = 0 then Fp neg (of_nat m / 2 ^ 149)
      else if e = 255 then (if m = 0 then FpInf neg else FpNaN)
      else Fp neg (of_nat (2 ^ 23 + m) * 2 ^ e / 2 ^ 150))"

section \<open>The fast conversions\<close>

text \<open>The pattern of \<open>(float)m\<close> for an integer below \<open>2 ^ 24\<close>, which is exact.\<close>

definition uint_to_float_bits :: "32 word \<Rightarrow> 32 word" where
  "uint_to_float_bits m =
     (if m = 0 then 0
      else let l = floorlog 2 (unat m) - 1 in
        push_bit 23 (of_nat (127 + l)) OR take_bit 23 (push_bit (23 - l) m))"

definition FastFloat16ToFloat32 :: "16 word \<Rightarrow> 32 word" where
  "FastFloat16ToFloat32 x =
     (let e = (ucast (drop_bit 10 (x AND 0x7C00)) :: 32 word);
          m = push_bit 13 (ucast (x AND 0x03FF)) :: 32 word;
          v = drop_bit 23 (uint_to_float_bits m) in
      push_bit 16 (ucast (x AND 0x8000))
      OR of_bool (e \<noteq> 0) * (push_bit 23 (e + 112) OR m)
      OR of_bool (e = 0 \<and> m \<noteq> 0) * (push_bit 23 (v - 37) OR (push_bit (unat (150 - v)) m AND 0x007FE000)))"

definition FastFloat32ToFloat16 :: "32 word \<Rightarrow> 16 word" where
  "FastFloat32ToFloat16 v =
     (let b = v + 0x00001000;
          e = drop_bit 23 (b AND 0x7F800000);
          m = b AND 0x007FFFFF in
      ucast (drop_bit 16 (b AND 0x80000000)
        OR of_bool (112 < e) * ((push_bit 10 (e - 112) AND 0x7C00) OR drop_bit 13 m)
        OR of_bool (e < 113 \<and> 101 < e) * drop_bit 1 (drop_bit (unat (125 - e)) (0x007FF000 + m) + 1)
        OR of_bool (143 < e) * 0x7FFF))"

section \<open>Bit fields\<close>

text \<open>A single-precision pattern assembled from its three fields, and the fields of a half.\<close>

lemma bit_bound: "take_bit k (E::'a::len word) = E \<Longrightarrow> bit E n \<Longrightarrow> n < k"
  by (metis bit_take_bit_iff)

definition pack32 :: "32 word \<Rightarrow> 32 word \<Rightarrow> 32 word \<Rightarrow> 32 word" where
  "pack32 s e m = push_bit 31 s OR (push_bit 23 e OR m)"

lemma pack32_fields:
  assumes "take_bit 8 e = e" and "take_bit 23 m = m"
  shows "bit (pack32 s e m) 31 = bit s 0" and "take_bit 8 (drop_bit 23 (pack32 s e m)) = e"
    and "take_bit 23 (pack32 s e m) = m"
  using bit_bound [OF assms(1)] bit_bound [OF assms(2)]
  by (fastforce simp: pack32_def bit_simps intro!: bit_eqI)+

lemma pack32_add:
  assumes "take_bit 8 e = e" and "take_bit 23 m = m"
  shows "pack32 s e m = push_bit 31 s + push_bit 23 e + m"
proof -
  have "push_bit 23 e AND m = 0"
    using bit_bound [OF assms(2)] by (fastforce simp: bit_simps intro!: bit_eqI)
  moreover have "push_bit 31 s AND (push_bit 23 e OR m) = 0"
    using bit_bound [OF assms(1)] bit_bound [OF assms(2)] by (fastforce simp: bit_simps intro!: bit_eqI)
  ultimately show ?thesis by (simp add: pack32_def disjunctive_add_eq_or add.assoc)
qed

abbreviation (input) sgn16 :: "16 word \<Rightarrow> 32 word" where "sgn16 x \<equiv> ucast (drop_bit 15 x)"
abbreviation (input) exp16 :: "16 word \<Rightarrow> 32 word" where "exp16 x \<equiv> ucast (take_bit 5 (drop_bit 10 x))"
abbreviation (input) frac16 :: "16 word \<Rightarrow> 32 word" where "frac16 x \<equiv> ucast (take_bit 10 x)"

lemma numeral_masks:
  "(v::16 word) AND 0x8000 = push_bit 15 (drop_bit 15 v)"
  "v AND 0x7C00 = push_bit 10 (take_bit 5 (drop_bit 10 v))"
  "v AND 0x03FF = take_bit 10 v"
proof -
  have m: "(0x03FF::16 word) = mask 10" "(0x7C00::16 word) = push_bit 10 (mask 5)"
    by (simp_all add: mask_eq_exp_minus_1 push_bit_eq_mult)
  show "v AND 0x03FF = take_bit 10 v" by (simp only: m take_bit_eq_mask)
  show "v AND 0x7C00 = push_bit 10 (take_bit 5 (drop_bit 10 v))"
    unfolding m by (rule bit_eqI) (auto simp: bit_simps)
  have "bit (0x8000 :: 16 word) n \<longleftrightarrow> n = 15" for n
    using bit_exp_iff [where 'a = "16 word", of 15 n] by auto
  then have bits: "bit (v AND 0x8000) n \<longleftrightarrow> bit v n \<and> n = 15" for n
    by (simp only: bit_and_iff)
  show "v AND 0x8000 = push_bit 15 (drop_bit 15 v)"
  proof (rule bit_eqI)
    fix n assume "possible_bit TYPE(16 word) n"
    then have "n < 16" by simp
    then show "bit (v AND 0x8000) n = bit (push_bit 15 (drop_bit 15 v)) n"
      unfolding bits by (cases "n = 15") (auto simp: bit_simps)
  qed
qed
lemma half_masks32:
  "(b::32 word) AND 0x7F800000 = push_bit 23 (take_bit 8 (drop_bit 23 b))"
  "b AND 0x007FFFFF = take_bit 23 b"
  "b AND 0x80000000 = push_bit 31 (drop_bit 31 b)"
proof -
  have m: "(0x007FFFFF::32 word) = mask 23" "(0x7F800000::32 word) = push_bit 23 (mask 8)"
    by (simp_all add: mask_eq_exp_minus_1 push_bit_eq_mult)
  show "b AND 0x007FFFFF = take_bit 23 b" by (simp only: m take_bit_eq_mask)
  show "b AND 0x7F800000 = push_bit 23 (take_bit 8 (drop_bit 23 b))"
    unfolding m by (rule bit_eqI) (auto simp: bit_simps)
  have "bit (0x80000000 :: 32 word) n \<longleftrightarrow> n = 31" for n
    using bit_exp_iff [where 'a = "32 word", of 31 n] by auto
  then have bits: "bit (b AND 0x80000000) n \<longleftrightarrow> bit b n \<and> n = 31" for n
    by (simp only: bit_and_iff)
  show "b AND 0x80000000 = push_bit 31 (drop_bit 31 b)"
  proof (rule bit_eqI)
    fix n assume "possible_bit TYPE(32 word) n"
    then have "n < 32" by simp
    then show "bit (b AND 0x80000000) n = bit (push_bit 31 (drop_bit 31 b)) n"
      unfolding bits by (cases "n = 31") (auto simp: bit_simps)
  qed
qed




lemma exp16_field: "drop_bit 10 ((v::16 word) AND 0x7C00) = take_bit 5 (drop_bit 10 v)"
  by (simp only: numeral_masks) (rule bit_eqI, auto simp: bit_simps)

lemma exp32_field: "drop_bit 23 ((b::32 word) AND 0x7F800000) = take_bit 8 (drop_bit 23 b)"
  by (simp only: half_masks32) (rule bit_eqI, auto simp: bit_simps)

lemma unat_take: "unat (take_bit k (w::'a::len word)) = take_bit k (unat w)"
  by (rule bit_eqI) (auto simp: bit_simps)

lemma word_small: "unat (w::'a::len word) < 2 ^ k \<Longrightarrow> take_bit k w = w"
  by (simp add: word_eq_iff_unsigned [where 'a = nat] unat_take take_bit_nat_eq_self)

lemma unat_ucast16: "unat (ucast (w::16 word) :: 32 word) = unat w"
  by (rule bit_eqI) (auto simp: bit_simps dest: bit_imp_le_length)

lemma exp16_bound: "unat (exp16 x) < 32" and frac16_bound: "unat (frac16 x) < 1024"
  using take_bit_nat_less_exp [of 5 "unat (drop_bit 10 x)"] take_bit_nat_less_exp [of 10 "unat x"]
  by (simp_all add: unat_ucast16 unat_take)

lemma sgn_shift: "push_bit 16 (ucast (push_bit 15 (drop_bit 15 (x::16 word))) :: 32 word) = push_bit 31 (sgn16 x)"
  by (rule bit_eqI) (auto simp: bit_simps)

lemma Fast_fields:
  "FastFloat16ToFloat32 x =
     (let e = exp16 x; m = push_bit 13 (frac16 x); v = drop_bit 23 (uint_to_float_bits m) in
      push_bit 31 (sgn16 x)
      OR of_bool (e \<noteq> 0) * (push_bit 23 (e + 112) OR m)
      OR of_bool (e = 0 \<and> m \<noteq> 0) * (push_bit 23 (v - 37) OR (push_bit (unat (150 - v)) m AND 0x007FE000)))"
  unfolding FastFloat16ToFloat32_def Let_def exp16_field numeral_masks(1,3) sgn_shift ..

lemma Fast_normal:
  assumes "exp16 x \<noteq> 0"
  shows "FastFloat16ToFloat32 x = pack32 (sgn16 x) (exp16 x + 112) (push_bit 13 (frac16 x))"
  using assms unfolding Fast_fields by (simp add: pack32_def Let_def)

lemma Fast_zero:
  assumes "exp16 x = 0" and "frac16 x = 0"
  shows "FastFloat16ToFloat32 x = pack32 (sgn16 x) 0 0"
  using assms unfolding Fast_fields by (simp add: pack32_def Let_def)


lemma unat_push:
  assumes "unat (w::32 word) * 2 ^ k < 2 ^ 32"
  shows "unat (push_bit k w) = unat w * 2 ^ k"
proof -
  have "unat (push_bit k w) = take_bit 32 (push_bit k (unat w))" by (simp only: unsigned_push_bit_eq) simp
  then show ?thesis using assms by (simp add: take_bit_nat_eq_self push_bit_eq_mult)
qed

lemma floorlog_pow2: "0 < n \<Longrightarrow> 2 ^ (floorlog 2 n - 1) \<le> n \<and> n < 2 ^ floorlog 2 n" for n :: nat
  using floorlog_bounds [of n 2] by simp

lemma floorlog_shift: "0 < n \<Longrightarrow> floorlog 2 (n * 2 ^ k) = floorlog 2 n + k"
  by simp

lemma push_bit_window: "14 \<le> k \<Longrightarrow> push_bit k (w::32 word) AND 0x007FE000 = take_bit 23 (push_bit k w)"
proof -
  assume k: "14 \<le> k"
  have m: "(0x007FE000::32 word) = push_bit 13 (mask 10)" by (simp add: mask_eq_exp_minus_1 push_bit_eq_mult)
  show ?thesis unfolding m using k by (intro bit_eqI) (auto simp: bit_simps)
qed

lemma unat_of_nat_small: "n < 2 ^ 32 \<Longrightarrow> unat (of_nat n :: 32 word) = n"
  by (simp add: unat_of_nat)

lemma Fast_subnormal:
  assumes e: "exp16 x = 0" and f: "frac16 x \<noteq> 0"
  defines "L \<equiv> floorlog 2 (unat (frac16 x)) - 1"
  shows "FastFloat16ToFloat32 x
     = pack32 (sgn16 x) (of_nat (103 + L)) (take_bit 23 (push_bit (23 - L) (frac16 x)))" and "L < 10"
proof -
  define n where "n = unat (frac16 x)"
  define w where "w = frac16 x"
  have n: "0 < n" "n < 1024" using f frac16_bound [of x] by (simp_all add: n_def unat_gt_0)
  have fl: "0 < floorlog 2 n" using n floorlog_eq_zero_iff [of 2 n] by linarith
  have "floorlog 2 n \<le> 10" using n by (intro floorlog_leI) auto
  then show L: "L < 10" using fl by (simp add: L_def n_def)
  have m: "unat (push_bit 13 w) = n * 2 ^ 13" using n by (simp add: unat_push w_def n_def)
  then have m0: "push_bit 13 w \<noteq> 0" using n by auto
  have "floorlog 2 (unat (push_bit 13 w)) = floorlog 2 n + 13"
    unfolding m using n floorlog_shift by blast
  then have l: "floorlog 2 (unat (push_bit 13 w)) - 1 = 13 + L" using fl by (simp add: L_def n_def)
  have "uint_to_float_bits (push_bit 13 w)
      = pack32 0 (of_nat (127 + (13 + L))) (take_bit 23 (push_bit (23 - (13 + L)) (push_bit 13 w)))"
    using m0 unfolding uint_to_float_bits_def l Let_def pack32_def by simp
  moreover have "drop_bit 23 (pack32 0 e' (take_bit 23 y)) = e'" if "take_bit 8 e' = e'" for e' y
  proof -
    have "drop_bit 23 (push_bit 23 e') = e'"
      by (intro bit_eqI) (auto simp: bit_simps dest: bit_bound [OF that])
    then show ?thesis by (simp add: pack32_def drop_bit_take_bit)
  qed
  moreover have "take_bit 8 (of_nat (127 + (13 + L)) :: 32 word) = of_nat (127 + (13 + L))"
    using L by (intro word_small) (simp add: unat_of_nat_small del: of_nat_add)
  ultimately have v: "drop_bit 23 (uint_to_float_bits (push_bit 13 w)) = of_nat (140 + L)"
    by (simp only:) (simp add: add.assoc)
  have s1: "of_nat (140 + L) - (37 :: 32 word) = of_nat (103 + L)" by simp
  have "(150 :: 32 word) - of_nat (140 + L) = of_nat (10 - L)" using L by (simp add: of_nat_diff)
  then have s2: "unat ((150 :: 32 word) - of_nat (140 + L)) = 10 - L" by (simp add: unat_of_nat_small)
  have s3: "push_bit (10 - L) (push_bit 13 w) = push_bit (23 - L) w" using L by simp
  show "FastFloat16ToFloat32 x
     = pack32 (sgn16 x) (of_nat (103 + L)) (take_bit 23 (push_bit (23 - L) (frac16 x)))"
    using e m0 L push_bit_window [of "23 - L" w]
    unfolding Fast_fields Let_def w_def [symmetric] v s1 s2 s3 pack32_def by simp
qed


lemma decode_pack:
  assumes "unat e = E" and "0 < E" and "E < 255" and "unat m = M" and "M < 2 ^ 23"
  shows "decode32 (pack32 s e m) = Fp (bit s 0) (of_nat (2 ^ 23 + M) * 2 ^ E / 2 ^ 150)"
proof -
  have "take_bit 8 e = e" and "take_bit 23 m = m" using assms by (auto intro!: word_small)
  from pack32_fields [OF this] show ?thesis using assms by (simp add: decode32_def)
qed

lemma Float16_fields:
  "Float16ToFloat32 x =
     (let e = unat (exp16 x); f = unat (frac16 x) in
      if e = 0 then (if f = 0 then Fp (bit x 15) 0 else Fp (bit x 15) (of_nat f / 1024 / 2 ^ 14))
      else if e = 31 then (if f = 0 then FpInf (bit x 15) else FpNaN)
      else Fp (bit x 15) ((1 + of_nat f / 1024) * 2 ^ e / 2 ^ 15))"
proof -
  have "drop_bit 15 (x AND 0x8000) \<noteq> 0 \<longleftrightarrow> bit x 15"
  proof -
    have "drop_bit 15 (push_bit 15 (drop_bit 15 x)) = of_bool (bit x 15)"
    proof (rule bit_eqI)
      fix n assume "possible_bit TYPE(16 word) n"
      then show "bit (drop_bit 15 (push_bit 15 (drop_bit 15 x))) n = bit (of_bool (bit x 15) :: 16 word) n"
        by (cases n) (auto simp: bit_simps dest: bit_imp_le_length)
    qed
    then show ?thesis unfolding numeral_masks by simp
  qed
  then show ?thesis
    unfolding Float16ToFloat32_def Let_def exp16_field numeral_masks(3) unat_ucast16 by auto
qed

lemma sgn16_bit: "bit (sgn16 x) 0 = bit x 15"
  by (simp add: bit_simps)

lemma normal_exp: "unat (exp16 x + 112) = unat (exp16 x) + 112"
proof -
  have "unat (exp16 x + 112) = (unat (exp16 x) + 112) mod 2 ^ 32" by (simp add: unat_word_ariths)
  then show ?thesis using exp16_bound [of x] by simp
qed

lemma subnormal_mantissa:
  assumes "w \<noteq> 0" and "unat (w::32 word) < 1024"
  defines "L \<equiv> floorlog 2 (unat w) - 1"
  shows "2 ^ 23 + unat (take_bit 23 (push_bit (23 - L) w)) = unat w * 2 ^ (23 - L)"
proof -
  have p: "0 < unat w" using assms(1) by (simp add: unat_gt_0)
  then have fl: "0 < floorlog 2 (unat w)" using floorlog_eq_zero_iff [of 2 "unat w"] by linarith
  have "floorlog 2 (unat w) \<le> 10" using assms(2) by (intro floorlog_leI) auto
  then have L: "L < 10" using fl by (simp add: L_def)
  obtain r where r: "unat w = 2 ^ L + r" "r < 2 ^ L"
  proof
    show "unat w = 2 ^ L + (unat w - 2 ^ L)" using floorlog_pow2 [OF p] by (simp add: L_def)
    have "2 ^ floorlog 2 (unat w) = (2 * 2 ^ L :: nat)" using fl by (simp add: L_def flip: power_Suc)
    then show "unat w - 2 ^ L < 2 ^ L" using floorlog_pow2 [OF p] unfolding L_def by linarith
  qed
  have "r * 2 ^ (23 - L) < 2 ^ L * 2 ^ (23 - L)" using r(2) by simp
  also have "\<dots> = 2 ^ 23" using L by (simp flip: power_add)
  finally have rb: "r * 2 ^ (23 - L) < 2 ^ 23" .
  have prod: "unat w * 2 ^ (23 - L) = 2 ^ 23 + r * 2 ^ (23 - L)"
    using L by (simp add: r(1) add_mult_distrib flip: power_add)
  have "unat (push_bit (23 - L) w) = unat w * 2 ^ (23 - L)"
    using prod rb by (intro unat_push) simp
  then have "unat (take_bit 23 (push_bit (23 - L) w)) = (2 ^ 23 + r * 2 ^ (23 - L)) mod 2 ^ 23"
    unfolding unat_take prod by (simp add: take_bit_eq_mod)
  also have "\<dots> = r * 2 ^ (23 - L)" using rb by simp
  finally show ?thesis by (simp add: prod)
qed

section \<open>Agreement and round trip\<close>

lemma pack32_sign:
  assumes "take_bit 1 s = s" and "take_bit 8 e = e" and "take_bit 23 m = m"
  shows "drop_bit 31 (pack32 s e m) = s"
proof (rule bit_eqI)
  fix n assume "possible_bit TYPE(32 word) n"
  then show "bit (drop_bit 31 (pack32 s e m)) n = bit s n"
    using bit_bound [OF assms(1), of n] bit_bound [OF assms(2), of "8 + n"] bit_bound [OF assms(3), of "31 + n"]
    by (cases n) (auto simp: pack32_def bit_simps dest: bit_imp_le_length)
qed

lemma unat_plus: "unat (v::32 word) + unat w < 2 ^ 32 \<Longrightarrow> unat (v + w) = unat v + unat w"
  by (simp add: unat_word_ariths)

lemma to_half_pack:
  assumes s: "take_bit 1 s = s" and e: "unat e < 256" and m: "unat m + 0x1000 < 2 ^ 23"
  shows "FastFloat32ToFloat16 (pack32 s e m) =
     ucast (push_bit 15 s
       OR of_bool (112 < e) * ((push_bit 10 (e - 112) AND 0x7C00) OR drop_bit 13 (m + 0x1000))
       OR of_bool (e < 113 \<and> 101 < e) * drop_bit 1 (drop_bit (unat (125 - e)) (0x007FF000 + (m + 0x1000)) + 1)
       OR of_bool (143 < e) * 0x7FFF)"
proof -
  have m': "unat (m + 0x1000) = unat m + 0x1000" using m by (subst unat_plus) simp_all
  have te: "take_bit 8 e = e" and tm: "take_bit 23 m = m" and tm': "take_bit 23 (m + 0x1000) = m + 0x1000"
    using e m m' by (auto intro!: word_small)
  have "pack32 s e m + 0x1000 = pack32 s e (m + 0x1000)"
    unfolding pack32_add [OF te tm] pack32_add [OF te tm'] by simp
  moreover have "drop_bit 16 ((b::32 word) AND 0x80000000) = push_bit 15 (drop_bit 31 b)" for b
    unfolding half_masks32 by (rule bit_eqI) (auto simp: bit_simps dest: bit_imp_le_length)
  ultimately show ?thesis
    unfolding FastFloat32ToFloat16_def Let_def exp32_field half_masks32(2)
    by (simp only: pack32_fields [OF te tm'] pack32_sign [OF s te tm'])
qed

lemma half_pack: "ucast (push_bit 15 (sgn16 x) OR (push_bit 10 (exp16 x) OR frac16 x)) = x"
proof (rule bit_eqI)
  fix n assume "possible_bit TYPE(16 word) n"
  then have "n < 16" by simp
  then consider "n < 10" | "10 \<le> n" "n < 15" | "n = 15" by linarith
  then show "bit (ucast (push_bit 15 (sgn16 x) OR (push_bit 10 (exp16 x) OR frac16 x)) :: 16 word) n = bit x n"
    by cases (auto simp: bit_simps)
qed

lemma sgn16_small: "take_bit 1 (sgn16 x) = sgn16 x"
proof (rule bit_eqI)
  fix n assume "possible_bit TYPE(32 word) n"
  have "\<not> bit (sgn16 x) n" if "n \<noteq> 0"
    using that by (auto simp: bit_simps dest: bit_imp_le_length)
  then show "bit (take_bit 1 (sgn16 x)) n = bit (sgn16 x) n"
    unfolding bit_take_bit_iff by auto
qed

lemma unat_drop: "unat (drop_bit k (w::32 word)) = unat w div 2 ^ k"
  unfolding drop_bit_eq_div [symmetric] by (rule bit_eqI) (auto simp: bit_simps dest: bit_imp_le_length)

lemma subnormal_to_half:
  assumes "unat (w::32 word) < 1024" and "L < 10" and "2 ^ 23 + unat m = unat w * 2 ^ (23 - L)" and "unat m < 2 ^ 23"
  shows "unat m + 0x1000 < 2 ^ 23" and "drop_bit 1 (drop_bit (22 - L) (0x007FF000 + (m + 0x1000)) + 1) = w"
proof -
  have "(2::nat) ^ 14 dvd 2 ^ (23 - L)" using assms(2) by (intro le_imp_power_dvd) simp
  then have "(2::nat) ^ 14 dvd 2 ^ 23 + unat m" unfolding assms(3) by (rule dvd_mult)
  moreover have "(2::nat) ^ 14 dvd 2 ^ 23" by (intro le_imp_power_dvd) simp
  ultimately have "2 ^ 14 dvd unat m" by (simp only: dvd_add_right_iff)
  then obtain k where "unat m = 2 ^ 14 * k" by blast
  then show m: "unat m + 0x1000 < 2 ^ 23" using assms(4) by simp
  have "unat (m + 0x1000) = unat m + 0x1000" using m by (subst unat_plus) simp_all
  then have "unat (0x007FF000 + (m + 0x1000)) = 2 ^ 23 + unat m" using m by (subst unat_plus) simp_all
  also have "\<dots> = 2 * unat w * 2 ^ (22 - L)"
  proof -
    have "23 - L = Suc (22 - L)" using assms(2) by simp
    then show ?thesis unfolding assms(3) by simp
  qed
  finally have d: "unat (drop_bit (22 - L) (0x007FF000 + (m + 0x1000))) = 2 * unat w"
    unfolding unat_drop by simp
  then have "unat (drop_bit (22 - L) (0x007FF000 + (m + 0x1000)) + 1) = 2 * unat w + 1"
    using assms(1) by (subst unat_plus) simp_all
  then have "unat (drop_bit 1 (drop_bit (22 - L) (0x007FF000 + (m + 0x1000)) + 1)) = unat w"
    unfolding unat_drop by simp
  then show "drop_bit 1 (drop_bit (22 - L) (0x007FF000 + (m + 0x1000)) + 1) = w"
    by (simp add: word_eq_iff_unsigned [where 'a = nat])
qed

text \<open>C29. The fast conversion from half to single precision agrees with the arithmetic reference conversion
  on every half that is not an infinity or a NaN: zeros of both signs, subnormals and normals.\<close>

theorem FastFloat16ToFloat32_correct:
  assumes "unat (exp16 x) \<noteq> 31"
  shows "decode32 (FastFloat16ToFloat32 x) = Float16ToFloat32 x"
proof (cases "exp16 x = 0")
  case e: False
  have "unat (push_bit 13 (frac16 x)) = unat (frac16 x) * 2 ^ 13"
    using frac16_bound [of x] by (intro unat_push) simp
  then have "decode32 (FastFloat16ToFloat32 x)
     = Fp (bit x 15) (of_nat (2 ^ 23 + unat (frac16 x) * 2 ^ 13) * 2 ^ (unat (exp16 x) + 112) / 2 ^ 150)"
    unfolding Fast_normal [OF e] sgn16_bit [symmetric] using exp16_bound [of x] frac16_bound [of x]
    by (intro decode_pack normal_exp) simp_all
  moreover have "unat (exp16 x) \<noteq> 0" using e by (simp add: unat_eq_0)
  ultimately show ?thesis
    using assms unfolding Float16_fields Let_def by (simp add: power_add field_simps)
next
  case e: True
  show ?thesis
  proof (cases "frac16 x = 0")
    case True
    show ?thesis unfolding Fast_zero [OF e True] Float16_fields Let_def e True
      by (simp add: decode32_def pack32_fields sgn16_bit)
  next
    case f: False
    define L where "L = floorlog 2 (unat (frac16 x)) - 1"
    have Lb: "L < 10" unfolding L_def by (rule Fast_subnormal(2) [OF e f])
    have sum: "2 ^ 23 + unat (take_bit 23 (push_bit (23 - L) (frac16 x))) = unat (frac16 x) * 2 ^ (23 - L)"
      unfolding L_def by (rule subnormal_mantissa [OF f frac16_bound])
    have "unat (take_bit 23 (push_bit (23 - L) (frac16 x))) < 2 ^ 23"
      unfolding unat_take by (rule take_bit_nat_less_exp)
    then have "decode32 (FastFloat16ToFloat32 x)
       = Fp (bit x 15) (of_nat (unat (frac16 x) * 2 ^ (23 - L)) * 2 ^ (103 + L) / 2 ^ 150)"
      unfolding Fast_subnormal(1) [OF e f, folded L_def] sgn16_bit [symmetric] sum [symmetric] using Lb
      by (intro decode_pack unat_of_nat_small refl) simp_all
    moreover have "(2::rat) ^ (23 - L) * 2 ^ (103 + L) = 2 ^ 126" using Lb by (simp flip: power_add)
    ultimately show ?thesis using f unfolding Float16_fields Let_def e
      by (simp add: unat_eq_0)
  qed
qed

theorem FastFloat16ToFloat32_correct_witness:
  "decode32 (FastFloat16ToFloat32 0x3C01) = Float16ToFloat32 0x3C01
   \<and> Float16ToFloat32 0x3C01 = Fp False (1 + 1 / 1024)"
  using FastFloat16ToFloat32_correct [of "0x3C01"]
  by (simp add: take_bit_eq_mod drop_bit_eq_div Float16ToFloat32_def Let_def)

text \<open>C30. Converting a half to single precision and back gives the same half, for all 65536 patterns.\<close>

theorem Float16_roundtrip: "FastFloat32ToFloat16 (FastFloat16ToFloat32 x) = x"
proof (cases "exp16 x = 0")
  case e: False
  have u: "unat (push_bit 13 (frac16 x)) = unat (frac16 x) * 2 ^ 13"
    using frac16_bound [of x] by (intro unat_push) simp
  have m: "unat (push_bit 13 (frac16 x)) + 0x1000 < 2 ^ 23" using frac16_bound [of x] by (simp add: u)
  have e8: "unat (exp16 x + 112) < 256" using exp16_bound [of x] by (simp only: normal_exp)
  have cmp: "112 < exp16 x + 112" "\<not> exp16 x + 112 < 113" "\<not> 143 < exp16 x + 112"
    using e exp16_bound [of x] unat_gt_0 [of "exp16 x"] unfolding word_less_nat_alt normal_exp by simp_all
  have "unat (drop_bit 13 (push_bit 13 (frac16 x) + 0x1000)) = unat (frac16 x)"
    unfolding unat_drop using m by (subst unat_plus) (simp_all add: u)
  then have f: "drop_bit 13 (push_bit 13 (frac16 x) + 0x1000) = frac16 x"
    by (simp add: word_eq_iff_unsigned [where 'a = nat])
  have k: "(0x7C00 :: 32 word) = push_bit 10 (mask 5)" by (simp add: mask_eq_exp_minus_1 push_bit_eq_mult)
  have x: "push_bit 10 (exp16 x) AND 0x7C00 = push_bit 10 (exp16 x)"
    unfolding k by (rule bit_eqI) (auto simp: bit_simps)
  show ?thesis
    unfolding Fast_normal [OF e] to_half_pack [OF sgn16_small e8 m] f
    using cmp half_pack [of x] x by simp
next
  case e: True
  show ?thesis
  proof (cases "frac16 x = 0")
    case True
    then show ?thesis using half_pack [of x] e
      unfolding Fast_zero [OF e True] by (subst to_half_pack [OF sgn16_small]) simp_all
  next
    case f: False
    define L where "L = floorlog 2 (unat (frac16 x)) - 1"
    define m where "m = take_bit 23 (push_bit (23 - L) (frac16 x))"
    define E where "E = (of_nat (103 + L) :: 32 word)"
    have L: "L < 10" unfolding L_def by (rule Fast_subnormal(2) [OF e f])
    have sum: "2 ^ 23 + unat m = unat (frac16 x) * 2 ^ (23 - L)"
      unfolding m_def L_def by (rule subnormal_mantissa [OF f frac16_bound])
    have E: "unat E = 103 + L" unfolding E_def using L by (intro unat_of_nat_small) simp
    have m23: "unat m < 2 ^ 23" unfolding m_def unat_take by (rule take_bit_nat_less_exp)
    have "(125 :: 32 word) - E = of_nat (22 - L)" using L by (simp add: E_def of_nat_diff)
    then have sh: "unat (125 - E) = 22 - L" by (simp only:) (simp add: unat_of_nat_small)
    have cmp: "\<not> 112 < E" "E < 113" "101 < E" "\<not> 143 < E"
      using L unfolding word_less_nat_alt E by simp_all
    have "FastFloat16ToFloat32 x = pack32 (sgn16 x) E m"
      unfolding E_def m_def L_def by (rule Fast_subnormal(1) [OF e f])
    moreover note half = subnormal_to_half [OF frac16_bound L sum m23]
    moreover have "unat E < 256" using L by (simp add: E)
    ultimately show ?thesis
      using half_pack [of x] cmp e by (simp only: to_half_pack [OF sgn16_small _ half(1)] sh half(2)) simp
  qed
qed

end
