(* ===== verification/Tensors.thy ===== *)
theory Tensors
  imports Float16 Params
begin

text \<open>
  The tensors the model layer works on: \<open>OrtValue\<close> objects of the runtime, an explicit memory that
  holds them by address (the code passes raw pointers to tensors owned by \<open>unique_ptr\<close>s), the tensor
  operations of \<open>src/models/model.cpp\<close> (\<open>ExpandInputs\<close>, the float conversions) and the static buffers
  of \<open>src/models/static_buffer.cpp\<close>.

  A tensor holds one list entry per element. Memory a tensor is allocated in is \<open>Uninit\<close> until it is
  written; reading an element as another type than the one it was written as is \<open>TypeConfusion\<close>, using
  a tensor after its owner released it is \<open>UseAfterFree\<close>. A byte-wise copy whose sizes are multiples of
  the element size is a copy of elements. The model layer is that of a build without CUDA and DirectML,
  where the device of a model is the CPU; the branches of the other devices end in the error of the
  \<open>default\<close> case.
\<close>

section \<open>Tensors and memory\<close>

datatype 'f scalar = Uninit | SInt int | SFloat 'f | SHalf "16 word"

record 'f OrtValue =
  ov_type :: ONNXTensorElementDataType
  ov_shape :: "int list"
  ov_data :: "'f scalar list"

type_synonym addr = nat

record 'f mem =
  next_addr :: addr
  ovs :: "addr \<rightharpoonup> 'f OrtValue"

definition GetElementCount :: "int list \<Rightarrow> nat" where
  "GetElementCount shape = prod_list (map nat shape)"

definition alloc :: "'f OrtValue \<Rightarrow> 'f mem \<Rightarrow> addr \<times> 'f mem" where
  "alloc v m = (next_addr m, m\<lparr>next_addr := Suc (next_addr m), ovs := (ovs m)(next_addr m \<mapsto> v)\<rparr>)"

definition CreateTensor :: "int list \<Rightarrow> ONNXTensorElementDataType \<Rightarrow> 'f mem \<Rightarrow> (addr \<times> 'f mem) res" where
  "CreateTensor shape type m =
     (if \<exists>d\<in>set shape. d < 0 then Inl OrtException
      else Inr (alloc \<lparr>ov_type = type, ov_shape = shape, ov_data = replicate (GetElementCount shape) Uninit\<rparr> m))"

definition deref :: "'f mem \<Rightarrow> addr \<Rightarrow> 'f OrtValue res" where
  "deref m p = (case ovs m p of None \<Rightarrow> Inl UseAfterFree | Some v \<Rightarrow> Inr v)"

definition free :: "addr \<Rightarrow> 'f mem \<Rightarrow> 'f mem" where
  "free p m = m\<lparr>ovs := (ovs m)(p := None)\<rparr>"

text \<open>A \<open>unique_ptr\<close> member: assigning to it releases what it owned.\<close>

type_synonym uptr = "addr option"

fun release :: "uptr \<Rightarrow> 'f mem \<Rightarrow> 'f mem" where
  "release None m = m"
| "release (Some p) m = free p m"

definition set_data :: "addr \<Rightarrow> 'f scalar list \<Rightarrow> 'f mem \<Rightarrow> 'f mem res" where
  "set_data p xs m = res_bind (deref m p) (\<lambda>v. Inr (m\<lparr>ovs := (ovs m)(p \<mapsto> v\<lparr>ov_data := xs\<rparr>)\<rparr>))"

text \<open>Reading the elements of a tensor as a C type.\<close>

fun scalar_int :: "'f scalar \<Rightarrow> int res" where
  "scalar_int (SInt i) = Inr i"
| "scalar_int Uninit = Inl UninitializedRead"
| "scalar_int _ = Inl TypeConfusion"

fun scalar_float :: "'f scalar \<Rightarrow> 'f res" where
  "scalar_float (SFloat x) = Inr x"
| "scalar_float Uninit = Inl UninitializedRead"
| "scalar_float _ = Inl TypeConfusion"

fun scalar_half :: "'f scalar \<Rightarrow> (16 word) res" where
  "scalar_half (SHalf x) = Inr x"
| "scalar_half Uninit = Inl UninitializedRead"
| "scalar_half _ = Inl TypeConfusion"

fun map_res :: "('a \<Rightarrow> 'b res) \<Rightarrow> 'a list \<Rightarrow> 'b list res" where
  "map_res f [] = Inr []"
| "map_res f (x # xs) = res_bind (f x) (\<lambda>y. res_bind (map_res f xs) (\<lambda>ys. Inr (y # ys)))"

lemma map_res_map: "(\<And>x. x \<in> set xs \<Longrightarrow> f (g x) = Inr (h x)) \<Longrightarrow> map_res f (map g xs) = Inr (map h xs)"
  by (induction xs) auto

definition mem_ok :: "'f mem \<Rightarrow> bool" where
  "mem_ok m \<longleftrightarrow> (\<forall>p\<ge>next_addr m. ovs m p = None)"

section \<open>Expanding a batch over its beams\<close>

definition ExpandInputs :: "DeviceType \<Rightarrow> addr \<Rightarrow> int \<Rightarrow> 'f mem \<Rightarrow> (addr \<times> 'f mem) res" where
  "ExpandInputs device input n_beams m =
     (if n_beams = 1 \<and> (device = CPU \<or> device = DML) then Inr (input, m)
      else
        res_bind (deref m input) (\<lambda>v.
        res_bind (SizeOf (ov_type v)) (\<lambda>element_size.
        res_bind (get (ov_shape v) 0) (\<lambda>n_batch.
        if n_batch = 0 then Inl DivisionByZero
        else
          let row = GetElementCount (ov_shape v) * element_size div nat n_batch div element_size in
          res_bind (CreateTensor ((ov_shape v)[0 := n_batch * n_beams]) (ov_type v) m) (\<lambda>(expanded, m1).
          if device = CUDA then Inl (RuntimeError ''ExpandInputs - Unsupported device type'')
          else
          res_bind (deref m1 expanded) (\<lambda>e.
          res_bind (for_res (\<lambda>i. for_res (\<lambda>j (d, target).
              res_bind (subspan (ov_data v) (i * row) row) (\<lambda>src.
              res_bind (copy_into d target src) (\<lambda>d'. Inr (d', target + row))))
              [0..<nat n_beams]) [0..<nat n_batch] (ov_data e, 0)) (\<lambda>(d, _).
          res_bind (set_data expanded d m1) (\<lambda>m2. Inr (expanded, m2)))))))))"

lemma SizeOf_pos: "SizeOf type = Inr n \<Longrightarrow> 0 < n"
  by (cases type) auto

lemma CreateTensor_ok:
  "(\<And>d. d \<in> set shape \<Longrightarrow> 0 \<le> d) \<Longrightarrow>
   CreateTensor shape type m = Inr (next_addr m, m\<lparr>next_addr := Suc (next_addr m),
     ovs := (ovs m)(next_addr m \<mapsto> \<lparr>ov_type = type, ov_shape = shape, ov_data = replicate (GetElementCount shape) Uninit\<rparr>)\<rparr>)"
  by (force simp: CreateTensor_def alloc_def)

text \<open>The two nested loops of the copy are one loop over the rows of the result.\<close>

lemma expand_loop:
  assumes "0 < k" and "n * row \<le> length src" and "n * k * row \<le> length dst"
  shows "for_res (\<lambda>i. for_res (\<lambda>j (d, target).
           res_bind (subspan src (i * row) row) (\<lambda>b. res_bind (copy_into d target b) (\<lambda>d'. Inr (d', target + row))))
           [0..<k]) [0..<n] (dst, 0)
         = Inr (blocks src row (\<lambda>r. r div k) (n * k) @ drop (n * k * row) dst, n * k * row)"
proof -
  let ?body = "\<lambda>r (d, target). res_bind (subspan src (r div k * row) row) (\<lambda>b.
      res_bind (copy_into d target b) (\<lambda>d'. Inr (d', target + row)))"
  have "for_res (\<lambda>i. for_res (\<lambda>j (d, target).
           res_bind (subspan src (i * row) row) (\<lambda>b. res_bind (copy_into d target b) (\<lambda>d'. Inr (d', target + row))))
           [0..<k]) [0..<n] (dst, 0) = for_res (\<lambda>i. for_res (\<lambda>j. ?body (i * k + j)) [0..<k]) [0..<n] (dst, 0)"
    using assms(1) by (intro for_res_cong refl) auto
  also have "\<dots> = for_res ?body [0..<n * k] (dst, 0)" by (rule for_res_flatten)
  also have "\<dots> = Inr (blocks src row (\<lambda>r. r div k) (n * k) @ drop (n * k * row) dst, n * k * row)"
  proof (rule for_res_blocks_carried [OF assms(3)])
    fix r assume "r < n * k"
    then have "r div k < n" by (simp add: less_mult_imp_div_less)
    then show "r div k * row + row \<le> length src" using row_bound0 [of "r div k" n row] assms(2) by simp
  qed
  finally show ?thesis .
qed

lemma GetElementCount_Cons [simp]: "GetElementCount (d # ds) = nat d * GetElementCount ds"
  by (simp add: GetElementCount_def)

text \<open>What \<open>ExpandInputs\<close> leaves in memory: the source untouched, and one new tensor of which row \<open>r\<close> is
  row \<open>r div num_beams\<close> of the source.\<close>

lemma ExpandInputs_ok:
  assumes v: "ovs m p = Some v" and shape: "ov_shape v = n_batch # ds" and pos: "1 \<le> n_batch" "1 \<le> n_beams"
    and ds: "\<And>d. d \<in> set ds \<Longrightarrow> 0 \<le> d" and data: "length (ov_data v) = GetElementCount (ov_shape v)"
    and size: "SizeOf (ov_type v) = Inr element_size" and ne: "n_beams \<noteq> 1" and dev: "device \<noteq> CUDA"
  defines "row \<equiv> GetElementCount ds"
  shows "ExpandInputs device p n_beams m = Inr (next_addr m, m\<lparr>next_addr := Suc (next_addr m),
     ovs := (ovs m)(next_addr m \<mapsto> \<lparr>ov_type = ov_type v, ov_shape = n_batch * n_beams # ds,
       ov_data = blocks (ov_data v) row (\<lambda>r. r div nat n_beams) (nat n_batch * nat n_beams)\<rparr>)\<rparr>)"
proof -
  have es: "0 < element_size" using SizeOf_pos [OF size] .
  have "nat n_batch * row * element_size div nat n_batch = row * element_size" using pos by (simp add: mult.assoc)
  then have r: "nat n_batch * row * element_size div nat n_batch div element_size = row" using es by simp
  have "0 \<le> n_batch * n_beams" using pos by simp
  then have CT: "CreateTensor (n_batch * n_beams # ds) (ov_type v) m = Inr (next_addr m, m\<lparr>next_addr := Suc (next_addr m),
     ovs := (ovs m)(next_addr m \<mapsto> \<lparr>ov_type = ov_type v, ov_shape = n_batch * n_beams # ds,
       ov_data = replicate (nat n_batch * nat n_beams * row) Uninit\<rparr>)\<rparr>)"
    using pos ds by (subst CreateTensor_ok) (auto simp: nat_mult_distrib row_def)
  have len: "length (ov_data v) = nat n_batch * row" using data by (simp add: shape row_def)
  show ?thesis
    using pos len es
    by (simp only: ExpandInputs_def ne dev simp_thms if_False deref_def v option.case res_bind_Inr size shape)
       (simp add: get_def CT r dev deref_def set_data_def expand_loop row_def [symmetric])
qed



definition example_mem :: "int mem" where
  "example_mem = \<lparr>next_addr = 1, ovs = [0 \<mapsto> \<lparr>ov_type = ONNX_INT32, ov_shape = [2, 2],
     ov_data = [SInt 5, SInt 6, SInt 7, SInt 8]\<rparr>]\<rparr>"


section \<open>Float conversions of tensors\<close>

text \<open>\<open>p_out\<close> is reused when it has the shape of the input. \<open>of_bits\<close> and \<open>to_bits\<close> relate a float to its pattern.\<close>

definition convert_target :: "int list \<Rightarrow> uptr \<Rightarrow> 'f mem \<Rightarrow> (addr \<times> 'f mem) res" where
  "convert_target shape p_out m =
     (case p_out of
        None \<Rightarrow> CreateTensor shape ONNX_FLOAT m
      | Some q \<Rightarrow> res_bind (deref m q) (\<lambda>out.
          if shape \<noteq> ov_shape out then
            res_bind (CreateTensor shape ONNX_FLOAT m) (\<lambda>(q', m'). Inr (q', free q m'))
          else Inr (q, m)))"

definition ConvertFp16ToFp32 ::
    "(32 word \<Rightarrow> 'f) \<Rightarrow> DeviceType \<Rightarrow> addr \<Rightarrow> uptr \<Rightarrow> 'f mem \<Rightarrow> (addr \<times> 'f mem) res" where
  "ConvertFp16ToFp32 of_bits device p_in p_out m =
     res_bind (deref m p_in) (\<lambda>v.
     res_bind (convert_target (ov_shape v) p_out m) (\<lambda>(q, m1).
     if device = CUDA then Inl (RuntimeError ''ConvertFp16ToFp32 - Unsupported device type'')
     else
       res_bind (map_res (\<lambda>s. res_bind (scalar_half s) (\<lambda>h. Inr (SFloat (of_bits (FastFloat16ToFloat32 h)))))
         (take (GetElementCount (ov_shape v)) (ov_data v))) (\<lambda>xs.
       res_bind (set_data q xs m1) (\<lambda>m2. Inr (q, m2)))))"

text \<open>The other direction allocates its target as a tensor of floats as well, and then writes halves.\<close>

definition ConvertFp32ToFp16 ::
    "('f \<Rightarrow> 32 word) \<Rightarrow> DeviceType \<Rightarrow> addr \<Rightarrow> uptr \<Rightarrow> 'f mem \<Rightarrow> (addr \<times> 'f mem) res" where
  "ConvertFp32ToFp16 to_bits device p_in p_out m =
     res_bind (deref m p_in) (\<lambda>v.
     res_bind (convert_target (ov_shape v) p_out m) (\<lambda>(q, m1).
     if device = CUDA then Inl (RuntimeError ''ConvertFp32ToFp16 - Unsupported device type'')
     else
       res_bind (map_res (\<lambda>s. res_bind (scalar_float s) (\<lambda>x. Inr (SHalf (FastFloat32ToFloat16 (to_bits x)))))
         (take (GetElementCount (ov_shape v)) (ov_data v))) (\<lambda>xs.
       res_bind (set_data q xs m1) (\<lambda>m2. Inr (q, m2)))))"


section \<open>Static buffers\<close>

text \<open>A buffer that is allocated by the first request, with room for \<open>max_beam_batch_size\<close> rows, and on
  which every later tensor of a captured graph is placed. A request that does not fit constructs an
  exception object and drops it, so the tensor is placed on the buffer all the same; a tensor on a static
  buffer is described by its byte size, shape and type.\<close>

record StaticBuffer =
  sb_buffer :: "nat option"
  sb_bytes :: nat
  sb_max_beam_batch_size :: nat

record static_view =
  vw_bytes :: nat
  vw_shape :: "int list"
  vw_type :: ONNXTensorElementDataType

definition StaticBuffer_new :: "nat \<Rightarrow> StaticBuffer" where
  "StaticBuffer_new max_bb = \<lparr>sb_buffer = None, sb_bytes = 0, sb_max_beam_batch_size = max_bb\<rparr>"

fun GetNumElements :: "int list \<Rightarrow> nat" where
  "GetNumElements [] = 1"
| "GetNumElements (d # shape) = nat d * GetNumElements shape"

definition CreateTensorOnStaticBuffer ::
    "int list \<Rightarrow> ONNXTensorElementDataType \<Rightarrow> StaticBuffer \<Rightarrow> (static_view \<times> StaticBuffer) res" where
  "CreateTensorOnStaticBuffer shape type sb =
     res_bind (SizeOf type) (\<lambda>size.
     let new_bytes = size * GetNumElements shape;
         view = \<lparr>vw_bytes = new_bytes, vw_shape = shape, vw_type = type\<rparr> in
     case sb_buffer sb of
       None \<Rightarrow>
         res_bind (get shape 0) (\<lambda>d.
         if d = 0 then Inl DivisionByZero
         else let bytes = new_bytes * (sb_max_beam_batch_size sb div nat d) in
           Inr (view, sb\<lparr>sb_buffer := Some bytes, sb_bytes := bytes\<rparr>))
     | Some _ \<Rightarrow> Inr (view, sb))"



text \<open>When the first request has a number of rows that does not divide the maximum, a later request of
  the maximum of rows is placed on a buffer that is too small for it, without an error.\<close>

lemma StaticBuffer_overflows:
  "\<exists>view sb view'. CreateTensorOnStaticBuffer [2, 8] ONNX_FLOAT (StaticBuffer_new 3) = Inr (view, sb)
     \<and> CreateTensorOnStaticBuffer [3, 8] ONNX_FLOAT sb = Inr (view', sb)
     \<and> sb_bytes sb = 64 \<and> vw_bytes view' = 96"
  by (simp add: CreateTensorOnStaticBuffer_def StaticBuffer_new_def get_def)

end
