(* ===== verification/Models.thy ===== *)
theory Models
  imports Tensors ConfigParse
begin

text \<open>
  \<open>src/models/model.cpp\<close>, \<open>src/models/model.h\<close>: the inputs and outputs a state hands to a session,
  batching of token sequences, the tokenizer, the types of a session's inputs and outputs, the session
  options derived from the configuration and the choice of the model class. The runtime's session and the
  tokenizer library are parameters.
\<close>

section \<open>State: inputs and outputs of a run\<close>

record State =
  st_input_names :: "string list"
  st_output_names :: "string list"
  st_inputs :: "addr option list"
  st_outputs :: "addr option list"
  st_first_run :: bool
  st_current_batch_size :: int
  st_run_options :: "(string \<times> string) list"

definition State_new :: "State" where
  "State_new = \<lparr>st_input_names = [], st_output_names = [], st_inputs = [], st_outputs = [], st_first_run = True,
     st_current_batch_size = 0, st_run_options = []\<rparr>"

text \<open>What the code uses of a session: its input and output names with their types, and a run, which reads
  the input tensors and fills the output tensors it is given.\<close>

record 'f OrtSession =
  se_inputs :: "(string \<times> ONNXTensorElementDataType) list"
  se_outputs :: "(string \<times> ONNXTensorElementDataType) list"
  se_run :: "(string \<times> 'f OrtValue) list \<Rightarrow> (string \<times> 'f OrtValue) list \<Rightarrow> 'f scalar list list res"

fun read_ptr :: "'f mem \<Rightarrow> addr option \<Rightarrow> 'f OrtValue res" where
  "read_ptr m None = Inl NullPointer"
| "read_ptr m (Some p) = deref m p"

definition write_outputs :: "addr option list \<Rightarrow> 'f scalar list list \<Rightarrow> 'f mem \<Rightarrow> 'f mem res" where
  "write_outputs ps ds m =
     for_res (\<lambda>(p, d) m. case p of None \<Rightarrow> Inl NullPointer | Some a \<Rightarrow> set_data a d m) (zip ps ds) m"

text \<open>The id under which a captured graph is replayed: the index of the graph in the upper half of a 32-bit
  integer, the batch size in the lower one.\<close>

definition GenerateUniqueAnnotationID :: "32 word \<Rightarrow> 32 word \<Rightarrow> 32 word" where
  "GenerateUniqueAnnotationID index n_batch = push_bit 16 index OR n_batch"

text \<open>\<open>graph\<close> is the index of the captured graph of the state, if it has one.\<close>

definition State_Run ::
    "'f OrtSession \<Rightarrow> bool \<Rightarrow> int option \<Rightarrow> int \<Rightarrow> State \<times> 'f mem \<Rightarrow> (State \<times> 'f mem) res" where
  "State_Run session cuda_graph graph new_batch_size = (\<lambda>(st, m).
     res_bind
       (if st_first_run st then
          Inr ((if cuda_graph then st\<lparr>st_run_options := st_run_options st @ [(''gpu_graph_id'', ''-1'')]\<rparr> else st)
               \<lparr>st_first_run := False\<rparr>)
        else if cuda_graph \<and> new_batch_size \<noteq> st_current_batch_size st then
          (case graph of
             None \<Rightarrow> Inl NullPointer
           | Some index \<Rightarrow>
               Inr (st\<lparr>st_current_batch_size := new_batch_size, st_run_options := st_run_options st @
                 [(''gpu_graph_id'', int_to_string (sint (GenerateUniqueAnnotationID (word_of_int index) (word_of_int new_batch_size))))]\<rparr>))
        else Inr st) (\<lambda>st'.
     res_bind (map_res (read_ptr m) (st_inputs st')) (\<lambda>ins.
     res_bind (map_res (read_ptr m) (st_outputs st')) (\<lambda>outs.
     res_bind (se_run session (zip (st_input_names st') ins) (zip (st_output_names st') outs)) (\<lambda>ds.
     res_bind (write_outputs (st_outputs st') ds m) (\<lambda>m'. Inr (st', m')))))))"

fun find_name :: "string \<Rightarrow> string list \<Rightarrow> addr option list \<Rightarrow> addr option" where
  "find_name name (n # ns) (p # ps) = (if n = name then p else find_name name ns ps)"
| "find_name name _ _ = None"

definition GetOutput :: "State \<Rightarrow> string \<Rightarrow> addr option" where
  "GetOutput st name = find_name name (st_output_names st) (st_outputs st)"

definition ClearIO :: "State \<Rightarrow> State" where
  "ClearIO st = st\<lparr>st_input_names := [], st_output_names := [], st_inputs := [], st_outputs := []\<rparr>"

definition add_input :: "addr option \<Rightarrow> string \<Rightarrow> State \<Rightarrow> State" where
  "add_input p name st = st\<lparr>st_inputs := st_inputs st @ [p], st_input_names := st_input_names st @ [name]\<rparr>"

definition add_output :: "addr option \<Rightarrow> string \<Rightarrow> State \<Rightarrow> State" where
  "add_output p name st = st\<lparr>st_outputs := st_outputs st @ [p], st_output_names := st_output_names st @ [name]\<rparr>"

definition set_input :: "nat \<Rightarrow> addr option \<Rightarrow> State \<Rightarrow> State res" where
  "set_input i p st = res_bind (put (st_inputs st) i p) (\<lambda>ps. Inr (st\<lparr>st_inputs := ps\<rparr>))"

definition set_output :: "nat \<Rightarrow> addr option \<Rightarrow> State \<Rightarrow> State res" where
  "set_output i p st = res_bind (put (st_outputs st) i p) (\<lambda>ps. Inr (st\<lparr>st_outputs := ps\<rparr>))"

section \<open>Batches of token sequences\<close>

definition max_sequence_length :: "int list list \<Rightarrow> nat" where
  "max_sequence_length sequences = foldl (\<lambda>n s. max n (length s)) 0 sequences"

definition PadInputs :: "int list list \<Rightarrow> int \<Rightarrow> int list res" where
  "PadInputs sequences pad =
     (let pad_right = True; max_len = max_sequence_length sequences in
      for_res (\<lambda>i result.
        res_bind (get sequences i) (\<lambda>input_span.
        let pad_count = max_len - length input_span; off = i * max_len in
        if pad_right then
          res_bind (copy_into result off input_span) (\<lambda>r.
          copy_into r (off + (max_len - pad_count)) (replicate pad_count pad))
        else
          res_bind (copy_into result off (replicate pad_count pad)) (\<lambda>r.
          copy_into r (off + pad_count) input_span)))
        [0..<length sequences] (replicate (max_len * length sequences) 0))"

lemma max_sequence_length_ge: "s \<in> set sequences \<Longrightarrow> length s \<le> max_sequence_length sequences"
proof -
  have mono: "n \<le> foldl (\<lambda>n s. max n (length s)) n xs" for n and xs :: "int list list"
    by (induction xs arbitrary: n) (auto intro: order_trans [OF max.cobounded1])
  have "s \<in> set xs \<Longrightarrow> length s \<le> foldl (\<lambda>n s. max n (length s)) n xs" for n xs
    by (induction xs arbitrary: n) (auto intro: order_trans [OF max.cobounded2 mono])
  then show "s \<in> set sequences \<Longrightarrow> length s \<le> max_sequence_length sequences"
    by (simp add: max_sequence_length_def)
qed

text \<open>The padded row of a sequence in a batch of width \<open>w\<close>.\<close>

definition padded :: "nat \<Rightarrow> int \<Rightarrow> int list \<Rightarrow> int list" where
  "padded w pad s = s @ replicate (w - length s) pad"

lemma length_concat_rows: "(\<And>x. x \<in> set xs \<Longrightarrow> length (f x) = w) \<Longrightarrow> length (concat (map f xs)) = length xs * w"
  by (induction xs) auto

lemma blit_twice:
  "off + length xs + length ys \<le> length d \<Longrightarrow> blit (blit d off xs) (off + length xs) ys = blit d off (xs @ ys)"
  by (rule nth_equalityI) (auto simp: nth_blit nth_append)

lemma PadInputs_ok:
  "PadInputs sequences pad = Inr (concat (map (padded (max_sequence_length sequences) pad) sequences))"
proof -
  let ?w = "max_sequence_length sequences" and ?n = "length sequences"
  let ?row = "padded ?w pad"
  let ?I = "\<lambda>i r. r = concat (map ?row (take i sequences)) @ replicate (?w * (?n - i)) 0"
  have row: "length (?row s) = ?w" if "s \<in> set sequences" for s
    using max_sequence_length_ge [OF that] by (simp add: padded_def)
  have pre: "length (concat (map ?row (take i sequences))) = i * ?w" if "i \<le> ?n" for i
    using that row by (subst length_concat_rows [where w = ?w]) (auto dest: in_set_takeD)
  have "\<exists>t. for_res (\<lambda>i result.
        res_bind (get sequences i) (\<lambda>input_span.
          res_bind (copy_into result (i * ?w) input_span) (\<lambda>r.
          copy_into r (i * ?w + (?w - (?w - length input_span))) (replicate (?w - length input_span) pad))))
        [0..<?n] (replicate (?w * ?n) 0) = Inr t \<and> ?I ?n t"
  proof (rule for_res_upt_rule [where I = ?I])
    fix i t assume i: "i < ?n" and I: "?I i t"
    let ?s = "sequences ! i"
    have le: "length ?s \<le> ?w" using i by (intro max_sequence_length_ge) simp
    have "i * ?w + ?w * (?n - i) = ?n * ?w"
      using i by (metis add_mult_distrib le_add_diff_inverse less_imp_le mult.commute)
    then have lt: "length t = ?n * ?w" using I pre [of i] i by simp
    have fit: "i * ?w + ?w \<le> length t" using row_bound0 [OF i, of ?w] lt by simp
    have "blit (blit t (i * ?w) ?s) (i * ?w + length ?s) (replicate (?w - length ?s) pad) = blit t (i * ?w) (?row ?s)"
      using fit le by (subst blit_twice) (auto simp: padded_def)
    also have "\<dots> = concat (map ?row (take (Suc i) sequences)) @ replicate (?w * (?n - Suc i)) 0"
      using I pre [of i] i le
      by (simp add: blit_def take_Suc_conv_app_nth padded_def Suc_diff_Suc [symmetric] algebra_simps)
    finally show "\<exists>t'. res_bind (get sequences i) (\<lambda>input_span.
          res_bind (copy_into t (i * ?w) input_span) (\<lambda>r.
          copy_into r (i * ?w + (?w - (?w - length input_span))) (replicate (?w - length input_span) pad))) = Inr t'
        \<and> ?I (Suc i) t'"
      using i le fit by simp
  qed simp
  then show ?thesis by (simp add: PadInputs_def Let_def)
qed

section \<open>Tokenizer\<close>

text \<open>The functions of the tokenizer library: a result, or the message of the last error. The stream keeps
  a cache of type \<open>'c\<close>.\<close>

record 'c Ortx =
  OrtxTokenize :: "string \<Rightarrow> string + int list"
  OrtxDetokenize1D :: "int list \<Rightarrow> string + string"
  OrtxCreateCache :: "string + 'c"
  OrtxDetokenizeCached :: "'c \<Rightarrow> int \<Rightarrow> string + (string \<times> 'c)"

definition CheckResult :: "string + 'a \<Rightarrow> 'a res" where
  "CheckResult r = (case r of Inl message \<Rightarrow> Inl (RuntimeError message) | Inr x \<Rightarrow> Inr x)"

record 'c Tokenizer =
  tk_lib :: "'c Ortx"
  tk_pad_token_id :: int

definition Tokenizer_new :: "(string \<Rightarrow> string + 'c Ortx) \<Rightarrow> 'f Config \<Rightarrow> 'c Tokenizer res" where
  "Tokenizer_new OrtxCreateTokenizer c =
     res_bind (CheckResult (OrtxCreateTokenizer (co_config_path c))) (\<lambda>lib.
     Inr \<lparr>tk_lib = lib, tk_pad_token_id = mo_pad_token_id (co_model c)\<rparr>)"

definition Encode :: "'c Tokenizer \<Rightarrow> string \<Rightarrow> int list res" where
  "Encode tk text = CheckResult (OrtxTokenize (tk_lib tk) text)"

definition Decode :: "'c Tokenizer \<Rightarrow> int list \<Rightarrow> string res" where
  "Decode tk tokens = CheckResult (OrtxDetokenize1D (tk_lib tk) tokens)"

definition EncodeBatch :: "'c Tokenizer \<Rightarrow> string list \<Rightarrow> int list res" where
  "EncodeBatch tk strings =
     res_bind (map_res (Encode tk) strings) (\<lambda>sequences. PadInputs sequences (tk_pad_token_id tk))"

definition DecodeBatch :: "'c Tokenizer \<Rightarrow> int list \<Rightarrow> nat \<Rightarrow> string list res" where
  "DecodeBatch tk sequences n =
     (if n = 0 then Inl DivisionByZero
      else if length sequences mod n \<noteq> 0 then
        Inl (RuntimeError ''DecodeBatch: sequences must be evenly divisible by the count'')
      else let len = length sequences div n in
        map_res (\<lambda>i. res_bind (subspan sequences (len * i) len) (Decode tk)) [0..<n])"

record 'c TokenizerStream =
  ts_tokenizer :: "'c Tokenizer"
  ts_cache :: 'c
  ts_chunk :: string

definition CreateStream :: "'c Tokenizer \<Rightarrow> 'c TokenizerStream res" where
  "CreateStream tk =
     res_bind (CheckResult (OrtxCreateCache (tk_lib tk))) (\<lambda>cache.
     Inr \<lparr>ts_tokenizer = tk, ts_cache = cache, ts_chunk = []\<rparr>)"

definition TokenizerStream_Decode :: "int \<Rightarrow> 'c TokenizerStream \<Rightarrow> (string \<times> 'c TokenizerStream) res" where
  "TokenizerStream_Decode token ts =
     res_bind (CheckResult (OrtxDetokenizeCached (tk_lib (ts_tokenizer ts)) (ts_cache ts) token)) (\<lambda>(str, cache).
     Inr (str, ts\<lparr>ts_cache := cache, ts_chunk := str\<rparr>))"

lemma map_res_length: "map_res f xs = Inr ys \<Longrightarrow> length ys = length xs"
  by (induction xs arbitrary: ys) (auto simp: res_bind_eq_Inr)

lemma map_res_nth: "map_res f xs = Inr ys \<Longrightarrow> i < length xs \<Longrightarrow> f (xs ! i) = Inr (ys ! i)"
  by (induction xs arbitrary: ys i) (auto simp: res_bind_eq_Inr nth_Cons split: nat.splits)

lemma map_res_of_map: "map_res f (map g xs) = map_res (\<lambda>x. f (g x)) xs"
  by (induction xs) auto

lemma map_res_cong: "xs = ys \<Longrightarrow> (\<And>x. x \<in> set ys \<Longrightarrow> f x = g x) \<Longrightarrow> map_res f xs = map_res g ys"
  by (induction xs arbitrary: ys) auto

lemma concat_row:
  "(\<And>x. x \<in> set xs \<Longrightarrow> length x = w) \<Longrightarrow> i < length xs \<Longrightarrow> take w (drop (i * w) (concat xs)) = xs ! i"
proof (induction xs arbitrary: i)
  case (Cons x xs)
  have x: "length x = w" using Cons.prems(1) by simp
  show ?case
  proof (cases i)
    case 0
    then show ?thesis using x by simp
  next
    case (Suc j)
    have "drop (w + j * w) (x @ concat xs) = drop (j * w) (concat xs)" using x by simp
    then show ?thesis using Cons Suc by (simp add: add.commute)
  qed
qed simp

text \<open>C33. A batch of strings that encodes gives a rectangular array: decoding it with the number of strings
  as the count never fails on its shape, and decodes, string by string, the tokens of the string followed
  by pad tokens up to the longest of the batch.\<close>

theorem EncodeBatch_DecodeBatch:
  assumes "map_res (Encode tk) strings = Inr sequences" and "strings \<noteq> []"
  shows "\<exists>ids. EncodeBatch tk strings = Inr ids
     \<and> length ids = length strings * max_sequence_length sequences
     \<and> DecodeBatch tk ids (length strings)
       = map_res (\<lambda>s. Decode tk (s @ replicate (max_sequence_length sequences - length s) (tk_pad_token_id tk))) sequences"
proof -
  let ?w = "max_sequence_length sequences" and ?pad = "tk_pad_token_id tk"
  let ?rows = "map (padded ?w ?pad) sequences"
  have n: "length strings = length sequences" using map_res_length [OF assms(1)] by simp
  have w: "length x = ?w" if "x \<in> set ?rows" for x
    using that max_sequence_length_ge by (fastforce simp: padded_def)
  have len: "length (concat ?rows) = length sequences * ?w"
    by (rule length_concat_rows) (use w in simp)
  have "subspan (concat ?rows) (?w * i) ?w = Inr (padded ?w ?pad (sequences ! i))" if "i < length sequences" for i
    using that w concat_row [of ?rows ?w i] row_bound0 [OF that, of ?w] len
    by (subst subspan_Inr) (auto simp: mult.commute)
  then have "map_res (\<lambda>i. res_bind (subspan (concat ?rows) (?w * i) ?w) (Decode tk)) [0..<length sequences]
      = map_res (\<lambda>i. Decode tk (padded ?w ?pad (sequences ! i))) [0..<length sequences]"
    by (intro map_res_cong) auto
  also have "\<dots> = map_res (\<lambda>s. Decode tk (padded ?w ?pad s)) (map ((!) sequences) [0..<length sequences])"
    by (simp add: map_res_of_map)
  finally show ?thesis
    using assms len n by (cases "sequences = []") (simp_all add: EncodeBatch_def DecodeBatch_def PadInputs_ok padded_def map_nth)
qed

definition example_tokenizer :: "unit Tokenizer" where
  "example_tokenizer = \<lparr>tk_lib = \<lparr>OrtxTokenize = (\<lambda>s. Inr (map (\<lambda>c. if c = CHR ''a'' then 1 else 2) s)),
     OrtxDetokenize1D = (\<lambda>ids. Inr (map (\<lambda>i. if i = 1 then CHR ''a'' else if i = 2 then CHR ''b'' else CHR '' '') ids)),
     OrtxCreateCache = Inr (), OrtxDetokenizeCached = (\<lambda>_ i. Inr ([], ()))\<rparr>, tk_pad_token_id = 0\<rparr>"

theorem EncodeBatch_DecodeBatch_witness:
  "\<exists>ids. EncodeBatch example_tokenizer [''ab'', ''b''] = Inr ids \<and> length ids = 4
     \<and> DecodeBatch example_tokenizer ids 2 = Inr [''ab'', ''b '']"
  using EncodeBatch_DecodeBatch [of example_tokenizer "[''ab'', ''b'']" "[[1, 2], [2]]"]
  by (simp add: example_tokenizer_def Encode_def Decode_def CheckResult_def max_sequence_length_def numeral_eq_Suc)

section \<open>Types of the inputs and outputs of a session\<close>

record SessionInfo =
  si_inputs :: "string \<rightharpoonup> ONNXTensorElementDataType"
  si_outputs :: "string \<rightharpoonup> ONNXTensorElementDataType"

definition emplace :: "string \<Rightarrow> 'v \<Rightarrow> (string \<rightharpoonup> 'v) \<Rightarrow> (string \<rightharpoonup> 'v)" where
  "emplace k v mp = (case mp k of None \<Rightarrow> mp(k \<mapsto> v) | Some _ \<Rightarrow> mp)"

definition add_input_type :: "string \<times> ONNXTensorElementDataType \<Rightarrow> SessionInfo \<Rightarrow> SessionInfo res" where
  "add_input_type nt si =
     (case si_inputs si (fst nt) of
        Some t \<Rightarrow>
          if t \<noteq> snd nt then
            Inl (RuntimeError (''Model input type mismatch: '' @ fst nt @ '' expected '' @ nat_to_string (onnx_code t)
                               @ '' got '' @ nat_to_string (onnx_code (snd nt))))
          else Inr (si\<lparr>si_inputs := emplace (fst nt) (snd nt) (si_inputs si)\<rparr>)
      | None \<Rightarrow> Inr (si\<lparr>si_inputs := emplace (fst nt) (snd nt) (si_inputs si)\<rparr>))"

definition SessionInfo_Add :: "'f OrtSession \<Rightarrow> SessionInfo \<Rightarrow> SessionInfo res" where
  "SessionInfo_Add session si =
     res_bind (for_res add_input_type (se_inputs session) si) (\<lambda>si1.
     for_res (\<lambda>nt si. Inr (si\<lparr>si_outputs := emplace (fst nt) (snd nt) (si_outputs si)\<rparr>)) (se_outputs session) si1)"

definition SessionInfo_new :: "'f OrtSession \<Rightarrow> SessionInfo res" where
  "SessionInfo_new session = SessionInfo_Add session \<lparr>si_inputs = Map.empty, si_outputs = Map.empty\<rparr>"

definition HasInput :: "SessionInfo \<Rightarrow> string \<Rightarrow> bool" where
  "HasInput si name \<longleftrightarrow> si_inputs si name \<noteq> None"

definition HasOutput :: "SessionInfo \<Rightarrow> string \<Rightarrow> bool" where
  "HasOutput si name \<longleftrightarrow> si_outputs si name \<noteq> None"

definition GetInputDataType :: "SessionInfo \<Rightarrow> string \<Rightarrow> ONNXTensorElementDataType res" where
  "GetInputDataType si name =
     (case si_inputs si name of None \<Rightarrow> Inl (RuntimeError (''Model input was not found: '' @ name)) | Some t \<Rightarrow> Inr t)"

definition GetOutputDataType :: "SessionInfo \<Rightarrow> string \<Rightarrow> ONNXTensorElementDataType res" where
  "GetOutputDataType si name =
     (case si_outputs si name of None \<Rightarrow> Inl (RuntimeError (''Model output was not found: '' @ name)) | Some t \<Rightarrow> Inr t)"

section \<open>Session options\<close>

text \<open>The calls made on the runtime's session options, in order.\<close>

datatype ort_option =
    SetIntraOpNumThreads int | SetInterOpNumThreads int | EnableCpuMemArena | DisableCpuMemArena
  | EnableMemPattern | DisableMemPattern | SetLogId string | SetLogSeverityLevel int | EnableProfiling string
  | AppendExecutionProvider_ROCM "ProviderOption list"

definition opt_call :: "'a option \<Rightarrow> ('a \<Rightarrow> ort_option) \<Rightarrow> ort_option list" where
  "opt_call v f = (case v of None \<Rightarrow> [] | Some x \<Rightarrow> [f x])"

text \<open>Creating the CUDA stream throws in a build without CUDA.\<close>

definition append_provider :: "ProviderOptions \<Rightarrow> ort_option list \<Rightarrow> ort_option list res" where
  "append_provider p calls =
     (if po_name p = ''cuda'' then Inl (RuntimeError ''Trying to create a cuda stream in a non cuda build'')
      else if po_name p = ''rocm'' then Inr (calls @ [AppendExecutionProvider_ROCM (po_options p)])
      else Inl (RuntimeError (''Unknown provider type: '' @ po_name p)))"

definition mem_pattern_calls :: "SessionOptions \<Rightarrow> ort_option list res" where
  "mem_pattern_calls opts =
     (case so_enable_mem_pattern opts of
        None \<Rightarrow> Inr []
      | Some _ \<Rightarrow>
          (case so_enable_cpu_mem_arena opts of
             None \<Rightarrow> Inl BadOptionalAccess
           | Some b \<Rightarrow> Inr [if b then EnableMemPattern else DisableMemPattern]))"

definition CreateSessionOptions :: "nat \<Rightarrow> SessionOptions \<Rightarrow> ort_option list res" where
  "CreateSessionOptions hardware_concurrency opts =
     (let num_of_cores = max 1 (int (hardware_concurrency div 2)) in
      res_bind (mem_pattern_calls opts) (\<lambda>mem_pattern.
      for_res append_provider (so_provider_options opts)
        ([SetIntraOpNumThreads (min num_of_cores 16)]
         @ opt_call (so_intra_op_num_threads opts) SetIntraOpNumThreads
         @ opt_call (so_inter_op_num_threads opts) SetInterOpNumThreads
         @ opt_call (so_enable_cpu_mem_arena opts) (\<lambda>b. if b then EnableCpuMemArena else DisableCpuMemArena)
         @ mem_pattern
         @ opt_call (so_log_id opts) SetLogId
         @ opt_call (so_log_severity_level opts) SetLogSeverityLevel
         @ opt_call (so_enable_profiling opts) EnableProfiling)))"

text \<open>The memory-pattern option follows the value of the arena option, whatever its own value, and fails when
  the arena option is not set.\<close>

lemma mem_pattern_follows_arena:
  "mem_pattern_calls (SessionOptions_default\<lparr>so_enable_mem_pattern := Some False, so_enable_cpu_mem_arena := Some True\<rparr>)
     = Inr [EnableMemPattern]"
  "CreateSessionOptions n (SessionOptions_default\<lparr>so_enable_mem_pattern := Some b\<rparr>) = Inl BadOptionalAccess"
  by (simp_all add: mem_pattern_calls_def CreateSessionOptions_def SessionOptions_default_def)

section \<open>Models\<close>

datatype ModelKind = Gpt_Model | DecoderOnly_Model | Whisper_Model | MultiModalVisionModel

record 'f Model =
  md_config :: "'f Config"
  md_device_type :: DeviceType
  md_options :: "ort_option list"
  md_session_info :: SessionInfo
  md_sessions :: "'f OrtSession list"
  md_encoder_info :: "SessionInfo option"

definition model_kind :: "string \<Rightarrow> ModelKind res" where
  "model_kind type =
     (if type = ''gpt2'' then Inr Gpt_Model
      else if type = ''llama'' \<or> type = ''gemma'' \<or> type = ''mistral'' \<or> type = ''phi'' \<or> type = ''phi3''
        \<or> type = ''phi3small'' then Inr DecoderOnly_Model
      else if type = ''whisper'' then Inr Whisper_Model
      else if type = ''phi3v'' then Inr MultiModalVisionModel
      else Inl (RuntimeError (''Unsupported model_type in config.json: '' @ type)))"

text \<open>The sessions each class opens, by the file they are loaded from, the decoder's first.\<close>

definition session_files :: "ModelKind \<Rightarrow> 'f Config \<Rightarrow> string list" where
  "session_files kind c =
     (let m = co_model c in
      case kind of
        Gpt_Model \<Rightarrow> [de_filename (mo_decoder m)]
      | DecoderOnly_Model \<Rightarrow> [de_filename (mo_decoder m)]
      | Whisper_Model \<Rightarrow> [de_filename (mo_decoder m), mo_encoder_decoder_init m]
      | MultiModalVisionModel \<Rightarrow> [em_filename (mo_embedding m), vi_filename (mo_vision m), de_filename (mo_decoder m)])"

text \<open>The session whose inputs and outputs initialise the type information, and those that extend it.\<close>

definition session_infos :: "ModelKind \<Rightarrow> 'f OrtSession list \<Rightarrow> SessionInfo res" where
  "session_infos kind sessions =
     (case kind of
        MultiModalVisionModel \<Rightarrow>
          res_bind (get sessions 2) (\<lambda>dec.
          res_bind (SessionInfo_new dec) (\<lambda>si.
          res_bind (get sessions 0) (\<lambda>emb.
          res_bind (SessionInfo_Add emb si) (\<lambda>si1.
          res_bind (get sessions 1) (\<lambda>vis. SessionInfo_Add vis si1)))))
      | _ \<Rightarrow> res_bind (get sessions 0) SessionInfo_new)"

definition encoder_info :: "ModelKind \<Rightarrow> 'f OrtSession list \<Rightarrow> SessionInfo option res" where
  "encoder_info kind sessions =
     (if kind = Whisper_Model then res_bind (get sessions 1) (\<lambda>enc. res_bind (SessionInfo_new enc) (\<lambda>si. Inr (Some si)))
      else Inr None)"

definition CreateModel ::
    "('f, 'g, 'y) cxx_scheme \<Rightarrow> ('d, 'f, 'z) doubles_scheme \<Rightarrow> (string \<Rightarrow> string option option) \<Rightarrow> nat \<Rightarrow>
     (string \<Rightarrow> ort_option list \<Rightarrow> 'f OrtSession res) \<Rightarrow> string \<Rightarrow> (ModelKind \<times> 'f Model) res" where
  "CreateModel cx D open_file hardware_concurrency open_session config_path =
     res_bind (Config_new cx D open_file config_path) (\<lambda>c.
     res_bind (model_kind (mo_type (co_model c))) (\<lambda>kind.
     res_bind (CreateSessionOptions hardware_concurrency (de_session_options (mo_decoder (co_model c)))) (\<lambda>calls.
     res_bind (map_res (\<lambda>file. open_session (path_join (co_config_path c) file) calls) (session_files kind c)) (\<lambda>sessions.
     res_bind (session_infos kind sessions) (\<lambda>si.
     res_bind (encoder_info kind sessions) (\<lambda>enc.
     Inr (kind, \<lparr>md_config = c, md_device_type = CPU, md_options = calls, md_session_info = si,
       md_sessions = sessions, md_encoder_info = enc\<rparr>)))))))"

end
