(* ===== verification/Components.thy ===== *)
theory Components
  imports Models
begin

text \<open>
  The contract of an input or output component of a model state (\<open>InputIDs\<close>, \<open>PositionInputs\<close>,
  \<open>KV_Cache\<close>, \<open>Logits\<close>, \<open>ExtraInputs\<close>). Such a component owns tensors (its footprint), owns slots of the
  input and output lists of its state, and goes round a cycle: it is ready for a run at some length, the
  session fills its output tensors, and its update moves it on to the next length. The locale
  \<open>io_component\<close> states the laws; two components that follow them and own different tensors and slots are
  together again a component (\<open>io_pair\<close>), so the update of a whole state is correct by composition.
\<close>

type_synonym 'f io = "State \<times> 'f mem"

section \<open>Tensors with data\<close>

text \<open>An element of the given type has been stored.\<close>

fun has_type :: "ONNXTensorElementDataType \<Rightarrow> 'f scalar \<Rightarrow> bool" where
  "has_type ONNX_FLOAT x \<longleftrightarrow> (\<exists>f. x = SFloat f)"
| "has_type ONNX_FLOAT16 x \<longleftrightarrow> (\<exists>h. x = SHalf h)"
| "has_type ONNX_INT32 x \<longleftrightarrow> (\<exists>i. x = SInt i)"
| "has_type ONNX_INT64 x \<longleftrightarrow> (\<exists>i. x = SInt i)"
| "has_type _ x \<longleftrightarrow> x \<noteq> Uninit"

definition value_ok :: "'f OrtValue \<Rightarrow> bool" where
  "value_ok v \<longleftrightarrow> length (ov_data v) = GetElementCount (ov_shape v)"

definition filled :: "'f OrtValue \<Rightarrow> bool" where
  "filled v \<longleftrightarrow> value_ok v \<and> (\<forall>x\<in>set (ov_data v). has_type (ov_type v) x)"

section \<open>Frames\<close>

text \<open>\<open>touches F I O\<close>: a step that changes at most the tensors in \<open>F\<close>, allocates new ones, and rewrites at
  most the input slots \<open>I\<close> and the output slots \<open>O\<close>.\<close>

definition touches :: "addr set \<Rightarrow> nat set \<Rightarrow> nat set \<Rightarrow> 'f io \<Rightarrow> 'f io \<Rightarrow> bool" where
  "touches F I O' = (\<lambda>(st, m) (st', m').
     mem_ok m' \<and> next_addr m \<le> next_addr m'
     \<and> (\<forall>a<next_addr m. a \<notin> F \<longrightarrow> ovs m' a = ovs m a)
     \<and> length (st_inputs st') = length (st_inputs st) \<and> length (st_outputs st') = length (st_outputs st)
     \<and> st_input_names st' = st_input_names st \<and> st_output_names st' = st_output_names st
     \<and> st_first_run st' = st_first_run st
     \<and> (\<forall>i. i \<notin> I \<longrightarrow> st_inputs st' ! i = st_inputs st ! i)
     \<and> (\<forall>i. i \<notin> O' \<longrightarrow> st_outputs st' ! i = st_outputs st ! i))"

text \<open>\<open>agrees F I O\<close>: the tensors in \<open>F\<close> and the given slots are the same.\<close>

definition agrees :: "addr set \<Rightarrow> nat set \<Rightarrow> nat set \<Rightarrow> 'f io \<Rightarrow> 'f io \<Rightarrow> bool" where
  "agrees F I O' = (\<lambda>(st, m) (st', m').
     next_addr m \<le> next_addr m' \<and> (\<forall>a\<in>F. ovs m' a = ovs m a)
     \<and> length (st_inputs st') = length (st_inputs st) \<and> length (st_outputs st') = length (st_outputs st)
     \<and> st_input_names st' = st_input_names st \<and> st_output_names st' = st_output_names st
     \<and> (\<forall>i\<in>I. st_inputs st' ! i = st_inputs st ! i) \<and> (\<forall>i\<in>O'. st_outputs st' ! i = st_outputs st ! i))"

lemma touches_refl: "mem_ok (snd io) \<Longrightarrow> touches F I O' io io"
  by (cases io) (simp add: touches_def)

lemma touches_trans:
  "touches F I O' x y \<Longrightarrow> touches F' I' O'' y z \<Longrightarrow> touches (F \<union> F') (I \<union> I') (O' \<union> O'') x z"
  by (cases x; cases y; cases z) (simp add: touches_def)

text \<open>The second step may also change what the first one allocated.\<close>

lemma touches_trans_fresh:
  assumes "touches F I O' x y" "touches F' I' O'' y z" "F' \<subseteq> F \<union> {next_addr (snd x)..}" "I' \<subseteq> I" "O'' \<subseteq> O'"
  shows "touches F I O' x z"
proof -
  obtain st m st1 m1 st2 m2 where e: "x = (st, m)" "y = (st1, m1)" "z = (st2, m2)" by (cases x, cases y, cases z)
  have "a \<notin> F'" if "a < next_addr m" "a \<notin> F" for a using assms(3) that by (auto simp: e)
  then show ?thesis using assms(1,2,4,5) unfolding e touches_def by (fastforce simp del: split_paired_All)
qed

lemma touches_mono: "touches F I O' x y \<Longrightarrow> F \<subseteq> F' \<Longrightarrow> I \<subseteq> I' \<Longrightarrow> O' \<subseteq> O'' \<Longrightarrow> touches F' I' O'' x y"
  by (cases x; cases y) (auto simp: touches_def)

lemma touches_mem_ok: "touches F I O' x y \<Longrightarrow> mem_ok (snd y)"
  by (cases x; cases y) (simp add: touches_def)

lemma touches_grows: "touches F I O' x y \<Longrightarrow> next_addr (snd x) \<le> next_addr (snd y)"
  by (cases x; cases y) (simp add: touches_def)

lemma touches_agrees:
  "touches F I O' x y \<Longrightarrow> F' \<subseteq> {..<next_addr (snd x)} \<Longrightarrow> F \<inter> F' = {} \<Longrightarrow> I \<inter> I' = {} \<Longrightarrow> O' \<inter> O'' = {} \<Longrightarrow>
   agrees F' I' O'' x y"
  by (cases x; cases y) (auto simp: touches_def agrees_def)

lemma fp_disjoint_step:
  "G \<subseteq> F \<union> {n..} \<Longrightarrow> H \<subseteq> {..<n} \<Longrightarrow> F \<inter> H = {} \<Longrightarrow> G \<inter> H = {}" for n :: nat
  by (auto simp: disjoint_iff subset_iff) (metis leD)

text \<open>What a run does: the output tensors are filled, everything else is as before.\<close>

definition session_wrote :: "'f io \<Rightarrow> 'f io \<Rightarrow> bool" where
  "session_wrote = (\<lambda>(st, m) (st', m').
     next_addr m' = next_addr m \<and> st_inputs st' = st_inputs st \<and> st_outputs st' = st_outputs st
     \<and> st_input_names st' = st_input_names st \<and> st_output_names st' = st_output_names st
     \<and> (\<forall>a. Some a \<notin> set (st_outputs st) \<longrightarrow> ovs m' a = ovs m a)
     \<and> (\<forall>a v. Some a \<in> set (st_outputs st) \<longrightarrow> ovs m a = Some v \<longrightarrow> value_ok v \<longrightarrow>
          (\<exists>d. ovs m' a = Some (v\<lparr>ov_data := d\<rparr>) \<and> filled (v\<lparr>ov_data := d\<rparr>))))"

section \<open>The contract\<close>

text \<open>\<open>ready n\<close>: the slots hold what the session expects at length \<open>n\<close> (\<open>ein\<close>, \<open>eout\<close>); \<open>ran n\<close>: the run at
  length \<open>n\<close> has filled the outputs; \<open>rested n\<close>: the component can be updated to length \<open>n + 1\<close>.\<close>

locale io_component =
  fixes ready ran rested :: "nat \<Rightarrow> 's \<Rightarrow> 'f io \<Rightarrow> bool"
    and fp :: "'s \<Rightarrow> addr set" and islots oslots :: "'s \<Rightarrow> nat set"
    and upd :: "'x \<Rightarrow> nat \<Rightarrow> 's \<Rightarrow> 'f io \<Rightarrow> ('s \<times> 'f io) res" and good :: "'x \<Rightarrow> bool"
    and ein eout :: "nat \<Rightarrow> nat \<Rightarrow> string \<times> 'f OrtValue \<Rightarrow> bool"
  assumes ready_frame: "ready n s x \<Longrightarrow> agrees (fp s) (islots s) (oslots s) x y \<Longrightarrow> ready n s y"
    and ran_frame: "ran n s x \<Longrightarrow> agrees (fp s) (islots s) (oslots s) x y \<Longrightarrow> ran n s y"
    and rested_frame: "rested n s x \<Longrightarrow> agrees (fp s) (islots s) (oslots s) x y \<Longrightarrow> rested n s y"
    and ready_fp: "ready n s x \<Longrightarrow> fp s \<subseteq> {..<next_addr (snd x)}"
    and ran_fp: "ran n s x \<Longrightarrow> fp s \<subseteq> {..<next_addr (snd x)}"
    and rested_fp: "rested n s x \<Longrightarrow> fp s \<subseteq> {..<next_addr (snd x)}"
    and ready_in: "ready n s (st, m) \<Longrightarrow> i \<in> islots s \<Longrightarrow>
      \<exists>a v. st_inputs st ! i = Some a \<and> ovs m a = Some v \<and> ein n i (st_input_names st ! i, v)"
    and ready_out: "ready n s (st, m) \<Longrightarrow> i \<in> oslots s \<Longrightarrow>
      \<exists>a v. a \<in> fp s \<and> st_outputs st ! i = Some a \<and> ovs m a = Some v \<and> value_ok v \<and> eout n i (st_output_names st ! i, v)"
    and run: "ready n s x \<Longrightarrow> session_wrote x y \<Longrightarrow>
      (\<And>a. a \<in> fp s \<Longrightarrow> Some a \<in> set (st_outputs (fst x)) \<Longrightarrow> \<exists>i\<in>oslots s. st_outputs (fst x) ! i = Some a) \<Longrightarrow>
      (\<And>i. i \<in> oslots s \<Longrightarrow> i < length (st_outputs (fst x))) \<Longrightarrow> ran n s y"
    and update: "rested n s x \<Longrightarrow> mem_ok (snd x) \<Longrightarrow> good g \<Longrightarrow>
      (\<And>i. i \<in> islots s \<Longrightarrow> i < length (st_inputs (fst x))) \<Longrightarrow>
      (\<And>i. i \<in> oslots s \<Longrightarrow> i < length (st_outputs (fst x))) \<Longrightarrow>
      \<exists>s' y. upd g (Suc n) s x = Inr (s', y) \<and> ready (Suc n) s' y
        \<and> fp s' \<subseteq> fp s \<union> {next_addr (snd x)..} \<and> islots s' = islots s \<and> oslots s' = oslots s
        \<and> touches (fp s) (islots s) (oslots s) x y"

section \<open>Two components side by side\<close>

definition apart ::
    "('s \<Rightarrow> addr set) \<Rightarrow> ('s \<Rightarrow> nat set) \<Rightarrow> ('s \<Rightarrow> nat set) \<Rightarrow> ('t \<Rightarrow> addr set) \<Rightarrow> ('t \<Rightarrow> nat set) \<Rightarrow> ('t \<Rightarrow> nat set) \<Rightarrow>
     's \<times> 't \<Rightarrow> bool" where
  "apart fp1 is1 os1 fp2 is2 os2 = (\<lambda>(s, t). fp1 s \<inter> fp2 t = {} \<and> is1 s \<inter> is2 t = {} \<and> os1 s \<inter> os2 t = {})"

definition both :: "('s \<times> 't \<Rightarrow> bool) \<Rightarrow> (nat \<Rightarrow> 's \<Rightarrow> 'f io \<Rightarrow> bool) \<Rightarrow> (nat \<Rightarrow> 't \<Rightarrow> 'f io \<Rightarrow> bool) \<Rightarrow> nat \<Rightarrow> 's \<times> 't \<Rightarrow> 'f io \<Rightarrow> bool" where
  "both sep P Q n st io \<longleftrightarrow> sep st \<and> P n (fst st) io \<and> Q n (snd st) io"

definition either :: "('s \<Rightarrow> 'c set) \<Rightarrow> ('t \<Rightarrow> 'c set) \<Rightarrow> 's \<times> 't \<Rightarrow> 'c set" where
  "either f g st = f (fst st) \<union> g (snd st)"

definition in_turn ::
    "('x \<Rightarrow> nat \<Rightarrow> 's \<Rightarrow> 'f io \<Rightarrow> ('s \<times> 'f io) res) \<Rightarrow> ('x \<Rightarrow> nat \<Rightarrow> 't \<Rightarrow> 'f io \<Rightarrow> ('t \<times> 'f io) res) \<Rightarrow>
     'x \<Rightarrow> nat \<Rightarrow> 's \<times> 't \<Rightarrow> 'f io \<Rightarrow> (('s \<times> 't) \<times> 'f io) res" where
  "in_turn f g x n st io =
     res_bind (f x n (fst st) io) (\<lambda>(s', io1). res_bind (g x n (snd st) io1) (\<lambda>(t', io2). Inr ((s', t'), io2)))"

lemma agrees_either:
  "agrees (F \<union> G) (I \<union> I') (O' \<union> O'') x y \<longleftrightarrow> agrees F I O' x y \<and> agrees G I' O'' x y"
  by (cases x; cases y) (auto simp: agrees_def)

locale io_pair =
  a: io_component ready1 ran1 rested1 fp1 is1 os1 upd1 good ein eout +
  b: io_component ready2 ran2 rested2 fp2 is2 os2 upd2 good ein eout
  for ready1 ran1 rested1 :: "nat \<Rightarrow> 's \<Rightarrow> 'f io \<Rightarrow> bool" and fp1 is1 os1 upd1
    and ready2 ran2 rested2 :: "nat \<Rightarrow> 't \<Rightarrow> 'f io \<Rightarrow> bool" and fp2 is2 os2 upd2
    and good :: "'x \<Rightarrow> bool" and ein eout
begin

abbreviation "sep \<equiv> apart fp1 is1 os1 fp2 is2 os2"

text \<open>One component's update leaves the other as it was.\<close>

lemma pair_update:
  assumes r: "both sep rested1 rested2 n st x" and m: "mem_ok (snd x)" and g: "good g"
    and i: "\<And>i. i \<in> either is1 is2 st \<Longrightarrow> i < length (st_inputs (fst x))"
    and o: "\<And>i. i \<in> either os1 os2 st \<Longrightarrow> i < length (st_outputs (fst x))"
  shows "\<exists>st' y. in_turn upd1 upd2 g (Suc n) st x = Inr (st', y) \<and> both sep ready1 ready2 (Suc n) st' y
        \<and> either fp1 fp2 st' \<subseteq> either fp1 fp2 st \<union> {next_addr (snd x)..}
        \<and> either is1 is2 st' = either is1 is2 st \<and> either os1 os2 st' = either os1 os2 st
        \<and> touches (either fp1 fp2 st) (either is1 is2 st) (either os1 os2 st) x y"
proof -
  obtain s t where st: "st = (s, t)" by (cases st)
  have sep: "fp1 s \<inter> fp2 t = {}" "is1 s \<inter> is2 t = {}" "os1 s \<inter> os2 t = {}"
    and r1: "rested1 n s x" and r2: "rested2 n t x" using r by (auto simp: both_def apart_def st)
  obtain s' y where y: "upd1 g (Suc n) s x = Inr (s', y)" "ready1 (Suc n) s' y" "fp1 s' \<subseteq> fp1 s \<union> {next_addr (snd x)..}"
      "is1 s' = is1 s" "os1 s' = os1 s" "touches (fp1 s) (is1 s) (os1 s) x y"
    using a.update [OF r1 m g] i o by (force simp: either_def st)
  have len: "length (st_inputs (fst y)) = length (st_inputs (fst x))" "length (st_outputs (fst y)) = length (st_outputs (fst x))"
    using y(6) by (cases x; cases y; simp add: touches_def)+
  note b2 = b.rested_fp [OF r2]
  have r2': "rested2 n t y" by (rule b.rested_frame [OF r2 touches_agrees [OF y(6) b2 sep]])
  obtain t' z where z: "upd2 g (Suc n) t y = Inr (t', z)" "ready2 (Suc n) t' z" "fp2 t' \<subseteq> fp2 t \<union> {next_addr (snd y)..}"
      "is2 t' = is2 t" "os2 t' = os2 t" "touches (fp2 t) (is2 t) (os2 t) y z"
    using b.update [OF r2' touches_mem_ok [OF y(6)] g] i o by (force simp: either_def st len)
  note grow = touches_grows [OF y(6)]
  have d1: "fp1 s' \<inter> fp2 t = {}" using fp_disjoint_step [OF y(3) b2 sep(1)] .
  have d2: "fp2 t' \<inter> fp1 s' = {}"
    using fp_disjoint_step [OF z(3) a.ready_fp [OF y(2)]] d1 by (simp add: Int_commute)
  have rdy: "ready1 (Suc n) s' z"
    using touches_agrees [OF z(6) a.ready_fp [OF y(2)], of "is1 s'" "os1 s'"] d1 sep y(4,5)
    by (intro a.ready_frame [OF y(2)]) (simp_all add: Int_commute)
  show ?thesis
    using y z rdy d2 sep grow touches_trans [OF y(6) z(6)]
    by (auto simp: st in_turn_def both_def apart_def either_def Int_commute)
qed

lemma pair_run:
  assumes r: "both sep ready1 ready2 n st x" and w: "session_wrote x y"
    and own: "\<And>a. a \<in> either fp1 fp2 st \<Longrightarrow> Some a \<in> set (st_outputs (fst x)) \<Longrightarrow>
       \<exists>i\<in>either os1 os2 st. st_outputs (fst x) ! i = Some a"
    and o: "\<And>i. i \<in> either os1 os2 st \<Longrightarrow> i < length (st_outputs (fst x))"
  shows "both sep ran1 ran2 n st y"
proof -
  obtain s t where st: "st = (s, t)" by (cases st)
  obtain u m where x: "x = (u, m)" by (cases x)
  have sep: "apart fp1 is1 os1 fp2 is2 os2 (s, t)" "fp1 s \<inter> fp2 t = {}" and r1: "ready1 n s x" and r2: "ready2 n t x"
    using r by (auto simp: both_def apart_def st)
  have "ran1 n s y"
  proof (rule a.run [OF r1 w])
    fix a assume a: "a \<in> fp1 s" "Some a \<in> set (st_outputs (fst x))"
    then obtain i where i: "i \<in> os1 s \<or> i \<in> os2 t" "st_outputs (fst x) ! i = Some a"
      using own [of a] by (auto simp: either_def st)
    then show "\<exists>i\<in>os1 s. st_outputs (fst x) ! i = Some a"
      using b.ready_out [of n t u m i] r2 a(1) sep(2) by (auto simp: x)
  qed (use o in \<open>auto simp: either_def st\<close>)
  moreover have "ran2 n t y"
  proof (rule b.run [OF r2 w])
    fix a assume a: "a \<in> fp2 t" "Some a \<in> set (st_outputs (fst x))"
    then obtain i where i: "i \<in> os1 s \<or> i \<in> os2 t" "st_outputs (fst x) ! i = Some a"
      using own [of a] by (auto simp: either_def st)
    then show "\<exists>i\<in>os2 t. st_outputs (fst x) ! i = Some a"
      using a.ready_out [of n s u m i] r1 a(1) sep(2) by (auto simp: x)
  qed (use o in \<open>auto simp: either_def st\<close>)
  ultimately show ?thesis using sep(1) by (simp add: both_def st)
qed

end

sublocale io_pair \<subseteq> pair: io_component
  "both sep ready1 ready2" "both sep ran1 ran2" "both sep rested1 rested2" "either fp1 fp2" "either is1 is2"
  "either os1 os2" "in_turn upd1 upd2" good ein eout
proof
  fix n st x y
  show "both sep ready1 ready2 n st x \<Longrightarrow> agrees (either fp1 fp2 st) (either is1 is2 st) (either os1 os2 st) x y \<Longrightarrow>
      both sep ready1 ready2 n st y"
    by (auto simp: both_def either_def agrees_either intro: a.ready_frame b.ready_frame)
  show "both sep ran1 ran2 n st x \<Longrightarrow> agrees (either fp1 fp2 st) (either is1 is2 st) (either os1 os2 st) x y \<Longrightarrow>
      both sep ran1 ran2 n st y"
    by (auto simp: both_def either_def agrees_either intro: a.ran_frame b.ran_frame)
  show "both sep rested1 rested2 n st x \<Longrightarrow> agrees (either fp1 fp2 st) (either is1 is2 st) (either os1 os2 st) x y \<Longrightarrow>
      both sep rested1 rested2 n st y"
    by (auto simp: both_def either_def agrees_either intro: a.rested_frame b.rested_frame)
  show "both sep ready1 ready2 n st x \<Longrightarrow> either fp1 fp2 st \<subseteq> {..<next_addr (snd x)}"
    using a.ready_fp b.ready_fp by (fastforce simp: both_def either_def)
  show "both sep ran1 ran2 n st x \<Longrightarrow> either fp1 fp2 st \<subseteq> {..<next_addr (snd x)}"
    using a.ran_fp b.ran_fp by (fastforce simp: both_def either_def)
  show "both sep rested1 rested2 n st x \<Longrightarrow> either fp1 fp2 st \<subseteq> {..<next_addr (snd x)}"
    using a.rested_fp b.rested_fp by (fastforce simp: both_def either_def)
next
  fix n st u m i
  show "both sep ready1 ready2 n st (u, m) \<Longrightarrow> i \<in> either is1 is2 st \<Longrightarrow>
      \<exists>a v. st_inputs u ! i = Some a \<and> ovs m a = Some v \<and> ein n i (st_input_names u ! i, v)"
    using a.ready_in b.ready_in by (fastforce simp: both_def either_def)
  show "both sep ready1 ready2 n st (u, m) \<Longrightarrow> i \<in> either os1 os2 st \<Longrightarrow>
      \<exists>a v. a \<in> either fp1 fp2 st \<and> st_outputs u ! i = Some a \<and> ovs m a = Some v \<and> value_ok v \<and> eout n i (st_output_names u ! i, v)"
    using a.ready_out b.ready_out by (fastforce simp: both_def either_def)
next
  fix n st x y
  assume "both sep ready1 ready2 n st x" "session_wrote x y"
    "\<And>a. a \<in> either fp1 fp2 st \<Longrightarrow> Some a \<in> set (st_outputs (fst x)) \<Longrightarrow> \<exists>i\<in>either os1 os2 st. st_outputs (fst x) ! i = Some a"
    "\<And>i. i \<in> either os1 os2 st \<Longrightarrow> i < length (st_outputs (fst x))"
  then show "both sep ran1 ran2 n st y" by (rule pair_run)
next
  fix n st x g
  assume "both sep rested1 rested2 n st x" "mem_ok (snd x)" "good g"
    "\<And>i. i \<in> either is1 is2 st \<Longrightarrow> i < length (st_inputs (fst x))"
    "\<And>i. i \<in> either os1 os2 st \<Longrightarrow> i < length (st_outputs (fst x))"
  then show "\<exists>s' y. in_turn upd1 upd2 g (Suc n) st x = Inr (s', y) \<and> both sep ready1 ready2 (Suc n) s' y
        \<and> either fp1 fp2 s' \<subseteq> either fp1 fp2 st \<union> {next_addr (snd x)..} \<and> either is1 is2 s' = either is1 is2 st
        \<and> either os1 os2 s' = either os1 os2 st
        \<and> touches (either fp1 fp2 st) (either is1 is2 st) (either os1 os2 st) x y"
    by (rule pair_update)
qed

end
