(* ===== verification/ModelInputs.thy ===== *)
theory ModelInputs
  imports Components
begin

text \<open>
  \<open>src/models/input_ids.cpp\<close>, \<open>src/models/position_inputs.cpp\<close>, \<open>src/models/extra_inputs.cpp\<close> and
  \<open>src/models/embeddings.cpp\<close>: the inputs of a run other than the caches. Each component keeps the index
  of its tensors in the input list of its state and replaces the pointer there whenever it reallocates a
  tensor. The tensors of the parameters are addresses of memory; on the CPU no captured graph exists, so
  the static buffers are null.
\<close>

abbreviation dec_inputs :: "'f Model \<Rightarrow> Decoder_Inputs" where
  "dec_inputs md \<equiv> de_inputs (mo_decoder (co_model (md_config md)))"

abbreviation dec_outputs :: "'f Model \<Rightarrow> Decoder_Outputs" where
  "dec_outputs md \<equiv> de_outputs (mo_decoder (co_model (md_config md)))"

text \<open>\<open>x_ = model_.ExpandInputs(x_, num_beams)\<close>.\<close>

definition expand_member :: "'f Model \<Rightarrow> int \<Rightarrow> addr \<Rightarrow> 'f mem \<Rightarrow> (addr \<times> 'f mem) res" where
  "expand_member md n_beams p m =
     res_bind (ExpandInputs (md_device_type md) p n_beams m) (\<lambda>(q, m1). Inr (q, if q = p then m1 else free p m1))"

section \<open>Input ids\<close>

record InputIDs =
  ii_name :: string
  ii_shape :: "int list"
  ii_type :: ONNXTensorElementDataType
  ii_value :: addr
  ii_index :: nat

text \<open>A 64-bit tensor is filled from the 32-bit ids; a 32-bit one is placed on the memory of the ids.\<close>

definition InputIDs_new :: "'f Model \<Rightarrow> ('f, addr) GeneratorParams \<Rightarrow> 'f mem \<Rightarrow> (InputIDs \<times> 'f mem) res" where
  "InputIDs_new md p m =
     (let name = di_input_ids (dec_inputs md); shape = [batch_size p, sequence_length p];
          ids = map SInt (input_ids p) in
      res_bind (GetInputDataType (md_session_info md) name) (\<lambda>type.
      res_bind
        (if type = ONNX_INT64 then
           res_bind (CreateTensor shape type m) (\<lambda>(q, m1).
           res_bind (deref m1 q) (\<lambda>v.
           res_bind (copy_into (ov_data v) 0 ids) (\<lambda>d.
           res_bind (set_data q d m1) (\<lambda>m2. Inr (q, m2)))))
         else if type \<noteq> ONNX_INT32 then Inl (RuntimeError ''InputIDs must be int64 or int32'')
         else
           res_bind (subspan ids 0 (nat (batch_size p) * nat (sequence_length p))) (\<lambda>d.
           Inr (alloc \<lparr>ov_type = type, ov_shape = shape, ov_data = d\<rparr> m))) (\<lambda>(q, m3).
      res_bind (expand_member md (num_beams (search p)) q m3) (\<lambda>(q', m4).
      Inr (\<lparr>ii_name = name, ii_shape = shape[0 := batch_size p * num_beams (search p)], ii_type = type,
            ii_value = q', ii_index = 0\<rparr>, m4)))))"

definition InputIDs_Add :: "InputIDs \<Rightarrow> State \<Rightarrow> InputIDs \<times> State" where
  "InputIDs_Add ii st =
     (ii\<lparr>ii_index := length (st_inputs st)\<rparr>, add_input (Some (ii_value ii)) (ii_name ii) st)"

text \<open>The tensor of the prompt is replaced once by one of a single column.\<close>

definition InputIDs_resize :: "InputIDs \<Rightarrow> 'f io \<Rightarrow> (InputIDs \<times> 'f io) res" where
  "InputIDs_resize ii = (\<lambda>(st, m).
     res_bind (get (ii_shape ii) 1) (\<lambda>len.
     if len \<noteq> 1 then
       let shape = (ii_shape ii)[1 := 1] in
       res_bind (CreateTensor shape (ii_type ii) m) (\<lambda>(q, m1).
       res_bind (set_input (ii_index ii) (Some q) st) (\<lambda>st'.
       Inr (ii\<lparr>ii_shape := shape, ii_value := q\<rparr>, st', free (ii_value ii) m1)))
     else Inr (ii, st, m)))"

definition InputIDs_Update :: "int list \<Rightarrow> InputIDs \<Rightarrow> 'f io \<Rightarrow> (InputIDs \<times> 'f io) res" where
  "InputIDs_Update next_toks ii io =
     res_bind (InputIDs_resize ii io) (\<lambda>(ii', st, m).
     res_bind (deref m (ii_value ii')) (\<lambda>v.
     res_bind (get (ii_shape ii') 0) (\<lambda>n.
     res_bind (subspan next_toks 0 (nat n)) (\<lambda>toks.
     res_bind (copy_into (ov_data v) 0 (map SInt toks)) (\<lambda>d.
     res_bind (set_data (ii_value ii') d m) (\<lambda>m'. Inr (ii', st, m')))))))"

section \<open>Position ids and attention mask\<close>

record PositionInputs =
  pi_type :: ONNXTensorElementDataType
  pi_has_mask :: bool
  pi_has_posid :: bool
  pi_posids_shape :: "int list"
  pi_posids :: addr
  pi_posids_next :: uptr
  pi_mask_shape :: "int list"
  pi_mask :: addr
  pi_initial_lengths :: "int list"
  pi_first_posid_update :: bool
  pi_mask_index :: nat
  pi_posid_index :: nat

definition position_type :: "'f Model \<Rightarrow> bool \<Rightarrow> bool \<Rightarrow> ONNXTensorElementDataType res" where
  "position_type md has_mask has_posid =
     (let si = md_session_info md; mask_name = di_attention_mask (dec_inputs md);
          posid_name = di_position_ids (dec_inputs md) in
      res_bind (if has_mask then GetInputDataType si mask_name else Inr ONNX_INT32) (\<lambda>type.
      res_bind
        (if has_posid then
           res_bind (GetInputDataType si posid_name) (\<lambda>t.
           if has_mask \<and> t \<noteq> type then
             Inl (RuntimeError ''position_ids & attention_mask must have the same data type'')
           else Inr t)
         else Inr type) (\<lambda>type'.
      if type' \<noteq> ONNX_INT32 \<and> type' \<noteq> ONNX_INT64 then
        Inl (RuntimeError ''position_ids & attention_mask only support int32 or int64 types'')
      else Inr type')))"

text \<open>The loop over the words of a row: \<open>word_id\<close>, \<open>mask\<close> and \<open>position\<close> advance together.\<close>

definition init_word ::
    "int \<Rightarrow> int list \<Rightarrow> nat \<Rightarrow> 'f scalar list \<times> 'f scalar list \<times> int \<Rightarrow> ('f scalar list \<times> 'f scalar list \<times> int) res" where
  "init_word pad ids k = (\<lambda>(mask, position, abs_position).
     res_bind (get ids k) (\<lambda>word.
     if word = pad then
       res_bind (put mask k (SInt 0)) (\<lambda>mask'. res_bind (put position k (SInt 0)) (\<lambda>position'.
       Inr (mask', position', abs_position)))
     else
       res_bind (put mask k (SInt 1)) (\<lambda>mask'. res_bind (put position k (SInt abs_position)) (\<lambda>position'.
       Inr (mask', position', abs_position + 1)))))"

record 'f init_state =
  is_mask :: "'f scalar list"
  is_position :: "'f scalar list"
  is_next :: "'f scalar list"
  is_lengths :: "int list"
  is_initial :: "int list"

definition init_row :: "('f, addr) GeneratorParams \<Rightarrow> nat \<Rightarrow> nat \<Rightarrow> 'f init_state \<Rightarrow> 'f init_state res" where
  "init_row p w i s =
     res_bind (for_res (\<lambda>j. init_word (pad_token_id p) (input_ids p) (i * w + j)) [0..<w]
         (is_mask s, is_position s, 0)) (\<lambda>(mask, position, abs_position).
     res_bind (put (is_next s) i (SInt abs_position)) (\<lambda>nxt.
     res_bind (for_res (\<lambda>k (ls, ini).
         res_bind (put ls (i * nbeams p + k) abs_position) (\<lambda>ls'.
         res_bind (put ini (i * nbeams p + k) abs_position) (\<lambda>ini'. Inr (ls', ini'))))
         [0..<nbeams p] (is_lengths s, is_initial s)) (\<lambda>(ls, ini).
     Inr \<lparr>is_mask = mask, is_position = position, is_next = nxt, is_lengths = ls, is_initial = ini\<rparr>)))"

definition InitializeTensors :: "('f, addr) GeneratorParams \<Rightarrow> int list \<Rightarrow> 'f init_state \<Rightarrow> 'f init_state res" where
  "InitializeTensors p shape s =
     res_bind (get shape 0) (\<lambda>h. res_bind (get shape 1) (\<lambda>w. for_res (init_row p (nat w)) [0..<nat h] s))"

text \<open>The constructor also fills the search's buffer of sequence lengths, which it returns.\<close>

definition PositionInputs_new ::
    "'f Model \<Rightarrow> ('f, addr) GeneratorParams \<Rightarrow> int list \<Rightarrow> 'f mem \<Rightarrow> (PositionInputs \<times> int list \<times> 'f mem) res" where
  "PositionInputs_new md p seq_lengths m =
     (let has_mask = HasInput (md_session_info md) (di_attention_mask (dec_inputs md));
          has_posid = HasInput (md_session_info md) (di_position_ids (dec_inputs md));
          shape = [batch_size p, sequence_length p] in
      res_bind (position_type md has_mask has_posid) (\<lambda>type.
      res_bind (CreateTensor shape type m) (\<lambda>(pos, m1).
      res_bind (CreateTensor [batch_size p, 1] type m1) (\<lambda>(nxt, m2).
      res_bind (CreateTensor shape type m2) (\<lambda>(mask, m3).
      res_bind (deref m3 pos) (\<lambda>vp. res_bind (deref m3 nxt) (\<lambda>vn. res_bind (deref m3 mask) (\<lambda>vm.
      res_bind (InitializeTensors p shape \<lparr>is_mask = ov_data vm, is_position = ov_data vp, is_next = ov_data vn,
          is_lengths = seq_lengths, is_initial = replicate (nat (BatchBeamSize p)) 0\<rparr>) (\<lambda>s.
      res_bind (set_data pos (is_position s) m3) (\<lambda>m4.
      res_bind (set_data nxt (is_next s) m4) (\<lambda>m5.
      res_bind (set_data mask (is_mask s) m5) (\<lambda>m6.
      res_bind (expand_member md (num_beams (search p)) pos m6) (\<lambda>(pos', m7).
      res_bind (expand_member md (num_beams (search p)) nxt m7) (\<lambda>(nxt', m8).
      res_bind (expand_member md (num_beams (search p)) mask m8) (\<lambda>(mask', m9).
      let shape' = [batch_size p * num_beams (search p), sequence_length p] in
      Inr (\<lparr>pi_type = type, pi_has_mask = has_mask, pi_has_posid = has_posid, pi_posids_shape = shape',
            pi_posids = pos', pi_posids_next = Some nxt', pi_mask_shape = shape', pi_mask = mask',
            pi_initial_lengths = is_initial s, pi_first_posid_update = True, pi_mask_index = 0, pi_posid_index = 0\<rparr>,
           is_lengths s, m9))))))))))))))))"

definition AddAttentionMask :: "'f Model \<Rightarrow> PositionInputs \<times> State \<Rightarrow> PositionInputs \<times> State" where
  "AddAttentionMask md = (\<lambda>(pn, st).
     (pn\<lparr>pi_mask_index := length (st_inputs st)\<rparr>, add_input (Some (pi_mask pn)) (di_attention_mask (dec_inputs md)) st))"

definition AddPositionIDs :: "'f Model \<Rightarrow> PositionInputs \<times> State \<Rightarrow> PositionInputs \<times> State" where
  "AddPositionIDs md = (\<lambda>(pn, st).
     (pn\<lparr>pi_posid_index := length (st_inputs st)\<rparr>, add_input (Some (pi_posids pn)) (di_position_ids (dec_inputs md)) st))"

definition PositionInputs_Add :: "'f Model \<Rightarrow> PositionInputs \<times> State \<Rightarrow> PositionInputs \<times> State" where
  "PositionInputs_Add md ps =
     (let ps1 = if pi_has_posid (fst ps) then AddPositionIDs md ps else ps in
      if pi_has_mask (fst ps1) then AddAttentionMask md ps1 else ps1)"

text \<open>The increment of every position id, at the width of the tensor.\<close>

definition UpdatePositionIDsImpl :: "nat \<Rightarrow> 'f scalar list \<Rightarrow> 'f scalar list res" where
  "UpdatePositionIDsImpl n d =
     for_res (\<lambda>i d. res_bind (get d i) (\<lambda>x. res_bind (scalar_int x) (\<lambda>k. put d i (SInt (k + 1))))) [0..<n] d"

definition UpdatePositionIDs :: "'f Model \<Rightarrow> PositionInputs \<Rightarrow> 'f io \<Rightarrow> (PositionInputs \<times> 'f io) res" where
  "UpdatePositionIDs md pn = (\<lambda>(st, m).
     if pi_first_posid_update pn then
       res_bind (set_input (pi_posid_index pn) (pi_posids_next pn) st) (\<lambda>st'.
       case pi_posids_next pn of
         None \<Rightarrow> Inl NullPointer
       | Some nxt \<Rightarrow>
           Inr (pn\<lparr>pi_posids_shape := (pi_posids_shape pn)[1 := 1], pi_posids := nxt, pi_posids_next := None,
                 pi_first_posid_update := False\<rparr>, st', free (pi_posids pn) m))
     else if md_device_type md \<noteq> CPU then Inl (RuntimeError ''PositionIDs::Update - Unsupported device type'')
     else
       res_bind (deref m (pi_posids pn)) (\<lambda>v.
       res_bind (get (pi_posids_shape pn) 0) (\<lambda>n.
       res_bind (UpdatePositionIDsImpl (nat n) (ov_data v)) (\<lambda>d.
       res_bind (set_data (pi_posids pn) d m) (\<lambda>m'. Inr (pn, st, m'))))))"

definition UpdateAttentionMaskImpl :: "nat \<Rightarrow> nat \<Rightarrow> 'f scalar list \<Rightarrow> 'f scalar list \<Rightarrow> 'f scalar list res" where
  "UpdateAttentionMaskImpl rows current_length old_data d =
     for_res (\<lambda>i d.
       res_bind (for_res (\<lambda>j d. res_bind (get old_data (i * (current_length - 1) + j)) (put d (i * current_length + j)))
         [0..<current_length - 1] d) (\<lambda>d'.
       put d' (i * current_length + current_length - 1) (SInt 1))) [0..<rows] d"

definition UpdateAttentionMask :: "'f Model \<Rightarrow> nat \<Rightarrow> PositionInputs \<Rightarrow> 'f io \<Rightarrow> (PositionInputs \<times> 'f io) res" where
  "UpdateAttentionMask md current_length pn = (\<lambda>(st, m).
     let shape = (pi_mask_shape pn)[1 := int current_length] in
     res_bind (CreateTensor shape (pi_type pn) m) (\<lambda>(nxt, m1).
     if md_device_type md \<noteq> CPU then Inl (RuntimeError ''PositionIDs::Update - Unsupported device type'')
     else
       res_bind (deref m1 (pi_mask pn)) (\<lambda>old.
       res_bind (deref m1 nxt) (\<lambda>new.
       res_bind (get shape 0) (\<lambda>rows.
       res_bind (UpdateAttentionMaskImpl (nat rows) current_length (ov_data old) (ov_data new)) (\<lambda>d.
       res_bind (set_data nxt d m1) (\<lambda>m2.
       res_bind (set_input (pi_mask_index pn) (Some nxt) st) (\<lambda>st'.
       Inr (pn\<lparr>pi_mask_shape := shape, pi_mask := nxt\<rparr>, st', free (pi_mask pn) m2))))))))) "

definition PositionInputs_Update :: "'f Model \<Rightarrow> nat \<Rightarrow> PositionInputs \<Rightarrow> 'f io \<Rightarrow> (PositionInputs \<times> 'f io) res" where
  "PositionInputs_Update md current_length pn io =
     res_bind (if pi_has_posid pn then UpdatePositionIDs md pn io else Inr (pn, io)) (\<lambda>(pi1, io1).
     if pi_has_mask pi1 then UpdateAttentionMask md current_length pi1 io1 else Inr (pi1, io1))"

section \<open>Extra inputs\<close>

record ExtraInputs =
  ei_inputs :: "addr list"

definition ExtraInputs_new :: "('f, addr) GeneratorParams \<Rightarrow> ExtraInputs" where
  "ExtraInputs_new p = \<lparr>ei_inputs = map snd (extra_inputs p)\<rparr>"

definition ExtraInputs_Add :: "('f, addr) GeneratorParams \<Rightarrow> ExtraInputs \<Rightarrow> State \<Rightarrow> State res" where
  "ExtraInputs_Add p ei st =
     for_res (\<lambda>i st. res_bind (get (extra_inputs p) i) (\<lambda>e. res_bind (get (ei_inputs ei) i) (\<lambda>q.
       Inr (add_input (Some q) (fst e) st)))) [0..<length (extra_inputs p)] st"

section \<open>Embeddings\<close>

datatype Embeddings_Mode = Input | Output

record Embeddings =
  em_shape :: "int list"
  em_type :: ONNXTensorElementDataType
  em_mode :: Embeddings_Mode
  em_name :: string
  em_value :: uptr
  em_index :: nat

definition Embeddings_new ::
    "'f Model \<Rightarrow> ('f, addr) GeneratorParams \<Rightarrow> Embeddings_Mode \<Rightarrow> string \<Rightarrow> 'f mem \<Rightarrow> (Embeddings \<times> 'f mem) res" where
  "Embeddings_new md p mode name m =
     (let shape = [batch_size p * num_beams (search p), sequence_length p, hidden_size p] in
      res_bind (if mode = Input then GetInputDataType (md_session_info md) name
                else GetOutputDataType (md_session_info md) name) (\<lambda>type.
      res_bind (if mode = Output then res_bind (CreateTensor shape type m) (\<lambda>(q, m1). Inr (Some q, m1))
                else Inr (None, m)) (\<lambda>(q, m1).
      Inr (\<lparr>em_shape = shape, em_type = type, em_mode = mode, em_name = name, em_value = q, em_index = 0\<rparr>, m1))))"

definition Embeddings_Add :: "Embeddings \<Rightarrow> State \<Rightarrow> Embeddings \<times> State" where
  "Embeddings_Add em st =
     (if em_mode em = Input then (em\<lparr>em_index := length (st_inputs st)\<rparr>, add_input None (em_name em) st)
      else (em\<lparr>em_index := length (st_outputs st)\<rparr>, add_output (em_value em) (em_name em) st))"

definition UpdateSequenceLength :: "Embeddings \<Rightarrow> 'f io \<Rightarrow> (Embeddings \<times> 'f io) res" where
  "UpdateSequenceLength em = (\<lambda>(st, m).
     res_bind (get (em_shape em) 1) (\<lambda>len.
     if len \<noteq> 1 then
       let shape = (em_shape em)[1 := 1]; em1 = em\<lparr>em_shape := shape\<rparr> in
       if em_mode em = Output then
         res_bind (CreateTensor shape (em_type em) m) (\<lambda>(q, m1).
         res_bind (set_output (em_index em) (Some q) st) (\<lambda>st'.
         Inr (em1\<lparr>em_value := Some q\<rparr>, st', release (em_value em) m1)))
       else Inr (em1, st, m)
     else Inr (em, st, m)))"

text \<open>The input slot of one state is made to point to the output tensor of another.\<close>

definition ReuseEmbeddingsBuffer :: "Embeddings \<Rightarrow> State \<Rightarrow> Embeddings \<Rightarrow> State \<Rightarrow> State res" where
  "ReuseEmbeddingsBuffer em st other other_st =
     (if em_mode em = Output \<or> em_mode other = Input then
        Inl (RuntimeError ''Incorrect usage of the embeddings inputs and outputs.'')
      else res_bind (get (st_outputs other_st) (em_index other)) (\<lambda>q. set_input (em_index em) q st))"


section \<open>What the loops compute\<close>

text \<open>The mask and the positions of a row of token ids, and the number of its tokens.\<close>

definition mask_row :: "int \<Rightarrow> int list \<Rightarrow> 'f scalar list" where
  "mask_row pad ids = map (\<lambda>x. SInt (if x = pad then 0 else 1)) ids"

definition token_count :: "int \<Rightarrow> int list \<Rightarrow> int" where
  "token_count pad ids = int (length (filter (\<lambda>x. x \<noteq> pad) ids))"

definition position_row :: "int \<Rightarrow> int list \<Rightarrow> 'f scalar list" where
  "position_row pad ids =
     map (\<lambda>j. SInt (if ids ! j = pad then 0 else token_count pad (take j ids))) [0..<length ids]"

lemma length_mask_row [simp]: "length (mask_row pad ids) = length ids"
  by (simp add: mask_row_def)

lemma length_position_row [simp]: "length (position_row pad ids) = length ids"
  by (simp add: position_row_def)

lemma mask_row_snoc: "mask_row pad (ids @ [x]) = mask_row pad ids @ [SInt (if x = pad then 0 else 1)]"
  by (simp add: mask_row_def)

lemma position_row_snoc:
  "position_row pad (ids @ [x]) = position_row pad ids @ [SInt (if x = pad then 0 else token_count pad ids)]"
  by (simp add: position_row_def nth_append)

lemma init_words:
  assumes "off + w \<le> length ids" and "length msk = length ids" and "length pos = length ids" and "k \<le> w"
  shows "for_res (\<lambda>j. init_word pad ids (off + j)) [0..<k] (msk, pos, 0)
    = Inr (blit msk off (mask_row pad (take k (drop off ids))), blit pos off (position_row pad (take k (drop off ids))),
           token_count pad (take k (drop off ids)))"
  using assms(4)
proof (induction k)
  case 0
  then show ?case by (simp add: mask_row_def position_row_def token_count_def)
next
  case (Suc k)
  let ?row = "take k (drop off ids)" and ?x = "ids ! (off + k)"
  have row: "take (Suc k) (drop off ids) = ?row @ [?x]" and len: "length ?row = k"
    using Suc.prems assms(1) by (simp_all add: take_Suc_conv_app_nth)
  have bm: "(blit msk off (mask_row pad ?row))[off + k := v] = blit msk off (mask_row pad ?row @ [v])" for v
    using blit_snoc [of off "mask_row pad ?row" msk v] len Suc.prems assms by simp
  have bp: "(blit pos off (position_row pad ?row))[off + k := v] = blit pos off (position_row pad ?row @ [v])" for v
    using blit_snoc [of off "position_row pad ?row" pos v] len Suc.prems assms by simp
  have lm: "off + length (mask_row pad ?row) \<le> length msk" and lp: "off + length (position_row pad ?row) \<le> length pos"
    using len Suc.prems assms by simp_all
  have tc: "token_count pad (?row @ [?x]) = token_count pad ?row + (if ?x = pad then 0 else 1)"
    by (simp add: token_count_def)
  show ?case
    using Suc assms length_blit [OF lm] length_blit [OF lp]
    unfolding row mask_row_snoc position_row_snoc tc
    by (simp add: init_word_def bm bp)
qed

lemma UpdateAttentionMaskImpl_ok:
  assumes "length old = rows * n" and "length d = rows * Suc n"
  shows "UpdateAttentionMaskImpl rows (Suc n) old d
    = Inr (concat (map (\<lambda>i. take n (drop (i * n) old) @ [SInt 1]) [0..<rows]))"
  unfolding UpdateAttentionMaskImpl_def
proof (rule for_res_full_rows [OF assms(2)])
  fix i and t :: "'a scalar list" assume i: "i < rows" and t: "length t = rows * Suc n"
  have src: "i * n + n \<le> length old" using row_bound0 [OF i, of n] assms(1) by simp
  have dst: "i * Suc n + Suc n \<le> length t" using row_bound0 [OF i, of "Suc n"] t by simp
  have len: "length (take n (drop (i * n) old)) = n" using src by simp
  have "(blit t (i * Suc n) (take n (drop (i * n) old)))[i * Suc n + n := SInt 1]
      = blit t (i * Suc n) (take n (drop (i * n) old) @ [SInt 1])"
    using blit_snoc [of "i * Suc n" "take n (drop (i * n) old)" t "SInt 1"] len dst by simp
  then show "res_bind (for_res (\<lambda>j d. res_bind (get old (i * (Suc n - 1) + j)) (put d (i * Suc n + j))) [0..<Suc n - 1] t)
      (\<lambda>d'. put d' (i * Suc n + Suc n - 1) (SInt 1)) = Inr (blit t (i * Suc n) (take n (drop (i * n) old) @ [SInt 1]))"
    using for_res_copy [of "i * n" n old "i * Suc n" t] src dst len by simp
next
  fix i assume i: "i < rows"
  then show "length (take n (drop (i * n) old) @ [SInt 1]) = Suc n"
    using row_bound0 [OF i, of n] assms(1) by simp
qed

lemma UpdatePositionIDsImpl_ok: "UpdatePositionIDsImpl (length ks) (map SInt ks) = Inr (map (\<lambda>k. SInt (k + 1)) ks)"
proof -
  have "for_res (\<lambda>i d. res_bind (get d i) (\<lambda>x. res_bind (scalar_int x) (\<lambda>k. put d i (SInt (k + 1))))) [0..<n] (map SInt ks)
      = Inr (map (\<lambda>k. SInt (k + 1)) (take n ks) @ map SInt (drop n ks))" if "n \<le> length ks" for n
    using that
  proof (induction n)
    case (Suc n)
    then show ?case
      by (simp add: nth_append list_update_append take_Suc_conv_app_nth Cons_nth_drop_Suc [symmetric])
  qed simp
  from this [of "length ks"] show ?thesis by (simp add: UpdatePositionIDsImpl_def)
qed

end
