(* ===== verification/LogitsIO.thy ===== *)
theory LogitsIO
  imports ModelInputs
begin

text \<open>
  \<open>src/models/logits.cpp\<close>: the output tensor of the logits, the selection of the logits of the last token
  of every prompt after the first run, the conversion to single precision and the merging of several
  end-of-sequence ids into one.
\<close>

section \<open>Operations\<close>

record Logits =
  lg_shape :: "int list"
  lg_type :: ONNXTensorElementDataType
  lg_last_tokens :: uptr
  lg_raw :: addr
  lg_index :: nat

definition Logits_new :: "'f Model \<Rightarrow> ('f, addr) GeneratorParams \<Rightarrow> 'f mem \<Rightarrow> (Logits \<times> 'f mem) res" where
  "Logits_new md p m =
     (let shape = [batch_size p * num_beams (search p), sequence_length p, vocab_size p] in
      res_bind (GetOutputDataType (md_session_info md) (do_logits (dec_outputs md))) (\<lambda>type.
      res_bind (CreateTensor shape type m) (\<lambda>(q, m1).
      Inr (\<lparr>lg_shape = shape, lg_type = type, lg_last_tokens = None, lg_raw = q, lg_index = 0\<rparr>, m1))))"

definition Logits_Add :: "'f Model \<Rightarrow> Logits \<Rightarrow> State \<Rightarrow> Logits \<times> State" where
  "Logits_Add md lg st =
     (lg\<lparr>lg_index := length (st_outputs st)\<rparr>, add_output (Some (lg_raw lg)) (do_logits (dec_outputs md)) st)"

definition Logits_Update :: "Logits \<Rightarrow> 'f io \<Rightarrow> (Logits \<times> 'f io) res" where
  "Logits_Update lg = (\<lambda>(st, m).
     res_bind (deref m (lg_raw lg)) (\<lambda>v.
     res_bind (get (ov_shape v) 1) (\<lambda>len.
     if len = 1 then Inr (lg, st, m)
     else
       res_bind (CreateTensor (lg_shape lg) (lg_type lg) m) (\<lambda>(q, m1).
       res_bind (set_output (lg_index lg) (Some q) st) (\<lambda>st'.
       Inr (lg\<lparr>lg_raw := q\<rparr>, st', free (lg_raw lg) m1))))))"

text \<open>The search from the end for a token that is not the pad token. The counter is unsigned: when every
  token is the pad token it ends below zero, so it is an \<open>int\<close> here and the offset computed from it
  wraps, which \<open>index_of\<close> turns into an error when the offset is negative.\<close>

primrec last_token_from :: "int \<Rightarrow> int list \<Rightarrow> nat \<Rightarrow> nat \<Rightarrow> int res" where
  "last_token_from pad ids off 0 = Inr (- 1)"
| "last_token_from pad ids off (Suc n) =
     res_bind (get ids (off + n)) (\<lambda>x. if x \<noteq> pad then Inr (int n) else last_token_from pad ids off n)"

text \<open>The copy of one row of logits per beam, element by element rather than byte by byte.\<close>

definition copy_last_token ::
    "('f, 't) GeneratorParams \<Rightarrow> nat \<Rightarrow> nat \<Rightarrow> 'f scalar list \<Rightarrow> nat \<Rightarrow> 'f scalar list \<times> nat \<Rightarrow> ('f scalar list \<times> nat) res" where
  "copy_last_token p seq_length vocab raw batch_index dv =
     res_bind (last_token_from (pad_token_id p) (input_ids p) (batch_index * seq_length) seq_length) (\<lambda>token_index.
     for_res (\<lambda>beam (d, vocab_index).
       res_bind (index_of (int (vocab_index * seq_length) + token_index * int vocab)) (\<lambda>src.
       res_bind (subspan raw src vocab) (\<lambda>source.
       res_bind (copy_into d vocab_index source) (\<lambda>d'.
       Inr (d', vocab_index + vocab))))) [0..<nbeams p] dv)"

definition copy_last_tokens :: "('f, 't) GeneratorParams \<Rightarrow> nat \<Rightarrow> nat \<Rightarrow> 'f scalar list \<Rightarrow> 'f scalar list \<Rightarrow> 'f scalar list res" where
  "copy_last_tokens p seq_length vocab raw d =
     res_bind (for_res (copy_last_token p seq_length vocab raw) [0..<nbatch p] (d, 0)) (\<lambda>(d', _). Inr d')"

definition element_size :: "ONNXTensorElementDataType \<Rightarrow> nat" where
  "element_size type = (if type = ONNX_FLOAT then 4 else 2)"

text \<open>The first run: the logits of the last token of every row go to a tensor of their own.\<close>

definition Logits_select :: "('f, addr) GeneratorParams \<Rightarrow> Logits \<Rightarrow> 'f mem \<Rightarrow> (Logits \<times> addr \<times> 'f mem) res" where
  "Logits_select p lg m =
     res_bind (get (lg_shape lg) 1) (\<lambda>seq_length.
     if seq_length = 1 then Inr (lg, lg_raw lg, m)
     else
       res_bind (get (lg_shape lg) 2) (\<lambda>vocab.
       let shape = (lg_shape lg)[1 := 1] in
       res_bind (CreateTensor shape (lg_type lg) m) (\<lambda>(q, m1).
       let m2 = release (lg_last_tokens lg) m1 in
       if SizeOf (lg_type lg) \<noteq> Inr (element_size (lg_type lg)) then Inl TypeConfusion
       else
         res_bind (deref m2 (lg_raw lg)) (\<lambda>raw.
         res_bind (deref m2 q) (\<lambda>v.
         res_bind (copy_last_tokens p (nat seq_length) (nat vocab) (ov_data raw) (ov_data v)) (\<lambda>d.
         res_bind (set_data q d m2) (\<lambda>m3.
         Inr (lg\<lparr>lg_shape := shape, lg_last_tokens := Some q\<rparr>, q, m3))))))))"

definition HandleEOS_row ::
    "('f::linorder, 'g, 'y) cxx_scheme \<Rightarrow> int list \<Rightarrow> int \<Rightarrow> 'f list \<Rightarrow> 'f list res" where
  "HandleEOS_row cx eos_ids eos logits =
     res_bind (for_res (\<lambda>id (row, mx).
         res_bind (index_of id) (\<lambda>i. res_bind (get row i) (\<lambda>x. res_bind (put row i (flowest cx)) (\<lambda>row'.
         Inr (row', if mx < x then x else mx))))) eos_ids (logits, flowest cx)) (\<lambda>(row, mx).
     res_bind (index_of eos) (\<lambda>i. put row i mx))"

definition HandleEOSArray ::
    "('f::linorder, 'g, 'y) cxx_scheme \<Rightarrow> int list \<Rightarrow> int \<Rightarrow> nat \<Rightarrow> nat \<Rightarrow> 'f list \<Rightarrow> 'f list res" where
  "HandleEOSArray cx eos_ids eos rows vocab batched =
     (if eos_ids = [] then Inr batched
      else for_res (\<lambda>index d.
        res_bind (subspan d (index * vocab) vocab) (\<lambda>logits.
        res_bind (HandleEOS_row cx eos_ids eos logits) (copy_into d (index * vocab)))) [0..<rows] batched)"

text \<open>\<open>Logits::Get\<close>: the selection, the conversion to floats, and the end-of-sequence ids, written back to
  the tensor the returned span points into.\<close>

definition Logits_Get ::
    "('f::linorder, 'g, 'y) cxx_scheme \<Rightarrow> (32 word \<Rightarrow> 'f) \<Rightarrow> 'f Model \<Rightarrow> ('f, addr) GeneratorParams \<Rightarrow> Logits \<Rightarrow>
     'f mem \<Rightarrow> ('f list \<times> Logits \<times> 'f mem) res" where
  "Logits_Get cx of_bits md p lg m =
     res_bind (Logits_select p lg m) (\<lambda>(lg1, q, m1).
     res_bind
       (if lg_type lg = ONNX_FLOAT16 then
          res_bind (ConvertFp16ToFp32 of_bits (md_device_type md) q None m1) (\<lambda>(q', m2).
          Inr (lg1\<lparr>lg_last_tokens := Some q'\<rparr>, q', release (lg_last_tokens lg1) m2))
        else Inr (lg1, q, m1)) (\<lambda>(lg2, q2, m3).
     res_bind (deref m3 q2) (\<lambda>v.
     res_bind (get (lg_shape lg2) 0) (\<lambda>rows. res_bind (get (lg_shape lg2) 2) (\<lambda>vocab.
     res_bind (subspan (ov_data v) 0 (nat rows * nat vocab)) (\<lambda>d.
     res_bind (map_res scalar_float d) (\<lambda>logits.
     res_bind (HandleEOSArray cx (mo_eos_token_ids (co_model (md_config md))) (mo_eos_token_id (co_model (md_config md)))
         (nat rows) (nat vocab) logits) (\<lambda>logits'.
     res_bind (copy_into (ov_data v) 0 (map SFloat logits')) (\<lambda>d'.
     res_bind (set_data q2 d' m3) (\<lambda>m4. Inr (logits', lg2, m4)))))))))))"

section \<open>The last token of a prompt\<close>

text \<open>The index of the last token of a row that is not the pad token, if there is one.\<close>

definition last_token :: "int \<Rightarrow> int list \<Rightarrow> nat option" where
  "last_token pad row = (if \<exists>x\<in>set row. x \<noteq> pad then Some (length row - 1 - length (takeWhile (\<lambda>x. x = pad) (rev row))) else None)"

lemma last_token_from_ok:
  assumes "off + n \<le> length ids"
  shows "last_token_from pad ids off n
    = Inr (if \<exists>x\<in>set (take n (drop off ids)). x \<noteq> pad
           then int (n - 1 - length (takeWhile (\<lambda>x. x = pad) (rev (take n (drop off ids))))) else - 1)"
  using assms
proof (induction n)
  case (Suc n)
  have row: "take (Suc n) (drop off ids) = take n (drop off ids) @ [ids ! (off + n)]"
    using Suc.prems by (simp add: take_Suc_conv_app_nth)
  show ?case
  proof (cases "ids ! (off + n) = pad")
    case True
    then have "last_token_from pad ids off (Suc n) = last_token_from pad ids off n" using Suc.prems by simp
    then show ?thesis using Suc True unfolding row by simp
  next
    case False
    then show ?thesis using Suc.prems unfolding row by simp
  qed
qed simp

text \<open>It is the index of a token other than the pad token, and only pad tokens follow it.\<close>

lemma last_token_Some:
  assumes "last_token pad row = Some t"
  shows "t < length row \<and> row ! t \<noteq> pad \<and> (\<forall>j. t < j \<longrightarrow> j < length row \<longrightarrow> row ! j = pad)"
proof -
  let ?tw = "takeWhile (\<lambda>x. x = pad) (rev row)"
  have ex: "\<exists>x\<in>set (rev row). x \<noteq> pad" and t: "t = length row - 1 - length ?tw"
    using assms by (auto simp: last_token_def split: if_splits)
  have lt: "length ?tw < length row"
  proof -
    have "length ?tw \<noteq> length (rev row)" using ex by (metis (mono_tags) takeWhile_eq_all_conv takeWhile_eq_take take_all_iff order_refl)
    then show ?thesis using length_takeWhile_le [of "\<lambda>x. x = pad" "rev row"] by simp
  qed
  have "rev row ! length ?tw \<noteq> pad" using nth_length_takeWhile [of "\<lambda>x. x = pad" "rev row"] lt by simp
  then have "row ! t \<noteq> pad" using lt t by (simp add: rev_nth)
  moreover have "row ! j = pad" if "t < j" "j < length row" for j
  proof -
    have "length row - 1 - j < length ?tw" using that t lt by simp
    then have "?tw ! (length row - 1 - j) = pad" "?tw ! (length row - 1 - j) = rev row ! (length row - 1 - j)"
      using set_takeWhileD [OF nth_mem] takeWhile_nth by auto
    then show ?thesis using that by (simp add: rev_nth)
  qed
  ultimately show ?thesis using lt t by simp
qed


text \<open>The tokens of prompt \<open>b\<close>, and the index of its last one.\<close>

definition prompt_row :: "('f, 't) GeneratorParams \<Rightarrow> nat \<Rightarrow> int list" where
  "prompt_row p b = take (nat (sequence_length p)) (drop (b * nat (sequence_length p)) (input_ids p))"

definition prompt_last :: "('f, 't) GeneratorParams \<Rightarrow> nat \<Rightarrow> nat" where
  "prompt_last p b = the (last_token (pad_token_id p) (prompt_row p b))"

lemma last_token_from_prompt:
  assumes "params_ok p" and "b < nbatch p" and "\<exists>x\<in>set (prompt_row p b). x \<noteq> pad_token_id p"
  shows "last_token_from (pad_token_id p) (input_ids p) (b * nat (sequence_length p)) (nat (sequence_length p))
    = Inr (int (prompt_last p b))" and "prompt_last p b < nat (sequence_length p)"
proof -
  let ?w = "nat (sequence_length p)"
  have len: "b * ?w + ?w \<le> length (input_ids p)"
    using row_bound0 [OF assms(2), of ?w] assms(1) by (simp add: params_ok_def mult.commute)
  then have l: "length (prompt_row p b) = ?w" by (simp add: prompt_row_def)
  then have some: "last_token (pad_token_id p) (prompt_row p b)
      = Some (?w - 1 - length (takeWhile (\<lambda>x. x = pad_token_id p) (rev (prompt_row p b))))"
    using assms(3) by (simp add: last_token_def)
  then show "last_token_from (pad_token_id p) (input_ids p) (b * ?w) ?w = Inr (int (prompt_last p b))"
    using assms(3) unfolding last_token_from_ok [OF len] prompt_last_def by (simp add: prompt_row_def)
  show "prompt_last p b < ?w"
    using last_token_Some [OF some] l by (simp add: prompt_last_def some)
qed

lemma copy_last_tokens_ok:
  assumes p: "params_ok p" and beams: "0 < nbeams p"
    and tok: "\<And>b. b < nbatch p \<Longrightarrow> \<exists>x\<in>set (prompt_row p b). x \<noteq> pad_token_id p"
    and raw: "length raw = nbatch p * nbeams p * nat (sequence_length p) * vocab"
    and d: "length d = nbatch p * nbeams p * vocab"
  shows "copy_last_tokens p (nat (sequence_length p)) vocab raw d
    = Inr (blocks raw vocab (\<lambda>r. r * nat (sequence_length p) + prompt_last p (r div nbeams p)) (nbatch p * nbeams p))"
proof -
  let ?w = "nat (sequence_length p)" and ?k = "nbeams p" and ?n = "nbatch p"
  let ?g = "\<lambda>r. r * ?w + prompt_last p (r div ?k)"
  let ?body = "\<lambda>r (d, vocab_index).
       res_bind (index_of (int (vocab_index * ?w) + int (prompt_last p (r div ?k)) * int vocab)) (\<lambda>src.
       res_bind (subspan raw src vocab) (\<lambda>source.
       res_bind (copy_into d vocab_index source) (\<lambda>d'. Inr (d', vocab_index + vocab))))"
  let ?I = "\<lambda>r (d', vi). vi = r * vocab \<and> d' = blocks raw vocab ?g r @ drop (r * vocab) d"
  have "for_res (copy_last_token p ?w vocab raw) [0..<?n] (d, 0)
      = for_res (\<lambda>b. for_res (\<lambda>j. ?body (b * ?k + j)) [0..<?k]) [0..<?n] (d, 0)"
  proof (intro for_res_cong refl)
    fix b dv assume "b \<in> set [0..<?n]"
    then have b: "b < ?n" by simp
    show "copy_last_token p ?w vocab raw b dv = for_res (\<lambda>j. ?body (b * ?k + j)) [0..<?k] dv"
      unfolding copy_last_token_def last_token_from_prompt(1) [OF p b tok [OF b]] res_bind_Inr
      by (intro for_res_cong refl) (use beams in auto)
  qed
  also have "\<dots> = for_res ?body [0..<?n * ?k] (d, 0)" by (rule for_res_flatten)
  finally have flat: "for_res (copy_last_token p ?w vocab raw) [0..<?n] (d, 0) = for_res ?body [0..<?n * ?k] (d, 0)" .
  have g: "?g r * vocab + vocab \<le> length raw" if "r < ?n * ?k" for r
  proof -
    have "prompt_last p (r div ?k) < ?w"
      using that by (intro last_token_from_prompt(2) [OF p _ tok]) (simp_all add: less_mult_imp_div_less)
    then have "?g r < ?n * ?k * ?w" using that by (intro row_bound_less)
    then show ?thesis unfolding raw by (rule row_bound0)
  qed
  have "\<exists>t. for_res ?body [0..<?n * ?k] (d, 0) = Inr t \<and> ?I (?n * ?k) t"
  proof (rule for_res_upt_rule [where I = ?I])
    fix r t assume r: "r < ?n * ?k" and I: "?I r t"
    obtain d' vi where t: "t = (d', vi)" by (cases t)
    have vi: "vi = r * vocab" and d': "d' = blocks raw vocab ?g r @ drop (r * vocab) d" using I t by auto
    have src: "index_of (int (r * vocab * ?w) + int (prompt_last p (r div ?k)) * int vocab) = Inr (?g r * vocab)"
      using index_of_of_nat [of "?g r * vocab"] by (simp add: algebra_simps)
    have pre: "length (blocks raw vocab ?g r) = r * vocab" using g r by (intro length_blocks) simp
    have fit: "r * vocab + vocab \<le> length d" using row_bound0 [OF r, of vocab] d by simp
    have blk: "length (take vocab (drop (?g r * vocab) raw)) = vocab" using g [OF r] by simp
    have "blit d' (r * vocab) (take vocab (drop (?g r * vocab) raw)) = blocks raw vocab ?g (Suc r) @ drop (Suc r * vocab) d"
      unfolding d' blit_next [OF pre blk] by (simp add: blocks_Suc)
    then show "\<exists>t'. ?body r t = Inr t' \<and> ?I (Suc r) t'"
      using g [OF r] pre fit unfolding t vi prod.case src res_bind_Inr by (simp add: d' add.commute)
  qed simp
  then show ?thesis unfolding copy_last_tokens_def flat using d by auto
qed

text \<open>C34. After the first run \<open>Logits::Get\<close> selects, for every beam of every prompt, the logits the model
  computed at the last token of the prompt that is not the pad token: the row of the beam at that position,
  without reading outside the raw logits. The assumption that every prompt has such a token is needed: see
  the lemma that follows.\<close>

theorem Logits_select_last_token:
  assumes p: "params_ok p" and beams: "1 \<le> num_beams (search p)"
    and tok: "\<And>b. b < nbatch p \<Longrightarrow> \<exists>x\<in>set (prompt_row p b). x \<noteq> pad_token_id p"
    and raw: "length raw = nbatch p * nbeams p * nat (sequence_length p) * nvocab p"
    and d: "length d = nbatch p * nbeams p * nvocab p"
  shows "\<exists>d'. copy_last_tokens p (nat (sequence_length p)) (nvocab p) raw d = Inr d' \<and> length d' = length d
    \<and> (\<forall>b k t. b < nbatch p \<longrightarrow> k < nbeams p \<longrightarrow> last_token (pad_token_id p) (prompt_row p b) = Some t \<longrightarrow>
         take (nvocab p) (drop ((b * nbeams p + k) * nvocab p) d')
         = take (nvocab p) (drop (((b * nbeams p + k) * nat (sequence_length p) + t) * nvocab p) raw))"
proof -
  let ?w = "nat (sequence_length p)" and ?k = "nbeams p" and ?n = "nbatch p" and ?v = "nvocab p"
  let ?g = "\<lambda>r. r * ?w + prompt_last p (r div ?k)"
  have k: "0 < ?k" using beams by simp
  have g: "?g r * ?v + ?v \<le> length raw" if "r < ?n * ?k" for r
  proof -
    have "prompt_last p (r div ?k) < ?w"
      using that by (intro last_token_from_prompt(2) [OF p _ tok]) (simp_all add: less_mult_imp_div_less)
    then have "?g r < ?n * ?k * ?w" using that by (intro row_bound_less)
    then show ?thesis unfolding raw by (rule row_bound0)
  qed
  show ?thesis
  proof (intro exI conjI allI impI)
    show "copy_last_tokens p ?w ?v raw d = Inr (blocks raw ?v ?g (?n * ?k))"
      by (rule copy_last_tokens_ok [OF p k tok raw d])
    show "length (blocks raw ?v ?g (?n * ?k)) = length d" unfolding d by (rule length_blocks [OF g])
    fix b j t assume b: "b < ?n" and j: "j < ?k" and t: "last_token (pad_token_id p) (prompt_row p b) = Some t"
    have r: "b * ?k + j < ?n * ?k" using b j by (rule row_bound_less)
    have "(b * ?k + j) div ?k = b" using j by simp
    then show "take ?v (drop ((b * ?k + j) * ?v) (blocks raw ?v ?g (?n * ?k)))
        = take ?v (drop (((b * ?k + j) * ?w + t) * ?v) raw)"
      using blocks_row [OF r g] t by (simp add: prompt_last_def)
  qed
qed

definition example_prompts :: "(int, unit) GeneratorParams" where
  "example_prompts = example_params\<lparr>sequence_length := 2, input_ids := [1, 0, 1, 2]\<rparr>"

theorem Logits_select_last_token_witness:
  "\<exists>d'. copy_last_tokens example_prompts 2 3 (map SInt [0..11]) (replicate 6 Uninit) = Inr d'
     \<and> take 3 d' = map (SInt :: int \<Rightarrow> int scalar) [0, 1, 2] \<and> take 3 (drop 3 d') = map SInt [9, 10, 11]"
proof -
  let ?p = example_prompts and ?raw = "map (SInt :: int \<Rightarrow> int scalar) [0..11]"
  have p: "params_ok ?p" "nbatch ?p = 2" "nbeams ?p = 1" "nvocab ?p = 3" "nat (sequence_length ?p) = 2"
    by (simp_all add: example_prompts_def params_ok_def example_params_defs)
  have tok: "\<exists>x\<in>set (prompt_row ?p b). x \<noteq> pad_token_id ?p" if "b < nbatch ?p" for b
    using that p by (cases b) (auto simp: prompt_row_def example_prompts_def example_params_defs)
  have l0: "last_token (pad_token_id ?p) (prompt_row ?p 0) = Some 0"
    and l1: "last_token (pad_token_id ?p) (prompt_row ?p 1) = Some 1"
    by (simp_all add: prompt_row_def last_token_def example_prompts_def example_params_defs)
  have raw: "?raw = map SInt [0, 1, 2, 3, 4, 5, 6, 7, 8, 9, 10, 11]" by (simp add: upto.simps)
  obtain d' where d: "copy_last_tokens ?p 2 3 ?raw (replicate 6 Uninit) = Inr d'"
    and sel: "\<And>b k t. b < 2 \<Longrightarrow> k < 1 \<Longrightarrow> last_token (pad_token_id ?p) (prompt_row ?p b) = Some t \<Longrightarrow>
         take 3 (drop ((b * 1 + k) * 3) d') = take 3 (drop (((b * 1 + k) * 2 + t) * 3) ?raw)"
    using Logits_select_last_token [of ?p ?raw "replicate 6 Uninit", OF p(1) _ tok]
    unfolding p(2-5) by (auto simp: example_prompts_def example_params_defs)
  have "take 3 d' = map SInt [0, 1, 2]" using sel [OF _ _ l0, of 0] unfolding raw by simp
  moreover have "take 3 (drop 3 d') = map SInt [9, 10, 11]" using sel [OF _ _ l1, of 0] unfolding raw by simp
  ultimately show ?thesis using d by blast
qed

text \<open>A prompt of pad tokens only makes the first row read before the start of the logits.\<close>

lemma Logits_all_pad:
  assumes "0 < nbatch p" "0 < nbeams p" "0 < nvocab p" "\<forall>x\<in>set (prompt_row p 0). x = pad_token_id p"
    "nat (sequence_length p) \<le> length (input_ids p)"
  shows "copy_last_tokens p (nat (sequence_length p)) vocab raw d = Inl OutOfBounds \<or> vocab = 0"
proof (cases "vocab = 0")
  case False
  let ?w = "nat (sequence_length p)"
  have "last_token_from (pad_token_id p) (input_ids p) (0 * ?w) ?w = Inr (- 1)"
    using assms(4,5) by (subst last_token_from_ok) (auto simp: prompt_row_def)
  moreover obtain k where k: "nbeams p = Suc k" using assms(2) by (cases "nbeams p") auto
  moreover obtain n where n: "nbatch p = Suc n" using assms(1) by (cases "nbatch p") auto
  ultimately have "copy_last_token p ?w vocab raw 0 (d, 0) = Inl OutOfBounds"
    using False by (simp add: copy_last_token_def upt_rec index_of_def)
  then show ?thesis by (simp add: copy_last_tokens_def n upt_conv_Cons del: upt_Suc)
qed simp


section \<open>Several end-of-sequence ids\<close>

lemma HandleEOS_ids:
  fixes row :: "'f::linorder list"
  assumes "\<forall>id\<in>set ids. 0 \<le> id \<and> nat id < length row" and "flowest cx \<le> mx"
  shows "\<exists>row' mx'. for_res (\<lambda>id (row, mx).
         res_bind (index_of id) (\<lambda>i. res_bind (get row i) (\<lambda>x. res_bind (put row i (flowest cx)) (\<lambda>row'.
         Inr (row', if mx < x then x else mx))))) ids (row, mx) = Inr (row', mx')
     \<and> length row' = length row \<and> (\<forall>i < length row. row' ! i = (if int i \<in> set ids then flowest cx else row ! i))
     \<and> mx \<le> mx' \<and> (\<forall>id\<in>set ids. row ! nat id \<le> mx') \<and> (mx' = mx \<or> (\<exists>id\<in>set ids. mx' = row ! nat id))"
  using assms
proof (induction ids arbitrary: row mx)
  case (Cons id ids)
  let ?x = "row ! nat id" and ?row = "row[nat id := flowest cx]"
  let ?mx = "if mx < ?x then ?x else mx"
  have id: "0 \<le> id" "nat id < length row" using Cons.prems by auto
  have low: "flowest cx \<le> ?mx" using Cons.prems(2) by auto
  obtain row' mx' where r: "for_res (\<lambda>id (row, mx).
         res_bind (index_of id) (\<lambda>i. res_bind (get row i) (\<lambda>x. res_bind (put row i (flowest cx)) (\<lambda>row'.
         Inr (row', if mx < x then x else mx))))) ids (?row, ?mx) = Inr (row', mx')"
    "length row' = length ?row" "\<forall>i < length ?row. row' ! i = (if int i \<in> set ids then flowest cx else ?row ! i)"
    "?mx \<le> mx'" "\<forall>id\<in>set ids. ?row ! nat id \<le> mx'" "mx' = ?mx \<or> (\<exists>id\<in>set ids. mx' = ?row ! nat id)"
    using Cons.IH [of ?row ?mx] Cons.prems(1) low by auto
  have "mx \<le> mx'" and x: "?x \<le> mx'" using r(4) by (auto split: if_splits)
  moreover have "row ! nat j \<le> mx'" if "j \<in> set ids" for j
    using r(5) x that by (cases "nat j = nat id") auto
  moreover have "mx' = mx \<or> mx' = ?x \<or> (\<exists>j\<in>set ids. mx' = row ! nat j)"
  proof (cases "mx' = ?mx")
    case False
    then obtain j where j: "j \<in> set ids" "mx' = ?row ! nat j" using r(6) by blast
    show ?thesis
    proof (cases "nat j = nat id")
      case True
      then have "mx' = ?mx" using j(2) low r(4) id by (simp add: order_antisym)
      then show ?thesis using False by simp
    qed (use j in auto)
  qed auto
  moreover have "row' ! i = (if int i \<in> set (id # ids) then flowest cx else row ! i)" if "i < length row" for i
    using r(3) that id by (cases "i = nat id") auto
  ultimately show ?case using r(1,2) id by simp
qed simp

text \<open>C35. Merging the end-of-sequence ids of a row of logits never reads or writes out of range when the
  ids are in the vocabulary; the primary id ends up with the highest score of all listed ids (or the
  lowest float), every other listed id with the lowest float, and the other logits are unchanged.\<close>

theorem HandleEOS_row_correct:
  assumes ids: "\<forall>id\<in>set ids. 0 \<le> id \<and> nat id < length logits" and eos: "0 \<le> eos" "nat eos < length logits"
  shows "\<exists>row. HandleEOS_row cx ids eos logits = Inr row \<and> length row = length logits
     \<and> (\<forall>id\<in>set ids. logits ! nat id \<le> row ! nat eos)
     \<and> (row ! nat eos = flowest cx \<or> (\<exists>id\<in>set ids. row ! nat eos = logits ! nat id))
     \<and> (\<forall>i < length logits. i \<noteq> nat eos \<longrightarrow> row ! i = (if int i \<in> set ids then flowest cx else logits ! i))"
  using HandleEOS_ids [OF ids order_refl, of cx] eos by (auto simp: HandleEOS_row_def)

theorem HandleEOS_row_correct_witness:
  "\<exists>row. HandleEOS_row int_cxx [2, 0] 2 [5, 7, 1] = Inr row \<and> length row = 3 \<and> row ! 1 = 7 \<and> row ! 0 = flowest int_cxx
     \<and> 5 \<le> row ! 2"
  using HandleEOS_row_correct [of "[2, 0]" "[5, 7, 1]" 2 int_cxx] by auto

end
