(* ===== verification/KvCache.thy ===== *)
theory KvCache
  imports ModelInputs
begin

text \<open>
  \<open>src/models/kv_cache.cpp\<close>: the key-value caches. After a run the present tensors become the past
  tensors of the next one, either as they are or, in a beam search, with their blocks rearranged to follow
  the beams; with a shared buffer the same tensor is past and present. The cross cache of an
  encoder-decoder model is written once and then only read.
\<close>

section \<open>Names of the caches\<close>

text \<open>\<open>snprintf\<close> of a pattern with at most one \<open>%d\<close> into a buffer of 64 characters; any other conversion
  would read an argument that is not there.\<close>

fun format_int :: "string \<Rightarrow> int option \<Rightarrow> string res" where
  "format_int [] arg = Inr []"
| "format_int (c # cs) arg =
     (if c \<noteq> CHR ''%'' then res_bind (format_int cs arg) (\<lambda>s. Inr (c # s))
      else
        (case cs of
           [] \<Rightarrow> Inl TypeConfusion
         | c' # cs' \<Rightarrow>
             if c' = CHR ''%'' then res_bind (format_int cs' arg) (\<lambda>s. Inr (CHR ''%'' # s))
             else if c' = CHR ''d'' then
               (case arg of
                  None \<Rightarrow> Inl TypeConfusion
                | Some i \<Rightarrow> res_bind (format_int cs' None) (\<lambda>s. Inr (int_to_string i @ s)))
             else Inl TypeConfusion))"

definition layer_name :: "string \<Rightarrow> nat \<Rightarrow> string res" where
  "layer_name pattern i = res_bind (format_int pattern (Some (int i))) (\<lambda>s. Inr (take 63 s))"

definition layer_names :: "string list \<Rightarrow> nat \<Rightarrow> string list res" where
  "layer_names patterns layers =
     res_bind (map_res (\<lambda>i. map_res (\<lambda>pat. layer_name pat i) patterns) [0..<layers]) (\<lambda>rows. Inr (concat rows))"

abbreviation layers :: "'f Model \<Rightarrow> nat" where
  "layers md \<equiv> nat (de_num_hidden_layers (mo_decoder (co_model (md_config md))))"

abbreviation kv_heads :: "'f Model \<Rightarrow> int" where
  "kv_heads md \<equiv> de_num_key_value_heads (mo_decoder (co_model (md_config md)))"

abbreviation kv_head_size :: "'f Model \<Rightarrow> int" where
  "kv_head_size md \<equiv> de_head_size (mo_decoder (co_model (md_config md)))"

text \<open>A loop that allocates \<open>n\<close> tensors of one shape.\<close>

primrec CreateTensors :: "nat \<Rightarrow> int list \<Rightarrow> ONNXTensorElementDataType \<Rightarrow> 'f mem \<Rightarrow> (addr list \<times> 'f mem) res" where
  "CreateTensors 0 shape type m = Inr ([], m)"
| "CreateTensors (Suc n) shape type m =
     res_bind (CreateTensor shape type m) (\<lambda>(q, m1).
     res_bind (CreateTensors n shape type m1) (\<lambda>(qs, m2). Inr (q # qs, m2)))"

section \<open>Separate key and value tensors\<close>

record KV_Cache =
  kv_layer_count :: nat
  kv_share_buffer :: bool
  kv_shape :: "int list"
  kv_type :: ONNXTensorElementDataType
  kv_empty_past :: addr
  kv_pasts :: "uptr list"
  kv_presents :: "uptr list"
  kv_input_names :: "string list"
  kv_output_names :: "string list"
  kv_input_index :: nat
  kv_output_index :: nat

definition KV_Cache_new :: "'f Model \<Rightarrow> ('f, addr) GeneratorParams \<Rightarrow> 'f mem \<Rightarrow> (KV_Cache \<times> 'f mem) res" where
  "KV_Cache_new md p m =
     (let share = past_present_share_buffer (search p) \<and> num_beams (search p) = 1;
          len = if share then max_length (search p) else sequence_length p;
          shape0 = [BatchBeamSize p, kv_heads md, 0, kv_head_size md]; shape = shape0[2 := len] in
      res_bind (layer_names [di_past_key_names (dec_inputs md), di_past_value_names (dec_inputs md)] (layers md)) (\<lambda>ins.
      res_bind (layer_names [do_present_key_names (dec_outputs md), do_present_value_names (dec_outputs md)] (layers md)) (\<lambda>outs.
      res_bind (get ins 0) (\<lambda>name0.
      res_bind (GetInputDataType (md_session_info md) name0) (\<lambda>type.
      res_bind (CreateTensor shape0 type m) (\<lambda>(e, m1).
      res_bind (CreateTensors (layers md * 2) shape type m1) (\<lambda>(qs, m2).
      Inr (\<lparr>kv_layer_count = layers md, kv_share_buffer = share, kv_shape = shape, kv_type = type, kv_empty_past = e,
            kv_pasts = replicate (layers md * 2) None, kv_presents = map Some qs, kv_input_names = ins,
            kv_output_names = outs, kv_input_index = 0, kv_output_index = 0\<rparr>, m2))))))))"

definition KV_Cache_AddEncoder :: "KV_Cache \<Rightarrow> State \<Rightarrow> State res" where
  "KV_Cache_AddEncoder kv st =
     for_res (\<lambda>i st. res_bind (get (kv_presents kv) i) (\<lambda>q. res_bind (get (kv_output_names kv) i) (\<lambda>name.
       Inr (add_output q name st)))) [0..<kv_layer_count kv * 2] st"

definition KV_Cache_Add :: "KV_Cache \<Rightarrow> State \<Rightarrow> (KV_Cache \<times> State) res" where
  "KV_Cache_Add kv st =
     (let kv' = kv\<lparr>kv_input_index := length (st_inputs st), kv_output_index := length (st_outputs st)\<rparr> in
      res_bind (for_res (\<lambda>i st.
          res_bind (get (kv_input_names kv) i) (\<lambda>iname.
          res_bind (get (kv_presents kv) i) (\<lambda>q.
          res_bind (get (kv_output_names kv) i) (\<lambda>oname.
          Inr (add_output q oname (add_input (Some (kv_empty_past kv)) iname st))))))
          [0..<kv_layer_count kv * 2] st) (\<lambda>st1.
      if kv_share_buffer kv then
        res_bind (for_res (\<lambda>i st. res_bind (get (kv_presents kv) i) (\<lambda>q. set_input (kv_input_index kv' + i) q st))
          [0..<kv_layer_count kv * 2] st1) (\<lambda>st2. Inr (kv', st2))
      else Inr (kv', st1)))"

text \<open>The copy of the blocks of a tensor in the order of the beam indices.\<close>

definition pick_blocks :: "nat \<Rightarrow> int list \<Rightarrow> 'f scalar list \<Rightarrow> 'f scalar list \<Rightarrow> 'f scalar list res" where
  "pick_blocks block beam_indices present past =
     for_res (\<lambda>j past.
       res_bind (get beam_indices j) (\<lambda>beam_index.
       res_bind (index_of beam_index) (\<lambda>b.
       res_bind (subspan present (b * block) block) (copy_into past (j * block)))))
       [0..<length beam_indices] past"

definition score_type :: "ONNXTensorElementDataType \<Rightarrow> ONNXTensorElementDataType" where
  "score_type type = (if type = ONNX_FLOAT then ONNX_FLOAT else ONNX_FLOAT16)"

definition KV_Cache_PickPastState :: "int list \<Rightarrow> nat \<Rightarrow> KV_Cache \<Rightarrow> 'f mem \<Rightarrow> (KV_Cache \<times> 'f mem) res" where
  "KV_Cache_PickPastState beam_indices index kv m =
     (let block = GetElementCount (tl (kv_shape kv)); element_count = GetElementCount (kv_shape kv) in
      res_bind (get (kv_presents kv) index) (\<lambda>q.
      res_bind (read_ptr m q) (\<lambda>present.
      res_bind (CreateTensor (kv_shape kv) (score_type (kv_type kv)) m) (\<lambda>(past, m1).
      res_bind (deref m1 past) (\<lambda>v.
      res_bind (subspan (ov_data present) 0 element_count) (\<lambda>present_span.
      res_bind (pick_blocks block beam_indices present_span (ov_data v)) (\<lambda>d.
      res_bind (set_data past d m1) (\<lambda>m2.
      res_bind (get (kv_pasts kv) index) (\<lambda>old.
      Inr (kv\<lparr>kv_pasts := (kv_pasts kv)[index := Some past]\<rparr>, release old m2))))))))))"

text \<open>\<open>pasts_[i] = std::move(presents_[i])\<close>.\<close>

definition move_present :: "nat \<Rightarrow> KV_Cache \<Rightarrow> 'f mem \<Rightarrow> (KV_Cache \<times> 'f mem) res" where
  "move_present i kv m =
     res_bind (get (kv_presents kv) i) (\<lambda>q. res_bind (get (kv_pasts kv) i) (\<lambda>old.
     Inr (kv\<lparr>kv_pasts := (kv_pasts kv)[i := q], kv_presents := (kv_presents kv)[i := None]\<rparr>, release old m)))"

definition KV_update_past :: "int list \<Rightarrow> nat \<Rightarrow> KV_Cache \<times> 'f io \<Rightarrow> (KV_Cache \<times> 'f io) res" where
  "KV_update_past beam_indices i = (\<lambda>(kv, st, m).
     res_bind (if beam_indices = [] then move_present i kv m else KV_Cache_PickPastState beam_indices i kv m) (\<lambda>(kv1, m1).
     res_bind (get (kv_pasts kv1) i) (\<lambda>q.
     res_bind (set_input (kv_input_index kv1 + i) q st) (\<lambda>st1. Inr (kv1, st1, m1)))))"

definition KV_new_present :: "nat \<Rightarrow> KV_Cache \<times> 'f io \<Rightarrow> (KV_Cache \<times> 'f io) res" where
  "KV_new_present i = (\<lambda>(kv, st, m).
     res_bind (CreateTensor (kv_shape kv) (kv_type kv) m) (\<lambda>(q, m1).
     res_bind (get (kv_presents kv) i) (\<lambda>old.
     res_bind (set_output (kv_output_index kv + i) (Some q) st) (\<lambda>st1.
     Inr (kv\<lparr>kv_presents := (kv_presents kv)[i := Some q]\<rparr>, st1, release old m1)))))"

definition KV_Cache_Update :: "int list \<Rightarrow> nat \<Rightarrow> KV_Cache \<Rightarrow> 'f io \<Rightarrow> (KV_Cache \<times> 'f io) res" where
  "KV_Cache_Update beam_indices current_length kv io =
     (if kv_share_buffer kv then Inr (kv, io)
      else
        res_bind (for_res (KV_update_past beam_indices) [0..<kv_layer_count kv * 2] (kv, io)) (\<lambda>(kv1, io1).
        for_res KV_new_present [0..<kv_layer_count kv * 2]
          (kv1\<lparr>kv_shape := (kv_shape kv1)[2 := int current_length]\<rparr>, io1)))"

section \<open>Combined key and value tensors\<close>

text \<open>One tensor per layer holds the keys and then the values; its record is that of the separate cache, with
  a shape of five dimensions and one tensor per layer.\<close>

definition KV_Cache_Combined_new :: "'f Model \<Rightarrow> ('f, addr) GeneratorParams \<Rightarrow> 'f mem \<Rightarrow> (KV_Cache \<times> 'f mem) res" where
  "KV_Cache_Combined_new md p m =
     (let shape0 = [2, BatchBeamSize p, kv_heads md, 0, kv_head_size md]; shape = shape0[3 := sequence_length p] in
      res_bind (layer_names [di_past_names (dec_inputs md)] (layers md)) (\<lambda>ins.
      res_bind (layer_names [do_present_names (dec_outputs md)] (layers md)) (\<lambda>outs.
      res_bind (get ins 0) (\<lambda>name0.
      res_bind (GetInputDataType (md_session_info md) name0) (\<lambda>type.
      res_bind (CreateTensor shape0 type m) (\<lambda>(e, m1).
      res_bind (CreateTensors (layers md) shape type m1) (\<lambda>(qs, m2).
      Inr (\<lparr>kv_layer_count = layers md, kv_share_buffer = False, kv_shape = shape, kv_type = type, kv_empty_past = e,
            kv_pasts = replicate (layers md) None, kv_presents = map Some qs, kv_input_names = ins,
            kv_output_names = outs, kv_input_index = 0, kv_output_index = 0\<rparr>, m2))))))))"

definition KV_Cache_Combined_Add :: "KV_Cache \<Rightarrow> State \<Rightarrow> (KV_Cache \<times> State) res" where
  "KV_Cache_Combined_Add kv st =
     res_bind (for_res (\<lambda>i st.
         res_bind (get (kv_input_names kv) i) (\<lambda>iname.
         res_bind (get (kv_presents kv) i) (\<lambda>q.
         res_bind (get (kv_output_names kv) i) (\<lambda>oname.
         Inr (add_output q oname (add_input (Some (kv_empty_past kv)) iname st))))))
         [0..<kv_layer_count kv] st) (\<lambda>st1.
     Inr (kv\<lparr>kv_input_index := length (st_inputs st), kv_output_index := length (st_outputs st)\<rparr>, st1))"

definition pick_blocks_combined :: "nat \<Rightarrow> nat \<Rightarrow> int list \<Rightarrow> 'f scalar list \<Rightarrow> 'f scalar list \<Rightarrow> 'f scalar list res" where
  "pick_blocks_combined past_key_size block beam_indices present past =
     for_res (\<lambda>j past.
       res_bind (get beam_indices j) (\<lambda>beam_index.
       res_bind (index_of beam_index) (\<lambda>b.
       res_bind (subspan present (b * block) block) (\<lambda>present_key.
       res_bind (subspan present (past_key_size + b * block) block) (\<lambda>present_value.
       res_bind (copy_into past (j * block) present_key) (\<lambda>past1.
       copy_into past1 (past_key_size + j * block) present_value))))))
       [0..<length beam_indices] past"

definition KV_Cache_Combined_PickPastState :: "int list \<Rightarrow> nat \<Rightarrow> KV_Cache \<Rightarrow> 'f mem \<Rightarrow> (KV_Cache \<times> 'f mem) res" where
  "KV_Cache_Combined_PickPastState beam_indices index kv m =
     (let block = GetElementCount (drop 2 (kv_shape kv)); past_key_size = GetElementCount (drop 1 (kv_shape kv));
          element_count = GetElementCount (kv_shape kv) in
      res_bind (get (kv_presents kv) index) (\<lambda>q.
      res_bind (read_ptr m q) (\<lambda>present.
      res_bind (CreateTensor (kv_shape kv) (score_type (kv_type kv)) m) (\<lambda>(past, m1).
      res_bind (deref m1 past) (\<lambda>v.
      res_bind (subspan (ov_data present) 0 element_count) (\<lambda>present_span.
      res_bind (pick_blocks_combined past_key_size block beam_indices present_span (ov_data v)) (\<lambda>d.
      res_bind (set_data past d m1) (\<lambda>m2.
      res_bind (get (kv_pasts kv) index) (\<lambda>old.
      Inr (kv\<lparr>kv_pasts := (kv_pasts kv)[index := Some past]\<rparr>, release old m2))))))))))"

definition KV_Cache_Combined_Update :: "int list \<Rightarrow> nat \<Rightarrow> KV_Cache \<Rightarrow> 'f io \<Rightarrow> (KV_Cache \<times> 'f io) res" where
  "KV_Cache_Combined_Update beam_indices current_length kv = (\<lambda>(st, m).
     res_bind (for_res (\<lambda>i (kv, m).
         if beam_indices = [] then move_present i kv m else KV_Cache_Combined_PickPastState beam_indices i kv m)
         [0..<kv_layer_count kv] (kv, m)) (\<lambda>(kv1, m1).
     for_res (\<lambda>i (kv, st, m).
         res_bind (CreateTensor (kv_shape kv) (kv_type kv) m) (\<lambda>(q, m1).
         res_bind (get (kv_presents kv) i) (\<lambda>old.
         res_bind (get (kv_pasts kv) i) (\<lambda>past.
         res_bind (set_input (kv_input_index kv + i) past st) (\<lambda>st1.
         res_bind (set_output (kv_output_index kv + i) (Some q) st1) (\<lambda>st2.
         Inr (kv\<lparr>kv_presents := (kv_presents kv)[i := Some q]\<rparr>, st2, release old m1)))))))
         [0..<kv_layer_count kv] (kv1\<lparr>kv_shape := (kv_shape kv1)[3 := int current_length]\<rparr>, st, m1)))"

section \<open>Cross cache\<close>

record Cross_Cache =
  cc_layer_count :: nat
  cc_values :: "addr list"
  cc_input_names :: "string list"
  cc_output_names :: "string list"

definition Cross_Cache_new :: "'f Model \<Rightarrow> ('f, addr) GeneratorParams \<Rightarrow> 'f mem \<Rightarrow> (Cross_Cache \<times> 'f mem) res" where
  "Cross_Cache_new md p m =
     (let shape = [BatchBeamSize p, kv_heads md, 1500, kv_head_size md] in
      res_bind (layer_names [di_cross_past_key_names (dec_inputs md), di_cross_past_value_names (dec_inputs md)] (layers md)) (\<lambda>ins.
      res_bind (layer_names [do_cross_present_key_names (dec_outputs md), do_cross_present_value_names (dec_outputs md)] (layers md)) (\<lambda>outs.
      res_bind (get ins 0) (\<lambda>name0.
      res_bind (GetInputDataType (md_session_info md) name0) (\<lambda>type.
      res_bind (CreateTensors (layers md * 2) shape type m) (\<lambda>(qs, m1).
      Inr (\<lparr>cc_layer_count = layers md, cc_values = qs, cc_input_names = ins, cc_output_names = outs\<rparr>, m1)))))))"

definition Cross_Cache_AddOutputs :: "Cross_Cache \<Rightarrow> State \<Rightarrow> State res" where
  "Cross_Cache_AddOutputs cc st =
     for_res (\<lambda>i st. res_bind (get (cc_values cc) i) (\<lambda>q. res_bind (get (cc_output_names cc) i) (\<lambda>name.
       Inr (add_output (Some q) name st)))) [0..<cc_layer_count cc * 2] st"

definition Cross_Cache_AddInputs :: "Cross_Cache \<Rightarrow> State \<Rightarrow> State res" where
  "Cross_Cache_AddInputs cc st =
     for_res (\<lambda>i st. res_bind (get (cc_values cc) i) (\<lambda>q. res_bind (get (cc_input_names cc) i) (\<lambda>name.
       Inr (add_input (Some q) name st)))) [0..<cc_layer_count cc * 2] st"


section \<open>Picking the past of the beams\<close>

definition beams_ok :: "int list \<Rightarrow> nat \<Rightarrow> bool" where
  "beams_ok beam_indices n \<longleftrightarrow> length beam_indices = n \<and> (\<forall>b\<in>set beam_indices. 0 \<le> b \<and> nat b < n)"

lemma beams_okD: "beams_ok idx n \<Longrightarrow> j < n \<Longrightarrow> 0 \<le> idx ! j \<and> nat (idx ! j) < n"
  by (auto simp: beams_ok_def)

lemma pick_blocks_ok:
  assumes "beams_ok idx n" and "length present = n * block" and "length past = n * block"
  shows "pick_blocks block idx present past = Inr (blocks present block (\<lambda>j. nat (idx ! j)) n)"
proof -
  have len: "length idx = n" using assms(1) by (simp add: beams_ok_def)
  have "pick_blocks block idx present past
      = for_res (\<lambda>j d. res_bind (subspan present (nat (idx ! j) * block) block) (copy_into d (j * block))) [0..<n] past"
    unfolding pick_blocks_def len using beams_okD [OF assms(1)] len by (intro for_res_cong refl) auto
  also have "\<dots> = Inr (blocks present block (\<lambda>j. nat (idx ! j)) n @ drop (n * block) past)"
    using assms(2,3) beams_okD [OF assms(1)] by (intro for_res_blocks) (auto intro: row_bound0)
  finally show ?thesis using assms(3) by simp
qed

text \<open>In the combined cache the keys and the values, the two halves of the tensor, are picked alike.\<close>

lemma pick_blocks_combined_ok:
  assumes "beams_ok idx n" and "length present = K + K" and "length past = K + K" and K: "K = n * block"
  shows "pick_blocks_combined K block idx present past
    = Inr (blocks present block (\<lambda>j. nat (idx ! j)) n @ blocks (drop K present) block (\<lambda>j. nat (idx ! j)) n)"
proof -
  let ?g = "\<lambda>j. nat (idx ! j)"
  let ?vals = "drop K present"
  let ?I = "\<lambda>j t. t = (blocks present block ?g j @ drop (j * block) (take K past))
                     @ (blocks ?vals block ?g j @ drop (j * block) (drop K past))"
  have len: "length idx = n" using assms(1) by (simp add: beams_ok_def)
  have g: "?g j * block + block \<le> K" if "j < n" for j unfolding K using beams_okD [OF assms(1) that] by (intro row_bound0) simp
  have pk: "length (blocks present block ?g j) = j * block" if "j \<le> n" for j
  proof (rule length_blocks)
    fix r assume "r < j"
    then show "?g r * block + block \<le> length present" using g [of r] that assms(2) by simp
  qed
  have pv: "length (blocks ?vals block ?g j) = j * block" if "j \<le> n" for j
  proof (rule length_blocks)
    fix r assume "r < j"
    then show "?g r * block + block \<le> length ?vals" using g [of r] that assms(2) by simp
  qed
  have "\<exists>t. pick_blocks_combined K block idx present past = Inr t \<and> ?I n t"
    unfolding pick_blocks_combined_def len
  proof (rule for_res_upt_rule [where I = ?I])
    fix j t assume j: "j < n" and I: "?I j t"
    let ?key = "take block (drop (?g j * block) present)" and ?val = "take block (drop (?g j * block) ?vals)"
    have jb: "j * block + block \<le> K" unfolding K using j by (rule row_bound0)
    have lk: "length ?key = block" and lv: "length ?val = block" using g [OF j] assms(2) by simp_all
    let ?A = "blocks present block ?g j @ drop (j * block) (take K past)"
    let ?B = "blocks ?vals block ?g j @ drop (j * block) (drop K past)"
    have la: "length ?A = K" and lb: "length ?B = K" using pk [of j] pv [of j] j jb assms(3) by simp_all
    have "blit (?A @ ?B) (j * block) ?key = blit ?A (j * block) ?key @ ?B"
      using la jb lk by (intro blit_append_left) simp
    moreover have "blit (blit ?A (j * block) ?key @ ?B) (K + j * block) ?val = blit ?A (j * block) ?key @ blit ?B (j * block) ?val"
      using la jb lk by (intro blit_append_right) simp
    moreover have "blit ?A (j * block) ?key = blocks present block ?g (Suc j) @ drop (Suc j * block) (take K past)"
      unfolding blocks_Suc using blit_next [OF pk lk, of j] j by (simp only: less_imp_le append_assoc)
    moreover have "blit ?B (j * block) ?val = blocks ?vals block ?g (Suc j) @ drop (Suc j * block) (drop K past)"
      unfolding blocks_Suc using blit_next [OF pv lv, of j] j by (simp only: less_imp_le append_assoc)
    ultimately have two: "blit (blit t (j * block) ?key) (K + j * block) ?val
        = (blocks present block ?g (Suc j) @ drop (Suc j * block) (take K past))
          @ (blocks ?vals block ?g (Suc j) @ drop (Suc j * block) (drop K past))"
      using I by simp
    have lt: "length t = K + K" using I la lb by simp
    have "take block (drop (K + ?g j * block) present) = ?val" by (simp add: add.commute)
    then show "\<exists>t'. res_bind (get idx j) (\<lambda>beam_index. res_bind (index_of beam_index) (\<lambda>b.
       res_bind (subspan present (b * block) block) (\<lambda>present_key.
       res_bind (subspan present (K + b * block) block) (\<lambda>present_value.
       res_bind (copy_into t (j * block) present_key) (\<lambda>past1.
       copy_into past1 (K + j * block) present_value))))) = Inr t' \<and> ?I (Suc j) t'"
      using beams_okD [OF assms(1) j] g [OF j] jb lk lv lt two assms(2) len j by simp
  qed (simp add: assms(3))
  then show ?thesis using assms(3) K by simp
qed

text \<open>C36. Picking the past of a layer allocates one tensor whose block for beam \<open>j\<close> is the present block of
  the beam that \<open>j\<close> continues, makes it the past of the layer, releases the tensor it replaces and leaves
  every other tensor as it was.\<close>

theorem KV_Cache_PickPastState_reorders:
  assumes shape: "kv_shape kv = int n # ds" and ds: "\<forall>d\<in>set ds. 0 \<le> d" and idx: "beams_ok beam_indices n"
    and i: "i < length (kv_presents kv)" "i < length (kv_pasts kv)"
    and q: "kv_presents kv ! i = Some q" "ovs m q = Some v" "length (ov_data v) = n * GetElementCount ds"
    and fresh: "mem_ok m" and old: "\<forall>a. kv_pasts kv ! i = Some a \<longrightarrow> a \<noteq> q \<and> a < next_addr m"
  shows "\<exists>past w m'. KV_Cache_PickPastState beam_indices i kv m
        = Inr (kv\<lparr>kv_pasts := (kv_pasts kv)[i := Some past]\<rparr>, m')
     \<and> past = next_addr m \<and> ovs m' past = Some w \<and> ov_shape w = kv_shape kv \<and> length (ov_data w) = length (ov_data v)
     \<and> (\<forall>j < n. take (GetElementCount ds) (drop (j * GetElementCount ds) (ov_data w))
          = take (GetElementCount ds) (drop (nat (beam_indices ! j) * GetElementCount ds) (ov_data v)))
     \<and> mem_ok m' \<and> ovs m' q = Some v
     \<and> (\<forall>a. a \<noteq> past \<longrightarrow> Some a \<noteq> kv_pasts kv ! i \<longrightarrow> ovs m' a = ovs m a)"
proof -
  let ?b = "GetElementCount ds"
  let ?d = "blocks (ov_data v) ?b (\<lambda>j. nat (beam_indices ! j)) n"
  let ?w = "\<lparr>ov_type = score_type (kv_type kv), ov_shape = kv_shape kv, ov_data = ?d\<rparr>"
  let ?m1 = "m\<lparr>next_addr := Suc (next_addr m), ovs := (ovs m)(next_addr m \<mapsto> ?w)\<rparr>"
  have g: "nat (beam_indices ! j) * ?b + ?b \<le> length (ov_data v)" if "j < n" for j
    using row_bound0 [of "nat (beam_indices ! j)" n ?b] beams_okD [OF idx that] q(3) by simp
  have CT: "CreateTensor (int n # ds) type m = Inr (next_addr m, m\<lparr>next_addr := Suc (next_addr m),
     ovs := (ovs m)(next_addr m \<mapsto> \<lparr>ov_type = type, ov_shape = int n # ds, ov_data = replicate (n * ?b) Uninit\<rparr>)\<rparr>)" for type
    using ds by (subst CreateTensor_ok) auto
  have pick: "pick_blocks ?b beam_indices (ov_data v) (replicate (n * ?b) Uninit) = Inr ?d"
    by (rule pick_blocks_ok [OF idx]) (simp_all add: q(3))
  have run: "KV_Cache_PickPastState beam_indices i kv m
      = Inr (kv\<lparr>kv_pasts := (kv_pasts kv)[i := Some (next_addr m)]\<rparr>, release (kv_pasts kv ! i) ?m1)"
    using i q pick by (simp add: KV_Cache_PickPastState_def CT deref_def set_data_def shape)
  have "q < next_addr m" using q(2) fresh by (metis mem_ok_def not_le option.distinct(1))
  moreover have "take ?b (drop (j * ?b) ?d) = take ?b (drop (nat (beam_indices ! j) * ?b) (ov_data v))" if "j < n" for j
    by (rule blocks_row [OF that g])
  ultimately show ?thesis
    using run length_blocks [OF g] q fresh old
    by (cases "kv_pasts kv ! i") (auto simp: mem_ok_def free_def)
qed

definition example_kv :: KV_Cache where
  "example_kv = \<lparr>kv_layer_count = 1, kv_share_buffer = False, kv_shape = [2, 1, 1, 2], kv_type = ONNX_FLOAT,
     kv_empty_past = 7, kv_pasts = [None, None], kv_presents = [Some 0, Some 1], kv_input_names = [],
     kv_output_names = [], kv_input_index = 0, kv_output_index = 0\<rparr>"

theorem KV_Cache_PickPastState_reorders_witness:
  "\<exists>past w m'. KV_Cache_PickPastState [1, 1] 0 example_kv example_mem
        = Inr (example_kv\<lparr>kv_pasts := [Some past, None]\<rparr>, m')
     \<and> ovs m' past = Some w \<and> take 2 (ov_data w) = [SInt 7, SInt 8] \<and> take 2 (drop 2 (ov_data w)) = [SInt 7, SInt 8]"
proof -
  let ?v = "\<lparr>ov_type = ONNX_INT32, ov_shape = [2, 2], ov_data = [SInt 5, SInt 6, SInt 7, SInt (8::int)]\<rparr> :: int OrtValue"
  obtain past w m' where r: "KV_Cache_PickPastState [1, 1] 0 example_kv example_mem
        = Inr (example_kv\<lparr>kv_pasts := (kv_pasts example_kv)[0 := Some past]\<rparr>, m')" "ovs m' past = Some w"
    and rows: "\<forall>j < 2. take (GetElementCount [1, 1, 2]) (drop (j * GetElementCount [1, 1, 2]) (ov_data w))
          = take (GetElementCount [1, 1, 2]) (drop (nat ([1, 1] ! j) * GetElementCount [1, 1, 2]) (ov_data ?v))"
    using KV_Cache_PickPastState_reorders [of example_kv 2 "[1, 1, 2]" "[1, 1]" 0 0 example_mem ?v]
    by (auto simp: example_kv_def example_mem_def mem_ok_def beams_ok_def GetElementCount_def)
  show ?thesis
    using r rows [rule_format, of 0] rows [rule_format, of 1]
    by (auto simp: example_kv_def GetElementCount_def)
qed

end
