(* ===== verification/ModelStates.thy ===== *)
theory ModelStates
  imports LogitsIO KvCache
begin

text \<open>
  The states of the model classes: \<open>src/models/gpt.cpp\<close>, \<open>src/models/decoder_only.cpp\<close>,
  \<open>src/models/whisper.cpp\<close> and \<open>src/models/multi_modal_vision_model.cpp\<close>. A state owns its input and
  output components, registers them in a fixed order, and on every run but the first updates them from the
  tokens the search chose before it runs the session. The sessions are those of the model, the decoder's
  first (the vision model's order is embedding, vision, decoder).
\<close>

section \<open>Decoder-only models and GPT-2\<close>

record 'f DecState =
  ds_state :: State
  ds_mem :: "'f mem"
  ds_input_ids :: InputIDs
  ds_logits :: Logits
  ds_kv :: KV_Cache
  ds_position :: PositionInputs
  ds_extra :: ExtraInputs

definition DecoderOnly_State_new ::
    "'f Model \<Rightarrow> 'f mem \<Rightarrow> int list \<Rightarrow> ('f, addr) GeneratorParams \<Rightarrow> ('f DecState \<times> int list) res" where
  "DecoderOnly_State_new md m seq_lengths p =
     res_bind (InputIDs_new md p m) (\<lambda>(ii, m1).
     res_bind (Logits_new md p m1) (\<lambda>(lg, m2).
     res_bind (KV_Cache_new md p m2) (\<lambda>(kv, m3).
     res_bind (PositionInputs_new md p seq_lengths m3) (\<lambda>(pn, lens, m4).
     let ei = ExtraInputs_new p; (ii1, st1) = InputIDs_Add ii State_new;
         (pn1, st2) = PositionInputs_Add md (pn, st1); (lg1, st3) = Logits_Add md lg st2 in
     res_bind (KV_Cache_Add kv st3) (\<lambda>(kv1, st4).
     res_bind (ExtraInputs_Add p ei st4) (\<lambda>st5.
     Inr (\<lparr>ds_state = st5, ds_mem = m4, ds_input_ids = ii1, ds_logits = lg1, ds_kv = kv1, ds_position = pn1,
           ds_extra = ei\<rparr>, lens)))))))"

definition DecoderOnly_UpdateInputsOutputs ::
    "'f Model \<Rightarrow> int list \<Rightarrow> int list \<Rightarrow> nat \<Rightarrow> 'f DecState \<Rightarrow> 'f DecState res" where
  "DecoderOnly_UpdateInputsOutputs md next_toks beam_indices current_length ds =
     res_bind (InputIDs_Update next_toks (ds_input_ids ds) (ds_state ds, ds_mem ds)) (\<lambda>(ii, io1).
     res_bind (PositionInputs_Update md current_length (ds_position ds) io1) (\<lambda>(pn, io2).
     res_bind (KV_Cache_Update beam_indices current_length (ds_kv ds) io2) (\<lambda>(kv, io3).
     res_bind (Logits_Update (ds_logits ds) io3) (\<lambda>(lg, st, m).
     Inr (ds\<lparr>ds_state := st, ds_mem := m, ds_input_ids := ii, ds_position := pn, ds_kv := kv, ds_logits := lg\<rparr>)))))"

definition DecoderOnly_State_Run ::
    "('f::linorder, 'g, 'y) cxx_scheme \<Rightarrow> (32 word \<Rightarrow> 'f) \<Rightarrow> 'f Model \<Rightarrow> ('f, addr) GeneratorParams \<Rightarrow>
     'f DecState \<Rightarrow> nat \<Rightarrow> int list \<Rightarrow> int list \<Rightarrow> ('f list \<times> 'f DecState) res" where
  "DecoderOnly_State_Run cx of_bits md p ds current_length next_toks next_inds =
     res_bind (if st_first_run (ds_state ds) then Inr ds
               else DecoderOnly_UpdateInputsOutputs md next_toks next_inds current_length ds) (\<lambda>ds1.
     res_bind (get (ii_shape (ds_input_ids ds1)) 0) (\<lambda>n_batch.
     res_bind (get (md_sessions md) 0) (\<lambda>session.
     res_bind (State_Run session (use_cuda_graph p) None n_batch (ds_state ds1, ds_mem ds1)) (\<lambda>(st, m).
     res_bind (Logits_Get cx of_bits md p (ds_logits ds1) m) (\<lambda>(logits, lg, m').
     Inr (logits, ds1\<lparr>ds_state := st, ds_mem := m', ds_logits := lg\<rparr>))))))"

text \<open>GPT-2 differs in its combined cache and in taking the batch size before the update.\<close>

definition Gpt_State_new ::
    "'f Model \<Rightarrow> 'f mem \<Rightarrow> int list \<Rightarrow> ('f, addr) GeneratorParams \<Rightarrow> ('f DecState \<times> int list) res" where
  "Gpt_State_new md m seq_lengths p =
     res_bind (InputIDs_new md p m) (\<lambda>(ii, m1).
     res_bind (Logits_new md p m1) (\<lambda>(lg, m2).
     res_bind (KV_Cache_Combined_new md p m2) (\<lambda>(kv, m3).
     res_bind (PositionInputs_new md p seq_lengths m3) (\<lambda>(pn, lens, m4).
     let ei = ExtraInputs_new p; (ii1, st1) = InputIDs_Add ii State_new;
         (pn1, st2) = PositionInputs_Add md (pn, st1); (lg1, st3) = Logits_Add md lg st2 in
     res_bind (KV_Cache_Combined_Add kv st3) (\<lambda>(kv1, st4).
     res_bind (ExtraInputs_Add p ei st4) (\<lambda>st5.
     Inr (\<lparr>ds_state = st5, ds_mem = m4, ds_input_ids = ii1, ds_logits = lg1, ds_kv = kv1, ds_position = pn1,
           ds_extra = ei\<rparr>, lens)))))))"

definition Gpt_UpdateInputsOutputs ::
    "'f Model \<Rightarrow> int list \<Rightarrow> int list \<Rightarrow> nat \<Rightarrow> 'f DecState \<Rightarrow> 'f DecState res" where
  "Gpt_UpdateInputsOutputs md next_toks beam_indices current_length ds =
     res_bind (InputIDs_Update next_toks (ds_input_ids ds) (ds_state ds, ds_mem ds)) (\<lambda>(ii, io1).
     res_bind (PositionInputs_Update md current_length (ds_position ds) io1) (\<lambda>(pn, io2).
     res_bind (KV_Cache_Combined_Update beam_indices current_length (ds_kv ds) io2) (\<lambda>(kv, io3).
     res_bind (Logits_Update (ds_logits ds) io3) (\<lambda>(lg, st, m).
     Inr (ds\<lparr>ds_state := st, ds_mem := m, ds_input_ids := ii, ds_position := pn, ds_kv := kv, ds_logits := lg\<rparr>)))))"

definition Gpt_State_Run ::
    "('f::linorder, 'g, 'y) cxx_scheme \<Rightarrow> (32 word \<Rightarrow> 'f) \<Rightarrow> 'f Model \<Rightarrow> ('f, addr) GeneratorParams \<Rightarrow>
     'f DecState \<Rightarrow> nat \<Rightarrow> int list \<Rightarrow> int list \<Rightarrow> ('f list \<times> 'f DecState) res" where
  "Gpt_State_Run cx of_bits md p ds current_length next_toks next_inds =
     res_bind (get (ii_shape (ds_input_ids ds)) 0) (\<lambda>n_batch.
     res_bind (if st_first_run (ds_state ds) then Inr ds
               else Gpt_UpdateInputsOutputs md next_toks next_inds current_length ds) (\<lambda>ds1.
     res_bind (get (md_sessions md) 0) (\<lambda>session.
     res_bind (State_Run session (use_cuda_graph p) None n_batch (ds_state ds1, ds_mem ds1)) (\<lambda>(st, m).
     res_bind (Logits_Get cx of_bits md p (ds_logits ds1) m) (\<lambda>(logits, lg, m').
     Inr (logits, ds1\<lparr>ds_state := st, ds_mem := m', ds_logits := lg\<rparr>))))))"

section \<open>Whisper\<close>

datatype RunState = Encoder_Decoder_Init | Decoder_First | Decoder_Next

record 'f WhisperState =
  ws_state :: State
  ws_mem :: "'f mem"
  ws_run_state :: RunState
  ws_decoder_input_ids :: InputIDs
  ws_logits :: Logits
  ws_kv :: KV_Cache
  ws_cross :: Cross_Cache
  ws_extra :: ExtraInputs
  ws_encoder_input_ids :: addr
  ws_encoder_hidden_states :: addr

definition Whisper_State_new ::
    "'f Model \<Rightarrow> 'f mem \<Rightarrow> int list \<Rightarrow> ('f, addr) GeneratorParams \<Rightarrow> ('f WhisperState \<times> int list) res" where
  "Whisper_State_new md m seq_lengths p =
     res_bind (InputIDs_new md p m) (\<lambda>(ii, m1).
     res_bind (Logits_new md p m1) (\<lambda>(lg, m2).
     res_bind (KV_Cache_new md p m2) (\<lambda>(kv, m3).
     res_bind (Cross_Cache_new md p m3) (\<lambda>(cc, m4).
     let ei = ExtraInputs_new p in
     case whisper_input_features p of
       None \<Rightarrow> Inl BadVariantAccess
     | Some features \<Rightarrow>
         res_bind (ExpandInputs (md_device_type md) features (num_beams (search p)) m4) (\<lambda>(enc, m5).
         res_bind (case md_encoder_info md of None \<Rightarrow> Inl NullPointer | Some si \<Rightarrow> Inr si) (\<lambda>enc_info.
         res_bind (GetOutputDataType enc_info ''encoder_hidden_states'') (\<lambda>hidden_type.
         res_bind (get (ii_shape ii) 0) (\<lambda>n.
         res_bind (CreateTensor [n, 1500, kv_heads md * kv_head_size md] hidden_type m5) (\<lambda>(hidden, m6).
         res_bind (for_res (\<lambda>i ls. put ls i (sequence_length p)) [0..<nat n] seq_lengths) (\<lambda>lens.
         let st1 = add_input (Some enc) ''encoder_input_ids'' State_new;
             (ii1, st2) = InputIDs_Add (ii\<lparr>ii_name := ''decoder_input_ids''\<rparr>) st1;
             (lg1, st3) = Logits_Add md lg st2;
             st4 = add_output (Some hidden) ''encoder_hidden_states'' st3 in
         res_bind (KV_Cache_AddEncoder kv st4) (\<lambda>st5.
         res_bind (ExtraInputs_Add p ei st5) (\<lambda>st6.
         res_bind (Cross_Cache_AddOutputs cc st6) (\<lambda>st7.
         Inr (\<lparr>ws_state = st7, ws_mem = m6, ws_run_state = Encoder_Decoder_Init, ws_decoder_input_ids = ii1,
               ws_logits = lg1, ws_kv = kv, ws_cross = cc, ws_extra = ei, ws_encoder_input_ids = enc,
               ws_encoder_hidden_states = hidden\<rparr>, lens))))))))))))))"

definition Whisper_UpdateInputsOutputs ::
    "int list \<Rightarrow> int list \<Rightarrow> nat \<Rightarrow> 'f WhisperState \<Rightarrow> 'f WhisperState res" where
  "Whisper_UpdateInputsOutputs next_toks beam_indices current_length ws =
     res_bind (InputIDs_Update next_toks (ws_decoder_input_ids ws) (ws_state ws, ws_mem ws)) (\<lambda>(ii, io1).
     res_bind (KV_Cache_Update beam_indices current_length (ws_kv ws) io1) (\<lambda>(kv, io2).
     res_bind (Logits_Update (ws_logits ws) io2) (\<lambda>(lg, st, m).
     Inr (ws\<lparr>ws_state := st, ws_mem := m, ws_decoder_input_ids := ii, ws_kv := kv, ws_logits := lg\<rparr>))))"

text \<open>The second run registers the inputs and outputs of the decoder in place of the encoder's.\<close>

definition Whisper_enter_decoder :: "'f Model \<Rightarrow> 'f WhisperState \<Rightarrow> 'f WhisperState res" where
  "Whisper_enter_decoder md ws =
     (let st0 = ClearIO (ws_state ws);
          (ii, st1) = InputIDs_Add ((ws_decoder_input_ids ws)\<lparr>ii_name := di_input_ids (dec_inputs md)\<rparr>) st0;
          (lg, st2) = Logits_Add md (ws_logits ws) st1 in
      res_bind (KV_Cache_Add (ws_kv ws) st2) (\<lambda>(kv, st3).
      res_bind (Cross_Cache_AddInputs (ws_cross ws) st3) (\<lambda>st4.
      Inr (ws\<lparr>ws_state := st4, ws_decoder_input_ids := ii, ws_logits := lg, ws_kv := kv, ws_run_state := Decoder_Next\<rparr>))))"

definition Whisper_run_session ::
    "('f::linorder, 'g, 'y) cxx_scheme \<Rightarrow> (32 word \<Rightarrow> 'f) \<Rightarrow> 'f Model \<Rightarrow> ('f, addr) GeneratorParams \<Rightarrow> nat \<Rightarrow> int \<Rightarrow>
     'f WhisperState \<Rightarrow> ('f list \<times> 'f WhisperState) res" where
  "Whisper_run_session cx of_bits md p which n_batch ws =
     res_bind (get (md_sessions md) which) (\<lambda>session.
     res_bind (State_Run session (use_cuda_graph p) None n_batch (ws_state ws, ws_mem ws)) (\<lambda>(st, m).
     res_bind (Logits_Get cx of_bits md p (ws_logits ws) m) (\<lambda>(logits, lg, m').
     Inr (logits, ws\<lparr>ws_state := st, ws_mem := m', ws_logits := lg\<rparr>))))"

definition Whisper_State_Run ::
    "('f::linorder, 'g, 'y) cxx_scheme \<Rightarrow> (32 word \<Rightarrow> 'f) \<Rightarrow> 'f Model \<Rightarrow> ('f, addr) GeneratorParams \<Rightarrow>
     'f WhisperState \<Rightarrow> nat \<Rightarrow> int list \<Rightarrow> int list \<Rightarrow> ('f list \<times> 'f WhisperState) res" where
  "Whisper_State_Run cx of_bits md p ws current_length next_toks next_inds =
     res_bind (get (ii_shape (ws_decoder_input_ids ws)) 0) (\<lambda>n_batch.
     case ws_run_state ws of
       Encoder_Decoder_Init \<Rightarrow>
         res_bind (Whisper_run_session cx of_bits md p 1 n_batch ws) (\<lambda>(logits, ws1).
         Inr (logits, ws1\<lparr>ws_run_state := Decoder_First\<rparr>))
     | Decoder_First \<Rightarrow>
         res_bind (Whisper_enter_decoder md ws) (\<lambda>ws1.
         res_bind (Whisper_UpdateInputsOutputs next_toks next_inds current_length ws1) (\<lambda>ws2.
         Whisper_run_session cx of_bits md p 0 n_batch ws2))
     | Decoder_Next \<Rightarrow>
         res_bind (Whisper_UpdateInputsOutputs next_toks next_inds current_length ws) (\<lambda>ws1.
         Whisper_run_session cx of_bits md p 0 n_batch ws1))"

section \<open>Models with a vision input\<close>

text \<open>The position of the image tokens, which are negative ids.\<close>

primrec image_position :: "nat \<Rightarrow> int list \<Rightarrow> nat" where
  "image_position i [] = 0"
| "image_position i (x # xs) = (if x < 0 \<and> - 1000000000 < x then i else image_position (Suc i) xs)"

definition Select :: "int list \<Rightarrow> 'f scalar list \<Rightarrow> 'f scalar list \<Rightarrow> int \<Rightarrow> int \<Rightarrow> DeviceType \<Rightarrow> 'f scalar list res" where
  "Select ids hidden_states visual_features num_img_tokens hidden device =
     (let start_pos = s32 (int (image_position 0 ids) * hidden); element_count = s32 (num_img_tokens * hidden);
          hidden_states_element_count = s32 (int (length ids) * hidden) in
      if device \<noteq> CPU then Inl (RuntimeError ''Unsupported device type for Select.'')
      else
        res_bind (index_of start_pos) (\<lambda>start. res_bind (index_of element_count) (\<lambda>n.
        res_bind (index_of hidden_states_element_count) (\<lambda>total.
        res_bind (subspan visual_features 0 n) (\<lambda>source.
        if start + n \<le> total then copy_into hidden_states start source else Inl OutOfBounds)))))"

definition cdiv :: "int \<Rightarrow> int \<Rightarrow> int" where
  "cdiv a b = (if a < 0 then - ((- a) div b) else a div b)"

fun find_tensor :: "string \<Rightarrow> (string \<times> addr) list \<Rightarrow> addr option" where
  "find_tensor name [] = None"
| "find_tensor name (nt # nts) = (if fst nt = name then Some (snd nt) else find_tensor name nts)"

definition GetNumImageTokens :: "(string \<times> addr) list \<Rightarrow> string \<Rightarrow> 'f mem \<Rightarrow> int res" where
  "GetNumImageTokens extra image_sizes_name m =
     (case find_tensor image_sizes_name extra of
        None \<Rightarrow> Inr 0
      | Some q \<Rightarrow>
          res_bind (deref m q) (\<lambda>v.
          if ov_shape v \<noteq> [1, 2] then Inl (RuntimeError ''image_sizes tensor must have 2 elements'')
          else
            res_bind (get (ov_data v) 0) (\<lambda>x0. res_bind (get (ov_data v) 1) (\<lambda>x1.
            res_bind (scalar_int x0) (\<lambda>height. res_bind (scalar_int x1) (\<lambda>width.
            let h = cdiv height 336; w = cdiv width 336 in
            Inr ((h * w + 1) * 144 + 1 + (h + 1) * 12)))))))"

definition GetVisualFeatures :: "SessionInfo \<Rightarrow> string \<Rightarrow> int \<Rightarrow> int \<Rightarrow> 'f mem \<Rightarrow> (addr \<times> 'f mem) res" where
  "GetVisualFeatures si name hidden num_image_tokens m =
     (if \<not> HasOutput si name then Inl (RuntimeError ''Visual features output not found in the model'')
      else res_bind (GetOutputDataType si name) (\<lambda>type.
        if type = ONNX_FLOAT \<or> type = ONNX_FLOAT16 then CreateTensor [1, num_image_tokens, hidden] type m
        else Inl (RuntimeError (''Unsupported data type for visual features: '' @ nat_to_string (onnx_code type)))))"

record EmbeddingState =
  es_state :: State
  es_input_ids :: InputIDs
  es_embeds :: Embeddings

definition EmbeddingState_new :: "'f Model \<Rightarrow> ('f, addr) GeneratorParams \<Rightarrow> 'f mem \<Rightarrow> (EmbeddingState \<times> 'f mem) res" where
  "EmbeddingState_new md p m =
     res_bind (InputIDs_new md p m) (\<lambda>(ii, m1).
     res_bind (Embeddings_new md p Output (em_embeddings (mo_embedding (co_model (md_config md)))) m1) (\<lambda>(em, m2).
     let (ii1, st1) = InputIDs_Add ii State_new; (em1, st2) = Embeddings_Add em st1 in
     Inr (\<lparr>es_state = st2, es_input_ids = ii1, es_embeds = em1\<rparr>, m2)))"

definition EmbeddingState_Update :: "int list \<Rightarrow> EmbeddingState \<times> 'f mem \<Rightarrow> (EmbeddingState \<times> 'f mem) res" where
  "EmbeddingState_Update next_toks = (\<lambda>(es, m).
     res_bind (InputIDs_Update next_toks (es_input_ids es) (es_state es, m)) (\<lambda>(ii, io1).
     res_bind (UpdateSequenceLength (es_embeds es) io1) (\<lambda>(em, st, m1).
     Inr (es\<lparr>es_state := st, es_input_ids := ii, es_embeds := em\<rparr>, m1))))"

definition EmbeddingState_Run :: "'f Model \<Rightarrow> ('f, addr) GeneratorParams \<Rightarrow> EmbeddingState \<times> 'f mem \<Rightarrow> (EmbeddingState \<times> 'f mem) res" where
  "EmbeddingState_Run md p = (\<lambda>(es, m).
     res_bind (get (ii_shape (es_input_ids es)) 0) (\<lambda>n_batch.
     res_bind (get (md_sessions md) 0) (\<lambda>session.
     res_bind (State_Run session (use_cuda_graph p) None n_batch (es_state es, m)) (\<lambda>(st, m1).
     Inr (es\<lparr>es_state := st\<rparr>, m1)))))"

record VisionState =
  vs_state :: State
  vs_features :: uptr
  vs_num_image_tokens :: int

definition VisionState_new :: "'f Model \<Rightarrow> ('f, addr) GeneratorParams \<Rightarrow> 'f mem \<Rightarrow> (VisionState \<times> 'f mem) res" where
  "VisionState_new md p m =
     (let vision = mo_vision (co_model (md_config md)) in
      res_bind (ExtraInputs_Add p (ExtraInputs_new p) State_new) (\<lambda>st.
      res_bind (GetNumImageTokens (extra_inputs p) (vi_image_sizes vision) m) (\<lambda>n.
      let num = s32 n in
      if 0 < num then
        res_bind (GetVisualFeatures (md_session_info md) (vi_visual_features vision) (hidden_size p) num m) (\<lambda>(q, m1).
        Inr (\<lparr>vs_state = add_output (Some q) (vi_visual_features vision) st, vs_features = Some q,
              vs_num_image_tokens = num\<rparr>, m1))
      else Inr (\<lparr>vs_state = st, vs_features = None, vs_num_image_tokens = num\<rparr>, m))))"

definition VisionState_Run :: "'f Model \<Rightarrow> ('f, addr) GeneratorParams \<Rightarrow> VisionState \<times> 'f mem \<Rightarrow> (VisionState \<times> 'f mem) res" where
  "VisionState_Run md p = (\<lambda>(vs, m).
     res_bind (get (md_sessions md) 1) (\<lambda>session.
     res_bind (State_Run session (use_cuda_graph p) None 1 (vs_state vs, m)) (\<lambda>(st, m1).
     Inr (vs\<lparr>vs_state := st\<rparr>, m1))))"

record DecoderState =
  dc_state :: State
  dc_embeds :: Embeddings
  dc_position :: PositionInputs
  dc_kv :: KV_Cache
  dc_logits :: Logits

definition DecoderState_new ::
    "'f Model \<Rightarrow> int list \<Rightarrow> ('f, addr) GeneratorParams \<Rightarrow> 'f mem \<Rightarrow> (DecoderState \<times> int list \<times> 'f mem) res" where
  "DecoderState_new md seq_lengths p m =
     res_bind (Embeddings_new md p Input (di_embeddings (dec_inputs md)) m) (\<lambda>(em, m1).
     res_bind (PositionInputs_new md p seq_lengths m1) (\<lambda>(pn, lens, m2).
     res_bind (KV_Cache_new md p m2) (\<lambda>(kv, m3).
     res_bind (Logits_new md p m3) (\<lambda>(lg, m4).
     let (em1, st1) = Embeddings_Add em State_new; (pn1, st2) = PositionInputs_Add md (pn, st1);
         (lg1, st3) = Logits_Add md lg st2 in
     res_bind (KV_Cache_Add kv st3) (\<lambda>(kv1, st4).
     Inr (\<lparr>dc_state = st4, dc_embeds = em1, dc_position = pn1, dc_kv = kv1, dc_logits = lg1\<rparr>, lens, m4))))))"

definition DecoderState_Update :: "'f Model \<Rightarrow> nat \<Rightarrow> int list \<Rightarrow> DecoderState \<times> 'f mem \<Rightarrow> (DecoderState \<times> 'f mem) res" where
  "DecoderState_Update md current_length beam_indices = (\<lambda>(dc, m).
     res_bind (PositionInputs_Update md current_length (dc_position dc) (dc_state dc, m)) (\<lambda>(pn, io1).
     res_bind (KV_Cache_Update beam_indices current_length (dc_kv dc) io1) (\<lambda>(kv, io2).
     res_bind (Logits_Update (dc_logits dc) io2) (\<lambda>(lg, st, m1).
     Inr (dc\<lparr>dc_state := st, dc_position := pn, dc_kv := kv, dc_logits := lg\<rparr>, m1)))))"

definition DecoderState_Run ::
    "('f::linorder, 'g, 'y) cxx_scheme \<Rightarrow> (32 word \<Rightarrow> 'f) \<Rightarrow> 'f Model \<Rightarrow> ('f, addr) GeneratorParams \<Rightarrow>
     DecoderState \<times> 'f mem \<Rightarrow> ('f list \<times> DecoderState \<times> 'f mem) res" where
  "DecoderState_Run cx of_bits md p = (\<lambda>(dc, m).
     res_bind (get (em_shape (dc_embeds dc)) 0) (\<lambda>n_batch.
     res_bind (get (md_sessions md) 2) (\<lambda>session.
     res_bind (State_Run session (use_cuda_graph p) None n_batch (dc_state dc, m)) (\<lambda>(st, m1).
     res_bind (Logits_Get cx of_bits md p (dc_logits dc) m1) (\<lambda>(logits, lg, m2).
     Inr (logits, dc\<lparr>dc_state := st, dc_logits := lg\<rparr>, m2))))))"

record 'f PipelineState =
  pl_mem :: "'f mem"
  pl_embedding :: EmbeddingState
  pl_vision :: "VisionState option"
  pl_decoder :: DecoderState
  pl_is_prompt :: bool

definition MultiModalPipelineState_new ::
    "'f Model \<Rightarrow> 'f mem \<Rightarrow> int list \<Rightarrow> ('f, addr) GeneratorParams \<Rightarrow> ('f PipelineState \<times> int list) res" where
  "MultiModalPipelineState_new md m seq_lengths p =
     res_bind (EmbeddingState_new md p m) (\<lambda>(es, m1).
     res_bind (VisionState_new md p m1) (\<lambda>(vs, m2).
     res_bind (DecoderState_new md seq_lengths p m2) (\<lambda>(dc, lens, m3).
     Inr (\<lparr>pl_mem = m3, pl_embedding = es, pl_vision = Some vs, pl_decoder = dc, pl_is_prompt = True\<rparr>, lens))))"

text \<open>The prompt: the embeddings, with the visual features in place of the image tokens.\<close>

definition pipeline_select ::
    "'f Model \<Rightarrow> ('f, addr) GeneratorParams \<Rightarrow> EmbeddingState \<Rightarrow> VisionState \<Rightarrow> 'f mem \<Rightarrow> (VisionState \<times> 'f mem) res" where
  "pipeline_select md p es vs m =
     (if 0 < vs_num_image_tokens vs then
        res_bind (VisionState_Run md p (vs, m)) (\<lambda>(vs1, m1).
        case em_value (es_embeds es) of
          None \<Rightarrow> Inl NullPointer
        | Some e \<Rightarrow>
            res_bind (deref m1 e) (\<lambda>hidden.
            res_bind (read_ptr m1 (vs_features vs1)) (\<lambda>features.
            res_bind (Select (input_ids p) (ov_data hidden) (ov_data features) (vs_num_image_tokens vs1) (hidden_size p)
                (device_type p)) (\<lambda>d.
            res_bind (set_data e d m1) (\<lambda>m2. Inr (vs1, m2))))))
      else Inr (vs, m))"

definition MultiModalPipelineState_Run ::
    "('f::linorder, 'g, 'y) cxx_scheme \<Rightarrow> (32 word \<Rightarrow> 'f) \<Rightarrow> 'f Model \<Rightarrow> ('f, addr) GeneratorParams \<Rightarrow>
     'f PipelineState \<Rightarrow> nat \<Rightarrow> int list \<Rightarrow> int list \<Rightarrow> ('f list \<times> 'f PipelineState) res" where
  "MultiModalPipelineState_Run cx of_bits md p pl current_length next_toks next_inds =
     (if pl_is_prompt pl then
        res_bind (EmbeddingState_Run md p (pl_embedding pl, pl_mem pl)) (\<lambda>(es, m1).
        res_bind (case pl_vision pl of None \<Rightarrow> Inl NullPointer | Some vs \<Rightarrow> pipeline_select md p es vs m1) (\<lambda>(vs, m2).
        res_bind (ReuseEmbeddingsBuffer (dc_embeds (pl_decoder pl)) (dc_state (pl_decoder pl)) (es_embeds es) (es_state es)) (\<lambda>dst.
        res_bind (DecoderState_Run cx of_bits md p ((pl_decoder pl)\<lparr>dc_state := dst\<rparr>, m2)) (\<lambda>(logits, dc, m3).
        Inr (logits, pl\<lparr>pl_mem := release (vs_features vs) m3, pl_embedding := es, pl_vision := None, pl_decoder := dc,
             pl_is_prompt := False\<rparr>)))))
      else
        res_bind (EmbeddingState_Update next_toks (pl_embedding pl, pl_mem pl)) (\<lambda>(es, m1).
        res_bind (DecoderState_Update md current_length next_inds (pl_decoder pl, m1)) (\<lambda>(dc, m2).
        res_bind (EmbeddingState_Run md p (es, m2)) (\<lambda>(es1, m3).
        res_bind (ReuseEmbeddingsBuffer (dc_embeds dc) (dc_state dc) (es_embeds es1) (es_state es1)) (\<lambda>dst.
        res_bind (DecoderState_Run cx of_bits md p (dc\<lparr>dc_state := dst\<rparr>, m3)) (\<lambda>(logits, dc1, m4).
        Inr (logits, pl\<lparr>pl_mem := m4, pl_embedding := es1, pl_decoder := dc1\<rparr>)))))))"

end
