(* ===== verification/Sequences.thy ===== *)
theory Sequences
  imports Prelude
begin

text \<open>
  \<open>src/sequences.h\<close>, \<open>src/sequences.cpp\<close>: the token store of a search. One row of \<open>max_length\<close>
  ids per (batch entry, beam); the first \<open>current_length\<close> ids of a row are its sequence. The two
  spans \<open>sequences_\<close> and \<open>sequences_next_\<close> are the two disjoint halves of one buffer and are
  modelled as two lists, which \<open>std::swap\<close> exchanges.
\<close>

record Sequences =
  sq_data :: "int list"
  sq_next :: "int list"
  sq_batch_beam_size :: nat
  sq_max_length :: nat
  sq_current_length :: nat

definition Sequences_new :: "int list \<Rightarrow> nat \<Rightarrow> nat \<Rightarrow> nat \<Rightarrow> Sequences res" where
  "Sequences_new input_sequences batch_size beam_size max_length =
     (if batch_size = 0 then Inl DivisionByZero else
      let current_length = length input_sequences div batch_size;
          sequences_size = batch_size * beam_size * max_length
      in res_bind
           (for_res (\<lambda>batch. for_res (\<lambda>beam. for_res (\<lambda>j d.
                res_bind (get input_sequences (batch * current_length + j))
                         (put d ((batch * beam_size + beam) * max_length + j)))
              [0..<current_length]) [0..<beam_size]) [0..<batch_size] (replicate sequences_size 0))
           (\<lambda>d. Inr \<lparr>sq_data = d,
                     sq_next = (if beam_size = 1 then [] else replicate sequences_size 0),
                     sq_batch_beam_size = batch_size * beam_size,
                     sq_max_length = max_length,
                     sq_current_length = current_length\<rparr>))"

definition GetSequence :: "Sequences \<Rightarrow> nat \<Rightarrow> int list res" where
  "GetSequence s batch_beam_index =
     subspan (sq_data s) (batch_beam_index * sq_max_length s) (sq_current_length s)"

definition GetSequences :: "Sequences \<Rightarrow> int list" where
  "GetSequences s = sq_data s"

definition GetSequenceLength :: "Sequences \<Rightarrow> nat" where
  "GetSequenceLength s = sq_current_length s"

text \<open>Beam search: shuffle the rows by \<open>batch_beam_indices\<close>, append, swap the buffers.\<close>

definition AppendNextTokenToSequences_beam ::
    "int list \<Rightarrow> int list \<Rightarrow> Sequences \<Rightarrow> Sequences res" where
  "AppendNextTokenToSequences_beam batch_beam_indices batch_beam_next_tokens s =
     res_bind
       (for_res (\<lambda>i nxt.
          res_bind (get batch_beam_indices i) (\<lambda>bi.
          res_bind (index_of bi) (\<lambda>batch_beam_index.
          res_bind (subspan (sq_data s) (batch_beam_index * sq_max_length s) (sq_current_length s)) (\<lambda>source.
          res_bind (copy_into nxt (i * sq_max_length s) source) (\<lambda>nxt1.
          res_bind (get batch_beam_next_tokens i) (\<lambda>token.
          put nxt1 (i * sq_max_length s + sq_current_length s) token))))))
        [0..<sq_batch_beam_size s] (sq_next s))
       (\<lambda>nxt. Inr (s\<lparr>sq_current_length := Suc (sq_current_length s),
                      sq_data := nxt, sq_next := sq_data s\<rparr>))"

text \<open>Greedy search: append in place.\<close>

definition AppendNextTokenToSequences :: "int list \<Rightarrow> Sequences \<Rightarrow> Sequences res" where
  "AppendNextTokenToSequences next_tokens s =
     res_bind
       (for_res (\<lambda>i d. res_bind (get next_tokens i)
                        (put d (i * sq_max_length s + sq_current_length s)))
        [0..<sq_batch_beam_size s] (sq_data s))
       (\<lambda>d. Inr (s\<lparr>sq_data := d, sq_current_length := Suc (sq_current_length s)\<rparr>))"

section \<open>Abstraction and invariant\<close>

text \<open>The sequence a row holds, and the whole store as a list of sequences.\<close>

definition seq_view :: "Sequences \<Rightarrow> nat \<Rightarrow> int list" where
  "seq_view s i = take (sq_current_length s) (drop (i * sq_max_length s) (sq_data s))"

definition seq_abs :: "Sequences \<Rightarrow> int list list" where
  "seq_abs s = map (seq_view s) [0..<sq_batch_beam_size s]"

definition seq_inv :: "Sequences \<Rightarrow> bool" where
  "seq_inv s \<longleftrightarrow> length (sq_data s) = sq_batch_beam_size s * sq_max_length s
     \<and> sq_current_length s \<le> sq_max_length s"

definition seq_inv_beam :: "Sequences \<Rightarrow> bool" where
  "seq_inv_beam s \<longleftrightarrow> seq_inv s \<and> length (sq_next s) = sq_batch_beam_size s * sq_max_length s"

lemma length_seq_abs [simp]: "length (seq_abs s) = sq_batch_beam_size s"
  by (simp add: seq_abs_def)

lemma nth_seq_abs [simp]: "i < sq_batch_beam_size s \<Longrightarrow> seq_abs s ! i = seq_view s i"
  by (simp add: seq_abs_def)

lemma length_seq_view [simp]:
  "seq_inv s \<Longrightarrow> i < sq_batch_beam_size s \<Longrightarrow> length (seq_view s i) = sq_current_length s"
  using row_bound [of i "sq_batch_beam_size s" "sq_current_length s" "sq_max_length s"]
  by (simp add: seq_view_def seq_inv_def)

lemma GetSequence_view [simp]:
  "seq_inv s \<Longrightarrow> i < sq_batch_beam_size s \<Longrightarrow> GetSequence s i = Inr (seq_view s i)"
  using row_bound [of i "sq_batch_beam_size s" "sq_current_length s" "sq_max_length s"]
  by (simp add: GetSequence_def seq_view_def seq_inv_def)

section \<open>Writing one row at a time\<close>

text \<open>Writing the rows \<open>0, \<dots>, h - 1\<close> in turn, each within its own stripe of width \<open>w\<close>.\<close>

lemma for_res_rows:
  assumes len: "length d = h * w" and n: "n \<le> w"
    and step: "\<And>i t. i < h \<Longrightarrow> length t = h * w \<Longrightarrow>
      (\<forall>r\<ge>i. r < h \<longrightarrow> take w (drop (r * w) t) = take w (drop (r * w) d)) \<Longrightarrow>
      length (rows i) = n \<and> body i t = Inr (blit t (i * w) (rows i))"
  shows "\<exists>t. for_res body [0..<h] d = Inr t \<and> length t = h * w
     \<and> (\<forall>r<h. take n (drop (r * w) t) = rows r)"
proof -
  let ?I = "\<lambda>i t. length t = h * w \<and> (\<forall>r<i. take n (drop (r * w) t) = rows r)
     \<and> (\<forall>r\<ge>i. r < h \<longrightarrow> take w (drop (r * w) t) = take w (drop (r * w) d))"
  have "\<exists>t. for_res body [0..<h] d = Inr t \<and> ?I h t"
  proof (rule for_res_upt_rule [where I = ?I])
    show "?I 0 d" using len by simp
  next
    fix i t
    assume i: "i < h" and I: "?I i t"
    have r: "length (rows i) = n" and b: "body i t = Inr (blit t (i * w) (rows i))"
      using step [OF i, of t] I by auto
    have bd: "i * w + length (rows i) \<le> length t"
      using row_bound [OF i n] r I by simp
    have "take n (drop (q * w) (blit t (i * w) (rows i))) = rows q" if "q < Suc i" for q
    proof (cases "q = i")
      case True
      then show ?thesis using bd r by (simp add: slice_blit_same)
    next
      case False
      then have "take n (drop (q * w) (blit t (i * w) (rows i))) = take n (drop (q * w) t)"
        using slice_blit_other [OF bd] row_disjoint [of q i n w n] n r by simp
      then show ?thesis using I False that by simp
    qed
    moreover have "take w (drop (q * w) (blit t (i * w) (rows i))) = take w (drop (q * w) d)"
      if "Suc i \<le> q" "q < h" for q
      using slice_blit_other [OF bd, of "q * w" w] row_disjoint [of q i w w n] n r I that by simp
    ultimately show "\<exists>t'. body i t = Inr t' \<and> ?I (Suc i) t'"
      using b bd I by auto
  qed
  then show ?thesis by blast
qed

section \<open>The constructor expands the input over the beams\<close>

lemma Sequences_new_loop:
  assumes cur: "current_length * batch_size = length input" "current_length \<le> max_length"
  shows "\<exists>d. for_res (\<lambda>batch. for_res (\<lambda>beam. for_res (\<lambda>j d.
                res_bind (get input (batch * current_length + j))
                         (put d ((batch * beam_size + beam) * max_length + j)))
              [0..<current_length]) [0..<beam_size]) [0..<batch_size]
              (replicate (batch_size * beam_size * max_length) (0::int)) = Inr d
     \<and> length d = batch_size * beam_size * max_length
     \<and> (\<forall>r<batch_size * beam_size. take current_length (drop (r * max_length) d) =
           take current_length (drop (r div beam_size * current_length) input))"
    (is "\<exists>d. ?nested = Inr d \<and> _")
proof -
  let ?body = "\<lambda>r. for_res (\<lambda>j d. res_bind (get input (r div beam_size * current_length + j))
                 (put d (r * max_length + j))) [0..<current_length]"
  let ?init = "replicate (batch_size * beam_size * max_length) (0::int)"
  have nested: "?nested = for_res ?body [0..<batch_size * beam_size] ?init"
    unfolding for_res_flatten [symmetric] by (intro for_res_cong refl) auto
  have "\<exists>d. for_res ?body [0..<batch_size * beam_size] ?init = Inr d
      \<and> length d = batch_size * beam_size * max_length
      \<and> (\<forall>r<batch_size * beam_size. take current_length (drop (r * max_length) d) =
             take current_length (drop (r div beam_size * current_length) input))"
  proof (rule for_res_rows)
    fix i and t :: "int list"
    assume i: "i < batch_size * beam_size"
      and t: "length t = batch_size * beam_size * max_length"
    have "i div beam_size < batch_size"
      using i by (simp add: less_mult_imp_div_less)
    then have src: "i div beam_size * current_length + current_length \<le> length input"
      using row_bound [of "i div beam_size" batch_size current_length current_length] cur(1)
      by (simp add: mult.commute)
    moreover have "i * max_length + current_length \<le> length t"
      using row_bound [OF i cur(2)] t by simp
    ultimately show "length (take current_length (drop (i div beam_size * current_length) input))
          = current_length \<and> ?body i t =
        Inr (blit t (i * max_length) (take current_length (drop (i div beam_size * current_length) input)))"
      by (auto simp: for_res_copy)
  qed (use cur in auto)
  then show ?thesis by (simp only: nested)
qed

lemma Sequences_new_ok:
  assumes "batch_size > 0" and "length input = n * batch_size" and "n \<le> max_length"
  shows "\<exists>s. Sequences_new input batch_size beam_size max_length = Inr s \<and> seq_inv s
     \<and> (beam_size \<noteq> 1 \<longrightarrow> seq_inv_beam s)
     \<and> sq_batch_beam_size s = batch_size * beam_size \<and> sq_max_length s = max_length
     \<and> GetSequenceLength s = n
     \<and> (\<forall>r<batch_size * beam_size. GetSequence s r =
           Inr (take n (drop (r div beam_size * n) input)))"
proof -
  have n: "length input div batch_size = n" using assms by simp
  obtain d where d: "for_res (\<lambda>batch. for_res (\<lambda>beam. for_res (\<lambda>j d.
                res_bind (get input (batch * n + j))
                         (put d ((batch * beam_size + beam) * max_length + j)))
              [0..<n]) [0..<beam_size]) [0..<batch_size]
              (replicate (batch_size * beam_size * max_length) 0) = Inr d"
    and len: "length d = batch_size * beam_size * max_length"
    and rows: "\<forall>r<batch_size * beam_size. take n (drop (r * max_length) d) =
           take n (drop (r div beam_size * n) input)"
    using Sequences_new_loop [of n batch_size input max_length beam_size] assms by auto
  let ?s = "\<lparr>sq_data = d, sq_next = (if beam_size = 1 then [] else
              replicate (batch_size * beam_size * max_length) 0),
             sq_batch_beam_size = batch_size * beam_size, sq_max_length = max_length,
             sq_current_length = n\<rparr>"
  have "Sequences_new input batch_size beam_size max_length = Inr ?s"
    using assms(1) n d by (simp add: Sequences_new_def)
  moreover have inv: "seq_inv ?s" using len assms(3) by (simp add: seq_inv_def)
  moreover have "GetSequence ?s r = Inr (take n (drop (r div beam_size * n) input))"
    if "r < batch_size * beam_size" for r
    using GetSequence_view [OF inv, of r] that rows by (simp add: seq_view_def)
  ultimately show ?thesis
    by (intro exI [of _ ?s]) (auto simp: seq_inv_beam_def seq_inv_def GetSequenceLength_def)
qed

text \<open>C8. The constructor stores every prompt row once per beam: for an input of \<open>batch_size\<close>
  rows of \<open>n\<close> ids with \<open>n \<le> max_length\<close>, construction succeeds without an out-of-range access,
  the store satisfies its invariant (with the second buffer present exactly for a beam size other
  than one), and sequence \<open>r\<close> is prompt row \<open>r div beam_size\<close>.\<close>

theorem Sequences_new_correct:
  assumes "batch_size > 0" and "length input = n * batch_size" and "n \<le> max_length"
  shows "\<exists>s. Sequences_new input batch_size beam_size max_length = Inr s \<and> seq_inv s
     \<and> (beam_size \<noteq> 1 \<longrightarrow> seq_inv_beam s)
     \<and> sq_batch_beam_size s = batch_size * beam_size \<and> sq_max_length s = max_length
     \<and> GetSequenceLength s = n
     \<and> (\<forall>r<batch_size * beam_size. GetSequence s r =
           Inr (take n (drop (r div beam_size * n) input)))"
  using assms by (rule Sequences_new_ok)

theorem Sequences_new_correct_witness:
  "\<exists>s. Sequences_new [11, 12, 21, 22] 2 2 3 = Inr s \<and> GetSequence s 3 = Inr [21, 22]"
  using Sequences_new_correct [of 2 "[11, 12, 21, 22]" 2 3 2] by auto

section \<open>Appending tokens\<close>

lemma append_greedy_loop:
  assumes inv: "seq_inv s" and room: "sq_current_length s < sq_max_length s"
    and toks: "length toks = sq_batch_beam_size s"
  shows "\<exists>d. for_res (\<lambda>i d. res_bind (get toks i) (put d (i * sq_max_length s + sq_current_length s)))
           [0..<sq_batch_beam_size s] (sq_data s) = Inr d
     \<and> length d = sq_batch_beam_size s * sq_max_length s
     \<and> (\<forall>r < sq_batch_beam_size s. take (Suc (sq_current_length s)) (drop (r * sq_max_length s) d) =
           seq_view s r @ [toks ! r])"
proof (rule for_res_rows)
  fix i and t :: "int list"
  assume i: "i < sq_batch_beam_size s" and t: "length t = sq_batch_beam_size s * sq_max_length s"
    and same: "\<forall>r\<ge>i. r < sq_batch_beam_size s \<longrightarrow>
      take (sq_max_length s) (drop (r * sq_max_length s) t) =
      take (sq_max_length s) (drop (r * sq_max_length s) (sq_data s))"
  let ?o = "i * sq_max_length s" and ?n = "sq_current_length s"
  have bd: "?o + Suc ?n \<le> length t" using row_bound [OF i Suc_leI [OF room]] t by simp
  have "take ?n (drop ?o t) = take ?n (take (sq_max_length s) (drop ?o t))"
    using room by (simp add: min_def)
  also have "\<dots> = seq_view s i"
    using same i room by (simp add: seq_view_def min_def)
  finally have v: "take ?n (drop ?o t) = seq_view s i" .
  have "t = blit t ?o (take ?n (drop ?o t))"
    using bd by (simp add: blit_def flip: add.commute [of ?n] drop_drop)
  then have "t[?o + ?n := toks ! i] = blit t ?o (seq_view s i @ [toks ! i])"
    using blit_snoc [of ?o "seq_view s i" t "toks ! i"] bd v length_seq_view [OF inv i] by simp
  then show "length (seq_view s i @ [toks ! i]) = Suc ?n \<and>
      res_bind (get toks i) (put t (?o + ?n)) = Inr (blit t ?o (seq_view s i @ [toks ! i]))"
    using inv i toks bd by simp
qed (use assms in \<open>auto simp: seq_inv_def\<close>)

lemma AppendNextTokenToSequences_step:
  assumes "seq_inv s" and "sq_current_length s < sq_max_length s"
    and "length next_tokens = sq_batch_beam_size s"
  shows "\<exists>s'. AppendNextTokenToSequences next_tokens s = Inr s' \<and> seq_inv s'
     \<and> sq_batch_beam_size s' = sq_batch_beam_size s \<and> sq_max_length s' = sq_max_length s
     \<and> GetSequenceLength s' = Suc (GetSequenceLength s) \<and> sq_next s' = sq_next s
     \<and> seq_abs s' = map2 (\<lambda>row token. row @ [token]) (seq_abs s) next_tokens"
proof -
  obtain d where d: "for_res (\<lambda>i d. res_bind (get next_tokens i)
            (put d (i * sq_max_length s + sq_current_length s)))
           [0..<sq_batch_beam_size s] (sq_data s) = Inr d"
    "length d = sq_batch_beam_size s * sq_max_length s"
    "\<forall>r < sq_batch_beam_size s. take (Suc (sq_current_length s)) (drop (r * sq_max_length s) d) =
           seq_view s r @ [next_tokens ! r]"
    using append_greedy_loop [OF assms] by blast
  let ?s = "s\<lparr>sq_data := d, sq_current_length := Suc (sq_current_length s)\<rparr>"
  have "seq_abs ?s = map2 (\<lambda>row token. row @ [token]) (seq_abs s) next_tokens"
    using d(3) assms(3) by (intro nth_equalityI) (simp_all add: seq_view_def)
  then show ?thesis
    using d assms(1,2) by (simp add: AppendNextTokenToSequences_def seq_inv_def GetSequenceLength_def)
qed

text \<open>C9. A greedy append extends every sequence by its own token: while there is room, it never
  leaves the buffer, keeps the invariant and refines, on the abstract store, the pointwise
  \<open>row @ [token]\<close>.\<close>

theorem AppendNextTokenToSequences_refines:
  assumes "seq_inv s" and "sq_current_length s < sq_max_length s"
    and "length next_tokens = sq_batch_beam_size s"
  shows "\<exists>s'. AppendNextTokenToSequences next_tokens s = Inr s' \<and> seq_inv s'
     \<and> sq_batch_beam_size s' = sq_batch_beam_size s \<and> sq_max_length s' = sq_max_length s
     \<and> GetSequenceLength s' = Suc (GetSequenceLength s) \<and> sq_next s' = sq_next s
     \<and> seq_abs s' = map2 (\<lambda>row token. row @ [token]) (seq_abs s) next_tokens"
  using assms by (rule AppendNextTokenToSequences_step)

theorem AppendNextTokenToSequences_refines_witness:
  "\<exists>s'. AppendNextTokenToSequences [7, 8]
      \<lparr>sq_data = [1, 0, 2, 0], sq_next = [], sq_batch_beam_size = 2, sq_max_length = 2,
       sq_current_length = 1\<rparr> = Inr s' \<and> seq_abs s' = [[1, 7], [2, 8]]"
  using AppendNextTokenToSequences_refines
    [of "\<lparr>sq_data = [1, 0, 2, 0], sq_next = [], sq_batch_beam_size = 2, sq_max_length = 2,
          sq_current_length = 1\<rparr>" "[7, 8]"]
  by (auto simp: seq_inv_def seq_abs_def seq_view_def numeral_2_eq_2)

lemma append_beam_loop:
  assumes inv: "seq_inv_beam s" and room: "sq_current_length s < sq_max_length s"
    and toks: "length toks = sq_batch_beam_size s" and idx: "length idxs = sq_batch_beam_size s"
    and rng: "\<forall>i\<in>set idxs. 0 \<le> i \<and> i < int (sq_batch_beam_size s)"
  shows "\<exists>d. for_res (\<lambda>i nxt.
          res_bind (get idxs i) (\<lambda>bi.
          res_bind (index_of bi) (\<lambda>batch_beam_index.
          res_bind (subspan (sq_data s) (batch_beam_index * sq_max_length s) (sq_current_length s)) (\<lambda>source.
          res_bind (copy_into nxt (i * sq_max_length s) source) (\<lambda>nxt1.
          res_bind (get toks i) (\<lambda>token.
          put nxt1 (i * sq_max_length s + sq_current_length s) token))))))
        [0..<sq_batch_beam_size s] (sq_next s) = Inr d
     \<and> length d = sq_batch_beam_size s * sq_max_length s
     \<and> (\<forall>r < sq_batch_beam_size s. take (Suc (sq_current_length s)) (drop (r * sq_max_length s) d) =
           seq_view s (nat (idxs ! r)) @ [toks ! r])"
proof (rule for_res_rows)
  fix i and t :: "int list"
  assume i: "i < sq_batch_beam_size s" and t: "length t = sq_batch_beam_size s * sq_max_length s"
  let ?o = "i * sq_max_length s" and ?n = "sq_current_length s" and ?k = "nat (idxs ! i)"
  have sinv: "seq_inv s" using inv by (simp add: seq_inv_beam_def)
  have ge: "0 \<le> idxs ! i" and k: "?k < sq_batch_beam_size s"
    using rng i idx by (auto simp: all_set_conv_all_nth)
  have bd: "?o + Suc ?n \<le> length t" using row_bound [OF i Suc_leI [OF room]] t by simp
  have len: "length (seq_view s ?k) = ?n" using sinv k by simp
  have src: "subspan (sq_data s) (?k * sq_max_length s) ?n = Inr (seq_view s ?k)"
    using GetSequence_view [OF sinv k] by (simp add: GetSequence_def)
  have "(blit t ?o (seq_view s ?k))[?o + ?n := toks ! i] = blit t ?o (seq_view s ?k @ [toks ! i])"
    using blit_snoc [of ?o "seq_view s ?k" t "toks ! i"] bd len by simp
  then show "length (seq_view s ?k @ [toks ! i]) = Suc ?n \<and>
      res_bind (get idxs i) (\<lambda>bi.
          res_bind (index_of bi) (\<lambda>batch_beam_index.
          res_bind (subspan (sq_data s) (batch_beam_index * sq_max_length s) ?n) (\<lambda>source.
          res_bind (copy_into t ?o source) (\<lambda>nxt1.
          res_bind (get toks i) (\<lambda>token. put nxt1 (?o + ?n) token))))) =
      Inr (blit t ?o (seq_view s ?k @ [toks ! i]))"
    using i idx toks ge src bd len by simp
qed (use assms in \<open>auto simp: seq_inv_beam_def seq_inv_def\<close>)

lemma AppendNextTokenToSequences_beam_step:
  assumes "seq_inv_beam s" and "sq_current_length s < sq_max_length s"
    and "length batch_beam_next_tokens = sq_batch_beam_size s"
    and "length batch_beam_indices = sq_batch_beam_size s"
    and "\<forall>i\<in>set batch_beam_indices. 0 \<le> i \<and> i < int (sq_batch_beam_size s)"
  shows "\<exists>s'. AppendNextTokenToSequences_beam batch_beam_indices batch_beam_next_tokens s = Inr s'
     \<and> seq_inv_beam s'
     \<and> sq_batch_beam_size s' = sq_batch_beam_size s \<and> sq_max_length s' = sq_max_length s
     \<and> GetSequenceLength s' = Suc (GetSequenceLength s)
     \<and> seq_abs s' = map2 (\<lambda>i token. seq_abs s ! nat i @ [token])
                       batch_beam_indices batch_beam_next_tokens"
proof -
  obtain d where d: "for_res (\<lambda>i nxt.
          res_bind (get batch_beam_indices i) (\<lambda>bi.
          res_bind (index_of bi) (\<lambda>batch_beam_index.
          res_bind (subspan (sq_data s) (batch_beam_index * sq_max_length s) (sq_current_length s)) (\<lambda>source.
          res_bind (copy_into nxt (i * sq_max_length s) source) (\<lambda>nxt1.
          res_bind (get batch_beam_next_tokens i) (\<lambda>token.
          put nxt1 (i * sq_max_length s + sq_current_length s) token))))))
        [0..<sq_batch_beam_size s] (sq_next s) = Inr d"
    "length d = sq_batch_beam_size s * sq_max_length s"
    "\<forall>r < sq_batch_beam_size s. take (Suc (sq_current_length s)) (drop (r * sq_max_length s) d) =
           seq_view s (nat (batch_beam_indices ! r)) @ [batch_beam_next_tokens ! r]"
    using append_beam_loop [OF assms] by blast
  let ?s = "s\<lparr>sq_current_length := Suc (sq_current_length s), sq_data := d, sq_next := sq_data s\<rparr>"
  have nth: "nat (batch_beam_indices ! i) < sq_batch_beam_size s"
    if "i < sq_batch_beam_size s" for i
    using assms(4,5) that by (auto simp: all_set_conv_all_nth)
  have "seq_abs ?s = map2 (\<lambda>i token. seq_abs s ! nat i @ [token])
                       batch_beam_indices batch_beam_next_tokens"
    using d(3) assms(3,4) nth by (intro nth_equalityI) (simp_all add: seq_view_def)
  then show ?thesis
    using d assms(1,2)
    by (simp add: AppendNextTokenToSequences_beam_def seq_inv_beam_def seq_inv_def GetSequenceLength_def)
qed

text \<open>C10. A beam append reorders and extends: with beam indices in range and room in the buffer it
  never leaves a buffer, keeps the invariant of both buffers, and the new sequence \<open>i\<close> is the old
  sequence selected by \<open>batch_beam_indices[i]\<close> followed by \<open>batch_beam_next_tokens[i]\<close>.\<close>

theorem AppendNextTokenToSequences_beam_refines:
  assumes "seq_inv_beam s" and "sq_current_length s < sq_max_length s"
    and "length batch_beam_next_tokens = sq_batch_beam_size s"
    and "length batch_beam_indices = sq_batch_beam_size s"
    and "\<forall>i\<in>set batch_beam_indices. 0 \<le> i \<and> i < int (sq_batch_beam_size s)"
  shows "\<exists>s'. AppendNextTokenToSequences_beam batch_beam_indices batch_beam_next_tokens s = Inr s'
     \<and> seq_inv_beam s'
     \<and> sq_batch_beam_size s' = sq_batch_beam_size s \<and> sq_max_length s' = sq_max_length s
     \<and> GetSequenceLength s' = Suc (GetSequenceLength s)
     \<and> seq_abs s' = map2 (\<lambda>i token. seq_abs s ! nat i @ [token])
                       batch_beam_indices batch_beam_next_tokens"
  using assms by (rule AppendNextTokenToSequences_beam_step)

theorem AppendNextTokenToSequences_beam_refines_witness:
  "\<exists>s'. AppendNextTokenToSequences_beam [1, 1] [7, 8]
      \<lparr>sq_data = [1, 0, 2, 0], sq_next = [0, 0, 0, 0], sq_batch_beam_size = 2, sq_max_length = 2,
       sq_current_length = 1\<rparr> = Inr s' \<and> seq_abs s' = [[2, 7], [2, 8]]"
  using AppendNextTokenToSequences_beam_refines
    [of "\<lparr>sq_data = [1, 0, 2, 0], sq_next = [0, 0, 0, 0], sq_batch_beam_size = 2, sq_max_length = 2,
          sq_current_length = 1\<rparr>" "[7, 8]" "[1, 1]"]
  by (auto simp: seq_inv_beam_def seq_inv_def seq_abs_def seq_view_def numeral_2_eq_2)

end
