(* ===== verification/Search.thy ===== *)
theory Search
  imports Sequences Params
begin

text \<open>
  \<open>src/search.h\<close>, \<open>src/search.cpp\<close>: the base class \<open>Search_Cpu\<close> and the greedy and sampling search
  \<open>GreedySearch_Cpu\<close>. A search object is a record; the derived class extends the base record.
  Logging is not modelled. The lemmas show what one call of each selection method does to the
  tokens, the end-of-sequence bookkeeping and the sequences, and what the two score filters change.
\<close>

section \<open>\<open>Search_Cpu\<close>\<close>

record ('f, 't) Search_Cpu =
  params :: "('f, 't) GeneratorParams"
  sequences :: Sequences
  sequence_lengths :: "int list"
  next_tokens :: "int list"
  next_token_scores :: "'f list"
  is_done :: bool

text \<open>A negative \<open>num_beams\<close> makes the buffer size a huge unsigned number, which \<open>new\<close> rejects. The
  array behind \<open>sequence_lengths_\<close> is written by the model state before it is read; zeros here.\<close>

definition Search_Cpu_new :: "('f, 't) GeneratorParams \<Rightarrow> ('f, 't) Search_Cpu res" where
  "Search_Cpu_new p =
     (if num_beams (search p) < 0 then Inl BadAlloc else
      res_bind (Sequences_new (input_ids p) (nbatch p) (nbeams p) (nmax_length p)) (\<lambda>q.
      Inr \<lparr>params = p, sequences = q, sequence_lengths = replicate (nat (BatchBeamSize p)) 0,
           next_tokens = [], next_token_scores = [], is_done = False\<rparr>))"

definition SetLogits :: "'f list \<Rightarrow> ('f, 't, 'z) Search_Cpu_scheme \<Rightarrow> ('f, 't, 'z) Search_Cpu_scheme" where
  "SetLogits logits s = s\<lparr>next_token_scores := logits\<rparr>"

definition Search_GetSequenceLength :: "('f, 't, 'z) Search_Cpu_scheme \<Rightarrow> nat" where
  "Search_GetSequenceLength s = GetSequenceLength (sequences s)"

definition Search_GetSequence :: "('f, 't, 'z) Search_Cpu_scheme \<Rightarrow> nat \<Rightarrow> int list res" where
  "Search_GetSequence s index = GetSequence (sequences s) index"

definition GetScores :: "('f, 't, 'z) Search_Cpu_scheme \<Rightarrow> nat \<Rightarrow> 'f list res" where
  "GetScores s batch_beam_index =
     subspan (next_token_scores s) (batch_beam_index * nvocab (params s)) (nvocab (params s))"

text \<open>\<open>GetScores\<close> returns a span: a write through it is a write to the scores of the search.\<close>

definition put_score :: "nat \<Rightarrow> int \<Rightarrow> 'f \<Rightarrow> ('f, 't, 'z) Search_Cpu_scheme \<Rightarrow> ('f, 't, 'z) Search_Cpu_scheme res" where
  "put_score row token v s =
     res_bind (GetScores s row) (\<lambda>span.
     res_bind (index_of token) (\<lambda>i.
     res_bind (put span i v) (\<lambda>span'.
     res_bind (copy_into (next_token_scores s) (row * nvocab (params s)) span') (\<lambda>scores.
     Inr (s\<lparr>next_token_scores := scores\<rparr>)))))"

definition ApplyMinLength ::
    "('f, 'g, 'y) cxx_scheme \<Rightarrow> int \<Rightarrow> ('f, 't, 'z) Search_Cpu_scheme \<Rightarrow> ('f, 't, 'z) Search_Cpu_scheme res" where
  "ApplyMinLength cx min_len s =
     (if min_len \<le> int (GetSequenceLength (sequences s)) then Inr s
      else for_res (\<lambda>i. put_score i (eos_token_id (params s)) (flowest cx))
             [0..<nat (BatchBeamSize (params s))] s)"

text \<open>The set of distinct ids of a sequence is iterated in an unspecified order; every id is a
  different position of the row, so the order is irrelevant and \<open>remdups\<close> fixes one.\<close>

definition penalize :: "('f::linorder, 'g, 'y) cxx_scheme \<Rightarrow> 'f \<Rightarrow> 'f \<Rightarrow> 'f" where
  "penalize cx penalty score = (if score < fzero cx then fmul cx score penalty else fdiv cx score penalty)"

definition ApplyRepetitionPenalty ::
    "('f::linorder, 'g, 'y) cxx_scheme \<Rightarrow> 'f \<Rightarrow> ('f, 't, 'z) Search_Cpu_scheme \<Rightarrow> ('f, 't, 'z) Search_Cpu_scheme res" where
  "ApplyRepetitionPenalty cx penalty s =
     (if penalty = fone cx then Inr s
      else for_res (\<lambda>i s.
             res_bind (GetSequence (sequences s) i) (\<lambda>sequence.
             for_res (\<lambda>word_id s.
                res_bind (GetScores s i) (\<lambda>span.
                res_bind (index_of word_id) (\<lambda>k.
                res_bind (get span k) (\<lambda>score.
                put_score i word_id (penalize cx penalty score) s))))
              (remdups sequence) s))
           [0..<nat (BatchBeamSize (params s))] s)"

section \<open>\<open>GreedySearch_Cpu\<close>\<close>

record ('f, 't, 'g) GreedySearch_Cpu = "('f, 't) Search_Cpu" +
  eos_seen :: "bool list"
  not_done_count :: int
  gen :: 'g

text \<open>\<open>seed\<close> is \<open>mt19937::seed(int)\<close>, \<open>device\<close> the engine state seeded from \<open>random_device\<close>.\<close>

definition GreedySearch_Cpu_new ::
    "(int \<Rightarrow> 'g) \<Rightarrow> 'g \<Rightarrow> ('f, 't) GeneratorParams \<Rightarrow> ('f, 't, 'g) GreedySearch_Cpu res" where
  "GreedySearch_Cpu_new seed device p =
     res_bind (Search_Cpu_new p) (\<lambda>b.
     Inr \<lparr>params = params b, sequences = sequences b, sequence_lengths = sequence_lengths b,
          next_tokens = replicate (nbatch p) 0, next_token_scores = next_token_scores b,
          is_done = is_done b,
          eos_seen = replicate (nbatch p) False, not_done_count = batch_size p,
          gen = (if random_seed (search p) \<noteq> -1 then seed (random_seed (search p)) else device)\<rparr>)"

definition PadIfAlreadyEOS ::
    "nat \<Rightarrow> ('f, 't, 'g) GreedySearch_Cpu \<Rightarrow> (bool \<times> ('f, 't, 'g) GreedySearch_Cpu) res" where
  "PadIfAlreadyEOS batch_id s =
     res_bind (get (eos_seen s) batch_id) (\<lambda>seen.
       if \<not> seen then Inr (False, s)
       else res_bind (put (next_tokens s) batch_id (pad_token_id (params s))) (\<lambda>toks.
            Inr (True, s\<lparr>next_tokens := toks\<rparr>)))"

definition SetNextToken ::
    "nat \<Rightarrow> int \<Rightarrow> ('f, 't, 'g) GreedySearch_Cpu \<Rightarrow> ('f, 't, 'g) GreedySearch_Cpu res" where
  "SetNextToken batch_id token s =
     res_bind (put (next_tokens s) batch_id token) (\<lambda>toks.
       if token = eos_token_id (params s) then
         res_bind (put (eos_seen s) batch_id True) (\<lambda>eos.
           Inr (s\<lparr>next_tokens := toks, eos_seen := eos, not_done_count := not_done_count s - 1,
                   is_done := (if not_done_count s - 1 = 0 then True else is_done s)\<rparr>))
       else Inr (s\<lparr>next_tokens := toks\<rparr>))"

definition AppendNextTokensToSequences ::
    "('f, 't, 'g) GreedySearch_Cpu \<Rightarrow> ('f, 't, 'g) GreedySearch_Cpu res" where
  "AppendNextTokensToSequences s =
     res_bind (AppendNextTokenToSequences (next_tokens s) (sequences s)) (\<lambda>q.
       Inr (s\<lparr>sequences := q,
               is_done := (if int (GetSequenceLength q) = max_length (search (params s))
                           then True else is_done s)\<rparr>))"

text \<open>The body of the loop over the batch that \<open>SelectTop\<close>, \<open>SampleTopP\<close> and \<open>SampleTopKTopP\<close>
  share: skip entries that are done, otherwise choose a token and record it.\<close>

definition greedy_round ::
    "(nat \<Rightarrow> ('f, 't, 'g) GreedySearch_Cpu \<Rightarrow> (int \<times> ('f, 't, 'g) GreedySearch_Cpu) res) \<Rightarrow>
     nat \<Rightarrow> ('f, 't, 'g) GreedySearch_Cpu \<Rightarrow> ('f, 't, 'g) GreedySearch_Cpu res" where
  "greedy_round pick batch_id s =
     res_bind (PadIfAlreadyEOS batch_id s) (\<lambda>(padded, s).
       if padded then Inr s
       else res_bind (pick batch_id s) (\<lambda>(token, s). SetNextToken batch_id token s))"

definition row_scores :: "nat \<Rightarrow> ('f, 't, 'g) GreedySearch_Cpu \<Rightarrow> 'f list res" where
  "row_scores batch_id s =
     subspan (next_token_scores s) (batch_id * nvocab (params s)) (nvocab (params s))"

definition choose_top ::
    "nat \<Rightarrow> ('f::linorder, 't, 'g) GreedySearch_Cpu \<Rightarrow> (int \<times> ('f, 't, 'g) GreedySearch_Cpu) res" where
  "choose_top batch_id s =
     res_bind (row_scores batch_id s) (\<lambda>scores. Inr (int (max_element scores), s))"

definition SelectTop :: "('f::linorder, 't, 'g) GreedySearch_Cpu \<Rightarrow> ('f, 't, 'g) GreedySearch_Cpu res" where
  "SelectTop s =
     res_bind (for_res (greedy_round choose_top) [0..<nbatch (params s)] s) AppendNextTokensToSequences"

text \<open>\<open>SoftMax\<close> on the span of a row overwrites that row of the scores.\<close>

definition softmax_row ::
    "('f::linorder, 'g, 'y) cxx_scheme \<Rightarrow> 'f \<Rightarrow> nat \<Rightarrow> ('f, 't, 'g) GreedySearch_Cpu \<Rightarrow>
     ('f list \<times> ('f, 't, 'g) GreedySearch_Cpu) res" where
  "softmax_row cx temp batch_id s =
     res_bind (row_scores batch_id s) (\<lambda>row.
     res_bind (SoftMax cx temp row) (\<lambda>scores.
     res_bind (copy_into (next_token_scores s) (batch_id * nvocab (params s)) scores) (\<lambda>all.
     Inr (scores, s\<lparr>next_token_scores := all\<rparr>))))"

text \<open>The loop that walks down the sorted indices until the cumulative probability passes the
  threshold; \<open>token\<close> is what is left if it never does.\<close>

fun threshold_loop :: "('f::linorder, 'g, 'y) cxx_scheme \<Rightarrow> 'f list \<Rightarrow> nat list \<Rightarrow> 'f \<Rightarrow> nat \<Rightarrow> nat res" where
  "threshold_loop cx scores [] threshold token = Inr token"
| "threshold_loop cx scores (i # is) threshold token =
     res_bind (get scores i) (\<lambda>p.
       let threshold' = fsub cx threshold p
       in if fzero cx < threshold' then threshold_loop cx scores is threshold' token else Inr i)"

definition sorted_indices :: "('f, 'g, 'y) cxx_scheme \<Rightarrow> 'f list \<Rightarrow> int \<Rightarrow> nat list res" where
  "sorted_indices cx scores k =
     (if 0 \<le> k \<and> k \<le> int (length scores) then Inr (sort_indices cx scores (nat k)) else Inl OutOfBounds)"

definition choose_top_p ::
    "('f::linorder, 'g, 'y) cxx_scheme \<Rightarrow> 'f \<Rightarrow> 'f \<Rightarrow> nat \<Rightarrow> ('f, 't, 'g) GreedySearch_Cpu \<Rightarrow>
     (int \<times> ('f, 't, 'g) GreedySearch_Cpu) res" where
  "choose_top_p cx p temp batch_id s =
     res_bind (softmax_row cx temp batch_id s) (\<lambda>(scores, s).
     res_bind (sorted_indices cx scores (int (length scores))) (\<lambda>indices.
     (case uniform cx p (gen s) of (threshold, g) \<Rightarrow>
     res_bind (threshold_loop cx scores indices threshold 0) (\<lambda>token.
     Inr (int token, s\<lparr>gen := g\<rparr>)))))"

definition SampleTopP ::
    "('f::linorder, 'g, 'y) cxx_scheme \<Rightarrow> 'f \<Rightarrow> 'f \<Rightarrow> ('f, 't, 'g) GreedySearch_Cpu \<Rightarrow> ('f, 't, 'g) GreedySearch_Cpu res" where
  "SampleTopP cx p temp s =
     res_bind (for_res (greedy_round (choose_top_p cx p temp)) [0..<nbatch (params s)] s)
       AppendNextTokensToSequences"

definition choose_top_k_top_p ::
    "('f::linorder, 'g, 'y) cxx_scheme \<Rightarrow> int \<Rightarrow> 'f \<Rightarrow> 'f \<Rightarrow> nat \<Rightarrow> ('f, 't, 'g) GreedySearch_Cpu \<Rightarrow>
     (int \<times> ('f, 't, 'g) GreedySearch_Cpu) res" where
  "choose_top_k_top_p cx k p temp batch_id s =
     res_bind (softmax_row cx temp batch_id s) (\<lambda>(scores, s).
     res_bind (sorted_indices cx scores k) (\<lambda>indices.
     (case uniform cx p (gen s) of (threshold, g) \<Rightarrow>
     res_bind (index_of (k - 1)) (\<lambda>last_k.
     res_bind (get indices last_k) (\<lambda>fallback.
     res_bind (threshold_loop cx scores (take (nat k) indices) threshold fallback) (\<lambda>token.
     Inr (int token, s\<lparr>gen := g\<rparr>)))))))"

definition SampleTopKTopP ::
    "('f::linorder, 'g, 'y) cxx_scheme \<Rightarrow> int \<Rightarrow> 'f \<Rightarrow> 'f \<Rightarrow> ('f, 't, 'g) GreedySearch_Cpu \<Rightarrow> ('f, 't, 'g) GreedySearch_Cpu res" where
  "SampleTopKTopP cx k p temp s =
     res_bind (for_res (greedy_round (choose_top_k_top_p cx k p temp)) [0..<nbatch (params s)] s)
       AppendNextTokensToSequences"

text \<open>\<open>SampleTopK\<close> does not call \<open>PadIfAlreadyEOS\<close>, and the weights of its distribution are the first
  \<open>k\<close> scores of the row, not the scores of the \<open>k\<close> sorted indices.\<close>

definition sample_top_k_round ::
    "('f::linorder, 'g, 'y) cxx_scheme \<Rightarrow> int \<Rightarrow> 'f \<Rightarrow> nat \<Rightarrow> ('f, 't, 'g) GreedySearch_Cpu \<Rightarrow>
     ('f, 't, 'g) GreedySearch_Cpu res" where
  "sample_top_k_round cx k temp batch_id s =
     res_bind (softmax_row cx temp batch_id s) (\<lambda>(scores, s).
     res_bind (sorted_indices cx scores k) (\<lambda>indices.
     (case discrete cx (take (nat k) scores) (gen s) of (d, g) \<Rightarrow>
     res_bind (get indices d) (\<lambda>token.
     SetNextToken batch_id (int token) (s\<lparr>gen := g\<rparr>)))))"

definition SampleTopK ::
    "('f::linorder, 'g, 'y) cxx_scheme \<Rightarrow> int \<Rightarrow> 'f \<Rightarrow> ('f, 't, 'g) GreedySearch_Cpu \<Rightarrow> ('f, 't, 'g) GreedySearch_Cpu res" where
  "SampleTopK cx k temp s =
     res_bind (for_res (sample_top_k_round cx k temp) [0..<nbatch (params s)] s)
       AppendNextTokensToSequences"

section \<open>Invariant\<close>

text \<open>The number of batch entries that have not produced the end-of-sequence token.\<close>

definition open_entries :: "bool list \<Rightarrow> nat" where
  "open_entries e = length (filter Not e)"

lemma open_entries_update:
  assumes "b < length e" and "\<not> e ! b"
  shows "Suc (open_entries (e[b := True])) = open_entries e"
proof -
  have "e = take b e @ False # drop (Suc b) e"
    using assms id_take_nth_drop [of b e] by simp
  then have "open_entries e = open_entries (take b e @ False # drop (Suc b) e)" by simp
  moreover have "e[b := True] = take b e @ True # drop (Suc b) e"
    using assms(1) by (simp add: upd_conv_take_nth_drop)
  ultimately show ?thesis by (simp add: open_entries_def)
qed

lemma open_entries_0: "open_entries e = 0 \<longleftrightarrow> (\<forall>b<length e. e ! b)"
  by (auto simp: open_entries_def filter_empty_conv all_set_conv_all_nth)

definition greedy_inv :: "('f, 't, 'g) GreedySearch_Cpu \<Rightarrow> bool" where
  "greedy_inv s \<longleftrightarrow> params_ok (params s)
     \<and> seq_inv (sequences s)
     \<and> sq_batch_beam_size (sequences s) = nbatch (params s)
     \<and> sq_max_length (sequences s) = nmax_length (params s)
     \<and> length (next_tokens s) = nbatch (params s)
     \<and> length (eos_seen s) = nbatch (params s)
     \<and> not_done_count s = int (open_entries (eos_seen s))
     \<and> (open_entries (eos_seen s) = 0 \<longrightarrow> is_done s)
     \<and> (GetSequenceLength (sequences s) = nmax_length (params s) \<longrightarrow> is_done s)"

definition scores_ready :: "('f, 't, 'z) Search_Cpu_scheme \<Rightarrow> bool" where
  "scores_ready s \<longleftrightarrow> length (next_token_scores s) = nat (BatchBeamSize (params s)) * nvocab (params s)"

lemmas greedy_inv_defs = greedy_inv_def params_ok_def

section \<open>One pass over the batch\<close>

text \<open>What a pass of \<open>greedy_round\<close> leaves: finished entries get the pad token, the others a token
  that satisfies \<open>T\<close>; an entry is finished afterwards iff it was, or its token is the
  end-of-sequence token; the counter follows. \<open>J\<close> describes the scores, which a chooser may
  rewrite.\<close>

definition round_post ::
    "(nat \<Rightarrow> int \<Rightarrow> bool) \<Rightarrow> ('f, 't, 'g) GreedySearch_Cpu \<Rightarrow> nat \<Rightarrow> ('f, 't, 'g) GreedySearch_Cpu \<Rightarrow> bool" where
  "round_post T s i t \<longleftrightarrow>
     params t = params s \<and> sequences t = sequences s
     \<and> length (next_tokens t) = nbatch (params s) \<and> length (eos_seen t) = nbatch (params s)
     \<and> (\<forall>b<i. if eos_seen s ! b then next_tokens t ! b = pad_token_id (params s) \<and> eos_seen t ! b
              else T b (next_tokens t ! b)
                   \<and> (eos_seen t ! b \<longleftrightarrow> next_tokens t ! b = eos_token_id (params s)))
     \<and> (\<forall>b\<ge>i. b < nbatch (params s) \<longrightarrow> eos_seen t ! b = eos_seen s ! b)
     \<and> not_done_count t = int (open_entries (eos_seen t))
     \<and> is_done t = (is_done s \<or> open_entries (eos_seen t) = 0)"

lemma round_post_scores:
  "round_post T s i (t\<lparr>next_token_scores := sc, gen := g\<rparr>) = round_post T s i t"
  by (simp add: round_post_def)

lemma round_post_pad:
  assumes "round_post T s b t" and "b < nbatch (params s)" and "eos_seen s ! b"
  shows "round_post T s (Suc b) (t\<lparr>next_tokens := (next_tokens t)[b := pad_token_id (params s)]\<rparr>)"
  using assms by (auto simp: round_post_def nth_list_update less_Suc_eq)

lemma round_post_SetNextToken:
  assumes post: "round_post T s b t" and b: "b < nbatch (params s)" and e: "\<not> eos_seen s ! b"
    and T: "T b tok"
  shows "\<exists>t'. SetNextToken b tok t = Inr t' \<and> round_post T s (Suc b) t'
    \<and> next_token_scores t' = next_token_scores t"
proof (cases "tok = eos_token_id (params s)")
  case False
  with assms show ?thesis
    by (auto simp: SetNextToken_def round_post_def nth_list_update less_Suc_eq)
next
  case True
  have eb: "\<not> eos_seen t ! b" and len: "b < length (eos_seen t)"
    using post b e by (auto simp: round_post_def)
  have cnt: "Suc (open_entries ((eos_seen t)[b := True])) = open_entries (eos_seen t)"
    using open_entries_update [OF len eb] .
  let ?t = "t\<lparr>next_tokens := (next_tokens t)[b := tok], eos_seen := (eos_seen t)[b := True],
             not_done_count := not_done_count t - 1,
             is_done := (if not_done_count t - 1 = 0 then True else is_done t)\<rparr>"
  have "SetNextToken b tok t = Inr ?t"
    using post b True len by (simp add: SetNextToken_def round_post_def)
  moreover have "round_post T s (Suc b) ?t"
    using post b True T cnt e by (auto simp: round_post_def nth_list_update less_Suc_eq)
  ultimately show ?thesis by simp
qed

lemma greedy_round_rule:
  assumes inv: "greedy_inv s" and J0: "J 0 (next_token_scores s)"
    and Jskip: "\<And>b sc. b < nbatch (params s) \<Longrightarrow> J b sc \<Longrightarrow> J (Suc b) sc"
    and pick: "\<And>b t. b < nbatch (params s) \<Longrightarrow> params t = params s \<Longrightarrow> J b (next_token_scores t) \<Longrightarrow>
      \<exists>tok sc g. pick b t = Inr (tok, t\<lparr>next_token_scores := sc, gen := g\<rparr>) \<and> J (Suc b) sc \<and> T b tok"
  shows "\<exists>t. for_res (greedy_round pick) [0..<nbatch (params s)] s = Inr t
      \<and> round_post T s (nbatch (params s)) t \<and> J (nbatch (params s)) (next_token_scores t)"
proof (rule for_res_upt_rule [where I = "\<lambda>i t. round_post T s i t \<and> J i (next_token_scores t)"])
  show "round_post T s 0 s \<and> J 0 (next_token_scores s)"
    using inv J0 by (auto simp: round_post_def greedy_inv_def)
next
  fix b t
  assume b: "b < nbatch (params s)" and I: "round_post T s b t \<and> J b (next_token_scores t)"
  have par: "params t = params s" and len: "b < length (eos_seen t)" "b < length (next_tokens t)"
    and eq: "eos_seen t ! b = eos_seen s ! b"
    using I b by (auto simp: round_post_def)
  show "\<exists>t'. greedy_round pick b t = Inr t' \<and> round_post T s (Suc b) t' \<and> J (Suc b) (next_token_scores t')"
  proof (cases "eos_seen s ! b")
    case True
    with I b len eq par show ?thesis
      by (auto simp: greedy_round_def PadIfAlreadyEOS_def intro: round_post_pad Jskip)
  next
    case False
    obtain tok sc g where p: "pick b t = Inr (tok, t\<lparr>next_token_scores := sc, gen := g\<rparr>)"
      and J: "J (Suc b) sc" and T: "T b tok"
      using pick [OF b par] I by blast
    have "round_post T s b (t\<lparr>next_token_scores := sc, gen := g\<rparr>)"
      using I by (simp add: round_post_scores)
    from round_post_SetNextToken [OF this b False T] p J False eq len show ?thesis
      by (auto simp: greedy_round_def PadIfAlreadyEOS_def)
  qed
qed

text \<open>After the pass the tokens are appended: the abstract effect of a whole selection step.\<close>

definition step_post ::
    "(nat \<Rightarrow> int \<Rightarrow> bool) \<Rightarrow> ('f, 't, 'g) GreedySearch_Cpu \<Rightarrow> ('f, 't, 'g) GreedySearch_Cpu \<Rightarrow> bool" where
  "step_post T s s' \<longleftrightarrow>
     params s' = params s \<and> length (next_tokens s') = nbatch (params s)
     \<and> Search_GetSequenceLength s' = Suc (Search_GetSequenceLength s)
     \<and> (\<forall>b<nbatch (params s).
          seq_abs (sequences s') ! b = seq_abs (sequences s) ! b @ [next_tokens s' ! b]
          \<and> (if eos_seen s ! b then next_tokens s' ! b = pad_token_id (params s) \<and> eos_seen s' ! b
             else T b (next_tokens s' ! b)
                  \<and> (eos_seen s' ! b \<longleftrightarrow> next_tokens s' ! b = eos_token_id (params s))))
     \<and> (is_done s' \<longleftrightarrow> is_done s \<or> (\<forall>b<nbatch (params s). eos_seen s' ! b)
          \<or> int (Search_GetSequenceLength s') = max_length (search (params s)))"

lemma append_step_post:
  assumes inv: "greedy_inv s" and room: "Search_GetSequenceLength s < nmax_length (params s)"
    and post: "round_post T s (nbatch (params s)) t"
  shows "\<exists>s'. AppendNextTokensToSequences t = Inr s' \<and> greedy_inv s' \<and> step_post T s s'
     \<and> next_token_scores s' = next_token_scores t"
proof -
  let ?q = "sequences s" and ?n = "nbatch (params s)"
  have q: "seq_inv ?q" "sq_current_length ?q < sq_max_length ?q"
      "length (next_tokens t) = sq_batch_beam_size ?q" "sq_batch_beam_size ?q = ?n"
    using inv room post
    by (auto simp: greedy_inv_def round_post_def Search_GetSequenceLength_def GetSequenceLength_def)
  obtain q' where q': "AppendNextTokenToSequences (next_tokens t) ?q = Inr q'" "seq_inv q'"
    "sq_batch_beam_size q' = sq_batch_beam_size ?q" "sq_max_length q' = sq_max_length ?q"
    "GetSequenceLength q' = Suc (GetSequenceLength ?q)"
    "seq_abs q' = map2 (\<lambda>row token. row @ [token]) (seq_abs ?q) (next_tokens t)"
    using AppendNextTokenToSequences_step [OF q(1-3)] by blast
  let ?s = "t\<lparr>sequences := q', is_done := (if int (GetSequenceLength q') = max_length (search (params t))
                                        then True else is_done t)\<rparr>"
  have eq: "AppendNextTokensToSequences t = Inr ?s"
    using q'(1) post by (simp add: AppendNextTokensToSequences_def round_post_def)
  have abs: "seq_abs q' ! b = seq_abs ?q ! b @ [next_tokens t ! b]" if "b < ?n" for b
    using q'(6) q that by simp
  have "greedy_inv ?s"
    using inv post q' q by (auto simp: greedy_inv_def round_post_def params_ok_def)
  moreover have "step_post T s ?s"
    using post q' q abs inv
    by (auto simp: step_post_def round_post_def Search_GetSequenceLength_def open_entries_0 greedy_inv_def)
  ultimately show ?thesis using eq by simp
qed

lemma step_post_mono: "step_post T s s' \<Longrightarrow> (\<And>b tok. b < nbatch (params s) \<Longrightarrow> T b tok \<Longrightarrow> T' b tok) \<Longrightarrow> step_post T' s s'"
  unfolding step_post_def by presburger

section \<open>A concrete instance\<close>

text \<open>The second entry has already produced the end-of-sequence token.\<close>

definition example_greedy :: "(int, unit, nat) GreedySearch_Cpu" where
  "example_greedy = \<lparr>params = example_params,
     sequences = \<lparr>sq_data = [1, 0, 0, 1, 0, 0], sq_next = [], sq_batch_beam_size = 2,
                  sq_max_length = 3, sq_current_length = 1\<rparr>,
     sequence_lengths = [1, 1], next_tokens = [0, 0], next_token_scores = [3, 9, 5, 4, 1, 8],
     is_done = False, eos_seen = [False, True], not_done_count = 1, gen = 0\<rparr>"

lemmas example_greedy_defs = example_greedy_def example_params_defs

lemma example_greedy_inv: "greedy_inv example_greedy"
  by (simp add: greedy_inv_def params_ok_def seq_inv_def GetSequenceLength_def open_entries_def
      example_greedy_defs)

lemma example_greedy_room: "Search_GetSequenceLength example_greedy < nmax_length (params example_greedy)"
  by (simp add: Search_GetSequenceLength_def GetSequenceLength_def example_greedy_defs)

section \<open>The choosers\<close>

definition greedy_scores_ready :: "('f, 't, 'g) GreedySearch_Cpu \<Rightarrow> bool" where
  "greedy_scores_ready s \<longleftrightarrow> length (next_token_scores s) = nbatch (params s) * nvocab (params s)"

definition score_row :: "('f, 't, 'g) GreedySearch_Cpu \<Rightarrow> nat \<Rightarrow> 'f list" where
  "score_row s b = take (nvocab (params s)) (drop (b * nvocab (params s)) (next_token_scores s))"

text \<open>The rows from \<open>b\<close> on are still those of \<open>s\<close>: what a pass that rewrites one row per entry
  keeps.\<close>

definition rows_from :: "('f, 't, 'g) GreedySearch_Cpu \<Rightarrow> nat \<Rightarrow> 'f list \<Rightarrow> bool" where
  "rows_from s b sc \<longleftrightarrow> length sc = nbatch (params s) * nvocab (params s)
     \<and> (\<forall>r\<ge>b. r < nbatch (params s) \<longrightarrow>
          take (nvocab (params s)) (drop (r * nvocab (params s)) sc) = score_row s r)"

lemma example_greedy_ready: "greedy_scores_ready example_greedy"
  by (simp add: greedy_scores_ready_def example_greedy_defs)

lemma rows_from_0 [simp]: "greedy_scores_ready s \<Longrightarrow> rows_from s 0 (next_token_scores s)"
  by (simp add: rows_from_def score_row_def greedy_scores_ready_def)

lemma rows_from_Suc: "rows_from s b sc \<Longrightarrow> rows_from s (Suc b) sc"
  by (simp add: rows_from_def)

lemma row_scores_rows_from:
  "rows_from s b (next_token_scores t) \<Longrightarrow> params t = params s \<Longrightarrow> b < nbatch (params s) \<Longrightarrow>
   row_scores b t = Inr (score_row s b)"
  using row_bound [of b "nbatch (params s)" "nvocab (params s)" "nvocab (params s)"]
  by (simp add: row_scores_def rows_from_def)

lemma length_score_row:
  "greedy_scores_ready s \<Longrightarrow> b < nbatch (params s) \<Longrightarrow> length (score_row s b) = nvocab (params s)"
  using row_bound [of b "nbatch (params s)" "nvocab (params s)" "nvocab (params s)"]
    length_slice [of "b * nvocab (params s)" "nvocab (params s)" "next_token_scores s"]
  by (simp only: score_row_def greedy_scores_ready_def)

lemma score_row_ne:
  "greedy_inv s \<Longrightarrow> greedy_scores_ready s \<Longrightarrow> b < nbatch (params s) \<Longrightarrow> score_row s b \<noteq> []"
  using length_score_row [of s b] by (auto simp: greedy_inv_def params_ok_def)

lemma softmax_row_rows_from:
  assumes inv: "greedy_inv s" "greedy_scores_ready s" and b: "b < nbatch (params s)"
    and t: "params t = params s" "rows_from s b (next_token_scores t)"
  shows "\<exists>scores sc. SoftMax cx temp (score_row s b) = Inr scores
     \<and> length scores = nvocab (params s)
     \<and> softmax_row cx temp b t = Inr (scores, t\<lparr>next_token_scores := sc\<rparr>) \<and> rows_from s (Suc b) sc"
proof -
  let ?v = "nvocab (params s)"
  obtain scores where sm: "SoftMax cx temp (score_row s b) = Inr scores"
    and len: "length scores = ?v"
    using SoftMax_Inr [OF score_row_ne [OF inv b], of cx temp] length_score_row [OF inv(2) b] by auto
  have lt: "length (next_token_scores t) = nbatch (params s) * ?v"
    using t(2) by (simp add: rows_from_def)
  have bd: "b * ?v + length scores \<le> length (next_token_scores t)"
    using row_bound [OF b, of ?v ?v] lt len by simp
  let ?sc = "blit (next_token_scores t) (b * ?v) scores"
  have "take ?v (drop (r * ?v) ?sc) = score_row s r" if "Suc b \<le> r" "r < nbatch (params s)" for r
    using slice_blit_other [OF bd, of "r * ?v" ?v] row_disjoint [of r b ?v ?v ?v] t(2) len that
    by (auto simp: rows_from_def)
  then have "rows_from s (Suc b) ?sc"
    using bd lt by (simp add: rows_from_def)
  moreover have "softmax_row cx temp b t = Inr (scores, t\<lparr>next_token_scores := ?sc\<rparr>)"
    using row_scores_rows_from [OF t(2,1) b] sm bd t(1) by (simp add: softmax_row_def)
  ultimately show ?thesis using sm len by blast
qed

lemma SelectTop_ok:
  fixes s :: "('f::linorder, 't, 'g) GreedySearch_Cpu"
  assumes "greedy_inv s" and "greedy_scores_ready s"
    and "Search_GetSequenceLength s < nmax_length (params s)"
  shows "\<exists>s'. SelectTop s = Inr s' \<and> greedy_inv s'
     \<and> step_post (\<lambda>b token. 0 \<le> token \<and> first_max (score_row s b) (nat token)) s s'"
proof -
  let ?T = "\<lambda>b token. 0 \<le> token \<and> first_max (score_row s b) (nat token)"
  have "\<exists>t. for_res (greedy_round choose_top) [0..<nbatch (params s)] s = Inr t
      \<and> round_post ?T s (nbatch (params s)) t \<and> rows_from s (nbatch (params s)) (next_token_scores t)"
  proof (rule greedy_round_rule [OF assms(1)])
    fix b and t :: "('f, 't, 'g) GreedySearch_Cpu"
    assume b: "b < nbatch (params s)" and t: "params t = params s" "rows_from s b (next_token_scores t)"
    have "choose_top b t = Inr (int (max_element (score_row s b)), t\<lparr>next_token_scores := next_token_scores t, gen := gen t\<rparr>)"
      using row_scores_rows_from [OF t(2,1) b] by (simp add: choose_top_def)
    then show "\<exists>tok sc g. choose_top b t = Inr (tok, t\<lparr>next_token_scores := sc, gen := g\<rparr>)
        \<and> rows_from s (Suc b) sc \<and> ?T b tok"
      using rows_from_Suc [OF t(2)] max_element_first_max [OF score_row_ne [OF assms(1,2) b]]
      by (intro exI [of _ "int (max_element (score_row s b))"] exI [of _ "next_token_scores t"]
            exI [of _ "gen t"]) auto
  qed (use assms rows_from_Suc in auto)
  then show ?thesis
    using append_step_post [OF assms(1,3)] by (fastforce simp: SelectTop_def)
qed

text \<open>C11. Greedy decoding selects the first highest-scoring token: on a search in its invariant with
  room left and scores for every entry, \<open>SelectTop\<close> returns without an out-of-range access and keeps
  the invariant; every entry that has already produced the end-of-sequence token gets the pad token,
  every other one the first index of the maximum of its row of scores; all sequences grow by exactly
  that token; and the search is done afterwards iff it was, or every entry has produced the
  end-of-sequence token, or \<open>max_length\<close> is reached.\<close>

theorem SelectTop_correct:
  fixes s :: "('f::linorder, 't, 'g) GreedySearch_Cpu"
  assumes "greedy_inv s" and "greedy_scores_ready s"
    and "Search_GetSequenceLength s < nmax_length (params s)"
  shows "\<exists>s'. SelectTop s = Inr s' \<and> greedy_inv s'
     \<and> step_post (\<lambda>b token. 0 \<le> token \<and> first_max (score_row s b) (nat token)) s s'"
  using assms by (rule SelectTop_ok)

theorem SelectTop_correct_witness:
  "\<exists>s'. SelectTop example_greedy = Inr s' \<and> next_tokens s' ! 1 = 0
     \<and> first_max [3, 9, 5 :: int] (nat (next_tokens s' ! 0))"
proof -
  obtain s' where "SelectTop example_greedy = Inr s'"
    and "step_post (\<lambda>b token. 0 \<le> token \<and> first_max (score_row example_greedy b) (nat token)) example_greedy s'"
    using SelectTop_correct [OF example_greedy_inv example_greedy_ready example_greedy_room] by blast
  then show ?thesis
    by (auto simp: step_post_def score_row_def example_greedy_defs numeral_2_eq_2 numeral_3_eq_3 All_less_Suc)
qed

section \<open>Sampling\<close>

text \<open>What is left of the threshold after the first \<open>n\<close> indices.\<close>

definition residual :: "('f, 'g, 'y) cxx_scheme \<Rightarrow> 'f list \<Rightarrow> nat list \<Rightarrow> 'f \<Rightarrow> nat \<Rightarrow> 'f" where
  "residual cx scores indices threshold n =
     foldl (\<lambda>t i. fsub cx t (scores ! i)) threshold (take n indices)"

text \<open>The first position at which the cumulative probability reaches the threshold, or the fallback
  if none does.\<close>

definition nucleus_choice ::
    "('f::linorder, 'g, 'y) cxx_scheme \<Rightarrow> 'f list \<Rightarrow> nat list \<Rightarrow> 'f \<Rightarrow> nat \<Rightarrow> nat \<Rightarrow> bool" where
  "nucleus_choice cx scores indices threshold fallback token \<longleftrightarrow>
     (\<exists>j<length indices. token = indices ! j
        \<and> \<not> fzero cx < residual cx scores indices threshold (Suc j)
        \<and> (\<forall>i<j. fzero cx < residual cx scores indices threshold (Suc i)))
     \<or> token = fallback \<and> (\<forall>i<length indices. fzero cx < residual cx scores indices threshold (Suc i))"

lemma nucleus_choice_Cons:
  "nucleus_choice cx scores (i # is) threshold fallback token \<longleftrightarrow>
     (if fzero cx < fsub cx threshold (scores ! i)
      then nucleus_choice cx scores is (fsub cx threshold (scores ! i)) fallback token
      else token = i)"
proof -
  have res: "residual cx scores (i # is) threshold (Suc n) =
      residual cx scores is (fsub cx threshold (scores ! i)) n" for n
    by (simp add: residual_def)
  have r0: "residual cx scores is t 0 = t" for t by (simp add: residual_def)
  show ?thesis
    unfolding nucleus_choice_def res
    by (auto simp: r0 Ex_less_Suc2 All_less_Suc2)
qed

lemma threshold_loop_nucleus:
  "set indices \<subseteq> {..<length scores} \<Longrightarrow>
   \<exists>token. threshold_loop cx scores indices threshold fallback = Inr token
     \<and> nucleus_choice cx scores indices threshold fallback token"
proof (induction indices arbitrary: threshold)
  case Nil
  then show ?case by (simp add: nucleus_choice_def)
next
  case (Cons i "is")
  then show ?case by (auto simp: nucleus_choice_Cons Let_def)
qed

lemma choose_top_p_rule:
  assumes "greedy_inv s" "greedy_scores_ready s" "sort_ok cx" and b: "b < nbatch (params s)"
    and t: "params t = params s" "rows_from s b (next_token_scores t)"
  shows "\<exists>tok sc g. choose_top_p cx p temp b t = Inr (tok, t\<lparr>next_token_scores := sc, gen := g\<rparr>)
     \<and> rows_from s (Suc b) sc
     \<and> (\<exists>scores indices threshold. SoftMax cx temp (score_row s b) = Inr scores
          \<and> partially_sorted scores (nvocab (params s)) indices \<and> 0 \<le> tok
          \<and> nucleus_choice cx scores indices threshold 0 (nat tok))"
proof -
  obtain scores sc where sm: "SoftMax cx temp (score_row s b) = Inr scores"
    "length scores = nvocab (params s)"
    "softmax_row cx temp b t = Inr (scores, t\<lparr>next_token_scores := sc\<rparr>)" "rows_from s (Suc b) sc"
    using softmax_row_rows_from [OF assms(1,2) b t, of cx temp] by blast
  let ?idx = "sort_indices cx scores (nvocab (params s))"
  have srt: "partially_sorted scores (nvocab (params s)) ?idx"
    using assms(3) sm(2) by (auto simp: sort_ok_def)
  obtain th g where u: "uniform cx p (gen t) = (th, g)" by fastforce
  obtain tok where "threshold_loop cx scores ?idx th 0 = Inr tok"
    "nucleus_choice cx scores ?idx th 0 tok"
    using threshold_loop_nucleus [of ?idx scores cx th 0] partially_sorted_set [OF srt] by auto
  then have "choose_top_p cx p temp b t = Inr (int tok, t\<lparr>next_token_scores := sc, gen := g\<rparr>)"
    using sm u by (simp add: choose_top_p_def sorted_indices_def)
  with sm srt \<open>nucleus_choice cx scores ?idx th 0 tok\<close> show ?thesis
    by (metis nat_int of_nat_0_le_iff)
qed

lemma SampleTopP_ok:
  fixes s :: "('f::linorder, 't, 'g) GreedySearch_Cpu"
  assumes "greedy_inv s" and "greedy_scores_ready s" and "sort_ok cx"
    and "Search_GetSequenceLength s < nmax_length (params s)"
  shows "\<exists>s'. SampleTopP cx p temp s = Inr s' \<and> greedy_inv s'
     \<and> step_post (\<lambda>b token. \<exists>scores indices threshold.
            SoftMax cx temp (score_row s b) = Inr scores
          \<and> partially_sorted scores (nvocab (params s)) indices \<and> 0 \<le> token
          \<and> nucleus_choice cx scores indices threshold 0 (nat token)) s s'"
    (is "\<exists>s'. _ \<and> _ \<and> step_post ?T s s'")
proof -
  have "\<exists>t. for_res (greedy_round (choose_top_p cx p temp)) [0..<nbatch (params s)] s = Inr t
      \<and> round_post ?T s (nbatch (params s)) t \<and> rows_from s (nbatch (params s)) (next_token_scores t)"
    by (rule greedy_round_rule [OF assms(1)])
      (use assms rows_from_Suc choose_top_p_rule [OF assms(1-3)] in auto)
  then show ?thesis
    using append_step_post [OF assms(1,4)] by (fastforce simp: SampleTopP_def)
qed



text \<open>The token is one of the \<open>k\<close> best: no token outside a set of at most \<open>k\<close> beats it.\<close>

definition among_top_k :: "'f::linorder list \<Rightarrow> nat \<Rightarrow> nat \<Rightarrow> bool" where
  "among_top_k scores k token \<longleftrightarrow> token < length scores
     \<and> (\<exists>B. card B < k \<and> (\<forall>i<length scores. i \<notin> B \<longrightarrow> scores ! i \<le> scores ! token))"

lemma partially_sorted_among_top_k:
  assumes srt: "partially_sorted scores k indices" and j: "j < k" "k \<le> length scores"
  shows "among_top_k scores k (indices ! j)"
proof -
  let ?B = "set (take j indices)"
  have len: "length indices = length scores" using partially_sorted_length [OF srt] .
  have "card ?B < k" using card_length [of "take j indices"] j by simp
  moreover have "scores ! i \<le> scores ! (indices ! j)" if i: "i < length scores" "i \<notin> ?B" for i
  proof -
    have "i \<in> set indices" using partially_sorted_set [OF srt] i by simp
    then obtain m where m: "m < length indices" "indices ! m = i" by (auto simp: in_set_conv_nth)
    have "j \<le> m"
    proof (rule ccontr)
      assume "\<not> j \<le> m"
      then have "i \<in> ?B" using m by (auto simp: in_set_conv_nth intro!: exI [of _ m])
      with i show False by simp
    qed
    then show ?thesis using srt j m by (cases "j = m") (auto simp: partially_sorted_def)
  qed
  moreover have "indices ! j < length scores" using partially_sorted_nth [OF srt] j by simp
  ultimately show ?thesis unfolding among_top_k_def by blast
qed

lemma choose_top_k_top_p_rule:
  assumes "greedy_inv s" "greedy_scores_ready s" "sort_ok cx" and b: "b < nbatch (params s)"
    and t: "params t = params s" "rows_from s b (next_token_scores t)"
    and k: "1 \<le> k" "k \<le> vocab_size (params s)"
  shows "\<exists>tok sc g. choose_top_k_top_p cx k p temp b t = Inr (tok, t\<lparr>next_token_scores := sc, gen := g\<rparr>)
     \<and> rows_from s (Suc b) sc
     \<and> (\<exists>scores. SoftMax cx temp (score_row s b) = Inr scores \<and> 0 \<le> tok
          \<and> among_top_k scores (nat k) (nat tok))"
proof -
  obtain scores sc where sm: "SoftMax cx temp (score_row s b) = Inr scores"
    "length scores = nvocab (params s)"
    "softmax_row cx temp b t = Inr (scores, t\<lparr>next_token_scores := sc\<rparr>)" "rows_from s (Suc b) sc"
    using softmax_row_rows_from [OF assms(1,2) b t, of cx temp] by blast
  let ?idx = "sort_indices cx scores (nat k)"
  have kn: "nat k \<le> length scores" "0 < nat k" using k sm(2) by auto
  have srt: "partially_sorted scores (nat k) ?idx"
    using assms(3) kn(1) by (auto simp: sort_ok_def)
  have len: "length ?idx = length scores" using partially_sorted_length [OF srt] .
  obtain th g where u: "uniform cx p (gen t) = (th, g)" by fastforce
  let ?fb = "?idx ! (nat k - 1)"
  obtain tok where tl: "threshold_loop cx scores (take (nat k) ?idx) th ?fb = Inr tok"
    and nc: "nucleus_choice cx scores (take (nat k) ?idx) th ?fb tok"
    using threshold_loop_nucleus [of "take (nat k) ?idx" scores cx th ?fb]
      partially_sorted_set [OF srt] set_take_subset [of "nat k" ?idx] by auto
  have "\<exists>j<nat k. tok = ?idx ! j"
    using nc kn len by (auto simp: nucleus_choice_def intro: exI [of _ "nat k - Suc 0"])
  then have "among_top_k scores (nat k) tok"
    using partially_sorted_among_top_k [OF srt _ kn(1)] by auto
  moreover have "nat (k - 1) = nat k - 1" "get ?idx (nat k - 1) = Inr ?fb" using k kn len by auto
  then have "choose_top_k_top_p cx k p temp b t = Inr (int tok, t\<lparr>next_token_scores := sc, gen := g\<rparr>)"
    using sm u tl k kn len by (simp add: choose_top_k_top_p_def sorted_indices_def)
  ultimately show ?thesis using sm by (metis nat_int of_nat_0_le_iff)
qed

lemma SampleTopKTopP_ok:
  fixes s :: "('f::linorder, 't, 'g) GreedySearch_Cpu"
  assumes "greedy_inv s" and "greedy_scores_ready s" and "sort_ok cx"
    and "Search_GetSequenceLength s < nmax_length (params s)"
    and "1 \<le> k" and "k \<le> vocab_size (params s)"
  shows "\<exists>s'. SampleTopKTopP cx k p temp s = Inr s' \<and> greedy_inv s'
     \<and> step_post (\<lambda>b token. \<exists>scores. SoftMax cx temp (score_row s b) = Inr scores \<and> 0 \<le> token
          \<and> among_top_k scores (nat k) (nat token)) s s'"
    (is "\<exists>s'. _ \<and> _ \<and> step_post ?T s s'")
proof -
  have "\<exists>t. for_res (greedy_round (choose_top_k_top_p cx k p temp)) [0..<nbatch (params s)] s = Inr t
      \<and> round_post ?T s (nbatch (params s)) t \<and> rows_from s (nbatch (params s)) (next_token_scores t)"
    by (rule greedy_round_rule [OF assms(1)])
      (use assms rows_from_Suc choose_top_k_top_p_rule [OF assms(1-3) _ _ _ assms(5,6)] in auto)
  then show ?thesis
    using append_step_post [OF assms(1,4)] by (fastforce simp: SampleTopKTopP_def)
qed



section \<open>\<open>SampleTopK\<close> and finished entries\<close>

text \<open>The same state with an engine whose next draws select index 1 for the first entry and index 2 for
  the second.\<close>

definition example_top_k :: "(int, unit, nat) GreedySearch_Cpu" where
  "example_top_k = example_greedy\<lparr>gen := 1\<rparr>"


section \<open>Score filters\<close>

lemma put_score_Inr:
  assumes "length (next_token_scores s) = h * nvocab (params s)" and "row < h"
    and "0 \<le> token" and "token < vocab_size (params s)"
  shows "put_score row token v s =
     Inr (s\<lparr>next_token_scores := (next_token_scores s)[row * nvocab (params s) + nat token := v]\<rparr>)"
proof -
  let ?w = "nvocab (params s)"
  have bd: "row * ?w + ?w \<le> length (next_token_scores s)"
    using row_bound [OF assms(2), of ?w ?w] assms(1) by simp
  have tok: "nat token < ?w" using assms(3,4) by simp
  have "GetScores s row = Inr (take ?w (drop (row * ?w) (next_token_scores s)))"
    using bd by (simp add: GetScores_def)
  then show ?thesis
    using bd tok assms(3) blit_update_slice [OF bd tok, of v] length_slice [OF bd]
    by (simp add: put_score_def)
qed

lemma ApplyMinLength_scores:
  fixes s :: "('f, 't, 'z) Search_Cpu_scheme"
  assumes ready: "scores_ready s"
    and eos: "0 \<le> eos_token_id (params s)" "eos_token_id (params s) < vocab_size (params s)"
  shows "\<exists>sc. ApplyMinLength cx min_len s = Inr (s\<lparr>next_token_scores := sc\<rparr>)
     \<and> length sc = length (next_token_scores s)
     \<and> (\<forall>j<length sc. sc ! j =
          (if int (Search_GetSequenceLength s) < min_len
              \<and> int (j mod nvocab (params s)) = eos_token_id (params s)
           then flowest cx else next_token_scores s ! j))"
proof (cases "min_len \<le> int (GetSequenceLength (sequences s))")
  case True
  then show ?thesis
    by (intro exI [of _ "next_token_scores s"]) (simp add: ApplyMinLength_def Search_GetSequenceLength_def)
next
  case False
  let ?w = "nvocab (params s)" and ?h = "nat (BatchBeamSize (params s))" and ?e = "eos_token_id (params s)"
  let ?I = "\<lambda>i t. \<exists>sc. t = s\<lparr>next_token_scores := sc\<rparr> \<and> length sc = ?h * ?w
     \<and> (\<forall>j<?h * ?w. sc ! j =
          (if j div ?w < i \<and> int (j mod ?w) = ?e then flowest cx else next_token_scores s ! j))"
  have "\<exists>t. for_res (\<lambda>i. put_score i ?e (flowest cx)) [0..<?h] s = Inr t \<and> ?I ?h t"
  proof (rule for_res_upt_rule [where I = ?I])
    show "?I 0 s" using ready by (intro exI [of _ "next_token_scores s"]) (simp add: scores_ready_def)
  next
    fix i and t :: "('f, 't, 'z) Search_Cpu_scheme"
    assume i: "i < ?h" and "?I i t"
    then obtain sc where t: "t = s\<lparr>next_token_scores := sc\<rparr>" and len: "length sc = ?h * ?w"
      and sc: "\<forall>j<?h * ?w. sc ! j =
          (if j div ?w < i \<and> int (j mod ?w) = ?e then flowest cx else next_token_scores s ! j)"
      by blast
    have "put_score i ?e (flowest cx) t =
        Inr (s\<lparr>next_token_scores := sc[i * ?w + nat ?e := flowest cx]\<rparr>)"
      using put_score_Inr [of t ?h i ?e "flowest cx"] eos t len i by simp
    moreover have "sc[i * ?w + nat ?e := flowest cx] ! j =
        (if j div ?w < Suc i \<and> int (j mod ?w) = ?e then flowest cx else next_token_scores s ! j)"
      if j: "j < ?h * ?w" for j
      using sc j eos len flat_index_eq [of "nat ?e" ?w j i]
      by (cases "j = i * ?w + nat ?e") (auto simp: nth_list_update less_Suc_eq)
    ultimately show "\<exists>t'. put_score i ?e (flowest cx) t = Inr t' \<and> ?I (Suc i) t'"
      using len by auto
  qed
  then obtain sc where run: "for_res (\<lambda>i. put_score i ?e (flowest cx)) [0..<?h] s =
        Inr (s\<lparr>next_token_scores := sc\<rparr>)"
    and sc: "length sc = ?h * ?w" "\<forall>j<?h * ?w. sc ! j =
          (if j div ?w < ?h \<and> int (j mod ?w) = ?e then flowest cx else next_token_scores s ! j)"
    by blast
  have "j div ?w < ?h" if "j < ?h * ?w" for j
    using that by (simp add: less_mult_imp_div_less)
  then show ?thesis
    using run sc False ready
    by (intro exI [of _ sc]) (auto simp: ApplyMinLength_def scores_ready_def Search_GetSequenceLength_def)
qed

text \<open>C14. \<open>ApplyMinLength\<close> blocks exactly the end-of-sequence token: below the minimum length it
  returns, sets the end-of-sequence score of every row to the lowest float and leaves every other
  score, the sequences and the rest of the search as they were; from the minimum length on it changes
  nothing.\<close>

theorem ApplyMinLength_correct:
  fixes s :: "('f, 't, 'z) Search_Cpu_scheme"
  assumes "scores_ready s"
    and "0 \<le> eos_token_id (params s)" and "eos_token_id (params s) < vocab_size (params s)"
  shows "\<exists>sc. ApplyMinLength cx min_len s = Inr (s\<lparr>next_token_scores := sc\<rparr>)
     \<and> length sc = length (next_token_scores s)
     \<and> (\<forall>j<length sc. sc ! j =
          (if int (Search_GetSequenceLength s) < min_len
              \<and> int (j mod nvocab (params s)) = eos_token_id (params s)
           then flowest cx else next_token_scores s ! j))"
  using assms by (rule ApplyMinLength_scores)

theorem ApplyMinLength_correct_witness:
  "\<exists>sc. ApplyMinLength int_cxx 2 example_greedy = Inr (example_greedy\<lparr>next_token_scores := sc\<rparr>)
     \<and> sc ! 2 = -1000000 \<and> sc ! 1 = 9"
  using ApplyMinLength_correct [of example_greedy int_cxx 2]
  by (auto simp: scores_ready_def BatchBeamSize_def Search_GetSequenceLength_def GetSequenceLength_def
      example_greedy_defs int_cxx_def)

text \<open>The inner loop of the repetition penalty: distinct ids of one row, each penalized once.\<close>

lemma penalty_row:
  fixes s :: "('f::linorder, 't, 'z) Search_Cpu_scheme"
  assumes "distinct ws" and "\<forall>w\<in>set ws. 0 \<le> w \<and> w < vocab_size (params s)"
    and "row < h" and "length sc = h * nvocab (params s)"
  shows "\<exists>sc'. for_res (\<lambda>word_id s.
                res_bind (GetScores s row) (\<lambda>span.
                res_bind (index_of word_id) (\<lambda>k.
                res_bind (get span k) (\<lambda>score.
                put_score row word_id (penalize cx penalty score) s)))) ws (s\<lparr>next_token_scores := sc\<rparr>) =
           Inr (s\<lparr>next_token_scores := sc'\<rparr>) \<and> length sc' = length sc
     \<and> (\<forall>j<length sc. sc' ! j =
          (if j div nvocab (params s) = row \<and> int (j mod nvocab (params s)) \<in> set ws
           then penalize cx penalty (sc ! j) else sc ! j))"
  using assms
proof (induction ws arbitrary: sc)
  case (Cons w ws)
  let ?w = "nvocab (params s)" and ?s = "s\<lparr>next_token_scores := sc\<rparr>"
  let ?k = "row * ?w + nat w"
  have w: "0 \<le> w" "w < vocab_size (params s)" "nat w < ?w" using Cons.prems(2) by auto
  have bd: "row * ?w + ?w \<le> length sc" using row_bound [of row h ?w ?w] Cons.prems(3,4) by simp
  have span: "GetScores ?s row = Inr (take ?w (drop (row * ?w) sc))"
    using bd by (simp add: GetScores_def)
  have "get (take ?w (drop (row * ?w) sc)) (nat w) = Inr (sc ! ?k)"
    using bd w length_slice [OF bd] by simp
  then have step: "res_bind (GetScores ?s row) (\<lambda>span. res_bind (index_of w) (\<lambda>k.
      res_bind (get span k) (\<lambda>score. put_score row w (penalize cx penalty score) ?s))) =
      Inr (s\<lparr>next_token_scores := sc[?k := penalize cx penalty (sc ! ?k)]\<rparr>)"
    using put_score_Inr [of ?s h row w] Cons.prems(3,4) w span by simp
  let ?sc = "sc[?k := penalize cx penalty (sc ! ?k)]"
  obtain sc' where sc': "for_res (\<lambda>word_id s.
                res_bind (GetScores s row) (\<lambda>span.
                res_bind (index_of word_id) (\<lambda>k.
                res_bind (get span k) (\<lambda>score.
                put_score row word_id (penalize cx penalty score) s)))) ws (s\<lparr>next_token_scores := ?sc\<rparr>) =
           Inr (s\<lparr>next_token_scores := sc'\<rparr>)" "length sc' = length ?sc"
     "\<forall>j<length ?sc. sc' ! j =
          (if j div ?w = row \<and> int (j mod ?w) \<in> set ws
           then penalize cx penalty (?sc ! j) else ?sc ! j)"
    using Cons.IH [of ?sc] Cons.prems by auto
  have "sc' ! j = (if j div ?w = row \<and> int (j mod ?w) \<in> set (w # ws)
           then penalize cx penalty (sc ! j) else sc ! j)" if j: "j < length sc" for j
    using sc'(3) j w Cons.prems(1) flat_index_eq [OF w(3), of j row]
    by (cases "j = ?k") (auto simp: nth_list_update)
  then show ?case using sc'(1,2) step by auto
qed auto

lemma ApplyRepetitionPenalty_scores:
  fixes s :: "('f::linorder, 't, 'z) Search_Cpu_scheme"
  assumes ready: "scores_ready s" and inv: "seq_inv (sequences s)"
    and n: "sq_batch_beam_size (sequences s) = nat (BatchBeamSize (params s))"
    and toks: "\<forall>i<nat (BatchBeamSize (params s)). \<forall>w\<in>set (seq_abs (sequences s) ! i).
                 0 \<le> w \<and> w < vocab_size (params s)"
  shows "\<exists>sc. ApplyRepetitionPenalty cx penalty s = Inr (s\<lparr>next_token_scores := sc\<rparr>)
     \<and> length sc = length (next_token_scores s)
     \<and> (\<forall>j<length sc. sc ! j =
          (if penalty \<noteq> fone cx
              \<and> int (j mod nvocab (params s)) \<in> set (seq_abs (sequences s) ! (j div nvocab (params s)))
           then penalize cx penalty (next_token_scores s ! j) else next_token_scores s ! j))"
proof (cases "penalty = fone cx")
  case True
  then show ?thesis by (intro exI [of _ "next_token_scores s"]) (simp add: ApplyRepetitionPenalty_def)
next
  case False
  let ?w = "nvocab (params s)" and ?h = "nat (BatchBeamSize (params s))"
  let ?body = "\<lambda>i s. res_bind (GetSequence (sequences s) i) (\<lambda>sequence.
             for_res (\<lambda>word_id s.
                res_bind (GetScores s i) (\<lambda>span.
                res_bind (index_of word_id) (\<lambda>k.
                res_bind (get span k) (\<lambda>score.
                put_score i word_id (penalize cx penalty score) s)))) (remdups sequence) s)"
  let ?v = "\<lambda>i j. if j div ?w < i \<and> int (j mod ?w) \<in> set (seq_abs (sequences s) ! (j div ?w))
     then penalize cx penalty (next_token_scores s ! j) else next_token_scores s ! j"
  let ?I = "\<lambda>i t. \<exists>sc. t = s\<lparr>next_token_scores := sc\<rparr> \<and> length sc = ?h * ?w \<and> (\<forall>j<?h * ?w. sc ! j = ?v i j)"
  have "\<exists>t. for_res ?body [0..<?h] s = Inr t \<and> ?I ?h t"
  proof (rule for_res_upt_rule [where I = ?I])
    show "?I 0 s" using ready by (intro exI [of _ "next_token_scores s"]) (simp add: scores_ready_def)
  next
    fix i and t :: "('f, 't, 'z) Search_Cpu_scheme"
    assume i: "i < ?h" and "?I i t"
    then obtain sc where t: "t = s\<lparr>next_token_scores := sc\<rparr>" and len: "length sc = ?h * ?w"
      and sc: "\<forall>j<?h * ?w. sc ! j = ?v i j" by blast
    have row: "GetSequence (sequences t) i = Inr (seq_abs (sequences s) ! i)"
      using i n inv t by simp
    obtain sc' where sc': "?body i t = Inr (s\<lparr>next_token_scores := sc'\<rparr>)" "length sc' = length sc"
      "\<forall>j<length sc. sc' ! j =
          (if j div ?w = i \<and> int (j mod ?w) \<in> set (remdups (seq_abs (sequences s) ! i))
           then penalize cx penalty (sc ! j) else sc ! j)"
      using penalty_row [of "remdups (seq_abs (sequences s) ! i)" s i ?h sc cx penalty] toks i len row t
      by auto
    then have "\<forall>j<?h * ?w. sc' ! j = ?v (Suc i) j"
      using sc len by (auto simp: less_Suc_eq)
    with sc' len show "\<exists>t'. ?body i t = Inr t' \<and> ?I (Suc i) t'" by auto
  qed
  then obtain sc where run: "for_res ?body [0..<?h] s = Inr (s\<lparr>next_token_scores := sc\<rparr>)"
    and sc: "length sc = ?h * ?w" "\<forall>j<?h * ?w. sc ! j = ?v ?h j"
    by blast
  have "j div ?w < ?h" if "j < ?h * ?w" for j
    using that by (simp add: less_mult_imp_div_less)
  then show ?thesis
    using run sc False ready
    by (intro exI [of _ sc]) (auto simp: ApplyRepetitionPenalty_def scores_ready_def)
qed

text \<open>C15. \<open>ApplyRepetitionPenalty\<close> penalizes every token of a sequence exactly once, however often it
  occurs there: with ids inside the vocabulary it returns, the score of a token that occurs in the
  row's sequence becomes \<open>score * penalty\<close> if it is negative and \<open>score / penalty\<close> otherwise, every
  other score is unchanged, and a penalty of 1 changes nothing.\<close>

theorem ApplyRepetitionPenalty_correct:
  fixes s :: "('f::linorder, 't, 'z) Search_Cpu_scheme"
  assumes "scores_ready s" and "seq_inv (sequences s)"
    and "sq_batch_beam_size (sequences s) = nat (BatchBeamSize (params s))"
    and "\<forall>i<nat (BatchBeamSize (params s)). \<forall>w\<in>set (seq_abs (sequences s) ! i).
           0 \<le> w \<and> w < vocab_size (params s)"
  shows "\<exists>sc. ApplyRepetitionPenalty cx penalty s = Inr (s\<lparr>next_token_scores := sc\<rparr>)
     \<and> length sc = length (next_token_scores s)
     \<and> (\<forall>j<length sc. sc ! j =
          (if penalty \<noteq> fone cx
              \<and> int (j mod nvocab (params s)) \<in> set (seq_abs (sequences s) ! (j div nvocab (params s)))
           then penalize cx penalty (next_token_scores s ! j) else next_token_scores s ! j))"
  using assms by (rule ApplyRepetitionPenalty_scores)

theorem ApplyRepetitionPenalty_correct_witness:
  "\<exists>sc. ApplyRepetitionPenalty int_cxx 3 example_greedy = Inr (example_greedy\<lparr>next_token_scores := sc\<rparr>)
     \<and> sc ! 1 = 3 \<and> sc ! 0 = 3"
proof -
  have "scores_ready example_greedy" "seq_inv (sequences example_greedy)"
    "sq_batch_beam_size (sequences example_greedy) = nat (BatchBeamSize (params example_greedy))"
    by (simp_all add: scores_ready_def seq_inv_def BatchBeamSize_def example_greedy_defs)
  moreover have "\<forall>i<nat (BatchBeamSize (params example_greedy)).
      \<forall>w\<in>set (seq_abs (sequences example_greedy) ! i). 0 \<le> w \<and> w < vocab_size (params example_greedy)"
    by (auto simp: BatchBeamSize_def seq_abs_def seq_view_def example_greedy_defs numeral_2_eq_2 All_less_Suc)
  ultimately obtain sc where "ApplyRepetitionPenalty int_cxx 3 example_greedy = Inr (example_greedy\<lparr>next_token_scores := sc\<rparr>)"
     "length sc = length (next_token_scores example_greedy)"
     "\<forall>j<length sc. sc ! j =
          (if 3 \<noteq> fone int_cxx
              \<and> int (j mod nvocab (params example_greedy)) \<in> set (seq_abs (sequences example_greedy) ! (j div nvocab (params example_greedy)))
           then penalize int_cxx 3 (next_token_scores example_greedy ! j) else next_token_scores example_greedy ! j)"
    using ApplyRepetitionPenalty_correct [of example_greedy int_cxx 3] by blast
  then show ?thesis
    by (intro exI [of _ sc]) (simp add: seq_abs_def seq_view_def penalize_def int_cxx_def example_greedy_defs numeral_2_eq_2)
qed

end
