(* ===== verification/BeamScorer.thy ===== *)
theory BeamScorer
  imports Sequences Params
begin

text \<open>
  \<open>src/beam_search_scorer.h\<close>, \<open>src/beam_search_scorer.cpp\<close>: the hypotheses kept per batch entry and
  the scorer that turns the top candidates of a step into the beams of the next one.

  \<open>BeamHypotheses.beams_\<close> is an array of \<open>num_beams\<close> slots of which the first \<open>beams_used_\<close> are
  initialised: the record holds those as a list, and the capacity. A hypothesis is stored by value;
  in the code it is a span of \<open>hypothesis_buffer_\<close>, whose cells are written once, or, in \<open>Finalize\<close>,
  of the sequence store, which is not written before the result is copied out. Of that buffer the
  model keeps the size and the offset in use, which decide whether a clone fits.
\<close>

section \<open>\<open>BeamHypotheses\<close>\<close>

record 'f HypothesisScore =
  hypothesis :: "int list"
  score :: 'f

record 'f BeamHypotheses =
  bh_beams :: "'f HypothesisScore list"
  bh_capacity :: nat
  bh_length_penalty :: 'f
  bh_done :: bool

definition BeamHypotheses_Init :: "'f \<Rightarrow> nat \<Rightarrow> 'f BeamHypotheses" where
  "BeamHypotheses_Init penalty capacity =
     \<lparr>bh_beams = [], bh_capacity = capacity, bh_length_penalty = penalty, bh_done = False\<rparr>"

text \<open>The loop that moves lower-scoring elements over to make room.\<close>

fun rotate_beams :: "'f::linorder \<Rightarrow> nat \<Rightarrow> 'f HypothesisScore list \<Rightarrow> 'f HypothesisScore list \<times> nat" where
  "rotate_beams sc 0 beams = (beams, 0)"
| "rotate_beams sc (Suc index) beams =
     (if score (beams ! index) < sc then rotate_beams sc index (beams[Suc index := beams ! index])
      else (beams, Suc index))"

definition BeamHypotheses_Add ::
    "('f::linorder, 'g, 'y) cxx_scheme \<Rightarrow> int list \<Rightarrow> 'f \<Rightarrow> 'f BeamHypotheses \<Rightarrow> 'f BeamHypotheses res" where
  "BeamHypotheses_Add cx hyp sum_logprobs h =
     (let sc = fdiv cx sum_logprobs (fpow cx (fof_int cx (int (length hyp))) (bh_length_penalty h));
          new = \<lparr>hypothesis = hyp, score = sc\<rparr>;
          used = length (bh_beams h)
      in if used = bh_capacity h then
           (if used = 0 then Inl OutOfBounds
            else if sc \<le> score (bh_beams h ! (used - 1)) then Inr h
            else (case rotate_beams sc (used - 1) (bh_beams h) of (beams, index) \<Rightarrow>
                  Inr (h\<lparr>bh_beams := beams[index := new]\<rparr>)))
         else (case rotate_beams sc used (bh_beams h @ [new]) of (beams, index) \<Rightarrow>
               Inr (h\<lparr>bh_beams := beams[index := new]\<rparr>)))"

text \<open>\<open>beams_.back()\<close> is the last slot of the array: uninitialised unless the array is full.\<close>

definition CanImprove ::
    "('f::linorder, 'g, 'y) cxx_scheme \<Rightarrow> 'f \<Rightarrow> nat \<Rightarrow> 'f BeamHypotheses \<Rightarrow> bool res" where
  "CanImprove cx best_sum_logprobs current_length h =
     (let current_score = fdiv cx best_sum_logprobs
            (fpow cx (fof_int cx (int current_length)) (bh_length_penalty h))
      in res_bind (get (bh_beams h) (bh_capacity h - 1)) (\<lambda>back. Inr (score back < current_score)))"

text \<open>\<open>Output\<close> copies the best \<open>k\<close> hypotheses to the rows of \<open>sequences\<close> and their scores, if asked.
  The release build of \<open>copy\<close> copies the source to the front of the row.\<close>

definition BeamHypotheses_Output ::
    "nat \<Rightarrow> nat \<Rightarrow> 'f BeamHypotheses \<Rightarrow> int list \<times> 'f list \<Rightarrow> (int list \<times> 'f list) res" where
  "BeamHypotheses_Output k max_len h =
     for_res (\<lambda>index (seqs, scores).
       res_bind (get (bh_beams h) index) (\<lambda>item.
       res_bind (subspan seqs (index * max_len) max_len) (\<lambda>_.
       res_bind (copy_into seqs (index * max_len) (hypothesis item)) (\<lambda>seqs'.
       if scores = [] then Inr (seqs', scores)
       else res_bind (put scores index (score item)) (\<lambda>scores'. Inr (seqs', scores'))))))
     [0..<k]"

section \<open>\<open>BeamSearchScorer\<close>\<close>

record 'f BeamSearchScorer =
  bs_batch_size :: nat
  bs_num_beams :: nat
  bs_max_length :: nat
  bs_pad_token_id :: int
  bs_eos_token_id :: int
  bs_early_stopping :: bool
  bs_not_done_count :: int
  bs_next_scores :: "'f list"
  bs_next_tokens :: "int list"
  bs_next_indices :: "int list"
  bs_hyp_size :: nat
  bs_hyp_used :: nat
  bs_hyps :: "'f BeamHypotheses list"

text \<open>The space per beam, computed in 32-bit \<open>int\<close> arithmetic as the code writes it; the conversion
  of a negative value to \<open>size_t\<close> asks \<open>new\<close> for more memory than it grants.\<close>

definition per_beam :: "int \<Rightarrow> int \<Rightarrow> int" where
  "per_beam max_len seq_len =
     s32 (s32 (max_len * s32 (max_len + 1)) - s32 (s32 (seq_len - 1) * seq_len)) div 2"

definition BeamSearchScorer_new ::
    "('f, 'g, 'y) cxx_scheme \<Rightarrow> ('f, 't) GeneratorParams \<Rightarrow> 'f BeamSearchScorer res" where
  "BeamSearchScorer_new cx p =
     (let batch_beam_size = nbatch p * nbeams p;
          pb = per_beam (max_length (search p)) (sequence_length p)
      in if pb < 0 \<and> 0 < batch_beam_size then Inl BadAlloc else
         Inr \<lparr>bs_batch_size = nbatch p, bs_num_beams = nbeams p, bs_max_length = nmax_length p,
              bs_pad_token_id = pad_token_id p, bs_eos_token_id = eos_token_id p,
              bs_early_stopping = early_stopping (search p), bs_not_done_count = batch_size p,
              bs_next_scores = map (\<lambda>i. if i mod nbeams p = 0 then fzero cx else fbig_neg cx)
                                 [0..<batch_beam_size],
              bs_next_tokens = replicate batch_beam_size 0,
              bs_next_indices = replicate batch_beam_size 0,
              bs_hyp_size = batch_beam_size * nat pb, bs_hyp_used = 0,
              bs_hyps = replicate (nbatch p) (BeamHypotheses_Init (length_penalty (search p)) (nbeams p))\<rparr>)"

definition BeamSearchScorer_IsDone :: "'f BeamSearchScorer \<Rightarrow> bool" where
  "BeamSearchScorer_IsDone s \<longleftrightarrow> bs_not_done_count s = 0"

text \<open>A batch entry that is done: pad its beams.\<close>

definition pad_batch :: "('f, 'g, 'y) cxx_scheme \<Rightarrow> nat \<Rightarrow> 'f BeamSearchScorer \<Rightarrow> 'f BeamSearchScorer res" where
  "pad_batch cx batch s =
     for_res (\<lambda>j s.
       res_bind (put (bs_next_scores s) (batch * bs_num_beams s + j) (fzero cx)) (\<lambda>sc.
       res_bind (put (bs_next_tokens s) (batch * bs_num_beams s + j) (bs_pad_token_id s)) (\<lambda>tk.
       res_bind (put (bs_next_indices s) (batch * bs_num_beams s + j) 0) (\<lambda>ix.
       Inr (s\<lparr>bs_next_scores := sc, bs_next_tokens := tk, bs_next_indices := ix\<rparr>)))))
     [0..<bs_num_beams s] s"

text \<open>An end-of-sequence candidate among the first \<open>num_beams\<close>: clone its sequence into the buffer and
  add it to the hypotheses of the entry.\<close>

definition add_hypothesis ::
    "('f::linorder, 'g, 'y) cxx_scheme \<Rightarrow> Sequences \<Rightarrow> nat \<Rightarrow> int \<Rightarrow> 'f \<Rightarrow> 'f BeamSearchScorer \<Rightarrow>
     'f BeamSearchScorer res" where
  "add_hypothesis cx sq batch batch_beam_idx next_score s =
     res_bind (index_of batch_beam_idx) (\<lambda>bbi.
     res_bind (GetSequence sq bbi) (\<lambda>src.
     if bs_hyp_size s < bs_hyp_used s + GetSequenceLength sq then Inl OutOfBounds else
     res_bind (get (bs_hyps s) batch) (\<lambda>h.
     res_bind (BeamHypotheses_Add cx src next_score h) (\<lambda>h'.
     Inr (s\<lparr>bs_hyp_used := bs_hyp_used s + GetSequenceLength sq,
             bs_hyps := (bs_hyps s)[batch := h']\<rparr>)))))"

text \<open>A candidate that continues: it becomes beam \<open>beam_idx\<close> of the entry.\<close>

definition set_beam ::
    "nat \<Rightarrow> nat \<Rightarrow> 'f \<Rightarrow> int \<Rightarrow> int \<Rightarrow> 'f BeamSearchScorer \<Rightarrow> 'f BeamSearchScorer res" where
  "set_beam batch beam_idx next_score next_token batch_beam_idx s =
     res_bind (put (bs_next_scores s) (batch * bs_num_beams s + beam_idx) next_score) (\<lambda>sc.
     res_bind (put (bs_next_tokens s) (batch * bs_num_beams s + beam_idx) next_token) (\<lambda>tk.
     res_bind (put (bs_next_indices s) (batch * bs_num_beams s + beam_idx) batch_beam_idx) (\<lambda>ix.
     Inr (s\<lparr>bs_next_scores := sc, bs_next_tokens := tk, bs_next_indices := ix\<rparr>))))"

text \<open>The candidates of a step: for every batch entry, \<open>2 * num_beams\<close> scores, tokens and beam
  indices, best first.\<close>

record 'f candidates =
  next_scores :: "'f list"
  cand_tokens :: "int list"
  next_indices :: "int list"

text \<open>The loop over the candidates \<open>j\<close> of one entry, with its \<open>continue\<close> and its \<open>break\<close>.\<close>

fun beam_loop ::
    "('f::linorder, 'g, 'y) cxx_scheme \<Rightarrow> Sequences \<Rightarrow> 'f candidates \<Rightarrow> nat \<Rightarrow> nat list \<Rightarrow>
     'f BeamSearchScorer \<Rightarrow> nat \<Rightarrow> ('f BeamSearchScorer \<times> nat) res" where
  "beam_loop cx sq cand batch [] s beam_idx = Inr (s, beam_idx)"
| "beam_loop cx sq cand batch (j # js) s beam_idx =
     (let k = batch * (2 * bs_num_beams s) + j in
      res_bind (get (cand_tokens cand) k) (\<lambda>next_token.
      res_bind (get (next_scores cand) k) (\<lambda>next_score.
      res_bind (get (next_indices cand) k) (\<lambda>next_index.
      let batch_beam_idx = int (batch * bs_num_beams s) + next_index in
      if 0 \<le> bs_eos_token_id s \<and> next_token = bs_eos_token_id s then
        if bs_num_beams s \<le> j then beam_loop cx sq cand batch js s beam_idx
        else res_bind (add_hypothesis cx sq batch batch_beam_idx next_score s) (\<lambda>s'.
             if beam_idx = bs_num_beams s then Inr (s', beam_idx)
             else beam_loop cx sq cand batch js s' beam_idx)
      else res_bind (set_beam batch beam_idx next_score next_token batch_beam_idx s) (\<lambda>s'.
           if Suc beam_idx = bs_num_beams s then Inr (s', Suc beam_idx)
           else beam_loop cx sq cand batch js s' (Suc beam_idx))))))"

text \<open>After the loop: an entry with all its hypotheses is done when stopping early or when no candidate
  can improve on them. The candidate scores are taken from offset \<open>batch * num_beams\<close>.\<close>

definition check_done ::
    "('f::linorder, 'g, 'y) cxx_scheme \<Rightarrow> Sequences \<Rightarrow> 'f candidates \<Rightarrow> nat \<Rightarrow> 'f BeamSearchScorer \<Rightarrow>
     'f BeamSearchScorer res" where
  "check_done cx sq cand batch s =
     res_bind (get (bs_hyps s) batch) (\<lambda>h.
       if length (bh_beams h) < bs_num_beams s then Inr s
       else let finish = s\<lparr>bs_hyps := (bs_hyps s)[batch := h\<lparr>bh_done := True\<rparr>],
                           bs_not_done_count := bs_not_done_count s - 1\<rparr>
            in if bs_early_stopping s then Inr finish
               else res_bind (subspan (next_scores cand) (batch * bs_num_beams s) (2 * bs_num_beams s)) (\<lambda>topk_scores.
                    res_bind (get topk_scores (max_element topk_scores)) (\<lambda>best_sum_logprobs.
                    res_bind (CanImprove cx best_sum_logprobs (GetSequenceLength sq) h) (\<lambda>improve.
                    if improve then Inr s else Inr finish))))"

definition process_batch ::
    "('f::linorder, 'g, 'y) cxx_scheme \<Rightarrow> Sequences \<Rightarrow> 'f candidates \<Rightarrow> nat \<Rightarrow> 'f BeamSearchScorer \<Rightarrow>
     'f BeamSearchScorer res" where
  "process_batch cx sq cand batch s =
     res_bind (get (bs_hyps s) batch) (\<lambda>h.
       if bh_done h then pad_batch cx batch s
       else res_bind (beam_loop cx sq cand batch [0..<2 * bs_num_beams s] s 0) (\<lambda>(s', beam_idx).
            check_done cx sq cand batch s'))"

definition Process ::
    "('f::linorder, 'g, 'y) cxx_scheme \<Rightarrow> Sequences \<Rightarrow> 'f candidates \<Rightarrow> 'f BeamSearchScorer \<Rightarrow> 'f BeamSearchScorer res" where
  "Process cx sq cand s = for_res (process_batch cx sq cand) [0..<bs_batch_size s] s"

text \<open>The first loop of \<open>Finalize\<close>: the open beams of unfinished entries become hypotheses.\<close>

definition finalize_open ::
    "('f::linorder, 'g, 'y) cxx_scheme \<Rightarrow> Sequences \<Rightarrow> nat \<Rightarrow> 'f BeamSearchScorer \<Rightarrow> 'f BeamSearchScorer res" where
  "finalize_open cx sq batch_index s =
     res_bind (get (bs_hyps s) batch_index) (\<lambda>h.
       if bh_done h then Inr s
       else for_res (\<lambda>beam_index s.
              res_bind (get (bs_next_scores s) (batch_index * bs_num_beams s + beam_index)) (\<lambda>final_score.
              res_bind (GetSequence sq (batch_index * bs_num_beams s + beam_index)) (\<lambda>final_tokens.
              res_bind (get (bs_hyps s) batch_index) (\<lambda>h.
              res_bind (BeamHypotheses_Add cx final_tokens final_score h) (\<lambda>h'.
              Inr (s\<lparr>bs_hyps := (bs_hyps s)[batch_index := h']\<rparr>))))))
            [0..<bs_num_beams s] s)"

definition Finalize ::
    "('f::linorder, 'g, 'y) cxx_scheme \<Rightarrow> Sequences \<Rightarrow> nat \<Rightarrow> int list \<Rightarrow> 'f list \<Rightarrow> 'f BeamSearchScorer \<Rightarrow>
     ('f BeamSearchScorer \<times> int list \<times> 'f list) res" where
  "Finalize cx sq num_return out_seqs out_scores s =
     res_bind (for_res (finalize_open cx sq) [0..<bs_batch_size s] s) (\<lambda>s'.
     res_bind (for_res (\<lambda>batch_index (out, scs).
         let w = num_return * bs_max_length s' in
         res_bind (get (bs_hyps s') batch_index) (\<lambda>h.
         res_bind (subspan out (batch_index * w) w) (\<lambda>batch_output.
         res_bind (if scs = [] then Inr [] else subspan scs (batch_index * num_return) num_return) (\<lambda>sb.
         res_bind (BeamHypotheses_Output num_return (bs_max_length s') h (batch_output, sb)) (\<lambda>(bo, sb').
         res_bind (copy_into out (batch_index * w) bo) (\<lambda>out'.
         if scs = [] then Inr (out', scs)
         else res_bind (copy_into scs (batch_index * num_return) sb') (\<lambda>scs'. Inr (out', scs'))))))))
       [0..<bs_batch_size s'] (replicate (length out_seqs) (bs_pad_token_id s'), out_scores)) (\<lambda>(out, scs).
     Inr (s', out, scs)))"

section \<open>Keeping the best hypotheses\<close>

text \<open>Insertion behind every element that scores at least as well: the specification of \<open>Add\<close>.\<close>

definition insert_desc :: "'f::linorder HypothesisScore \<Rightarrow> 'f HypothesisScore list \<Rightarrow> 'f HypothesisScore list" where
  "insert_desc new bs = filter (\<lambda>h. score new \<le> score h) bs @ new # filter (\<lambda>h. score h < score new) bs"

definition sorted_beams :: "'f::linorder HypothesisScore list \<Rightarrow> bool" where
  "sorted_beams bs \<longleftrightarrow> sorted_wrt (\<lambda>a b. score b \<le> score a) bs"

definition hyps_ok :: "'f::linorder BeamHypotheses \<Rightarrow> bool" where
  "hyps_ok h \<longleftrightarrow> sorted_beams (bh_beams h) \<and> length (bh_beams h) \<le> bh_capacity h \<and> 0 < bh_capacity h"

definition new_hypothesis ::
    "('f, 'g, 'y) cxx_scheme \<Rightarrow> 'f BeamHypotheses \<Rightarrow> int list \<Rightarrow> 'f \<Rightarrow> 'f HypothesisScore" where
  "new_hypothesis cx h hyp sum_logprobs = \<lparr>hypothesis = hyp, score = fdiv cx sum_logprobs
     (fpow cx (fof_int cx (int (length hyp))) (bh_length_penalty h))\<rparr>"

lemma length_insert_desc [simp]: "length (insert_desc new bs) = Suc (length bs)"
  using sum_length_filter_compl [of "\<lambda>h. score new \<le> score h" bs]
  by (simp add: insert_desc_def not_le)

lemma mset_insert_desc: "mset (insert_desc new bs) = add_mset new (mset bs)"
proof -
  have "filter_mset (\<lambda>h. score h < score new) (mset bs) = filter_mset (\<lambda>h. \<not> score new \<le> score h) (mset bs)"
    by (simp add: not_le)
  then show ?thesis
    using multiset_partition [of "mset bs" "\<lambda>h. score new \<le> score h"] by (simp add: insert_desc_def)
qed

lemma insert_desc_snoc_less: "score x < score new \<Longrightarrow> insert_desc new (bs @ [x]) = insert_desc new bs @ [x]"
  by (simp add: insert_desc_def not_le)

lemma insert_desc_all_ge: "\<forall>h\<in>set bs. score new \<le> score h \<Longrightarrow> insert_desc new bs = bs @ [new]"
  by (auto simp: insert_desc_def filter_id_conv filter_empty_conv not_less)

lemma sorted_beams_append [simp]:
  "sorted_beams (xs @ ys) \<longleftrightarrow> sorted_beams xs \<and> sorted_beams ys \<and> (\<forall>x\<in>set xs. \<forall>y\<in>set ys. score y \<le> score x)"
  by (simp add: sorted_beams_def sorted_wrt_append)

lemma sorted_beams_take: "sorted_beams xs \<Longrightarrow> sorted_beams (take n xs)"
  by (simp add: sorted_beams_def sorted_wrt_take)

lemma sorted_insert_desc:
  assumes "sorted_beams bs"
  shows "sorted_beams (insert_desc new bs)"
proof -
  have f: "sorted_beams (filter P bs)" for P
    using assms by (simp add: sorted_beams_def sorted_wrt_filter)
  then show ?thesis
    unfolding insert_desc_def sorted_beams_append
    by (auto simp: sorted_beams_def intro: less_imp_le order_trans)
qed

lemma sorted_beams_last_min:
  "sorted_beams bs \<Longrightarrow> bs \<noteq> [] \<Longrightarrow> h \<in> set bs \<Longrightarrow> score (last bs) \<le> score h"
  using append_butlast_last_id [of bs] sorted_beams_append [of "butlast bs" "[last bs]"]
  by (metis Un_iff empty_iff insert_iff list.set(1) list.set(2) order_refl set_append)

lemma rotate_beams_insert:
  "index < length beams \<Longrightarrow> sorted_beams (take index beams) \<Longrightarrow>
   (case rotate_beams (score new) index beams of (b, i) \<Rightarrow> b[i := new]) =
     insert_desc new (take index beams) @ drop (Suc index) beams"
proof (induction index arbitrary: beams)
  case 0
  then show ?case by (cases beams) (simp_all add: insert_desc_def)
next
  case (Suc index)
  have split: "take (Suc index) beams = take index beams @ [beams ! index]"
    using Suc.prems by (simp add: take_Suc_conv_app_nth)
  show ?case
  proof (cases "score (beams ! index) < score new")
    case True
    let ?b = "beams[Suc index := beams ! index]"
    have "(case rotate_beams (score new) index ?b of (b, i) \<Rightarrow> b[i := new]) =
        insert_desc new (take index ?b) @ drop (Suc index) ?b"
      using Suc.prems split by (intro Suc.IH) auto
    moreover have "drop (Suc index) ?b = beams ! index # drop (Suc (Suc index)) beams"
      using Suc.prems by (simp add: Cons_nth_drop_Suc [symmetric])
    ultimately show ?thesis
      using True by (simp add: split insert_desc_snoc_less)
  next
    case False
    then have "\<forall>h\<in>set (take (Suc index) beams). score new \<le> score h"
      using Suc.prems(2) split by (auto simp: not_less intro: order_trans)
    then show ?thesis
      using False Suc.prems(1) by (simp add: insert_desc_all_ge upd_conv_take_nth_drop)
  qed
qed

lemma BeamHypotheses_Add_eq:
  assumes "hyps_ok h"
  shows "BeamHypotheses_Add cx hyp sum_logprobs h =
    Inr (h\<lparr>bh_beams := take (bh_capacity h) (insert_desc (new_hypothesis cx h hyp sum_logprobs) (bh_beams h))\<rparr>)"
proof -
  let ?new = "new_hypothesis cx h hyp sum_logprobs" and ?bs = "bh_beams h" and ?c = "bh_capacity h"
  have srt: "sorted_beams ?bs" and le: "length ?bs \<le> ?c" and pos: "0 < ?c"
    using assms by (auto simp: hyps_ok_def)
  show ?thesis
  proof (cases "length ?bs = ?c")
    case False
    have "(case rotate_beams (score ?new) (length ?bs) (?bs @ [?new]) of (b, i) \<Rightarrow> b[i := ?new]) =
        insert_desc ?new ?bs"
      using rotate_beams_insert [of "length ?bs" "?bs @ [?new]" ?new] srt by simp
    then show ?thesis
      using False le
      by (auto simp: BeamHypotheses_Add_def new_hypothesis_def Let_def split: prod.splits)
  next
    case True
    then have ne: "?bs \<noteq> []" using pos by auto
    have last: "?bs ! (length ?bs - 1) = last ?bs" using ne by (simp add: last_conv_nth)
    have bl: "?bs = butlast ?bs @ [last ?bs]" using ne by simp
    show ?thesis
    proof (cases "score ?new \<le> score (last ?bs)")
      case le_last: True
      then have "\<forall>h\<in>set ?bs. score ?new \<le> score h"
        using sorted_beams_last_min [OF srt ne] by (blast intro: order_trans)
      then have "take ?c (insert_desc ?new ?bs) = ?bs" using True by (simp add: insert_desc_all_ge)
      then show ?thesis
        using True ne pos last le_last by (simp add: BeamHypotheses_Add_def new_hypothesis_def Let_def)
    next
      case gt: False
      have "(case rotate_beams (score ?new) (length ?bs - 1) ?bs of (b, i) \<Rightarrow> b[i := ?new]) =
          insert_desc ?new (butlast ?bs)"
        using rotate_beams_insert [of "length ?bs - 1" ?bs ?new] ne sorted_beams_take [OF srt, of "length ?bs - 1"]
        by (simp add: butlast_conv_take)
      moreover have "take ?c (insert_desc ?new ?bs) = insert_desc ?new (butlast ?bs)"
        using insert_desc_snoc_less [of "last ?bs" ?new "butlast ?bs"] gt bl True ne pos by simp
      ultimately show ?thesis
        using True ne last gt pos
        by (auto simp: BeamHypotheses_Add_def new_hypothesis_def Let_def split: prod.splits)
    qed
  qed
qed

lemma hyps_ok_Add:
  "hyps_ok h \<Longrightarrow> hyps_ok (h\<lparr>bh_beams := take (bh_capacity h) (insert_desc new (bh_beams h))\<rparr>)"
  by (simp add: hyps_ok_def sorted_beams_take sorted_insert_desc)

text \<open>C17. \<open>Add\<close> keeps the best hypotheses: on a well-formed set it returns a well-formed set of the
  same capacity whose hypotheses, in descending order of score, are the first \<open>capacity\<close> of the old
  ones with the new one inserted behind its equals; every hypothesis that is dropped scores no better
  than any that is kept.\<close>

theorem BeamHypotheses_Add_correct:
  assumes "hyps_ok h"
  shows "\<exists>h'. BeamHypotheses_Add cx hyp sum_logprobs h = Inr h' \<and> hyps_ok h'
     \<and> bh_capacity h' = bh_capacity h \<and> bh_done h' = bh_done h
     \<and> bh_beams h' = take (bh_capacity h) (insert_desc (new_hypothesis cx h hyp sum_logprobs) (bh_beams h))
     \<and> (\<exists>dropped. mset (bh_beams h') + dropped =
            add_mset (new_hypothesis cx h hyp sum_logprobs) (mset (bh_beams h))
          \<and> (\<forall>d\<in>#dropped. \<forall>k\<in>set (bh_beams h'). score d \<le> score k))"
proof -
  let ?new = "new_hypothesis cx h hyp sum_logprobs"
  let ?all = "insert_desc ?new (bh_beams h)" and ?c = "bh_capacity h"
  let ?h = "h\<lparr>bh_beams := take ?c ?all\<rparr>"
  have "mset (take ?c ?all) + mset (drop ?c ?all) = add_mset ?new (mset (bh_beams h))"
    by (metis append_take_drop_id mset_append mset_insert_desc)
  moreover have "\<forall>d\<in>#mset (drop ?c ?all). \<forall>k\<in>set (take ?c ?all). score d \<le> score k"
    using sorted_insert_desc [of "bh_beams h" ?new] assms sorted_beams_append [of "take ?c ?all" "drop ?c ?all"]
    by (simp add: hyps_ok_def)
  ultimately show ?thesis
    using BeamHypotheses_Add_eq [OF assms, of cx hyp sum_logprobs] hyps_ok_Add [OF assms, of ?new]
    by (intro exI [of _ ?h]) auto
qed

theorem BeamHypotheses_Add_correct_witness:
  "\<exists>h'. BeamHypotheses_Add int_cxx [5] 7 \<lparr>bh_beams = [\<lparr>hypothesis = [1], score = 9\<rparr>, \<lparr>hypothesis = [2], score = 3\<rparr>],
        bh_capacity = 2, bh_length_penalty = 1, bh_done = False\<rparr> = Inr h'
     \<and> map hypothesis (bh_beams h') = [[1], [5]]"
  using BeamHypotheses_Add_correct [of "\<lparr>bh_beams = [\<lparr>hypothesis = [1], score = 9\<rparr>, \<lparr>hypothesis = [2], score = 3\<rparr>],
        bh_capacity = 2, bh_length_penalty = 1, bh_done = False\<rparr>" int_cxx "[5]" 7]
  by (auto simp: hyps_ok_def sorted_beams_def insert_desc_def new_hypothesis_def int_cxx_def)

section \<open>The invariant of the scorer\<close>

definition open_hyps :: "'f BeamHypotheses list \<Rightarrow> nat" where
  "open_hyps hs = length (filter (\<lambda>h. \<not> bh_done h) hs)"

definition scorer_inv :: "'f::linorder BeamSearchScorer \<Rightarrow> bool" where
  "scorer_inv s \<longleftrightarrow> 0 < bs_num_beams s
     \<and> length (bs_next_scores s) = bs_batch_size s * bs_num_beams s
     \<and> length (bs_next_tokens s) = bs_batch_size s * bs_num_beams s
     \<and> length (bs_next_indices s) = bs_batch_size s * bs_num_beams s
     \<and> length (bs_hyps s) = bs_batch_size s
     \<and> (\<forall>h\<in>set (bs_hyps s). hyps_ok h \<and> bh_capacity h = bs_num_beams s
          \<and> (bh_done h \<longrightarrow> length (bh_beams h) = bs_num_beams s))
     \<and> bs_not_done_count s = int (open_hyps (bs_hyps s))
     \<and> bs_hyp_used s \<le> bs_hyp_size s"

text \<open>The candidates of a step are complete, point to beams of their own entry, and at most
  \<open>num_beams\<close> of the \<open>2 * num_beams\<close> of an entry are the end-of-sequence token (each of its beams
  offers every token once).\<close>

definition eos_cand :: "'f BeamSearchScorer \<Rightarrow> 'f candidates \<Rightarrow> nat \<Rightarrow> nat \<Rightarrow> bool" where
  "eos_cand s cand batch j \<longleftrightarrow> 0 \<le> bs_eos_token_id s
     \<and> cand_tokens cand ! (batch * (2 * bs_num_beams s) + j) = bs_eos_token_id s"

definition cand_ok :: "'f BeamSearchScorer \<Rightarrow> 'f candidates \<Rightarrow> bool" where
  "cand_ok s cand \<longleftrightarrow>
     length (next_scores cand) = bs_batch_size s * (2 * bs_num_beams s)
     \<and> length (cand_tokens cand) = bs_batch_size s * (2 * bs_num_beams s)
     \<and> length (next_indices cand) = bs_batch_size s * (2 * bs_num_beams s)
     \<and> (\<forall>i\<in>set (next_indices cand). 0 \<le> i \<and> i < int (bs_num_beams s))
     \<and> (\<forall>batch<bs_batch_size s.
          length (filter (eos_cand s cand batch) [0..<2 * bs_num_beams s]) \<le> bs_num_beams s)"

definition store_ok :: "'f BeamSearchScorer \<Rightarrow> Sequences \<Rightarrow> bool" where
  "store_ok s sq \<longleftrightarrow> seq_inv sq \<and> sq_batch_beam_size sq = bs_batch_size s * bs_num_beams s"

text \<open>The fields no step of a pass writes.\<close>

definition same_config :: "'f BeamSearchScorer \<Rightarrow> 'f BeamSearchScorer \<Rightarrow> bool" where
  "same_config s t \<longleftrightarrow> bs_batch_size t = bs_batch_size s \<and> bs_num_beams t = bs_num_beams s
     \<and> bs_max_length t = bs_max_length s \<and> bs_pad_token_id t = bs_pad_token_id s
     \<and> bs_eos_token_id t = bs_eos_token_id s \<and> bs_early_stopping t = bs_early_stopping s
     \<and> bs_hyp_size t = bs_hyp_size s"

lemma same_config_refl [simp]: "same_config s s"
  by (simp add: same_config_def)

lemma same_config_trans: "same_config s t \<Longrightarrow> same_config t u \<Longrightarrow> same_config s u"
  by (simp add: same_config_def)

lemma cand_ok_config: "same_config s t \<Longrightarrow> cand_ok t cand = cand_ok s cand"
  by (simp add: same_config_def cand_ok_def eos_cand_def [abs_def])

lemma store_ok_config: "same_config s t \<Longrightarrow> store_ok t sq = store_ok s sq"
  by (simp add: same_config_def store_ok_def)

lemma cand_index_bound:
  "batch < b \<Longrightarrow> j < 2 * n \<Longrightarrow> batch * (2 * n) + j < b * (2 * (n::nat))"
  by (rule row_bound_less)

section \<open>One end-of-sequence candidate, one continuing candidate\<close>

lemma open_hyps_update:
  "i < length hs \<Longrightarrow> bh_done h = bh_done (hs ! i) \<Longrightarrow> open_hyps (hs[i := h]) = open_hyps hs"
proof -
  assume i: "i < length hs" and d: "bh_done h = bh_done (hs ! i)"
  have "hs = take i hs @ hs ! i # drop (Suc i) hs" using i by (simp add: id_take_nth_drop)
  then have "open_hyps hs = open_hyps (take i hs @ hs ! i # drop (Suc i) hs)" by simp
  then show ?thesis using i d by (simp add: open_hyps_def upd_conv_take_nth_drop)
qed

lemma open_hyps_finish:
  assumes "i < length hs" and "\<not> bh_done (hs ! i)" and "bh_done h"
  shows "Suc (open_hyps (hs[i := h])) = open_hyps hs"
proof -
  have "hs = take i hs @ hs ! i # drop (Suc i) hs" using assms by (simp add: id_take_nth_drop)
  then have "open_hyps hs = open_hyps (take i hs @ hs ! i # drop (Suc i) hs)" by simp
  then show ?thesis
    using assms by (simp add: open_hyps_def upd_conv_take_nth_drop)
qed

lemma scorer_inv_count: "scorer_inv s \<Longrightarrow> bs_not_done_count s = int (open_hyps (bs_hyps s))"
  by (simp add: scorer_inv_def)

text \<open>Replacing the hypotheses of one entry keeps the invariant.\<close>

lemma scorer_inv_update:
  assumes inv: "scorer_inv s" and b: "batch < bs_batch_size s" and h: "hyps_ok h"
    and cap: "bh_capacity h = bs_num_beams s" "bh_done h \<Longrightarrow> length (bh_beams h) = bs_num_beams s"
    and u: "u \<le> bs_hyp_size s" and n: "n = int (open_hyps ((bs_hyps s)[batch := h]))"
  shows "scorer_inv (s\<lparr>bs_hyp_used := u, bs_hyps := (bs_hyps s)[batch := h], bs_not_done_count := n\<rparr>)"
proof -
  have "hyps_ok g \<and> bh_capacity g = bs_num_beams s \<and> (bh_done g \<longrightarrow> length (bh_beams g) = bs_num_beams s)"
    if "g \<in> set ((bs_hyps s)[batch := h])" for g
  proof -
    have "g = h \<or> g \<in> set (bs_hyps s)" using that set_update_subset_insert by fastforce
    then show ?thesis
    proof
      assume "g = h"
      with h cap show ?thesis by simp
    next
      assume "g \<in> set (bs_hyps s)"
      then show ?thesis using inv unfolding scorer_inv_def by blast
    qed
  qed
  moreover have "0 < bs_num_beams s \<and> length (bs_next_scores s) = bs_batch_size s * bs_num_beams s
     \<and> length (bs_next_tokens s) = bs_batch_size s * bs_num_beams s
     \<and> length (bs_next_indices s) = bs_batch_size s * bs_num_beams s \<and> length (bs_hyps s) = bs_batch_size s"
    using inv unfolding scorer_inv_def by blast
  ultimately show ?thesis using u n by (simp add: scorer_inv_def)
qed

lemma scorer_inv_replace:
  assumes inv: "scorer_inv s" and b: "batch < bs_batch_size s" and h: "hyps_ok h"
    and cap: "bh_capacity h = bs_num_beams s" and nd: "\<not> bh_done h" "\<not> bh_done (bs_hyps s ! batch)"
    and u: "u \<le> bs_hyp_size s"
  shows "scorer_inv (s\<lparr>bs_hyp_used := u, bs_hyps := (bs_hyps s)[batch := h]\<rparr>)"
proof -
  have "batch < length (bs_hyps s)" using inv b by (simp add: scorer_inv_def)
  then have "bs_not_done_count s = int (open_hyps ((bs_hyps s)[batch := h]))"
    using scorer_inv_count [OF inv] open_hyps_update [of batch "bs_hyps s" h] nd by simp
  from scorer_inv_update [OF inv b h cap _ u this] nd show ?thesis
    by simp
qed

lemma add_hypothesis_ok:
  assumes inv: "scorer_inv s" and sq: "store_ok s sq" and b: "batch < bs_batch_size s"
    and notdone: "\<not> bh_done (bs_hyps s ! batch)"
    and idx: "0 \<le> idx" "idx < int (bs_batch_size s * bs_num_beams s)"
    and room: "bs_hyp_used s + GetSequenceLength sq \<le> bs_hyp_size s"
  shows "\<exists>s'. add_hypothesis cx sq batch idx sc s = Inr s' \<and> scorer_inv s' \<and> same_config s s'
     \<and> bs_hyp_used s' = bs_hyp_used s + GetSequenceLength sq
     \<and> \<not> bh_done (bs_hyps s' ! batch)
     \<and> bs_next_scores s' = bs_next_scores s \<and> bs_next_tokens s' = bs_next_tokens s
     \<and> bs_next_indices s' = bs_next_indices s
     \<and> (\<forall>i. i \<noteq> batch \<longrightarrow> bs_hyps s' ! i = bs_hyps s ! i)"
proof -
  let ?h = "bs_hyps s ! batch"
  have bl: "batch < length (bs_hyps s)" using inv b by (simp add: scorer_inv_def)
  then have hm: "?h \<in> set (bs_hyps s)" by simp
  then have hok: "hyps_ok ?h" and cap: "bh_capacity ?h = bs_num_beams s"
    using inv by (auto simp: scorer_inv_def)
  have "nat idx < sq_batch_beam_size sq" using sq idx by (simp add: store_ok_def nat_less_iff)
  then have seq: "GetSequence sq (nat idx) = Inr (seq_view sq (nat idx))"
    using sq by (simp add: store_ok_def)
  let ?h' = "?h\<lparr>bh_beams := take (bh_capacity ?h) (insert_desc (new_hypothesis cx ?h (seq_view sq (nat idx)) sc) (bh_beams ?h))\<rparr>"
  let ?s = "s\<lparr>bs_hyp_used := bs_hyp_used s + GetSequenceLength sq, bs_hyps := (bs_hyps s)[batch := ?h']\<rparr>"
  have eq: "add_hypothesis cx sq batch idx sc s = Inr ?s"
    using idx seq room bl BeamHypotheses_Add_eq [OF hok, of cx "seq_view sq (nat idx)" sc] by (simp add: add_hypothesis_def)
  have "scorer_inv ?s"
    using cap notdone room by (intro scorer_inv_replace [OF inv b hyps_ok_Add [OF hok]]) simp_all
  then show ?thesis
    using eq notdone bl by (intro exI [of _ ?s]) (simp add: same_config_def)
qed

text \<open>The beams of entry \<open>batch\<close> from \<open>beam_idx\<close> on hold the candidates \<open>js\<close> in turn.\<close>

definition beams_are ::
    "'f BeamSearchScorer \<Rightarrow> 'f candidates \<Rightarrow> nat \<Rightarrow> nat \<Rightarrow> nat list \<Rightarrow> bool" where
  "beams_are s cand batch beam_idx js \<longleftrightarrow>
     (\<forall>i. i < length js \<longrightarrow> beam_idx + i < bs_num_beams s \<longrightarrow>
        (let dst = batch * bs_num_beams s + beam_idx + i; src = batch * (2 * bs_num_beams s) + js ! i
         in bs_next_scores s ! dst = next_scores cand ! src
          \<and> bs_next_tokens s ! dst = cand_tokens cand ! src
          \<and> bs_next_indices s ! dst = int (batch * bs_num_beams s) + next_indices cand ! src))"

text \<open>Nothing outside the beams of entry \<open>batch\<close> from \<open>beam_idx\<close> on has changed.\<close>

definition beams_kept :: "'f BeamSearchScorer \<Rightarrow> 'f BeamSearchScorer \<Rightarrow> nat \<Rightarrow> nat \<Rightarrow> bool" where
  "beams_kept s t batch beam_idx \<longleftrightarrow>
     (\<forall>k. k < batch * bs_num_beams s + beam_idx \<or> (Suc batch) * bs_num_beams s \<le> k \<longrightarrow>
        bs_next_scores t ! k = bs_next_scores s ! k \<and> bs_next_tokens t ! k = bs_next_tokens s ! k
        \<and> bs_next_indices t ! k = bs_next_indices s ! k)
     \<and> (\<forall>i. i \<noteq> batch \<longrightarrow> bs_hyps t ! i = bs_hyps s ! i)"

lemma set_beam_ok:
  assumes inv: "scorer_inv s" and b: "batch < bs_batch_size s" and bi: "beam_idx < bs_num_beams s"
  shows "\<exists>s'. set_beam batch beam_idx sc tk ix s = Inr s' \<and> scorer_inv s' \<and> same_config s s'
     \<and> bs_hyp_used s' = bs_hyp_used s \<and> bs_hyps s' = bs_hyps s
     \<and> bs_next_scores s' = (bs_next_scores s)[batch * bs_num_beams s + beam_idx := sc]
     \<and> bs_next_tokens s' = (bs_next_tokens s)[batch * bs_num_beams s + beam_idx := tk]
     \<and> bs_next_indices s' = (bs_next_indices s)[batch * bs_num_beams s + beam_idx := ix]"
  using inv row_bound_less [OF b bi]
  by (simp add: set_beam_def scorer_inv_def same_config_def)

section \<open>The loop over the candidates of an entry\<close>

lemma cand_index_range:
  assumes "cand_ok s cand" and "batch < bs_batch_size s" and "j < 2 * bs_num_beams s"
  shows "batch * (2 * bs_num_beams s) + j < length (next_scores cand)"
    and "batch * (2 * bs_num_beams s) + j < length (cand_tokens cand)"
    and "batch * (2 * bs_num_beams s) + j < length (next_indices cand)"
    and "0 \<le> int (batch * bs_num_beams s) + next_indices cand ! (batch * (2 * bs_num_beams s) + j)"
    and "int (batch * bs_num_beams s) + next_indices cand ! (batch * (2 * bs_num_beams s) + j)
           < int (bs_batch_size s * bs_num_beams s)"
proof -
  let ?k = "batch * (2 * bs_num_beams s) + j"
  have k: "?k < bs_batch_size s * (2 * bs_num_beams s)" using cand_index_bound [OF assms(2,3)] .
  then show "?k < length (next_scores cand)" "?k < length (cand_tokens cand)"
    and l: "?k < length (next_indices cand)"
    using assms(1) by (auto simp: cand_ok_def)
  have r: "0 \<le> next_indices cand ! ?k" "next_indices cand ! ?k < int (bs_num_beams s)"
    using assms(1) l by (auto simp: cand_ok_def)
  show "0 \<le> int (batch * bs_num_beams s) + next_indices cand ! ?k" using r by simp
  have "int (batch * bs_num_beams s + bs_num_beams s) \<le> int (bs_batch_size s * bs_num_beams s)"
    using row_bound [OF assms(2) order_refl, of "bs_num_beams s"] by (simp only: of_nat_le_iff)
  then show "int (batch * bs_num_beams s) + next_indices cand ! ?k < int (bs_batch_size s * bs_num_beams s)"
    using r by simp
qed

definition loop_post ::
    "Sequences \<Rightarrow> 'f::linorder candidates \<Rightarrow> nat \<Rightarrow> nat list \<Rightarrow> 'f BeamSearchScorer \<Rightarrow> nat \<Rightarrow> 'f BeamSearchScorer \<Rightarrow> bool" where
  "loop_post sq cand batch js s beam_idx s' \<longleftrightarrow>
     scorer_inv s' \<and> same_config s s' \<and> \<not> bh_done (bs_hyps s' ! batch)
     \<and> bs_hyp_used s' \<le> bs_hyp_used s + length (filter (\<lambda>j. j < bs_num_beams s) js) * GetSequenceLength sq
     \<and> beams_kept s s' batch beam_idx
     \<and> beams_are s' cand batch beam_idx (filter (\<lambda>j. \<not> eos_cand s cand batch j) js)"

lemma loop_post_skip:
  "loop_post sq cand batch js s beam_idx s' \<Longrightarrow> eos_cand s cand batch j \<Longrightarrow>
   loop_post sq cand batch (j # js) s beam_idx s'"
  by (auto simp: loop_post_def)

lemma loop_post_add:
  assumes post: "loop_post sq cand batch js t beam_idx s'" and e: "eos_cand s cand batch j"
    and j: "j < bs_num_beams s" and cfg: "same_config s t"
    and used: "bs_hyp_used t = bs_hyp_used s + GetSequenceLength sq"
    and keep: "bs_next_scores t = bs_next_scores s" "bs_next_tokens t = bs_next_tokens s"
       "bs_next_indices t = bs_next_indices s" "\<forall>i. i \<noteq> batch \<longrightarrow> bs_hyps t ! i = bs_hyps s ! i"
  shows "loop_post sq cand batch (j # js) s beam_idx s'"
proof -
  have nb: "bs_num_beams t = bs_num_beams s" and ec: "eos_cand t cand batch = eos_cand s cand batch"
    using cfg by (auto simp: same_config_def eos_cand_def fun_eq_iff)
  show ?thesis
    using post e j used keep same_config_trans [OF cfg, of s'] nb
    by (auto simp: loop_post_def beams_kept_def ec)
qed

lemma beams_are_Cons:
  "beams_are s cand batch beam_idx (j # js) \<longleftrightarrow>
     (beam_idx < bs_num_beams s \<longrightarrow>
        bs_next_scores s ! (batch * bs_num_beams s + beam_idx) = next_scores cand ! (batch * (2 * bs_num_beams s) + j)
      \<and> bs_next_tokens s ! (batch * bs_num_beams s + beam_idx) = cand_tokens cand ! (batch * (2 * bs_num_beams s) + j)
      \<and> bs_next_indices s ! (batch * bs_num_beams s + beam_idx) =
          int (batch * bs_num_beams s) + next_indices cand ! (batch * (2 * bs_num_beams s) + j))
     \<and> beams_are s cand batch (Suc beam_idx) js"
  unfolding beams_are_def by (auto simp: All_less_Suc2 Let_def)

lemma loop_post_set:
  assumes post: "loop_post sq cand batch js t (Suc beam_idx) s'" and e: "\<not> eos_cand s cand batch j"
    and inv: "scorer_inv s" and b: "batch < bs_batch_size s" "beam_idx < bs_num_beams s"
    and cfg: "same_config s t" and used: "bs_hyp_used t = bs_hyp_used s" "bs_hyps t = bs_hyps s"
    and upd: "bs_next_scores t = (bs_next_scores s)[batch * bs_num_beams s + beam_idx :=
                next_scores cand ! (batch * (2 * bs_num_beams s) + j)]"
      "bs_next_tokens t = (bs_next_tokens s)[batch * bs_num_beams s + beam_idx :=
                cand_tokens cand ! (batch * (2 * bs_num_beams s) + j)]"
      "bs_next_indices t = (bs_next_indices s)[batch * bs_num_beams s + beam_idx :=
                int (batch * bs_num_beams s) + next_indices cand ! (batch * (2 * bs_num_beams s) + j)]"
  shows "loop_post sq cand batch (j # js) s beam_idx s'"
proof -
  let ?at = "batch * bs_num_beams s + beam_idx"
  have nb: "bs_num_beams t = bs_num_beams s" and ec: "eos_cand t cand batch = eos_cand s cand batch"
    and nb': "bs_num_beams s' = bs_num_beams s"
    using cfg post by (auto simp: same_config_def eos_cand_def fun_eq_iff loop_post_def)
  have at: "?at < length (bs_next_scores s)" "?at < length (bs_next_tokens s)" "?at < length (bs_next_indices s)"
    using row_bound_less [OF b] inv by (auto simp: scorer_inv_def)
  have kept: "beams_kept t s' batch (Suc beam_idx)" using post by (simp add: loop_post_def)
  then have k: "bs_next_scores s' ! ?at = bs_next_scores t ! ?at"
    "bs_next_tokens s' ! ?at = bs_next_tokens t ! ?at" "bs_next_indices s' ! ?at = bs_next_indices t ! ?at"
    by (auto simp: beams_kept_def nb)
  have "beams_kept s s' batch beam_idx"
    using kept used upd b by (auto simp: beams_kept_def nb)
  moreover have "beams_are s' cand batch beam_idx (j # filter (\<lambda>j. \<not> eos_cand s cand batch j) js)"
    using post k upd at by (simp add: beams_are_Cons nb' loop_post_def ec)
  ultimately show ?thesis
    using post e used same_config_trans [OF cfg, of s'] nb by (auto simp: loop_post_def ec)
qed


lemma loop_post_refl:
  "scorer_inv s \<Longrightarrow> \<not> bh_done (bs_hyps s ! batch) \<Longrightarrow> loop_post sq cand batch js s (bs_num_beams s) s"
  by (simp add: loop_post_def beams_kept_def beams_are_def)

lemma beam_loop_ok:
  assumes "scorer_inv s" and "store_ok s sq" and "cand_ok s cand" and "batch < bs_batch_size s"
    and "\<not> bh_done (bs_hyps s ! batch)" and "beam_idx < bs_num_beams s"
    and "\<forall>j\<in>set js. j < 2 * bs_num_beams s"
    and "bs_hyp_used s + length (filter (\<lambda>j. j < bs_num_beams s) js) * GetSequenceLength sq \<le> bs_hyp_size s"
    and "bs_num_beams s \<le> beam_idx + length (filter (\<lambda>j. \<not> eos_cand s cand batch j) js)"
  shows "\<exists>s'. beam_loop cx sq cand batch js s beam_idx = Inr (s', bs_num_beams s)
     \<and> loop_post sq cand batch js s beam_idx s'"
  using assms
proof (induction js arbitrary: s beam_idx)
  case (Cons j js)
  note prems = Cons.prems
  let ?k = "batch * (2 * bs_num_beams s) + j"
  let ?ix = "int (batch * bs_num_beams s) + next_indices cand ! ?k"
  have j: "j < 2 * bs_num_beams s" using prems(7) by simp
  note range = cand_index_range [OF prems(3,4) j]
  consider (skip) "eos_cand s cand batch j" "bs_num_beams s \<le> j"
    | (add) "eos_cand s cand batch j" "j < bs_num_beams s" | (set) "\<not> eos_cand s cand batch j"
    by linarith
  then show ?case
  proof cases
    case skip
    then have "beam_loop cx sq cand batch (j # js) s beam_idx = beam_loop cx sq cand batch js s beam_idx"
      using range by (simp add: eos_cand_def)
    moreover have "\<exists>s'. beam_loop cx sq cand batch js s beam_idx = Inr (s', bs_num_beams s)
        \<and> loop_post sq cand batch js s beam_idx s'"
      using prems skip by (intro Cons.IH) auto
    ultimately show ?thesis using loop_post_skip skip(1) by metis
  next
    case add
    obtain t where t: "add_hypothesis cx sq batch ?ix (next_scores cand ! ?k) s = Inr t" "scorer_inv t"
      "same_config s t" "bs_hyp_used t = bs_hyp_used s + GetSequenceLength sq"
      "\<not> bh_done (bs_hyps t ! batch)" "bs_next_scores t = bs_next_scores s"
      "bs_next_tokens t = bs_next_tokens s" "bs_next_indices t = bs_next_indices s"
      "\<forall>i. i \<noteq> batch \<longrightarrow> bs_hyps t ! i = bs_hyps s ! i"
      using add_hypothesis_ok [OF prems(1,2,4,5) range(4,5), of cx "next_scores cand ! ?k"] prems(8) add
      by auto
    have ec: "eos_cand t cand batch = eos_cand s cand batch" and nb: "bs_num_beams t = bs_num_beams s"
      using t(3) by (auto simp: same_config_def eos_cand_def fun_eq_iff)
    have "\<exists>s'. beam_loop cx sq cand batch js t beam_idx = Inr (s', bs_num_beams t)
        \<and> loop_post sq cand batch js t beam_idx s'"
    proof (rule Cons.IH [OF t(2) _ _ _ t(5)])
      show "store_ok t sq" "cand_ok t cand"
        using prems(2,3) cand_ok_config [OF t(3)] store_ok_config [OF t(3)] by auto
      show "batch < bs_batch_size t" "beam_idx < bs_num_beams t" "\<forall>j\<in>set js. j < 2 * bs_num_beams t"
        using prems(4,6,7) t(3) by (auto simp: same_config_def)
      show "bs_hyp_used t + length (filter (\<lambda>j. j < bs_num_beams t) js) * GetSequenceLength sq \<le> bs_hyp_size t"
        using prems(8) t(3,4) add(2) by (simp add: same_config_def)
      show "bs_num_beams t \<le> beam_idx + length (filter (\<lambda>j. \<not> eos_cand t cand batch j) js)"
        using prems(9) add(1) nb ec by simp
    qed
    then obtain s' where "beam_loop cx sq cand batch js t beam_idx = Inr (s', bs_num_beams s)"
      "loop_post sq cand batch js t beam_idx s'"
      using nb by auto
    then show ?thesis
      using loop_post_add [OF _ add t(3,4,6,7,8,9)] t(1) add range prems(6)
      by (simp add: eos_cand_def Let_def)
  next
    case set
    obtain t where t: "set_beam batch beam_idx (next_scores cand ! ?k) (cand_tokens cand ! ?k) ?ix s = Inr t"
      "scorer_inv t" "same_config s t" "bs_hyp_used t = bs_hyp_used s" "bs_hyps t = bs_hyps s"
      "bs_next_scores t = (bs_next_scores s)[batch * bs_num_beams s + beam_idx := next_scores cand ! ?k]"
      "bs_next_tokens t = (bs_next_tokens s)[batch * bs_num_beams s + beam_idx := cand_tokens cand ! ?k]"
      "bs_next_indices t = (bs_next_indices s)[batch * bs_num_beams s + beam_idx := ?ix]"
      using set_beam_ok [OF prems(1,4,6), of "next_scores cand ! ?k" "cand_tokens cand ! ?k" ?ix] by auto
    have ec: "eos_cand t cand batch = eos_cand s cand batch" and nb: "bs_num_beams t = bs_num_beams s"
      using t(3) by (auto simp: same_config_def eos_cand_def fun_eq_iff)
    have step: "beam_loop cx sq cand batch (j # js) s beam_idx =
        (if Suc beam_idx = bs_num_beams s then Inr (t, Suc beam_idx)
         else beam_loop cx sq cand batch js t (Suc beam_idx))"
      using set range(1-3) t(1) by (auto simp: eos_cand_def Let_def)
    note post = loop_post_set [OF _ set prems(1,4,6) t(3,4,5,6,7,8)]
    show ?thesis
    proof (cases "Suc beam_idx = bs_num_beams s")
      case True
      then show ?thesis
        using step post loop_post_refl [OF t(2), of batch sq cand js] t(5) prems(5) nb by auto
    next
      case False
      have "\<exists>s'. beam_loop cx sq cand batch js t (Suc beam_idx) = Inr (s', bs_num_beams t)
          \<and> loop_post sq cand batch js t (Suc beam_idx) s'"
      proof (rule Cons.IH [OF t(2)])
        show "store_ok t sq" "cand_ok t cand"
          using prems(2,3) cand_ok_config [OF t(3)] store_ok_config [OF t(3)] by auto
        show "batch < bs_batch_size t" "Suc beam_idx < bs_num_beams t" "\<forall>j\<in>set js. j < 2 * bs_num_beams t"
          using prems(4,6,7) t(3) False by (auto simp: same_config_def)
        show "\<not> bh_done (bs_hyps t ! batch)" using prems(5) t(5) by simp
        show "bs_hyp_used t + length (filter (\<lambda>j. j < bs_num_beams t) js) * GetSequenceLength sq \<le> bs_hyp_size t"
          using prems(8) t(3,4) by (simp add: same_config_def split: if_splits)
        show "bs_num_beams t \<le> Suc beam_idx + length (filter (\<lambda>j. \<not> eos_cand t cand batch j) js)"
          using prems(9) set nb ec by simp
      qed
      then show ?thesis using step post False nb by auto
    qed
  qed
qed simp

section \<open>One pass over all entries\<close>

lemma pad_batch_ok:
  assumes inv: "scorer_inv s" and b: "batch < bs_batch_size s"
  shows "\<exists>sc tk ix. pad_batch cx batch s = Inr (s\<lparr>bs_next_scores := sc, bs_next_tokens := tk, bs_next_indices := ix\<rparr>)
     \<and> length sc = length (bs_next_scores s) \<and> length tk = length (bs_next_tokens s)
     \<and> length ix = length (bs_next_indices s)
     \<and> (\<forall>k. if batch * bs_num_beams s \<le> k \<and> k < batch * bs_num_beams s + bs_num_beams s
          then sc ! k = fzero cx \<and> tk ! k = bs_pad_token_id s \<and> ix ! k = 0
          else sc ! k = bs_next_scores s ! k \<and> tk ! k = bs_next_tokens s ! k \<and> ix ! k = bs_next_indices s ! k)"
proof -
  let ?o = "batch * bs_num_beams s"
  let ?I = "\<lambda>j t. \<exists>sc tk ix. t = s\<lparr>bs_next_scores := sc, bs_next_tokens := tk, bs_next_indices := ix\<rparr>
     \<and> length sc = length (bs_next_scores s) \<and> length tk = length (bs_next_tokens s)
     \<and> length ix = length (bs_next_indices s)
     \<and> (\<forall>k. if ?o \<le> k \<and> k < ?o + j
          then sc ! k = fzero cx \<and> tk ! k = bs_pad_token_id s \<and> ix ! k = 0
          else sc ! k = bs_next_scores s ! k \<and> tk ! k = bs_next_tokens s ! k \<and> ix ! k = bs_next_indices s ! k)"
  have "\<exists>t. pad_batch cx batch s = Inr t \<and> ?I (bs_num_beams s) t"
    unfolding pad_batch_def
  proof (rule for_res_upt_rule [where I = ?I])
    show "?I 0 s" 
      by (rule exI [of _ "bs_next_scores s"], rule exI [of _ "bs_next_tokens s"], rule exI [of _ "bs_next_indices s"]) auto
  next
    fix j and t :: "'a BeamSearchScorer"
    assume j: "j < bs_num_beams s" and "?I j t"
    then obtain sc tk ix where t: "t = s\<lparr>bs_next_scores := sc, bs_next_tokens := tk, bs_next_indices := ix\<rparr>"
      and len: "length sc = length (bs_next_scores s)" "length tk = length (bs_next_tokens s)"
        "length ix = length (bs_next_indices s)"
      and upd: "\<forall>k. if ?o \<le> k \<and> k < ?o + j
          then sc ! k = fzero cx \<and> tk ! k = bs_pad_token_id s \<and> ix ! k = 0
          else sc ! k = bs_next_scores s ! k \<and> tk ! k = bs_next_tokens s ! k \<and> ix ! k = bs_next_indices s ! k"
      by auto
    have at: "?o + j < length sc" "?o + j < length tk" "?o + j < length ix"
      using row_bound_less [OF b j] inv len by (auto simp: scorer_inv_def)
    have "if ?o \<le> k \<and> k < ?o + Suc j
          then sc[?o + j := fzero cx] ! k = fzero cx \<and> tk[?o + j := bs_pad_token_id s] ! k = bs_pad_token_id s
             \<and> ix[?o + j := 0] ! k = 0
          else sc[?o + j := fzero cx] ! k = bs_next_scores s ! k \<and> tk[?o + j := bs_pad_token_id s] ! k = bs_next_tokens s ! k
             \<and> ix[?o + j := 0] ! k = bs_next_indices s ! k" for k
      using upd [rule_format, of k] at by (cases "k = ?o + j") (auto simp: less_Suc_eq)
    then have "?I (Suc j) (s\<lparr>bs_next_scores := sc[?o + j := fzero cx], bs_next_tokens := tk[?o + j := bs_pad_token_id s],
                bs_next_indices := ix[?o + j := 0]\<rparr>)"
      using len by - (rule exI [of _ "sc[?o + j := fzero cx]"], rule exI [of _ "tk[?o + j := bs_pad_token_id s]"],
          rule exI [of _ "ix[?o + j := 0]"], simp)
    then show "\<exists>t'. (res_bind (put (bs_next_scores t) (batch * bs_num_beams t + j) (fzero cx)) (\<lambda>sc.
       res_bind (put (bs_next_tokens t) (batch * bs_num_beams t + j) (bs_pad_token_id t)) (\<lambda>tk.
       res_bind (put (bs_next_indices t) (batch * bs_num_beams t + j) 0) (\<lambda>ix.
       Inr (t\<lparr>bs_next_scores := sc, bs_next_tokens := tk, bs_next_indices := ix\<rparr>))))) = Inr t' \<and> ?I (Suc j) t'"
      using at unfolding t by simp
  qed
  then show ?thesis by blast
qed

lemma cand_slice:
  "batch < bs_batch_size s \<Longrightarrow> cand_ok s cand \<Longrightarrow>
   batch * bs_num_beams s + 2 * bs_num_beams s \<le> length (next_scores cand)"
proof -
  assume "batch < bs_batch_size s" and c: "cand_ok s cand"
  then have "Suc batch * (2 * bs_num_beams s) \<le> bs_batch_size s * (2 * bs_num_beams s)"
    by (intro mult_le_mono1) simp
  moreover have "batch * bs_num_beams s \<le> batch * (2 * bs_num_beams s)" by (intro mult_le_mono2) simp
  ultimately show ?thesis using c by (simp add: cand_ok_def)
qed

lemma check_done_ok:
  assumes inv: "scorer_inv s" and cand: "cand_ok s cand" and b: "batch < bs_batch_size s"
    and nd: "\<not> bh_done (bs_hyps s ! batch)"
  shows "\<exists>s'. check_done cx sq cand batch s = Inr s' \<and> scorer_inv s' \<and> same_config s s'
     \<and> bs_next_scores s' = bs_next_scores s \<and> bs_next_tokens s' = bs_next_tokens s
     \<and> bs_next_indices s' = bs_next_indices s \<and> bs_hyp_used s' = bs_hyp_used s
     \<and> (\<forall>i. i \<noteq> batch \<longrightarrow> bs_hyps s' ! i = bs_hyps s ! i)
     \<and> (bs_early_stopping s \<longrightarrow> (bh_done (bs_hyps s' ! batch) \<longleftrightarrow> length (bh_beams (bs_hyps s ! batch)) = bs_num_beams s))"
proof -
  let ?h = "bs_hyps s ! batch"
  let ?fin = "s\<lparr>bs_hyps := (bs_hyps s)[batch := ?h\<lparr>bh_done := True\<rparr>], bs_not_done_count := bs_not_done_count s - 1\<rparr>"
  have bl: "batch < length (bs_hyps s)" using inv b by (simp add: scorer_inv_def)
  then have "?h \<in> set (bs_hyps s)" by simp
  then have hok: "hyps_ok ?h" and cap: "bh_capacity ?h = bs_num_beams s"
    using inv unfolding scorer_inv_def by blast+
  have le: "length (bh_beams ?h) \<le> bs_num_beams s" and pos: "0 < bs_num_beams s"
    using hok cap by (auto simp: hyps_ok_def)
  have fin: "scorer_inv ?fin" if full: "length (bh_beams ?h) = bs_num_beams s"
  proof -
    have "hyps_ok (?h\<lparr>bh_done := True\<rparr>)" using hok by (simp add: hyps_ok_def)
    moreover have "bs_not_done_count s - 1 = int (open_hyps ((bs_hyps s)[batch := ?h\<lparr>bh_done := True\<rparr>]))"
      using scorer_inv_count [OF inv] open_hyps_finish [OF bl nd, of "?h\<lparr>bh_done := True\<rparr>"] by simp
    moreover have "bs_hyp_used s \<le> bs_hyp_size s" using inv by (simp add: scorer_inv_def)
    ultimately have "scorer_inv (s\<lparr>bs_hyp_used := bs_hyp_used s, bs_hyps := (bs_hyps s)[batch := ?h\<lparr>bh_done := True\<rparr>],
        bs_not_done_count := bs_not_done_count s - 1\<rparr>)"
      using cap full by (intro scorer_inv_update [OF inv b]) simp_all
    then show ?thesis by simp
  qed
  let ?tk = "take (2 * bs_num_beams s) (drop (batch * bs_num_beams s) (next_scores cand))"
  have sub: "batch * bs_num_beams s + 2 * bs_num_beams s \<le> length (next_scores cand)"
    using cand_slice [OF b cand] .
  then have "?tk \<noteq> []" using pos by auto
  then have mx: "max_element ?tk < length ?tk" by (rule max_element_less)
  have "check_done cx sq cand batch s = Inr s \<and> (bs_early_stopping s \<longrightarrow> length (bh_beams ?h) \<noteq> bs_num_beams s)
      \<or> check_done cx sq cand batch s = Inr ?fin \<and> length (bh_beams ?h) = bs_num_beams s"
  proof (cases "length (bh_beams ?h) < bs_num_beams s")
    case True
    then show ?thesis using bl by (simp add: check_done_def)
  next
    case False
    then have full: "length (bh_beams ?h) = bs_num_beams s" using le by simp
    then show ?thesis
      using bl sub mx cap pos by (auto simp: check_done_def CanImprove_def Let_def)
  qed
  then show ?thesis
  proof
    assume "check_done cx sq cand batch s = Inr s \<and> (bs_early_stopping s \<longrightarrow> length (bh_beams ?h) \<noteq> bs_num_beams s)"
    then show ?thesis using inv nd by auto
  next
    assume a: "check_done cx sq cand batch s = Inr ?fin \<and> length (bh_beams ?h) = bs_num_beams s"
    then show ?thesis using fin bl by (intro exI [of _ ?fin]) (simp add: same_config_def)
  qed
qed

text \<open>What a pass leaves of entry \<open>i\<close>: a done entry is padded, an open one continues with its first
  \<open>num_beams\<close> candidates other than end-of-sequence.\<close>

definition entry_post ::
    "('f, 'g, 'y) cxx_scheme \<Rightarrow> 'f::linorder candidates \<Rightarrow> 'f BeamSearchScorer \<Rightarrow> nat \<Rightarrow> 'f BeamSearchScorer \<Rightarrow> bool" where
  "entry_post cx cand s i t \<longleftrightarrow>
     (if bh_done (bs_hyps s ! i)
      then bs_hyps t ! i = bs_hyps s ! i \<and> (\<forall>k<bs_num_beams s.
             bs_next_scores t ! (i * bs_num_beams s + k) = fzero cx
             \<and> bs_next_tokens t ! (i * bs_num_beams s + k) = bs_pad_token_id s
             \<and> bs_next_indices t ! (i * bs_num_beams s + k) = 0)
      else beams_are t cand i 0 (filter (\<lambda>j. \<not> eos_cand s cand i j) [0..<2 * bs_num_beams s]))"

text \<open>Entry \<open>i\<close> of \<open>t\<close> is the one of \<open>s\<close>.\<close>

definition entry_same :: "'f BeamSearchScorer \<Rightarrow> 'f BeamSearchScorer \<Rightarrow> nat \<Rightarrow> bool" where
  "entry_same s t i \<longleftrightarrow> bs_hyps t ! i = bs_hyps s ! i \<and> (\<forall>k<bs_num_beams s.
     bs_next_scores t ! (i * bs_num_beams s + k) = bs_next_scores s ! (i * bs_num_beams s + k)
     \<and> bs_next_tokens t ! (i * bs_num_beams s + k) = bs_next_tokens s ! (i * bs_num_beams s + k)
     \<and> bs_next_indices t ! (i * bs_num_beams s + k) = bs_next_indices s ! (i * bs_num_beams s + k))"

lemma entry_same_trans:
  "entry_same s t i \<Longrightarrow> entry_same t u i \<Longrightarrow> same_config s t \<Longrightarrow> entry_same s u i"
  by (simp add: entry_same_def same_config_def)

lemma entry_post_same:
  assumes "entry_post cx cand s i t" and "entry_same t u i" and "same_config s t" "same_config t u"
  shows "entry_post cx cand s i u"
  using assms by (auto simp: entry_post_def entry_same_def same_config_def beams_are_def Let_def)

lemma entry_post_start:
  assumes "entry_post cx cand t i u" and "entry_same s t i" and "same_config s t"
  shows "entry_post cx cand s i u"
  using assms by (auto simp: entry_post_def entry_same_def same_config_def eos_cand_def)

lemma beams_kept_entry_same:
  assumes "beams_kept s t batch 0" and "i \<noteq> batch"
  shows "entry_same s t i"
proof -
  have "i * bs_num_beams s + k < batch * bs_num_beams s \<or> Suc batch * bs_num_beams s \<le> i * bs_num_beams s + k"
    if "k < bs_num_beams s" for k
    using row_disjoint [OF assms(2), of "Suc k" "bs_num_beams s" "bs_num_beams s"] that by auto
  then show ?thesis using assms by (auto simp: entry_same_def beams_kept_def)
qed

lemma cand_ok_enough:
  assumes "cand_ok s cand" and "batch < bs_batch_size s"
  shows "bs_num_beams s \<le> length (filter (\<lambda>j. \<not> eos_cand s cand batch j) [0..<2 * bs_num_beams s])"
proof -
  have "length (filter (eos_cand s cand batch) [0..<2 * bs_num_beams s]) \<le> bs_num_beams s"
    using assms by (auto simp: cand_ok_def)
  then show ?thesis
    using sum_length_filter_compl [of "eos_cand s cand batch" "[0..<2 * bs_num_beams s]"] by simp
qed

lemma process_batch_ok:
  assumes inv: "scorer_inv s" and sq: "store_ok s sq" and cand: "cand_ok s cand"
    and b: "batch < bs_batch_size s"
    and room: "bs_hyp_used s + bs_num_beams s * GetSequenceLength sq \<le> bs_hyp_size s"
  shows "\<exists>t. process_batch cx sq cand batch s = Inr t \<and> scorer_inv t \<and> same_config s t
     \<and> bs_hyp_used t \<le> bs_hyp_used s + bs_num_beams s * GetSequenceLength sq
     \<and> entry_post cx cand s batch t \<and> (\<forall>i. i \<noteq> batch \<longrightarrow> entry_same s t i)"
proof (cases "bh_done (bs_hyps s ! batch)")
  case True
  have bl: "batch < length (bs_hyps s)" using inv b by (simp add: scorer_inv_def)
  obtain sc tk ix where p: "pad_batch cx batch s = Inr (s\<lparr>bs_next_scores := sc, bs_next_tokens := tk, bs_next_indices := ix\<rparr>)"
    and len: "length sc = length (bs_next_scores s)" "length tk = length (bs_next_tokens s)"
      "length ix = length (bs_next_indices s)"
    and upd: "\<forall>k. if batch * bs_num_beams s \<le> k \<and> k < batch * bs_num_beams s + bs_num_beams s
          then sc ! k = fzero cx \<and> tk ! k = bs_pad_token_id s \<and> ix ! k = 0
          else sc ! k = bs_next_scores s ! k \<and> tk ! k = bs_next_tokens s ! k \<and> ix ! k = bs_next_indices s ! k"
    using pad_batch_ok [OF inv b, of cx] by blast
  let ?t = "s\<lparr>bs_next_scores := sc, bs_next_tokens := tk, bs_next_indices := ix\<rparr>"
  have "scorer_inv ?t" using inv len by (simp add: scorer_inv_def)
  moreover have "sc ! k = bs_next_scores s ! k \<and> tk ! k = bs_next_tokens s ! k \<and> ix ! k = bs_next_indices s ! k"
    if "k < batch * bs_num_beams s \<or> Suc batch * bs_num_beams s \<le> k" for k
    using upd [rule_format, of k] that by (auto split: if_splits)
  then have "beams_kept s ?t batch 0" by (simp add: beams_kept_def)
  moreover have "entry_post cx cand s batch ?t"
    using upd True by (simp add: entry_post_def)
  ultimately show ?thesis
    using p True bl beams_kept_entry_same [of s ?t batch]
    by (intro exI [of _ ?t]) (simp add: process_batch_def same_config_def)
next
  case False
  have bl: "batch < length (bs_hyps s)" and pos: "0 < bs_num_beams s"
    using inv b by (auto simp: scorer_inv_def)
  let ?js = "[0..<2 * bs_num_beams s]"
  have firsts: "length (filter (\<lambda>j. j < bs_num_beams s) ?js) = bs_num_beams s"
  proof -
    have "?js = [0..<bs_num_beams s] @ [bs_num_beams s..<2 * bs_num_beams s]"
      using upt_add_eq_append [of 0 "bs_num_beams s" "bs_num_beams s"] by (simp add: mult_2)
    then show ?thesis by simp
  qed
  have "bs_num_beams s \<le> 0 + length (filter (\<lambda>j. \<not> eos_cand s cand batch j) ?js)"
    using cand_ok_enough [OF cand b] by simp
  then obtain u where u: "beam_loop cx sq cand batch ?js s 0 = Inr (u, bs_num_beams s)"
    "loop_post sq cand batch ?js s 0 u"
    using beam_loop_ok [OF inv sq cand b False pos, of ?js cx] room firsts by auto
  then have cfg: "same_config s u" and nd: "\<not> bh_done (bs_hyps u ! batch)" and kept: "beams_kept s u batch 0"
    and iu: "scorer_inv u" and used: "bs_hyp_used u \<le> bs_hyp_used s + bs_num_beams s * GetSequenceLength sq"
    and are: "beams_are u cand batch 0 (filter (\<lambda>j. \<not> eos_cand s cand batch j) ?js)"
    using firsts by (auto simp: loop_post_def)
  have "cand_ok u cand" "batch < bs_batch_size u"
    using cand b cand_ok_config [OF cfg] cfg by (auto simp: same_config_def)
  from check_done_ok [OF iu this nd, of cx sq] obtain t where
    t: "check_done cx sq cand batch u = Inr t" "scorer_inv t" "same_config u t"
      "bs_next_scores t = bs_next_scores u" "bs_next_tokens t = bs_next_tokens u"
      "bs_next_indices t = bs_next_indices u" "bs_hyp_used t = bs_hyp_used u"
      "\<forall>i. i \<noteq> batch \<longrightarrow> bs_hyps t ! i = bs_hyps u ! i"
    by blast
  have "process_batch cx sq cand batch s = Inr t"
    using u(1) t(1) bl False by (simp add: process_batch_def)
  moreover have "entry_post cx cand s batch t"
    using are t False by (simp add: entry_post_def beams_are_def same_config_def)
  moreover have "entry_same s t i" if "i \<noteq> batch" for i
    using beams_kept_entry_same [OF kept that] t(4-6,8) that by (simp add: entry_same_def)
  ultimately show ?thesis using t(2,7) same_config_trans [OF cfg t(3)] used by auto
qed


lemma Process_ok:
  assumes inv: "scorer_inv s" and sq: "store_ok s sq" and cand: "cand_ok s cand"
    and room: "bs_hyp_used s + bs_batch_size s * (bs_num_beams s * GetSequenceLength sq) \<le> bs_hyp_size s"
  shows "\<exists>t. Process cx sq cand s = Inr t \<and> scorer_inv t \<and> same_config s t
     \<and> bs_hyp_used t \<le> bs_hyp_used s + bs_batch_size s * (bs_num_beams s * GetSequenceLength sq)
     \<and> (\<forall>i<bs_batch_size s. entry_post cx cand s i t)"
proof -
  let ?L = "bs_num_beams s * GetSequenceLength sq"
  let ?I = "\<lambda>b t. scorer_inv t \<and> same_config s t \<and> bs_hyp_used t \<le> bs_hyp_used s + b * ?L
     \<and> (\<forall>i<b. entry_post cx cand s i t) \<and> (\<forall>i. b \<le> i \<longrightarrow> entry_same s t i)"
  have "\<exists>t. Process cx sq cand s = Inr t \<and> ?I (bs_batch_size s) t"
    unfolding Process_def
  proof (rule for_res_upt_rule [where I = ?I])
    show "?I 0 s" using inv by (simp add: entry_same_def)
  next
    fix b and t :: "'a BeamSearchScorer"
    assume b: "b < bs_batch_size s" and I: "?I b t"
    then have it: "scorer_inv t" and cfg: "same_config s t" by auto
    have L: "bs_num_beams t * GetSequenceLength sq = ?L" using cfg by (simp add: same_config_def)
    have "Suc b * ?L \<le> bs_batch_size s * ?L" using b by (intro mult_le_mono1) simp
    then have "bs_hyp_used t + ?L \<le> bs_hyp_size t"
      using I room cfg by (simp add: same_config_def)
    then obtain u where u: "process_batch cx sq cand b t = Inr u" "scorer_inv u" "same_config t u"
      "bs_hyp_used u \<le> bs_hyp_used t + ?L" "entry_post cx cand t b u" "\<forall>i. i \<noteq> b \<longrightarrow> entry_same t u i"
      using process_batch_ok [OF it, of sq cand b cx] sq cand store_ok_config [OF cfg] cand_ok_config [OF cfg]
        b cfg L by (auto simp: same_config_def)
    have "entry_post cx cand s i u" if "i < Suc b" for i
    proof (cases "i = b")
      case True
      then show ?thesis using entry_post_start [OF u(5) _ cfg] I by simp
    next
      case False
      then show ?thesis using entry_post_same [OF _ _ cfg u(3), of cx cand i] I u(6) that by simp
    qed
    moreover have "entry_same s u i" if "Suc b \<le> i" for i
      using entry_same_trans [OF _ _ cfg, of i u] I u(6) that by simp
    ultimately show "\<exists>u. process_batch cx sq cand b t = Inr u \<and> ?I (Suc b) u"
      using u(1,2,4) same_config_trans [OF cfg u(3)] I by auto
  qed
  then show ?thesis by blast
qed

text \<open>The beam indices a pass leaves are rows of the sequence store.\<close>

lemma entry_post_indices:
  assumes post: "\<forall>i<bs_batch_size s. entry_post cx cand s i t" and cand: "cand_ok s cand"
    and cfg: "same_config s t" and k: "k < bs_batch_size s * bs_num_beams s"
  shows "0 \<le> bs_next_indices t ! k \<and> bs_next_indices t ! k < int (bs_batch_size s * bs_num_beams s)"
proof -
  let ?n = "bs_num_beams s" and ?i = "k div bs_num_beams s" and ?m = "k mod bs_num_beams s"
  have n: "0 < ?n" using k by (cases "?n = 0") auto
  then have i: "?i < bs_batch_size s" and m: "?m < ?n" using k by (auto simp: less_mult_imp_div_less)
  have eq: "k = ?i * ?n + ?m" by simp
  note p = post [rule_format, OF i]
  show ?thesis
  proof (cases "bh_done (bs_hyps s ! ?i)")
    case True
    then have "bs_next_indices t ! (?i * ?n + ?m) = 0" using p m unfolding entry_post_def by auto
    then show ?thesis using k i n unfolding eq [symmetric] by auto
  next
    case False
    let ?js = "filter (\<lambda>j. \<not> eos_cand s cand ?i j) [0..<2 * ?n]"
    have "?m < length ?js" using cand_ok_enough [OF cand i] m by simp
    moreover from this have "?js ! ?m < 2 * ?n" using nth_mem [of ?m ?js] by auto
    ultimately show ?thesis
      using p False m cfg cand_index_range(4,5) [OF cand i, of "?js ! ?m"] eq
      by (auto simp: entry_post_def beams_are_def same_config_def Let_def)
  qed
qed

text \<open>C18. A pass of the scorer over complete candidates is safe and right: it returns, keeps the
  invariant of the scorer, uses at most one clone per beam of the hypothesis buffer, pads the entries
  that are done and gives every other entry its first \<open>num_beams\<close> candidates that are not the
  end-of-sequence token, in order; every beam index it leaves is a row of the sequence store.\<close>

theorem Process_correct:
  assumes "scorer_inv s" and "store_ok s sq" and "cand_ok s cand"
    and "bs_hyp_used s + bs_batch_size s * (bs_num_beams s * GetSequenceLength sq) \<le> bs_hyp_size s"
  shows "\<exists>t. Process cx sq cand s = Inr t \<and> scorer_inv t \<and> same_config s t
     \<and> bs_hyp_used t \<le> bs_hyp_used s + bs_batch_size s * (bs_num_beams s * GetSequenceLength sq)
     \<and> (\<forall>i<bs_batch_size s. entry_post cx cand s i t)
     \<and> (\<forall>k<bs_batch_size s * bs_num_beams s.
          0 \<le> bs_next_indices t ! k \<and> bs_next_indices t ! k < int (bs_batch_size s * bs_num_beams s))"
  using Process_ok [OF assms, of cx] entry_post_indices [of s cx cand] assms(3) by blast

text \<open>A scorer for two prompts and two beams, and the candidates of a step.\<close>

definition example_scorer :: "int BeamSearchScorer" where
  "example_scorer = \<lparr>bs_batch_size = 2, bs_num_beams = 2, bs_max_length = 3, bs_pad_token_id = 0,
     bs_eos_token_id = 2, bs_early_stopping = False, bs_not_done_count = 2,
     bs_next_scores = [0, -100000, 0, -100000], bs_next_tokens = [0, 0, 0, 0],
     bs_next_indices = [0, 0, 0, 0], bs_hyp_size = 24, bs_hyp_used = 0,
     bs_hyps = [BeamHypotheses_Init 1 2, BeamHypotheses_Init 1 2]\<rparr>"

definition example_store :: Sequences where
  "example_store = \<lparr>sq_data = [1, 0, 0, 1, 0, 0, 1, 0, 0, 1, 0, 0], sq_next = replicate 12 0,
     sq_batch_beam_size = 4, sq_max_length = 3, sq_current_length = 1\<rparr>"

definition example_cand :: "int candidates" where
  "example_cand = \<lparr>next_scores = [9, 8, 7, 6, 9, 8, 7, 6], cand_tokens = [2, 1, 0, 2, 0, 1, 2, 1],
     next_indices = [0, 0, 1, 1, 0, 0, 1, 1]\<rparr>"

lemmas example_scorer_defs =
  example_scorer_def example_store_def example_cand_def BeamHypotheses_Init_def

lemma example_scorer_inv: "scorer_inv example_scorer"
  by (simp add: scorer_inv_def example_scorer_defs hyps_ok_def sorted_beams_def open_hyps_def)

lemma example_store_ok: "store_ok example_scorer example_store"
  by (simp add: store_ok_def seq_inv_def example_scorer_defs)

lemma example_cand_ok: "cand_ok example_scorer example_cand"
  by (simp add: cand_ok_def example_scorer_defs eos_cand_def All_less_Suc numeral_eq_Suc upt_rec)

theorem Process_correct_witness:
  "\<exists>t. Process int_cxx example_store example_cand example_scorer = Inr t
     \<and> map (nth (bs_next_tokens t)) [0..<4] = [1, 0, 0, 1]"
  using Process_correct [OF example_scorer_inv example_store_ok example_cand_ok, of int_cxx]
  by (fastforce simp: example_scorer_defs GetSequenceLength_def entry_post_def beams_are_def
        eos_cand_def All_less_Suc numeral_eq_Suc upt_rec same_config_def)

section \<open>The hypothesis buffer over a whole run\<close>

text \<open>A run of the scorer: one pass per step, with the store and the candidates of that step.\<close>

definition scorer_run ::
    "('f::linorder, 'g, 'y) cxx_scheme \<Rightarrow> (Sequences \<times> 'f candidates) list \<Rightarrow> 'f BeamSearchScorer \<Rightarrow>
     'f BeamSearchScorer res" where
  "scorer_run cx = for_res (\<lambda>(sq, cand). Process cx sq cand)"

definition step_ok :: "'f::linorder BeamSearchScorer \<Rightarrow> nat \<Rightarrow> Sequences \<times> 'f candidates \<Rightarrow> bool" where
  "step_ok s len step \<longleftrightarrow> store_ok s (fst step) \<and> cand_ok s (snd step) \<and> GetSequenceLength (fst step) = len"

lemma step_ok_config: "same_config s t \<Longrightarrow> step_ok t len step = step_ok s len step"
  by (simp add: step_ok_def store_ok_config cand_ok_config)

lemma scorer_run_ok:
  assumes "scorer_inv s" and "\<forall>i<length steps. step_ok s (len + i) (steps ! i)"
    and "bs_hyp_used s + bs_batch_size s * bs_num_beams s * (\<Sum>i<length steps. len + i) \<le> bs_hyp_size s"
  shows "\<exists>t. scorer_run cx steps s = Inr t \<and> scorer_inv t \<and> same_config s t"
  using assms
proof (induction steps arbitrary: s len)
  case Nil
  then show ?case by (simp add: scorer_run_def)
next
  case (Cons step steps)
  obtain sq cand where st: "step = (sq, cand)" by (cases step)
  let ?n = "bs_batch_size s * bs_num_beams s"
  have first: "store_ok s sq" "cand_ok s cand" "GetSequenceLength sq = len"
    using Cons.prems(2) [rule_format, of 0] st by (auto simp: step_ok_def)
  have sum: "(\<Sum>i<length (step # steps). len + i) = len + (\<Sum>i<length steps. Suc len + i)"
    by (simp only: length_Cons sum.lessThan_Suc_shift) simp
  have room: "bs_hyp_used s + ?n * len + ?n * (\<Sum>i<length steps. Suc len + i) \<le> bs_hyp_size s"
    using Cons.prems(3) unfolding sum by (simp add: distrib_left)
  have "bs_hyp_used s + bs_batch_size s * (bs_num_beams s * GetSequenceLength sq) \<le> bs_hyp_size s"
    using room first(3) by (simp add: mult.assoc)
  from Process_ok [OF Cons.prems(1) first(1,2) this, of cx] obtain t where
    t: "Process cx sq cand s = Inr t" "scorer_inv t" "same_config s t"
      "bs_hyp_used t \<le> bs_hyp_used s + ?n * len"
    using first(3) by (auto simp: mult.assoc)
  have "\<exists>u. scorer_run cx steps t = Inr u \<and> scorer_inv u \<and> same_config t u"
  proof (rule Cons.IH [OF t(2)])
    show "\<forall>i<length steps. step_ok t (Suc len + i) (steps ! i)"
      using Cons.prems(2) [rule_format, of "Suc _"] step_ok_config [OF t(3)] by simp
    show "bs_hyp_used t + bs_batch_size t * bs_num_beams t * (\<Sum>i<length steps. Suc len + i) \<le> bs_hyp_size t"
      using room t(3,4) by (simp add: same_config_def)
  qed
  then show ?case using t(1) st same_config_trans [OF t(3)] by (auto simp: scorer_run_def)
qed

text \<open>The buffer the constructor reserves: the arithmetic series of the lengths from \<open>sequence_length\<close>
  to \<open>max_length\<close>, as long as \<open>max_length * (max_length + 1)\<close> fits 32 bits.\<close>

lemma sum_lengths_int: "2 * int (\<Sum>i<k. l + i) = (int l + int k) * (int l + int k - 1) - (int l - 1) * int l"
  by (induction k) (auto simp: algebra_simps)

lemma per_beam_exact:
  assumes "0 \<le> seq_len" and "seq_len \<le> max_len" and "max_len \<le> 46340"
  shows "per_beam max_len seq_len = (max_len * (max_len + 1) - (seq_len - 1) * seq_len) div 2"
proof -
  have mono: "a * (a + 1) \<le> 2147441940" if "0 \<le> a" "a \<le> 46340" for a :: int
    using mult_mono [of a 46340 "a + 1" 46341] that by simp
  have m: "max_len * (max_len + 1) \<le> 2147441940" "0 \<le> max_len * (max_len + 1)"
    using mono [of max_len] assms by auto
  have sl: "(seq_len - 1) * seq_len \<le> max_len * (max_len + 1)"
    using assms by (intro order_trans [OF mult_mono [of "seq_len - 1" max_len seq_len "max_len + 1"]]) auto
  have sl0: "0 \<le> (seq_len - 1) * seq_len" using assms(1) by (cases "seq_len = 0") auto
  show ?thesis
    using assms m sl sl0 by (simp add: per_beam_def s32_id)
qed

lemma per_beam_covers:
  assumes "0 \<le> seq_len" and "seq_len \<le> max_len" and "max_len \<le> 46340" and "k \<le> nat (max_len - seq_len + 1)"
  shows "0 \<le> per_beam max_len seq_len" and "(\<Sum>i<k. nat seq_len + i) \<le> nat (per_beam max_len seq_len)"
proof -
  let ?S = "\<lambda>k. \<Sum>i<k. nat seq_len + i"
  have "per_beam max_len seq_len = int (?S (nat (max_len - seq_len + 1)))"
  proof -
    have "2 * int (?S (nat (max_len - seq_len + 1))) = max_len * (max_len + 1) - (seq_len - 1) * seq_len"
      unfolding sum_lengths_int using assms(1,2) by (simp add: algebra_simps)
    then show ?thesis using per_beam_exact [OF assms(1-3)] by linarith
  qed
  moreover have "?S k \<le> ?S (nat (max_len - seq_len + 1))"
    using assms(4) by (intro sum_mono2) auto
  ultimately show "0 \<le> per_beam max_len seq_len" "?S k \<le> nat (per_beam max_len seq_len)"
    by (simp_all only: nat_int of_nat_0_le_iff)
qed

lemma BeamSearchScorer_new_inv:
  assumes "BeamSearchScorer_new cx p = Inr s" and "1 \<le> num_beams (search p)" and "0 \<le> batch_size p"
  shows "scorer_inv s"
proof -
  have "open_hyps (replicate n (BeamHypotheses_Init a b)) = n" for n b and a :: 'a
    by (simp add: open_hyps_def BeamHypotheses_Init_def)
  moreover have "open_hyps ([] :: 'a BeamHypotheses list) = 0" by (simp add: open_hyps_def)
  ultimately show ?thesis
    using assms
    by (auto simp: BeamSearchScorer_new_def scorer_inv_def Let_def hyps_ok_def sorted_beams_def
        BeamHypotheses_Init_def split: if_splits)
qed



section \<open>Where the scorer does not do what it means to\<close>


definition slice_scorer :: "int BeamSearchScorer" where
  "slice_scorer = example_scorer\<lparr>bs_num_beams := 1,
     bs_hyps := [BeamHypotheses_Init 1 1, \<lparr>bh_beams = [\<lparr>hypothesis = [1], score = 5\<rparr>], bh_capacity = 1,
                   bh_length_penalty = 1, bh_done = False\<rparr>]\<rparr>"

definition slice_cand :: "int \<Rightarrow> int candidates" where
  "slice_cand x = \<lparr>next_scores = [9, x, 4, 3], cand_tokens = [0, 1, 0, 1], next_indices = [0, 0, 0, 0]\<rparr>"

text \<open>The test whether an entry can still improve looks at other entries' candidates: two sets of
  candidates that agree on entry 1 and differ on entry 0 only lead to different verdicts on entry 1,
  and the first keeps the entry open although none of its own candidates improves on its worst
  hypothesis.\<close>

theorem check_done_reads_other_entry:
  "map_sum id (\<lambda>t. bh_done (bs_hyps t ! 1)) (check_done int_cxx example_store (slice_cand 8) 1 slice_scorer) = Inr False
   \<and> map_sum id (\<lambda>t. bh_done (bs_hyps t ! 1)) (check_done int_cxx example_store (slice_cand 2) 1 slice_scorer) = Inr True
   \<and> drop 2 (next_scores (slice_cand 8)) = drop 2 (next_scores (slice_cand 2))"
  by (simp add: check_done_def slice_scorer_def slice_cand_def example_scorer_defs CanImprove_def Let_def
      max_element_def int_cxx_def GetSequenceLength_def numeral_eq_Suc)

end
