(* ===== verification/BeamSearch.thy ===== *)
theory BeamSearch
  imports Search BeamScorer
begin

text \<open>
  \<open>BeamSearch_Cpu\<close> of \<open>src/search.h\<close> and \<open>src/search.cpp\<close>: the search that adds the beam scores to
  the token scores, takes the best \<open>2 * num_beams\<close> candidates of every batch entry from a priority
  queue and hands them to the scorer. The three arrays of candidates the code fills in step are one
  array of triples here. The lemmas show that the candidates meet what the scorer relies on, so that
  every step is safe and extends the sequences by the tokens the scorer selected.
\<close>

record ('f, 't) BeamSearch_Cpu = "('f, 't) Search_Cpu" +
  beam_scorer :: "'f BeamSearchScorer"

definition BeamSearch_Cpu_new ::
    "('f, 'g, 'y) cxx_scheme \<Rightarrow> ('f, 't) GeneratorParams \<Rightarrow> ('f, 't) BeamSearch_Cpu res" where
  "BeamSearch_Cpu_new cx p =
     res_bind (Search_Cpu_new p) (\<lambda>b.
     res_bind (BeamSearchScorer_new cx p) (\<lambda>scorer.
     Inr \<lparr>params = params b, sequences = sequences b, sequence_lengths = sequence_lengths b,
          next_tokens = next_tokens b, next_token_scores = next_token_scores b, is_done = is_done b,
          beam_scorer = scorer\<rparr>))"

definition BeamSearch_GetNextTokens :: "('f, 't) BeamSearch_Cpu \<Rightarrow> int list" where
  "BeamSearch_GetNextTokens s = bs_next_tokens (beam_scorer s)"

definition BeamSearch_GetNextIndices :: "('f, 't) BeamSearch_Cpu \<Rightarrow> int list" where
  "BeamSearch_GetNextIndices s = bs_next_indices (beam_scorer s)"

text \<open>\<open>next_token_scores_[offset] += beam_scores[batch_beam_index]\<close> over batch, beams and vocabulary.\<close>

definition add_beam_scores ::
    "('f, 'g, 'y) cxx_scheme \<Rightarrow> nat \<Rightarrow> nat \<Rightarrow> nat \<Rightarrow> 'f list \<Rightarrow> 'f list \<Rightarrow> 'f list res" where
  "add_beam_scores cx batch_n beam_n vocab beam_scores =
     for_res (\<lambda>i. for_res (\<lambda>j. for_res (\<lambda>k scores.
         let batch_beam_index = i * beam_n + j; offset = batch_beam_index * vocab + k in
         res_bind (get beam_scores batch_beam_index) (\<lambda>b.
         res_bind (get scores offset) (\<lambda>x.
         put scores offset (fadd cx x b))))
       [0..<vocab]) [0..<beam_n]) [0..<batch_n]"

text \<open>The queue is the list of its elements; \<open>top\<close> and \<open>pop\<close> take the element the library chooses.
  Popping an empty queue is undefined.\<close>

fun drain :: "('f, 'g, 'y) cxx_scheme \<Rightarrow> nat \<Rightarrow> ('f \<times> nat) list \<Rightarrow> ('f \<times> nat) list res" where
  "drain cx 0 q = Inr []"
| "drain cx (Suc n) q =
     (if q = [] then Inl OutOfBounds
      else let v = queue_top cx q in
           res_bind (drain cx n (remove1 v q)) (\<lambda>vs. Inr (v # vs)))"

text \<open>The candidates of one batch entry: (score, token, beam).\<close>

definition batch_candidates ::
    "('f, 'g, 'y) cxx_scheme \<Rightarrow> nat \<Rightarrow> nat \<Rightarrow> 'f list \<Rightarrow> nat \<Rightarrow> ('f \<times> int \<times> int) list res" where
  "batch_candidates cx beam_n vocab scores batch_index =
     res_bind (subspan scores (batch_index * beam_n * vocab) (beam_n * vocab)) (\<lambda>token_scores_sub.
     res_bind (drain cx (2 * beam_n) (zip token_scores_sub [0..<length token_scores_sub])) (\<lambda>vs.
     Inr (map (\<lambda>(sc, index). (sc, int (index mod vocab), int (index div vocab))) vs)))"

definition BeamSearch_AppendNextTokensToSequences ::
    "('f, 't) BeamSearch_Cpu \<Rightarrow> ('f, 't) BeamSearch_Cpu res" where
  "BeamSearch_AppendNextTokensToSequences s =
     res_bind (AppendNextTokenToSequences_beam (bs_next_indices (beam_scorer s))
                 (bs_next_tokens (beam_scorer s)) (sequences s)) (\<lambda>q.
     Inr (s\<lparr>sequences := q,
             is_done := (if int (GetSequenceLength q) = max_length (search (params s))
                         then True else is_done s)\<rparr>))"

definition BeamSearch_SelectTop ::
    "('f::linorder, 'g, 'y) cxx_scheme \<Rightarrow> ('f, 't) BeamSearch_Cpu \<Rightarrow> ('f, 't) BeamSearch_Cpu res" where
  "BeamSearch_SelectTop cx s =
     (let p = params s; top_k = 2 * nbeams p in
      res_bind (add_beam_scores cx (nbatch p) (nbeams p) (nvocab p) (bs_next_scores (beam_scorer s))
                  (next_token_scores s)) (\<lambda>scores.
      res_bind (for_res (\<lambda>batch_index arr.
            res_bind (batch_candidates cx (nbeams p) (nvocab p) scores batch_index) (\<lambda>cs.
            copy_into arr (batch_index * top_k) cs))
          [0..<nbatch p] (replicate (nbatch p * top_k) (fzero cx, 0, 0))) (\<lambda>arr.
      res_bind (Process cx (sequences s)
                  \<lparr>next_scores = map fst arr, cand_tokens = map (fst \<circ> snd) arr,
                   next_indices = map (snd \<circ> snd) arr\<rparr> (beam_scorer s)) (\<lambda>scorer.
      BeamSearch_AppendNextTokensToSequences
        (s\<lparr>next_token_scores := scores, beam_scorer := scorer, next_tokens := bs_next_tokens scorer\<rparr>)))))"

definition BeamSearch_Finalize ::
    "('f::linorder, 'g, 'y) cxx_scheme \<Rightarrow> nat \<Rightarrow> int list \<Rightarrow> 'f list \<Rightarrow> ('f, 't) BeamSearch_Cpu \<Rightarrow>
     (('f, 't) BeamSearch_Cpu \<times> int list \<times> 'f list) res" where
  "BeamSearch_Finalize cx num_return output sequence_scores s =
     res_bind (Finalize cx (sequences s) num_return output sequence_scores (beam_scorer s))
       (\<lambda>(scorer, out, scs). Inr (s\<lparr>beam_scorer := scorer\<rparr>, out, scs))"

section \<open>Adding the beam scores\<close>

lemma add_beam_scores_ok:
  assumes "length beam_scores = batch_n * beam_n" and "length scores = batch_n * beam_n * vocab"
  shows "add_beam_scores cx batch_n beam_n vocab beam_scores scores =
    Inr (map (\<lambda>o'. fadd cx (scores ! o') (beam_scores ! (o' div vocab))) [0..<length scores])"
proof -
  let ?body = "\<lambda>o' sc. res_bind (get beam_scores (o' div vocab)) (\<lambda>b.
         res_bind (get sc o') (\<lambda>x. put sc o' (fadd cx x b)))"
  let ?f = "\<lambda>o'. fadd cx (scores ! o') (beam_scores ! (o' div vocab))"
  have "add_beam_scores cx batch_n beam_n vocab beam_scores scores =
      for_res (\<lambda>i. for_res (\<lambda>j. for_res (\<lambda>k. ?body ((i * beam_n + j) * vocab + k)) [0..<vocab]) [0..<beam_n])
        [0..<batch_n] scores"
    unfolding add_beam_scores_def by (intro for_res_cong refl) (simp add: Let_def)
  also have "\<dots> = for_res (\<lambda>r. for_res (\<lambda>k. ?body (r * vocab + k)) [0..<vocab]) [0..<batch_n * beam_n] scores"
    using for_res_flatten [of "\<lambda>r. for_res (\<lambda>k. ?body (r * vocab + k)) [0..<vocab]" beam_n batch_n scores] .
  also have "\<dots> = for_res ?body [0..<batch_n * beam_n * vocab] scores"
    using for_res_flatten [of ?body vocab "batch_n * beam_n" scores] .
  finally have eq: "add_beam_scores cx batch_n beam_n vocab beam_scores scores =
      for_res ?body [0..<length scores] scores" using assms(2) by simp
  let ?I = "\<lambda>n sc. length sc = length scores \<and> (\<forall>o'<length scores. sc ! o' = (if o' < n then ?f o' else scores ! o'))"
  have "\<exists>t. for_res ?body [0..<length scores] scores = Inr t \<and> ?I (length scores) t"
  proof (rule for_res_upt_rule [where I = ?I])
    fix o' t
    assume o': "o' < length scores" and "?I o' t"
    moreover have "o' div vocab < length beam_scores"
      using assms o' by (simp add: less_mult_imp_div_less)
    ultimately show "\<exists>t'. ?body o' t = Inr t' \<and> ?I (Suc o') t'"
      by (auto simp: nth_list_update less_Suc_eq)
  qed simp
  then obtain t where t: "for_res ?body [0..<length scores] scores = Inr t" "?I (length scores) t" by blast
  then have "t = map ?f [0..<length scores]" by (intro nth_equalityI) simp_all
  with t(1) eq show ?thesis by simp
qed

section \<open>Draining the queue\<close>

text \<open>The best \<open>n\<close> elements of a queue, best first.\<close>

definition best_first :: "nat \<Rightarrow> ('f::linorder \<times> nat) list \<Rightarrow> ('f \<times> nat) list \<Rightarrow> bool" where
  "best_first n q vs \<longleftrightarrow> length vs = n \<and> distinct vs \<and> set vs \<subseteq> set q
     \<and> sorted_wrt (\<lambda>a b. fst b \<le> fst a) vs
     \<and> (\<forall>x\<in>set q - set vs. \<forall>v\<in>set vs. fst x \<le> fst v)"

lemma best_first_nth: "best_first n q vs \<Longrightarrow> i < n \<Longrightarrow> vs ! i \<in> set q"
  by (metis best_first_def nth_mem subsetD)

lemma drain_best_first:
  assumes "queue_ok cx" and "n \<le> length q" and "distinct q"
  shows "\<exists>vs. drain cx n q = Inr vs \<and> best_first n q vs"
  using assms(2,3)
proof (induction n arbitrary: q)
  case 0
  then show ?case by (simp add: best_first_def)
next
  case (Suc n)
  let ?v = "queue_top cx q"
  have ne: "q \<noteq> []" using Suc.prems by auto
  then have v: "?v \<in> set q" "\<forall>x\<in>set q. fst x \<le> fst ?v"
    using assms(1) by (auto simp: queue_ok_def)
  have len: "n \<le> length (remove1 ?v q)" using Suc.prems v(1) by (simp add: length_remove1)
  obtain vs where vs: "drain cx n (remove1 ?v q) = Inr vs" "best_first n (remove1 ?v q) vs"
    using Suc.IH [OF len] Suc.prems(2) by (auto simp: distinct_remove1)
  have set: "set (remove1 ?v q) = set q - {?v}" using Suc.prems(2) by simp
  have "best_first (Suc n) q (?v # vs)"
    using vs(2) v unfolding best_first_def set by auto
  then show ?case using vs(1) ne by (simp add: Let_def)
qed

section \<open>The candidates meet what the scorer relies on\<close>

definition entry_scores :: "nat \<Rightarrow> nat \<Rightarrow> 'f list \<Rightarrow> nat \<Rightarrow> 'f list" where
  "entry_scores beam_n vocab scores b = take (beam_n * vocab) (drop (b * beam_n * vocab) scores)"

definition candidate_of :: "nat \<Rightarrow> 'f \<times> nat \<Rightarrow> 'f \<times> int \<times> int" where
  "candidate_of vocab v = (fst v, int (snd v mod vocab), int (snd v div vocab))"

abbreviation scored :: "'f list \<Rightarrow> ('f \<times> nat) list" where
  "scored xs \<equiv> zip xs [0..<length xs]"

lemma scored_mem: "v \<in> set (scored xs) \<longleftrightarrow> snd v < length xs \<and> fst v = xs ! snd v"
  by (cases v) (auto simp: in_set_zip)

lemma distinct_scored: "distinct (scored xs)"
  by (simp add: distinct_zipI2)

lemma batch_candidates_ok:
  assumes q: "queue_ok cx" and v: "2 \<le> vocab" and b: "b < batch_n"
    and len: "length scores = batch_n * beam_n * vocab"
  shows "\<exists>vs. batch_candidates cx beam_n vocab scores b = Inr (map (candidate_of vocab) vs)
     \<and> best_first (2 * beam_n) (scored (entry_scores beam_n vocab scores b)) vs"
proof -
  have bd: "b * beam_n * vocab + beam_n * vocab \<le> length scores"
    using row_bound [OF b order_refl, of "beam_n * vocab"] len by (simp add: mult.assoc)
  then have l: "length (entry_scores beam_n vocab scores b) = beam_n * vocab"
    by (simp only: entry_scores_def length_slice)
  have "2 * beam_n \<le> beam_n * vocab" using v by (metis mult.commute mult_le_mono2)
  then obtain vs where vs: "drain cx (2 * beam_n) (scored (entry_scores beam_n vocab scores b)) = Inr vs"
    "best_first (2 * beam_n) (scored (entry_scores beam_n vocab scores b)) vs"
    using drain_best_first [OF q _ distinct_scored, of "2 * beam_n" "entry_scores beam_n vocab scores b"] l by auto
  have "batch_candidates cx beam_n vocab scores b = Inr (map (candidate_of vocab) vs)"
    using vs(1) bd by (simp add: batch_candidates_def entry_scores_def candidate_of_def [abs_def] case_prod_beta)
  with vs(2) show ?thesis by blast
qed

text \<open>The array of candidates: row \<open>b\<close> holds the best candidates of entry \<open>b\<close>, best first.\<close>

definition candidate_rows ::
    "nat \<Rightarrow> nat \<Rightarrow> nat \<Rightarrow> 'f::linorder list \<Rightarrow> ('f \<times> int \<times> int) list \<Rightarrow> bool" where
  "candidate_rows batch_n beam_n vocab scores arr \<longleftrightarrow>
     length arr = batch_n * (2 * beam_n)
     \<and> (\<forall>b<batch_n. \<exists>vs. take (2 * beam_n) (drop (b * (2 * beam_n)) arr) = map (candidate_of vocab) vs
          \<and> best_first (2 * beam_n) (scored (entry_scores beam_n vocab scores b)) vs)"

lemma candidate_array_ok:
  assumes q: "queue_ok cx" and v: "2 \<le> vocab" and len: "length scores = batch_n * beam_n * vocab"
  shows "\<exists>arr. for_res (\<lambda>b arr. res_bind (batch_candidates cx beam_n vocab scores b) (\<lambda>cs.
            copy_into arr (b * (2 * beam_n)) cs)) [0..<batch_n] (replicate (batch_n * (2 * beam_n)) z) = Inr arr
     \<and> candidate_rows batch_n beam_n vocab scores arr"
proof -
  have "\<forall>b<batch_n. \<exists>vs. batch_candidates cx beam_n vocab scores b = Inr (map (candidate_of vocab) vs)
     \<and> best_first (2 * beam_n) (scored (entry_scores beam_n vocab scores b)) vs"
    using batch_candidates_ok [OF q v _ len] by blast
  then obtain vs where vs: "\<And>b. b < batch_n \<Longrightarrow> batch_candidates cx beam_n vocab scores b = Inr (map (candidate_of vocab) (vs b))"
    "\<And>b. b < batch_n \<Longrightarrow> best_first (2 * beam_n) (scored (entry_scores beam_n vocab scores b)) (vs b)"
    by metis
  have l: "length (vs b) = 2 * beam_n" if "b < batch_n" for b using vs(2) [OF that] by (simp add: best_first_def)
  have "\<exists>t. for_res (\<lambda>b arr. res_bind (batch_candidates cx beam_n vocab scores b) (\<lambda>cs.
            copy_into arr (b * (2 * beam_n)) cs)) [0..<batch_n] (replicate (batch_n * (2 * beam_n)) z) = Inr t
      \<and> length t = batch_n * (2 * beam_n)
      \<and> (\<forall>b<batch_n. take (2 * beam_n) (drop (b * (2 * beam_n)) t) = map (candidate_of vocab) (vs b))"
  proof (rule for_res_rows)
    fix b and t :: "('a \<times> int \<times> int) list"
    assume b: "b < batch_n" and t: "length t = batch_n * (2 * beam_n)"
    have "b * (2 * beam_n) + 2 * beam_n \<le> length t" using row_bound [OF b order_refl] t by simp
    then show "length (map (candidate_of vocab) (vs b)) = 2 * beam_n \<and>
        res_bind (batch_candidates cx beam_n vocab scores b) (\<lambda>cs. copy_into t (b * (2 * beam_n)) cs) =
          Inr (blit t (b * (2 * beam_n)) (map (candidate_of vocab) (vs b)))"
      using vs(1) [OF b] l [OF b] by simp
  qed simp_all
  then show ?thesis using vs(2) by (auto simp: candidate_rows_def)
qed

definition cand_of_array :: "('f \<times> int \<times> int) list \<Rightarrow> 'f candidates" where
  "cand_of_array arr = \<lparr>next_scores = map fst arr, cand_tokens = map (fst \<circ> snd) arr,
     next_indices = map (snd \<circ> snd) arr\<rparr>"

lemma candidate_rows_nth:
  assumes rows: "candidate_rows batch_n beam_n vocab scores arr" and b: "b < batch_n"
  obtains vs where "best_first (2 * beam_n) (scored (entry_scores beam_n vocab scores b)) vs"
    and "\<And>j. j < 2 * beam_n \<Longrightarrow> arr ! (b * (2 * beam_n) + j) = candidate_of vocab (vs ! j)"
proof -
  obtain vs where row: "take (2 * beam_n) (drop (b * (2 * beam_n)) arr) = map (candidate_of vocab) vs"
    and vs: "best_first (2 * beam_n) (scored (entry_scores beam_n vocab scores b)) vs"
    using rows b by (auto simp: candidate_rows_def)
  have bd: "b * (2 * beam_n) + 2 * beam_n \<le> length arr"
    using row_bound [OF b order_refl] rows by (simp add: candidate_rows_def)
  have "arr ! (b * (2 * beam_n) + j) = candidate_of vocab (vs ! j)" if j: "j < 2 * beam_n" for j
  proof -
    have "arr ! (b * (2 * beam_n) + j) = take (2 * beam_n) (drop (b * (2 * beam_n)) arr) ! j"
      using bd j by simp
    then show ?thesis using row vs j by (simp add: best_first_def)
  qed
  with vs show ?thesis by (rule that)
qed

lemma best_first_index_inj:
  assumes vs: "best_first n (scored xs) vs" and "i < n" "j < n" and "snd (vs ! i) = snd (vs ! j)"
  shows "i = j"
proof -
  have "vs ! i \<in> set (scored xs)" "vs ! j \<in> set (scored xs)"
    using best_first_nth [OF vs] assms(2,3) by auto
  then have "vs ! i = vs ! j" using assms(4) by (simp add: scored_mem prod_eq_iff)
  then show ?thesis using vs assms(2,3) by (simp add: best_first_def nth_eq_iff_index_eq)
qed

lemma token_count:
  assumes vs: "best_first (2 * beam_n) (scored xs) vs" and len: "length xs \<le> beam_n * vocab"
  shows "card {j. j < 2 * beam_n \<and> snd (vs ! j) mod vocab = e} \<le> beam_n"
proof -
  let ?J = "{j. j < 2 * beam_n \<and> snd (vs ! j) mod vocab = e}"
  have "inj_on (\<lambda>j. snd (vs ! j) div vocab) ?J"
  proof (rule inj_onI)
    fix i j
    assume ij: "i \<in> ?J" "j \<in> ?J" and "snd (vs ! i) div vocab = snd (vs ! j) div vocab"
    then have "snd (vs ! i) = snd (vs ! j)" by (metis (mono_tags) div_mult_mod_eq mem_Collect_eq)
    then show "i = j" using best_first_index_inj [OF vs] ij by blast
  qed
  moreover have "(\<lambda>j. snd (vs ! j) div vocab) ` ?J \<subseteq> {..<beam_n}"
  proof (rule image_subsetI)
    fix j assume "j \<in> ?J"
    then have "vs ! j \<in> set (scored xs)" using best_first_nth [OF vs] by simp
    then have "snd (vs ! j) < beam_n * vocab" using len by (simp add: scored_mem)
    then show "snd (vs ! j) div vocab \<in> {..<beam_n}" by (simp add: less_mult_imp_div_less)
  qed
  ultimately show ?thesis using card_inj_on_le [of _ ?J "{..<beam_n}"] by fastforce
qed

lemma candidate_rows_cand_ok:
  assumes rows: "candidate_rows (bs_batch_size s) (bs_num_beams s) vocab scores arr"
    and len: "length scores = bs_batch_size s * bs_num_beams s * vocab" and n: "0 < bs_num_beams s"
  shows "cand_ok s (cand_of_array arr)"
proof -
  let ?n = "bs_num_beams s" and ?B = "bs_batch_size s"
  have l: "length arr = ?B * (2 * ?n)" using rows by (simp add: candidate_rows_def)
  have le: "length (entry_scores ?n vocab scores b) \<le> ?n * vocab" for b by (simp add: entry_scores_def)
  have idx: "0 \<le> snd (snd (arr ! k)) \<and> snd (snd (arr ! k)) < int ?n" if k: "k < ?B * (2 * ?n)" for k
  proof -
    let ?b = "k div (2 * ?n)" and ?j = "k mod (2 * ?n)"
    have b: "?b < ?B" and j: "?j < 2 * ?n" using k n by (auto simp: less_mult_imp_div_less)
    obtain vs where vs: "best_first (2 * ?n) (scored (entry_scores ?n vocab scores ?b)) vs"
      and arr: "\<And>j. j < 2 * ?n \<Longrightarrow> arr ! (?b * (2 * ?n) + j) = candidate_of vocab (vs ! j)"
      using candidate_rows_nth [OF rows b] by blast
    have "snd (vs ! ?j) < ?n * vocab"
      using best_first_nth [OF vs j] le [of ?b] by (simp add: scored_mem)
    then show ?thesis
      using arr [OF j, unfolded div_mult_mod_eq] by (simp add: candidate_of_def less_mult_imp_div_less)
  qed
  have eos: "length (filter (eos_cand s (cand_of_array arr) b) [0..<2 * ?n]) \<le> ?n" if b: "b < ?B" for b
  proof -
    obtain vs where vs: "best_first (2 * ?n) (scored (entry_scores ?n vocab scores b)) vs"
      and arr: "\<And>j. j < 2 * ?n \<Longrightarrow> arr ! (b * (2 * ?n) + j) = candidate_of vocab (vs ! j)"
      using candidate_rows_nth [OF rows b] by blast
    have "eos_cand s (cand_of_array arr) b j \<longrightarrow> snd (vs ! j) mod vocab = nat (bs_eos_token_id s)"
      if j: "j < 2 * ?n" for j
      using arr [OF j] cand_index_bound [OF b j] l by (auto simp: eos_cand_def cand_of_array_def candidate_of_def)
    then have "{j. j < 2 * ?n \<and> eos_cand s (cand_of_array arr) b j}
        \<subseteq> {j. j < 2 * ?n \<and> snd (vs ! j) mod vocab = nat (bs_eos_token_id s)}" by blast
    from card_mono [OF _ this] token_count [OF vs le, of "nat (bs_eos_token_id s)"]
    have "card {j. j < 2 * ?n \<and> eos_cand s (cand_of_array arr) b j} \<le> ?n" by simp
    moreover have "{i. i < 2 * ?n \<and> eos_cand s (cand_of_array arr) b ([0..<2 * ?n] ! i)}
        = {j. j < 2 * ?n \<and> eos_cand s (cand_of_array arr) b j}" by auto
    ultimately show ?thesis by (simp add: length_filter_conv_card)
  qed
  show ?thesis
    unfolding cand_ok_def using l idx eos by (auto simp: cand_of_array_def all_set_conv_all_nth)
qed

section \<open>One step of the beam search\<close>

definition indices_ok :: "nat \<Rightarrow> int list \<Rightarrow> bool" where
  "indices_ok n xs \<longleftrightarrow> (\<forall>i\<in>set xs. 0 \<le> i \<and> i < int n)"

definition beam_inv :: "('f::linorder, 't) BeamSearch_Cpu \<Rightarrow> bool" where
  "beam_inv s \<longleftrightarrow> params_ok (params s) \<and> 1 \<le> num_beams (search (params s)) \<and> 2 \<le> vocab_size (params s)
     \<and> seq_inv_beam (sequences s)
     \<and> sq_batch_beam_size (sequences s) = nbatch (params s) * nbeams (params s)
     \<and> sq_max_length (sequences s) = nmax_length (params s)
     \<and> scorer_inv (beam_scorer s)
     \<and> bs_batch_size (beam_scorer s) = nbatch (params s) \<and> bs_num_beams (beam_scorer s) = nbeams (params s)
     \<and> indices_ok (nbatch (params s) * nbeams (params s)) (bs_next_indices (beam_scorer s))
     \<and> bs_hyp_used (beam_scorer s) + nbatch (params s) * nbeams (params s)
          * (\<Sum>l=GetSequenceLength (sequences s)..<nmax_length (params s). l) \<le> bs_hyp_size (beam_scorer s)
     \<and> (GetSequenceLength (sequences s) = nmax_length (params s) \<longrightarrow> is_done s)"

text \<open>The scores a step ranks: token score plus the score of its beam.\<close>

definition ranked_scores :: "('f, 'g, 'y) cxx_scheme \<Rightarrow> ('f, 't) BeamSearch_Cpu \<Rightarrow> 'f list" where
  "ranked_scores cx s = map (\<lambda>o'. fadd cx (next_token_scores s ! o')
     (bs_next_scores (beam_scorer s) ! (o' div nvocab (params s)))) [0..<length (next_token_scores s)]"

definition beam_step_post ::
    "('f, 'g, 'y) cxx_scheme \<Rightarrow> ('f::linorder, 't) BeamSearch_Cpu \<Rightarrow> ('f, 't) BeamSearch_Cpu \<Rightarrow> bool" where
  "beam_step_post cx s s' \<longleftrightarrow> params s' = params s
     \<and> Search_GetSequenceLength s' = Suc (Search_GetSequenceLength s)
     \<and> seq_abs (sequences s') = map2 (\<lambda>i token. seq_abs (sequences s) ! nat i @ [token])
          (BeamSearch_GetNextIndices s') (BeamSearch_GetNextTokens s')
     \<and> (is_done s' \<longleftrightarrow> is_done s \<or> int (Search_GetSequenceLength s') = max_length (search (params s)))
     \<and> (\<exists>arr. candidate_rows (nbatch (params s)) (nbeams (params s)) (nvocab (params s)) (ranked_scores cx s) arr
          \<and> (\<forall>b<nbatch (params s). entry_post cx (cand_of_array arr) (beam_scorer s) b (beam_scorer s')))"

lemma sum_step: "l < m \<Longrightarrow> (\<Sum>i=l..<m. i) = l + (\<Sum>i=Suc l..<m. i)" for l m :: nat
  by (simp add: sum.atLeast_Suc_lessThan)

lemma BeamSearch_SelectTop_ok:
  fixes s :: "('f::linorder, 't) BeamSearch_Cpu"
  assumes inv: "beam_inv s" and q: "queue_ok cx" and ready: "scores_ready s"
    and room: "Search_GetSequenceLength s < nmax_length (params s)"
  shows "\<exists>s'. BeamSearch_SelectTop cx s = Inr s' \<and> beam_inv s' \<and> beam_step_post cx s s'"
proof -
  let ?p = "params s" and ?sc = "beam_scorer s" and ?sq = "sequences s"
  let ?B = "nbatch ?p" and ?n = "nbeams ?p" and ?V = "nvocab ?p"
  have cfg: "bs_batch_size ?sc = ?B" "bs_num_beams ?sc = ?n" "0 < ?n" "2 \<le> ?V" "scorer_inv ?sc"
    "seq_inv_beam ?sq" "sq_batch_beam_size ?sq = ?B * ?n" "sq_max_length ?sq = nmax_length ?p"
    using inv by (auto simp: beam_inv_def le_nat_iff)
  have rl: "length (next_token_scores s) = ?B * ?n * ?V"
    using ready inv by (simp add: scores_ready_def nat_BatchBeamSize beam_inv_def)
  have bl: "length (bs_next_scores ?sc) = ?B * ?n" using cfg by (simp add: scorer_inv_def)
  have add: "add_beam_scores cx ?B ?n ?V (bs_next_scores ?sc) (next_token_scores s) = Inr (ranked_scores cx s)"
    using add_beam_scores_ok [OF bl rl] by (simp add: ranked_scores_def)
  have sl: "length (ranked_scores cx s) = ?B * ?n * ?V" using rl by (simp add: ranked_scores_def)
  obtain arr where arr: "for_res (\<lambda>b arr. res_bind (batch_candidates cx ?n ?V (ranked_scores cx s) b) (\<lambda>cs.
            copy_into arr (b * (2 * ?n)) cs)) [0..<?B] (replicate (?B * (2 * ?n)) (fzero cx, 0, 0)) = Inr arr"
    and rows: "candidate_rows ?B ?n ?V (ranked_scores cx s) arr"
    using candidate_array_ok [OF q cfg(4) sl] by blast
  have co: "cand_ok ?sc (cand_of_array arr)"
    using candidate_rows_cand_ok [of ?sc ?V "ranked_scores cx s" arr] rows sl cfg by simp
  have so: "store_ok ?sc ?sq" using cfg by (simp add: store_ok_def seq_inv_beam_def)
  let ?len = "GetSequenceLength ?sq"
  have room': "bs_hyp_used ?sc + ?B * ?n * (?len + (\<Sum>l=Suc ?len..<nmax_length ?p. l)) \<le> bs_hyp_size ?sc"
    using inv room sum_step [of ?len "nmax_length ?p"] by (simp add: beam_inv_def Search_GetSequenceLength_def)
  then have "bs_hyp_used ?sc + bs_batch_size ?sc * (bs_num_beams ?sc * ?len) \<le> bs_hyp_size ?sc"
    using cfg by (simp add: distrib_left mult.assoc)
  from Process_ok [OF cfg(5) so co this, of cx] obtain sc' where
    sc': "Process cx ?sq (cand_of_array arr) ?sc = Inr sc'" "scorer_inv sc'" "same_config ?sc sc'"
      "bs_hyp_used sc' \<le> bs_hyp_used ?sc + bs_batch_size ?sc * (bs_num_beams ?sc * ?len)"
      "\<forall>b<bs_batch_size ?sc. entry_post cx (cand_of_array arr) ?sc b sc'"
    by blast
  have il: "length (bs_next_indices sc') = ?B * ?n" "length (bs_next_tokens sc') = ?B * ?n"
    using sc'(2,3) cfg by (auto simp: scorer_inv_def same_config_def)
  then have ir: "\<forall>i\<in>set (bs_next_indices sc'). 0 \<le> i \<and> i < int (sq_batch_beam_size ?sq)"
    using entry_post_indices [OF sc'(5) co sc'(3)] cfg unfolding all_set_conv_all_nth by simp
  obtain sq' where sq': "AppendNextTokenToSequences_beam (bs_next_indices sc') (bs_next_tokens sc') ?sq = Inr sq'"
    "seq_inv_beam sq'" "sq_batch_beam_size sq' = sq_batch_beam_size ?sq" "sq_max_length sq' = sq_max_length ?sq"
    "GetSequenceLength sq' = Suc ?len"
    "seq_abs sq' = map2 (\<lambda>i token. seq_abs ?sq ! nat i @ [token]) (bs_next_indices sc') (bs_next_tokens sc')"
    using AppendNextTokenToSequences_beam_step [OF cfg(6) _ _ _ ir, of "bs_next_tokens sc'"] il cfg room
    by (auto simp: Search_GetSequenceLength_def GetSequenceLength_def)
  let ?s = "s\<lparr>next_token_scores := ranked_scores cx s, beam_scorer := sc', next_tokens := bs_next_tokens sc',
       sequences := sq', is_done := (if int (GetSequenceLength sq') = max_length (search ?p) then True else is_done s)\<rparr>"
  have eq: "BeamSearch_SelectTop cx s = Inr ?s"
    using add arr sc'(1) sq'(1)
    by (simp add: BeamSearch_SelectTop_def Let_def BeamSearch_AppendNextTokensToSequences_def cand_of_array_def)
  have "bs_hyp_used sc' + ?B * ?n * (\<Sum>l=Suc ?len..<nmax_length ?p. l) \<le> bs_hyp_size sc'"
    using room' sc'(3,4) cfg by (simp add: distrib_left mult.assoc same_config_def)
  moreover have "params_ok ?p" "1 \<le> num_beams (search ?p)" "2 \<le> vocab_size ?p" using inv by (auto simp: beam_inv_def)
  moreover have "indices_ok (?B * ?n) (bs_next_indices sc')" using ir cfg(7) by (simp add: indices_ok_def)
  ultimately have "beam_inv ?s"
    using sc'(2,3) sq'(2-5) cfg(1,2,7,8) room
    unfolding beam_inv_def same_config_def by (simp add: Search_GetSequenceLength_def)
  moreover have "beam_step_post cx s ?s"
    using sq'(5,6) rows sc'(5) cfg
    by (auto simp: beam_step_post_def Search_GetSequenceLength_def BeamSearch_GetNextIndices_def BeamSearch_GetNextTokens_def)
  ultimately show ?thesis using eq by blast
qed

text \<open>The constructor establishes the invariant.\<close>

lemma BeamSearch_Cpu_new_ok:
  assumes p: "params_ok p" and n: "2 \<le> num_beams (search p)" and v: "2 \<le> vocab_size p"
    and m: "max_length (search p) \<le> 46340"
  shows "\<exists>s. BeamSearch_Cpu_new cx p = Inr s \<and> beam_inv s \<and> params s = p \<and> \<not> is_done s
     \<and> Search_GetSequenceLength s = nat (sequence_length p)
     \<and> sequence_lengths s = replicate (nat (BatchBeamSize p)) 0
     \<and> (\<forall>r<nbatch p * nbeams p. GetSequence (sequences s) r =
          Inr (take (nat (sequence_length p)) (drop (r div nbeams p * nat (sequence_length p)) (input_ids p))))"
proof -
  have k: "nat (max_length (search p) - sequence_length p) \<le> nat (max_length (search p) - sequence_length p + 1)" by simp
  have sl: "0 \<le> sequence_length p" "sequence_length p \<le> max_length (search p)" using p by (auto simp: params_ok_def)
  note cov = per_beam_covers [OF sl m k]
  obtain sc where sc: "BeamSearchScorer_new cx p = Inr sc" "bs_next_indices sc = replicate (nbatch p * nbeams p) 0" "bs_hyp_used sc = 0"
    "bs_hyp_size sc = nbatch p * nbeams p * nat (per_beam (max_length (search p)) (sequence_length p))"
    "bs_batch_size sc = nbatch p" "bs_num_beams sc = nbeams p"
    using cov(1) by (auto simp: BeamSearchScorer_new_def Let_def)
  have sci: "scorer_inv sc" using BeamSearchScorer_new_inv [OF sc(1)] n p by (simp add: params_ok_def)
  have le: "nat (sequence_length p) \<le> nmax_length p" using sl by (simp add: nat_mono)
  obtain q where q: "Sequences_new (input_ids p) (nbatch p) (nbeams p) (nmax_length p) = Inr q"
    "nbeams p \<noteq> 1 \<longrightarrow> seq_inv_beam q" "sq_batch_beam_size q = nbatch p * nbeams p"
    "sq_max_length q = nmax_length p" "GetSequenceLength q = nat (sequence_length p)"
    "\<forall>r<nbatch p * nbeams p. GetSequence q r =
          Inr (take (nat (sequence_length p)) (drop (r div nbeams p * nat (sequence_length p)) (input_ids p)))"
    using Sequences_new_ok [of "nbatch p" "input_ids p" "nat (sequence_length p)" "nmax_length p" "nbeams p"] p le
    by (auto simp: params_ok_def)
  have "(\<Sum>l=nat (sequence_length p)..<nmax_length p. l) =
      (\<Sum>i<nat (max_length (search p) - sequence_length p). nat (sequence_length p) + i)"
    using sum.shift_bounds_nat_ivl [of "\<lambda>l. l" 0 "nat (sequence_length p)" "nat (max_length (search p) - sequence_length p)"] sl
    by (simp add: nat_diff_distrib lessThan_atLeast0 add.commute)
  then have room: "(\<Sum>l=nat (sequence_length p)..<nmax_length p. l)
      \<le> nat (per_beam (max_length (search p)) (sequence_length p))" using cov(2) by simp
  have nb: "nbeams p \<noteq> 1" and lt: "nat (sequence_length p) \<noteq> nmax_length p"
    using n p by (auto simp: params_ok_def)
  have "indices_ok (nbatch p * nbeams p) (bs_next_indices sc)"
    using p n by (auto simp: sc(2) indices_ok_def params_ok_def)
  then show ?thesis
    using sc sci q p n v nb lt mult_le_mono2 [OF room, of "nbatch p * nbeams p"]
    by (simp add: BeamSearch_Cpu_new_def Search_Cpu_new_def beam_inv_def Search_GetSequenceLength_def)
qed

definition example_beam :: "(int, unit) BeamSearch_Cpu" where
  "example_beam = \<lparr>params = example_params\<lparr>search := example_search\<lparr>num_beams := 2\<rparr>\<rparr>,
     sequences = example_store, sequence_lengths = [0, 0, 0, 0], next_tokens = [],
     next_token_scores = [3, 9, 5, 4, 1, 8, 7, 2, 6, 1, 2, 3], is_done = False,
     beam_scorer = example_scorer\<rparr>"

lemma example_beam_inv: "beam_inv example_beam"
proof -
  have "(\<Sum>l=Suc 0..<3. l) = (3::nat)" by (simp add: numeral_eq_Suc)
  then show ?thesis
    using example_scorer_inv
    by (simp add: beam_inv_def example_beam_def example_params_defs params_ok_def example_store_def
        seq_inv_beam_def seq_inv_def GetSequenceLength_def example_scorer_def indices_ok_def)
qed

lemma example_beam_ready: "scores_ready example_beam"
  by (simp add: scores_ready_def example_beam_def example_params_defs BatchBeamSize_def)

text \<open>C21. A step of the beam search is safe and right: on a search that satisfies its invariant, with
  scores for the whole vocabulary and room for a token, \<open>SelectTop\<close> returns, keeps the invariant and
  makes every sequence one token longer; new sequence \<open>i\<close> is the old sequence of the beam that the
  scorer's index names, followed by the scorer's token; the tokens and indices come from the best
  \<open>2 * num_beams\<close> candidates of each batch entry, ranked by token score plus beam score. The search is
  done only by reaching the maximal length: the scorer's own verdict is not consulted.\<close>

theorem BeamSearch_SelectTop_correct:
  fixes s :: "('f::linorder, 't) BeamSearch_Cpu"
  assumes "beam_inv s" and "queue_ok cx" and "scores_ready s"
    and "Search_GetSequenceLength s < nmax_length (params s)"
  shows "\<exists>s'. BeamSearch_SelectTop cx s = Inr s' \<and> beam_inv s' \<and> beam_step_post cx s s'"
  using assms by (rule BeamSearch_SelectTop_ok)

theorem BeamSearch_SelectTop_correct_witness:
  "\<exists>s'. BeamSearch_SelectTop int_cxx example_beam = Inr s' \<and> beam_inv s'
     \<and> Search_GetSequenceLength s' = 2 \<and> \<not> is_done s'"
  using BeamSearch_SelectTop_correct [OF example_beam_inv int_cxx_queue_ok example_beam_ready]
  by (auto simp: beam_step_post_def example_beam_def example_params_defs Search_GetSequenceLength_def
      GetSequenceLength_def example_store_def)

end
