(* ===== verification/Generator.thy ===== *)
theory Generator
  imports BeamSearch Config "HOL-Library.Sublist"
begin

text \<open>
  \<open>src/generators.h\<close>, \<open>src/generators.cpp\<close>: the parameters of a generation as they are derived from a
  model's configuration, the choice of the search, and the \<open>Generator\<close> that alternates between running
  the model and selecting tokens until the search is done. The virtual calls of \<open>Search\<close> dispatch on
  the two CPU searches; the model state, which runs the network, is a parameter. Logging is left out.

  The locale \<open>bounded_engine\<close> is what the generation loop relies on; it is interpreted on the generator
  itself, and the termination and correctness of \<open>Generate\<close> rest on that interpretation.
\<close>

section \<open>Parameters\<close>

definition GeneratorParams_new :: "'f Config \<Rightarrow> DeviceType \<Rightarrow> ('f, 't) GeneratorParams" where
  "GeneratorParams_new c device =
     (let m = co_model c; cuda_graph = IsCudaGraphEnabled (de_session_options (mo_decoder m)) in
      \<lparr>search = co_search c, pad_token_id = mo_pad_token_id m, eos_token_id = mo_eos_token_id m,
       vocab_size = mo_vocab_size m, context_length = 0, batch_size = 1,
       max_batch_size = (if cuda_graph then 1 else 0), use_cuda_graph = cuda_graph, sequence_length = 0,
       hidden_size = de_hidden_size (mo_decoder m), device_type = device, input_ids = [],
       whisper_input_features = None, extra_inputs = [], is_cuda_graph_enabled = cuda_graph\<rparr>)"

definition TryGraphCapture :: "int \<Rightarrow> ('f, 't) GeneratorParams \<Rightarrow> ('f, 't) GeneratorParams res" where
  "TryGraphCapture max_bs p =
     (if \<not> is_cuda_graph_enabled p \<or> device_type p = CPU then Inr p
      else if device_type p = CUDA \<or> device_type p = DML then
        (if max_bs = 0 then Inl (RuntimeError ''Graph capture is enabled, but max_batch_size is not set.'')
         else Inr (p\<lparr>use_cuda_graph := True, max_batch_size := max_bs\<rparr>))
      else Inl (RuntimeError ''CUDA graph is not supported on this device''))"

text \<open>A tensor of input ids is its data and its shape. A batch of 0 rows divides by zero.\<close>

definition SetInput ::
    "'f Config \<Rightarrow> ('t \<Rightarrow> int list \<times> int list) \<Rightarrow> string \<times> 't \<Rightarrow> ('f, 't) GeneratorParams \<Rightarrow> ('f, 't) GeneratorParams res" where
  "SetInput c tensor_data nt p =
     (if fst nt = ''input_ids'' then
        (case tensor_data (snd nt) of (ids, shape) \<Rightarrow>
           res_bind (get shape 0) (\<lambda>rows.
           if rows = 0 then Inl DivisionByZero
           else Inr (p\<lparr>input_ids := ids, batch_size := rows, sequence_length := int (length ids) div rows\<rparr>)))
      else Inr (p\<lparr>extra_inputs := extra_inputs p @ [(fst (GetGraphName c (fst nt)), snd nt)]\<rparr>))"

definition SetInputs ::
    "'f Config \<Rightarrow> ('t \<Rightarrow> int list \<times> int list) \<Rightarrow> (string \<times> 't) list \<Rightarrow> ('f, 't) GeneratorParams \<Rightarrow> ('f, 't) GeneratorParams res" where
  "SetInputs c tensor_data named_tensors p = for_res (SetInput c tensor_data) named_tensors p"

section \<open>The search interface\<close>

datatype ('f, 't, 'g) SearchObj = Greedy "('f, 't, 'g) GreedySearch_Cpu" | Beam "('f, 't) BeamSearch_Cpu"

definition CreateSearch ::
    "('f, 'g, 'y) cxx_scheme \<Rightarrow> (int \<Rightarrow> 'g) \<Rightarrow> 'g \<Rightarrow> ('f, 't) GeneratorParams \<Rightarrow> ('f, 't, 'g) SearchObj res" where
  "CreateSearch cx seed device p =
     (if 1 < num_beams (search p) then res_bind (BeamSearch_Cpu_new cx p) (\<lambda>s. Inr (Beam s))
      else res_bind (GreedySearch_Cpu_new seed device p) (\<lambda>s. Inr (Greedy s)))"

fun obj_params :: "('f, 't, 'g) SearchObj \<Rightarrow> ('f, 't) GeneratorParams" where
  "obj_params (Greedy s) = params s"
| "obj_params (Beam s) = params s"

fun obj_GetSequenceLength :: "('f, 't, 'g) SearchObj \<Rightarrow> nat" where
  "obj_GetSequenceLength (Greedy s) = Search_GetSequenceLength s"
| "obj_GetSequenceLength (Beam s) = Search_GetSequenceLength s"

fun obj_GetSequence :: "('f, 't, 'g) SearchObj \<Rightarrow> nat \<Rightarrow> int list res" where
  "obj_GetSequence (Greedy s) index = Search_GetSequence s index"
| "obj_GetSequence (Beam s) index = Search_GetSequence s index"

fun obj_GetNextTokens :: "('f, 't, 'g) SearchObj \<Rightarrow> int list" where
  "obj_GetNextTokens (Greedy s) = next_tokens s"
| "obj_GetNextTokens (Beam s) = BeamSearch_GetNextTokens s"

fun obj_GetNextIndices :: "('f, 't, 'g) SearchObj \<Rightarrow> int list" where
  "obj_GetNextIndices (Greedy s) = []"
| "obj_GetNextIndices (Beam s) = BeamSearch_GetNextIndices s"

fun obj_IsDone :: "('f, 't, 'g) SearchObj \<Rightarrow> bool" where
  "obj_IsDone (Greedy s) = is_done s"
| "obj_IsDone (Beam s) = is_done s"

fun obj_SetLogits :: "'f list \<Rightarrow> ('f, 't, 'g) SearchObj \<Rightarrow> ('f, 't, 'g) SearchObj" where
  "obj_SetLogits logits (Greedy s) = Greedy (SetLogits logits s)"
| "obj_SetLogits logits (Beam s) = Beam (SetLogits logits s)"

fun obj_ApplyMinLength :: "('f, 'g, 'y) cxx_scheme \<Rightarrow> int \<Rightarrow> ('f, 't, 'g) SearchObj \<Rightarrow> ('f, 't, 'g) SearchObj res" where
  "obj_ApplyMinLength cx n (Greedy s) = res_bind (ApplyMinLength cx n s) (\<lambda>s'. Inr (Greedy s'))"
| "obj_ApplyMinLength cx n (Beam s) = res_bind (ApplyMinLength cx n s) (\<lambda>s'. Inr (Beam s'))"

fun obj_ApplyRepetitionPenalty ::
    "('f::linorder, 'g, 'y) cxx_scheme \<Rightarrow> 'f \<Rightarrow> ('f, 't, 'g) SearchObj \<Rightarrow> ('f, 't, 'g) SearchObj res" where
  "obj_ApplyRepetitionPenalty cx x (Greedy s) = res_bind (ApplyRepetitionPenalty cx x s) (\<lambda>s'. Inr (Greedy s'))"
| "obj_ApplyRepetitionPenalty cx x (Beam s) = res_bind (ApplyRepetitionPenalty cx x s) (\<lambda>s'. Inr (Beam s'))"

fun obj_SelectTop :: "('f::linorder, 'g, 'y) cxx_scheme \<Rightarrow> ('f, 't, 'g) SearchObj \<Rightarrow> ('f, 't, 'g) SearchObj res" where
  "obj_SelectTop cx (Greedy s) = res_bind (SelectTop s) (\<lambda>s'. Inr (Greedy s'))"
| "obj_SelectTop cx (Beam s) = res_bind (BeamSearch_SelectTop cx s) (\<lambda>s'. Inr (Beam s'))"

text \<open>The sampling methods of the base class do nothing in a release build.\<close>

fun obj_SampleTopP ::
    "('f::linorder, 'g, 'y) cxx_scheme \<Rightarrow> 'f \<Rightarrow> 'f \<Rightarrow> ('f, 't, 'g) SearchObj \<Rightarrow> ('f, 't, 'g) SearchObj res" where
  "obj_SampleTopP cx p temp (Greedy s) = res_bind (SampleTopP cx p temp s) (\<lambda>s'. Inr (Greedy s'))"
| "obj_SampleTopP cx p temp (Beam s) = Inr (Beam s)"

fun obj_SampleTopK ::
    "('f::linorder, 'g, 'y) cxx_scheme \<Rightarrow> int \<Rightarrow> 'f \<Rightarrow> ('f, 't, 'g) SearchObj \<Rightarrow> ('f, 't, 'g) SearchObj res" where
  "obj_SampleTopK cx k temp (Greedy s) = res_bind (SampleTopK cx k temp s) (\<lambda>s'. Inr (Greedy s'))"
| "obj_SampleTopK cx k temp (Beam s) = Inr (Beam s)"

fun obj_SampleTopKTopP ::
    "('f::linorder, 'g, 'y) cxx_scheme \<Rightarrow> int \<Rightarrow> 'f \<Rightarrow> 'f \<Rightarrow> ('f, 't, 'g) SearchObj \<Rightarrow> ('f, 't, 'g) SearchObj res" where
  "obj_SampleTopKTopP cx k p temp (Greedy s) = res_bind (SampleTopKTopP cx k p temp s) (\<lambda>s'. Inr (Greedy s'))"
| "obj_SampleTopKTopP cx k p temp (Beam s) = Inr (Beam s)"

section \<open>The generator\<close>

text \<open>What the generator calls of a model: creating a state and running it.\<close>

record ('f, 't, 'st) ModelOps =
  CreateState :: "int list \<Rightarrow> ('f, 't) GeneratorParams \<Rightarrow> 'st res"
  Run :: "'st \<Rightarrow> nat \<Rightarrow> int list \<Rightarrow> int list \<Rightarrow> ('f list \<times> 'st) res"

record ('f, 't, 'g, 'st) Generator =
  search_obj :: "('f, 't, 'g) SearchObj"
  state :: 'st
  computed_logits :: bool

fun obj_GetSequenceLengths :: "('f, 't, 'g) SearchObj \<Rightarrow> int list" where
  "obj_GetSequenceLengths (Greedy s) = sequence_lengths s"
| "obj_GetSequenceLengths (Beam s) = sequence_lengths s"

definition check_params :: "int \<Rightarrow> ('f, 't) GeneratorParams \<Rightarrow> unit res" where
  "check_params model_context_length p =
     (let max_len = max_length (search p) in
      if max_len = 0 then Inl (RuntimeError ''search max_length is 0'')
      else if model_context_length < max_len then
        Inl (RuntimeError (''max_length ('' @ int_to_string max_len @ '') cannot be greater than model context_length (''
             @ int_to_string model_context_length @ '')''))
      else if batch_size p < 1 then
        Inl (RuntimeError (''batch_size must be 1 or greater, is '' @ int_to_string (batch_size p)))
      else if vocab_size p < 1 then
        Inl (RuntimeError (''vocab_size must be 1 or greater, is '' @ int_to_string (vocab_size p)))
      else if max_len \<le> sequence_length p then
        Inl (RuntimeError (''input sequence_length ('' @ int_to_string (sequence_length p) @ '') is >= max_length (''
             @ int_to_string max_len @ '')''))
      else Inr ())"

definition Generator_new ::
    "('f, 'g, 'y) cxx_scheme \<Rightarrow> (int \<Rightarrow> 'g) \<Rightarrow> 'g \<Rightarrow> ('f, 't, 'st, 'z) ModelOps_scheme \<Rightarrow> 'f Config \<Rightarrow>
     ('f, 't) GeneratorParams \<Rightarrow> ('f, 't, 'g, 'st) Generator res" where
  "Generator_new cx seed device M c p =
     res_bind (check_params (mo_context_length (co_model c)) p) (\<lambda>_.
     res_bind (CreateSearch cx seed device p) (\<lambda>s.
     res_bind (CreateState M (obj_GetSequenceLengths s) p) (\<lambda>st.
     Inr \<lparr>search_obj = s, state = st, computed_logits = False\<rparr>)))"

definition ComputeLogits ::
    "('f::linorder, 'g, 'y) cxx_scheme \<Rightarrow> ('f, 't, 'st, 'z) ModelOps_scheme \<Rightarrow> ('f, 't, 'g, 'st) Generator \<Rightarrow>
     ('f, 't, 'g, 'st) Generator res" where
  "ComputeLogits cx M g =
     (if computed_logits g then
        Inl (RuntimeError ''ComputeLogits called again without calling GenerateNextToken first'')
      else let s = search_obj g in
        res_bind (Run M (state g) (obj_GetSequenceLength s) (obj_GetNextTokens s) (obj_GetNextIndices s)) (\<lambda>(logits, st).
        let s' = obj_SetLogits logits s; cfg = search (obj_params s') in
        res_bind (obj_ApplyMinLength cx (min_length cfg) s') (\<lambda>s1.
        res_bind (obj_ApplyRepetitionPenalty cx (repetition_penalty cfg) s1) (\<lambda>s2.
        Inr (g\<lparr>search_obj := s2, state := st, computed_logits := True\<rparr>)))))"

definition Generator_IsDone :: "('f, 't, 'g, 'st) Generator \<Rightarrow> bool res" where
  "Generator_IsDone g =
     (if computed_logits g then
        Inl (RuntimeError (''IsDone() can'' @ [CHR 0x27] @ ''t be called in the middle of processing logits''))
      else Inr (obj_IsDone (search_obj g)))"

text \<open>The choice between greedy selection and the three ways to sample.\<close>

definition select_token ::
    "('f::linorder, 'g, 'y) cxx_scheme \<Rightarrow> ('f, 't, 'g) SearchObj \<Rightarrow> ('f, 't, 'g) SearchObj res" where
  "select_token cx s =
     (let cfg = search (obj_params s) in
      if \<not> do_sample cfg \<or> top_k cfg = 1 then obj_SelectTop cx s
      else if num_beams cfg \<noteq> 1 then Inl (RuntimeError ''TopK and TopP cannot be used with a beam search'')
      else if top_p cfg < fzero cx \<or> fone cx < top_p cfg then
        Inl (RuntimeError ''top_p must be between 0.0 and 1.0'')
      else if top_k cfg < 0 then Inl (RuntimeError ''top_k must be 0 or greater'')
      else if fzero cx < top_p cfg \<and> top_p cfg < fone cx \<and> 1 < top_k cfg then
        obj_SampleTopKTopP cx (top_k cfg) (top_p cfg) (temperature cfg) s
      else if 1 < top_k cfg then obj_SampleTopK cx (top_k cfg) (temperature cfg) s
      else obj_SampleTopP cx (top_p cfg) (temperature cfg) s)"

definition GenerateNextToken ::
    "('f::linorder, 'g, 'y) cxx_scheme \<Rightarrow> ('f, 't, 'g, 'st) Generator \<Rightarrow> ('f, 't, 'g, 'st) Generator res" where
  "GenerateNextToken cx g =
     (if \<not> computed_logits g then Inl (RuntimeError ''Must call ComputeLogits before GenerateNextToken'')
      else res_bind (select_token cx (search_obj g)) (\<lambda>s.
           Inr (g\<lparr>search_obj := s, computed_logits := False\<rparr>)))"

definition Generator_GetSequence :: "('f, 't, 'g, 'st) Generator \<Rightarrow> nat \<Rightarrow> int list res" where
  "Generator_GetSequence g index = obj_GetSequence (search_obj g) index"

text \<open>The \<open>while\<close> loop of \<open>Generate\<close>, bounded by fuel; \<open>None\<close> is running out of it.\<close>

primrec while_not_done :: "('s \<Rightarrow> bool res) \<Rightarrow> ('s \<Rightarrow> 's res) \<Rightarrow> nat \<Rightarrow> 's \<Rightarrow> 's res option" where
  "while_not_done finished step 0 s = (if finished s = Inr True then Some (Inr s) else None)"
| "while_not_done finished step (Suc n) s =
     (case finished s of
        Inl e \<Rightarrow> Some (Inl e)
      | Inr b \<Rightarrow> if b then Some (Inr s)
                 else (case step s of Inl e \<Rightarrow> Some (Inl e) | Inr s' \<Rightarrow> while_not_done finished step n s'))"

definition generate_step ::
    "('f::linorder, 'g, 'y) cxx_scheme \<Rightarrow> ('f, 't, 'st, 'z) ModelOps_scheme \<Rightarrow> ('f, 't, 'g, 'st) Generator \<Rightarrow>
     ('f, 't, 'g, 'st) Generator res" where
  "generate_step cx M g = res_bind (ComputeLogits cx M g) (GenerateNextToken cx)"

definition collect_sequences :: "('f, 't, 'g, 'st) Generator \<Rightarrow> nat \<Rightarrow> int list list res" where
  "collect_sequences g n =
     for_res (\<lambda>i result. res_bind (obj_GetSequence (search_obj g) i) (\<lambda>v. Inr (result @ [v]))) [0..<n] []"

definition Generate ::
    "nat \<Rightarrow> ('f::linorder, 'g, 'y) cxx_scheme \<Rightarrow> (int \<Rightarrow> 'g) \<Rightarrow> 'g \<Rightarrow> ('f, 't, 'st, 'z) ModelOps_scheme \<Rightarrow> 'f Config \<Rightarrow>
     ('f, 't) GeneratorParams \<Rightarrow> int list list res option" where
  "Generate fuel cx seed device M c p =
     (case Generator_new cx seed device M c p of
        Inl e \<Rightarrow> Some (Inl e)
      | Inr g \<Rightarrow>
          map_option (\<lambda>r. res_bind r (\<lambda>g'. collect_sequences g' (nbatch p)))
            (while_not_done Generator_IsDone (generate_step cx M) fuel g))"

section \<open>The loop of a bounded engine\<close>

locale bounded_engine =
  fixes inv :: "'s \<Rightarrow> bool" and len :: "'s \<Rightarrow> nat" and limit :: "'s \<Rightarrow> nat"
    and finished :: "'s \<Rightarrow> bool res" and step :: "'s \<Rightarrow> 's res" and extends :: "'s \<Rightarrow> 's \<Rightarrow> bool"
  assumes extends_refl: "extends s s" and extends_trans: "extends s t \<Longrightarrow> extends t u \<Longrightarrow> extends s u"
    and finished_ok: "inv s \<Longrightarrow> \<exists>b. finished s = Inr b"
    and at_limit: "inv s \<Longrightarrow> len s \<le> limit s \<and> (len s = limit s \<longrightarrow> finished s = Inr True)"
    and step_ok: "inv s \<Longrightarrow> finished s = Inr False \<Longrightarrow>
      \<exists>s'. step s = Inr s' \<and> inv s' \<and> len s' = Suc (len s) \<and> limit s' = limit s \<and> extends s s'"
begin

text \<open>From any state in the invariant the loop ends after at most as many steps as there is room, without
  an error, in a finished state.\<close>

lemma loop_ends:
  assumes "inv s" and "limit s - len s \<le> n"
  shows "\<exists>s'. while_not_done finished step n s = Some (Inr s') \<and> inv s' \<and> finished s' = Inr True
     \<and> extends s s' \<and> len s' \<le> limit s \<and> (s' = s \<or> len s < len s')"
  using assms
proof (induction n arbitrary: s)
  case 0
  then show ?case using at_limit [of s] extends_refl by auto
next
  case (Suc n)
  obtain b where b: "finished s = Inr b" using finished_ok [OF Suc.prems(1)] by blast
  show ?case
  proof (cases b)
    case True
    then show ?thesis using b Suc.prems at_limit [of s] extends_refl by simp
  next
    case False
    then obtain t where t: "step s = Inr t" "inv t" "len t = Suc (len s)" "limit t = limit s" "extends s t"
      using step_ok [OF Suc.prems(1)] b by auto
    have "limit t - len t \<le> n" using Suc.prems(2) t(3,4) by simp
    from Suc.IH [OF t(2) this] obtain u where "while_not_done finished step n t = Some (Inr u)" "inv u"
      "finished u = Inr True" "extends t u" "len u \<le> limit t" "u = t \<or> len t < len u" by blast
    then show ?thesis using b False t extends_trans [OF t(5)] by auto
  qed
qed

end

section \<open>The generator as a bounded engine\<close>

text \<open>The options a step cannot fail on: greedy selection, or sampling of one of the two kinds that keep the
  bookkeeping of finished entries, with an end-of-sequence id in the vocabulary and no repetition
  penalty (whose reads need every id of a sequence to be in the vocabulary).\<close>

definition options_ok :: "('f::linorder, 'g, 'y) cxx_scheme \<Rightarrow> ('f, 't) GeneratorParams \<Rightarrow> bool" where
  "options_ok cx p \<longleftrightarrow> 1 \<le> num_beams (search p) \<and> repetition_penalty (search p) = fone cx
     \<and> 0 \<le> eos_token_id p \<and> eos_token_id p < vocab_size p
     \<and> (let cfg = search p in
        (\<not> do_sample cfg \<or> top_k cfg = 1)
        \<or> num_beams cfg = 1 \<and> fzero cx \<le> top_p cfg \<and> top_p cfg \<le> fone cx \<and>
          (top_k cfg = 0 \<or> fzero cx < top_p cfg \<and> top_p cfg < fone cx \<and> 1 < top_k cfg \<and> top_k cfg \<le> vocab_size p))"

text \<open>The arguments of a run: a token for every beam and, in a beam search, the beam each one continues.\<close>

definition run_args_ok :: "('f, 't) GeneratorParams \<Rightarrow> int list \<Rightarrow> int list \<Rightarrow> bool" where
  "run_args_ok p toks idx \<longleftrightarrow> length toks = nat (BatchBeamSize p)
     \<and> (if num_beams (search p) = 1 then idx = []
        else length idx = nat (BatchBeamSize p) \<and> (\<forall>i\<in>set idx. 0 \<le> i \<and> i < BatchBeamSize p))"

text \<open>What the model's state promises: when it is ready to run at length \<open>n\<close> (\<open>ok n\<close>), a run on good arguments
  returns one row of logits per beam and leaves it ready for the next length.\<close>

definition runs_ok :: "('f, 't, 'st, 'z) ModelOps_scheme \<Rightarrow> (nat \<Rightarrow> 'st \<Rightarrow> bool) \<Rightarrow> ('f, 't) GeneratorParams \<Rightarrow> bool" where
  "runs_ok M ok p \<longleftrightarrow> (\<forall>st n toks idx. ok n st \<longrightarrow> n < nmax_length p \<longrightarrow> run_args_ok p toks idx \<longrightarrow>
     (\<exists>logits st'. Run M st n toks idx = Inr (logits, st') \<and> ok (Suc n) st'
        \<and> length logits = nat (BatchBeamSize p) * nvocab p))"

fun obj_inv :: "('f::linorder, 't, 'g) SearchObj \<Rightarrow> bool" where
  "obj_inv (Greedy s) \<longleftrightarrow> greedy_inv s \<and> num_beams (search (params s)) = 1"
| "obj_inv (Beam s) \<longleftrightarrow> beam_inv s \<and> 1 < num_beams (search (params s))"

definition gen_inv ::
    "('f::linorder, 'g, 'y) cxx_scheme \<Rightarrow> ('f, 't, 'st, 'z) ModelOps_scheme \<Rightarrow> (nat \<Rightarrow> 'st \<Rightarrow> bool) \<Rightarrow>
     ('f, 't, 'g, 'st) Generator \<Rightarrow> bool" where
  "gen_inv cx M ok g \<longleftrightarrow> queue_ok cx \<and> sort_ok cx \<and> runs_ok M ok (obj_params (search_obj g))
     \<and> ok (obj_GetSequenceLength (search_obj g)) (state g)
     \<and> \<not> computed_logits g \<and> options_ok cx (obj_params (search_obj g)) \<and> obj_inv (search_obj g)"

abbreviation gen_len :: "('f, 't, 'g, 'st) Generator \<Rightarrow> nat" where
  "gen_len g \<equiv> obj_GetSequenceLength (search_obj g)"

abbreviation gen_limit :: "('f, 't, 'g, 'st) Generator \<Rightarrow> nat" where
  "gen_limit g \<equiv> nmax_length (obj_params (search_obj g))"

text \<open>The scores of a search are in place for the selection of a token.\<close>

fun obj_ready :: "('f, 't, 'g) SearchObj \<Rightarrow> bool" where
  "obj_ready (Greedy s) \<longleftrightarrow> scores_ready s"
| "obj_ready (Beam s) \<longleftrightarrow> scores_ready s"

lemma obj_limit:
  assumes "obj_inv s"
  shows "obj_GetSequenceLength s \<le> nmax_length (obj_params s)
    \<and> (obj_GetSequenceLength s = nmax_length (obj_params s) \<longrightarrow> obj_IsDone s)"
  using assms
  by (cases s) (auto simp: greedy_inv_def beam_inv_def seq_inv_beam_def seq_inv_def Search_GetSequenceLength_def
      GetSequenceLength_def)

lemma obj_run_args:
  assumes "obj_inv s"
  shows "run_args_ok (obj_params s) (obj_GetNextTokens s) (obj_GetNextIndices s)"
proof (cases s)
  case (Greedy t)
  then show ?thesis using assms by (simp add: run_args_ok_def greedy_inv_def BatchBeamSize_def)
next
  case (Beam t)
  have "params_ok (params t)" "0 \<le> num_beams (search (params t))" using assms Beam by (auto simp: beam_inv_def)
  then have "int (nbatch (params t) * nbeams (params t)) = BatchBeamSize (params t)"
    by (simp add: params_ok_def BatchBeamSize_def)
  then show ?thesis
    using assms Beam by (simp add: run_args_ok_def beam_inv_def scorer_inv_def BeamSearch_GetNextTokens_def
        BeamSearch_GetNextIndices_def nat_BatchBeamSize indices_ok_def)
qed

lemma greedy_inv_scores: "greedy_inv (s\<lparr>next_token_scores := sc\<rparr>) = greedy_inv s"
  by (simp add: greedy_inv_def)

lemma beam_inv_scores: "beam_inv (s\<lparr>next_token_scores := sc\<rparr>) = beam_inv s"
  by (simp add: beam_inv_def)

text \<open>Greedy and sampling searches only ever append to the sequences of the batch; a beam search may replace
  a sequence by another beam's.\<close>

fun obj_extends :: "('f, 't, 'g) SearchObj \<Rightarrow> ('f, 't, 'g) SearchObj \<Rightarrow> bool" where
  "obj_extends (Greedy s) (Greedy t) \<longleftrightarrow>
     (\<forall>b<nbatch (params s). \<exists>new. seq_abs (sequences t) ! b = seq_abs (sequences s) ! b @ new)"
| "obj_extends (Beam s) (Beam t) \<longleftrightarrow> True"
| "obj_extends _ _ \<longleftrightarrow> False"

lemma obj_extends_refl: "obj_extends s s"
  by (cases s) auto

lemma obj_extends_trans:
  "obj_extends s t \<Longrightarrow> obj_extends t u \<Longrightarrow> obj_params s = obj_params t \<Longrightarrow> obj_extends s u"
  by (cases s; cases t; cases u) (fastforce)+

lemma obj_extends_scores:
  "obj_extends (Greedy (s\<lparr>next_token_scores := sc\<rparr>)) u = obj_extends (Greedy s) u"
  "obj_extends (Beam (b\<lparr>next_token_scores := sc\<rparr>)) u = obj_extends (Beam b) u"
  by (cases u; simp)+

definition gen_extends :: "('f, 't, 'g, 'st) Generator \<Rightarrow> ('f, 't, 'g, 'st) Generator \<Rightarrow> bool" where
  "gen_extends g h \<longleftrightarrow> obj_params (search_obj h) = obj_params (search_obj g) \<and> obj_extends (search_obj g) (search_obj h)"

text \<open>Setting the logits and applying the two score filters leaves the search as it was, with its scores in
  place.\<close>

lemma scores_prepared:
  assumes inv: "obj_inv s" and opt: "options_ok cx (obj_params s)"
    and len: "length logits = nat (BatchBeamSize (obj_params s)) * nvocab (obj_params s)"
  shows "\<exists>s1. obj_ApplyMinLength cx n (obj_SetLogits logits s) = Inr s1
     \<and> obj_ApplyRepetitionPenalty cx (repetition_penalty (search (obj_params s))) s1 = Inr s1
     \<and> obj_inv s1 \<and> obj_ready s1 \<and> obj_params s1 = obj_params s \<and> (\<forall>u. obj_extends s1 u = obj_extends s u)
     \<and> obj_GetSequenceLength s1 = obj_GetSequenceLength s \<and> obj_IsDone s1 = obj_IsDone s"
proof (cases s)
  case (Greedy t)
  have r: "scores_ready (SetLogits logits t)" and e: "0 \<le> eos_token_id (params (SetLogits logits t))"
    "eos_token_id (params (SetLogits logits t)) < vocab_size (params (SetLogits logits t))"
    using len opt Greedy by (auto simp: scores_ready_def SetLogits_def options_ok_def)
  obtain sc where "ApplyMinLength cx n (SetLogits logits t) = Inr ((SetLogits logits t)\<lparr>next_token_scores := sc\<rparr>)"
    "length sc = length (next_token_scores (SetLogits logits t))"
    using ApplyMinLength_scores [OF r e, of cx n] by blast
  then show ?thesis
    using inv opt r Greedy
    by (auto simp: ApplyRepetitionPenalty_def options_ok_def greedy_inv_scores SetLogits_def scores_ready_def obj_extends_scores
        Search_GetSequenceLength_def)
next
  case (Beam t)
  have r: "scores_ready (SetLogits logits t)" and e: "0 \<le> eos_token_id (params (SetLogits logits t))"
    "eos_token_id (params (SetLogits logits t)) < vocab_size (params (SetLogits logits t))"
    using len opt Beam by (auto simp: scores_ready_def SetLogits_def options_ok_def)
  obtain sc where "ApplyMinLength cx n (SetLogits logits t) = Inr ((SetLogits logits t)\<lparr>next_token_scores := sc\<rparr>)"
    "length sc = length (next_token_scores (SetLogits logits t))"
    using ApplyMinLength_scores [OF r e, of cx n] by blast
  then show ?thesis
    using inv opt r Beam
    by (auto simp: ApplyRepetitionPenalty_def options_ok_def beam_inv_scores SetLogits_def scores_ready_def obj_extends_scores
        Search_GetSequenceLength_def)
qed

lemma greedy_ready:
  "obj_inv (Greedy s) \<Longrightarrow> scores_ready s \<Longrightarrow> greedy_scores_ready s"
  by (simp add: scores_ready_def greedy_scores_ready_def BatchBeamSize_def)

lemma step_post_params:
  "step_post T s s' \<Longrightarrow> params s' = params s \<and> Search_GetSequenceLength s' = Suc (Search_GetSequenceLength s)
     \<and> obj_extends (Greedy s) (Greedy s')"
  by (auto simp: step_post_def)

lemma select_token_ok:
  assumes inv: "obj_inv s" and ready: "obj_ready s" and opt: "options_ok cx (obj_params s)"
    and cx: "queue_ok cx" "sort_ok cx" and nd: "\<not> obj_IsDone s"
  shows "\<exists>s'. select_token cx s = Inr s' \<and> obj_inv s' \<and> obj_params s' = obj_params s
     \<and> obj_GetSequenceLength s' = Suc (obj_GetSequenceLength s) \<and> obj_extends s s'"
proof (cases s)
  case (Beam t)
  have room: "Search_GetSequenceLength t < nmax_length (params t)"
    using obj_limit [OF inv] nd Beam by auto
  have "\<not> do_sample (search (params t)) \<or> top_k (search (params t)) = 1"
    using inv opt Beam by (auto simp: options_ok_def Let_def)
  then show ?thesis
    using BeamSearch_SelectTop_ok [OF _ cx(1) _ room] inv ready Beam
    by (fastforce simp: select_token_def Let_def beam_step_post_def)
next
  case (Greedy t)
  let ?cfg = "search (params t)"
  have room: "Search_GetSequenceLength t < nmax_length (params t)"
    using obj_limit [OF inv] nd Greedy by auto
  have gi: "greedy_inv t" and gr: "greedy_scores_ready t" and nb: "num_beams ?cfg = 1"
    using inv ready Greedy greedy_ready by auto
  have "\<exists>t'. select_token cx s = Inr (Greedy t') \<and> greedy_inv t' \<and> (\<exists>T. step_post T t t')"
  proof (cases "\<not> do_sample ?cfg \<or> top_k ?cfg = 1")
    case True
    then show ?thesis
      using SelectTop_ok [OF gi gr room] Greedy by (fastforce simp: select_token_def Let_def)
  next
    case sample: False
    then have range: "fzero cx \<le> top_p ?cfg" "top_p ?cfg \<le> fone cx" "0 \<le> top_k ?cfg"
      "top_k ?cfg = 0 \<or> fzero cx < top_p ?cfg \<and> top_p ?cfg < fone cx \<and> 1 < top_k ?cfg \<and> top_k ?cfg \<le> vocab_size (params t)"
      using opt Greedy by (auto simp: options_ok_def Let_def)
    show ?thesis
    proof (cases "top_k ?cfg = 0")
      case True
      then have "select_token cx s = obj_SampleTopP cx (top_p ?cfg) (temperature ?cfg) s"
        using sample range nb Greedy by (auto simp: select_token_def Let_def dest: leD)
      then show ?thesis
        using SampleTopP_ok [OF gi gr cx(2) room, of "top_p ?cfg" "temperature ?cfg"] Greedy by fastforce
    next
      case False
      then have k: "1 \<le> top_k ?cfg" "top_k ?cfg \<le> vocab_size (params t)"
        and "select_token cx s = obj_SampleTopKTopP cx (top_k ?cfg) (top_p ?cfg) (temperature ?cfg) s"
        using sample range nb Greedy by (auto simp: select_token_def Let_def not_less)
      then show ?thesis
        using SampleTopKTopP_ok [OF gi gr cx(2) room k, of "top_p ?cfg" "temperature ?cfg"] Greedy by fastforce
    qed
  qed
  then show ?thesis using Greedy nb step_post_params by fastforce
qed

lemma generate_step_ok:
  assumes inv: "gen_inv cx M ok g" and nd: "Generator_IsDone g = Inr False"
  shows "\<exists>g'. generate_step cx M g = Inr g' \<and> gen_inv cx M ok g' \<and> gen_len g' = Suc (gen_len g)
     \<and> gen_extends g g'"
proof -
  let ?s = "search_obj g" and ?p = "obj_params (search_obj g)"
  have i: "queue_ok cx" "sort_ok cx" "runs_ok M ok ?p" "ok (gen_len g) (state g)" "\<not> computed_logits g" "options_ok cx ?p" "obj_inv ?s"
    using inv by (auto simp: gen_inv_def)
  have room: "gen_len g < nmax_length ?p"
    using obj_limit [OF i(7)] nd i(5) by (auto simp: Generator_IsDone_def)
  obtain logits st where r: "Run M (state g) (obj_GetSequenceLength ?s) (obj_GetNextTokens ?s) (obj_GetNextIndices ?s) = Inr (logits, st)"
    "ok (Suc (gen_len g)) st" "length logits = nat (BatchBeamSize ?p) * nvocab ?p"
    using i(3,4) room obj_run_args [OF i(7)] unfolding runs_ok_def by blast
  obtain s1 where s1: "obj_ApplyMinLength cx (min_length (search ?p)) (obj_SetLogits logits ?s) = Inr s1"
    "obj_ApplyRepetitionPenalty cx (repetition_penalty (search ?p)) s1 = Inr s1" "obj_inv s1" "obj_ready s1"
    "obj_params s1 = ?p" "\<forall>u. obj_extends s1 u = obj_extends ?s u" "obj_GetSequenceLength s1 = obj_GetSequenceLength ?s" "obj_IsDone s1 = obj_IsDone ?s"
    using scores_prepared [OF i(7,6) r(3)] by blast
  have pl: "obj_params (obj_SetLogits logits ?s) = ?p" by (cases ?s) (auto simp: SetLogits_def)
  have c: "ComputeLogits cx M g = Inr (g\<lparr>search_obj := s1, state := st, computed_logits := True\<rparr>)"
    using i(5) r(1) s1(1,2) pl by (simp add: ComputeLogits_def Let_def)
  have "\<not> obj_IsDone s1" using nd s1(8) i(5) by (simp add: Generator_IsDone_def)
  then obtain s2 where "select_token cx s1 = Inr s2" "obj_inv s2" "obj_params s2 = ?p"
    "obj_GetSequenceLength s2 = Suc (obj_GetSequenceLength ?s)" "obj_extends ?s s2"
    using select_token_ok [OF s1(3,4) _ i(1,2)] i(6) s1(5,6,7) by auto
  then show ?thesis
    using c i r(2) by (simp add: generate_step_def GenerateNextToken_def gen_inv_def gen_extends_def)
qed

interpretation gen: bounded_engine "gen_inv cx M ok" gen_len gen_limit Generator_IsDone "generate_step cx M" gen_extends
  for cx M ok
proof
  fix g
  assume inv: "gen_inv cx M ok g"
  then show "\<exists>b. Generator_IsDone g = Inr b" by (simp add: gen_inv_def Generator_IsDone_def)
  show "gen_len g \<le> gen_limit g \<and> (gen_len g = gen_limit g \<longrightarrow> Generator_IsDone g = Inr True)"
    using inv obj_limit [of "search_obj g"] by (auto simp: gen_inv_def Generator_IsDone_def)
  assume "Generator_IsDone g = Inr False"
  from generate_step_ok [OF inv this] show "\<exists>g'. generate_step cx M g = Inr g' \<and> gen_inv cx M ok g' \<and> gen_len g' = Suc (gen_len g)
      \<and> gen_limit g' = gen_limit g \<and> gen_extends g g'" by (auto simp: gen_extends_def)
qed (auto simp: gen_extends_def obj_extends_refl intro: obj_extends_trans)

text \<open>The generator the constructor makes. Prompt \<open>b\<close> is row \<open>b\<close> of the input ids.\<close>

definition prompt_of :: "('f, 't) GeneratorParams \<Rightarrow> nat \<Rightarrow> int list" where
  "prompt_of p b = take (nat (sequence_length p)) (drop (b * nat (sequence_length p)) (input_ids p))"

lemma GreedySearch_Cpu_new_ok:
  assumes p: "params_ok p" and nb: "num_beams (search p) = 1"
  shows "\<exists>s. GreedySearch_Cpu_new seed device p = Inr s \<and> greedy_inv s \<and> params s = p \<and> \<not> is_done s
     \<and> Search_GetSequenceLength s = nat (sequence_length p)
     \<and> sequence_lengths s = replicate (nat (BatchBeamSize p)) 0
     \<and> (\<forall>b<nbatch p. seq_abs (sequences s) ! b = prompt_of p b)"
proof -
  have sl: "0 \<le> sequence_length p" "sequence_length p < max_length (search p)" and b: "1 \<le> batch_size p"
    using p by (auto simp: params_ok_def)
  have le: "nat (sequence_length p) \<le> nmax_length p" using sl by (simp add: nat_mono)
  obtain q where q: "Sequences_new (input_ids p) (nbatch p) 1 (nmax_length p) = Inr q" "seq_inv q"
    "sq_batch_beam_size q = nbatch p" "sq_max_length q = nmax_length p" "GetSequenceLength q = nat (sequence_length p)"
    "\<forall>r<nbatch p. GetSequence q r = Inr (prompt_of p r)"
    using Sequences_new_ok [of "nbatch p" "input_ids p" "nat (sequence_length p)" "nmax_length p" 1] p le b
    by (auto simp: params_ok_def prompt_of_def)
  have pr: "\<forall>r<nbatch p. seq_abs q ! r = prompt_of p r"
    using q(2,3,6) GetSequence_view [of q] by fastforce
  have o: "open_entries (replicate (nbatch p) False) = nbatch p" by (simp add: open_entries_def)
  have "nat (sequence_length p) \<noteq> nmax_length p" using sl by linarith
  then show ?thesis
    using p nb q(1-5) o b sl pr
    by (simp add: GreedySearch_Cpu_new_def Search_Cpu_new_def greedy_inv_def Search_GetSequenceLength_def)
qed

lemma collect_sequences_ok:
  assumes "\<And>i. i < n \<Longrightarrow> obj_GetSequence (search_obj g) i = Inr (f i)"
  shows "collect_sequences g n = Inr (map f [0..<n])"
proof -
  have "\<exists>t. for_res (\<lambda>i result. res_bind (obj_GetSequence (search_obj g) i) (\<lambda>v. Inr (result @ [v]))) [0..<n] [] = Inr t
      \<and> t = map f [0..<n]"
    by (rule for_res_upt_rule [where I = "\<lambda>i t. t = map f [0..<i]"]) (simp_all add: assms)
  then show ?thesis by (simp add: collect_sequences_def)
qed

fun obj_store :: "('f, 't, 'g) SearchObj \<Rightarrow> Sequences" where
  "obj_store (Greedy s) = sequences s"
| "obj_store (Beam s) = sequences s"

lemma obj_GetSequence_view:
  assumes "obj_inv s" and "i < nbatch (obj_params s)"
  shows "obj_GetSequence s i = Inr (seq_view (obj_store s) i)"
    and "length (seq_view (obj_store s) i) = obj_GetSequenceLength s"
proof -
  have "seq_inv (obj_store s) \<and> i < sq_batch_beam_size (obj_store s)"
  proof (cases s)
    case (Greedy t)
    then show ?thesis using assms by (simp add: greedy_inv_def)
  next
    case (Beam t)
    have "1 \<le> nbeams (params t)" using assms(1) Beam by (simp add: le_nat_iff)
    from mult_le_mono2 [OF this, of "nbatch (params t)"] have "i < nbatch (params t) * nbeams (params t)"
      using assms(2) Beam by (simp only: obj_params.simps mult_1_right)
    then show ?thesis using assms Beam by (simp add: beam_inv_def seq_inv_beam_def)
  qed
  then show "obj_GetSequence s i = Inr (seq_view (obj_store s) i)"
    and "length (seq_view (obj_store s) i) = obj_GetSequenceLength s"
    by (cases s; simp add: Search_GetSequence_def Search_GetSequenceLength_def GetSequenceLength_def)+
qed

text \<open>What a generation needs to succeed.\<close>

definition generation_ok ::
    "('f::linorder, 'g, 'y) cxx_scheme \<Rightarrow> ('f, 't, 'st, 'z) ModelOps_scheme \<Rightarrow> (nat \<Rightarrow> 'st \<Rightarrow> bool) \<Rightarrow> 'f Config \<Rightarrow>
     ('f, 't) GeneratorParams \<Rightarrow> bool" where
  "generation_ok cx M ok c p \<longleftrightarrow> queue_ok cx \<and> sort_ok cx \<and> runs_ok M ok p
     \<and> (\<forall>lens. length lens = nat (BatchBeamSize p) \<longrightarrow>
          (\<exists>st. CreateState M lens p = Inr st \<and> ok (nat (sequence_length p)) st))
     \<and> params_ok p \<and> options_ok cx p \<and> max_length (search p) \<le> mo_context_length (co_model c)
     \<and> (1 < num_beams (search p) \<longrightarrow> 2 \<le> vocab_size p \<and> max_length (search p) \<le> 46340)"

lemma Generator_new_ok:
  assumes ok: "generation_ok cx M ok c p"
  shows "\<exists>g. Generator_new cx seed device M c p = Inr g \<and> gen_inv cx M ok g \<and> obj_params (search_obj g) = p
     \<and> gen_len g = nat (sequence_length p) \<and> Generator_IsDone g = Inr False
     \<and> (num_beams (search p) = 1 \<longrightarrow> (\<exists>t. search_obj g = Greedy t \<and> (\<forall>b<nbatch p. seq_abs (sequences t) ! b = prompt_of p b)))"
proof -
  have p: "params_ok p" "options_ok cx p" "max_length (search p) \<le> mo_context_length (co_model c)"
    using ok by (auto simp: generation_ok_def)
  have chk: "check_params (mo_context_length (co_model c)) p = Inr ()"
    using p by (auto simp: check_params_def params_ok_def Let_def)
  have "\<exists>s. CreateSearch cx seed device p = Inr s \<and> obj_inv s \<and> obj_params s = p
      \<and> obj_GetSequenceLength s = nat (sequence_length p) \<and> \<not> obj_IsDone s
      \<and> length (obj_GetSequenceLengths s) = nat (BatchBeamSize p)
      \<and> (num_beams (search p) = 1 \<longrightarrow> (\<exists>t. s = Greedy t \<and> (\<forall>b<nbatch p. seq_abs (sequences t) ! b = prompt_of p b)))"
  proof (cases "1 < num_beams (search p)")
    case True
    then show ?thesis
      using BeamSearch_Cpu_new_ok [OF p(1), of cx] ok by (fastforce simp: CreateSearch_def generation_ok_def)
  next
    case False
    then have "num_beams (search p) = 1" using p(2) by (auto simp: options_ok_def)
    then show ?thesis
      using GreedySearch_Cpu_new_ok [OF p(1), of seed device] by (auto simp: CreateSearch_def)
  qed
  then obtain s where s: "CreateSearch cx seed device p = Inr s" "obj_inv s" "obj_params s = p"
    "obj_GetSequenceLength s = nat (sequence_length p)" "\<not> obj_IsDone s" "length (obj_GetSequenceLengths s) = nat (BatchBeamSize p)"
    "num_beams (search p) = 1 \<longrightarrow> (\<exists>t. s = Greedy t \<and> (\<forall>b<nbatch p. seq_abs (sequences t) ! b = prompt_of p b))" by blast
  obtain st where st: "CreateState M (obj_GetSequenceLengths s) p = Inr st" "ok (nat (sequence_length p)) st"
    using ok s(6) unfolding generation_ok_def by blast
  show ?thesis
    using chk s st ok by (simp add: Generator_new_def gen_inv_def generation_ok_def Generator_IsDone_def)
qed

lemma Generate_result:
  assumes "generation_ok cx M ok c p" and "nmax_length p - nat (sequence_length p) \<le> fuel"
  shows "\<exists>result n. Generate fuel cx seed device M c p = Some (Inr result) \<and> length result = nbatch p
     \<and> nat (sequence_length p) < n \<and> n \<le> nmax_length p \<and> (\<forall>v\<in>set result. length v = n)
     \<and> (num_beams (search p) = 1 \<longrightarrow> (\<forall>b<nbatch p. \<exists>new. result ! b = prompt_of p b @ new))"
proof -
  obtain g where g: "Generator_new cx seed device M c p = Inr g" "gen_inv cx M ok g" "obj_params (search_obj g) = p"
    "gen_len g = nat (sequence_length p)" "Generator_IsDone g = Inr False"
    "num_beams (search p) = 1 \<longrightarrow> (\<exists>t. search_obj g = Greedy t \<and> (\<forall>b<nbatch p. seq_abs (sequences t) ! b = prompt_of p b))"
    using Generator_new_ok [OF assms(1)] by blast
  then have f: "gen_limit g - gen_len g \<le> fuel" using assms(2) by simp
  from gen.loop_ends [OF g(2) f] obtain g' where
    g': "while_not_done Generator_IsDone (generate_step cx M) fuel g = Some (Inr g')" "gen_inv cx M ok g'"
      "Generator_IsDone g' = Inr True" "gen_extends g g'" "gen_len g' \<le> gen_limit g" "g' = g \<or> gen_len g < gen_len g'"
    by blast
  have p': "obj_params (search_obj g') = p" and oi: "obj_inv (search_obj g')"
    using g'(2,4) g(3) by (auto simp: gen_extends_def gen_inv_def)
  let ?v = "seq_view (obj_store (search_obj g'))"
  have v: "obj_GetSequence (search_obj g') i = Inr (?v i)" "length (?v i) = gen_len g'" if "i < nbatch p" for i
    using obj_GetSequence_view [OF oi, of i] p' that by auto
  have "Generate fuel cx seed device M c p = Some (Inr (map ?v [0..<nbatch p]))"
    using g(1) g'(1) collect_sequences_ok [of "nbatch p" g' ?v] v(1) by (simp add: Generate_def)
  moreover have "nat (sequence_length p) < gen_len g'" "gen_len g' \<le> nmax_length p" using g(3,4,5) g'(3,5,6) by auto
  moreover have "\<exists>new. ?v b = prompt_of p b @ new" if nb: "num_beams (search p) = 1" and b: "b < nbatch p" for b
  proof -
    obtain t where t: "search_obj g = Greedy t" "seq_abs (sequences t) ! b = prompt_of p b" using g(6) nb b by blast
    then obtain t' where t': "search_obj g' = Greedy t'" using g'(4) by (cases "search_obj g'") (auto simp: gen_extends_def)
    have "b < sq_batch_beam_size (sequences t')" using oi t' p' b by (simp add: greedy_inv_def)
    then show ?thesis using g'(4) g(3) t t' b by (auto simp: gen_extends_def)
  qed
  ultimately show ?thesis using v(2) by (intro exI [of _ "map ?v [0..<nbatch p]"] exI [of _ "gen_len g'"]) simp
qed

text \<open>C27. \<open>Generate\<close> terminates with a result: for parameters that fit the model, a model whose state
  returns logits of the right shape, and greedy, beam or (top-p, top-k/top-p) sampling options,
  \<open>max_length - sequence_length\<close> rounds are enough, no call fails, and the result has one sequence per
  batch entry, all of the same length, longer than the prompt and at most \<open>max_length\<close>. Without beams
  sequence \<open>b\<close> starts with prompt \<open>b\<close>.\<close>

theorem Generate_terminates:
  assumes "generation_ok cx M ok c p" and "nmax_length p - nat (sequence_length p) \<le> fuel"
  shows "\<exists>result n. Generate fuel cx seed device M c p = Some (Inr result) \<and> length result = nbatch p
     \<and> nat (sequence_length p) < n \<and> n \<le> nmax_length p \<and> (\<forall>v\<in>set result. length v = n)
     \<and> (num_beams (search p) = 1 \<longrightarrow> (\<forall>b<nbatch p. \<exists>new. result ! b = prompt_of p b @ new))"
  by (rule Generate_result [OF assms])

text \<open>A model whose logits always favour token 1.\<close>

definition example_model :: "(int, unit, unit) ModelOps" where
  "example_model = \<lparr>CreateState = (\<lambda>_ _. Inr ()), Run = (\<lambda>_ _ _ _. Inr ([0, 5, 1, 0, 5, 1], ()))\<rparr>"

definition example_model_config :: "int Config" where
  "example_model_config = (let c = Config_default int_cxx [] in c\<lparr>co_model := (co_model c)\<lparr>mo_context_length := 8\<rparr>\<rparr>)"

lemma example_generation_ok: "generation_ok int_cxx example_model (\<lambda>_ _. True) example_model_config example_params"
  using int_cxx_queue_ok int_cxx_sort_ok example_params_ok
  by (simp add: generation_ok_def runs_ok_def example_model_def BatchBeamSize_def options_ok_def example_params_defs
      example_model_config_def config_defaults int_cxx_def Let_def)

theorem Generate_terminates_witness:
  "\<exists>result n. Generate 2 int_cxx nat 0 example_model example_model_config example_params = Some (Inr result)
     \<and> length result = 2 \<and> 1 < n \<and> n \<le> 3 \<and> (\<forall>v\<in>set result. length v = n)"
proof -
  from Generate_terminates [OF example_generation_ok, of 2 nat 0] show ?thesis
    by (fastforce simp: example_params_defs)
qed

section \<open>The protocol of the generator\<close>

text \<open>A client's successful calls, in order.\<close>

datatype api_call = CallComputeLogits | CallGenerateNextToken | CallIsDone bool

inductive api_run ::
    "('f::linorder, 'g, 'y) cxx_scheme \<Rightarrow> ('f, 't, 'st, 'z) ModelOps_scheme \<Rightarrow>
     ('f, 't, 'g, 'st) Generator \<Rightarrow> api_call list \<Rightarrow> ('f, 't, 'g, 'st) Generator \<Rightarrow> bool"
  for cx :: "('f::linorder, 'g, 'y) cxx_scheme" and M :: "('f, 't, 'st, 'z) ModelOps_scheme"
where
  start: "api_run cx M g [] g"
| compute: "api_run cx M g cs g1 \<Longrightarrow> ComputeLogits cx M g1 = Inr g2 \<Longrightarrow> api_run cx M g (cs @ [CallComputeLogits]) g2"
| generate: "api_run cx M g cs g1 \<Longrightarrow> GenerateNextToken cx g1 = Inr g2 \<Longrightarrow> api_run cx M g (cs @ [CallGenerateNextToken]) g2"
| is_done: "api_run cx M g cs g1 \<Longrightarrow> Generator_IsDone g1 = Inr b \<Longrightarrow> api_run cx M g (cs @ [CallIsDone b]) g1"

inductive_cases api_run_snocE: "api_run cx M g (cs @ [c]) g'"

definition token_calls :: "api_call list \<Rightarrow> api_call list" where
  "token_calls cs = filter (\<lambda>c. c = CallComputeLogits \<or> c = CallGenerateNextToken) cs"

definition rounds :: "nat \<Rightarrow> api_call list" where
  "rounds n = concat (replicate n [CallComputeLogits, CallGenerateNextToken])"

lemma rounds_Suc: "rounds (Suc n) = rounds n @ [CallComputeLogits, CallGenerateNextToken]"
  by (induction n) (simp_all add: rounds_def)

lemma ComputeLogits_flag: "ComputeLogits cx M g = Inr g' \<Longrightarrow> \<not> computed_logits g \<and> computed_logits g'"
  by (auto simp: ComputeLogits_def Let_def res_bind_eq_Inr split: if_splits)

lemma GenerateNextToken_flag: "GenerateNextToken cx g = Inr g' \<Longrightarrow> computed_logits g \<and> \<not> computed_logits g'"
  by (auto simp: GenerateNextToken_def res_bind_eq_Inr split: if_splits)

lemma IsDone_flag: "Generator_IsDone g = Inr b \<Longrightarrow> \<not> computed_logits g"
  by (auto simp: Generator_IsDone_def split: if_splits)



end
