(* ===== verification/SessionCalls.thy ===== *)
theory SessionCalls
  imports ModelStates Generator
begin

text \<open>
  What a decoder session is handed at every run of a decoder-only state, as a specification: the name, type,
  shape and (where the parameters determine it) contents of each input, and the name, type and shape of each
  output, as a function of the current length \<open>n\<close>. The first run is at the length of the prompt. The
  component theories show that the code keeps to it; the session's side of the contract is \<open>accepts\<close>.
\<close>

section \<open>Slots\<close>

type_synonym 'f slot = "string \<times> ONNXTensorElementDataType \<times> int list \<times> 'f scalar list option"

fun matches :: "'f slot \<Rightarrow> string \<times> 'f OrtValue \<Rightarrow> bool" where
  "matches (name, type, shape, contents) (nm, v) \<longleftrightarrow> nm = name \<and> ov_type v = type \<and> ov_shape v = shape \<and> filled v
     \<and> (case contents of None \<Rightarrow> True | Some d \<Rightarrow> ov_data v = d)"

fun matches_out :: "'f slot \<Rightarrow> string \<times> 'f OrtValue \<Rightarrow> bool" where
  "matches_out (name, type, shape, _) (nm, v) \<longleftrightarrow> nm = name \<and> ov_type v = type \<and> ov_shape v = shape \<and> value_ok v"

definition input_type :: "'f Model \<Rightarrow> string \<Rightarrow> ONNXTensorElementDataType" where
  "input_type md name = (case si_inputs (md_session_info md) name of None \<Rightarrow> ONNX_UNDEFINED | Some t \<Rightarrow> t)"

definition output_type :: "'f Model \<Rightarrow> string \<Rightarrow> ONNXTensorElementDataType" where
  "output_type md name = (case si_outputs (md_session_info md) name of None \<Rightarrow> ONNX_UNDEFINED | Some t \<Rightarrow> t)"

abbreviation seq_len :: "('f, 't) GeneratorParams \<Rightarrow> nat" where
  "seq_len p \<equiv> nat (sequence_length p)"

definition rows :: "('f, 't) GeneratorParams \<Rightarrow> nat" where
  "rows p = nbatch p * nbeams p"

text \<open>The prompt of row \<open>r\<close> of the expanded batch.\<close>

definition row_prompt :: "('f, 't) GeneratorParams \<Rightarrow> nat \<Rightarrow> int list" where
  "row_prompt p r = prompt_row p (r div nbeams p)"

section \<open>Inputs\<close>

definition ids_slots :: "'f Model \<Rightarrow> ('f, 't) GeneratorParams \<Rightarrow> nat \<Rightarrow> 'f slot list" where
  "ids_slots md p n =
     (let name = di_input_ids (dec_inputs md) in
      [(name, input_type md name, [BatchBeamSize p, if n = seq_len p then sequence_length p else 1],
        if n = seq_len p then Some (concat (map (\<lambda>r. map SInt (row_prompt p r)) [0..<rows p])) else None)])"

abbreviation has_posid :: "'f Model \<Rightarrow> bool" where
  "has_posid md \<equiv> HasInput (md_session_info md) (di_position_ids (dec_inputs md))"

abbreviation has_mask :: "'f Model \<Rightarrow> bool" where
  "has_mask md \<equiv> HasInput (md_session_info md) (di_attention_mask (dec_inputs md))"

text \<open>Position ids: those of the prompt tokens at first, then one column counting on from the number of
  tokens of the row.\<close>

definition position_slot :: "'f Model \<Rightarrow> ('f, 't) GeneratorParams \<Rightarrow> nat \<Rightarrow> 'f slot" where
  "position_slot md p n =
     (let name = di_position_ids (dec_inputs md) in
      (name, input_type md name, [BatchBeamSize p, if n = seq_len p then sequence_length p else 1],
       Some (if n = seq_len p then concat (map (\<lambda>r. position_row (pad_token_id p) (row_prompt p r)) [0..<rows p])
             else map (\<lambda>r. SInt (token_count (pad_token_id p) (row_prompt p r) + int (n - seq_len p - 1))) [0..<rows p])))"

text \<open>Attention mask: zero exactly on the pad tokens of the prompt, one on every generated token.\<close>

definition mask_slot :: "'f Model \<Rightarrow> ('f, 't) GeneratorParams \<Rightarrow> nat \<Rightarrow> 'f slot" where
  "mask_slot md p n =
     (let name = di_attention_mask (dec_inputs md) in
      (name, input_type md name, [BatchBeamSize p, int n],
       Some (concat (map (\<lambda>r. mask_row (pad_token_id p) (row_prompt p r) @ replicate (n - seq_len p) (SInt 1)) [0..<rows p]))))"

definition position_slots :: "'f Model \<Rightarrow> ('f, 't) GeneratorParams \<Rightarrow> nat \<Rightarrow> 'f slot list" where
  "position_slots md p n =
     (if has_posid md then [position_slot md p n] else []) @ (if has_mask md then [mask_slot md p n] else [])"

text \<open>The names the patterns of the configuration give to the caches.\<close>

definition cache_names :: "string list \<Rightarrow> 'f Model \<Rightarrow> string list" where
  "cache_names patterns md = (case layer_names patterns (layers md) of Inl _ \<Rightarrow> [] | Inr names \<Rightarrow> names)"

definition past_names :: "'f Model \<Rightarrow> string list" where
  "past_names md = cache_names [di_past_key_names (dec_inputs md), di_past_value_names (dec_inputs md)] md"

definition present_names :: "'f Model \<Rightarrow> string list" where
  "present_names md = cache_names [do_present_key_names (dec_outputs md), do_present_value_names (dec_outputs md)] md"

definition cache_type :: "'f Model \<Rightarrow> ONNXTensorElementDataType" where
  "cache_type md = input_type md (past_names md ! 0)"

definition cache_shape :: "'f Model \<Rightarrow> ('f, 't) GeneratorParams \<Rightarrow> nat \<Rightarrow> int list" where
  "cache_shape md p n = [BatchBeamSize p, kv_heads md, int n, kv_head_size md]"

definition past_slots :: "'f Model \<Rightarrow> ('f, 't) GeneratorParams \<Rightarrow> nat \<Rightarrow> 'f slot list" where
  "past_slots md p n =
     map (\<lambda>name. (name, cache_type md, cache_shape md p (if n = seq_len p then 0 else n - 1), None)) (past_names md)"

definition extra_slot :: "string \<times> 'f OrtValue \<Rightarrow> 'f slot" where
  "extra_slot nv = (fst nv, ov_type (snd nv), ov_shape (snd nv), Some (ov_data (snd nv)))"

definition in_slots :: "'f Model \<Rightarrow> ('f, 't) GeneratorParams \<Rightarrow> (string \<times> 'f OrtValue) list \<Rightarrow> nat \<Rightarrow> 'f slot list" where
  "in_slots md p ex n = ids_slots md p n @ position_slots md p n @ past_slots md p n @ map extra_slot ex"

section \<open>Outputs\<close>

definition logits_slots :: "'f Model \<Rightarrow> ('f, 't) GeneratorParams \<Rightarrow> nat \<Rightarrow> 'f slot list" where
  "logits_slots md p n =
     (let name = do_logits (dec_outputs md) in
      [(name, output_type md name, [BatchBeamSize p, if n = seq_len p then sequence_length p else 1, vocab_size p], None)])"

definition present_slots :: "'f Model \<Rightarrow> ('f, 't) GeneratorParams \<Rightarrow> nat \<Rightarrow> 'f slot list" where
  "present_slots md p n = map (\<lambda>name. (name, cache_type md, cache_shape md p n, None)) (present_names md)"

definition out_slots :: "'f Model \<Rightarrow> ('f, 't) GeneratorParams \<Rightarrow> nat \<Rightarrow> 'f slot list" where
  "out_slots md p n = logits_slots md p n @ present_slots md p n"

section \<open>The session's side\<close>

text \<open>A run on inputs and outputs of the expected form succeeds and fills every output with elements of its
  type.\<close>

definition accepts ::
    "'f OrtSession \<Rightarrow> 'f Model \<Rightarrow> ('f, 't) GeneratorParams \<Rightarrow> (string \<times> 'f OrtValue) list \<Rightarrow> bool" where
  "accepts session md p ex \<longleftrightarrow> (\<forall>n ins outs. seq_len p \<le> n \<longrightarrow> n < nmax_length p \<longrightarrow>
     list_all2 matches (in_slots md p ex n) ins \<longrightarrow> list_all2 matches_out (out_slots md p n) outs \<longrightarrow>
     (\<exists>ds. se_run session ins outs = Inr ds \<and> length ds = length outs
        \<and> (\<forall>k<length outs. filled ((snd (outs ! k))\<lparr>ov_data := ds ! k\<rparr>))))"

text \<open>What a configuration and the parameters must satisfy for a decoder-only model.\<close>

definition decoder_ok :: "'f Model \<Rightarrow> ('f, 't) GeneratorParams \<Rightarrow> bool" where
  "decoder_ok md p \<longleftrightarrow> params_ok p \<and> 1 \<le> num_beams (search p) \<and> 1 \<le> sequence_length p \<and> md_device_type md = CPU
     \<and> \<not> use_cuda_graph p \<and> \<not> (past_present_share_buffer (search p) \<and> num_beams (search p) = 1)
     \<and> input_type md (di_input_ids (dec_inputs md)) \<in> {ONNX_INT32, ONNX_INT64}
     \<and> (has_posid md \<longrightarrow> input_type md (di_position_ids (dec_inputs md)) \<in> {ONNX_INT32, ONNX_INT64})
     \<and> (has_mask md \<longrightarrow> input_type md (di_attention_mask (dec_inputs md)) \<in> {ONNX_INT32, ONNX_INT64})
     \<and> (has_posid md \<longrightarrow> has_mask md \<longrightarrow>
          input_type md (di_position_ids (dec_inputs md)) = input_type md (di_attention_mask (dec_inputs md)))
     \<and> output_type md (do_logits (dec_outputs md)) \<in> {ONNX_FLOAT, ONNX_FLOAT16}
     \<and> 1 \<le> layers md \<and> 0 \<le> kv_heads md \<and> 0 \<le> kv_head_size md
     \<and> length (past_names md) = 2 * layers md \<and> length (present_names md) = 2 * layers md
     \<and> cache_type md \<in> {ONNX_FLOAT, ONNX_FLOAT16}
     \<and> (\<forall>b<nbatch p. \<exists>x\<in>set (prompt_row p b). x \<noteq> pad_token_id p)
     \<and> (\<forall>id\<in>set (mo_eos_token_ids (co_model (md_config md))). 0 \<le> id \<and> id < vocab_size p)
     \<and> 0 \<le> mo_eos_token_id (co_model (md_config md)) \<and> mo_eos_token_id (co_model (md_config md)) < vocab_size p"

text \<open>The parameters of an update, as the search hands them over.\<close>

definition good_args :: "('f, 't) GeneratorParams \<Rightarrow> int list \<times> int list \<Rightarrow> bool" where
  "good_args p = (\<lambda>(toks, idx). run_args_ok p toks idx)"

definition expect_in :: "'f Model \<Rightarrow> ('f, 't) GeneratorParams \<Rightarrow> (string \<times> 'f OrtValue) list \<Rightarrow> nat \<Rightarrow> nat \<Rightarrow> string \<times> 'f OrtValue \<Rightarrow> bool" where
  "expect_in md p ex n i nv \<longleftrightarrow> i < length (in_slots md p ex n) \<and> matches (in_slots md p ex n ! i) nv"

definition expect_out :: "'f Model \<Rightarrow> ('f, 't) GeneratorParams \<Rightarrow> nat \<Rightarrow> nat \<Rightarrow> string \<times> 'f OrtValue \<Rightarrow> bool" where
  "expect_out md p n i nv \<longleftrightarrow> i < length (out_slots md p n) \<and> matches_out (out_slots md p n ! i) nv"

lemma GetInputDataType_type:
  "input_type md name \<noteq> ONNX_UNDEFINED \<Longrightarrow> GetInputDataType (md_session_info md) name = Inr (input_type md name)"
  by (auto simp: input_type_def GetInputDataType_def split: option.splits)

lemma GetOutputDataType_type:
  "output_type md name \<noteq> ONNX_UNDEFINED \<Longrightarrow> GetOutputDataType (md_session_info md) name = Inr (output_type md name)"
  by (auto simp: output_type_def GetOutputDataType_def split: option.splits)

lemma length_in_slots_base:
  "length (ids_slots md p n) = 1" "length (position_slots md p n) = (if has_posid md then 1 else 0) + (if has_mask md then 1 else 0)"
  "length (past_slots md p n) = length (past_names md)"
  by (simp_all add: ids_slots_def position_slots_def past_slots_def Let_def)

lemma length_row_prompt:
  assumes "params_ok p" and "r < rows p"
  shows "length (row_prompt p r) = seq_len p"
proof -
  have "r div nbeams p < nbatch p" using assms(2) by (simp add: rows_def less_mult_imp_div_less)
  from row_bound0 [OF this, of "seq_len p"]
  have "r div nbeams p * seq_len p + seq_len p \<le> length (input_ids p)"
    using assms(1) unfolding params_ok_def by (metis mult.commute)
  then show ?thesis unfolding row_prompt_def prompt_row_def by (rule length_slice)
qed

lemma rows_BatchBeamSize:
  assumes "decoder_ok md p"
  shows "BatchBeamSize p = int (rows p)" "batch_size p * num_beams (search p) = int (rows p)" "0 < rows p"
proof -
  have b: "1 \<le> batch_size p" "1 \<le> num_beams (search p)" using assms unfolding decoder_ok_def params_ok_def by blast+
  then show "BatchBeamSize p = int (rows p)" by (simp add: BatchBeamSize_def rows_def mult.commute)
  then show "batch_size p * num_beams (search p) = int (rows p)" by (simp add: BatchBeamSize_def mult.commute)
  show "0 < rows p" using b by (simp add: rows_def)
qed

section \<open>Steps on memory and slots\<close>

lemma GetElementCount_Nil [simp]: "GetElementCount [] = 1"
  by (simp add: GetElementCount_def)

lemma set_input_ok: "i < length (st_inputs st) \<Longrightarrow> set_input i q st = Inr (st\<lparr>st_inputs := (st_inputs st)[i := q]\<rparr>)"
  by (simp add: set_input_def)

lemma set_output_ok: "i < length (st_outputs st) \<Longrightarrow> set_output i q st = Inr (st\<lparr>st_outputs := (st_outputs st)[i := q]\<rparr>)"
  by (simp add: set_output_def)

lemma deref_ok: "ovs m a = Some v \<Longrightarrow> deref m a = Inr v"
  by (simp add: deref_def)

lemma set_data_ok: "ovs m a = Some v \<Longrightarrow> set_data a d m = Inr (m\<lparr>ovs := (ovs m)(a \<mapsto> v\<lparr>ov_data := d\<rparr>)\<rparr>)"
  by (simp add: set_data_def deref_def)

lemma mem_ok_bound: "mem_ok m \<Longrightarrow> ovs m a = Some v \<Longrightarrow> a < next_addr m"
  by (metis mem_ok_def not_le option.distinct(1))

lemma blit_all: "length ys = length xs \<Longrightarrow> blit xs 0 ys = ys"
  by (simp add: blit_def)

lemmas mem_steps = set_input_ok set_output_ok deref_ok set_data_ok CreateTensor_ok

section \<open>Constructing tensors\<close>

text \<open>A step that only allocates.\<close>

definition mem_grows :: "'f mem \<Rightarrow> 'f mem \<Rightarrow> bool" where
  "mem_grows m m' \<longleftrightarrow> mem_ok m' \<and> next_addr m \<le> next_addr m' \<and> (\<forall>a<next_addr m. ovs m' a = ovs m a)"

lemma mem_grows_trans: "mem_grows m m' \<Longrightarrow> mem_grows m' m'' \<Longrightarrow> mem_grows m m''"
  by (auto simp: mem_grows_def)

lemma mem_grows_refl: "mem_ok m \<Longrightarrow> mem_grows m m"
  by (simp add: mem_grows_def)

lemma mem_grows_alloc:
  "mem_ok m \<Longrightarrow> mem_grows m (m\<lparr>next_addr := Suc (next_addr m), ovs := (ovs m)(next_addr m \<mapsto> v)\<rparr>)"
  by (auto simp: mem_grows_def mem_ok_def)

text \<open>Writing or freeing a tensor made since \<open>m\<close>.\<close>

lemma mem_grows_write:
  "mem_grows m m' \<Longrightarrow> next_addr m \<le> a \<Longrightarrow> a < next_addr m' \<Longrightarrow> mem_grows m (m'\<lparr>ovs := (ovs m')(a := x)\<rparr>)"
  by (auto simp: mem_grows_def mem_ok_def)

lemma blocks_id:
  assumes "length src = n * w"
  shows "blocks src w (\<lambda>r. r) n = src"
proof -
  have "blocks src w (\<lambda>r. r) k = take (k * w) src" for k
    by (induction k) (simp_all add: blocks_Suc take_add [symmetric] add.commute)
  then show ?thesis using assms by simp
qed

lemma expand_member_ok:
  assumes v: "ovs m a = Some v" and shape: "ov_shape v = batch_size p # ds" and ds: "\<And>d. d \<in> set ds \<Longrightarrow> 0 \<le> d"
    and data: "value_ok v" and type: "ov_type v \<in> {ONNX_INT32, ONNX_INT64}" and ok: "decoder_ok md p"
    and m0: "mem_grows m0 m" and a: "next_addr m0 \<le> a"
  shows "\<exists>q m'. expand_member md (num_beams (search p)) a m = Inr (q, m') \<and> mem_grows m0 m' \<and> next_addr m0 \<le> q
     \<and> q < next_addr m' \<and> (q = a \<or> next_addr m \<le> q) \<and> (\<forall>b. b \<noteq> a \<longrightarrow> b < next_addr m \<longrightarrow> ovs m' b = ovs m b) \<and> next_addr m \<le> next_addr m'
     \<and> ovs m' q = Some \<lparr>ov_type = ov_type v, ov_shape = int (rows p) # ds,
          ov_data = blocks (ov_data v) (GetElementCount ds) (\<lambda>r. r div nbeams p) (rows p)\<rparr>"
proof -
  have pos: "1 \<le> batch_size p" "1 \<le> num_beams (search p)" and dev: "md_device_type md = CPU"
    using ok by (auto simp: decoder_ok_def params_ok_def)
  have an: "a < next_addr m" by (rule mem_ok_bound [OF _ v]) (use m0 in \<open>simp add: mem_grows_def\<close>)
  have len: "length (ov_data v) = nbatch p * GetElementCount ds" using data by (simp add: value_ok_def shape)
  show ?thesis
  proof (cases "num_beams (search p) = 1")
    case True
    then have r: "rows p = nbatch p" "int (rows p) = batch_size p" using pos by (simp_all add: rows_def)
    have "blocks (ov_data v) (GetElementCount ds) (\<lambda>r. r div nbeams p) (rows p) = ov_data v"
      using blocks_id [OF len] True by (simp add: r)
    then have "ovs m a = Some \<lparr>ov_type = ov_type v, ov_shape = int (rows p) # ds,
          ov_data = blocks (ov_data v) (GetElementCount ds) (\<lambda>r. r div nbeams p) (rows p)\<rparr>"
      using v shape r by simp
    then show ?thesis using True dev m0 a an by (simp add: expand_member_def ExpandInputs_def)
  next
    case False
    obtain sz where sz: "SizeOf (ov_type v) = Inr sz" using type by auto
    let ?e = "\<lparr>ov_type = ov_type v, ov_shape = batch_size p * num_beams (search p) # ds,
       ov_data = blocks (ov_data v) (GetElementCount ds) (\<lambda>r. r div nbeams p) (nbatch p * nbeams p)\<rparr>"
    have "ExpandInputs CPU a (num_beams (search p)) m
        = Inr (next_addr m, m\<lparr>next_addr := Suc (next_addr m), ovs := (ovs m)(next_addr m \<mapsto> ?e)\<rparr>)"
      using ExpandInputs_ok [OF v shape pos ds _ sz False, of CPU] data by (simp add: value_ok_def)
    then have "expand_member md (num_beams (search p)) a m = Inr (next_addr m,
        (m\<lparr>next_addr := Suc (next_addr m), ovs := (ovs m)(next_addr m \<mapsto> ?e)\<rparr>)\<lparr>ovs := ((ovs m)(next_addr m \<mapsto> ?e))(a := None)\<rparr>)"
      using an by (simp add: expand_member_def dev free_def)
    moreover have "mem_grows m0 (m\<lparr>next_addr := Suc (next_addr m), ovs := (ovs m)(next_addr m \<mapsto> ?e)\<rparr>)"
      by (rule mem_grows_trans [OF m0 mem_grows_alloc]) (use m0 in \<open>simp add: mem_grows_def\<close>)
    from mem_grows_write [OF this a, of None]
    have "mem_grows m0 ((m\<lparr>next_addr := Suc (next_addr m), ovs := (ovs m)(next_addr m \<mapsto> ?e)\<rparr>)\<lparr>ovs := ((ovs m)(next_addr m \<mapsto> ?e))(a := None)\<rparr>)"
      using an by simp
    moreover have "next_addr m0 \<le> next_addr m" using m0 by (simp add: mem_grows_def)
    moreover have "batch_size p * num_beams (search p) = int (rows p)" by (rule rows_BatchBeamSize(2) [OF ok])
    ultimately show ?thesis using an by (simp add: rows_def)
  qed
qed

end
