(* ===== verification/InputLaws.thy ===== *)
theory InputLaws
  imports SessionCalls
begin

text \<open>
  \<open>InputIDs\<close>, \<open>ExtraInputs\<close> and \<open>PositionInputs\<close> follow the contract of a component: constructed and
  registered they are ready for the run on the prompt, and every update makes them ready for the next run.
\<close>

section \<open>Input ids\<close>

abbreviation ids_name :: "'f Model \<Rightarrow> string" where
  "ids_name md \<equiv> di_input_ids (dec_inputs md)"

definition ids_inv :: "'f Model \<Rightarrow> ('f, addr) GeneratorParams \<Rightarrow> nat \<Rightarrow> InputIDs \<Rightarrow> 'f io \<Rightarrow> bool" where
  "ids_inv md p n ii = (\<lambda>(st, m).
     decoder_ok md p \<and> seq_len p \<le> n \<and> ii_index ii = 0 \<and> ii_name ii = ids_name md
     \<and> ii_type ii = input_type md (ids_name md)
     \<and> ii_shape ii = [BatchBeamSize p, if n = seq_len p then sequence_length p else 1]
     \<and> ii_value ii < next_addr m \<and> st_inputs st ! 0 = Some (ii_value ii) \<and> st_input_names st ! 0 = ids_name md
     \<and> (\<exists>v. ovs m (ii_value ii) = Some v \<and> matches (ids_slots md p n ! 0) (ids_name md, v)))"

definition ids_upd :: "int list \<times> int list \<Rightarrow> nat \<Rightarrow> InputIDs \<Rightarrow> 'f io \<Rightarrow> (InputIDs \<times> 'f io) res" where
  "ids_upd g current_length ii io = InputIDs_Update (fst g) ii io"

lemma has_type_int: "t \<in> {ONNX_INT32, ONNX_INT64} \<Longrightarrow> has_type t (SInt i)"
  by auto

lemma filled_ints:
  "ov_type v \<in> {ONNX_INT32, ONNX_INT64} \<Longrightarrow> ov_data v = map SInt xs \<Longrightarrow> length xs = GetElementCount (ov_shape v) \<Longrightarrow> filled v"
  by (auto simp: filled_def value_ok_def)

text \<open>The tensor of a single column, after it has been made once.\<close>

lemma ids_write:
  assumes ok: "decoder_ok md p" and n: "seq_len p < n" and idx: "ii_index ii = 0" "ii_name ii = ids_name md"
      "ii_type ii = input_type md (ids_name md)" "ii_shape ii = [BatchBeamSize p, 1]"
    and v: "ovs m (ii_value ii) = Some v" "ov_type v = ii_type ii" "ov_shape v = ii_shape ii" "length (ov_data v) = rows p"
    and st: "st_inputs st ! 0 = Some (ii_value ii)" "st_input_names st ! 0 = ids_name md" and m: "mem_ok m"
    and toks: "length toks = rows p" and no: "InputIDs_resize ii io = Inr (ii, st, m)"
  shows "\<exists>m'. InputIDs_Update toks ii io = Inr (ii, st, m') \<and> ids_inv md p n ii (st, m')
     \<and> mem_ok m' \<and> next_addr m' = next_addr m \<and> (\<forall>a. a \<noteq> ii_value ii \<longrightarrow> ovs m' a = ovs m a)"
proof -
  let ?v = "v\<lparr>ov_data := map SInt toks\<rparr>"
  let ?m = "m\<lparr>ovs := (ovs m)(ii_value ii \<mapsto> ?v)\<rparr>"
  have t: "input_type md (ids_name md) \<in> {ONNX_INT32, ONNX_INT64}" using ok by (simp add: decoder_ok_def)
  note B = rows_BatchBeamSize [OF ok]
  have "filled ?v" by (rule filled_ints [where xs = toks]) (use v t idx toks B in auto)
  then have "matches (ids_slots md p n ! 0) (ids_name md, ?v)" using n v idx by (simp add: ids_slots_def Let_def)
  moreover have "ii_value ii < next_addr m" by (rule mem_ok_bound [OF m v(1)])
  ultimately have "ids_inv md p n ii (st, ?m)" using ok n idx st by (simp add: ids_inv_def)
  moreover have "InputIDs_Update toks ii io = Inr (ii, st, ?m)"
    using idx v toks B by (simp add: InputIDs_Update_def no deref_ok set_data_ok blit_all)
  moreover have "mem_ok ?m" using m \<open>ii_value ii < next_addr m\<close> by (auto simp: mem_ok_def)
  ultimately show ?thesis by auto
qed

lemma ids_update:
  assumes inv: "ids_inv md p n ii (st, m)" and m: "mem_ok m" and g: "good_args p g" and i: "0 < length (st_inputs st)"
  shows "\<exists>ii' y. ids_upd g (Suc n) ii (st, m) = Inr (ii', y) \<and> ids_inv md p (Suc n) ii' y
     \<and> {ii_value ii'} \<subseteq> {ii_value ii} \<union> {next_addr m..} \<and> touches {ii_value ii} {0} {} (st, m) y"
proof -
  have ok: "decoder_ok md p" and idx: "ii_index ii = 0" "ii_name ii = ids_name md" "ii_type ii = input_type md (ids_name md)"
    "ii_shape ii = [BatchBeamSize p, if n = seq_len p then sequence_length p else 1]" and n: "seq_len p < Suc n"
    and val: "ii_value ii < next_addr m" "st_inputs st ! 0 = Some (ii_value ii)" "st_input_names st ! 0 = ids_name md"
    using inv by (auto simp: ids_inv_def)
  obtain v where v: "ovs m (ii_value ii) = Some v" "matches (ids_slots md p n ! 0) (ids_name md, v)"
    using inv by (auto simp: ids_inv_def)
  note B = rows_BatchBeamSize [OF ok]
  have toks: "length (fst g) = rows p" using g B by (auto simp: good_args_def run_args_ok_def)
  show ?thesis
  proof (cases "n = seq_len p \<and> sequence_length p \<noteq> 1")
    case True
    let ?new = "\<lparr>ov_type = ii_type ii, ov_shape = [BatchBeamSize p, 1], ov_data = replicate (rows p) Uninit\<rparr>"
    let ?m = "m\<lparr>next_addr := Suc (next_addr m), ovs := ((ovs m)(next_addr m \<mapsto> ?new))(ii_value ii := None)\<rparr>"
    let ?ii = "ii\<lparr>ii_shape := [BatchBeamSize p, 1], ii_value := next_addr m\<rparr>"
    let ?st = "st\<lparr>st_inputs := (st_inputs st)[0 := Some (next_addr m)]\<rparr>"
    have CT: "CreateTensor [BatchBeamSize p, 1] (ii_type ii) m
        = Inr (next_addr m, m\<lparr>next_addr := Suc (next_addr m), ovs := (ovs m)(next_addr m \<mapsto> ?new)\<rparr>)"
      using B by (subst CreateTensor_ok) auto
    have r: "InputIDs_resize ii (st, m) = Inr (?ii, ?st, ?m)"
      using True idx i CT by (simp add: InputIDs_resize_def set_input_ok free_def Let_def)
    have r': "InputIDs_resize ?ii (?st, ?m) = Inr (?ii, ?st, ?m)" by (simp add: InputIDs_resize_def)
    have m': "mem_ok ?m" using m by (simp add: mem_ok_def)
    obtain m2 where m2: "InputIDs_Update (fst g) ?ii (?st, ?m) = Inr (?ii, ?st, m2)" "ids_inv md p (Suc n) ?ii (?st, m2)"
      "mem_ok m2" "next_addr m2 = next_addr ?m" "\<forall>a. a \<noteq> ii_value ?ii \<longrightarrow> ovs m2 a = ovs ?m a"
      using ids_write [OF ok n _ _ _ _ _ _ _ _ _ _ m' toks r', of ?new] idx val v(1) i by auto
    have "InputIDs_Update (fst g) ii (st, m) = InputIDs_Update (fst g) ?ii (?st, ?m)"
      by (simp only: InputIDs_Update_def r r')
    then show ?thesis using m2 by (auto simp: ids_upd_def touches_def)
  next
    case False
    then have sh: "ii_shape ii = [BatchBeamSize p, 1]" using idx(4) by auto
    then have r: "InputIDs_resize ii (st, m) = Inr (ii, st, m)" by (simp add: InputIDs_resize_def)
    have tv: "ov_type v = ii_type ii" "ov_shape v = ii_shape ii" "length (ov_data v) = rows p"
      using v(2) sh idx B False by (auto simp: ids_slots_def Let_def filled_def value_ok_def)
    obtain m2 where "InputIDs_Update (fst g) ii (st, m) = Inr (ii, st, m2)" "ids_inv md p (Suc n) ii (st, m2)"
      "mem_ok m2" "next_addr m2 = next_addr m" "\<forall>a. a \<noteq> ii_value ii \<longrightarrow> ovs m2 a = ovs m a"
      using ids_write [OF ok n idx(1-3) sh v(1) tv val(2,3) m toks r] by blast
    then show ?thesis by (auto simp: ids_upd_def touches_def)
  qed
qed

text \<open>The constructor: a tensor with the prompt of every row.\<close>

lemma concat_prompt_rows:
  "blocks (map SInt (input_ids p)) (seq_len p) (\<lambda>r. r div nbeams p) (rows p)
   = concat (map (\<lambda>r. map SInt (row_prompt p r)) [0..<rows p])"
  by (simp add: blocks_def row_prompt_def prompt_row_def take_map drop_map)

lemma ids_new:
  assumes ok: "decoder_ok md p" and m: "mem_ok m"
  shows "\<exists>ii m' v. InputIDs_new md p m = Inr (ii, m') \<and> mem_grows m m' \<and> ii_value ii \<in> {next_addr m..<next_addr m'}
     \<and> ii_name ii = ids_name md \<and> ii_type ii = input_type md (ids_name md)
     \<and> ii_shape ii = [BatchBeamSize p, sequence_length p]
     \<and> ovs m' (ii_value ii) = Some v \<and> matches (ids_slots md p (seq_len p) ! 0) (ids_name md, v)"
proof -
  let ?t = "input_type md (ids_name md)" and ?sh = "[batch_size p, sequence_length p]"
  let ?ids = "map SInt (input_ids p)"
  let ?v = "\<lparr>ov_type = ?t, ov_shape = ?sh, ov_data = ?ids\<rparr>"
  let ?m = "m\<lparr>next_addr := Suc (next_addr m), ovs := (ovs m)(next_addr m \<mapsto> ?v)\<rparr>"
  have t: "?t \<in> {ONNX_INT32, ONNX_INT64}" and b: "0 \<le> batch_size p" "0 \<le> sequence_length p"
    and len: "length (input_ids p) = nbatch p * seq_len p" and po: "params_ok p"
    using ok by (auto simp: decoder_ok_def params_ok_def)
  have gt: "GetInputDataType (md_session_info md) (ids_name md) = Inr ?t" by (rule GetInputDataType_type) (use t in auto)
  have vo: "value_ok ?v" using len by (simp add: value_ok_def)
  have CT: "CreateTensor ?sh t m = Inr (next_addr m, m\<lparr>next_addr := Suc (next_addr m),
       ovs := (ovs m)(next_addr m \<mapsto> \<lparr>ov_type = t, ov_shape = ?sh, ov_data = replicate (nbatch p * seq_len p) Uninit\<rparr>)\<rparr>)" for t
    using b by (subst CreateTensor_ok) auto
  have first: "(if ?t = ONNX_INT64 then
           res_bind (CreateTensor ?sh ?t m) (\<lambda>(q, m1).
           res_bind (deref m1 q) (\<lambda>v.
           res_bind (copy_into (ov_data v) 0 ?ids) (\<lambda>d.
           res_bind (set_data q d m1) (\<lambda>m2. Inr (q, m2)))))
         else if ?t \<noteq> ONNX_INT32 then Inl (RuntimeError ''InputIDs must be int64 or int32'')
         else
           res_bind (subspan ?ids 0 (nat (batch_size p) * nat (sequence_length p))) (\<lambda>d.
           Inr (alloc \<lparr>ov_type = ?t, ov_shape = ?sh, ov_data = d\<rparr> m))) = Inr (next_addr m, ?m)"
    using t len by (auto simp: CT deref_def set_data_def blit_all alloc_def)
  have g: "mem_grows m ?m" using mem_grows_alloc [OF m] .
  obtain q m' where e: "expand_member md (num_beams (search p)) (next_addr m) ?m = Inr (q, m')" "mem_grows m m'"
    "next_addr m \<le> q" "q < next_addr m'"
    "ovs m' q = Some \<lparr>ov_type = ?t, ov_shape = int (rows p) # [sequence_length p],
          ov_data = blocks ?ids (seq_len p) (\<lambda>r. r div nbeams p) (rows p)\<rparr>"
    using expand_member_ok [of ?m "next_addr m" ?v p "[sequence_length p]" md m] ok g t vo b by auto
  let ?e = "\<lparr>ov_type = ?t, ov_shape = [int (rows p), sequence_length p],
          ov_data = concat (map (\<lambda>r. map SInt (row_prompt p r)) [0..<rows p])\<rparr>"
  have "length (concat (map (\<lambda>r. map SInt (row_prompt p r)) [0..<rows p])) = rows p * seq_len p"
    using length_concat_rows [of "[0..<rows p]" "\<lambda>r. map SInt (row_prompt p r)" "seq_len p"] length_row_prompt [OF po] by simp
  moreover have "\<forall>x\<in>set (concat (map (\<lambda>r. map SInt (row_prompt p r)) [0..<rows p])). has_type ?t x" using t by auto
  ultimately have "filled ?e" by (simp add: filled_def value_ok_def)
  then have "matches (ids_slots md p (seq_len p) ! 0) (ids_name md, ?e)"
    using rows_BatchBeamSize [OF ok] by (simp add: ids_slots_def Let_def)
  then show ?thesis
    using e rows_BatchBeamSize [OF ok] unfolding InputIDs_new_def Let_def gt res_bind_Inr first
    by (simp add: concat_prompt_rows)
qed

interpretation ids: io_component "ids_inv md p" "ids_inv md p" "ids_inv md p" "\<lambda>ii. {ii_value ii}" "\<lambda>ii. {0}" "\<lambda>ii. {}"
  ids_upd "good_args p" "expect_in md p ex" "expect_out md p"
  for md p ex
proof
  fix n ii and x y :: "'a io"
  show f: "ids_inv md p n ii x \<Longrightarrow> agrees {ii_value ii} {0} {} x y \<Longrightarrow> ids_inv md p n ii y"
    by (cases x; cases y) (auto simp: ids_inv_def agrees_def)
  show "ids_inv md p n ii x \<Longrightarrow> {ii_value ii} \<subseteq> {..<next_addr (snd x)}" by (cases x) (auto simp: ids_inv_def)
  assume inv: "ids_inv md p n ii x" and w: "session_wrote x y"
    and o: "\<And>a. a \<in> {ii_value ii} \<Longrightarrow> Some a \<in> set (st_outputs (fst x)) \<Longrightarrow> \<exists>i\<in>{}. st_outputs (fst x) ! i = Some a"
  then have "agrees {ii_value ii} {0} {} x y" by (cases x; cases y) (auto simp: session_wrote_def agrees_def)
  then show "ids_inv md p n ii y" using f inv by blast
next
  fix n ii st and m :: "'a mem" and i :: nat
  show "ids_inv md p n ii (st, m) \<Longrightarrow> i \<in> {0} \<Longrightarrow>
      \<exists>a v. st_inputs st ! i = Some a \<and> ovs m a = Some v \<and> expect_in md p ex n i (st_input_names st ! i, v)"
    by (auto simp: ids_inv_def expect_in_def in_slots_def nth_append length_in_slots_base)
next
  fix n ii and x :: "'a io" and g
  assume "ids_inv md p n ii x" "mem_ok (snd x)" "good_args p g" "\<And>i. i \<in> {0} \<Longrightarrow> i < length (st_inputs (fst x))"
  then show "\<exists>s' y. ids_upd g (Suc n) ii x = Inr (s', y) \<and> ids_inv md p (Suc n) s' y
        \<and> {ii_value s'} \<subseteq> {ii_value ii} \<union> {next_addr (snd x)..} \<and> {0::nat} = {0} \<and> {} = ({}::nat set)
        \<and> touches {ii_value ii} {0} {} x y"
    using ids_update [of md p n ii "fst x" "snd x" g] by simp
qed simp_all

section \<open>Extra inputs\<close>

definition extra_base :: "'f Model \<Rightarrow> nat" where
  "extra_base md = 1 + ((if has_posid md then 1 else 0) + (if has_mask md then 1 else 0)) + length (past_names md)"

definition extra_inv :: "'f Model \<Rightarrow> (string \<times> 'f OrtValue) list \<Rightarrow> nat \<Rightarrow> ExtraInputs \<Rightarrow> 'f io \<Rightarrow> bool" where
  "extra_inv md ex n ei = (\<lambda>(st, m). length (ei_inputs ei) = length ex
     \<and> (\<forall>k<length ex. st_inputs st ! (extra_base md + k) = Some (ei_inputs ei ! k)
          \<and> st_input_names st ! (extra_base md + k) = fst (ex ! k)
          \<and> ei_inputs ei ! k < next_addr m \<and> ovs m (ei_inputs ei ! k) = Some (snd (ex ! k)) \<and> filled (snd (ex ! k))))"

definition no_upd :: "'x \<Rightarrow> nat \<Rightarrow> 's \<Rightarrow> 'f io \<Rightarrow> ('s \<times> 'f io) res" where
  "no_upd g current_length s io = Inr (s, io)"

abbreviation extra_islots :: "'f Model \<Rightarrow> (string \<times> 'f OrtValue) list \<Rightarrow> ExtraInputs \<Rightarrow> nat set" where
  "extra_islots md ex ei \<equiv> {extra_base md..<extra_base md + length ex}"

interpretation extra: io_component "extra_inv md ex" "extra_inv md ex" "extra_inv md ex" "\<lambda>ei. set (ei_inputs ei)"
  "extra_islots md ex" "\<lambda>ei. {}" no_upd "good_args p" "expect_in md p ex" "expect_out md p"
  for md p ex
proof
  fix n ei and x y :: "'a io"
  show f: "extra_inv md ex n ei x \<Longrightarrow> agrees (set (ei_inputs ei)) (extra_islots md ex ei) {} x y \<Longrightarrow> extra_inv md ex n ei y"
    by (cases x; cases y) (auto simp: extra_inv_def agrees_def)
  show "extra_inv md ex n ei x \<Longrightarrow> set (ei_inputs ei) \<subseteq> {..<next_addr (snd x)}"
    by (cases x) (auto simp: extra_inv_def in_set_conv_nth)
  assume inv: "extra_inv md ex n ei x" and w: "session_wrote x y"
    and "\<And>a. a \<in> set (ei_inputs ei) \<Longrightarrow> Some a \<in> set (st_outputs (fst x)) \<Longrightarrow> \<exists>i\<in>{}. st_outputs (fst x) ! i = Some a"
  then have "agrees (set (ei_inputs ei)) (extra_islots md ex ei) {} x y"
    by (cases x; cases y) (auto simp: session_wrote_def agrees_def)
  then show "extra_inv md ex n ei y" using f inv by blast
next
  fix n ei st and m :: "'a mem" and i
  assume inv: "extra_inv md ex n ei (st, m)" and "i \<in> extra_islots md ex ei"
  then obtain k where k: "i = extra_base md + k" "k < length ex" by (metis atLeastLessThan_iff le_Suc_ex add_less_cancel_left)
  have base: "in_slots md p ex n ! (extra_base md + k) = extra_slot (ex ! k)" "extra_base md + k < length (in_slots md p ex n)"
    using k by (simp_all add: in_slots_def nth_append extra_base_def length_in_slots_base)
  show "\<exists>a v. st_inputs st ! i = Some a \<and> ovs m a = Some v \<and> expect_in md p ex n i (st_input_names st ! i, v)"
    using inv k base by (auto simp: extra_inv_def expect_in_def extra_slot_def)
next
  fix n ei and x :: "'a io" and g
  assume "extra_inv md ex n ei x" "mem_ok (snd x)"
  then show "\<exists>s' y. no_upd g (Suc n) ei x = Inr (s', y) \<and> extra_inv md ex (Suc n) s' y
        \<and> set (ei_inputs s') \<subseteq> set (ei_inputs ei) \<union> {next_addr (snd x)..} \<and> extra_islots md ex s' = extra_islots md ex ei
        \<and> {} = ({}::nat set) \<and> touches (set (ei_inputs ei)) (extra_islots md ex ei) {} x y"
    by (auto simp: no_upd_def extra_inv_def touches_refl)
qed auto

section \<open>Position ids and attention mask\<close>

abbreviation posid_name :: "'f Model \<Rightarrow> string" where
  "posid_name md \<equiv> di_position_ids (dec_inputs md)"

abbreviation mask_name :: "'f Model \<Rightarrow> string" where
  "mask_name md \<equiv> di_attention_mask (dec_inputs md)"

text \<open>The column of positions that follows the prompt, prepared by the constructor.\<close>

definition next_positions :: "'f Model \<Rightarrow> ('f, 't) GeneratorParams \<Rightarrow> 'f OrtValue" where
  "next_positions md p = \<lparr>ov_type = input_type md (posid_name md), ov_shape = [int (rows p), 1],
     ov_data = map (\<lambda>r. SInt (token_count (pad_token_id p) (row_prompt p r))) [0..<rows p]\<rparr>"

definition posid_inv :: "'f Model \<Rightarrow> ('f, addr) GeneratorParams \<Rightarrow> nat \<Rightarrow> PositionInputs \<Rightarrow> 'f io \<Rightarrow> bool" where
  "posid_inv md p n pn = (\<lambda>(st, m). has_posid md \<longrightarrow>
     pi_posid_index pn = 1 \<and> pi_posids_shape pn = [int (rows p), if n = seq_len p then sequence_length p else 1]
     \<and> pi_first_posid_update pn = (n = seq_len p) \<and> pi_posids pn < next_addr m
     \<and> st_inputs st ! 1 = Some (pi_posids pn) \<and> st_input_names st ! 1 = posid_name md
     \<and> (\<exists>v. ovs m (pi_posids pn) = Some v \<and> matches (position_slot md p n) (posid_name md, v))
     \<and> (if n = seq_len p
        then \<exists>q. pi_posids_next pn = Some q \<and> q \<noteq> pi_posids pn \<and> q < next_addr m \<and> ovs m q = Some (next_positions md p)
        else pi_posids_next pn = None))"

definition posid_fp :: "PositionInputs \<Rightarrow> addr set" where
  "posid_fp pn = (if pi_has_posid pn then insert (pi_posids pn) (set_option (pi_posids_next pn)) else {})"

lemma filled_positions:
  "input_type md (posid_name md) \<in> {ONNX_INT32, ONNX_INT64} \<Longrightarrow> length f = rows p \<Longrightarrow>
   filled \<lparr>ov_type = input_type md (posid_name md), ov_shape = [int (rows p), 1], ov_data = map SInt f\<rparr>"
  by (rule filled_ints [where xs = f]) auto

lemma posid_update:
  assumes ok: "decoder_ok md p" and n: "seq_len p \<le> n" and has: "has_posid md" "pi_has_posid pn"
    and inv: "posid_inv md p n pn (st, m)" and m: "mem_ok m" and i: "1 < length (st_inputs st)"
  shows "\<exists>pn' y. UpdatePositionIDs md pn (st, m) = Inr (pn', y) \<and> posid_inv md p (Suc n) pn' y
     \<and> posid_fp pn' \<subseteq> posid_fp pn \<and> touches (posid_fp pn) {1} {} (st, m) y
     \<and> pn' = pn\<lparr>pi_posids_shape := pi_posids_shape pn', pi_posids := pi_posids pn', pi_posids_next := pi_posids_next pn',
          pi_first_posid_update := pi_first_posid_update pn'\<rparr>"
proof -
  have t: "input_type md (posid_name md) \<in> {ONNX_INT32, ONNX_INT64}" and dev: "md_device_type md = CPU"
    using ok has by (auto simp: decoder_ok_def)
  note B = rows_BatchBeamSize [OF ok]
  have pos: "pi_posid_index pn = 1" "pi_first_posid_update pn = (n = seq_len p)" "pi_posids pn < next_addr m"
      "pi_posids_shape pn = [int (rows p), if n = seq_len p then sequence_length p else 1]"
      "st_inputs st ! 1 = Some (pi_posids pn)" "st_input_names st ! 1 = posid_name md"
    using inv has by (auto simp: posid_inv_def)
  show ?thesis
  proof (cases "n = seq_len p")
    case True
    then obtain q where q: "pi_posids_next pn = Some q" "q \<noteq> pi_posids pn" "q < next_addr m" "ovs m q = Some (next_positions md p)"
      using inv has by (auto simp: posid_inv_def)
    let ?pn = "pn\<lparr>pi_posids_shape := (pi_posids_shape pn)[1 := 1], pi_posids := q, pi_posids_next := None,
                 pi_first_posid_update := False\<rparr>"
    let ?y = "(st\<lparr>st_inputs := (st_inputs st)[1 := Some q]\<rparr>, free (pi_posids pn) m)"
    have "filled (next_positions md p)"
      using filled_positions [OF t, of "map (\<lambda>r. token_count (pad_token_id p) (row_prompt p r)) [0..<rows p]" p]
      by (simp add: next_positions_def comp_def)
    then have "matches (position_slot md p (Suc n)) (posid_name md, next_positions md p)"
      using True B by (simp add: position_slot_def next_positions_def Let_def)
    then have "posid_inv md p (Suc n) ?pn ?y" using True q pos has i by (simp add: posid_inv_def free_def)
    moreover have "UpdatePositionIDs md pn (st, m) = Inr (?pn, ?y)"
      using True pos q i by (simp add: UpdatePositionIDs_def set_input_ok)
    moreover have "touches (posid_fp pn) {1} {} (st, m) ?y"
      using m has by (auto simp: touches_def posid_fp_def free_def mem_ok_def)
    ultimately show ?thesis using has q by (auto simp: posid_fp_def)
  next
    case False
    obtain v where v: "ovs m (pi_posids pn) = Some v" "matches (position_slot md p n) (posid_name md, v)"
      using inv has by (auto simp: posid_inv_def)
    let ?ks = "map (\<lambda>r. token_count (pad_token_id p) (row_prompt p r) + int (n - seq_len p - 1)) [0..<rows p]"
    let ?d = "map (\<lambda>r. SInt (token_count (pad_token_id p) (row_prompt p r) + int (Suc n - seq_len p - 1))) [0..<rows p]"
    have d: "ov_data v = map SInt ?ks" "ov_type v = input_type md (posid_name md)" "ov_shape v = [int (rows p), 1]"
      using v(2) False B by (auto simp: position_slot_def Let_def)
    have step: "map (\<lambda>k. SInt (k + 1)) ?ks = ?d" using n False by (auto simp: of_nat_diff)
    have u: "UpdatePositionIDsImpl (rows p) (ov_data v) = Inr ?d"
      using UpdatePositionIDsImpl_ok [of ?ks] unfolding d(1) step by simp
    let ?m = "m\<lparr>ovs := (ovs m)(pi_posids pn \<mapsto> v\<lparr>ov_data := ?d\<rparr>)\<rparr>"
    have "filled (v\<lparr>ov_data := ?d\<rparr>)"
      by (rule filled_ints [where xs = "map (\<lambda>r. token_count (pad_token_id p) (row_prompt p r) + int (Suc n - seq_len p - 1)) [0..<rows p]"])
        (use d t in auto)
    then have "matches (position_slot md p (Suc n)) (posid_name md, v\<lparr>ov_data := ?d\<rparr>)"
      using d n B by (simp add: position_slot_def Let_def)
    then have "posid_inv md p (Suc n) pn (st, ?m)" using inv False n by (auto simp: posid_inv_def)
    moreover have "UpdatePositionIDs md pn (st, m) = Inr (pn, st, ?m)"
      using False pos dev v(1) u by (simp add: UpdatePositionIDs_def deref_ok set_data_ok)
    moreover have "touches (posid_fp pn) {1} {} (st, m) (st, ?m)"
      using m has pos by (auto simp: touches_def posid_fp_def mem_ok_def)
    ultimately show ?thesis by auto
  qed
qed

definition mask_index :: "'f Model \<Rightarrow> nat" where
  "mask_index md = (if has_posid md then 2 else 1)"

definition mask_inv :: "'f Model \<Rightarrow> ('f, addr) GeneratorParams \<Rightarrow> nat \<Rightarrow> PositionInputs \<Rightarrow> 'f io \<Rightarrow> bool" where
  "mask_inv md p n pn = (\<lambda>(st, m). has_mask md \<longrightarrow>
     pi_mask_index pn = mask_index md \<and> pi_type pn = input_type md (mask_name md)
     \<and> pi_mask_shape pn = [int (rows p), int n] \<and> pi_mask pn < next_addr m
     \<and> st_inputs st ! mask_index md = Some (pi_mask pn) \<and> st_input_names st ! mask_index md = mask_name md
     \<and> (\<exists>v. ovs m (pi_mask pn) = Some v \<and> matches (mask_slot md p n) (mask_name md, v)))"

definition mask_fp :: "PositionInputs \<Rightarrow> addr set" where
  "mask_fp pn = (if pi_has_mask pn then {pi_mask pn} else {})"

abbreviation mask_data :: "('f, 't) GeneratorParams \<Rightarrow> nat \<Rightarrow> nat \<Rightarrow> 'f scalar list" where
  "mask_data p n r \<equiv> mask_row (pad_token_id p) (row_prompt p r) @ replicate (n - seq_len p) (SInt 1)"

lemma filled_mask:
  assumes "params_ok p" and "seq_len p \<le> n" and "t \<in> {ONNX_INT32, ONNX_INT64}"
  shows "filled \<lparr>ov_type = t, ov_shape = [int (rows p), int n], ov_data = concat (map (mask_data p n) [0..<rows p])\<rparr>"
proof -
  have "length (concat (map (mask_data p n) [0..<rows p])) = rows p * n"
    using length_concat_rows [of "[0..<rows p]" "mask_data p n" n] length_row_prompt [OF assms(1)] assms(2) by simp
  then show ?thesis using assms(3) by (auto simp: filled_def value_ok_def mask_row_def)
qed

lemma mask_update:
  assumes ok: "decoder_ok md p" and n: "seq_len p \<le> n" and has: "has_mask md" "pi_has_mask pn"
    and inv: "mask_inv md p n pn (st, m)" and m: "mem_ok m" and i: "mask_index md < length (st_inputs st)"
  shows "\<exists>pn' y. UpdateAttentionMask md (Suc n) pn (st, m) = Inr (pn', y) \<and> mask_inv md p (Suc n) pn' y
     \<and> mask_fp pn' \<subseteq> {next_addr m..} \<and> touches (mask_fp pn) {mask_index md} {} (st, m) y
     \<and> pn' = pn\<lparr>pi_mask_shape := pi_mask_shape pn', pi_mask := pi_mask pn'\<rparr>"
proof -
  have t: "input_type md (mask_name md) \<in> {ONNX_INT32, ONNX_INT64}" and dev: "md_device_type md = CPU" and po: "params_ok p"
    using ok has by (auto simp: decoder_ok_def)
  note B = rows_BatchBeamSize [OF ok]
  have pos: "pi_mask_index pn = mask_index md" "pi_type pn = input_type md (mask_name md)" "pi_mask pn < next_addr m"
      "pi_mask_shape pn = [int (rows p), int n]" "st_input_names st ! mask_index md = mask_name md"
    using inv has by (auto simp: mask_inv_def)
  obtain v where v: "ovs m (pi_mask pn) = Some v" "matches (mask_slot md p n) (mask_name md, v)"
    using inv has by (auto simp: mask_inv_def)
  have old: "ov_data v = concat (map (mask_data p n) [0..<rows p])" using v(2) by (simp add: mask_slot_def Let_def)
  have len: "length (mask_data p n r) = n" if "r < rows p" for r using length_row_prompt [OF po that] n by simp
  have lo: "length (ov_data v) = rows p * n" unfolding old using length_concat_rows [of "[0..<rows p]" "mask_data p n" n] len by simp
  have row: "take n (drop (r * n) (ov_data v)) = mask_data p n r" if "r < rows p" for r
  proof -
    have "\<And>x. x \<in> set (map (mask_data p n) [0..<rows p]) \<Longrightarrow> length x = n" using len by fastforce
    then have "take n (drop (r * n) (concat (map (mask_data p n) [0..<rows p]))) = map (mask_data p n) [0..<rows p] ! r"
      using that by (intro concat_row) simp_all
    then show ?thesis unfolding old using that by simp
  qed
  let ?d = "concat (map (mask_data p (Suc n)) [0..<rows p])"
  let ?blank = "replicate (rows p * Suc n) Uninit"
  have "concat (map (\<lambda>r. take n (drop (r * n) (ov_data v)) @ [SInt 1]) [0..<rows p]) = ?d"
    using n row by (intro arg_cong [where f = concat] map_cong refl) (simp add: Suc_diff_le replicate_append_same)
  then have u: "UpdateAttentionMaskImpl (rows p) (Suc n) (ov_data v) ?blank = Inr ?d"
    using UpdateAttentionMaskImpl_ok [OF lo, of ?blank] by simp
  let ?new = "\<lparr>ov_type = input_type md (mask_name md), ov_shape = [int (rows p), int (Suc n)], ov_data = ?blank\<rparr>"
  let ?w = "\<lparr>ov_type = input_type md (mask_name md), ov_shape = [int (rows p), int (Suc n)], ov_data = ?d\<rparr>"
  have CT: "CreateTensor [int (rows p), int (Suc n)] (input_type md (mask_name md)) m
      = Inr (next_addr m, m\<lparr>next_addr := Suc (next_addr m), ovs := (ovs m)(next_addr m \<mapsto> ?new)\<rparr>)"
    by (subst CreateTensor_ok) (auto simp: nat_add_distrib)
  let ?q = "next_addr m"
  let ?m = "m\<lparr>next_addr := Suc ?q, ovs := ((ovs m)(?q \<mapsto> ?w))(pi_mask pn := None)\<rparr>"
  let ?pn = "pn\<lparr>pi_mask_shape := [int (rows p), int (Suc n)], pi_mask := ?q\<rparr>"
  let ?st = "st\<lparr>st_inputs := (st_inputs st)[mask_index md := Some ?q]\<rparr>"
  have eq: "UpdateAttentionMask md (Suc n) pn (st, m) = Inr (?pn, ?st, ?m)"
    using pos dev v(1) u i CT
    by (simp add: UpdateAttentionMask_def Let_def deref_def set_data_def set_input_ok free_def fun_upd_twist del: of_nat_Suc mult_Suc_right)
  have "matches (mask_slot md p (Suc n)) (mask_name md, ?w)"
    using filled_mask [OF po _ t, of "Suc n"] n pos(2) B by (simp add: mask_slot_def Let_def)
  then have "mask_inv md p (Suc n) ?pn (?st, ?m)" using pos i by (simp add: mask_inv_def)
  moreover have "touches (mask_fp pn) {mask_index md} {} (st, m) (?st, ?m)"
    using m has by (auto simp: touches_def mask_fp_def mem_ok_def)
  ultimately show ?thesis using eq has by (auto simp: mask_fp_def)
qed

text \<open>Both parts together.\<close>

definition pos_inv :: "'f Model \<Rightarrow> ('f, addr) GeneratorParams \<Rightarrow> nat \<Rightarrow> PositionInputs \<Rightarrow> 'f io \<Rightarrow> bool" where
  "pos_inv md p n pn io \<longleftrightarrow> decoder_ok md p \<and> seq_len p \<le> n \<and> pi_has_posid pn = has_posid md \<and> pi_has_mask pn = has_mask md
     \<and> posid_fp pn \<inter> mask_fp pn = {} \<and> posid_inv md p n pn io \<and> mask_inv md p n pn io"

definition pos_fp :: "PositionInputs \<Rightarrow> addr set" where
  "pos_fp pn = posid_fp pn \<union> mask_fp pn"

definition pos_islots :: "'f Model \<Rightarrow> PositionInputs \<Rightarrow> nat set" where
  "pos_islots md pn = (if has_posid md then {1} else {}) \<union> (if has_mask md then {mask_index md} else {})"

definition pos_upd :: "'f Model \<Rightarrow> int list \<times> int list \<Rightarrow> nat \<Rightarrow> PositionInputs \<Rightarrow> 'f io \<Rightarrow> (PositionInputs \<times> 'f io) res" where
  "pos_upd md g = PositionInputs_Update md"

lemma posid_frame:
  "posid_inv md p n pn x \<Longrightarrow> pi_has_posid pn = has_posid md \<Longrightarrow> agrees (posid_fp pn) (if has_posid md then {1} else {}) {} x y \<Longrightarrow>
   posid_inv md p n pn y"
  by (cases x; cases y) (auto simp: posid_inv_def posid_fp_def agrees_def)

lemma mask_frame:
  "mask_inv md p n pn x \<Longrightarrow> pi_has_mask pn = has_mask md \<Longrightarrow> agrees (mask_fp pn) (if has_mask md then {mask_index md} else {}) {} x y \<Longrightarrow>
   mask_inv md p n pn y"
  by (cases x; cases y) (auto simp: mask_inv_def mask_fp_def agrees_def)

lemma pos_frame:
  assumes "pos_inv md p n pn x" and "agrees (pos_fp pn) (pos_islots md pn) {} x y"
  shows "pos_inv md p n pn y"
proof -
  have "agrees (posid_fp pn) (if has_posid md then {1} else {}) {} x y" "agrees (mask_fp pn) (if has_mask md then {mask_index md} else {}) {} x y"
    using assms(2) agrees_either [of "posid_fp pn" "mask_fp pn" _ _ "{}" "{}" x y] by (simp_all add: pos_fp_def pos_islots_def)
  then show ?thesis using assms(1) by (auto simp: pos_inv_def intro: posid_frame mask_frame)
qed

lemma pos_bound: "pos_inv md p n pn x \<Longrightarrow> pos_fp pn \<subseteq> {..<next_addr (snd x)}"
  by (cases x) (auto simp: pos_inv_def pos_fp_def posid_fp_def mask_fp_def posid_inv_def mask_inv_def split: if_splits)

lemma posid_bound: "pos_inv md p n pn x \<Longrightarrow> mask_fp pn \<subseteq> {..<next_addr (snd x)}"
  using pos_bound [of md p n pn x] by (simp add: pos_fp_def)

lemma pos_update_posid:
  assumes inv: "pos_inv md p n pn x" and m: "mem_ok (snd x)" and i: "\<And>i. i \<in> pos_islots md pn \<Longrightarrow> i < length (st_inputs (fst x))"
  shows "\<exists>pn' y. (if pi_has_posid pn then UpdatePositionIDs md pn x else Inr (pn, x)) = Inr (pn', y)
     \<and> posid_inv md p (Suc n) pn' y \<and> mask_inv md p n pn' y \<and> posid_fp pn' \<subseteq> posid_fp pn \<and> mask_fp pn' = mask_fp pn
     \<and> pi_has_posid pn' = has_posid md \<and> pi_has_mask pn' = has_mask md
     \<and> touches (posid_fp pn) (if has_posid md then {1} else {}) {} x y"
proof (cases "has_posid md")
  case True
  obtain st m0 where x: "x = (st, m0)" by (cases x)
  have a: "decoder_ok md p" "seq_len p \<le> n" "pi_has_posid pn" "pi_has_mask pn = has_mask md" "posid_inv md p n pn (st, m0)"
      "mask_inv md p n pn x" "posid_fp pn \<inter> mask_fp pn = {}"
    using inv True by (auto simp: pos_inv_def x)
  have "1 < length (st_inputs st)" using i [of 1] True by (simp add: x pos_islots_def)
  then obtain pn' y where u: "UpdatePositionIDs md pn x = Inr (pn', y)" "posid_inv md p (Suc n) pn' y" "posid_fp pn' \<subseteq> posid_fp pn"
      "touches (posid_fp pn) {1} {} x y"
      "pn' = pn\<lparr>pi_posids_shape := pi_posids_shape pn', pi_posids := pi_posids pn', pi_posids_next := pi_posids_next pn',
          pi_first_posid_update := pi_first_posid_update pn'\<rparr>"
    using posid_update [OF a(1,2) True a(3,5)] m by (auto simp: x)
  obtain sh q nx fi where pn': "pn' = pn\<lparr>pi_posids_shape := sh, pi_posids := q, pi_posids_next := nx, pi_first_posid_update := fi\<rparr>"
    using u(5) by blast
  have "agrees (mask_fp pn) (if has_mask md then {mask_index md} else {}) {} x y"
    by (rule touches_agrees [OF u(4) posid_bound [OF inv] a(7)]) (auto simp: mask_index_def True)
  then have "mask_inv md p n pn y" using mask_frame [OF a(6)] a(4) by simp
  then have "mask_inv md p n pn' y" "mask_fp pn' = mask_fp pn" by (cases y; simp add: pn' mask_inv_def mask_fp_def)+
  then show ?thesis using u a True by (simp add: pn')
next
  case False
  then show ?thesis using inv m touches_refl [of x] by (cases x) (auto simp: pos_inv_def posid_inv_def)
qed

lemma pos_update:
  assumes inv: "pos_inv md p n pn x" and m: "mem_ok (snd x)" and i: "\<And>i. i \<in> pos_islots md pn \<Longrightarrow> i < length (st_inputs (fst x))"
  shows "\<exists>pn' y. pos_upd md g (Suc n) pn x = Inr (pn', y) \<and> pos_inv md p (Suc n) pn' y
     \<and> pos_fp pn' \<subseteq> pos_fp pn \<union> {next_addr (snd x)..} \<and> touches (pos_fp pn) (pos_islots md pn) {} x y"
proof -
  obtain p1 y where u: "(if pi_has_posid pn then UpdatePositionIDs md pn x else Inr (pn, x)) = Inr (p1, y)"
      "posid_inv md p (Suc n) p1 y" "mask_inv md p n p1 y" "posid_fp p1 \<subseteq> posid_fp pn" "mask_fp p1 = mask_fp pn"
      "pi_has_posid p1 = has_posid md" "pi_has_mask p1 = has_mask md"
      "touches (posid_fp pn) (if has_posid md then {1} else {}) {} x y"
    using pos_update_posid [OF assms] by blast
  have ok: "decoder_ok md p" "seq_len p \<le> n" and dj: "posid_fp pn \<inter> mask_fp pn = {}" using inv by (auto simp: pos_inv_def)
  show ?thesis
  proof (cases "has_mask md")
    case True
    obtain st m0 where y: "y = (st, m0)" by (cases y)
    have il: "mask_index md < length (st_inputs st)"
      using i [of "mask_index md"] u(8) True by (cases x) (simp add: y pos_islots_def touches_def)
    have mo: "mem_ok m0" using touches_mem_ok [OF u(8)] by (simp add: y)
    have mi: "mask_inv md p n p1 (st, m0)" and hm: "pi_has_mask p1" using u(3,7) True by (simp_all add: y)
    obtain p2 z where w: "UpdateAttentionMask md (Suc n) p1 (st, m0) = Inr (p2, z)" "mask_inv md p (Suc n) p2 z"
        "mask_fp p2 \<subseteq> {next_addr m0..}" "touches (mask_fp p1) {mask_index md} {} (st, m0) z"
        "p2 = p1\<lparr>pi_mask_shape := pi_mask_shape p2, pi_mask := pi_mask p2\<rparr>"
      using mask_update [OF ok True hm mi mo il] by blast
    obtain sh q where p2: "p2 = p1\<lparr>pi_mask_shape := sh, pi_mask := q\<rparr>" using w(5) by blast
    have pf: "posid_fp p2 = posid_fp p1" by (simp add: p2 posid_fp_def)
    have pb: "posid_fp p1 \<subseteq> {..<next_addr m0}" using u(2,6) by (auto simp: y posid_inv_def posid_fp_def split: if_splits)
    have "mask_fp p1 \<inter> posid_fp p1 = {}" using u(4,5) dj by blast
    then have "agrees (posid_fp p1) (if has_posid md then {1} else {}) {} y z"
      using touches_agrees [OF w(4), of "posid_fp p1" "if has_posid md then {1} else {}" "{}"] pb
      by (auto simp: y mask_index_def)
    then have "posid_inv md p (Suc n) p1 z" using posid_frame [OF u(2)] u(6) by simp
    then have "posid_inv md p (Suc n) p2 z" by (cases z) (simp add: p2 posid_inv_def)
    moreover have "posid_fp p2 \<inter> mask_fp p2 = {}" using pf pb w(3) by fastforce
    ultimately have "pos_inv md p (Suc n) p2 z" using ok u(6,7) w(2) by (simp add: pos_inv_def p2)
    moreover have "pos_upd md g (Suc n) pn x = Inr (p2, z)"
      using w(1) u(1,7) True by (simp add: pos_upd_def PositionInputs_Update_def y)
    moreover have "touches (pos_fp pn) (pos_islots md pn) {} x z"
      using touches_trans [OF u(8), of "mask_fp p1" "{mask_index md}" "{}" z] w(4) True u(5) by (simp add: y pos_fp_def pos_islots_def)
    moreover have "pos_fp p2 \<subseteq> pos_fp pn \<union> {next_addr (snd x)..}"
      using w(3) u(4) pf touches_grows [OF u(8)] by (auto simp: pos_fp_def y)
    ultimately show ?thesis by blast
  next
    case False
    then have "mask_inv md p (Suc n) p1 y" "mask_fp p1 = {}" using u(7) by (cases y; simp add: mask_inv_def mask_fp_def)+
    then have "pos_inv md p (Suc n) p1 y" using ok u by (simp add: pos_inv_def)
    moreover have "pos_upd md g (Suc n) pn x = Inr (p1, y)" using u(1,7) False by (simp add: pos_upd_def PositionInputs_Update_def)
    moreover have "touches (pos_fp pn) (pos_islots md pn) {} x y"
      by (rule touches_mono [OF u(8)]) (auto simp: pos_fp_def pos_islots_def)
    ultimately show ?thesis using u(4) \<open>mask_fp p1 = {}\<close> by (auto simp: pos_fp_def)
  qed
qed

section \<open>Constructing the position inputs\<close>

lemma blocks_concat:
  assumes "\<And>x. x \<in> set xs \<Longrightarrow> length x = w" and "\<And>r. r < n \<Longrightarrow> g r < length xs"
  shows "blocks (concat xs) w g n = concat (map (\<lambda>r. xs ! g r) [0..<n])"
  unfolding blocks_def using concat_row [OF assms(1)] assms(2) by (intro arg_cong [where f = concat] map_cong refl) simp

lemma for_res_fill:
  assumes "off + k \<le> length ls" and "length ini = length ls"
  shows "for_res (\<lambda>j (ls, ini). res_bind (put ls (off + j) x) (\<lambda>ls'. res_bind (put ini (off + j) x) (\<lambda>ini'. Inr (ls', ini'))))
      [0..<k] (ls, ini) = Inr (blit ls off (replicate k x), blit ini off (replicate k x))"
  using assms(1)
proof (induction k)
  case (Suc k)
  have "(blit xs off (replicate k x))[off + k := x] = blit xs off (replicate (Suc k) x)" if "length xs = length ls" for xs
    using blit_snoc [of off "replicate k x" xs x] Suc.prems that by (simp add: replicate_append_same)
  then show ?case using Suc assms(2) by simp
qed simp

text \<open>The loop over the rows of the batch.\<close>

abbreviation prompt_count :: "('f, 't) GeneratorParams \<Rightarrow> nat \<Rightarrow> int" where
  "prompt_count p b \<equiv> token_count (pad_token_id p) (prompt_row p b)"

definition init_done :: "('f, addr) GeneratorParams \<Rightarrow> nat \<Rightarrow> 'f init_state \<Rightarrow> 'f init_state \<Rightarrow> bool" where
  "init_done p i s0 s \<longleftrightarrow>
     is_mask s = concat (map (\<lambda>b. mask_row (pad_token_id p) (prompt_row p b)) [0..<i]) @ drop (i * seq_len p) (is_mask s0)
     \<and> is_position s = concat (map (\<lambda>b. position_row (pad_token_id p) (prompt_row p b)) [0..<i]) @ drop (i * seq_len p) (is_position s0)
     \<and> is_next s = map (\<lambda>b. SInt (prompt_count p b)) [0..<i] @ drop i (is_next s0)
     \<and> is_lengths s = concat (map (\<lambda>b. replicate (nbeams p) (prompt_count p b)) [0..<i]) @ drop (i * nbeams p) (is_lengths s0)
     \<and> is_initial s = concat (map (\<lambda>b. replicate (nbeams p) (prompt_count p b)) [0..<i]) @ drop (i * nbeams p) (is_initial s0)"

lemma length_prompt_row: "params_ok p \<Longrightarrow> b < nbatch p \<Longrightarrow> length (prompt_row p b) = seq_len p"
  using row_bound0 [of b "nbatch p" "seq_len p"] unfolding prompt_row_def params_ok_def
  by (metis length_slice mult.commute)

lemma init_row_ok:
  fixes p :: "('f, addr) GeneratorParams"
  assumes po: "params_ok p" and i: "i < nbatch p" and d: "init_done p i s0 s"
    and len: "length (is_mask s0) = nbatch p * seq_len p" "length (is_position s0) = nbatch p * seq_len p"
      "length (is_next s0) = nbatch p" "length (is_lengths s0) = nbatch p * nbeams p" "length (is_initial s0) = nbatch p * nbeams p"
  shows "\<exists>s'. init_row p (seq_len p) i s = Inr s' \<and> init_done p (Suc i) s0 s'"
proof -
  let ?w = "seq_len p" and ?k = "nbeams p" and ?row = "prompt_row p i" and ?pad = "pad_token_id p"
  have rw: "i * ?w + ?w \<le> nbatch p * ?w" "i * ?k + ?k \<le> nbatch p * ?k" using row_bound0 [OF i] by blast+
  have rle: "i * ?w \<le> nbatch p * ?w" "i * ?k \<le> nbatch p * ?k" using rw by linarith+
  have ids: "length (input_ids p) = nbatch p * ?w" using po by (simp add: params_ok_def)
  have pl: "length (prompt_row p b) = ?w" if "b \<le> i" for b using length_prompt_row [OF po] i that by simp
  have pre: "length (concat (map (\<lambda>b. mask_row ?pad (prompt_row p b) :: 'f scalar list) [0..<i])) = i * ?w"
      "length (concat (map (\<lambda>b. position_row ?pad (prompt_row p b) :: 'f scalar list) [0..<i])) = i * ?w"
      "length (concat (map (\<lambda>b. replicate ?k (prompt_count p b)) [0..<i])) = i * ?k"
    using length_concat_rows [of "[0..<i]" "\<lambda>b. mask_row ?pad (prompt_row p b) :: 'f scalar list" ?w]
      length_concat_rows [of "[0..<i]" "\<lambda>b. position_row ?pad (prompt_row p b) :: 'f scalar list" ?w]
      length_concat_rows [of "[0..<i]" "\<lambda>b. replicate ?k (prompt_count p b)" ?k] pl by simp_all
  have ls: "length (is_mask s) = nbatch p * ?w" "length (is_position s) = nbatch p * ?w" "length (is_next s) = nbatch p"
      "length (is_lengths s) = nbatch p * ?k" "length (is_initial s) = nbatch p * ?k"
    using d i len(3) by (simp_all only: init_done_def length_append length_drop pre len length_map length_upt le_add_diff_inverse rle)
  have words: "for_res (\<lambda>j. init_word ?pad (input_ids p) (i * ?w + j)) [0..<?w] (is_mask s, is_position s, 0)
      = Inr (blit (is_mask s) (i * ?w) (mask_row ?pad ?row), blit (is_position s) (i * ?w) (position_row ?pad ?row), prompt_count p i)"
    unfolding prompt_row_def by (rule init_words [where w = ?w]) (simp_all only: ids ls rw order_refl)
  let ?c = "prompt_count p i"
  have fill: "for_res (\<lambda>k (ls, ini). res_bind (put ls (i * ?k + k) ?c) (\<lambda>ls'. res_bind (put ini (i * ?k + k) ?c) (\<lambda>ini'. Inr (ls', ini'))))
      [0..<?k] (is_lengths s, is_initial s) = Inr (blit (is_lengths s) (i * ?k) (replicate ?k ?c), blit (is_initial s) (i * ?k) (replicate ?k ?c))"
    by (rule for_res_fill) (simp_all only: ls rw)
  let ?s = "\<lparr>is_mask = blit (is_mask s) (i * ?w) (mask_row ?pad ?row), is_position = blit (is_position s) (i * ?w) (position_row ?pad ?row),
      is_next = (is_next s)[i := SInt ?c], is_lengths = blit (is_lengths s) (i * ?k) (replicate ?k ?c),
      is_initial = blit (is_initial s) (i * ?k) (replicate ?k ?c)\<rparr>"
  have "init_row p ?w i s = Inr ?s" using words fill i ls(3) by (simp add: init_row_def)
  moreover have nx: "(map (\<lambda>b. SInt (prompt_count p b)) [0..<i] @ drop i (is_next s0))[i := SInt ?c]
      = map (\<lambda>b. SInt (prompt_count p b)) [0..<Suc i] @ drop (Suc i) (is_next s0)"
    using i len(3) by (simp add: list_update_append Cons_nth_drop_Suc [symmetric])
  have "init_done p (Suc i) s0 ?s"
    using d pl [of i] unfolding init_done_def
    by (simp only: init_state.select_convs blit_next [OF pre(1)] blit_next [OF pre(2)] blit_next [OF pre(3)] nx length_mask_row
        length_position_row length_replicate upt_Suc_append le0 map_append concat_append list.map concat.simps append_Nil2)
  ultimately show ?thesis by blast
qed

lemma InitializeTensors_ok:
  assumes po: "params_ok p"
    and len: "length (is_mask s0) = nbatch p * seq_len p" "length (is_position s0) = nbatch p * seq_len p"
      "length (is_next s0) = nbatch p" "length (is_lengths s0) = rows p" "length (is_initial s0) = rows p"
  shows "\<exists>s. InitializeTensors p [batch_size p, sequence_length p] s0 = Inr s \<and> init_done p (nbatch p) s0 s"
proof -
  have "\<exists>s. for_res (init_row p (seq_len p)) [0..<nbatch p] s0 = Inr s \<and> init_done p (nbatch p) s0 s"
    by (rule for_res_upt_rule [where I = "\<lambda>i s. init_done p i s0 s"])
      (use init_row_ok [OF po _ _ len(1,2,3) len(4,5) [unfolded rows_def]] in \<open>auto simp: init_done_def\<close>)
  then show ?thesis by (simp add: InitializeTensors_def)
qed

text \<open>The contents over all rows of the expanded batch.\<close>

lemma expanded_rows:
  fixes f :: "int list \<Rightarrow> 'b list"
  assumes po: "params_ok p" and f: "\<And>b. b < nbatch p \<Longrightarrow> length (f (prompt_row p b)) = w"
  shows "blocks (concat (map (\<lambda>b. f (prompt_row p b)) [0..<nbatch p])) w (\<lambda>r. r div nbeams p) (rows p)
    = concat (map (\<lambda>r. f (row_prompt p r)) [0..<rows p])"
proof -
  have r: "r div nbeams p < nbatch p" if "r < rows p" for r using that by (simp add: rows_def less_mult_imp_div_less)
  have "blocks (concat (map (\<lambda>b. f (prompt_row p b)) [0..<nbatch p])) w (\<lambda>r. r div nbeams p) (rows p)
      = concat (map (\<lambda>r. map (\<lambda>b. f (prompt_row p b)) [0..<nbatch p] ! (r div nbeams p)) [0..<rows p])"
    using f r by (intro blocks_concat) auto
  also have "\<dots> = concat (map (\<lambda>r. f (row_prompt p r)) [0..<rows p])"
    using r by (intro arg_cong [where f = concat] map_cong refl) (simp add: row_prompt_def)
  finally show ?thesis .
qed

lemma position_type_ok:
  assumes "decoder_ok md p"
  shows "\<exists>t. position_type md (has_mask md) (has_posid md) = Inr t \<and> t \<in> {ONNX_INT32, ONNX_INT64}
     \<and> (has_posid md \<longrightarrow> t = input_type md (posid_name md)) \<and> (has_mask md \<longrightarrow> t = input_type md (mask_name md))"
proof -
  have g: "has_posid md \<Longrightarrow> GetInputDataType (md_session_info md) (posid_name md) = Inr (input_type md (posid_name md))"
    "has_mask md \<Longrightarrow> GetInputDataType (md_session_info md) (mask_name md) = Inr (input_type md (mask_name md))"
    by (rule GetInputDataType_type; use assms in \<open>auto simp: decoder_ok_def\<close>)+
  show ?thesis
  proof (cases "has_posid md")
    case True
    then show ?thesis using g assms by (cases "has_mask md") (auto simp: position_type_def Let_def decoder_ok_def)
  next
    case False
    then show ?thesis using g assms by (cases "has_mask md") (auto simp: position_type_def Let_def decoder_ok_def)
  qed
qed

text \<open>Expanding the three tensors one after the other.\<close>

lemma expand_three:
  assumes ok: "decoder_ok md p" and m: "mem_ok m" and t: "t \<in> {ONNX_INT32, ONNX_INT64}"
    and len: "length P = nbatch p * seq_len p" "length N = nbatch p" "length M = nbatch p * seq_len p"
  defines "m6 \<equiv> m\<lparr>next_addr := next_addr m + 3, ovs := (ovs m)
      (next_addr m \<mapsto> \<lparr>ov_type = t, ov_shape = [batch_size p, sequence_length p], ov_data = P\<rparr>,
       Suc (next_addr m) \<mapsto> \<lparr>ov_type = t, ov_shape = [batch_size p, 1], ov_data = N\<rparr>,
       Suc (Suc (next_addr m)) \<mapsto> \<lparr>ov_type = t, ov_shape = [batch_size p, sequence_length p], ov_data = M\<rparr>)\<rparr>"
  shows "\<exists>q1 q2 q3 m7 m8 m9. expand_member md (num_beams (search p)) (next_addr m) m6 = Inr (q1, m7)
     \<and> expand_member md (num_beams (search p)) (Suc (next_addr m)) m7 = Inr (q2, m8)
     \<and> expand_member md (num_beams (search p)) (Suc (Suc (next_addr m))) m8 = Inr (q3, m9)
     \<and> mem_grows m m9 \<and> {q1, q2, q3} \<subseteq> {next_addr m..<next_addr m9} \<and> q1 \<noteq> q2 \<and> q1 \<noteq> q3 \<and> q2 \<noteq> q3
     \<and> ovs m9 q1 = Some \<lparr>ov_type = t, ov_shape = [int (rows p), sequence_length p], ov_data = blocks P (seq_len p) (\<lambda>r. r div nbeams p) (rows p)\<rparr>
     \<and> ovs m9 q2 = Some \<lparr>ov_type = t, ov_shape = [int (rows p), 1], ov_data = blocks N 1 (\<lambda>r. r div nbeams p) (rows p)\<rparr>
     \<and> ovs m9 q3 = Some \<lparr>ov_type = t, ov_shape = [int (rows p), sequence_length p], ov_data = blocks M (seq_len p) (\<lambda>r. r div nbeams p) (rows p)\<rparr>"
proof -
  let ?a = "next_addr m"
  let ?P = "\<lparr>ov_type = t, ov_shape = [batch_size p, sequence_length p], ov_data = P\<rparr>"
  let ?N = "\<lparr>ov_type = t, ov_shape = [batch_size p, 1], ov_data = N\<rparr>"
  let ?M = "\<lparr>ov_type = t, ov_shape = [batch_size p, sequence_length p], ov_data = M\<rparr>"
  have b: "0 \<le> sequence_length p" using ok by (simp add: decoder_ok_def)
  have vo: "value_ok ?P" "value_ok ?N" "value_ok ?M" using len by (simp_all add: value_ok_def)
  have n6: "next_addr m6 = ?a + 3" and v6: "ovs m6 ?a = Some ?P" "ovs m6 (Suc ?a) = Some ?N" "ovs m6 (Suc (Suc ?a)) = Some ?M"
    by (simp_all add: m6_def)
  have g6: "mem_grows m m6" using m by (auto simp: mem_grows_def mem_ok_def m6_def)
  obtain q1 m7 where e1: "expand_member md (num_beams (search p)) ?a m6 = Inr (q1, m7)" "mem_grows m m7" "?a \<le> q1"
      "q1 < next_addr m7" "q1 = ?a \<or> next_addr m6 \<le> q1" "\<forall>b. b \<noteq> ?a \<longrightarrow> b < next_addr m6 \<longrightarrow> ovs m7 b = ovs m6 b"
      "next_addr m6 \<le> next_addr m7" and d1: "ovs m7 q1 = Some \<lparr>ov_type = t, ov_shape = [int (rows p), sequence_length p],
          ov_data = blocks P (seq_len p) (\<lambda>r. r div nbeams p) (rows p)\<rparr>"
    using expand_member_ok [OF v6(1) _ _ vo(1) _ ok g6, of "[sequence_length p]"] t b by auto
  have v7: "ovs m7 (Suc ?a) = Some ?N" "ovs m7 (Suc (Suc ?a)) = Some ?M" using e1(6) v6 n6 by simp_all
  obtain q2 m8 where e2: "expand_member md (num_beams (search p)) (Suc ?a) m7 = Inr (q2, m8)" "mem_grows m m8" "?a \<le> q2"
      "q2 < next_addr m8" "q2 = Suc ?a \<or> next_addr m7 \<le> q2" "\<forall>b. b \<noteq> Suc ?a \<longrightarrow> b < next_addr m7 \<longrightarrow> ovs m8 b = ovs m7 b"
      "next_addr m7 \<le> next_addr m8" and d2: "ovs m8 q2 = Some \<lparr>ov_type = t, ov_shape = [int (rows p), 1],
          ov_data = blocks N 1 (\<lambda>r. r div nbeams p) (rows p)\<rparr>"
    using expand_member_ok [OF v7(1) _ _ vo(2) _ ok e1(2), of "[1]"] t by auto
  have q1: "q1 \<noteq> Suc ?a" "q1 \<noteq> Suc (Suc ?a)" "q1 \<noteq> q2" using e1(3-5,7) e2(5) n6 by auto
  have v8: "ovs m8 (Suc (Suc ?a)) = Some ?M" "ovs m8 q1 = ovs m7 q1" using e2(6) v7 n6 e1(4,7) q1 by simp_all
  obtain q3 m9 where e3: "expand_member md (num_beams (search p)) (Suc (Suc ?a)) m8 = Inr (q3, m9)" "mem_grows m m9" "?a \<le> q3"
      "q3 < next_addr m9" "q3 = Suc (Suc ?a) \<or> next_addr m8 \<le> q3" "\<forall>b. b \<noteq> Suc (Suc ?a) \<longrightarrow> b < next_addr m8 \<longrightarrow> ovs m9 b = ovs m8 b"
      "next_addr m8 \<le> next_addr m9" and d3: "ovs m9 q3 = Some \<lparr>ov_type = t, ov_shape = [int (rows p), sequence_length p],
          ov_data = blocks M (seq_len p) (\<lambda>r. r div nbeams p) (rows p)\<rparr>"
    using expand_member_ok [OF v8(1) _ _ vo(3) _ ok e2(2), of "[sequence_length p]"] t b by auto
  have q2: "q2 \<noteq> Suc (Suc ?a)" using e2(5) e1(7) n6 by auto
  have "q1 < next_addr m8" using e1(4) e2(7) by simp
  then have "q1 \<noteq> q3" "q2 \<noteq> q3" "ovs m9 q1 = ovs m8 q1" "ovs m9 q2 = ovs m8 q2" using q1 q2 e2(4) e3(5,6) by auto
  moreover have "q1 < next_addr m9" "q2 < next_addr m9" using \<open>q1 < next_addr m8\<close> e2(4) e3(7) by simp_all
  ultimately show ?thesis using e1(1,3) e2(1,3) e3(1-4) d1 d2 d3 v8(2) q1(3) by simp
qed

lemma concat_replicate_rows:
  assumes "0 < k"
  shows "concat (map (\<lambda>b. replicate k (f b)) [0..<n]) = map (\<lambda>r. f (r div k)) [0..<n * k]"
proof (induction n)
  case (Suc n)
  have "[0..<Suc n * k] = [0..<n * k] @ map (\<lambda>j. n * k + j) [0..<k]"
    using upt_add_eq_append [of 0 "n * k" k] map_add_upt [of "n * k" k] by (simp add: add.commute)
  moreover have "map (\<lambda>r. f (r div k)) (map (\<lambda>j. n * k + j) [0..<k]) = replicate k (f n)"
    using assms by (intro nth_equalityI) simp_all
  ultimately show ?case using Suc by simp
qed simp

text \<open>What the constructor leaves: the tensors of the run on the prompt and the next column of positions.\<close>

definition pos_start :: "'f Model \<Rightarrow> ('f, addr) GeneratorParams \<Rightarrow> PositionInputs \<Rightarrow> 'f mem \<Rightarrow> bool" where
  "pos_start md p pn m \<longleftrightarrow> pi_has_posid pn = has_posid md \<and> pi_has_mask pn = has_mask md \<and> posid_fp pn \<inter> mask_fp pn = {}
     \<and> pi_posids_shape pn = [int (rows p), sequence_length p] \<and> pi_first_posid_update pn
     \<and> pi_mask_shape pn = [int (rows p), sequence_length p]
     \<and> (has_mask md \<longrightarrow> pi_type pn = input_type md (mask_name md)
          \<and> (\<exists>v. ovs m (pi_mask pn) = Some v \<and> matches (mask_slot md p (seq_len p)) (mask_name md, v)))
     \<and> (has_posid md \<longrightarrow> (\<exists>v. ovs m (pi_posids pn) = Some v \<and> matches (position_slot md p (seq_len p)) (posid_name md, v))
          \<and> (\<exists>q. pi_posids_next pn = Some q \<and> q \<noteq> pi_posids pn \<and> ovs m q = Some (next_positions md p)))"

lemma pos_new:
  fixes md :: "'f Model"
  assumes ok: "decoder_ok md p" and m: "mem_ok m" and lens: "length lens = rows p"
  shows "\<exists>pn m'. PositionInputs_new md p lens m = Inr (pn, map (\<lambda>r. token_count (pad_token_id p) (row_prompt p r)) [0..<rows p], m')
     \<and> mem_grows m m' \<and> pos_fp pn \<subseteq> {next_addr m..<next_addr m'} \<and> pos_start md p pn m'"
proof -
  have po: "params_ok p" and b: "0 \<le> batch_size p" "0 \<le> sequence_length p" using ok by (auto simp: decoder_ok_def params_ok_def)
  note B = rows_BatchBeamSize [OF ok]
  obtain t where t: "position_type md (has_mask md) (has_posid md) = Inr t" "t \<in> {ONNX_INT32, ONNX_INT64}"
     "has_posid md \<longrightarrow> t = input_type md (posid_name md)" "has_mask md \<longrightarrow> t = input_type md (mask_name md)"
    using position_type_ok [OF ok] by blast
  let ?a = "next_addr m" and ?u = "replicate (nbatch p * seq_len p) Uninit :: 'f scalar list" and ?u1 = "replicate (nbatch p) Uninit :: 'f scalar list"
  let ?s0 = "\<lparr>is_mask = ?u, is_position = ?u, is_next = ?u1, is_lengths = lens, is_initial = replicate (nat (BatchBeamSize p)) 0\<rparr>"
  have nb: "nat (BatchBeamSize p) = rows p" by (simp add: B(1))
  obtain s where s: "InitializeTensors p [batch_size p, sequence_length p] ?s0 = Inr s" and d: "init_done p (nbatch p) ?s0 s"
    using InitializeTensors_ok [OF po, of ?s0] lens by (auto simp: nb)
  let ?rowsof = "\<lambda>f :: int list \<Rightarrow> 'f scalar list. concat (map (\<lambda>b. f (prompt_row p b)) [0..<nbatch p])"
  let ?pad = "pad_token_id p"
  have sd: "is_mask s = ?rowsof (mask_row ?pad)" "is_position s = ?rowsof (position_row ?pad)"
      "is_next s = ?rowsof (\<lambda>ids. [SInt (token_count ?pad ids)])"
      "is_lengths s = concat (map (\<lambda>b. replicate (nbeams p) (prompt_count p b)) [0..<nbatch p])"
    using d lens by (simp_all add: init_done_def rows_def concat_map_singleton)
  have pl: "length (prompt_row p b) = seq_len p" if "b < nbatch p" for b using length_prompt_row [OF po that] .
  have len: "length (is_position s) = nbatch p * seq_len p" "length (is_next s) = nbatch p" "length (is_mask s) = nbatch p * seq_len p"
    using length_concat_rows [of "[0..<nbatch p]" "\<lambda>b. mask_row ?pad (prompt_row p b) :: 'f scalar list" "seq_len p"]
      length_concat_rows [of "[0..<nbatch p]" "\<lambda>b. position_row ?pad (prompt_row p b) :: 'f scalar list" "seq_len p"]
      length_concat_rows [of "[0..<nbatch p]" "\<lambda>b. [SInt (prompt_count p b)] :: 'f scalar list" 1] pl by (simp_all add: sd)
  have CT: "CreateTensor [batch_size p, w] t mm = Inr (next_addr mm, mm\<lparr>next_addr := Suc (next_addr mm),
       ovs := (ovs mm)(next_addr mm \<mapsto> \<lparr>ov_type = t, ov_shape = [batch_size p, w], ov_data = replicate (nbatch p * nat w) Uninit\<rparr>)\<rparr>)"
    if "0 \<le> w" for w and mm :: "'f mem" using b that by (subst CreateTensor_ok) auto
  obtain q1 q2 q3 m7 m8 m9 where e: "expand_member md (num_beams (search p)) ?a (m\<lparr>next_addr := next_addr m + 3, ovs := (ovs m)
      (next_addr m \<mapsto> \<lparr>ov_type = t, ov_shape = [batch_size p, sequence_length p], ov_data = is_position s\<rparr>,
       Suc (next_addr m) \<mapsto> \<lparr>ov_type = t, ov_shape = [batch_size p, 1], ov_data = is_next s\<rparr>,
       Suc (Suc (next_addr m)) \<mapsto> \<lparr>ov_type = t, ov_shape = [batch_size p, sequence_length p], ov_data = is_mask s\<rparr>)\<rparr>) = Inr (q1, m7)"
     "expand_member md (num_beams (search p)) (Suc ?a) m7 = Inr (q2, m8)"
     "expand_member md (num_beams (search p)) (Suc (Suc ?a)) m8 = Inr (q3, m9)"
     "mem_grows m m9" "{q1, q2, q3} \<subseteq> {next_addr m..<next_addr m9}" "q1 \<noteq> q2" "q1 \<noteq> q3" "q2 \<noteq> q3"
     and v: "ovs m9 q1 = Some \<lparr>ov_type = t, ov_shape = [int (rows p), sequence_length p], ov_data = blocks (is_position s) (seq_len p) (\<lambda>r. r div nbeams p) (rows p)\<rparr>"
     "ovs m9 q2 = Some \<lparr>ov_type = t, ov_shape = [int (rows p), 1], ov_data = blocks (is_next s) 1 (\<lambda>r. r div nbeams p) (rows p)\<rparr>"
     "ovs m9 q3 = Some \<lparr>ov_type = t, ov_shape = [int (rows p), sequence_length p], ov_data = blocks (is_mask s) (seq_len p) (\<lambda>r. r div nbeams p) (rows p)\<rparr>"
    using expand_three [OF ok m t(2) len] by auto
  let ?pn = "\<lparr>pi_type = t, pi_has_mask = has_mask md, pi_has_posid = has_posid md, pi_posids_shape = [int (rows p), sequence_length p],
            pi_posids = q1, pi_posids_next = Some q2, pi_mask_shape = [int (rows p), sequence_length p], pi_mask = q3,
            pi_initial_lengths = is_initial s, pi_first_posid_update = True, pi_mask_index = 0, pi_posid_index = 0\<rparr>"
  have eq: "PositionInputs_new md p lens m = Inr (?pn, is_lengths s, m9)"
    using t(1) s e(1-3) b B(2)
    by (simp add: PositionInputs_new_def Let_def CT deref_def set_data_def numeral_3_eq_3 fun_upd_twist)
  have k: "0 < nbeams p" using ok by (simp add: decoder_ok_def)
  have ls: "is_lengths s = map (\<lambda>r. token_count ?pad (row_prompt p r)) [0..<rows p]"
    unfolding sd concat_replicate_rows [OF k] by (simp add: rows_def row_prompt_def)
  have rp: "length (row_prompt p r) = seq_len p" if "r < rows p" for r using length_row_prompt [OF po that] .
  have dp: "blocks (is_position s) (seq_len p) (\<lambda>r. r div nbeams p) (rows p) = concat (map (\<lambda>r. position_row ?pad (row_prompt p r)) [0..<rows p])"
    and dn: "blocks (is_next s) 1 (\<lambda>r. r div nbeams p) (rows p) = map (\<lambda>r. SInt (token_count ?pad (row_prompt p r))) [0..<rows p]"
    and dm: "blocks (is_mask s) (seq_len p) (\<lambda>r. r div nbeams p) (rows p) = concat (map (mask_data p (seq_len p)) [0..<rows p])"
    unfolding sd by (subst expanded_rows [OF po]; simp add: pl concat_map_singleton)+
  have L: "int (seq_len p) = sequence_length p" using b by simp
  have fm: "filled (\<lparr>ov_type = t, ov_shape = [int (rows p), sequence_length p], ov_data = concat (map (mask_data p (seq_len p)) [0..<rows p])\<rparr> :: 'f OrtValue)"
    using filled_mask [OF po order_refl t(2)] by (simp only: L)
  have "length (concat (map (\<lambda>r. position_row ?pad (row_prompt p r) :: 'f scalar list) [0..<rows p])) = rows p * seq_len p"
    using length_concat_rows [of "[0..<rows p]" "\<lambda>r. position_row ?pad (row_prompt p r) :: 'f scalar list" "seq_len p"] rp by simp
  then have fp: "filled (\<lparr>ov_type = t, ov_shape = [int (rows p), sequence_length p], ov_data = concat (map (\<lambda>r. position_row ?pad (row_prompt p r)) [0..<rows p])\<rparr> :: 'f OrtValue)"
    using t(2) by (auto simp: filled_def value_ok_def position_row_def)
  have "pos_start md p ?pn m9"
    using v t fm fp e(6-8) B(1) L unfolding pos_start_def dp dn dm
    by (auto simp: posid_fp_def mask_fp_def mask_slot_def position_slot_def next_positions_def Let_def)
  moreover have "pos_fp ?pn \<subseteq> {next_addr m..<next_addr m9}" using e(5) by (auto simp: pos_fp_def posid_fp_def mask_fp_def)
  ultimately show ?thesis using eq e(4) ls by auto
qed

interpretation pos: io_component "pos_inv md p" "pos_inv md p" "pos_inv md p" pos_fp "pos_islots md" "\<lambda>pn. {}"
  "pos_upd md" "good_args p" "expect_in md p ex" "expect_out md p"
  for md p ex
proof
  fix n pn and x y :: "'a io"
  show "pos_inv md p n pn x \<Longrightarrow> agrees (pos_fp pn) (pos_islots md pn) {} x y \<Longrightarrow> pos_inv md p n pn y" by (rule pos_frame)
  show "pos_inv md p n pn x \<Longrightarrow> pos_fp pn \<subseteq> {..<next_addr (snd x)}" by (rule pos_bound)
  assume inv: "pos_inv md p n pn x" and w: "session_wrote x y"
    and "\<And>a. a \<in> pos_fp pn \<Longrightarrow> Some a \<in> set (st_outputs (fst x)) \<Longrightarrow> \<exists>i\<in>{}. st_outputs (fst x) ! i = Some a"
  then have "agrees (pos_fp pn) (pos_islots md pn) {} x y"
    by (cases x; cases y) (auto simp: session_wrote_def agrees_def)
  then show "pos_inv md p n pn y" by (rule pos_frame [OF inv])
next
  fix n pn st and m :: "'a mem" and i
  assume inv: "pos_inv md p n pn (st, m)" and i: "i \<in> pos_islots md pn"
  show "\<exists>a v. st_inputs st ! i = Some a \<and> ovs m a = Some v \<and> expect_in md p ex n i (st_input_names st ! i, v)"
  proof (cases "has_posid md \<and> i = 1")
    case True
    then have "in_slots md p ex n ! i = position_slot md p n" "i < length (in_slots md p ex n)"
      by (simp_all add: in_slots_def nth_append length_in_slots_base) (simp add: position_slots_def)
    then show ?thesis using inv True by (auto simp: pos_inv_def posid_inv_def expect_in_def)
  next
    case False
    then have m: "has_mask md" "i = mask_index md" using i by (auto simp: pos_islots_def split: if_splits)
    then have "in_slots md p ex n ! i = mask_slot md p n" "i < length (in_slots md p ex n)"
      by (simp_all add: in_slots_def nth_append length_in_slots_base mask_index_def) (simp add: position_slots_def)
    then show ?thesis using inv m by (auto simp: pos_inv_def mask_inv_def expect_in_def)
  qed
next
  fix n pn and x :: "'a io" and g
  assume "pos_inv md p n pn x" "mem_ok (snd x)" "\<And>i. i \<in> pos_islots md pn \<Longrightarrow> i < length (st_inputs (fst x))"
  then show "\<exists>s' y. pos_upd md g (Suc n) pn x = Inr (s', y) \<and> pos_inv md p (Suc n) s' y
        \<and> pos_fp s' \<subseteq> pos_fp pn \<union> {next_addr (snd x)..} \<and> pos_islots md s' = pos_islots md pn
        \<and> {} = ({}::nat set) \<and> touches (pos_fp pn) (pos_islots md pn) {} x y"
    using pos_update [of md p n pn x g] by (simp add: pos_islots_def)
qed auto

end
