(* ===== verification/CacheLaws.thy ===== *)
theory CacheLaws
  imports InputLaws
begin

text \<open>
  The key-value cache follows the contract of a component. The cache is a row of independent cells, one per
  tensor: a past and a present tensor, an input and an output slot. Both loops of \<open>KV_Cache::Update\<close> work on
  one cell per round and leave the others alone, which is the lemma \<open>cells_loop\<close>.
\<close>

section \<open>Cells\<close>

record 'f cell =
  c_past :: uptr
  c_present :: uptr
  c_past_val :: "'f OrtValue option"
  c_present_val :: "'f OrtValue option"
  c_in :: uptr
  c_out :: uptr

fun val_at :: "'f mem \<Rightarrow> uptr \<Rightarrow> 'f OrtValue option" where
  "val_at m None = None"
| "val_at m (Some a) = ovs m a"

definition cell :: "KV_Cache \<Rightarrow> 'f io \<Rightarrow> nat \<Rightarrow> 'f cell" where
  "cell kv = (\<lambda>(st, m) i. \<lparr>c_past = kv_pasts kv ! i, c_present = kv_presents kv ! i,
     c_past_val = val_at m (kv_pasts kv ! i), c_present_val = val_at m (kv_presents kv ! i),
     c_in = st_inputs st ! (kv_input_index kv + i), c_out = st_outputs st ! (kv_output_index kv + i)\<rparr>)"

definition cfp :: "nat \<Rightarrow> KV_Cache \<Rightarrow> addr set" where
  "cfp i kv = set_option (kv_pasts kv ! i) \<union> set_option (kv_presents kv ! i)"

text \<open>A step on cell \<open>i\<close>.\<close>

definition cstep :: "nat \<Rightarrow> KV_Cache \<times> 'f io \<Rightarrow> KV_Cache \<times> 'f io \<Rightarrow> bool" where
  "cstep i = (\<lambda>(kv, x) (kv', y).
     (\<exists>a b. kv' = kv\<lparr>kv_pasts := (kv_pasts kv)[i := a], kv_presents := (kv_presents kv)[i := b]\<rparr>)
     \<and> cfp i kv' \<subseteq> cfp i kv \<union> {next_addr (snd x)..} \<and> cfp i kv' \<subseteq> {..<next_addr (snd y)}
     \<and> touches (cfp i kv) {kv_input_index kv + i} {kv_output_index kv + i} x y)"

text \<open>The cells own different tensors; everything since \<open>(kv0, x0)\<close> happened in the cells and their slots.\<close>

definition kv_glob :: "nat \<Rightarrow> KV_Cache \<times> 'f io \<Rightarrow> KV_Cache \<times> 'f io \<Rightarrow> bool" where
  "kv_glob N = (\<lambda>(kv0, x0) (kv, x).
     (\<exists>ps qs. kv = kv0\<lparr>kv_pasts := ps, kv_presents := qs\<rparr> \<and> length ps = N \<and> length qs = N)
     \<and> mem_ok (snd x)
     \<and> touches (\<Union>i<N. cfp i kv0) {kv_input_index kv0..<kv_input_index kv0 + N} {kv_output_index kv0..<kv_output_index kv0 + N} x0 x
     \<and> (\<forall>i<N. cfp i kv \<subseteq> cfp i kv0 \<union> {next_addr (snd x0)..}) \<and> (\<forall>i<N. cfp i kv \<subseteq> {..<next_addr (snd x)})
     \<and> (\<forall>i<N. \<forall>j<N. i \<noteq> j \<longrightarrow> cfp i kv \<inter> cfp j kv = {})
     \<and> kv_input_index kv0 + N \<le> length (st_inputs (fst x)) \<and> kv_output_index kv0 + N \<le> length (st_outputs (fst x)))"

lemma val_at_agrees: "(\<And>a. a \<in> set_option p \<Longrightarrow> ovs m' a = ovs m a) \<Longrightarrow> val_at m' p = val_at m p"
  by (cases p) auto

lemma cstepI:
  assumes "kv' = kv\<lparr>kv_pasts := (kv_pasts kv)[i := a], kv_presents := (kv_presents kv)[i := b]\<rparr>"
    and "i < length (kv_pasts kv)" "i < length (kv_presents kv)"
    and "set_option a \<union> set_option b \<subseteq> cfp i kv \<union> {next_addr (snd x)..}" "set_option a \<union> set_option b \<subseteq> {..<next_addr (snd y)}"
    and "touches (cfp i kv) {kv_input_index kv + i} {kv_output_index kv + i} x y"
  shows "cstep i (kv, x) (kv', y)"
proof -
  have "cfp i kv' = set_option a \<union> set_option b" using assms(1-3) by (simp add: cfp_def)
  then show ?thesis using assms unfolding cstep_def by blast
qed

lemma cstep_other_cell:
  assumes "kv_glob N s0 (kv, x)" and "cstep i (kv, x) (kv', y)" and "i < N" "j < N" "i \<noteq> j"
  shows "cell kv' y j = cell kv x j" "cfp j kv' = cfp j kv"
proof -
  obtain st m st' m' where xy: "x = (st, m)" "y = (st', m')" by (cases x, cases y)
  obtain a b where kv': "kv' = kv\<lparr>kv_pasts := (kv_pasts kv)[i := a], kv_presents := (kv_presents kv)[i := b]\<rparr>"
    and t: "touches (cfp i kv) {kv_input_index kv + i} {kv_output_index kv + i} x y"
    using assms(2) by (auto simp: cstep_def)
  have dj: "cfp i kv \<inter> cfp j kv = {}" and bd: "cfp j kv \<subseteq> {..<next_addr m}"
    using assms by (auto simp: kv_glob_def xy split: prod.splits)
  have "ovs m' a = ovs m a" if "a \<in> cfp j kv" for a using t dj bd that by (auto simp: touches_def xy)
  then have "val_at m' (kv_pasts kv ! j) = val_at m (kv_pasts kv ! j)" "val_at m' (kv_presents kv ! j) = val_at m (kv_presents kv ! j)"
    by (auto intro!: val_at_agrees simp: cfp_def)
  moreover have "st_inputs st' ! (kv_input_index kv + j) = st_inputs st ! (kv_input_index kv + j)"
    "st_outputs st' ! (kv_output_index kv + j) = st_outputs st ! (kv_output_index kv + j)"
    using t assms(5) by (simp_all add: touches_def xy)
  ultimately show "cell kv' y j = cell kv x j" using assms(5) by (simp add: cell_def xy kv')
  show "cfp j kv' = cfp j kv" using assms(5) by (simp add: cfp_def kv')
qed

lemma cstep_glob:
  assumes g: "kv_glob N s0 (kv, x)" and c: "cstep i (kv, x) (kv', y)" and i: "i < N"
  shows "kv_glob N s0 (kv', y)"
proof -
  obtain kv0 x0 where s0: "s0 = (kv0, x0)" by (cases s0)
  obtain a b where kv': "kv' = kv\<lparr>kv_pasts := (kv_pasts kv)[i := a], kv_presents := (kv_presents kv)[i := b]\<rparr>"
    and t: "touches (cfp i kv) {kv_input_index kv + i} {kv_output_index kv + i} x y"
    and own: "cfp i kv' \<subseteq> cfp i kv \<union> {next_addr (snd x)..}" "cfp i kv' \<subseteq> {..<next_addr (snd y)}"
    using c by (auto simp: cstep_def)
  obtain ps qs where kv: "kv = kv0\<lparr>kv_pasts := ps, kv_presents := qs\<rparr>" "length ps = N" "length qs = N"
    using g by (auto simp: kv_glob_def s0)
  have g0: "touches (\<Union>i<N. cfp i kv0) {kv_input_index kv0..<kv_input_index kv0 + N} {kv_output_index kv0..<kv_output_index kv0 + N} x0 x"
    "\<forall>i<N. cfp i kv \<subseteq> cfp i kv0 \<union> {next_addr (snd x0)..}" "\<forall>i<N. cfp i kv \<subseteq> {..<next_addr (snd x)}"
    "\<forall>i<N. \<forall>j<N. i \<noteq> j \<longrightarrow> cfp i kv \<inter> cfp j kv = {}"
    "kv_input_index kv0 + N \<le> length (st_inputs (fst x))" "kv_output_index kv0 + N \<le> length (st_outputs (fst x))"
    using g by (auto simp: kv_glob_def s0)
  note grow = touches_grows [OF t] and other = cstep_other_cell(2) [OF g c i]
  have grow0: "next_addr (snd x0) \<le> next_addr (snd x)" using touches_grows [OF g0(1)] .
  have "touches (\<Union>i<N. cfp i kv0) {kv_input_index kv0..<kv_input_index kv0 + N} {kv_output_index kv0..<kv_output_index kv0 + N} x0 y"
    by (rule touches_trans_fresh [OF g0(1) t]) (use g0(2) i kv(1) in auto)
  moreover have "\<forall>j<N. cfp j kv' \<subseteq> cfp j kv0 \<union> {next_addr (snd x0)..}"
  proof (intro allI impI)
    fix j assume j: "j < N"
    show "cfp j kv' \<subseteq> cfp j kv0 \<union> {next_addr (snd x0)..}"
      using g0(2) j own(1) grow0 other [OF j] by (cases "j = i") fastforce+
  qed
  moreover have "\<forall>j<N. cfp j kv' \<subseteq> {..<next_addr (snd y)}"
  proof (intro allI impI)
    fix j assume j: "j < N"
    show "cfp j kv' \<subseteq> {..<next_addr (snd y)}" using g0(3) j own(2) grow other [OF j] by (cases "j = i") fastforce+
  qed
  moreover have new: "cfp i kv' \<inter> cfp j kv = {}" if "j < N" "j \<noteq> i" for j
    using fp_disjoint_step [OF own(1)] g0(3,4) i that by (metis)
  have "\<forall>k<N. \<forall>j<N. k \<noteq> j \<longrightarrow> cfp k kv' \<inter> cfp j kv' = {}"
  proof (intro allI impI)
    fix k j assume kj: "k < N" "j < N" "k \<noteq> j"
    show "cfp k kv' \<inter> cfp j kv' = {}"
      using g0(4) kj new [of k] new [of j] other [OF kj(1)] other [OF kj(2)]
      by (cases "k = i"; cases "j = i") (auto simp: Int_commute)
  qed
  moreover have "length (st_inputs (fst y)) = length (st_inputs (fst x))" "length (st_outputs (fst y)) = length (st_outputs (fst x))"
    using t by (cases x; cases y; simp add: touches_def)+
  moreover have "\<exists>ps' qs'. kv' = kv0\<lparr>kv_pasts := ps', kv_presents := qs'\<rparr> \<and> length ps' = N \<and> length qs' = N"
    using kv by (intro exI [of _ "ps[i := a]"] exI [of _ "qs[i := b]"]) (simp add: kv')
  ultimately show ?thesis
    using g0 touches_mem_ok [OF t] by (simp add: kv_glob_def s0)
qed

lemma cells_loop:
  assumes "kv_glob N s0 s" and "\<And>i. i < N \<Longrightarrow> P (cell (fst s) (snd s) i)"
    and "\<And>i kv x. i < N \<Longrightarrow> kv_glob N s0 (kv, x) \<Longrightarrow> P (cell kv x i) \<Longrightarrow>
       \<exists>kv' y. body i (kv, x) = Inr (kv', y) \<and> cstep i (kv, x) (kv', y) \<and> Q (cell kv' y i)"
  shows "\<exists>kv y. for_res body [0..<N] s = Inr (kv, y) \<and> kv_glob N s0 (kv, y) \<and> (\<forall>i<N. Q (cell kv y i))"
proof -
  let ?I = "\<lambda>k (kv, x). kv_glob N s0 (kv, x) \<and> (\<forall>i<k. Q (cell kv x i)) \<and> (\<forall>i. k \<le> i \<longrightarrow> i < N \<longrightarrow> P (cell kv x i))"
  have "\<exists>t. for_res body [0..<N] s = Inr t \<and> ?I N t"
  proof (rule for_res_upt_rule [where I = ?I])
    show "?I 0 s" using assms(1,2) by (cases s) simp
  next
    fix k t assume k: "k < N" and I: "?I k t"
    obtain kv x where t: "t = (kv, x)" by (cases t)
    have g: "kv_glob N s0 (kv, x)" and "P (cell kv x k)" using I k by (auto simp: t)
    then obtain kv' y where u: "body k (kv, x) = Inr (kv', y)" "cstep k (kv, x) (kv', y)" "Q (cell kv' y k)"
      using assms(3) [OF k] by blast
    have "cell kv' y i = cell kv x i" if "i < N" "i \<noteq> k" for i using cstep_other_cell(1) [OF g u(2) k that(1)] that(2) by simp
    then have "?I (Suc k) (kv', y)" using I k u cstep_glob [OF g u(2) k] by (auto simp: t less_Suc_eq)
    then show "\<exists>t'. body k t = Inr t' \<and> ?I (Suc k) t'" using u(1) t by blast
  qed
  then show ?thesis by fastforce
qed

section \<open>The two loops of an update\<close>

text \<open>A cache tensor of length \<open>n\<close> with data.\<close>

definition kv_val :: "'f Model \<Rightarrow> ('f, 't) GeneratorParams \<Rightarrow> nat \<Rightarrow> 'f OrtValue \<Rightarrow> bool" where
  "kv_val md p n v \<longleftrightarrow> ov_type v = cache_type md \<and> ov_shape v = cache_shape md p n \<and> value_ok v"

definition cell_ran :: "'f Model \<Rightarrow> ('f, 't) GeneratorParams \<Rightarrow> nat \<Rightarrow> 'f cell \<Rightarrow> bool" where
  "cell_ran md p n c \<longleftrightarrow> (\<exists>a v. c_present c = Some a \<and> c_present_val c = Some v \<and> kv_val md p n v \<and> filled v \<and> c_past c \<noteq> Some a)"

definition cell_moved :: "'f Model \<Rightarrow> ('f, 't) GeneratorParams \<Rightarrow> nat \<Rightarrow> 'f cell \<Rightarrow> bool" where
  "cell_moved md p n c \<longleftrightarrow> (\<exists>a v. c_past c = Some a \<and> c_in c = Some a \<and> c_past_val c = Some v \<and> kv_val md p n v \<and> filled v
     \<and> c_present c \<noteq> Some a)"

definition cell_out :: "'f Model \<Rightarrow> ('f, 't) GeneratorParams \<Rightarrow> nat \<Rightarrow> 'f cell \<Rightarrow> bool" where
  "cell_out md p n c \<longleftrightarrow> (\<exists>b w. c_present c = Some b \<and> c_out c = Some b \<and> c_present_val c = Some w \<and> kv_val md p n w)"

lemma glob_fields:
  assumes "kv_glob N (kv0, x0) (kv, st, m)" and "i < N"
  shows "kv_input_index kv = kv_input_index kv0" "kv_output_index kv = kv_output_index kv0" "kv_type kv = kv_type kv0"
    "kv_shape kv = kv_shape kv0" "length (kv_pasts kv) = N" "length (kv_presents kv) = N" "cfp i kv \<subseteq> {..<next_addr m}" "mem_ok m"
    "kv_input_index kv0 + i < length (st_inputs st)" "kv_output_index kv0 + i < length (st_outputs st)"
  using assms by (auto simp: kv_glob_def)

lemma release_other: "p \<noteq> Some a \<Longrightarrow> ovs (release p m) a = ovs m a"
  by (cases p) (auto simp: free_def)

lemma next_addr_release [simp]: "next_addr (release p m) = next_addr m"
  by (cases p) (auto simp: free_def)

lemma mem_ok_release: "mem_ok m \<Longrightarrow> mem_ok (release p m)"
  by (cases p) (auto simp: free_def mem_ok_def)

lemma move_step:
  assumes g: "kv_glob N (kv0, x0) (kv, x)" and i: "i < N" and P: "cell_ran md p n (cell kv x i)"
  shows "\<exists>kv' y. KV_update_past [] i (kv, x) = Inr (kv', y) \<and> cstep i (kv, x) (kv', y) \<and> cell_moved md p n (cell kv' y i)"
proof -
  obtain st m where x: "x = (st, m)" by (cases x)
  note f = glob_fields [OF g [unfolded x] i]
  obtain a v where a: "kv_presents kv ! i = Some a" "ovs m a = Some v" "kv_val md p n v" "filled v" "kv_pasts kv ! i \<noteq> Some a"
    using P by (auto simp: cell_ran_def cell_def x)
  let ?kv = "kv\<lparr>kv_pasts := (kv_pasts kv)[i := Some a], kv_presents := (kv_presents kv)[i := None]\<rparr>"
  let ?m = "release (kv_pasts kv ! i) m"
  let ?st = "st\<lparr>st_inputs := (st_inputs st)[kv_input_index kv + i := Some a]\<rparr>"
  have "KV_update_past [] i (kv, x) = Inr (?kv, ?st, ?m)"
    using a f i by (simp add: KV_update_past_def move_present_def x set_input_ok)
  moreover have "a < next_addr m" by (rule mem_ok_bound [OF f(8) a(2)])
  then have "cstep i (kv, x) (?kv, ?st, ?m)"
    using a f i mem_ok_release [OF f(8)] by (intro cstepI [OF refl]) (auto simp: x cfp_def touches_def release_other)
  moreover have "cell_moved md p n (cell ?kv (?st, ?m) i)"
    using a f i by (simp add: cell_moved_def cell_def release_other)
  ultimately show ?thesis by blast
qed

lemma new_step:
  assumes g: "kv_glob N (kv0, x0) (kv, x)" and i: "i < N" and P: "cell_moved md p n (cell kv x i)"
    and c: "kv_shape kv0 = cache_shape md p (Suc n)" "kv_type kv0 = cache_type md"
    and pos: "\<And>d. d \<in> set (cache_shape md p (Suc n)) \<Longrightarrow> 0 \<le> d"
  shows "\<exists>kv' y. KV_new_present i (kv, x) = Inr (kv', y) \<and> cstep i (kv, x) (kv', y)
     \<and> cell_moved md p n (cell kv' y i) \<and> cell_out md p (Suc n) (cell kv' y i)"
proof -
  obtain st m where x: "x = (st, m)" by (cases x)
  note f = glob_fields [OF g [unfolded x] i]
  obtain a v where a: "kv_pasts kv ! i = Some a" "st_inputs st ! (kv_input_index kv + i) = Some a" "ovs m a = Some v" "kv_val md p n v" "filled v"
      "kv_presents kv ! i \<noteq> Some a"
    using P by (auto simp: cell_moved_def cell_def x)
  let ?q = "next_addr m"
  let ?w = "\<lparr>ov_type = cache_type md, ov_shape = cache_shape md p (Suc n), ov_data = replicate (GetElementCount (cache_shape md p (Suc n))) Uninit\<rparr>"
  let ?m1 = "m\<lparr>next_addr := Suc ?q, ovs := (ovs m)(?q \<mapsto> ?w)\<rparr>"
  let ?m = "release (kv_presents kv ! i) ?m1"
  let ?kv = "kv\<lparr>kv_presents := (kv_presents kv)[i := Some ?q]\<rparr>"
  let ?st = "st\<lparr>st_outputs := (st_outputs st)[kv_output_index kv + i := Some ?q]\<rparr>"
  have CT: "CreateTensor (kv_shape kv) (kv_type kv) m = Inr (?q, ?m1)"
    using CreateTensor_ok [OF pos] f c by simp
  have "KV_new_present i (kv, x) = Inr (?kv, ?st, ?m)"
    using f i CT by (simp add: KV_new_present_def x set_output_ok)
  moreover have an: "a < ?q" by (rule mem_ok_bound [OF f(8) a(3)])
  have pq: "kv_presents kv ! i \<noteq> Some ?q" using f(7) by (auto simp: cfp_def)
  have m1: "mem_ok ?m1" using f(8) by (auto simp: mem_ok_def)
  have kv': "?kv = kv\<lparr>kv_pasts := (kv_pasts kv)[i := Some a], kv_presents := (kv_presents kv)[i := Some ?q]\<rparr>"
    using a(1) list_update_id [of "kv_pasts kv" i] by simp
  have other: "ovs ?m b = ovs m b" if "b < ?q" "b \<notin> cfp i kv" for b
    using that release_other [of "kv_presents kv ! i" b ?m1] by (auto simp: cfp_def)
  have "cstep i (kv, x) (?kv, ?st, ?m)"
    using f i an mem_ok_release [OF m1, of "kv_presents kv ! i"] other a(1)
    by (intro cstepI [OF kv']) (auto simp: x cfp_def touches_def)
  moreover have "cell_moved md p n (cell ?kv (?st, ?m) i)" "cell_out md p (Suc n) (cell ?kv (?st, ?m) i)"
    using a f i an pq by (auto simp: cell_moved_def cell_out_def cell_def release_other kv_val_def value_ok_def)
  ultimately show ?thesis by blast
qed

lemma set_blocks: "set (blocks src w g n) \<subseteq> set src"
  by (auto simp: blocks_def dest: in_set_takeD in_set_dropD)

lemma cache_ok:
  assumes "decoder_ok md p"
  shows "cache_type md \<in> {ONNX_FLOAT, ONNX_FLOAT16}" "0 \<le> kv_heads md" "0 \<le> kv_head_size md" "1 \<le> layers md"
    "length (past_names md) = 2 * layers md" "length (present_names md) = 2 * layers md"
  using assms unfolding decoder_ok_def by blast+

lemma cache_shape_pos: "decoder_ok md p \<Longrightarrow> d \<in> set (cache_shape md p n) \<Longrightarrow> 0 \<le> d"
  using cache_ok(2,3) [of md p] by (auto simp: cache_shape_def rows_BatchBeamSize(1))

lemma cache_count:
  assumes "decoder_ok md p"
  shows "GetElementCount (cache_shape md p n) = rows p * GetElementCount (tl (cache_shape md p n))"
  using rows_BatchBeamSize(1) [OF assms] by (simp add: cache_shape_def)

lemma pick_step:
  assumes g: "kv_glob N (kv0, x0) (kv, x)" and i: "i < N" and P: "cell_ran md p n (cell kv x i)" and ok: "decoder_ok md p"
    and c: "kv_shape kv0 = cache_shape md p n" "kv_type kv0 = cache_type md"
    and idx: "beams_ok idx (rows p)" "idx \<noteq> []"
  shows "\<exists>kv' y. KV_update_past idx i (kv, x) = Inr (kv', y) \<and> cstep i (kv, x) (kv', y) \<and> cell_moved md p n (cell kv' y i)"
proof -
  obtain st m where x: "x = (st, m)" by (cases x)
  note f = glob_fields [OF g [unfolded x] i]
  obtain a v where a: "kv_presents kv ! i = Some a" "ovs m a = Some v" "kv_val md p n v" "filled v" "kv_pasts kv ! i \<noteq> Some a"
    using P by (auto simp: cell_ran_def cell_def x)
  let ?s = "cache_shape md p n" and ?q = "next_addr m"
  let ?b = "GetElementCount (tl ?s)"
  have t: "score_type (kv_type kv) = cache_type md" using cache_ok(1) [OF ok] f(3) c(2) by (auto simp: score_type_def)
  let ?blank = "replicate (rows p * ?b) Uninit"
  let ?d = "blocks (ov_data v) ?b (\<lambda>j. nat (idx ! j)) (rows p)"
  let ?w = "\<lparr>ov_type = cache_type md, ov_shape = ?s, ov_data = ?d\<rparr>"
  let ?m1 = "m\<lparr>next_addr := Suc ?q, ovs := (ovs m)(?q \<mapsto> ?w)\<rparr>"
  let ?m = "release (kv_pasts kv ! i) ?m1"
  let ?kv = "kv\<lparr>kv_pasts := (kv_pasts kv)[i := Some ?q]\<rparr>"
  let ?st = "st\<lparr>st_inputs := (st_inputs st)[kv_input_index kv + i := Some ?q]\<rparr>"
  have CT: "CreateTensor ?s (cache_type md) m = Inr (?q, m\<lparr>next_addr := Suc ?q, ovs := (ovs m)(?q \<mapsto>
      \<lparr>ov_type = cache_type md, ov_shape = ?s, ov_data = ?blank\<rparr>)\<rparr>)"
    by (subst CreateTensor_ok) (auto simp: cache_count [OF ok] cache_shape_pos [OF ok])
  have lv: "length (ov_data v) = rows p * ?b" using a(3) by (simp add: kv_val_def value_ok_def cache_count [OF ok])
  have pick: "pick_blocks ?b idx (ov_data v) ?blank = Inr ?d" using pick_blocks_ok [OF idx(1) lv] by simp
  have an: "a < ?q" by (rule mem_ok_bound [OF f(8) a(2)])
  have old: "kv_pasts kv ! i \<noteq> Some ?q" using f(7) by (auto simp: cfp_def)
  have PP: "KV_Cache_PickPastState idx i kv m = Inr (?kv, ?m)"
    using f c a i t CT pick lv
    by (simp add: KV_Cache_PickPastState_def Let_def deref_def set_data_def cache_count [OF ok])
  then have eq: "KV_update_past idx i (kv, x) = Inr (?kv, ?st, ?m)"
    using f i idx(2) by (simp add: KV_update_past_def x set_input_ok)
  have "length ?d = rows p * ?b"
    using beams_okD [OF idx(1)] by (intro length_blocks) (auto simp: lv intro: row_bound0)
  moreover have "\<forall>y\<in>set ?d. has_type (cache_type md) y"
    using a(3,4) set_blocks [of "ov_data v" ?b "\<lambda>j. nat (idx ! j)" "rows p"] by (auto simp: filled_def kv_val_def)
  ultimately have w: "kv_val md p n ?w" "filled ?w" by (simp_all add: kv_val_def filled_def value_ok_def cache_count [OF ok])
  have m1: "mem_ok ?m1" using f(8) by (auto simp: mem_ok_def)
  have kv': "?kv = kv\<lparr>kv_pasts := (kv_pasts kv)[i := Some ?q], kv_presents := (kv_presents kv)[i := Some a]\<rparr>"
    using a(1) list_update_id [of "kv_presents kv" i] by simp
  have other: "ovs ?m b = ovs m b" if "b < ?q" "b \<notin> cfp i kv" for b
    using that release_other [of "kv_pasts kv ! i" b ?m1] by (auto simp: cfp_def)
  have "cstep i (kv, x) (?kv, ?st, ?m)"
    using f i an mem_ok_release [OF m1, of "kv_pasts kv ! i"] other a(1)
    by (intro cstepI [OF kv']) (auto simp: x cfp_def touches_def)
  moreover have "cell_moved md p n (cell ?kv (?st, ?m) i)"
    using a f i an old w by (auto simp: cell_moved_def cell_def release_other)
  ultimately show ?thesis using eq by blast
qed

section \<open>The cache as a component\<close>

definition kv_base :: "'f Model \<Rightarrow> nat" where
  "kv_base md = 1 + ((if has_posid md then 1 else 0) + (if has_mask md then 1 else 0))"

abbreviation ntensors :: "'f Model \<Rightarrow> nat" where
  "ntensors md \<equiv> 2 * layers md"

definition kv_fp :: "KV_Cache \<Rightarrow> addr set" where
  "kv_fp kv = insert (kv_empty_past kv) (\<Union>i<length (kv_pasts kv). cfp i kv)"

definition kv_islots :: "'f Model \<Rightarrow> KV_Cache \<Rightarrow> nat set" where
  "kv_islots md kv = {kv_base md..<kv_base md + ntensors md}"

definition kv_oslots :: "'f Model \<Rightarrow> KV_Cache \<Rightarrow> nat set" where
  "kv_oslots md kv = {1..<1 + ntensors md}"

definition kv_upd :: "int list \<times> int list \<Rightarrow> nat \<Rightarrow> KV_Cache \<Rightarrow> 'f io \<Rightarrow> (KV_Cache \<times> 'f io) res" where
  "kv_upd g = KV_Cache_Update (snd g)"

text \<open>The fields that never change, and the separation of the cells.\<close>

definition kv_static :: "'f Model \<Rightarrow> KV_Cache \<Rightarrow> bool" where
  "kv_static md kv \<longleftrightarrow> kv_layer_count kv = layers md \<and> \<not> kv_share_buffer kv \<and> kv_type kv = cache_type md
     \<and> kv_input_index kv = kv_base md \<and> kv_output_index kv = 1
     \<and> length (kv_pasts kv) = ntensors md \<and> length (kv_presents kv) = ntensors md"

definition kv_apart :: "'f Model \<Rightarrow> KV_Cache \<Rightarrow> nat \<Rightarrow> bool" where
  "kv_apart md kv bound \<longleftrightarrow> kv_empty_past kv < bound \<and> (\<forall>i<ntensors md. kv_empty_past kv \<notin> cfp i kv) \<and> (\<forall>i<ntensors md. cfp i kv \<subseteq> {..<bound})
     \<and> (\<forall>i<ntensors md. \<forall>j<ntensors md. i \<noteq> j \<longrightarrow> cfp i kv \<inter> cfp j kv = {})"

definition empty_val :: "'f Model \<Rightarrow> ('f, 't) GeneratorParams \<Rightarrow> 'f mem \<Rightarrow> addr \<Rightarrow> bool" where
  "empty_val md p m a \<longleftrightarrow> (\<exists>v. ovs m a = Some v \<and> kv_val md p 0 v \<and> filled v)"

definition past_ok :: "'f Model \<Rightarrow> ('f, 't) GeneratorParams \<Rightarrow> nat \<Rightarrow> addr \<Rightarrow> 'f cell \<Rightarrow> bool" where
  "past_ok md p n e c \<longleftrightarrow> (if n = seq_len p then c_past c = None \<and> c_in c = Some e else cell_moved md p (n - 1) c)"

definition kv_ready :: "'f Model \<Rightarrow> ('f, addr) GeneratorParams \<Rightarrow> nat \<Rightarrow> KV_Cache \<Rightarrow> 'f io \<Rightarrow> bool" where
  "kv_ready md p n kv x \<longleftrightarrow> decoder_ok md p \<and> seq_len p \<le> n \<and> kv_static md kv \<and> kv_shape kv = cache_shape md p n
     \<and> kv_apart md kv (next_addr (snd x)) \<and> (n = seq_len p \<longrightarrow> empty_val md p (snd x) (kv_empty_past kv))
     \<and> (\<forall>i<ntensors md. st_input_names (fst x) ! (kv_base md + i) = past_names md ! i)
     \<and> (\<forall>i<ntensors md. st_output_names (fst x) ! (1 + i) = present_names md ! i)
     \<and> (\<forall>i<ntensors md. past_ok md p n (kv_empty_past kv) (cell kv x i) \<and> cell_out md p n (cell kv x i))"

definition kv_ran :: "'f Model \<Rightarrow> ('f, addr) GeneratorParams \<Rightarrow> nat \<Rightarrow> KV_Cache \<Rightarrow> 'f io \<Rightarrow> bool" where
  "kv_ran md p n kv x \<longleftrightarrow> kv_ready md p n kv x \<and> (\<forall>i<ntensors md. \<forall>v. c_present_val (cell kv x i) = Some v \<longrightarrow> filled v)"

lemma ran_ready: "kv_ran md p n kv x \<Longrightarrow> kv_ready md p n kv x"
  by (simp add: kv_ran_def)

lemma cell_agrees:
  assumes st: "kv_static md kv" and a: "agrees (kv_fp kv) (kv_islots md kv) (kv_oslots md kv) x y" and i: "i < ntensors md"
  shows "cell kv y i = cell kv x i"
proof -
  obtain u m u' m' where xy: "x = (u, m)" "y = (u', m')" by (cases x, cases y)
  have "cfp i kv \<subseteq> kv_fp kv" using i st by (auto simp: kv_fp_def kv_static_def)
  then have "ovs m' b = ovs m b" if "b \<in> cfp i kv" for b using a that by (auto simp: agrees_def xy)
  then have "val_at m' (kv_pasts kv ! i) = val_at m (kv_pasts kv ! i)" "val_at m' (kv_presents kv ! i) = val_at m (kv_presents kv ! i)"
    by (auto intro!: val_at_agrees simp: cfp_def)
  moreover have "st_inputs u' ! (kv_input_index kv + i) = st_inputs u ! (kv_input_index kv + i)"
    "st_outputs u' ! (kv_output_index kv + i) = st_outputs u ! (kv_output_index kv + i)"
    using a i st by (auto simp: agrees_def xy kv_islots_def kv_oslots_def kv_static_def)
  ultimately show ?thesis by (simp add: cell_def xy)
qed

lemma kv_frame:
  assumes inv: "kv_ready md p n kv x" and a: "agrees (kv_fp kv) (kv_islots md kv) (kv_oslots md kv) x y"
  shows "kv_ready md p n kv y"
proof -
  have st: "kv_static md kv" using inv by (simp add: kv_ready_def)
  have lim: "next_addr (snd x) \<le> next_addr (snd y)" and e: "ovs (snd y) (kv_empty_past kv) = ovs (snd x) (kv_empty_past kv)"
    and nm: "st_input_names (fst y) = st_input_names (fst x)" "st_output_names (fst y) = st_output_names (fst x)"
    using a by (cases x; cases y; simp add: agrees_def kv_fp_def)+
  have "kv_apart md kv (next_addr (snd y))" using inv lim by (fastforce simp: kv_ready_def kv_apart_def)
  then show ?thesis using inv e nm cell_agrees [OF st a] by (simp add: kv_ready_def empty_val_def)
qed

lemma kv_ran_frame:
  assumes "kv_ran md p n kv x" and "agrees (kv_fp kv) (kv_islots md kv) (kv_oslots md kv) x y"
  shows "kv_ran md p n kv y"
proof -
  have "kv_static md kv" using assms(1) by (simp add: kv_ran_def kv_ready_def)
  then show ?thesis using assms kv_frame [of md p n kv x y] cell_agrees [of md kv x y] by (simp add: kv_ran_def)
qed

lemma kv_bound: "kv_ready md p n kv x \<Longrightarrow> kv_fp kv \<subseteq> {..<next_addr (snd x)}"
  by (auto simp: kv_ready_def kv_apart_def kv_fp_def kv_static_def)

text \<open>After a run every cell can be moved.\<close>

lemma ran_cell:
  assumes "kv_ran md p n kv x" and "i < ntensors md"
  shows "cell_ran md p n (cell kv x i)"
proof -
  have c: "past_ok md p n (kv_empty_past kv) (cell kv x i)" "cell_out md p n (cell kv x i)"
    "\<forall>v. c_present_val (cell kv x i) = Some v \<longrightarrow> filled v" using assms by (auto simp: kv_ran_def kv_ready_def)
  then show ?thesis by (auto simp: cell_ran_def cell_out_def past_ok_def cell_moved_def split: if_splits)
qed

lemma ran_glob:
  assumes inv: "kv_ready md p n kv x" and m: "mem_ok (snd x)"
    and i: "\<And>i. i \<in> kv_islots md kv \<Longrightarrow> i < length (st_inputs (fst x))" and o: "\<And>i. i \<in> kv_oslots md kv \<Longrightarrow> i < length (st_outputs (fst x))"
  shows "kv_glob (ntensors md) (kv, x) (kv, x)"
proof -
  have st: "kv_static md kv" and ap: "kv_apart md kv (next_addr (snd x))" and l: "1 \<le> layers md"
    using inv cache_ok(4) [of md p] by (auto simp: kv_ready_def)
  have "kv_base md + ntensors md - 1 \<in> kv_islots md kv" "1 + ntensors md - 1 \<in> kv_oslots md kv" using l by (auto simp: kv_islots_def kv_oslots_def)
  then have "kv_base md + ntensors md \<le> length (st_inputs (fst x))" "1 + ntensors md \<le> length (st_outputs (fst x))"
    using i [of "kv_base md + ntensors md - 1"] o [of "1 + ntensors md - 1"] l by linarith+
  then show ?thesis
    using st ap m touches_refl [OF m] unfolding kv_glob_def prod.case kv_apart_def kv_static_def
    by (intro conjI exI [of _ "kv_pasts kv"] exI [of _ "kv_presents kv"]) auto
qed

lemma cell_shape [simp]: "cell (kv\<lparr>kv_shape := sh\<rparr>) x i = cell kv x i" "cfp i (kv\<lparr>kv_shape := sh\<rparr>) = cfp i kv"
  by (cases x; simp add: cell_def cfp_def)+

text \<open>The loop over the past tensors, with and without beam indices.\<close>

lemma past_loop:
  assumes inv: "kv_ran md p n kv x" and glob: "kv_glob (ntensors md) (kv, x) (kv, x)" and idx: "idx = [] \<or> beams_ok idx (rows p)"
  shows "\<exists>kv1 x1. for_res (KV_update_past idx) [0..<ntensors md] (kv, x) = Inr (kv1, x1)
     \<and> kv_glob (ntensors md) (kv, x) (kv1, x1) \<and> (\<forall>i<ntensors md. cell_moved md p n (cell kv1 x1 i))"
proof -
  have r: "decoder_ok md p" "kv_shape kv = cache_shape md p n" "kv_type kv = cache_type md"
    using inv by (auto simp: kv_ran_def kv_ready_def kv_static_def)
  have step: "\<exists>kv'' y'. KV_update_past idx i (kv', y) = Inr (kv'', y') \<and> cstep i (kv', y) (kv'', y') \<and> cell_moved md p n (cell kv'' y' i)"
    if "i < ntensors md" "kv_glob (ntensors md) (kv, x) (kv', y)" "cell_ran md p n (cell kv' y i)" for i kv' and y :: "'a io"
  proof (cases "idx = []")
    case True
    then show ?thesis using move_step [OF that(2,1,3)] by simp
  next
    case False
    then show ?thesis using pick_step [OF that(2,1,3) r _ False] idx by blast
  qed
  show ?thesis by (rule cells_loop [OF glob, of "cell_ran md p n"]) (use ran_cell [OF inv] step in auto)
qed

lemma subset_via: "A \<subseteq> B \<union> C \<Longrightarrow> C \<subseteq> D \<Longrightarrow> B \<subseteq> E \<union> D \<Longrightarrow> A \<subseteq> E \<union> D"
  by blast

lemma kv_update:
  assumes inv: "kv_ran md p n kv x" and m: "mem_ok (snd x)" and g: "good_args p g"
    and i: "\<And>i. i \<in> kv_islots md kv \<Longrightarrow> i < length (st_inputs (fst x))" and o: "\<And>i. i \<in> kv_oslots md kv \<Longrightarrow> i < length (st_outputs (fst x))"
  shows "\<exists>kv' y. kv_upd g (Suc n) kv x = Inr (kv', y) \<and> kv_ready md p (Suc n) kv' y
     \<and> kv_fp kv' \<subseteq> kv_fp kv \<union> {next_addr (snd x)..} \<and> touches (kv_fp kv) (kv_islots md kv) (kv_oslots md kv) x y"
proof -
  let ?N = "ntensors md"
  have r: "kv_ready md p n kv x" and ok: "decoder_ok md p" and st: "kv_static md kv" and sl: "seq_len p \<le> n"
    and sh: "kv_shape kv = cache_shape md p n" and ap: "kv_apart md kv (next_addr (snd x))"
    using inv by (auto simp: kv_ran_def kv_ready_def)
  have idx: "snd g = [] \<or> beams_ok (snd g) (rows p)"
    using g rows_BatchBeamSize(1) [OF ok]
    by (auto simp: good_args_def run_args_ok_def beams_ok_def nat_less_iff zless_nat_eq_int_zless split: if_splits)
  obtain kv1 x1 where l1: "for_res (KV_update_past (snd g)) [0..<?N] (kv, x) = Inr (kv1, x1)"
      "kv_glob ?N (kv, x) (kv1, x1)" "\<forall>i<?N. cell_moved md p n (cell kv1 x1 i)"
    using past_loop [OF inv ran_glob [OF r m i o] idx] by blast
  obtain ps qs where kv1: "kv1 = kv\<lparr>kv_pasts := ps, kv_presents := qs\<rparr>" "length ps = ?N" "length qs = ?N"
    using l1(2) by (auto simp: kv_glob_def)
  let ?kv1 = "kv1\<lparr>kv_shape := cache_shape md p (Suc n)\<rparr>"
  have sh1: "(kv_shape kv1)[2 := int (Suc n)] = cache_shape md p (Suc n)" by (simp add: kv1(1) sh cache_shape_def)
  have G: "kv_glob ?N (?kv1, x1) (?kv1, x1)"
    using l1(2) touches_refl [of x1] kv1 unfolding kv_glob_def prod.case by (intro conjI exI [of _ ps] exI [of _ qs]) auto
  have T: "kv_shape ?kv1 = cache_shape md p (Suc n)" "kv_type ?kv1 = cache_type md" using st by (simp_all add: kv1(1) kv_static_def)
  obtain kv2 x2 where l2: "for_res KV_new_present [0..<?N] (?kv1, x1) = Inr (kv2, x2)" "kv_glob ?N (?kv1, x1) (kv2, x2)"
      "\<forall>i<?N. cell_moved md p n (cell kv2 x2 i) \<and> cell_out md p (Suc n) (cell kv2 x2 i)"
    using cells_loop [OF G, of "cell_moved md p n" KV_new_present "\<lambda>c. cell_moved md p n c \<and> cell_out md p (Suc n) c"]
      l1(3) new_step [OF _ _ _ T cache_shape_pos [OF ok]] by auto
  obtain ps2 qs2 where kv2: "kv2 = ?kv1\<lparr>kv_pasts := ps2, kv_presents := qs2\<rparr>" "length ps2 = ?N" "length qs2 = ?N"
    using l2(2) by (auto simp: kv_glob_def)
  have b: "kv_input_index kv = kv_base md" "kv_output_index kv = 1" "length (kv_pasts kv) = ?N" using st by (simp_all add: kv_static_def)
  have t1: "touches (\<Union>i<?N. cfp i kv) (kv_islots md kv) (kv_oslots md kv) x x1"
    using l1(2) by (simp add: kv_glob_def kv_islots_def kv_oslots_def b)
  have c1: "\<forall>i<?N. cfp i kv1 \<subseteq> cfp i kv \<union> {next_addr (snd x)..}" using l1(2) by (simp add: kv_glob_def)
  have t2: "touches (\<Union>i<?N. cfp i kv1) (kv_islots md kv) (kv_oslots md kv) x1 x2"
    using l2(2) by (simp add: kv_glob_def kv_islots_def kv_oslots_def b kv1(1))
  have t: "touches (\<Union>i<?N. cfp i kv) (kv_islots md kv) (kv_oslots md kv) x x2"
    by (rule touches_trans_fresh [OF t1 t2]) (use c1 in auto)
  have c2: "cfp i kv2 \<subseteq> cfp i kv \<union> {next_addr (snd x)..}" if "i < ?N" for i
  proof -
    have "cfp i kv2 \<subseteq> cfp i kv1 \<union> {next_addr (snd x1)..}" using l2(2) that unfolding kv_glob_def prod.case cell_shape by blast
    moreover have "{next_addr (snd x1)..} \<subseteq> {next_addr (snd x)..}" using touches_grows [OF t1] by simp
    moreover have "cfp i kv1 \<subseteq> cfp i kv \<union> {next_addr (snd x)..}" using c1 that by simp
    ultimately show ?thesis by (rule subset_via)
  qed
  have e: "kv_empty_past kv2 = kv_empty_past kv" by (simp add: kv2(1) kv1(1))
  have "kv_apart md kv2 (next_addr (snd x2))"
  proof -
    have "kv_empty_past kv < next_addr (snd x)" "\<forall>i<?N. kv_empty_past kv \<notin> cfp i kv" using ap by (simp_all add: kv_apart_def)
    then have "kv_empty_past kv < next_addr (snd x2)" "\<forall>i<?N. kv_empty_past kv \<notin> cfp i kv2"
      using c2 touches_grows [OF t] by (linarith, fastforce)
    then show ?thesis using l2(2) unfolding kv_apart_def e by (simp add: kv_glob_def)
  qed
  moreover have "kv_static md kv2" "kv_shape kv2 = cache_shape md p (Suc n)" using st kv2 kv1 by (simp_all add: kv_static_def)
  moreover have "st_input_names (fst x2) = st_input_names (fst x)" "st_output_names (fst x2) = st_output_names (fst x)"
    using t by (cases x; cases x2; simp add: touches_def)+
  ultimately have "kv_ready md p (Suc n) kv2 x2" using r l2(3) ok sl by (simp add: kv_ready_def past_ok_def)
  moreover have "kv_upd g (Suc n) kv x = Inr (kv2, x2)"
    using l1(1) l2(1) st by (simp add: kv_upd_def KV_Cache_Update_def kv_static_def mult.commute sh1 del: of_nat_Suc)
  moreover have "kv_fp kv2 \<subseteq> kv_fp kv \<union> {next_addr (snd x)..}"
    using c2 b(3) kv2(2) unfolding kv_fp_def e by (fastforce simp: kv2(1))
  moreover have "touches (kv_fp kv) (kv_islots md kv) (kv_oslots md kv) x x2"
    by (rule touches_mono [OF t]) (auto simp: kv_fp_def b)
  ultimately show ?thesis by blast
qed

lemma kv_run:
  assumes inv: "kv_ready md p n kv x" and w: "session_wrote x y"
    and own: "\<And>a. a \<in> kv_fp kv \<Longrightarrow> Some a \<in> set (st_outputs (fst x)) \<Longrightarrow> \<exists>i\<in>kv_oslots md kv. st_outputs (fst x) ! i = Some a"
    and o: "\<And>i. i \<in> kv_oslots md kv \<Longrightarrow> i < length (st_outputs (fst x))"
  shows "kv_ran md p n kv y"
proof -
  obtain u m u' m' where xy: "x = (u, m)" "y = (u', m')" by (cases x, cases y)
  have st: "kv_static md kv" and ap: "kv_apart md kv (next_addr m)" using inv by (auto simp: kv_ready_def xy)
  have b: "kv_output_index kv = 1" "length (kv_pasts kv) = ntensors md" using st by (simp_all add: kv_static_def)
  have same: "st_inputs u' = st_inputs u" "st_outputs u' = st_outputs u" "st_input_names u' = st_input_names u"
    "st_output_names u' = st_output_names u" "next_addr m' = next_addr m"
    "\<And>a. Some a \<notin> set (st_outputs u) \<Longrightarrow> ovs m' a = ovs m a" using w by (auto simp: session_wrote_def xy)
  have pres: "\<exists>a. kv_presents kv ! i = Some a \<and> st_outputs u ! (1 + i) = Some a \<and> a \<in> cfp i kv" if "i < ntensors md" for i
    using inv that b by (force simp: kv_ready_def cell_out_def cell_def xy cfp_def)
  have oslot: "\<exists>j<ntensors md. i = Suc j" if "i \<in> kv_oslots md kv" for i
    using that by (intro exI [of _ "i - 1"]) (auto simp: kv_oslots_def)
  text \<open>The outputs among the tensors of a cell are its present tensor.\<close>
  have outs: "kv_presents kv ! i = Some a" if h: "i < ntensors md" "a \<in> cfp i kv" "Some a \<in> set (st_outputs u)" for i a
  proof -
    have "a \<in> kv_fp kv" using h b by (auto simp: kv_fp_def)
    then obtain j where "j < ntensors md" "st_outputs u ! (1 + j) = Some a"
      using own [of a] h(3) by (auto simp: xy dest!: oslot)
    moreover from this obtain "kv_presents kv ! j = Some a" "a \<in> cfp j kv" using pres [of j] by auto
    moreover have "j = i" if "a \<in> cfp j kv" "j < ntensors md"
      using ap that h(1,2) unfolding kv_apart_def by (metis disjoint_iff)
    ultimately show ?thesis by blast
  qed
  have e: "ovs m' (kv_empty_past kv) = ovs m (kv_empty_past kv)"
  proof (rule same(6), rule notI)
    assume o': "Some (kv_empty_past kv) \<in> set (st_outputs u)"
    then obtain j where "j < ntensors md" "st_outputs u ! (1 + j) = Some (kv_empty_past kv)"
      using own [of "kv_empty_past kv"] by (auto simp: xy kv_fp_def dest!: oslot)
    then show False using pres [of j] ap by (auto simp: kv_apart_def)
  qed
  have cell: "past_ok md p n (kv_empty_past kv) (cell kv y i) \<and> cell_out md p n (cell kv y i)
      \<and> (\<forall>v. c_present_val (cell kv y i) = Some v \<longrightarrow> filled v)" if i: "i < ntensors md" for i
  proof -
    have c: "past_ok md p n (kv_empty_past kv) (cell kv x i)" "cell_out md p n (cell kv x i)" using inv i by (auto simp: kv_ready_def)
    obtain a v where a: "kv_presents kv ! i = Some a" "st_outputs u ! (1 + i) = Some a" "ovs m a = Some v" "kv_val md p n v"
      using c(2) b by (auto simp: cell_out_def cell_def xy)
    have "Some a \<in> set (st_outputs u)" using a(2) o [of "1 + i"] i by (metis fst_conv xy(1) nth_mem kv_oslots_def atLeastLessThan_iff le_add1 nat_add_left_cancel_less)
    then obtain d where d: "ovs m' a = Some (v\<lparr>ov_data := d\<rparr>)" "filled (v\<lparr>ov_data := d\<rparr>)"
      using w a(3,4) unfolding session_wrote_def xy kv_val_def by blast
    have p: "val_at m' (kv_pasts kv ! i) = val_at m (kv_pasts kv ! i)" if "kv_pasts kv ! i \<noteq> Some a"
    proof (rule val_at_agrees)
      fix b assume "b \<in> set_option (kv_pasts kv ! i)"
      then show "ovs m' b = ovs m b" using outs [OF i, of b] that a(1) by (intro same(6)) (auto simp: cfp_def)
    qed
    show ?thesis
      using c a d p by (auto simp: past_ok_def cell_moved_def cell_out_def cell_def xy same kv_val_def filled_def value_ok_def split: if_splits)
  qed
  show ?thesis using inv e cell by (simp add: kv_ran_def kv_ready_def xy same empty_val_def)
qed

interpretation kv: io_component "kv_ready md p" "kv_ran md p" "kv_ran md p" kv_fp "kv_islots md" "kv_oslots md"
  kv_upd "good_args p" "expect_in md p ex" "expect_out md p"
  for md p ex
proof
  fix n kv st and m :: "'a mem" and i
  assume inv: "kv_ready md p n kv (st, m)"
  have ok: "decoder_ok md p" and b: "kv_input_index kv = kv_base md" "kv_output_index kv = 1" "length (kv_pasts kv) = ntensors md"
    using inv by (auto simp: kv_ready_def kv_static_def)
  note len = cache_ok(5,6) [OF ok]
  show "\<exists>a v. st_inputs st ! i = Some a \<and> ovs m a = Some v \<and> expect_in md p ex n i (st_input_names st ! i, v)" if h: "i \<in> kv_islots md kv"
  proof -
    obtain k where k: "i = kv_base md + k" "k < ntensors md" 
      using h by (intro that [of "i - kv_base md"]) (auto simp: kv_islots_def)
    have "in_slots md p ex n ! i = past_slots md p n ! k" "i < length (in_slots md p ex n)"
      using k len by (simp_all add: in_slots_def nth_append length_in_slots_base kv_base_def)
    then show ?thesis
      using inv k len b unfolding kv_ready_def
      by (auto simp: expect_in_def past_slots_def past_ok_def cell_moved_def cell_def kv_val_def empty_val_def split: if_splits)
  qed
  show "\<exists>a v. a \<in> kv_fp kv \<and> st_outputs st ! i = Some a \<and> ovs m a = Some v \<and> value_ok v \<and> expect_out md p n i (st_output_names st ! i, v)"
    if h: "i \<in> kv_oslots md kv"
  proof -
    obtain k where k: "i = 1 + k" "k < ntensors md" 
      using h by (intro that [of "i - 1"]) (auto simp: kv_oslots_def)
    have "out_slots md p n ! i = present_slots md p n ! k" "i < length (out_slots md p n)"
      using k len by (simp_all add: out_slots_def nth_append logits_slots_def present_slots_def Let_def)
    then show ?thesis
      using inv k len b unfolding kv_ready_def
      by (fastforce simp: expect_out_def present_slots_def cell_out_def cell_def kv_val_def kv_fp_def cfp_def)
  qed
next
  fix n kv and x :: "'a io" and g
  assume "kv_ran md p n kv x" "mem_ok (snd x)" "good_args p g" "\<And>i. i \<in> kv_islots md kv \<Longrightarrow> i < length (st_inputs (fst x))"
    "\<And>i. i \<in> kv_oslots md kv \<Longrightarrow> i < length (st_outputs (fst x))"
  then show "\<exists>s' y. kv_upd g (Suc n) kv x = Inr (s', y) \<and> kv_ready md p (Suc n) s' y
        \<and> kv_fp s' \<subseteq> kv_fp kv \<union> {next_addr (snd x)..} \<and> kv_islots md s' = kv_islots md kv
        \<and> kv_oslots md s' = kv_oslots md kv \<and> touches (kv_fp kv) (kv_islots md kv) (kv_oslots md kv) x y"
    using kv_update [of md p n kv x g] by (auto simp: kv_islots_def kv_oslots_def)
qed (erule (1) kv_frame kv_ran_frame | erule kv_bound kv_bound [OF ran_ready] | rule kv_run; assumption)+

end
