(* ===== verification/LogitsLaws.thy ===== *)
theory LogitsLaws
  imports CacheLaws
begin

text \<open>
  \<open>Logits\<close> follows the contract of a component. Its cycle has one more state than that of the inputs: the run
  fills the raw tensor, \<open>Get\<close> turns it into one row of scores per beam (the row of the last token of the
  prompt, in single precision, with the end-of-sequence ids merged), and only then the update makes the
  tensor of the next run.
\<close>

section \<open>The states of the cycle\<close>

abbreviation logits_name :: "'f Model \<Rightarrow> string" where
  "logits_name md \<equiv> do_logits (dec_outputs md)"

definition run_len :: "('f, 't) GeneratorParams \<Rightarrow> nat \<Rightarrow> int" where
  "run_len p n = (if n = seq_len p then sequence_length p else 1)"

definition lg_fp :: "Logits \<Rightarrow> addr set" where
  "lg_fp lg = insert (lg_raw lg) (set_option (lg_last_tokens lg))"

definition raw_ok :: "'f Model \<Rightarrow> ('f, 't) GeneratorParams \<Rightarrow> nat \<Rightarrow> 'f OrtValue \<Rightarrow> bool" where
  "raw_ok md p n v \<longleftrightarrow> ov_type v = output_type md (logits_name md)
     \<and> ov_shape v = [int (rows p), run_len p n, vocab_size p] \<and> value_ok v"

definition lg_base :: "'f Model \<Rightarrow> ('f, addr) GeneratorParams \<Rightarrow> nat \<Rightarrow> Logits \<Rightarrow> 'f io \<Rightarrow> bool" where
  "lg_base md p n lg = (\<lambda>(st, m).
     decoder_ok md p \<and> seq_len p \<le> n \<and> lg_index lg = 0 \<and> lg_type lg = output_type md (logits_name md)
     \<and> lg_raw lg < next_addr m \<and> st_outputs st ! 0 = Some (lg_raw lg) \<and> st_output_names st ! 0 = logits_name md
     \<and> (\<forall>q\<in>set_option (lg_last_tokens lg). q \<noteq> lg_raw lg \<and> q < next_addr m)
     \<and> (\<exists>v. ovs m (lg_raw lg) = Some v \<and> raw_ok md p n v))"

definition lg_ready :: "'f Model \<Rightarrow> ('f, addr) GeneratorParams \<Rightarrow> nat \<Rightarrow> Logits \<Rightarrow> 'f io \<Rightarrow> bool" where
  "lg_ready md p n lg x \<longleftrightarrow> lg_base md p n lg x \<and> lg_shape lg = [int (rows p), run_len p n, vocab_size p]"

definition lg_ran :: "'f Model \<Rightarrow> ('f, addr) GeneratorParams \<Rightarrow> nat \<Rightarrow> Logits \<Rightarrow> 'f io \<Rightarrow> bool" where
  "lg_ran md p n lg x \<longleftrightarrow> lg_ready md p n lg x \<and> (\<forall>v. ovs (snd x) (lg_raw lg) = Some v \<longrightarrow> filled v)"

definition lg_rested :: "'f Model \<Rightarrow> ('f, addr) GeneratorParams \<Rightarrow> nat \<Rightarrow> Logits \<Rightarrow> 'f io \<Rightarrow> bool" where
  "lg_rested md p n lg x \<longleftrightarrow> lg_base md p n lg x \<and> lg_shape lg = [int (rows p), 1, vocab_size p]"

definition lg_upd :: "int list \<times> int list \<Rightarrow> nat \<Rightarrow> Logits \<Rightarrow> 'f io \<Rightarrow> (Logits \<times> 'f io) res" where
  "lg_upd g current_length lg io = Logits_Update lg io"

lemma vocab_pos: "decoder_ok md p \<Longrightarrow> 0 \<le> vocab_size p"
  unfolding decoder_ok_def by linarith

section \<open>The update\<close>

lemma lg_frame:
  assumes "lg_base md p n lg x" and "agrees (lg_fp lg) {} {0} x y"
  shows "lg_base md p n lg y"
  using assms by (cases x; cases y) (fastforce simp: lg_base_def agrees_def lg_fp_def)

lemma lg_bound: "lg_base md p n lg x \<Longrightarrow> lg_fp lg \<subseteq> {..<next_addr (snd x)}"
  by (cases x) (auto simp: lg_base_def lg_fp_def)

lemma lg_run:
  assumes inv: "lg_ready md p n lg x" and w: "session_wrote x y" and o: "0 < length (st_outputs (fst x))"
  shows "lg_ran md p n lg y"
proof -
  obtain st m st' m' where xy: "x = (st, m)" "y = (st', m')" by (cases x, cases y)
  obtain v where v: "ovs m (lg_raw lg) = Some v" "raw_ok md p n v" and s: "st_outputs st ! 0 = Some (lg_raw lg)"
    using inv by (auto simp: lg_ready_def lg_base_def xy)
  have "Some (lg_raw lg) \<in> set (st_outputs st)" using s o by (metis fst_conv nth_mem xy(1))
  then obtain d where d: "ovs m' (lg_raw lg) = Some (v\<lparr>ov_data := d\<rparr>)" "filled (v\<lparr>ov_data := d\<rparr>)"
    using w v unfolding session_wrote_def xy raw_ok_def by blast
  have "raw_ok md p n (v\<lparr>ov_data := d\<rparr>)" using v(2) d(2) by (simp add: raw_ok_def filled_def)
  moreover have "next_addr m' = next_addr m" "st_outputs st' = st_outputs st" "st_output_names st' = st_output_names st"
    using w by (simp_all add: session_wrote_def xy)
  ultimately show ?thesis using inv d by (simp add: lg_ran_def lg_ready_def lg_base_def xy)
qed

lemma lg_update:
  assumes inv: "lg_rested md p n lg x" and m: "mem_ok (snd x)" and o: "0 < length (st_outputs (fst x))"
  shows "\<exists>lg' y. lg_upd g (Suc n) lg x = Inr (lg', y) \<and> lg_ready md p (Suc n) lg' y
     \<and> lg_fp lg' \<subseteq> lg_fp lg \<union> {next_addr (snd x)..} \<and> touches (lg_fp lg) {} {0} x y"
proof -
  obtain st m where x: "x = (st, m)" by (cases x)
  have mo: "mem_ok m" and ol: "0 < length (st_outputs st)" using m o by (simp_all add: x)
  have ok: "decoder_ok md p" and sl: "seq_len p \<le> n" using inv by (simp_all add: lg_rested_def lg_base_def x)
  obtain v where v: "ovs m (lg_raw lg) = Some v" "raw_ok md p n v" using inv by (auto simp: lg_rested_def lg_base_def x)
  have next_len: "run_len p (Suc n) = 1" using sl by (simp add: run_len_def)
  show ?thesis
  proof (cases "run_len p n = 1")
    case True
    then have "raw_ok md p (Suc n) v" using v(2) next_len by (simp add: raw_ok_def)
    then have "lg_ready md p (Suc n) lg x" using inv next_len v(1) by (simp add: lg_rested_def lg_ready_def lg_base_def x)
    moreover have "lg_upd g (Suc n) lg x = Inr (lg, x)" using v True by (simp add: lg_upd_def Logits_Update_def x deref_ok raw_ok_def)
    ultimately show ?thesis using touches_refl [OF m] by auto
  next
    case False
    let ?new = "\<lparr>ov_type = lg_type lg, ov_shape = lg_shape lg, ov_data = replicate (GetElementCount (lg_shape lg)) Uninit\<rparr>"
    let ?m = "(m\<lparr>next_addr := Suc (next_addr m), ovs := (ovs m)(next_addr m \<mapsto> ?new)\<rparr>)\<lparr>ovs := ((ovs m)(next_addr m \<mapsto> ?new))(lg_raw lg := None)\<rparr>"
    let ?st = "st\<lparr>st_outputs := (st_outputs st)[0 := Some (next_addr m)]\<rparr>" and ?lg = "lg\<lparr>lg_raw := next_addr m\<rparr>"
    have r: "lg_raw lg < next_addr m" "lg_index lg = 0" "lg_shape lg = [int (rows p), 1, vocab_size p]"
      "lg_type lg = output_type md (logits_name md)" "st_output_names st ! 0 = logits_name md"
      using inv by (auto simp: lg_rested_def lg_base_def x)
    have CT: "CreateTensor (lg_shape lg) (lg_type lg) m = Inr (next_addr m, m\<lparr>next_addr := Suc (next_addr m), ovs := (ovs m)(next_addr m \<mapsto> ?new)\<rparr>)"
      using vocab_pos [OF ok] r(3) by (intro CreateTensor_ok) auto
    have "lg_upd g (Suc n) lg x = Inr (?lg, ?st, ?m)"
      using v False CT r(2) ol by (simp add: lg_upd_def Logits_Update_def x deref_ok raw_ok_def set_output_ok free_def)
    moreover have "raw_ok md p (Suc n) ?new" using r next_len by (simp add: raw_ok_def value_ok_def)
    then have "lg_base md p (Suc n) ?lg (?st, ?m)"
      using inv r ok ol by (fastforce simp: lg_rested_def lg_base_def x)
    then have "lg_ready md p (Suc n) ?lg (?st, ?m)" using r next_len by (simp add: lg_ready_def)
    moreover have "touches (lg_fp lg) {} {0} x (?st, ?m)" using mo by (auto simp: touches_def x lg_fp_def mem_ok_def)
    ultimately show ?thesis by (auto simp: lg_fp_def x)
  qed
qed

interpretation lg: io_component "lg_ready md p" "lg_ran md p" "lg_rested md p" lg_fp "\<lambda>lg. {}" "\<lambda>lg. {0}"
  lg_upd "good_args p" "expect_in md p ex" "expect_out md p"
  for md p ex
proof
  fix n lg and x y :: "'a io"
  assume a: "agrees (lg_fp lg) {} {0} x y"
  show "lg_ready md p n lg x \<Longrightarrow> lg_ready md p n lg y" using lg_frame [OF _ a] by (simp add: lg_ready_def)
  show "lg_rested md p n lg x \<Longrightarrow> lg_rested md p n lg y" using lg_frame [OF _ a] by (simp add: lg_rested_def)
  have "ovs (snd y) (lg_raw lg) = ovs (snd x) (lg_raw lg)" using a by (cases x; cases y) (simp add: agrees_def lg_fp_def)
  then show "lg_ran md p n lg x \<Longrightarrow> lg_ran md p n lg y" using lg_frame [OF _ a] by (simp add: lg_ran_def lg_ready_def)
next
  fix n lg and x :: "'a io"
  show "lg_ready md p n lg x \<Longrightarrow> lg_fp lg \<subseteq> {..<next_addr (snd x)}" using lg_bound [of md p n lg x] by (simp add: lg_ready_def)
  show "lg_ran md p n lg x \<Longrightarrow> lg_fp lg \<subseteq> {..<next_addr (snd x)}" using lg_bound [of md p n lg x] by (simp add: lg_ready_def lg_ran_def)
  show "lg_rested md p n lg x \<Longrightarrow> lg_fp lg \<subseteq> {..<next_addr (snd x)}" using lg_bound [of md p n lg x] by (simp add: lg_rested_def)
next
  fix n lg st and m :: "'a mem" and i :: nat
  assume inv: "lg_ready md p n lg (st, m)" and i: "i \<in> {0}"
  have "BatchBeamSize p = int (rows p)" using inv rows_BatchBeamSize(1) [of md p] by (simp add: lg_ready_def lg_base_def)
  then show "\<exists>a v. a \<in> lg_fp lg \<and> st_outputs st ! i = Some a \<and> ovs m a = Some v \<and> value_ok v \<and> expect_out md p n i (st_output_names st ! i, v)"
    using inv i by (auto simp: lg_ready_def lg_base_def lg_fp_def expect_out_def out_slots_def logits_slots_def raw_ok_def run_len_def Let_def)
next
  fix n lg and x y :: "'a io"
  assume "lg_ready md p n lg x" "session_wrote x y" "\<And>i. i \<in> {0} \<Longrightarrow> i < length (st_outputs (fst x))"
  then show "lg_ran md p n lg y" using lg_run [of md p n lg x y] by simp
next
  fix n lg and x :: "'a io" and g
  assume "lg_rested md p n lg x" "mem_ok (snd x)" "\<And>i. i \<in> {0} \<Longrightarrow> i < length (st_outputs (fst x))"
  then show "\<exists>s' y. lg_upd g (Suc n) lg x = Inr (s', y) \<and> lg_ready md p (Suc n) s' y
        \<and> lg_fp s' \<subseteq> lg_fp lg \<union> {next_addr (snd x)..} \<and> {} = ({}::nat set) \<and> {0::nat} = {0}
        \<and> touches (lg_fp lg) {} {0} x y"
    using lg_update [of md p n lg x g] by simp
qed simp_all

section \<open>Reading the logits\<close>

text \<open>The scores of a row: the elements of the tensor as floats, and the end-of-sequence ids merged.\<close>

fun logit_value :: "(32 word \<Rightarrow> 'f) \<Rightarrow> 'f scalar \<Rightarrow> 'f" where
  "logit_value of_bits (SFloat x) = x"
| "logit_value of_bits (SHalf h) = of_bits (FastFloat16ToFloat32 h)"
| "logit_value of_bits _ = of_bits 0"

definition eos_row :: "('f::linorder, 'g, 'y) cxx_scheme \<Rightarrow> 'f Model \<Rightarrow> 'f list \<Rightarrow> 'f list" where
  "eos_row cx md row =
     (let ids = mo_eos_token_ids (co_model (md_config md)) in
      if ids = [] then row
      else case HandleEOS_row cx ids (mo_eos_token_id (co_model (md_config md))) row of Inr r \<Rightarrow> r | Inl _ \<Rightarrow> row)"

text \<open>The elements \<open>Get\<close> works on: on the run of the prompt the row of its last token, else all.\<close>

definition last_rows :: "('f, 't) GeneratorParams \<Rightarrow> nat \<Rightarrow> 'f scalar list \<Rightarrow> 'f scalar list" where
  "last_rows p n d = (if n = seq_len p
     then blocks d (nvocab p) (\<lambda>r. r * seq_len p + prompt_last p (r div nbeams p)) (rows p) else d)"

definition scores_of ::
    "('f::linorder, 'g, 'y) cxx_scheme \<Rightarrow> (32 word \<Rightarrow> 'f) \<Rightarrow> 'f Model \<Rightarrow> ('f, 't) GeneratorParams \<Rightarrow> nat \<Rightarrow> 'f scalar list \<Rightarrow> 'f list" where
  "scores_of cx of_bits md p n d = concat (map (\<lambda>r. eos_row cx md
       (map (logit_value of_bits) (take (nvocab p) (drop (r * nvocab p) (last_rows p n d))))) [0..<rows p])"

lemma eos_row_ok:
  assumes "decoder_ok md p" and "length row = nvocab p" and ids: "mo_eos_token_ids (co_model (md_config md)) \<noteq> []"
  shows "HandleEOS_row cx (mo_eos_token_ids (co_model (md_config md))) (mo_eos_token_id (co_model (md_config md))) row
      = Inr (eos_row cx md row)" and "length (eos_row cx md row) = nvocab p"
proof -
  let ?ids = "mo_eos_token_ids (co_model (md_config md))" and ?eos = "mo_eos_token_id (co_model (md_config md))"
  have "\<forall>id\<in>set ?ids. 0 \<le> id \<and> id < vocab_size p" "0 \<le> ?eos" "?eos < vocab_size p"
    using assms(1) unfolding decoder_ok_def by blast+
  then have "\<forall>id\<in>set ?ids. 0 \<le> id \<and> nat id < length row" "0 \<le> ?eos" "nat ?eos < length row" using assms(2) by auto
  then obtain r where r: "HandleEOS_row cx ?ids ?eos row = Inr r" "length r = length row"
    using HandleEOS_ids [of ?ids row cx "flowest cx"] by (auto simp: HandleEOS_row_def)
  then have "eos_row cx md row = r" using ids by (simp add: eos_row_def)
  then show "HandleEOS_row cx ?ids ?eos row = Inr (eos_row cx md row)" "length (eos_row cx md row) = nvocab p"
    using r assms(2) by simp_all
qed

lemma length_eos_row: "decoder_ok md p \<Longrightarrow> length row = nvocab p \<Longrightarrow> length (eos_row cx md row) = nvocab p"
  using eos_row_ok(2) [of md p row cx] by (cases "mo_eos_token_ids (co_model (md_config md)) = []") (simp_all add: eos_row_def)

lemma HandleEOSArray_ok:
  assumes ok: "decoder_ok md p" and d: "length d = n * nvocab p"
  shows "HandleEOSArray cx (mo_eos_token_ids (co_model (md_config md))) (mo_eos_token_id (co_model (md_config md))) n (nvocab p) d
     = Inr (concat (map (\<lambda>r. eos_row cx md (take (nvocab p) (drop (r * nvocab p) d))) [0..<n]))"
proof (cases "mo_eos_token_ids (co_model (md_config md)) = []")
  case True
  then show ?thesis using blocks_id [OF d] by (simp add: HandleEOSArray_def eos_row_def blocks_def)
next
  case False
  have "length (take (nvocab p) (drop (i * nvocab p) t)) = nvocab p" if "i < n" "length t = n * nvocab p" for i and t :: "'a list"
    using row_bound0 [OF that(1), of "nvocab p"] that(2) by (intro length_slice) simp
  note slice = this
  have "for_res (\<lambda>index d. res_bind (subspan d (index * nvocab p) (nvocab p)) (\<lambda>logits.
      res_bind (HandleEOS_row cx (mo_eos_token_ids (co_model (md_config md))) (mo_eos_token_id (co_model (md_config md))) logits)
        (copy_into d (index * nvocab p)))) [0..<n] d
     = Inr (concat (map (\<lambda>r. eos_row cx md (take (nvocab p) (drop (r * nvocab p) d))) [0..<n]))"
  proof (rule for_res_full_rows [OF d])
    fix i t assume i: "i < n" and t: "length t = n * nvocab p" "drop (i * nvocab p) t = drop (i * nvocab p) d"
    have b: "i * nvocab p + nvocab p \<le> length t" using row_bound0 [OF i, of "nvocab p"] t by simp
    note e = eos_row_ok [OF ok slice [OF i t(1)] False, of cx]
    show "res_bind (subspan t (i * nvocab p) (nvocab p)) (\<lambda>logits.
      res_bind (HandleEOS_row cx (mo_eos_token_ids (co_model (md_config md))) (mo_eos_token_id (co_model (md_config md))) logits)
        (copy_into t (i * nvocab p))) = Inr (blit t (i * nvocab p) (eos_row cx md (take (nvocab p) (drop (i * nvocab p) d))))"
      using b e t(2) by simp
  qed (rule length_eos_row [OF ok slice [OF _ d]])
  then show ?thesis using False by (simp add: HandleEOSArray_def)
qed

text \<open>The rows the selection takes are in range, and it is the identity for a prompt of one token.\<close>

lemma last_rows_ok:
  assumes ok: "decoder_ok md p" and d: "length d = rows p * nat (run_len p n) * nvocab p"
  shows "length (last_rows p n d) = rows p * nvocab p" and "set (last_rows p n d) \<subseteq> set d"
    and "run_len p n = 1 \<Longrightarrow> last_rows p n d = d"
proof -
  have po: "params_ok p" and tok: "\<And>b. b < nbatch p \<Longrightarrow> \<exists>x\<in>set (prompt_row p b). x \<noteq> pad_token_id p"
    using ok unfolding decoder_ok_def by blast+
  let ?g = "\<lambda>r. r * seq_len p + prompt_last p (r div nbeams p)"
  have pl: "prompt_last p (r div nbeams p) < seq_len p" if "r < rows p" for r
    using that by (intro last_token_from_prompt(2) [OF po _ tok]) (simp_all add: rows_def less_mult_imp_div_less)
  have g: "?g r * nvocab p + nvocab p \<le> length d" if "r < rows p" "n = seq_len p" for r
  proof -
    have "?g r < rows p * seq_len p" using that(1) pl [OF that(1)] by (rule row_bound_less)
    then show ?thesis using d that(2) row_bound0 [of "?g r" "rows p * seq_len p" "nvocab p"] by (simp add: run_len_def)
  qed
  show "length (last_rows p n d) = rows p * nvocab p"
    using d length_blocks [of "rows p" ?g "nvocab p" d] g by (auto simp: last_rows_def run_len_def)
  show "set (last_rows p n d) \<subseteq> set d" by (auto simp: last_rows_def blocks_def dest!: in_set_takeD in_set_dropD)
  show "last_rows p n d = d" if "run_len p n = 1"
  proof (cases "n = seq_len p")
    case True
    then have "seq_len p = 1" using that by (simp add: run_len_def)
    moreover from this have "prompt_last p (r div nbeams p) = 0" if "r < rows p" for r using pl [OF that] by simp
    ultimately have "blocks d (nvocab p) ?g (rows p) = blocks d (nvocab p) (\<lambda>r. r) (rows p)"
      unfolding blocks_def by (intro arg_cong [where f = concat] map_cong) auto
    then show ?thesis using blocks_id [of d "rows p" "nvocab p"] d that True by (simp add: last_rows_def)
  qed (simp add: last_rows_def)
qed

text \<open>A step of \<open>Get\<close>: the component changes only what it owns or allocates.\<close>

definition lg_step :: "'f Model \<Rightarrow> ('f, addr) GeneratorParams \<Rightarrow> nat \<Rightarrow> State \<Rightarrow> Logits \<times> 'f mem \<Rightarrow> Logits \<times> 'f mem \<Rightarrow> bool" where
  "lg_step md p n st = (\<lambda>(lg, m) (lg', m').
     lg_base md p n lg' (st, m') \<and> lg_raw lg' = lg_raw lg \<and> lg_type lg' = lg_type lg \<and> mem_ok m' \<and> next_addr m \<le> next_addr m'
     \<and> (\<forall>a<next_addr m. a \<notin> lg_fp lg \<longrightarrow> ovs m' a = ovs m a) \<and> lg_fp lg' \<subseteq> lg_fp lg \<union> {next_addr m..})"

lemma lg_step_trans:
  assumes "lg_step md p n st x y" and "lg_step md p n st y z"
  shows "lg_step md p n st x z"
proof -
  obtain lg m lg1 m1 lg2 m2 where e: "x = (lg, m)" "y = (lg1, m1)" "z = (lg2, m2)" by (cases x, cases y, cases z)
  have f: "lg_fp lg1 \<subseteq> lg_fp lg \<union> {next_addr m..}" "next_addr m \<le> next_addr m1" "lg_fp lg2 \<subseteq> lg_fp lg1 \<union> {next_addr m1..}"
    using assms by (simp_all add: lg_step_def e)
  have "a \<notin> lg_fp lg1" if "a < next_addr m" "a \<notin> lg_fp lg" for a using f that by auto
  moreover have "lg_fp lg2 \<subseteq> lg_fp lg \<union> {next_addr m..}" using f by (meson Un_iff atLeast_iff order_trans subset_iff)
  ultimately show ?thesis using assms unfolding lg_step_def e prod.case by force
qed

lemma lg_base_step:
  assumes "lg_base md p n lg (st, m)" "next_addr m \<le> next_addr m'" "ovs m' (lg_raw lg) = Some v" "raw_ok md p n v"
    "\<forall>q\<in>set_option l. q \<noteq> lg_raw lg \<and> q < next_addr m'"
  shows "lg_base md p n (lg\<lparr>lg_shape := sh, lg_last_tokens := l\<rparr>) (st, m')"
  using assms by (auto simp: lg_base_def)

text \<open>A new tensor in place of the one the component keeps for the last tokens.\<close>

lemma lg_replace:
  assumes base: "lg_base md p n lg (st, m)" and m: "mem_ok m"
  shows "lg_step md p n st (lg, m) (lg\<lparr>lg_shape := sh, lg_last_tokens := Some (next_addr m)\<rparr>,
      release (lg_last_tokens lg) (m\<lparr>next_addr := Suc (next_addr m), ovs := (ovs m)(next_addr m \<mapsto> w)\<rparr>))"
    and "ovs (release (lg_last_tokens lg) (m\<lparr>next_addr := Suc (next_addr m), ovs := (ovs m)(next_addr m \<mapsto> w)\<rparr>)) (next_addr m) = Some w"
    and "next_addr (release (lg_last_tokens lg) (m\<lparr>next_addr := Suc (next_addr m), ovs := (ovs m)(next_addr m \<mapsto> w)\<rparr>)) = Suc (next_addr m)"
    and "ovs (release (lg_last_tokens lg) (m\<lparr>next_addr := Suc (next_addr m), ovs := (ovs m)(next_addr m \<mapsto> w)\<rparr>)) (lg_raw lg) = ovs m (lg_raw lg)"
proof -
  let ?m = "release (lg_last_tokens lg) (m\<lparr>next_addr := Suc (next_addr m), ovs := (ovs m)(next_addr m \<mapsto> w)\<rparr>)"
  have l: "\<forall>q\<in>set_option (lg_last_tokens lg). q \<noteq> lg_raw lg \<and> q < next_addr m" and r: "lg_raw lg < next_addr m"
    using base by (simp_all add: lg_base_def)
  show w: "ovs ?m (next_addr m) = Some w" using l by (cases "lg_last_tokens lg") (auto simp: free_def)
  show n: "next_addr ?m = Suc (next_addr m)" by (cases "lg_last_tokens lg") (auto simp: free_def)
  show raw: "ovs ?m (lg_raw lg) = ovs m (lg_raw lg)" using l r by (cases "lg_last_tokens lg") (auto simp: free_def)
  have other: "ovs ?m a = ovs m a" if "a < next_addr m" "a \<notin> lg_fp lg" for a
    using that by (cases "lg_last_tokens lg") (auto simp: free_def lg_fp_def)
  have ok: "mem_ok ?m" using m l by (cases "lg_last_tokens lg") (auto simp: free_def mem_ok_def)
  obtain v where v: "ovs m (lg_raw lg) = Some v" "raw_ok md p n v" using base by (auto simp: lg_base_def)
  have "lg_base md p n (lg\<lparr>lg_shape := sh, lg_last_tokens := Some (next_addr m)\<rparr>) (st, ?m)"
    by (rule lg_base_step [OF base]) (use n raw v r in auto)
  then show "lg_step md p n st (lg, m) (lg\<lparr>lg_shape := sh, lg_last_tokens := Some (next_addr m)\<rparr>, ?m)"
    using ok n other by (auto simp: lg_step_def lg_fp_def)
qed

lemma lg_write:
  assumes base: "lg_base md p n lg (st, m)" and m: "mem_ok m" and q: "q \<in> lg_fp lg" "ovs m q = Some v" and d: "length d = length (ov_data v)"
  shows "set_data q d m = Inr (m\<lparr>ovs := (ovs m)(q \<mapsto> v\<lparr>ov_data := d\<rparr>)\<rparr>)"
    and "lg_step md p n st (lg, m) (lg, m\<lparr>ovs := (ovs m)(q \<mapsto> v\<lparr>ov_data := d\<rparr>)\<rparr>)"
proof -
  let ?m = "m\<lparr>ovs := (ovs m)(q \<mapsto> v\<lparr>ov_data := d\<rparr>)\<rparr>"
  show "set_data q d m = Inr ?m" by (rule set_data_ok [OF q(2)])
  obtain r where r: "ovs m (lg_raw lg) = Some r" "raw_ok md p n r" using base by (auto simp: lg_base_def)
  have "\<exists>r'. ovs ?m (lg_raw lg) = Some r' \<and> raw_ok md p n r'"
    using r q d by (cases "q = lg_raw lg") (auto simp: raw_ok_def value_ok_def)
  then have "lg_base md p n lg (st, ?m)" using base by (auto simp: lg_base_def)
  moreover have "mem_ok ?m" using m mem_ok_bound [OF m q(2)] by (auto simp: mem_ok_def)
  ultimately show "lg_step md p n st (lg, m) (lg, ?m)" using q(1) by (auto simp: lg_step_def)
qed

lemma Logits_select_ok:
  assumes inv: "lg_ran md p n lg (st, m)" and m: "mem_ok m" and v: "ovs m (lg_raw lg) = Some v"
  shows "\<exists>lg1 q m1. Logits_select p lg m = Inr (lg1, q, m1) \<and> lg_step md p n st (lg, m) (lg1, m1)
     \<and> lg_shape lg1 = [int (rows p), 1, vocab_size p] \<and> q \<in> lg_fp lg1
     \<and> ovs m1 q = Some \<lparr>ov_type = lg_type lg, ov_shape = [int (rows p), 1, vocab_size p], ov_data = last_rows p n (ov_data v)\<rparr>"
proof -
  have base: "lg_base md p n lg (st, m)" and sh: "lg_shape lg = [int (rows p), run_len p n, vocab_size p]" and raw: "raw_ok md p n v"
    and ok: "decoder_ok md p" and ty: "lg_type lg = output_type md (logits_name md)"
    using inv v by (auto simp: lg_ran_def lg_ready_def lg_base_def)
  have d: "length (ov_data v) = rows p * nat (run_len p n) * nvocab p" using raw by (simp add: raw_ok_def value_ok_def mult.assoc)
  note lr = last_rows_ok [OF ok d]
  show ?thesis
  proof (cases "run_len p n = 1")
    case True
    have "v = \<lparr>ov_type = lg_type lg, ov_shape = [int (rows p), 1, vocab_size p], ov_data = last_rows p n (ov_data v)\<rparr>"
      using raw lr(3) [OF True] True ty by (simp add: raw_ok_def)
    moreover have "lg_step md p n st (lg, m) (lg, m)" using base m by (simp add: lg_step_def)
    ultimately show ?thesis using True sh v by (simp add: Logits_select_def lg_fp_def)
  next
    case False
    then have n: "n = seq_len p" and L: "run_len p n = sequence_length p" by (auto simp: run_len_def split: if_splits)
    let ?sh = "[int (rows p), 1, vocab_size p]"
    let ?w = "\<lparr>ov_type = lg_type lg, ov_shape = ?sh, ov_data = replicate (rows p * nvocab p) Uninit\<rparr>"
    let ?lg = "lg\<lparr>lg_shape := ?sh, lg_last_tokens := Some (next_addr m)\<rparr>"
    let ?m2 = "release (lg_last_tokens lg) (m\<lparr>next_addr := Suc (next_addr m), ovs := (ovs m)(next_addr m \<mapsto> ?w)\<rparr>)"
    note rep = lg_replace(1) [OF base m, of ?sh ?w] lg_replace(2-) [OF base m, of ?w]
    have CT: "CreateTensor ?sh (lg_type lg) m = Inr (next_addr m, m\<lparr>next_addr := Suc (next_addr m), ovs := (ovs m)(next_addr m \<mapsto> ?w)\<rparr>)"
      using vocab_pos [OF ok] by (subst CreateTensor_ok) auto
    have sz: "SizeOf (lg_type lg) = Inr (element_size (lg_type lg))"
    proof -
      have "lg_type lg \<in> {ONNX_FLOAT, ONNX_FLOAT16}" using ok unfolding decoder_ok_def ty by blast
      then show ?thesis by (auto simp: element_size_def)
    qed
    have po: "params_ok p" and k: "0 < nbeams p" and tok: "\<And>b. b < nbatch p \<Longrightarrow> \<exists>x\<in>set (prompt_row p b). x \<noteq> pad_token_id p"
      using ok unfolding decoder_ok_def by (blast, linarith, blast)
    have "copy_last_tokens p (seq_len p) (nvocab p) (ov_data v) (replicate (rows p * nvocab p) Uninit) = Inr (last_rows p n (ov_data v))"
      using copy_last_tokens_ok [OF po k tok, of "ov_data v" "nvocab p" "replicate (rows p * nvocab p) Uninit"] d L n
      by (simp add: last_rows_def rows_def)
    moreover have wr: "lg_step md p n st (?lg, ?m2) (?lg, ?m2\<lparr>ovs := (ovs ?m2)(next_addr m \<mapsto> ?w\<lparr>ov_data := last_rows p n (ov_data v)\<rparr>)\<rparr>)"
      by (rule lg_write(2)) (use rep lr(1) in \<open>auto simp: lg_step_def lg_fp_def\<close>)
    ultimately have "Logits_select p lg m = Inr (?lg, next_addr m, ?m2\<lparr>ovs := (ovs ?m2)(next_addr m \<mapsto> ?w\<lparr>ov_data := last_rows p n (ov_data v)\<rparr>)\<rparr>)"
      using False v deref_ok [OF rep(2)] set_data_ok [OF rep(2)] deref_ok [of ?m2 "lg_raw lg" v] rep(4)
      unfolding Logits_select_def sh L Let_def by (simp add: CT sz)
    then show ?thesis using lg_step_trans [OF rep(1) wr] by (auto simp: lg_fp_def)
  qed
qed

lemma map_res_eq: "(\<And>x. x \<in> set xs \<Longrightarrow> f x = Inr (h x)) \<Longrightarrow> map_res f xs = Inr (map h xs)"
  using map_res_map [of xs f "\<lambda>x. x" h] by simp

text \<open>The conversion to single precision, into a tensor of its own.\<close>

lemma Logits_convert_ok:
  assumes base: "lg_base md p n lg (st, m)" and m: "mem_ok m" and q: "q \<in> lg_fp lg"
    and v: "ovs m q = Some \<lparr>ov_type = ONNX_FLOAT16, ov_shape = sh, ov_data = d\<rparr>"
    and d: "length d = GetElementCount sh" "\<forall>x\<in>set d. \<exists>h. x = SHalf h" and sh: "\<And>i. i \<in> set sh \<Longrightarrow> 0 \<le> i"
    and dev: "md_device_type md = CPU"
  shows "\<exists>q' m1. ConvertFp16ToFp32 of_bits (md_device_type md) q None m = Inr (q', m1)
     \<and> lg_step md p n st (lg, m) (lg\<lparr>lg_last_tokens := Some q'\<rparr>, release (lg_last_tokens lg) m1)
     \<and> ovs (release (lg_last_tokens lg) m1) q' = Some \<lparr>ov_type = ONNX_FLOAT, ov_shape = sh, ov_data = map (SFloat \<circ> logit_value of_bits) d\<rparr>"
proof -
  let ?w = "\<lparr>ov_type = ONNX_FLOAT, ov_shape = sh, ov_data = map (SFloat \<circ> logit_value of_bits) d\<rparr>"
  let ?m = "m\<lparr>next_addr := Suc (next_addr m), ovs := (ovs m)(next_addr m \<mapsto> ?w)\<rparr>"
  have "map_res (\<lambda>s. res_bind (scalar_half s) (\<lambda>h. Inr (SFloat (of_bits (FastFloat16ToFloat32 h))))) d
      = Inr (map (SFloat \<circ> logit_value of_bits) d)"
    by (rule map_res_eq) (use d(2) in auto)
  then have "ConvertFp16ToFp32 of_bits (md_device_type md) q None m = Inr (next_addr m, ?m)"
    using v d(1) dev CreateTensor_ok [OF sh, of sh ONNX_FLOAT m]
    by (simp add: ConvertFp16ToFp32_def convert_target_def deref_ok set_data_ok)
  moreover have "lg_step md p n st (lg, m) (lg\<lparr>lg_last_tokens := Some (next_addr m)\<rparr>, release (lg_last_tokens lg) ?m)"
    using lg_replace(1) [OF base m, of "lg_shape lg" ?w] by simp
  ultimately show ?thesis using lg_replace(2) [OF base m, of ?w] by blast
qed

lemma length_scores_of:
  assumes ok: "decoder_ok md p" and d: "length d = rows p * nat (run_len p n) * nvocab p"
  shows "length (scores_of cx of_bits md p n d) = rows p * nvocab p"
proof -
  note lr = last_rows_ok(1) [OF ok d]
  have "length (eos_row cx md (map (logit_value of_bits) (take (nvocab p) (drop (r * nvocab p) (last_rows p n d))))) = nvocab p" if "r < rows p" for r
    using row_bound0 [OF that, of "nvocab p"] lr by (intro length_eos_row [OF ok]) simp
  then show ?thesis
    unfolding scores_of_def using length_concat_rows [of "[0..<rows p]"
      "\<lambda>r. eos_row cx md (map (logit_value of_bits) (take (nvocab p) (drop (r * nvocab p) (last_rows p n d))))" "nvocab p"] by simp
qed

text \<open>\<open>Get\<close> as a whole: the scores of every row, and the component rests.\<close>

lemma Logits_Get_ok:
  fixes md :: "'f::linorder Model"
  assumes inv: "lg_ran md p n lg (st, m)" and m: "mem_ok m" and v: "ovs m (lg_raw lg) = Some v"
  shows "\<exists>lg' m'. Logits_Get cx of_bits md p lg m = Inr (scores_of cx of_bits md p n (ov_data v), lg', m')
     \<and> lg_rested md p n lg' (st, m') \<and> lg_step md p n st (lg, m) (lg', m')"
proof -
  let ?sh = "[int (rows p), 1, vocab_size p]" and ?d = "last_rows p n (ov_data v)"
  have raw: "raw_ok md p n v" and ok: "decoder_ok md p" and ty: "lg_type lg = output_type md (logits_name md)" and fl: "filled v"
    using inv v by (auto simp: lg_ran_def lg_ready_def lg_base_def)
  have dev: "md_device_type md = CPU" and tt: "lg_type lg \<in> {ONNX_FLOAT, ONNX_FLOAT16}" using ok unfolding decoder_ok_def ty by blast+
  have dl: "length (ov_data v) = rows p * nat (run_len p n) * nvocab p" using raw by (simp add: raw_ok_def value_ok_def mult.assoc)
  note lr = last_rows_ok [OF ok dl]
  have shp: "0 \<le> i" if "i \<in> set ?sh" for i using that vocab_pos [OF ok] by auto
  have typed: "\<forall>x\<in>set ?d. has_type (lg_type lg) x" using fl lr(2) raw ty by (auto simp: filled_def raw_ok_def)
  obtain lg1 q m1 where s1: "Logits_select p lg m = Inr (lg1, q, m1)" "lg_step md p n st (lg, m) (lg1, m1)"
      "lg_shape lg1 = ?sh" "q \<in> lg_fp lg1" "ovs m1 q = Some \<lparr>ov_type = lg_type lg, ov_shape = ?sh, ov_data = ?d\<rparr>"
    using Logits_select_ok [OF inv m v] by blast
  have b1: "lg_base md p n lg1 (st, m1)" "mem_ok m1" using s1(2) by (simp_all add: lg_step_def)
  let ?F = "map (SFloat \<circ> logit_value of_bits) ?d"
  obtain lg2 q2 m3 where s2: "(if lg_type lg = ONNX_FLOAT16 then
          res_bind (ConvertFp16ToFp32 of_bits (md_device_type md) q None m1) (\<lambda>(q', m2).
          Inr (lg1\<lparr>lg_last_tokens := Some q'\<rparr>, q', release (lg_last_tokens lg1) m2))
        else Inr (lg1, q, m1)) = Inr (lg2, q2, m3)" "lg_step md p n st (lg1, m1) (lg2, m3)" "lg_shape lg2 = ?sh" "q2 \<in> lg_fp lg2"
      "ovs m3 q2 = Some \<lparr>ov_type = ONNX_FLOAT, ov_shape = ?sh, ov_data = ?F\<rparr>"
  proof (cases "lg_type lg = ONNX_FLOAT16")
    case True
    have "\<forall>x\<in>set ?d. \<exists>h. x = SHalf h" "length ?d = GetElementCount ?sh" using typed True lr(1) by simp_all
    then obtain q' m2 where "ConvertFp16ToFp32 of_bits (md_device_type md) q None m1 = Inr (q', m2)"
       "lg_step md p n st (lg1, m1) (lg1\<lparr>lg_last_tokens := Some q'\<rparr>, release (lg_last_tokens lg1) m2)"
       "ovs (release (lg_last_tokens lg1) m2) q' = Some \<lparr>ov_type = ONNX_FLOAT, ov_shape = ?sh, ov_data = ?F\<rparr>"
      using Logits_convert_ok [OF b1 s1(4) s1(5) [unfolded True] _ _ shp dev, of of_bits] by blast
    then show ?thesis using True s1(3)
      by (intro that [of "lg1\<lparr>lg_last_tokens := Some q'\<rparr>" q' "release (lg_last_tokens lg1) m2"]) (auto simp: lg_fp_def)
  next
    case False
    then have "lg_type lg = ONNX_FLOAT" "?F = ?d"
      using tt typed by (auto intro!: map_idI)
    then show ?thesis using b1 s1 by (intro that [of lg1 q m1]) (auto simp: lg_step_def)
  qed
  have b2: "lg_base md p n lg2 (st, m3)" "mem_ok m3" using s2(2) by (simp_all add: lg_step_def)
  let ?fs = "map (logit_value of_bits) ?d"
  have lf: "length ?fs = rows p * nvocab p" using lr(1) by simp
  have floats: "map_res scalar_float ?F = Inr ?fs" using map_res_map [of ?fs scalar_float SFloat "\<lambda>x. x"] by simp
  have eos: "HandleEOSArray cx (mo_eos_token_ids (co_model (md_config md))) (mo_eos_token_id (co_model (md_config md)))
       (rows p) (nvocab p) ?fs = Inr (scores_of cx of_bits md p n (ov_data v))"
    unfolding HandleEOSArray_ok [OF ok lf] scores_of_def by (simp add: take_map drop_map)
  have len: "length (scores_of cx of_bits md p n (ov_data v)) = rows p * nvocab p"
    by (rule length_scores_of [OF ok dl])
  let ?out = "map SFloat (scores_of cx of_bits md p n (ov_data v))"
  have cp: "copy_into ?F 0 ?out = Inr ?out" using len lr(1) by (simp add: blit_all)
  note w = lg_write [OF b2 s2(4,5), of ?out]
  have "Logits_Get cx of_bits md p lg m = Inr (scores_of cx of_bits md p n (ov_data v), lg2,
      m3\<lparr>ovs := (ovs m3)(q2 \<mapsto> \<lparr>ov_type = ONNX_FLOAT, ov_shape = ?sh, ov_data = ?F\<rparr>\<lparr>ov_data := ?out\<rparr>)\<rparr>)"
    unfolding Logits_Get_def s1(1) res_bind_Inr prod.case s2(1)
    using s2(3,5) floats eos cp w(1) len lr(1) by (simp add: deref_ok del: OrtValue.update_convs)
  moreover have "lg_step md p n st (lg2, m3) (lg2, m3\<lparr>ovs := (ovs m3)(q2 \<mapsto> \<lparr>ov_type = ONNX_FLOAT, ov_shape = ?sh, ov_data = ?F\<rparr>\<lparr>ov_data := ?out\<rparr>)\<rparr>)"
    by (rule w(2)) (use len lr(1) in simp)
  from this lg_step_trans [OF lg_step_trans [OF s1(2) s2(2)] this]
  have "lg_rested md p n lg2 (st, m3\<lparr>ovs := (ovs m3)(q2 \<mapsto> \<lparr>ov_type = ONNX_FLOAT, ov_shape = ?sh, ov_data = ?F\<rparr>\<lparr>ov_data := ?out\<rparr>)\<rparr>)"
    "lg_step md p n st (lg, m) (lg2, m3\<lparr>ovs := (ovs m3)(q2 \<mapsto> \<lparr>ov_type = ONNX_FLOAT, ov_shape = ?sh, ov_data = ?F\<rparr>\<lparr>ov_data := ?out\<rparr>)\<rparr>)"
    using s2(3) by (simp_all add: lg_rested_def lg_step_def)
  ultimately show ?thesis by blast
qed

end
