(* ===== verification/DecoderLaws.thy ===== *)
theory DecoderLaws
  imports LogitsLaws
begin

text \<open>
  The decoder-only state as the composition of its five components. Each follows the contract of
  \<open>io_component\<close> and they own different tensors and slots, so their updates in turn, which is what
  \<open>DecoderOnly_State::UpdateInputsOutputs\<close> is, follow it together. With the session's side of the contract
  (\<open>accepts\<close>) every run succeeds and returns the scores of the rows of the session's first output.
\<close>

section \<open>Composition\<close>

abbreviation ex_fp :: "ExtraInputs \<Rightarrow> addr set" where
  "ex_fp ei \<equiv> set (ei_inputs ei)"

abbreviation ids_fp :: "InputIDs \<Rightarrow> addr set" where
  "ids_fp ii \<equiv> {ii_value ii}"

abbreviation no_slots :: "'s \<Rightarrow> nat set" where
  "no_slots s \<equiv> {}"

abbreviation slot0 :: "'s \<Rightarrow> nat set" where
  "slot0 s \<equiv> {0}"

type_synonym parts1 = "ExtraInputs \<times> InputIDs"
type_synonym parts2 = "parts1 \<times> PositionInputs"
type_synonym parts3 = "parts2 \<times> KV_Cache"
type_synonym parts = "parts3 \<times> Logits"

abbreviation sep1 :: "'f Model \<Rightarrow> (string \<times> 'f OrtValue) list \<Rightarrow> parts1 \<Rightarrow> bool" where
  "sep1 md ex \<equiv> apart ex_fp (extra_islots md ex) no_slots ids_fp slot0 no_slots"

abbreviation inv1 :: "'f Model \<Rightarrow> ('f, addr) GeneratorParams \<Rightarrow> (string \<times> 'f OrtValue) list \<Rightarrow> nat \<Rightarrow> parts1 \<Rightarrow> 'f io \<Rightarrow> bool" where
  "inv1 md p ex \<equiv> both (sep1 md ex) (extra_inv md ex) (ids_inv md p)"

abbreviation fp1 :: "parts1 \<Rightarrow> addr set" where "fp1 \<equiv> either ex_fp ids_fp"
abbreviation is1 :: "'f Model \<Rightarrow> (string \<times> 'f OrtValue) list \<Rightarrow> parts1 \<Rightarrow> nat set" where
  "is1 md ex \<equiv> either (extra_islots md ex) slot0"
abbreviation os1 :: "parts1 \<Rightarrow> nat set" where "os1 \<equiv> either no_slots no_slots"
abbreviation upd1 :: "int list \<times> int list \<Rightarrow> nat \<Rightarrow> parts1 \<Rightarrow> 'f io \<Rightarrow> (parts1 \<times> 'f io) res" where
  "upd1 \<equiv> in_turn no_upd ids_upd"

interpretation d1: io_pair "extra_inv md ex" "extra_inv md ex" "extra_inv md ex" ex_fp "extra_islots md ex" no_slots no_upd
  "ids_inv md p" "ids_inv md p" "ids_inv md p" ids_fp slot0 no_slots ids_upd
  "good_args p" "expect_in md p ex" "expect_out md p"
  for md p ex
  by unfold_locales

abbreviation sep2 :: "'f Model \<Rightarrow> (string \<times> 'f OrtValue) list \<Rightarrow> parts2 \<Rightarrow> bool" where
  "sep2 md ex \<equiv> apart fp1 (is1 md ex) os1 pos_fp (pos_islots md) no_slots"

abbreviation inv2 :: "'f Model \<Rightarrow> ('f, addr) GeneratorParams \<Rightarrow> (string \<times> 'f OrtValue) list \<Rightarrow> nat \<Rightarrow> parts2 \<Rightarrow> 'f io \<Rightarrow> bool" where
  "inv2 md p ex \<equiv> both (sep2 md ex) (inv1 md p ex) (pos_inv md p)"

abbreviation fp2 :: "parts2 \<Rightarrow> addr set" where "fp2 \<equiv> either fp1 pos_fp"
abbreviation is2 :: "'f Model \<Rightarrow> (string \<times> 'f OrtValue) list \<Rightarrow> parts2 \<Rightarrow> nat set" where
  "is2 md ex \<equiv> either (is1 md ex) (pos_islots md)"
abbreviation os2 :: "parts2 \<Rightarrow> nat set" where "os2 \<equiv> either os1 no_slots"
abbreviation upd2 :: "'f Model \<Rightarrow> int list \<times> int list \<Rightarrow> nat \<Rightarrow> parts2 \<Rightarrow> 'f io \<Rightarrow> (parts2 \<times> 'f io) res" where
  "upd2 md \<equiv> in_turn upd1 (pos_upd md)"

interpretation d2: io_pair "inv1 md p ex" "inv1 md p ex" "inv1 md p ex" fp1 "is1 md ex" os1 upd1
  "pos_inv md p" "pos_inv md p" "pos_inv md p" pos_fp "pos_islots md" no_slots "pos_upd md"
  "good_args p" "expect_in md p ex" "expect_out md p"
  for md p ex
  by unfold_locales

abbreviation sep3 :: "'f Model \<Rightarrow> (string \<times> 'f OrtValue) list \<Rightarrow> parts3 \<Rightarrow> bool" where
  "sep3 md ex \<equiv> apart fp2 (is2 md ex) os2 kv_fp (kv_islots md) (kv_oslots md)"

abbreviation fp3 :: "parts3 \<Rightarrow> addr set" where "fp3 \<equiv> either fp2 kv_fp"
abbreviation is3 :: "'f Model \<Rightarrow> (string \<times> 'f OrtValue) list \<Rightarrow> parts3 \<Rightarrow> nat set" where
  "is3 md ex \<equiv> either (is2 md ex) (kv_islots md)"
abbreviation os3 :: "'f Model \<Rightarrow> parts3 \<Rightarrow> nat set" where "os3 md \<equiv> either os2 (kv_oslots md)"
abbreviation upd3 :: "'f Model \<Rightarrow> int list \<times> int list \<Rightarrow> nat \<Rightarrow> parts3 \<Rightarrow> 'f io \<Rightarrow> (parts3 \<times> 'f io) res" where
  "upd3 md \<equiv> in_turn (upd2 md) kv_upd"

interpretation d3: io_pair "inv2 md p ex" "inv2 md p ex" "inv2 md p ex" fp2 "is2 md ex" os2 "upd2 md"
  "kv_ready md p" "kv_ran md p" "kv_ran md p" kv_fp "kv_islots md" "kv_oslots md" kv_upd
  "good_args p" "expect_in md p ex" "expect_out md p"
  for md p ex
  by unfold_locales

abbreviation dsep :: "'f Model \<Rightarrow> (string \<times> 'f OrtValue) list \<Rightarrow> parts \<Rightarrow> bool" where
  "dsep md ex \<equiv> apart fp3 (is3 md ex) (os3 md) lg_fp no_slots slot0"

abbreviation dready :: "'f Model \<Rightarrow> ('f, addr) GeneratorParams \<Rightarrow> (string \<times> 'f OrtValue) list \<Rightarrow> nat \<Rightarrow> parts \<Rightarrow> 'f io \<Rightarrow> bool" where
  "dready md p ex \<equiv> both (dsep md ex) (both (sep3 md ex) (inv2 md p ex) (kv_ready md p)) (lg_ready md p)"

abbreviation dran :: "'f Model \<Rightarrow> ('f, addr) GeneratorParams \<Rightarrow> (string \<times> 'f OrtValue) list \<Rightarrow> nat \<Rightarrow> parts \<Rightarrow> 'f io \<Rightarrow> bool" where
  "dran md p ex \<equiv> both (dsep md ex) (both (sep3 md ex) (inv2 md p ex) (kv_ran md p)) (lg_ran md p)"

abbreviation drested :: "'f Model \<Rightarrow> ('f, addr) GeneratorParams \<Rightarrow> (string \<times> 'f OrtValue) list \<Rightarrow> nat \<Rightarrow> parts \<Rightarrow> 'f io \<Rightarrow> bool" where
  "drested md p ex \<equiv> both (dsep md ex) (both (sep3 md ex) (inv2 md p ex) (kv_ran md p)) (lg_rested md p)"

abbreviation dfp :: "parts \<Rightarrow> addr set" where "dfp \<equiv> either fp3 lg_fp"
abbreviation dis :: "'f Model \<Rightarrow> (string \<times> 'f OrtValue) list \<Rightarrow> parts \<Rightarrow> nat set" where "dis md ex \<equiv> either (is3 md ex) no_slots"
abbreviation dos :: "'f Model \<Rightarrow> parts \<Rightarrow> nat set" where "dos md \<equiv> either (os3 md) slot0"
abbreviation dupd :: "'f Model \<Rightarrow> int list \<times> int list \<Rightarrow> nat \<Rightarrow> parts \<Rightarrow> 'f io \<Rightarrow> (parts \<times> 'f io) res" where
  "dupd md \<equiv> in_turn (upd3 md) lg_upd"

interpretation dec: io_pair "both (sep3 md ex) (inv2 md p ex) (kv_ready md p)" "both (sep3 md ex) (inv2 md p ex) (kv_ran md p)"
  "both (sep3 md ex) (inv2 md p ex) (kv_ran md p)" fp3 "is3 md ex" "os3 md" "upd3 md"
  "lg_ready md p" "lg_ran md p" "lg_rested md p" lg_fp no_slots slot0 lg_upd
  "good_args p" "expect_in md p ex" "expect_out md p"
  for md p ex
  by unfold_locales

text \<open>Together the components own every slot.\<close>

lemma slots_total:
  assumes "decoder_ok md p"
  shows "dis md ex s = {..<length (in_slots md p ex n)}" "dos md s = {..<length (out_slots md p n)}"
proof -
  note len = cache_ok(5,6) [OF assms]
  show "dis md ex s = {..<length (in_slots md p ex n)}"
    using len by (auto simp: either_def in_slots_def length_in_slots_base kv_islots_def kv_base_def pos_islots_def mask_index_def extra_base_def)
  show "dos md s = {..<length (out_slots md p n)}"
    using len by (auto simp: either_def out_slots_def logits_slots_def present_slots_def Let_def kv_oslots_def)
qed

section \<open>A run of the session\<close>

lemma write_outputs_ok:
  assumes "length ds = length ps" and "\<forall>q\<in>set ps. \<exists>a. q = Some a \<and> ovs m a \<noteq> None"
  shows "\<exists>m'. write_outputs ps ds m = Inr m' \<and> next_addr m' = next_addr m \<and> (\<forall>a. Some a \<notin> set ps \<longrightarrow> ovs m' a = ovs m a)
     \<and> (\<forall>a v. Some a \<in> set ps \<longrightarrow> ovs m a = Some v \<longrightarrow>
          (\<exists>k<length ps. ps ! k = Some a \<and> ovs m' a = Some (v\<lparr>ov_data := ds ! k\<rparr>)))"
  using assms
proof (induction ds ps arbitrary: m rule: list_induct2)
  case (Cons d ds q ps)
  obtain a v where a: "q = Some a" "ovs m a = Some v" using Cons.prems by auto
  let ?m = "m\<lparr>ovs := (ovs m)(a \<mapsto> v\<lparr>ov_data := d\<rparr>)\<rparr>"
  have "\<forall>q\<in>set ps. \<exists>a. q = Some a \<and> ovs ?m a \<noteq> None"
  proof
    fix q' assume "q' \<in> set ps"
    then obtain b where "q' = Some b" "ovs m b \<noteq> None" using Cons.prems by auto
    then show "\<exists>a. q' = Some a \<and> ovs ?m a \<noteq> None" by (intro exI [of _ b]) simp
  qed
  then obtain m' where m': "write_outputs ps ds ?m = Inr m'" "next_addr m' = next_addr ?m" "\<forall>b. Some b \<notin> set ps \<longrightarrow> ovs m' b = ovs ?m b"
      "\<forall>b w. Some b \<in> set ps \<longrightarrow> ovs ?m b = Some w \<longrightarrow> (\<exists>k<length ps. ps ! k = Some b \<and> ovs m' b = Some (w\<lparr>ov_data := ds ! k\<rparr>))"
    using Cons.IH [of ?m] by blast
  have "\<exists>k<length (q # ps). (q # ps) ! k = Some b \<and> ovs m' b = Some (w\<lparr>ov_data := (d # ds) ! k\<rparr>)"
    if h: "Some b \<in> set (q # ps)" "ovs m b = Some w" for b w
  proof (cases "Some b \<in> set ps")
    case True
    obtain w' where w': "ovs ?m b = Some w'" "\<And>d. w'\<lparr>ov_data := d\<rparr> = w\<lparr>ov_data := d\<rparr>" using h(2) a by (cases "b = a") auto
    then obtain k where "k < length ps" "ps ! k = Some b" "ovs m' b = Some (w\<lparr>ov_data := ds ! k\<rparr>)" using m'(4) True by fastforce
    then show ?thesis by (intro exI [of _ "Suc k"]) simp
  next
    case False
    then have "b = a" "w = v" using h a by auto
    then show ?thesis using False m'(3) a by (intro exI [of _ 0]) simp
  qed
  then show ?case using m'(1-3) a by (simp add: write_outputs_def set_data_ok)
qed (simp add: write_outputs_def)

definition slots_ok :: "'f Model \<Rightarrow> ('f, addr) GeneratorParams \<Rightarrow> (string \<times> 'f OrtValue) list \<Rightarrow> State \<Rightarrow> bool" where
  "slots_ok md p ex st \<longleftrightarrow> length (st_inputs st) = extra_base md + length ex \<and> length (st_input_names st) = length (st_inputs st)
     \<and> length (st_outputs st) = 1 + ntensors md \<and> length (st_output_names st) = length (st_outputs st)"

lemma slots_ok_length:
  assumes "decoder_ok md p"
  shows "slots_ok md p ex st \<longleftrightarrow> length (st_inputs st) = length (in_slots md p ex n) \<and> length (st_input_names st) = length (st_inputs st)
     \<and> length (st_outputs st) = length (out_slots md p n) \<and> length (st_output_names st) = length (st_outputs st)"
  using cache_ok(5,6) [OF assms]
  by (simp add: slots_ok_def in_slots_def length_in_slots_base extra_base_def out_slots_def logits_slots_def present_slots_def Let_def)

text \<open>The session is called with the expected inputs and outputs, so it accepts.\<close>

lemma run_session:
  fixes md :: "'f Model"
  assumes acc: "accepts session md p ex" and n: "seq_len p \<le> n" "n < nmax_length p"
    and r: "dready md p ex n s (st, m)" and m: "mem_ok m" and sl: "slots_ok md p ex st" and ok: "decoder_ok md p"
  shows "\<exists>st' m' ins outs ds v. State_Run session (use_cuda_graph p) g nb (st, m) = Inr (st', m') \<and> session_wrote (st, m) (st', m')
     \<and> \<not> st_first_run st' \<and> mem_ok m' \<and> list_all2 matches (in_slots md p ex n) ins \<and> list_all2 matches_out (out_slots md p n) outs
     \<and> se_run session ins outs = Inr ds \<and> ovs m' (lg_raw (snd s)) = Some (v\<lparr>ov_data := ds ! 0\<rparr>)"
proof -
  note L = slots_ok_length [OF ok, of ex st n, THEN iffD1, OF sl]
  note T = slots_total(1) [OF ok, of ex s n] slots_total(2) [OF ok, of s n]
  let ?val = "\<lambda>q. the (ovs m (the q))"
  let ?ins = "zip (st_input_names st) (map ?val (st_inputs st))" and ?outs = "zip (st_output_names st) (map ?val (st_outputs st))"
  have i: "\<exists>a v. st_inputs st ! i = Some a \<and> ovs m a = Some v \<and> expect_in md p ex n i (st_input_names st ! i, v)" if "i < length (st_inputs st)" for i
    using dec.pair.ready_in [OF r, of i] that L T(1) by simp
  have o: "\<exists>a v. a \<in> dfp s \<and> st_outputs st ! i = Some a \<and> ovs m a = Some v \<and> value_ok v \<and> expect_out md p n i (st_output_names st ! i, v)"
    if "i < length (st_outputs st)" for i
    using dec.pair.ready_out [OF r, of i] that L T(2) by simp
  have ri: "map_res (read_ptr m) (st_inputs st) = Inr (map ?val (st_inputs st))"
    by (rule map_res_eq) (use i in \<open>fastforce simp: in_set_conv_nth deref_def\<close>)
  have ro: "map_res (read_ptr m) (st_outputs st) = Inr (map ?val (st_outputs st))"
    by (rule map_res_eq) (use o in \<open>fastforce simp: in_set_conv_nth deref_def\<close>)
  have mi: "list_all2 matches (in_slots md p ex n) ?ins"
    using i L by (fastforce simp: list_all2_conv_all_nth expect_in_def)
  have mo: "list_all2 matches_out (out_slots md p n) ?outs"
    using o L by (fastforce simp: list_all2_conv_all_nth expect_out_def)
  obtain ds where ds: "se_run session ?ins ?outs = Inr ds" "length ds = length ?outs"
      "\<forall>k<length ?outs. filled ((snd (?outs ! k))\<lparr>ov_data := ds ! k\<rparr>)"
    using acc n mi mo unfolding accepts_def by blast
  have lo: "length ds = length (st_outputs st)" using ds(2) L by simp
  have "\<forall>q\<in>set (st_outputs st). \<exists>a. q = Some a \<and> ovs m a \<noteq> None" using o by (fastforce simp: in_set_conv_nth)
  from write_outputs_ok [OF lo this] obtain m' where m': "write_outputs (st_outputs st) ds m = Inr m'" "next_addr m' = next_addr m"
      "\<forall>a. Some a \<notin> set (st_outputs st) \<longrightarrow> ovs m' a = ovs m a"
      "\<forall>a v. Some a \<in> set (st_outputs st) \<longrightarrow> ovs m a = Some v \<longrightarrow>
         (\<exists>k<length (st_outputs st). st_outputs st ! k = Some a \<and> ovs m' a = Some (v\<lparr>ov_data := ds ! k\<rparr>))" by blast
  have cg: "\<not> use_cuda_graph p" using ok unfolding decoder_ok_def by blast
  let ?st = "if st_first_run st then st\<lparr>st_first_run := False\<rparr> else st"
  have "State_Run session (use_cuda_graph p) g nb (st, m) = Inr (?st, m')"
    using ri ro ds(1) m'(1) cg by (simp add: State_Run_def)
  moreover have "session_wrote (st, m) (?st, m')"
  proof -
    have "\<exists>d. ovs m' a = Some (v\<lparr>ov_data := d\<rparr>) \<and> filled (v\<lparr>ov_data := d\<rparr>)" if h: "Some a \<in> set (st_outputs st)" "ovs m a = Some v" for a v
    proof -
      obtain k where k: "k < length (st_outputs st)" "st_outputs st ! k = Some a" "ovs m' a = Some (v\<lparr>ov_data := ds ! k\<rparr>)"
        using m'(4) h by blast
      then have "filled (v\<lparr>ov_data := ds ! k\<rparr>)" using ds(3) L h(2) by auto
      then show ?thesis using k(3) by blast
    qed
    then show ?thesis using m' by (auto simp: session_wrote_def)
  qed
  moreover have "mem_ok m'" unfolding mem_ok_def
  proof (intro allI impI)
    fix a assume "next_addr m' \<le> a"
    then have "ovs m a = None" using m m'(2) by (simp add: mem_ok_def)
    moreover from this have "Some a \<notin> set (st_outputs st)" using o by (fastforce simp: in_set_conv_nth)
    ultimately show "ovs m' a = None" using m'(3) by simp
  qed
  moreover have "\<exists>v. ovs m' (lg_raw (snd s)) = Some (v\<lparr>ov_data := ds ! 0\<rparr>)"
  proof -
    have lg: "lg_ready md p n (snd s) (st, m)" and sep: "dsep md ex s" and kv: "both (sep3 md ex) (inv2 md p ex) (kv_ready md p) n (fst s) (st, m)"
      using r by (auto simp: both_def)
    obtain v where v: "ovs m (lg_raw (snd s)) = Some v" "st_outputs st ! 0 = Some (lg_raw (snd s))"
      using lg by (auto simp: lg_ready_def lg_base_def)
    have "0 < length (st_outputs st)" using sl by (simp add: slots_ok_def)
    then have "Some (lg_raw (snd s)) \<in> set (st_outputs st)" using v(2) by (metis nth_mem)
    then obtain k where k: "k < length (st_outputs st)" "st_outputs st ! k = Some (lg_raw (snd s))" "ovs m' (lg_raw (snd s)) = Some (v\<lparr>ov_data := ds ! k\<rparr>)"
      using m'(4) v(1) by blast
    have "k = 0"
    proof (rule ccontr)
      assume "k \<noteq> 0"
      moreover have "k \<in> dos md s" unfolding T(2) using k(1) L by simp
      ultimately have "k \<in> os3 md (fst s)" by (simp add: either_def)
      then have "lg_raw (snd s) \<in> fp3 (fst s)" using d3.pair.ready_out [OF kv, of k] k(2) by auto
      then show False using sep by (cases s) (auto simp: apart_def lg_fp_def)
    qed
    then show ?thesis using k(3) by blast
  qed
  moreover have "\<not> st_first_run ?st" by simp
  ultimately show ?thesis using mi mo ds(1) by blast
qed

section \<open>The state\<close>

definition parts_of :: "'f DecState \<Rightarrow> parts" where
  "parts_of ds = ((((ds_extra ds, ds_input_ids ds), ds_position ds), ds_kv ds), ds_logits ds)"

abbreviation io_of :: "'f DecState \<Rightarrow> 'f io" where
  "io_of ds \<equiv> (ds_state ds, ds_mem ds)"

text \<open>Ready to run at length \<open>n\<close>: on the first run as constructed, later after the run at length \<open>n - 1\<close>.\<close>

definition dec_ok :: "'f Model \<Rightarrow> ('f, addr) GeneratorParams \<Rightarrow> (string \<times> 'f OrtValue) list \<Rightarrow> nat \<Rightarrow> 'f DecState \<Rightarrow> bool" where
  "dec_ok md p ex n ds \<longleftrightarrow> decoder_ok md p \<and> mem_ok (ds_mem ds) \<and> slots_ok md p ex (ds_state ds)
     \<and> (if st_first_run (ds_state ds) then n = seq_len p \<and> dready md p ex n (parts_of ds) (io_of ds)
        else \<exists>k. n = Suc k \<and> seq_len p \<le> k \<and> drested md p ex k (parts_of ds) (io_of ds))"

lemma update_parts:
  assumes "dupd md (toks, idx) n (parts_of ds) (io_of ds) = Inr (s, io)"
  shows "\<exists>ds'. DecoderOnly_UpdateInputsOutputs md toks idx n ds = Inr ds' \<and> parts_of ds' = s \<and> io_of ds' = io"
  using assms
  by (auto simp: in_turn_def no_upd_def ids_upd_def pos_upd_def kv_upd_def lg_upd_def parts_of_def
      DecoderOnly_UpdateInputsOutputs_def res_bind_eq_Inr)

text \<open>Before the session runs, the state is ready at the current length.\<close>

lemma decoder_prepare:
  assumes ok: "dec_ok md p ex n ds" and g: "run_args_ok p toks idx"
  shows "\<exists>ds1. (if st_first_run (ds_state ds) then Inr ds else DecoderOnly_UpdateInputsOutputs md toks idx n ds) = Inr ds1
     \<and> dready md p ex n (parts_of ds1) (io_of ds1) \<and> mem_ok (ds_mem ds1) \<and> slots_ok md p ex (ds_state ds1) \<and> seq_len p \<le> n"
proof (cases "st_first_run (ds_state ds)")
  case True
  then show ?thesis using ok by (auto simp: dec_ok_def)
next
  case False
  then obtain k where k: "n = Suc k" "seq_len p \<le> k" "drested md p ex k (parts_of ds) (io_of ds)"
    and d: "decoder_ok md p" "mem_ok (snd (io_of ds))" and sl: "slots_ok md p ex (ds_state ds)" using ok by (auto simp: dec_ok_def)
  have ga: "good_args p (toks, idx)" using g by (simp add: good_args_def)
  note L = slots_ok_length [OF d(1), of ex "ds_state ds" k, THEN iffD1, OF sl]
  have i: "i < length (st_inputs (fst (io_of ds)))" if "i \<in> dis md ex (parts_of ds)" for i
    using that L unfolding slots_total(1) [OF d(1), of ex "parts_of ds" k] by simp
  have o: "i < length (st_outputs (fst (io_of ds)))" if "i \<in> dos md (parts_of ds)" for i
    using that L unfolding slots_total(2) [OF d(1), of "parts_of ds" k] by simp
  obtain s io where u: "dupd md (toks, idx) (Suc k) (parts_of ds) (io_of ds) = Inr (s, io)" "dready md p ex (Suc k) s io"
      "touches (dfp (parts_of ds)) (dis md ex (parts_of ds)) (dos md (parts_of ds)) (io_of ds) io"
    using dec.pair.update [OF k(3) d(2) ga i o] by blast
  obtain ds1 where ds1: "DecoderOnly_UpdateInputsOutputs md toks idx n ds = Inr ds1" "parts_of ds1 = s" "io_of ds1 = io"
    using update_parts [OF u(1)] k(1) by blast
  have "slots_ok md p ex (ds_state ds1)" using u(3) sl ds1(3) by (auto simp: touches_def slots_ok_def)
  moreover have "mem_ok (ds_mem ds1)" using touches_mem_ok [OF u(3)] ds1(3) by auto
  ultimately show ?thesis using u(2) ds1 k False by auto
qed

text \<open>A run: the session accepts, and the scores are those of its first output.\<close>

lemma decoder_run:
  fixes md :: "'f::linorder Model"
  assumes ok: "dec_ok md p ex n ds" and n: "n < nmax_length p" and g: "run_args_ok p toks idx"
    and acc: "accepts session md p ex" and se: "0 < length (md_sessions md)" "md_sessions md ! 0 = session"
  shows "\<exists>ds' ins outs os. DecoderOnly_State_Run cx of_bits md p ds n toks idx = Inr (scores_of cx of_bits md p n (os ! 0), ds')
     \<and> dec_ok md p ex (Suc n) ds' \<and> length (os ! 0) = rows p * nat (run_len p n) * nvocab p
     \<and> list_all2 matches (in_slots md p ex n) ins \<and> list_all2 matches_out (out_slots md p n) outs \<and> se_run session ins outs = Inr os"
proof -
  have d: "decoder_ok md p" using ok by (simp add: dec_ok_def)
  obtain ds1 where p1: "(if st_first_run (ds_state ds) then Inr ds else DecoderOnly_UpdateInputsOutputs md toks idx n ds) = Inr ds1"
      and r: "dready md p ex n (parts_of ds1) (io_of ds1)" and m: "mem_ok (ds_mem ds1)" and sl: "slots_ok md p ex (ds_state ds1)"
      and sn: "seq_len p \<le> n"
    using decoder_prepare [OF ok g] by blast
  have ids: "ids_inv md p n (ds_input_ids ds1) (io_of ds1)" using r by (simp add: both_def parts_of_def)
  then have nb: "get (ii_shape (ds_input_ids ds1)) 0 = Inr (BatchBeamSize p)" by (auto simp: ids_inv_def)
  obtain st m1 ins outs os v where s1: "State_Run session (use_cuda_graph p) None (BatchBeamSize p) (io_of ds1) = Inr (st, m1)"
      "session_wrote (io_of ds1) (st, m1)" "\<not> st_first_run st" "mem_ok m1" and call: "list_all2 matches (in_slots md p ex n) ins"
      "list_all2 matches_out (out_slots md p n) outs" "se_run session ins outs = Inr os" and raw: "ovs m1 (lg_raw (ds_logits ds1)) = Some (v\<lparr>ov_data := os ! 0\<rparr>)"
    using run_session [OF acc sn n r m sl d, of None "BatchBeamSize p"] by (auto simp: parts_of_def)
  have T: "dos md (parts_of ds1) = {..<length (st_outputs (ds_state ds1))}"
    using slots_total(2) [OF d, of "parts_of ds1" n] slots_ok_length [OF d, of ex "ds_state ds1" n] sl by simp
  have ran: "dran md p ex n (parts_of ds1) (st, m1)"
  proof (rule dec.pair.run [OF r s1(2)])
    fix a assume "Some a \<in> set (st_outputs (fst (io_of ds1)))"
    then show "\<exists>i\<in>dos md (parts_of ds1). st_outputs (fst (io_of ds1)) ! i = Some a"
      unfolding T by (auto simp: in_set_conv_nth)
  qed (simp add: T)
  then have lg: "lg_ran md p n (ds_logits ds1) (st, m1)" by (simp add: both_def parts_of_def)
  obtain lg' m2 where get: "Logits_Get cx of_bits md p (ds_logits ds1) m1 = Inr (scores_of cx of_bits md p n (os ! 0), lg', m2)"
      "lg_rested md p n lg' (st, m2)" "lg_step md p n st (ds_logits ds1, m1) (lg', m2)"
    using Logits_Get_ok [OF lg s1(4) raw, of cx of_bits] by auto
  let ?ds = "ds1\<lparr>ds_state := st, ds_mem := m2, ds_logits := lg'\<rparr>"
  have step: "touches (lg_fp (ds_logits ds1)) {} {0} (st, m1) (st, m2)" "lg_fp lg' \<subseteq> lg_fp (ds_logits ds1) \<union> {next_addr m1..}"
    using get(3) by (auto simp: lg_step_def touches_def)
  have rested: "drested md p ex n (parts_of ?ds) (st, m2)"
  proof -
    let ?in = "(((ds_extra ds1, ds_input_ids ds1), ds_position ds1), ds_kv ds1)"
    have sep: "dsep md ex (?in, ds_logits ds1)" and inr: "both (sep3 md ex) (inv2 md p ex) (kv_ran md p) n ?in (st, m1)"
      using ran by (auto simp: both_def parts_of_def)
    have b: "fp3 ?in \<subseteq> {..<next_addr m1}" using d3.pair.ran_fp [OF inr] by simp
    have dis: "fp3 ?in \<inter> lg_fp (ds_logits ds1) = {}" "os3 md ?in \<inter> {0} = {}" using sep by (auto simp: apart_def)
    have "agrees (fp3 ?in) (is3 md ex ?in) (os3 md ?in) (st, m1) (st, m2)"
      by (rule touches_agrees [OF step(1)]) (use b dis in auto)
    then have "both (sep3 md ex) (inv2 md p ex) (kv_ran md p) n ?in (st, m2)" by (rule d3.pair.ran_frame [OF inr])
    moreover have "fp3 ?in \<inter> lg_fp lg' = {}" using fp_disjoint_step [OF step(2) b] dis(1) by auto
    then have "dsep md ex (?in, lg')" using sep by (auto simp: apart_def)
    ultimately show ?thesis using get(2) by (simp add: both_def parts_of_def)
  qed
  have wr: "st_inputs st = st_inputs (ds_state ds1)" "st_outputs st = st_outputs (ds_state ds1)"
    "st_input_names st = st_input_names (ds_state ds1)" "st_output_names st = st_output_names (ds_state ds1)"
    using s1(2) by (simp_all add: session_wrote_def)
  have "dec_ok md p ex (Suc n) ?ds"
    using rested d sn s1(3) sl get(3) wr by (auto simp: dec_ok_def slots_ok_def lg_step_def)
  moreover have "DecoderOnly_State_Run cx of_bits md p ds n toks idx = Inr (scores_of cx of_bits md p n (os ! 0), ?ds)"
    using p1 nb s1(1) get(1) se by (simp add: DecoderOnly_State_Run_def)
  moreover have "length (os ! 0) = rows p * nat (run_len p n) * nvocab p"
    using lg raw by (auto simp: lg_ran_def lg_ready_def lg_base_def raw_ok_def value_ok_def mult.assoc)
  ultimately show ?thesis using call by blast
qed

end
