(* ===== verification/DecoderStart.thy ===== *)
theory DecoderStart
  imports DecoderLaws
begin

text \<open>
  The constructor of the decoder-only state: it allocates the tensors of every component, registers them in
  the order the session expects, and leaves a state that is ready for the run on the prompt.
\<close>

section \<open>Constructing the cache and the logits\<close>

lemma CreateTensors_ok:
  assumes sh: "\<And>d. d \<in> set shape \<Longrightarrow> 0 \<le> d" and "mem_ok m"
  shows "\<exists>m'. CreateTensors n shape type m = Inr ([next_addr m..<next_addr m + n], m') \<and> mem_grows m m' \<and> next_addr m' = next_addr m + n
     \<and> (\<forall>a. next_addr m \<le> a \<longrightarrow> a < next_addr m + n \<longrightarrow>
          ovs m' a = Some \<lparr>ov_type = type, ov_shape = shape, ov_data = replicate (GetElementCount shape) Uninit\<rparr>)"
  using assms(2)
proof (induction n arbitrary: m)
  case (Suc n)
  let ?v = "\<lparr>ov_type = type, ov_shape = shape, ov_data = replicate (GetElementCount shape) Uninit\<rparr>"
  let ?m = "m\<lparr>next_addr := Suc (next_addr m), ovs := (ovs m)(next_addr m \<mapsto> ?v)\<rparr>"
  note g = mem_grows_alloc [OF Suc.prems, of ?v]
  have "mem_ok ?m" using g by (simp add: mem_grows_def)
  then obtain m' where m': "CreateTensors n shape type ?m = Inr ([next_addr ?m..<next_addr ?m + n], m')" "mem_grows ?m m'"
      "next_addr m' = next_addr ?m + n" "\<forall>a. next_addr ?m \<le> a \<longrightarrow> a < next_addr ?m + n \<longrightarrow> ovs m' a = Some ?v"
    using Suc.IH by blast
  have "ovs m' a = Some ?v" if "next_addr m \<le> a" "a < next_addr m + Suc n" for a
    using that m'(2,4) by (cases "a = next_addr m") (auto simp: mem_grows_def)
  moreover have "CreateTensors (Suc n) shape type m = Inr ([next_addr m..<next_addr m + Suc n], m')"
    using m'(1) CreateTensor_ok [OF sh, of shape type m] by (simp add: upt_conv_Cons)
  ultimately show ?case using m' mem_grows_trans [OF g m'(2)] by simp
qed (simp add: mem_grows_refl)

lemma cache_names_Inr:
  "cache_names ps md \<noteq> [] \<Longrightarrow> layer_names ps (layers md) = Inr (cache_names ps md)"
  by (auto simp: cache_names_def split: sum.splits)

text \<open>The cache as it is constructed, with the address of its empty tensor.\<close>

definition kv_init :: "'f Model \<Rightarrow> ('f, 't) GeneratorParams \<Rightarrow> addr \<Rightarrow> KV_Cache" where
  "kv_init md p e = \<lparr>kv_layer_count = layers md, kv_share_buffer = False, kv_shape = cache_shape md p (seq_len p),
     kv_type = cache_type md, kv_empty_past = e, kv_pasts = replicate (ntensors md) None,
     kv_presents = map Some [Suc e..<Suc e + ntensors md], kv_input_names = past_names md, kv_output_names = present_names md,
     kv_input_index = 0, kv_output_index = 0\<rparr>"

lemma kv_new:
  assumes ok: "decoder_ok md p" and m: "mem_ok m"
  shows "\<exists>m'. KV_Cache_new md p m = Inr (kv_init md p (next_addr m), m') \<and> mem_grows m m' \<and> next_addr m' = Suc (next_addr m) + ntensors md
     \<and> empty_val md p m' (next_addr m)
     \<and> (\<forall>a. next_addr m < a \<longrightarrow> a < next_addr m' \<longrightarrow> (\<exists>v. ovs m' a = Some v \<and> kv_val md p (seq_len p) v))"
proof -
  note c = cache_ok [OF ok]
  have names: "past_names md \<noteq> []" "present_names md \<noteq> []" using c(4-6) by auto
  have share: "(past_present_share_buffer (search p) \<and> num_beams (search p) = 1) = False" and s: "1 \<le> sequence_length p"
    using ok unfolding decoder_ok_def by blast+
  have ty: "GetInputDataType (md_session_info md) (past_names md ! 0) = Inr (cache_type md)"
    using c(1) unfolding cache_type_def by (intro GetInputDataType_type) auto
  let ?e = "\<lparr>ov_type = cache_type md, ov_shape = cache_shape md p 0, ov_data = replicate (GetElementCount (cache_shape md p 0)) Uninit\<rparr>"
  let ?m = "m\<lparr>next_addr := Suc (next_addr m), ovs := (ovs m)(next_addr m \<mapsto> ?e)\<rparr>"
  have CT: "CreateTensor (cache_shape md p 0) (cache_type md) m = Inr (next_addr m, ?m)"
    by (rule CreateTensor_ok [OF cache_shape_pos [OF ok]])
  note g = mem_grows_alloc [OF m, of ?e]
  have "mem_ok ?m" using g by (simp add: mem_grows_def)
  from CreateTensors_ok [OF _ this, of "cache_shape md p (seq_len p)" "layers md * 2" "cache_type md"]
  obtain m' where m': "CreateTensors (layers md * 2) (cache_shape md p (seq_len p)) (cache_type md) ?m
        = Inr ([next_addr ?m..<next_addr ?m + layers md * 2], m')" "mem_grows ?m m'" "next_addr m' = next_addr ?m + layers md * 2"
      "\<forall>a. next_addr ?m \<le> a \<longrightarrow> a < next_addr ?m + layers md * 2 \<longrightarrow> ovs m' a = Some \<lparr>ov_type = cache_type md,
         ov_shape = cache_shape md p (seq_len p), ov_data = replicate (GetElementCount (cache_shape md p (seq_len p))) Uninit\<rparr>"
    using cache_shape_pos [OF ok] by blast
  have shapes: "[BatchBeamSize p, kv_heads md, 0, kv_head_size md] = cache_shape md p 0"
    "(cache_shape md p 0)[2 := sequence_length p] = cache_shape md p (seq_len p)" using s by (simp_all add: cache_shape_def)
  have "KV_Cache_new md p m = Inr (kv_init md p (next_addr m), m')"
    using m'(1) CT ty names cache_names_Inr [OF names(1) [unfolded past_names_def]] cache_names_Inr [OF names(2) [unfolded present_names_def]]
    unfolding KV_Cache_new_def share Let_def shapes
    by (simp add: past_names_def [symmetric] present_names_def [symmetric] shapes kv_init_def mult.commute)
  moreover have "ovs m' (next_addr m) = Some ?e" using m'(2) by (simp add: mem_grows_def)
  then have "empty_val md p m' (next_addr m)"
    by (simp add: empty_val_def kv_val_def filled_def value_ok_def) (simp add: cache_shape_def)
  ultimately show ?thesis
    using m'(2-4) mem_grows_trans [OF g m'(2)] by (auto simp: mult.commute kv_val_def value_ok_def)
qed

lemma lg_new:
  assumes ok: "decoder_ok md p" and m: "mem_ok m"
  shows "\<exists>m' v. Logits_new md p m = Inr (\<lparr>lg_shape = [int (rows p), run_len p (seq_len p), vocab_size p],
       lg_type = output_type md (logits_name md), lg_last_tokens = None, lg_raw = next_addr m, lg_index = 0\<rparr>, m')
     \<and> mem_grows m m' \<and> next_addr m' = Suc (next_addr m) \<and> ovs m' (next_addr m) = Some v \<and> raw_ok md p (seq_len p) v"
proof -
  let ?sh = "[int (rows p), sequence_length p, vocab_size p]" and ?t = "output_type md (logits_name md)"
  have t: "?t \<in> {ONNX_FLOAT, ONNX_FLOAT16}" and s: "1 \<le> sequence_length p" using ok unfolding decoder_ok_def by blast+
  have ty: "GetOutputDataType (md_session_info md) (logits_name md) = Inr ?t" by (rule GetOutputDataType_type) (use t in auto)
  have "\<And>d. d \<in> set ?sh \<Longrightarrow> 0 \<le> d" using s vocab_pos [OF ok] by auto
  from CreateTensor_ok [OF this, of ?sh ?t m]
  have CT: "CreateTensor ?sh ?t m = Inr (next_addr m, m\<lparr>next_addr := Suc (next_addr m),
     ovs := (ovs m)(next_addr m \<mapsto> \<lparr>ov_type = ?t, ov_shape = ?sh, ov_data = replicate (GetElementCount ?sh) Uninit\<rparr>)\<rparr>)" by simp
  show ?thesis
    using CT ty mem_grows_alloc [OF m] rows_BatchBeamSize(2) [OF ok]
    by (auto simp: Logits_new_def Let_def raw_ok_def run_len_def value_ok_def)
qed

section \<open>Registering the components\<close>

lemma add_loop:
  assumes "n \<le> length ins" "n \<le> length qs" "n \<le> length outs"
  shows "for_res (\<lambda>i st. res_bind (get ins i) (\<lambda>iname. res_bind (get qs i) (\<lambda>q.
      res_bind (get outs i) (\<lambda>oname. Inr (add_output q oname (add_input x iname st)))))) [0..<n] st
    = Inr (st\<lparr>st_inputs := st_inputs st @ replicate n x, st_input_names := st_input_names st @ take n ins,
        st_outputs := st_outputs st @ take n qs, st_output_names := st_output_names st @ take n outs\<rparr>)"
  using assms
proof (induction n)
  case (Suc n)
  then show ?case by (simp add: add_input_def add_output_def take_Suc_conv_app_nth replicate_append_same)
qed simp

lemma kv_add:
  assumes "decoder_ok md p"
  shows "KV_Cache_Add (kv_init md p e) st = Inr ((kv_init md p e)\<lparr>kv_input_index := length (st_inputs st), kv_output_index := length (st_outputs st)\<rparr>,
     st\<lparr>st_inputs := st_inputs st @ replicate (ntensors md) (Some e), st_input_names := st_input_names st @ past_names md,
        st_outputs := st_outputs st @ map Some [Suc e..<Suc e + ntensors md], st_output_names := st_output_names st @ present_names md\<rparr>)"
  using cache_ok(5,6) [OF assms]
    add_loop [of "ntensors md" "past_names md" "map Some [Suc e..<Suc e + ntensors md]" "present_names md" "Some e" st]
  by (simp add: KV_Cache_Add_def kv_init_def mult.commute Let_def del: upt_Suc)

lemma extra_add:
  "ExtraInputs_Add p (ExtraInputs_new p) st = Inr (st\<lparr>st_inputs := st_inputs st @ map (Some \<circ> snd) (extra_inputs p),
     st_input_names := st_input_names st @ map fst (extra_inputs p)\<rparr>)"
proof -
  let ?body = "\<lambda>i st. res_bind (get (extra_inputs p) i) (\<lambda>e. res_bind (get (map snd (extra_inputs p)) i) (\<lambda>q. Inr (add_input (Some q) (fst e) st)))"
  have "for_res ?body [0..<n] st = Inr (st\<lparr>st_inputs := st_inputs st @ map (Some \<circ> snd) (take n (extra_inputs p)),
      st_input_names := st_input_names st @ map fst (take n (extra_inputs p))\<rparr>)" if "n \<le> length (extra_inputs p)" for n
    using that
  proof (induction n)
    case (Suc n)
    then show ?case by (simp add: add_input_def take_Suc_conv_app_nth)
  qed simp
  from this [of "length (extra_inputs p)"] show ?thesis by (simp add: ExtraInputs_Add_def ExtraInputs_new_def)
qed

lemma pos_add:
  assumes "pi_has_posid pn = has_posid md" "pi_has_mask pn = has_mask md" "length (st_inputs st) = 1"
  shows "PositionInputs_Add md (pn, st) =
    (pn\<lparr>pi_posid_index := (if has_posid md then 1 else pi_posid_index pn), pi_mask_index := (if has_mask md then mask_index md else pi_mask_index pn)\<rparr>,
     st\<lparr>st_inputs := st_inputs st @ (if has_posid md then [Some (pi_posids pn)] else []) @ (if has_mask md then [Some (pi_mask pn)] else []),
        st_input_names := st_input_names st @ (if has_posid md then [posid_name md] else []) @ (if has_mask md then [mask_name md] else [])\<rparr>)"
  using assms by (simp add: PositionInputs_Add_def AddPositionIDs_def AddAttentionMask_def add_input_def mask_index_def)

section \<open>Ready for the prompt\<close>

lemma mem_grows_same: "mem_grows m m' \<Longrightarrow> a < next_addr m \<Longrightarrow> ovs m' a = ovs m a"
  by (simp add: mem_grows_def)

lemma pos_start_ready:
  assumes ok: "decoder_ok md p" and st: "pos_start md p pn m" and b: "pos_fp pn \<subseteq> {..<next_addr m}"
    and posid: "has_posid md \<Longrightarrow> st_inputs u ! 1 = Some (pi_posids pn) \<and> st_input_names u ! 1 = posid_name md"
    and mask: "has_mask md \<Longrightarrow> st_inputs u ! mask_index md = Some (pi_mask pn) \<and> st_input_names u ! mask_index md = mask_name md"
  shows "pos_inv md p (seq_len p) (pn\<lparr>pi_posid_index := (if has_posid md then 1 else pi_posid_index pn),
     pi_mask_index := (if has_mask md then mask_index md else pi_mask_index pn)\<rparr>) (u, m)"
proof -
  have s: "1 \<le> sequence_length p" using ok unfolding decoder_ok_def by blast
  show ?thesis
    using ok st b posid mask s
    by (auto simp: pos_inv_def posid_inv_def mask_inv_def pos_start_def pos_fp_def posid_fp_def mask_fp_def)
qed

lemma kv_start_ready:
  assumes ok: "decoder_ok md p" and e: "empty_val md p m e" "Suc e + ntensors md \<le> next_addr m"
    and v: "\<forall>a. e < a \<longrightarrow> a < Suc e + ntensors md \<longrightarrow> (\<exists>v. ovs m a = Some v \<and> kv_val md p (seq_len p) v)"
    and i: "\<And>i. i < ntensors md \<Longrightarrow> st_inputs u ! (kv_base md + i) = Some e \<and> st_input_names u ! (kv_base md + i) = past_names md ! i"
    and o: "\<And>i. i < ntensors md \<Longrightarrow> st_outputs u ! (1 + i) = Some (Suc e + i) \<and> st_output_names u ! (1 + i) = present_names md ! i"
  shows "kv_ready md p (seq_len p) ((kv_init md p e)\<lparr>kv_input_index := kv_base md, kv_output_index := 1\<rparr>) (u, m)"
proof -
  let ?kv = "(kv_init md p e)\<lparr>kv_input_index := kv_base md, kv_output_index := 1\<rparr>"
  have cfp: "cfp i ?kv = {Suc e + i}" if "i < ntensors md" for i using that by (simp add: cfp_def kv_init_def del: upt_Suc)
  have "past_ok md p (seq_len p) e (cell ?kv (u, m) i) \<and> cell_out md p (seq_len p) (cell ?kv (u, m) i)" if "i < ntensors md" for i
    using i [OF that] o [OF that] v that by (auto simp: past_ok_def cell_out_def cell_def kv_init_def simp del: upt_Suc)
  moreover have "kv_apart md ?kv (next_addr m)" using e(2) cfp by (auto simp: kv_apart_def) (simp_all add: kv_init_def)
  moreover have "kv_static md ?kv" "kv_shape ?kv = cache_shape md p (seq_len p)" "kv_empty_past ?kv = e"
    by (simp_all add: kv_static_def kv_init_def del: upt_Suc)
  ultimately show ?thesis using ok e(1) i o by (simp add: kv_ready_def)
qed

text \<open>The extra inputs the caller supplies.\<close>

definition extras_ok :: "('f, addr) GeneratorParams \<Rightarrow> (string \<times> 'f OrtValue) list \<Rightarrow> 'f mem \<Rightarrow> bool" where
  "extras_ok p ex m \<longleftrightarrow> length (extra_inputs p) = length ex \<and> (\<forall>k<length ex. fst (extra_inputs p ! k) = fst (ex ! k)
     \<and> ovs m (snd (extra_inputs p ! k)) = Some (snd (ex ! k)) \<and> filled (snd (ex ! k)))"

lemma extra_start_ready:
  assumes x: "extras_ok p ex m" and m: "mem_ok m" and g: "mem_grows m m'"
    and i: "\<And>k. k < length ex \<Longrightarrow> st_inputs u ! (extra_base md + k) = Some (snd (extra_inputs p ! k))
       \<and> st_input_names u ! (extra_base md + k) = fst (extra_inputs p ! k)"
  shows "extra_inv md ex n (ExtraInputs_new p) (u, m')" and "ex_fp (ExtraInputs_new p) \<subseteq> {..<next_addr m}"
proof -
  have a: "snd (extra_inputs p ! k) < next_addr m" if "k < length ex" for k
    using x that mem_ok_bound [OF m] by (auto simp: extras_ok_def)
  then show "extra_inv md ex n (ExtraInputs_new p) (u, m')"
    using x i mem_grows_same [OF g] g by (fastforce simp: extra_inv_def ExtraInputs_new_def extras_ok_def mem_grows_def)
  show "ex_fp (ExtraInputs_new p) \<subseteq> {..<next_addr m}"
    using a x by (auto simp: ExtraInputs_new_def extras_ok_def in_set_conv_nth) (metis snd_conv)
qed

text \<open>The input and output lists of the constructed state.\<close>

definition pos_list :: "'f Model \<Rightarrow> 'c \<Rightarrow> 'c \<Rightarrow> 'c list" where
  "pos_list md a b = (if has_posid md then [a] else []) @ (if has_mask md then [b] else [])"

lemma pos_list_nth:
  "length (pos_list md a b) = kv_base md - 1" "has_posid md \<Longrightarrow> (pos_list md a b @ xs) ! 0 = a"
  "has_mask md \<Longrightarrow> (x # pos_list md a b @ xs) ! mask_index md = b"
  "(x # pos_list md a b @ xs) ! (kv_base md + i) = xs ! i"
  by (simp_all add: pos_list_def kv_base_def mask_index_def)

lemma decoder_new:
  fixes md :: "'f Model"
  assumes ok: "decoder_ok md p" and m: "mem_ok m" and lens: "length lens = rows p" and x: "extras_ok p ex m"
  shows "\<exists>ds lens'. DecoderOnly_State_new md m lens p = Inr (ds, lens') \<and> dec_ok md p ex (seq_len p) ds"
proof -
  obtain ii m1 v where ii: "InputIDs_new md p m = Inr (ii, m1)" and g1: "mem_grows m m1" and iv: "ii_value ii \<in> {next_addr m..<next_addr m1}"
      and if': "ii_name ii = ids_name md" "ii_type ii = input_type md (ids_name md)" "ii_shape ii = [BatchBeamSize p, sequence_length p]"
      and iw: "ovs m1 (ii_value ii) = Some v" "matches (ids_slots md p (seq_len p) ! 0) (ids_name md, v)"
    using ids_new [OF ok m] by blast
  have mm1: "mem_ok m1" using g1 by (simp add: mem_grows_def)
  let ?lg = "\<lparr>lg_shape = [int (rows p), run_len p (seq_len p), vocab_size p], lg_type = output_type md (logits_name md),
      lg_last_tokens = None, lg_raw = next_addr m1, lg_index = 0\<rparr>"
  obtain m2 r where lg: "Logits_new md p m1 = Inr (?lg, m2)" and g2: "mem_grows m1 m2" and n2: "next_addr m2 = Suc (next_addr m1)"
      and r: "ovs m2 (next_addr m1) = Some r" "raw_ok md p (seq_len p) r"
    using lg_new [OF ok mm1] by blast
  have mm2: "mem_ok m2" using g2 by (simp add: mem_grows_def)
  let ?e = "next_addr m2"
  obtain m3 where kv: "KV_Cache_new md p m2 = Inr (kv_init md p ?e, m3)" and g3: "mem_grows m2 m3"
      and n3: "next_addr m3 = Suc ?e + ntensors md" and ev: "empty_val md p m3 ?e"
      and pv: "\<forall>a. ?e < a \<longrightarrow> a < next_addr m3 \<longrightarrow> (\<exists>v. ovs m3 a = Some v \<and> kv_val md p (seq_len p) v)"
    using kv_new [OF ok mm2] by blast
  have mm3: "mem_ok m3" using g3 by (simp add: mem_grows_def)
  obtain pn m4 lens' where pn: "PositionInputs_new md p lens m3 = Inr (pn, lens', m4)" and g4: "mem_grows m3 m4"
      and pf: "pos_fp pn \<subseteq> {next_addr m3..<next_addr m4}" and ps: "pos_start md p pn m4"
    using pos_new [OF ok mm3 lens] by blast
  have n4: "next_addr m \<le> next_addr m1" "next_addr m3 \<le> next_addr m4" using g1 g4 by (simp_all add: mem_grows_def)
  let ?kv = "(kv_init md p ?e)\<lparr>kv_input_index := kv_base md, kv_output_index := 1\<rparr>"
  let ?pn = "pn\<lparr>pi_posid_index := (if has_posid md then 1 else pi_posid_index pn), pi_mask_index := (if has_mask md then mask_index md else pi_mask_index pn)\<rparr>"
  let ?ei = "ExtraInputs_new p" and ?ii = "ii\<lparr>ii_index := 0\<rparr>"
  let ?st = "\<lparr>st_input_names = ids_name md # pos_list md (posid_name md) (mask_name md) @ past_names md @ map fst (extra_inputs p),
      st_output_names = logits_name md # present_names md,
      st_inputs = Some (ii_value ii) # pos_list md (Some (pi_posids pn)) (Some (pi_mask pn)) @ replicate (ntensors md) (Some ?e) @ map (Some \<circ> snd) (extra_inputs p),
      st_outputs = Some (next_addr m1) # map Some [Suc ?e..<Suc ?e + ntensors md], st_first_run = True, st_current_batch_size = 0, st_run_options = []\<rparr>"
  let ?ds = "\<lparr>ds_state = ?st, ds_mem = m4, ds_input_ids = ?ii, ds_logits = ?lg, ds_kv = ?kv, ds_position = ?pn, ds_extra = ?ei\<rparr>"
  have ph: "pi_has_posid pn = has_posid md" "pi_has_mask pn = has_mask md" using ps by (simp_all add: pos_start_def)
  have "Suc (length (pos_list md a b)) = kv_base md" for a b :: 'c by (simp add: pos_list_def kv_base_def)
  note kb = this
  have eq: "DecoderOnly_State_new md m lens p = Inr (?ds, lens')"
    using ii lg kv pn kb [of "Some (pi_posids pn)" "Some (pi_mask pn)"] if'(1)
    by (simp add: DecoderOnly_State_new_def InputIDs_Add_def State_new_def add_input_def pos_add [OF ph] Logits_Add_def add_output_def
        kv_add [OF ok] extra_add pos_list_def [symmetric] Let_def del: upt_Suc)
  note c = cache_ok [OF ok]
  have g24: "mem_grows m2 m4" and g14: "mem_grows m1 m4" and gm4: "mem_grows m m4"
    using mem_grows_trans [OF g3 g4] mem_grows_trans [OF g2] mem_grows_trans [OF g1] by blast+
  have extra: "extra_inv md ex (seq_len p) ?ei (?st, m4)" "ex_fp ?ei \<subseteq> {..<next_addr m}"
  proof -
    have i: "st_inputs ?st ! (extra_base md + k) = Some (snd (extra_inputs p ! k)) \<and> st_input_names ?st ! (extra_base md + k) = fst (extra_inputs p ! k)"
      if "k < length ex" for k
    proof -
      have b: "extra_base md + k = kv_base md + (ntensors md + k)" using c(5) by (simp add: extra_base_def kv_base_def)
      show ?thesis using that x c(5) unfolding b by (simp add: pos_list_nth(4) nth_append extras_ok_def)
    qed
    show "extra_inv md ex (seq_len p) ?ei (?st, m4)" "ex_fp ?ei \<subseteq> {..<next_addr m}" by (rule extra_start_ready [OF x m gm4 i]; assumption)+
  qed
  have ids: "ids_inv md p (seq_len p) ?ii (?st, m4)"
    using ok if' iw iv mem_grows_same [OF g14] g14 by (auto simp: ids_inv_def mem_grows_def)
  have pos: "pos_inv md p (seq_len p) ?pn (?st, m4)"
    by (rule pos_start_ready [OF ok ps]) (use pf in \<open>auto simp: pos_list_nth(2,3)\<close>)
  have kvr: "kv_ready md p (seq_len p) ?kv (?st, m4)"
  proof (rule kv_start_ready [OF ok])
    show "empty_val md p m4 ?e" using ev mem_grows_same [OF g4, of ?e] n3 by (simp add: empty_val_def)
    show "Suc ?e + ntensors md \<le> next_addr m4" using n3 n4 by simp
    show "\<forall>a>?e. a < Suc ?e + ntensors md \<longrightarrow> (\<exists>v. ovs m4 a = Some v \<and> kv_val md p (seq_len p) v)"
      using pv mem_grows_same [OF g4] n3 by simp
  qed (use c(5,6) in \<open>auto simp: pos_list_nth(4) nth_append simp del: upt_Suc\<close>)
  have lgr: "lg_ready md p (seq_len p) ?lg (?st, m4)"
    using ok r mem_grows_same [OF g24, of "next_addr m1"] n2 n3 n4 by (auto simp: lg_ready_def lg_base_def)
  have kf: "kv_fp ?kv \<subseteq> {?e..<next_addr m3}"
    using n3 by (auto simp: kv_fp_def cfp_def kv_init_def simp del: upt_Suc)
  have pf': "pos_fp ?pn = pos_fp pn" by (simp add: pos_fp_def posid_fp_def mask_fp_def)
  have len: "slots_ok md p ex ?st"
    using c(5,6) x kb [of "Some (pi_posids pn)" "Some (pi_mask pn)"] kb [of "posid_name md" "mask_name md"]
    by (simp add: slots_ok_def extras_ok_def extra_base_def kv_base_def del: upt_Suc)
  have f1: "fp1 (?ei, ?ii) \<subseteq> {..<next_addr m1}" using extra(2) iv n4 by (auto simp: either_def)
  have f2: "fp2 ((?ei, ?ii), ?pn) \<subseteq> {..<next_addr m1} \<union> {next_addr m3..}" using f1 pf pf' by (auto simp: either_def)
  have f3: "fp3 (((?ei, ?ii), ?pn), ?kv) \<subseteq> {..<next_addr m1} \<union> {next_addr m2..}"
    using f2 kf n3 by (fastforce simp: either_def [of fp2])
  have s1: "sep1 md ex (?ei, ?ii)" using extra(2) iv by (auto simp: apart_def extra_base_def)
  have s2: "sep2 md ex ((?ei, ?ii), ?pn)"
  proof -
    have "fp1 (?ei, ?ii) \<inter> pos_fp ?pn = {}" using f1 pf pf' n2 n3 by fastforce
    then show ?thesis by (auto simp: apart_def either_def extra_base_def pos_islots_def mask_index_def split: if_splits)
  qed
  have s3: "sep3 md ex (((?ei, ?ii), ?pn), ?kv)"
  proof -
    have "fp2 ((?ei, ?ii), ?pn) \<inter> kv_fp ?kv = {}" using f2 kf n2 n3 by fastforce
    moreover have "is2 md ex ((?ei, ?ii), ?pn) \<inter> kv_islots md ?kv = {}"
      using c(5) by (auto simp: either_def extra_base_def pos_islots_def mask_index_def kv_islots_def kv_base_def split: if_splits)
    ultimately show ?thesis by (simp add: apart_def) (simp add: either_def)
  qed
  have "fp3 (((?ei, ?ii), ?pn), ?kv) \<inter> {next_addr m1} = {}" using f3 n2 by auto
  then have s4: "dsep md ex ((((?ei, ?ii), ?pn), ?kv), ?lg)"
    by (simp add: apart_def lg_fp_def) (simp add: either_def kv_oslots_def)
  have "dready md p ex (seq_len p) (parts_of ?ds) (io_of ?ds)"
    using s1 s2 s3 s4 extra(1) ids pos kvr lgr by (simp add: both_def parts_of_def)
  then show ?thesis using eq ok len g4 by (auto simp: dec_ok_def mem_grows_def)
qed

end
