(* ===== verification/DecoderOnly.thy ===== *)
theory DecoderOnly
  imports DecoderStart
begin

text \<open>
  Generation with a decoder-only model on the CPU, from end to end: the generator and its search on one side,
  the state with its components and the session on the other. Nothing is assumed of the session but that it
  accepts calls of the documented form (\<open>accepts\<close>).
\<close>

section \<open>The model as the generator sees it\<close>

definition DecoderOnly_CreateState :: "'f Model \<Rightarrow> 'f mem \<Rightarrow> int list \<Rightarrow> ('f, addr) GeneratorParams \<Rightarrow> 'f DecState res" where
  "DecoderOnly_CreateState md m seq_lengths p = res_bind (DecoderOnly_State_new md m seq_lengths p) (\<lambda>(ds, _). Inr ds)"

definition decoder_ops ::
    "('f::linorder, 'g, 'y) cxx_scheme \<Rightarrow> (32 word \<Rightarrow> 'f) \<Rightarrow> 'f Model \<Rightarrow> 'f mem \<Rightarrow> ('f, addr) GeneratorParams \<Rightarrow>
     ('f, addr, 'f DecState) ModelOps" where
  "decoder_ops cx of_bits md m p = \<lparr>CreateState = DecoderOnly_CreateState md m, Run = DecoderOnly_State_Run cx of_bits md p\<rparr>"

text \<open>The states a generator can reach, with the length of the next run.\<close>

inductive dec_reach ::
    "('f::linorder, 'g, 'y) cxx_scheme \<Rightarrow> (32 word \<Rightarrow> 'f) \<Rightarrow> 'f Model \<Rightarrow> 'f mem \<Rightarrow> ('f, addr) GeneratorParams \<Rightarrow>
     nat \<Rightarrow> 'f DecState \<Rightarrow> bool"
  for cx of_bits md m p where
  created: "DecoderOnly_CreateState md m lens p = Inr ds \<Longrightarrow> length lens = rows p \<Longrightarrow> dec_reach cx of_bits md m p (seq_len p) ds"
| ran: "dec_reach cx of_bits md m p n ds \<Longrightarrow> n < nmax_length p \<Longrightarrow> run_args_ok p toks idx \<Longrightarrow>
    DecoderOnly_State_Run cx of_bits md p ds n toks idx = Inr (logits, ds') \<Longrightarrow> dec_reach cx of_bits md m p (Suc n) ds'"

text \<open>What the theorems ask of the model, the session and the caller.\<close>

definition decoder_setup ::
    "'f Model \<Rightarrow> 'f mem \<Rightarrow> ('f, addr) GeneratorParams \<Rightarrow> (string \<times> 'f OrtValue) list \<Rightarrow> bool" where
  "decoder_setup md m p ex \<longleftrightarrow> decoder_ok md p \<and> mem_ok m \<and> extras_ok p ex m
     \<and> md_sessions md \<noteq> [] \<and> accepts (md_sessions md ! 0) md p ex"

lemma setup_create:
  assumes "decoder_setup md m p ex" and "length lens = rows p"
  shows "\<exists>ds. DecoderOnly_CreateState md m lens p = Inr ds \<and> dec_ok md p ex (seq_len p) ds"
  using assms decoder_new [of md p m lens ex] by (auto simp: decoder_setup_def DecoderOnly_CreateState_def)

lemma setup_run:
  assumes "decoder_setup md m p ex" and "dec_ok md p ex n ds" "n < nmax_length p" "run_args_ok p toks idx"
  shows "\<exists>ds' ins outs os. DecoderOnly_State_Run cx of_bits md p ds n toks idx = Inr (scores_of cx of_bits md p n (os ! 0), ds')
     \<and> dec_ok md p ex (Suc n) ds' \<and> length (os ! 0) = rows p * nat (run_len p n) * nvocab p
     \<and> list_all2 matches (in_slots md p ex n) ins \<and> list_all2 matches_out (out_slots md p n) outs \<and> se_run (md_sessions md ! 0) ins outs = Inr os"
  using assms decoder_run [of md p ex n ds toks idx "md_sessions md ! 0" cx of_bits] by (simp add: decoder_setup_def)

lemma reach_ok:
  assumes "dec_reach cx of_bits md m p n ds" and s: "decoder_setup md m p ex"
  shows "dec_ok md p ex n ds"
  using assms(1)
proof induction
  case (created lens ds)
  then show ?case using setup_create [OF s] by force
next
  case (ran n ds toks idx logits ds')
  then show ?case using setup_run [OF s ran.IH ran.hyps(2,3), of cx of_bits] by force
qed

text \<open>C2. Every run of a decoder-only state is a well-formed call of the session. Whatever runs came before,
  the inputs are the input ids, the position ids and attention mask where the model has them, the past
  key-value tensors and the caller's extra inputs, in this order and with the names, element types, shapes
  and contents the current length calls for; the outputs are tensors of the right names, types and shapes;
  and the run returns, for every beam, the scores of the session's first output at the last token, in
  single precision and with the end-of-sequence ids merged.\<close>

theorem DecoderOnly_runs_well_typed:
  assumes "decoder_setup md m p ex" and "dec_reach cx of_bits md m p n ds" and "n < nmax_length p" and "run_args_ok p toks idx"
  shows "\<exists>ins outs os ds'. list_all2 matches (in_slots md p ex n) ins \<and> list_all2 matches_out (out_slots md p n) outs
     \<and> se_run (md_sessions md ! 0) ins outs = Inr os \<and> length (os ! 0) = rows p * nat (run_len p n) * nvocab p
     \<and> DecoderOnly_State_Run cx of_bits md p ds n toks idx = Inr (scores_of cx of_bits md p n (os ! 0), ds')
     \<and> length (scores_of cx of_bits md p n (os ! 0)) = rows p * nvocab p"
proof -
  have d: "decoder_ok md p" using assms(1) by (simp add: decoder_setup_def)
  from setup_run [OF assms(1) reach_ok [OF assms(2,1)] assms(3,4), of cx of_bits] show ?thesis
    using length_scores_of [OF d] by metis
qed

section \<open>Generation\<close>

lemma decoder_generation_ok:
  assumes s: "decoder_setup md m p ex" and cx: "queue_ok cx" "sort_ok cx" and o: "options_ok cx p"
    and len: "max_length (search p) \<le> mo_context_length (co_model c)"
    and beams: "1 < num_beams (search p) \<longrightarrow> 2 \<le> vocab_size p \<and> max_length (search p) \<le> 46340"
  shows "generation_ok cx (decoder_ops cx of_bits md m p) (dec_ok md p ex) c p"
proof -
  have d: "decoder_ok md p" using s by (simp add: decoder_setup_def)
  have po: "params_ok p" using d unfolding decoder_ok_def by blast
  have B: "nat (BatchBeamSize p) = rows p" using rows_BatchBeamSize(1) [OF d] by simp
  have "runs_ok (decoder_ops cx of_bits md m p) (dec_ok md p ex) p"
    unfolding runs_ok_def
  proof (intro allI impI)
    fix st n toks idx assume "dec_ok md p ex n st" "n < nmax_length p" "run_args_ok p toks idx"
    from setup_run [OF s this, of cx of_bits] obtain os ds' where "DecoderOnly_State_Run cx of_bits md p st n toks idx
        = Inr (scores_of cx of_bits md p n (os ! 0), ds')" "dec_ok md p ex (Suc n) ds'" "length (os ! 0) = rows p * nat (run_len p n) * nvocab p"
      by blast
    then show "\<exists>logits st'. Run (decoder_ops cx of_bits md m p) st n toks idx = Inr (logits, st') \<and> dec_ok md p ex (Suc n) st'
        \<and> length logits = nat (BatchBeamSize p) * nvocab p"
      using length_scores_of [OF d] by (simp add: decoder_ops_def B)
  qed
  moreover have "\<exists>st. CreateState (decoder_ops cx of_bits md m p) lens p = Inr st \<and> dec_ok md p ex (nat (sequence_length p)) st"
    if "length lens = nat (BatchBeamSize p)" for lens
    using setup_create [OF s] that B by (simp add: decoder_ops_def)
  ultimately show ?thesis using cx po o len beams by (simp add: generation_ok_def)
qed

text \<open>C1. Generation with a decoder-only model ends with a result: with a session that accepts well-formed
  calls, \<open>max_length - sequence_length\<close> rounds of \<open>ComputeLogits\<close> and \<open>GenerateNextToken\<close> are enough, no tensor
  operation, index computation or session call on the way fails, and the result has one sequence per batch
  entry, longer than the prompt and at most \<open>max_length\<close> long; without beams it starts with the prompt.\<close>

theorem DecoderOnly_generates:
  assumes s: "decoder_setup md m p ex" and cx: "queue_ok cx" "sort_ok cx" and o: "options_ok cx p"
    and len: "max_length (search p) \<le> mo_context_length (co_model c)"
    and beams: "1 < num_beams (search p) \<longrightarrow> 2 \<le> vocab_size p \<and> max_length (search p) \<le> 46340"
    and fuel: "nmax_length p - seq_len p \<le> fuel"
  shows "\<exists>result n. Generate fuel cx seed device (decoder_ops cx of_bits md m p) c p = Some (Inr result) \<and> length result = nbatch p
     \<and> seq_len p < n \<and> n \<le> nmax_length p \<and> (\<forall>v\<in>set result. length v = n)
     \<and> (num_beams (search p) = 1 \<longrightarrow> (\<forall>b<nbatch p. \<exists>new. result ! b = prompt_of p b @ new))"
  by (rule Generate_result [OF decoder_generation_ok [OF s cx o len beams] fuel])

section \<open>A model with one layer\<close>

definition zero_of :: "ONNXTensorElementDataType \<Rightarrow> int scalar" where
  "zero_of t = (if t = ONNX_FLOAT then SFloat 0 else if t = ONNX_FLOAT16 then SHalf 0 else SInt 0)"

text \<open>A session that answers every call with zeros.\<close>

definition zero_session :: "int OrtSession" where
  "zero_session = \<lparr>se_inputs = [], se_outputs = [],
     se_run = (\<lambda>ins outs. Inr (map (\<lambda>(_, v). replicate (GetElementCount (ov_shape v)) (zero_of (ov_type v))) outs))\<rparr>"

lemma has_type_zero_of: "has_type t (zero_of t)"
  by (cases t) (simp_all add: zero_of_def)

lemma zero_session_accepts: "accepts zero_session md p ex"
  by (auto simp: accepts_def zero_session_def filled_def value_ok_def has_type_zero_of split_beta)

definition one_layer :: "int Model" where
  "one_layer = \<lparr>md_config = (let c = Config_default int_cxx [] in c\<lparr>co_model := (co_model c)\<lparr>mo_context_length := 8, mo_eos_token_id := 2,
       mo_eos_token_ids := [2, 0], mo_decoder := (mo_decoder (co_model c))\<lparr>de_num_hidden_layers := 1, de_num_key_value_heads := 1, de_head_size := 2\<rparr>\<rparr>\<rparr>),
     md_device_type = CPU, md_options = [],
     md_session_info = \<lparr>si_inputs = [''input_ids'' \<mapsto> ONNX_INT64, ''position_ids'' \<mapsto> ONNX_INT64, ''attention_mask'' \<mapsto> ONNX_INT64,
         ''past_key_values.0.key'' \<mapsto> ONNX_FLOAT, ''past_key_values.0.value'' \<mapsto> ONNX_FLOAT],
       si_outputs = [''logits'' \<mapsto> ONNX_FLOAT16, ''present.0.key'' \<mapsto> ONNX_FLOAT, ''present.0.value'' \<mapsto> ONNX_FLOAT]\<rparr>,
     md_sessions = [zero_session], md_encoder_info = None\<rparr>"

text \<open>One prompt of two tokens, two beams, at most four tokens.\<close>

definition two_beams :: "(int, addr) GeneratorParams" where
  "two_beams = \<lparr>search = example_search\<lparr>max_length := 4, num_beams := 2\<rparr>, pad_token_id = 0, eos_token_id = 2, vocab_size = 3,
     context_length = 8, batch_size = 1, max_batch_size = 0, use_cuda_graph = False, sequence_length = 2, hidden_size = 0,
     device_type = CPU, input_ids = [1, 1], whisper_input_features = None, extra_inputs = [], is_cuda_graph_enabled = False\<rparr>"

definition no_tensors :: "int mem" where
  "no_tensors = \<lparr>next_addr = 0, ovs = Map.empty\<rparr>"

lemma one_layer_setup: "decoder_setup one_layer no_tensors two_beams []"
proof -
  have zero: "nat_to_string 0 = ''0''" by code_simp
  have past: "past_names one_layer = [''past_key_values.0.key'', ''past_key_values.0.value'']"
    and present: "present_names one_layer = [''present.0.key'', ''present.0.value'']"
    by (simp_all add: past_names_def present_names_def cache_names_def one_layer_def config_defaults Let_def layer_names_def layer_name_def
        int_to_string_def zero)
  have type: "cache_type one_layer = ONNX_FLOAT"
    by (simp add: cache_type_def past) (simp add: input_type_def one_layer_def)
  have "decoder_ok one_layer two_beams"
    unfolding decoder_ok_def past present type
    by (simp add: params_ok_def input_type_def output_type_def HasInput_def one_layer_def two_beams_def config_defaults Let_def
        example_search_def prompt_row_def)
  then show ?thesis
    using zero_session_accepts by (simp add: decoder_setup_def mem_ok_def no_tensors_def extras_ok_def two_beams_def) (simp add: one_layer_def)
qed

theorem DecoderOnly_runs_well_typed_witness:
  "\<exists>ds ins os ds'. dec_reach int_cxx (\<lambda>w. sint w) one_layer no_tensors two_beams 2 ds
     \<and> list_all2 matches (in_slots one_layer two_beams [] 2) ins \<and> map fst (take 3 ins) = [''input_ids'', ''position_ids'', ''attention_mask'']
     \<and> DecoderOnly_State_Run int_cxx (\<lambda>w. sint w) one_layer two_beams ds 2 [0, 0] [0, 1]
       = Inr (scores_of int_cxx (\<lambda>w. sint w) one_layer two_beams 2 (os ! 0), ds') \<and> length (os ! 0) = 12"
proof -
  have n: "seq_len two_beams = 2" "rows two_beams = 2" "2 < nmax_length two_beams" "run_args_ok two_beams [0, 0] [0, 1]"
    "run_len two_beams 2 = 2" "nvocab two_beams = 3"
    by (simp_all add: two_beams_def example_search_def rows_def run_args_ok_def BatchBeamSize_def run_len_def)
  obtain ds where "DecoderOnly_CreateState one_layer no_tensors [0, 0] two_beams = Inr ds"
    using setup_create [OF one_layer_setup, of "[0, 0]"] n(2) by auto
  then have r: "dec_reach int_cxx (\<lambda>w. sint w) one_layer no_tensors two_beams 2 ds"
    using dec_reach.created [of one_layer no_tensors "[0, 0]" two_beams ds] n(1,2) by simp
  obtain ins os ds' where i: "list_all2 matches (in_slots one_layer two_beams [] 2) ins"
      "DecoderOnly_State_Run int_cxx (\<lambda>w. sint w) one_layer two_beams ds 2 [0, 0] [0, 1]
       = Inr (scores_of int_cxx (\<lambda>w. sint w) one_layer two_beams 2 (os ! 0), ds')" "length (os ! 0) = rows two_beams * nat (run_len two_beams 2) * nvocab two_beams"
    using DecoderOnly_runs_well_typed [OF one_layer_setup r n(3,4)] by blast
  have "in_slots one_layer two_beams [] 2 = hd (ids_slots one_layer two_beams 2) # position_slot one_layer two_beams 2
      # mask_slot one_layer two_beams 2 # past_slots one_layer two_beams 2"
    by (simp add: in_slots_def ids_slots_def position_slots_def HasInput_def Let_def) (simp add: one_layer_def config_defaults)
  then have "map fst (take 3 ins) = [''input_ids'', ''position_ids'', ''attention_mask'']"
    using i(1) by (auto simp: list_all2_Cons1 ids_slots_def position_slot_def mask_slot_def Let_def) (simp_all add: one_layer_def config_defaults)
  moreover have "length (os ! 0) = 12" using i(3) n(2,5,6) by simp
  ultimately show ?thesis using r i(1,2) by (intro exI [of _ ds] exI [of _ ins] exI [of _ os] exI [of _ ds'] conjI)
qed

theorem DecoderOnly_generates_witness:
  "\<exists>result n. Generate 2 int_cxx nat 0 (decoder_ops int_cxx (\<lambda>w. sint w) one_layer no_tensors two_beams) (md_config one_layer) two_beams
       = Some (Inr result) \<and> length result = 1 \<and> 2 < n \<and> n \<le> 4 \<and> (\<forall>v\<in>set result. length v = n)"
proof -
  have o: "options_ok int_cxx two_beams" "max_length (search two_beams) \<le> mo_context_length (co_model (md_config one_layer))"
    "1 < num_beams (search two_beams) \<longrightarrow> 2 \<le> vocab_size two_beams \<and> max_length (search two_beams) \<le> 46340"
    "nmax_length two_beams - seq_len two_beams \<le> 2" "nmax_length two_beams = 4" "seq_len two_beams = 2" "nbatch two_beams = 1"
    by (simp_all add: options_ok_def two_beams_def example_search_def int_cxx_def one_layer_def config_defaults Let_def)
  show ?thesis
    using DecoderOnly_generates [OF one_layer_setup int_cxx_queue_ok int_cxx_sort_ok o(1-4), of nat 0 "\<lambda>w. sint w"] unfolding o(5-7) by blast
qed

end
