(* ===== verification/DmlContext.thy ===== *)
theory DmlContext
  imports Prelude
begin

text \<open>
  The submission side of the DirectML backend: \<open>dml_gpu_event.h\<close>, \<open>dml_command_queue.cpp\<close>,
  \<open>dml_command_allocator_ring.h\<close>, \<open>dml_descriptor_pool.cpp\<close>, \<open>dml_command_recorder.cpp\<close> and
  \<open>dml_execution_context.cpp\<close>. Commands are recorded into a command list, submitted to the queue with a fence
  value, and executed by the device in the order of submission; the host learns of it by reading the
  fence. Direct3D 12 is modelled by what the code relies on: buffers of bytes, a queue of submitted lists, the
  completed fence value, and the rule that a command allocator must not be reset while a list recorded with it
  is pending. Events are fence values; there is one fence.
\<close>

section \<open>The device\<close>

type_synonym byte = "8 word"
type_synonym resource = nat

text \<open>The commands the code records.\<close>

datatype gpu_cmd =
    CopyRegion resource nat resource nat nat
  | Transition "(resource \<times> 32 word \<times> 32 word) list"
  | UAV
  | SetHeaps nat
  | Dispatch nat

record CommandList =
  cl_allocator :: nat
  cl_cmds :: "gpu_cmd list"

record gpu =
  gp_mem :: "resource \<rightharpoonup> byte list"
  gp_next :: resource
  gp_pending :: "(nat \<times> CommandList list) list"
  gp_completed :: nat

type_synonym memory = "resource \<rightharpoonup> byte list"

text \<open>What a command does to the contents of the buffers is a parameter of the model.\<close>

type_synonym device = "gpu_cmd \<Rightarrow> memory \<Rightarrow> memory"

definition run_lists :: "device \<Rightarrow> CommandList list \<Rightarrow> memory \<Rightarrow> memory" where
  "run_lists exec ls m = fold exec (concat (map cl_cmds ls)) m"

text \<open>The device executes the next submission and signals its fence value.\<close>

definition gpu_step :: "device \<Rightarrow> gpu \<Rightarrow> gpu" where
  "gpu_step exec g =
     (case gp_pending g of
        [] \<Rightarrow> g
      | (f, ls) # rest \<Rightarrow> g\<lparr>gp_mem := run_lists exec ls (gp_mem g), gp_pending := rest, gp_completed := f\<rparr>)"

definition create_buffer :: "nat \<Rightarrow> gpu \<Rightarrow> resource \<times> gpu" where
  "create_buffer n g = (gp_next g, g\<lparr>gp_next := Suc (gp_next g), gp_mem := (gp_mem g)(gp_next g \<mapsto> replicate n 0)\<rparr>)"

section \<open>Events\<close>

definition IsSignaled :: "nat \<Rightarrow> gpu \<Rightarrow> bool" where
  "IsSignaled event g \<longleftrightarrow> event \<le> gp_completed g"

text \<open>Waiting lets the device run until the value is reached; a value that was never submitted is never
  reached.\<close>

primrec wait_pending :: "device \<Rightarrow> nat \<Rightarrow> (nat \<times> CommandList list) list \<Rightarrow> gpu \<Rightarrow> gpu res" where
  "wait_pending exec event [] g = (if IsSignaled event g then Inr g else Inl WaitsForever)"
| "wait_pending exec event (x # xs) g = (if IsSignaled event g then Inr g else wait_pending exec event xs (gpu_step exec g))"

definition WaitForSignal :: "device \<Rightarrow> nat \<Rightarrow> gpu \<Rightarrow> gpu res" where
  "WaitForSignal exec event g = wait_pending exec event (gp_pending g) g"

section \<open>The command queue\<close>

record DmlCommandQueue =
  cq_references :: "(nat \<times> nat) list"
  cq_last_fence_value :: nat
  cq_closing :: bool

definition DmlCommandQueue_new :: DmlCommandQueue where
  "DmlCommandQueue_new = \<lparr>cq_references = [], cq_last_fence_value = 0, cq_closing = False\<rparr>"

definition ExecuteCommandLists :: "CommandList list \<Rightarrow> DmlCommandQueue \<times> gpu \<Rightarrow> DmlCommandQueue \<times> gpu" where
  "ExecuteCommandLists ls = (\<lambda>(q, g).
     (q\<lparr>cq_last_fence_value := cq_last_fence_value q + 1\<rparr>,
      g\<lparr>gp_pending := gp_pending g @ [(cq_last_fence_value q + 1, ls)]\<rparr>))"

text \<open>A wait of the device for another fence: it only delays the device, whose progress is arbitrary; the queue's own
  fence is signalled after it.\<close>

definition Queue_Wait :: "DmlCommandQueue \<times> gpu \<Rightarrow> DmlCommandQueue \<times> gpu" where
  "Queue_Wait = ExecuteCommandLists []"

definition Queue_GetCurrentCompletionEvent :: "DmlCommandQueue \<Rightarrow> nat" where
  "Queue_GetCurrentCompletionEvent q = cq_last_fence_value q"

definition GetNextCompletionEvent :: "DmlCommandQueue \<Rightarrow> nat" where
  "GetNextCompletionEvent q = cq_last_fence_value q + 1"

definition Queue_QueueReference :: "nat \<Rightarrow> bool \<Rightarrow> DmlCommandQueue \<Rightarrow> DmlCommandQueue" where
  "Queue_QueueReference object wait_for_unsubmitted_work q =
     (if cq_closing q then q
      else q\<lparr>cq_references := cq_references q @
        [(if wait_for_unsubmitted_work then cq_last_fence_value q + 1 else cq_last_fence_value q, object)]\<rparr>)"

definition Queue_Close :: "device \<Rightarrow> DmlCommandQueue \<times> gpu \<Rightarrow> (DmlCommandQueue \<times> gpu) res" where
  "Queue_Close exec = (\<lambda>(q, g).
     res_bind (WaitForSignal exec (Queue_GetCurrentCompletionEvent q) g) (\<lambda>g'.
     Inr (q\<lparr>cq_references := [], cq_closing := False\<rparr>, g')))"

definition Queue_ReleaseCompletedReferences :: "gpu \<Rightarrow> DmlCommandQueue \<Rightarrow> DmlCommandQueue" where
  "Queue_ReleaseCompletedReferences g q =
     q\<lparr>cq_references := dropWhile (\<lambda>(f, _). f \<le> gp_completed g) (cq_references q)\<rparr>"

section \<open>The ring of command allocators\<close>

record DmlCommandAllocatorRing =
  ar_events :: "nat list"
  ar_current :: nat

definition DmlCommandAllocatorRing_new :: "nat \<Rightarrow> nat \<Rightarrow> DmlCommandAllocatorRing" where
  "DmlCommandAllocatorRing_new n initial_event = \<lparr>ar_events = replicate n initial_event, ar_current = 0\<rparr>"

text \<open>Resetting an allocator while a submitted list that was recorded with it is pending is an error of
  Direct3D 12.\<close>

definition Reset_allocator :: "nat \<Rightarrow> gpu \<Rightarrow> unit res" where
  "Reset_allocator a g =
     (if \<exists>(f, ls)\<in>set (gp_pending g). \<exists>cl\<in>set ls. cl_allocator cl = a then Inl DeviceRemoved else Inr ())"

definition GetNextAllocator :: "nat \<Rightarrow> gpu \<Rightarrow> DmlCommandAllocatorRing \<Rightarrow> (nat \<times> DmlCommandAllocatorRing) res" where
  "GetNextAllocator next_completion_event g r =
     (if ar_events r = [] then Inl DivisionByZero
      else
        let earliest_other_allocator = (ar_current r + 1) mod length (ar_events r) in
        res_bind (get (ar_events r) earliest_other_allocator) (\<lambda>event.
        res_bind (if IsSignaled event g then res_bind (Reset_allocator earliest_other_allocator g) (\<lambda>_. Inr earliest_other_allocator)
                  else Inr (ar_current r)) (\<lambda>current.
        res_bind (put (ar_events r) current next_completion_event) (\<lambda>events.
        Inr (current, \<lparr>ar_events = events, ar_current = current\<rparr>)))))"

definition UpdateCurrentAllocatorCompletionEvent :: "nat \<Rightarrow> DmlCommandAllocatorRing \<Rightarrow> DmlCommandAllocatorRing res" where
  "UpdateCurrentAllocatorCompletionEvent next_completion_event r =
     res_bind (put (ar_events r) (ar_current r) next_completion_event) (\<lambda>events. Inr (r\<lparr>ar_events := events\<rparr>))"

section \<open>The descriptor pool\<close>

text \<open>A heap is named by its number; \<open>None\<close> as the completion event is an event without a fence.\<close>

record DmlDescriptorHeap =
  dh_heap :: nat
  dh_capacity :: nat
  dh_size :: nat
  dh_head :: nat
  dh_flags :: "32 word"
  dh_completion_event :: "nat option"

record DmlDescriptorRange =
  dr_heap :: nat
  dr_first :: nat

definition TryAllocDescriptors ::
    "nat \<Rightarrow> nat \<Rightarrow> 32 word \<Rightarrow> gpu \<Rightarrow> DmlDescriptorHeap \<Rightarrow> DmlDescriptorRange option \<times> DmlDescriptorHeap" where
  "TryAllocDescriptors num_descriptors completion_event heap_flags g h =
     (if dh_flags h \<noteq> heap_flags then (None, h)
      else
        let h1 = (case dh_completion_event h of
                    None \<Rightarrow> h
                  | Some e \<Rightarrow> if IsSignaled e g then h\<lparr>dh_size := 0, dh_head := 0\<rparr> else h);
            space_remaining = dh_capacity h1 - dh_size h1 in
        if space_remaining < num_descriptors then (None, h1)
        else (Some \<lparr>dr_heap = dh_heap h1, dr_first = dh_head h1\<rparr>,
              h1\<lparr>dh_size := dh_size h1 + num_descriptors, dh_completion_event := Some completion_event,
                 dh_head := dh_head h1 + num_descriptors\<rparr>))"

record DescriptorPool =
  dp_heaps :: "DmlDescriptorHeap list"
  dp_initial_heap_capacity :: nat
  dp_next_heap :: nat

definition SHADER_VISIBLE :: "32 word" where
  "SHADER_VISIBLE = 1"

definition CreateHeap :: "nat \<Rightarrow> 32 word \<Rightarrow> DescriptorPool \<Rightarrow> DescriptorPool" where
  "CreateHeap num_descriptors heap_flags dp =
     dp\<lparr>dp_heaps := dp_heaps dp @ [\<lparr>dh_heap = dp_next_heap dp, dh_capacity = num_descriptors, dh_size = 0, dh_head = 0,
           dh_flags = heap_flags, dh_completion_event = None\<rparr>],
        dp_next_heap := Suc (dp_next_heap dp)\<rparr>"

definition DescriptorPool_new :: "nat \<Rightarrow> DescriptorPool" where
  "DescriptorPool_new initial_capacity =
     CreateHeap initial_capacity SHADER_VISIBLE \<lparr>dp_heaps = [], dp_initial_heap_capacity = initial_capacity, dp_next_heap = 0\<rparr>"

primrec try_heaps ::
    "nat \<Rightarrow> nat \<Rightarrow> 32 word \<Rightarrow> gpu \<Rightarrow> DmlDescriptorHeap list \<Rightarrow> DmlDescriptorRange option \<times> DmlDescriptorHeap list" where
  "try_heaps n event flags g [] = (None, [])"
| "try_heaps n event flags g (h # hs) =
     (case TryAllocDescriptors n event flags g h of
        (Some r, h') \<Rightarrow> (Some r, h' # hs)
      | (None, h') \<Rightarrow> (case try_heaps n event flags g hs of (r, hs') \<Rightarrow> (r, h' # hs')))"

definition AllocDescriptors ::
    "nat \<Rightarrow> nat \<Rightarrow> 32 word \<Rightarrow> gpu \<Rightarrow> DescriptorPool \<Rightarrow> (DmlDescriptorRange \<times> DescriptorPool) res" where
  "AllocDescriptors num_descriptors completion_event heap_flags g dp =
     (case try_heaps num_descriptors completion_event heap_flags g (dp_heaps dp) of
        (Some r, hs) \<Rightarrow> Inr (r, dp\<lparr>dp_heaps := hs\<rparr>)
      | (None, hs) \<Rightarrow>
          let dp1 = CreateHeap (max num_descriptors (dp_initial_heap_capacity dp)) heap_flags (dp\<lparr>dp_heaps := hs\<rparr>) in
          (case TryAllocDescriptors num_descriptors completion_event heap_flags g (last (dp_heaps dp1)) of
             (Some r, h) \<Rightarrow> Inr (r, dp1\<lparr>dp_heaps := butlast (dp_heaps dp1) @ [h]\<rparr>)
           | (None, _) \<Rightarrow> Inl BadOptionalAccess))"

definition DescriptorPool_Trim :: "gpu \<Rightarrow> DescriptorPool \<Rightarrow> DescriptorPool" where
  "DescriptorPool_Trim g dp =
     dp\<lparr>dp_heaps := filter (\<lambda>h. \<not> (case dh_completion_event h of None \<Rightarrow> True | Some e \<Rightarrow> IsSignaled e g)) (dp_heaps dp)\<rparr>"

definition GetTotalCapacity :: "DescriptorPool \<Rightarrow> nat" where
  "GetTotalCapacity dp = foldl (\<lambda>n h. n + dh_capacity h) 0 (dp_heaps dp)"

section \<open>The command recorder\<close>

record DmlCommandRecorder =
  rc_descriptor_pool :: DescriptorPool
  rc_current_descriptor_heap :: "nat option"
  rc_ring :: DmlCommandAllocatorRing
  rc_current_command_list :: "CommandList option"
  rc_operations_recorded :: bool
  rc_cached_command_list :: "CommandList option"

definition DmlCommandRecorder_new :: "DmlCommandQueue \<Rightarrow> DmlCommandRecorder" where
  "DmlCommandRecorder_new q = \<lparr>rc_descriptor_pool = DescriptorPool_new 2048, rc_current_descriptor_heap = None,
     rc_ring = DmlCommandAllocatorRing_new 2 (Queue_GetCurrentCompletionEvent q), rc_current_command_list = None,
     rc_operations_recorded = False, rc_cached_command_list = None\<rparr>"

text \<open>A call on the command list being recorded.\<close>

definition record_cmd :: "gpu_cmd \<Rightarrow> DmlCommandRecorder \<Rightarrow> DmlCommandRecorder res" where
  "record_cmd c rc =
     (case rc_current_command_list rc of
        None \<Rightarrow> Inl NullPointer
      | Some cl \<Rightarrow> Inr (rc\<lparr>rc_current_command_list := Some (cl\<lparr>cl_cmds := cl_cmds cl @ [c]\<rparr>)\<rparr>))"

definition Recorder_CopyBufferRegion :: "resource \<Rightarrow> nat \<Rightarrow> resource \<Rightarrow> nat \<Rightarrow> nat \<Rightarrow> DmlCommandRecorder \<Rightarrow> DmlCommandRecorder res" where
  "Recorder_CopyBufferRegion dst dst_offset src src_offset byte_count rc =
     res_bind (record_cmd (CopyRegion dst dst_offset src src_offset byte_count) rc) (\<lambda>rc'.
     Inr (rc'\<lparr>rc_operations_recorded := True\<rparr>))"

definition Recorder_ResourceBarrier :: "(resource \<times> 32 word \<times> 32 word) list \<Rightarrow> DmlCommandRecorder \<Rightarrow> DmlCommandRecorder res" where
  "Recorder_ResourceBarrier barriers rc =
     res_bind (record_cmd (Transition barriers) rc) (\<lambda>rc'. Inr (rc'\<lparr>rc_operations_recorded := True\<rparr>))"

definition Recorder_AddUAVBarrier :: "DmlCommandRecorder \<Rightarrow> DmlCommandRecorder res" where
  "Recorder_AddUAVBarrier rc = res_bind (record_cmd UAV rc) (\<lambda>rc'. Inr (rc'\<lparr>rc_operations_recorded := True\<rparr>))"

text \<open>\<open>GetCommandList\<close>: the caller records commands of its own.\<close>

definition Recorder_GetCommandList :: "gpu_cmd list \<Rightarrow> DmlCommandRecorder \<Rightarrow> DmlCommandRecorder res" where
  "Recorder_GetCommandList cmds rc = for_res record_cmd cmds (rc\<lparr>rc_operations_recorded := True\<rparr>)"

definition SetDescriptorHeap :: "nat option \<Rightarrow> DmlCommandRecorder \<Rightarrow> DmlCommandRecorder res" where
  "SetDescriptorHeap heap rc =
     (case heap of
        None \<Rightarrow> Inr rc
      | Some h \<Rightarrow>
          if rc_current_descriptor_heap rc = Some h then Inr rc
          else record_cmd (SetHeaps h) (rc\<lparr>rc_current_descriptor_heap := Some h\<rparr>))"

text \<open>\<open>Open\<close>: a new command list, or the cached one reset, records with the next allocator.\<close>

definition Open :: "DmlCommandQueue \<Rightarrow> gpu \<Rightarrow> DmlCommandRecorder \<Rightarrow> DmlCommandRecorder res" where
  "Open q g rc =
     res_bind (GetNextAllocator (GetNextCompletionEvent q) g (rc_ring rc)) (\<lambda>(allocator, ring).
     let fresh = \<lparr>cl_allocator = allocator, cl_cmds = []\<rparr> in
     Inr (case rc_cached_command_list rc of
            None \<Rightarrow> rc\<lparr>rc_ring := ring, rc_current_command_list := Some fresh\<rparr>
          | Some _ \<Rightarrow> rc\<lparr>rc_ring := ring, rc_current_command_list := Some fresh, rc_cached_command_list := None\<rparr>))"

definition CloseAndExecute ::
    "CommandList option \<Rightarrow> DmlCommandQueue \<times> gpu \<times> DmlCommandRecorder \<Rightarrow> (DmlCommandQueue \<times> gpu \<times> DmlCommandRecorder) res" where
  "CloseAndExecute command_list = (\<lambda>(q, g, rc).
     case rc_current_command_list rc of
       None \<Rightarrow> Inl NullPointer
     | Some current \<Rightarrow>
         let to_execute = (if rc_operations_recorded rc then [current] else []) @ (case command_list of None \<Rightarrow> [] | Some cl \<Rightarrow> [cl]);
             (q', g') = (if to_execute \<noteq> [] then ExecuteCommandLists to_execute (q, g) else (q, g)) in
         Inr (q', g', rc\<lparr>rc_cached_command_list := Some current, rc_current_command_list := None,
                         rc_operations_recorded := False, rc_current_descriptor_heap := None\<rparr>))"

text \<open>\<open>ExecuteCommandList\<close> submits a list the caller recorded, after what has been recorded so far, and returns
  the fence value of its completion.\<close>

definition Recorder_ExecuteCommandList ::
    "CommandList option \<Rightarrow> DmlCommandQueue \<times> gpu \<times> DmlCommandRecorder \<Rightarrow> (nat \<times> DmlCommandQueue \<times> gpu \<times> DmlCommandRecorder) res" where
  "Recorder_ExecuteCommandList command_list = (\<lambda>(q, g, rc).
     if \<not> rc_operations_recorded rc then
       (case command_list of
          None \<Rightarrow> Inl NullPointer
        | Some cl \<Rightarrow>
            let completion_value = GetNextCompletionEvent q; (q', g') = ExecuteCommandLists [cl] (q, g) in
            res_bind (UpdateCurrentAllocatorCompletionEvent (GetNextCompletionEvent q') (rc_ring rc)) (\<lambda>ring.
            Inr (completion_value, q', g', rc\<lparr>rc_ring := ring\<rparr>)))
     else
       let heap = rc_current_descriptor_heap rc in
       res_bind (CloseAndExecute command_list (q, g, rc)) (\<lambda>(q', g', rc1).
       res_bind (Open q' g' rc1) (\<lambda>rc2.
       res_bind (SetDescriptorHeap heap rc2) (\<lambda>rc3.
       Inr (Queue_GetCurrentCompletionEvent q', q', g', rc3)))))"

text \<open>What the recorder reads of a compiled operator: the number of descriptors it binds, the size of its
  temporary buffer (taken from and returned to the runtime's allocator) and whether it has a persistent
  resource.\<close>

record CompiledOperator =
  op_id :: nat
  op_descriptor_count :: nat
  op_temporary_size :: nat
  op_persistent :: bool

definition record_operator ::
    "bool \<Rightarrow> CompiledOperator \<Rightarrow> DmlCommandQueue \<Rightarrow> gpu \<Rightarrow> DmlCommandRecorder \<Rightarrow> DmlCommandRecorder res" where
  "record_operator barrier op q g rc =
     res_bind (AllocDescriptors (op_descriptor_count op) (GetNextCompletionEvent q) SHADER_VISIBLE g (rc_descriptor_pool rc)) (\<lambda>(range, pool).
     res_bind (SetDescriptorHeap (Some (dr_heap range)) (rc\<lparr>rc_descriptor_pool := pool\<rparr>)) (\<lambda>rc1.
     res_bind (record_cmd (Dispatch (op_id op)) rc1) (\<lambda>rc2.
     let rc3 = rc2\<lparr>rc_operations_recorded := True\<rparr> in
     if barrier then record_cmd UAV rc3 else Inr rc3)))"

definition Recorder_InitializeOperator :: "CompiledOperator \<Rightarrow> DmlCommandQueue \<Rightarrow> gpu \<Rightarrow> DmlCommandRecorder \<Rightarrow> DmlCommandRecorder res" where
  "Recorder_InitializeOperator op = record_operator (op_persistent op \<or> 0 < op_temporary_size op) op"

definition Recorder_ExecuteOperator :: "CompiledOperator \<Rightarrow> DmlCommandQueue \<Rightarrow> gpu \<Rightarrow> DmlCommandRecorder \<Rightarrow> DmlCommandRecorder res" where
  "Recorder_ExecuteOperator = record_operator True"

section \<open>The execution context\<close>

text \<open>There is one recorder; \<open>ec_open\<close> says that \<open>current_recorder_\<close> points to it. The device is part of the state.\<close>

record DmlExecutionContext =
  ec_queue :: DmlCommandQueue
  ec_gpu :: gpu
  ec_recorder :: DmlCommandRecorder
  ec_open :: bool
  ec_closed :: bool

definition DmlExecutionContext_new :: "gpu \<Rightarrow> DmlExecutionContext" where
  "DmlExecutionContext_new g = \<lparr>ec_queue = DmlCommandQueue_new, ec_gpu = g, ec_recorder = DmlCommandRecorder_new DmlCommandQueue_new,
     ec_open = False, ec_closed = False\<rparr>"

text \<open>\<open>SetCommandRecorder\<close> flushes the previous recorder first; with one recorder there is nothing to flush when
  it is not the current one.\<close>

definition SetCommandRecorder :: "DmlExecutionContext \<Rightarrow> DmlExecutionContext res" where
  "SetCommandRecorder d =
     (if ec_open d then Inr d
      else res_bind (Open (ec_queue d) (ec_gpu d) (ec_recorder d)) (\<lambda>rc. Inr (d\<lparr>ec_open := True, ec_recorder := rc\<rparr>)))"

definition Flush :: "DmlExecutionContext \<Rightarrow> DmlExecutionContext res" where
  "Flush d =
     (if \<not> ec_open d \<or> \<not> rc_operations_recorded (ec_recorder d) then Inr d
      else
        res_bind (CloseAndExecute None (ec_queue d, ec_gpu d, ec_recorder d)) (\<lambda>(q, g, rc).
        SetCommandRecorder (d\<lparr>ec_queue := Queue_ReleaseCompletedReferences g q, ec_gpu := g, ec_recorder := rc, ec_open := False\<rparr>)))"

text \<open>A method that only records.\<close>

definition with_recorder :: "(DmlCommandRecorder \<Rightarrow> DmlCommandRecorder res) \<Rightarrow> DmlExecutionContext \<Rightarrow> DmlExecutionContext res" where
  "with_recorder f d =
     res_bind (SetCommandRecorder d) (\<lambda>d1. res_bind (f (ec_recorder d1)) (\<lambda>rc. Inr (d1\<lparr>ec_recorder := rc\<rparr>)))"

definition COPY_DEST :: "32 word" where "COPY_DEST = 0x400"

definition COPY_SOURCE :: "32 word" where "COPY_SOURCE = 0x800"

definition GENERIC_READ :: "32 word" where "GENERIC_READ = 0xAC3"

unbundle bit_operations_syntax

definition copy_barriers :: "resource \<Rightarrow> 32 word \<Rightarrow> resource \<Rightarrow> 32 word \<Rightarrow> (resource \<times> 32 word \<times> 32 word) list" where
  "copy_barriers dst dst_state src src_state =
     (if dst_state AND COPY_DEST = 0 then [(dst, dst_state, COPY_DEST)] else [])
     @ (if src_state AND COPY_SOURCE = 0 then [(src, src_state, COPY_SOURCE)] else [])"

definition CopyBufferRegion ::
    "resource \<Rightarrow> nat \<Rightarrow> 32 word \<Rightarrow> resource \<Rightarrow> nat \<Rightarrow> 32 word \<Rightarrow> nat \<Rightarrow> DmlExecutionContext \<Rightarrow> DmlExecutionContext res" where
  "CopyBufferRegion dst dst_offset dst_state src src_offset src_state byte_count =
     with_recorder (\<lambda>rc.
       let barriers = copy_barriers dst dst_state src src_state in
       res_bind (if barriers \<noteq> [] then Recorder_ResourceBarrier barriers rc else Inr rc) (\<lambda>rc1.
       res_bind (Recorder_CopyBufferRegion dst dst_offset src src_offset byte_count rc1) (\<lambda>rc2.
       if barriers \<noteq> [] then Recorder_ResourceBarrier (map (\<lambda>(r, before, after). (r, after, before)) barriers) rc2 else Inr rc2)))"

definition InitializeOperator :: "CompiledOperator \<Rightarrow> DmlExecutionContext \<Rightarrow> DmlExecutionContext res" where
  "InitializeOperator op d = with_recorder (Recorder_InitializeOperator op (ec_queue d) (ec_gpu d)) d"

definition ExecuteCommandList :: "CommandList option \<Rightarrow> DmlExecutionContext \<Rightarrow> (nat \<times> DmlExecutionContext) res" where
  "ExecuteCommandList command_list d =
     res_bind (SetCommandRecorder d) (\<lambda>d1.
     res_bind (Recorder_ExecuteCommandList command_list (ec_queue d1, ec_gpu d1, ec_recorder d1)) (\<lambda>(value, q, g, rc).
     Inr (value, d1\<lparr>ec_queue := q, ec_gpu := g, ec_recorder := rc\<rparr>)))"

definition AddUAVBarrier :: "DmlExecutionContext \<Rightarrow> DmlExecutionContext res" where
  "AddUAVBarrier = with_recorder Recorder_AddUAVBarrier"

definition ResourceBarrier :: "(resource \<times> 32 word \<times> 32 word) list \<Rightarrow> DmlExecutionContext \<Rightarrow> DmlExecutionContext res" where
  "ResourceBarrier barriers = with_recorder (Recorder_ResourceBarrier barriers)"

definition GetCommandListForRecordingAndInvalidateState :: "gpu_cmd list \<Rightarrow> DmlExecutionContext \<Rightarrow> DmlExecutionContext res" where
  "GetCommandListForRecordingAndInvalidateState cmds =
     with_recorder (\<lambda>rc. Recorder_GetCommandList cmds (rc\<lparr>rc_current_descriptor_heap := None\<rparr>))"

definition QueueReference :: "nat \<Rightarrow> DmlExecutionContext \<Rightarrow> DmlExecutionContext" where
  "QueueReference object d = d\<lparr>ec_queue := Queue_QueueReference object (ec_open d) (ec_queue d)\<rparr>"

definition Context_Close :: "device \<Rightarrow> DmlExecutionContext \<Rightarrow> DmlExecutionContext res" where
  "Context_Close exec d =
     res_bind (Queue_Close exec (ec_queue d, ec_gpu d)) (\<lambda>(q, g).
     Inr (d\<lparr>ec_queue := q, ec_gpu := g, ec_open := False, ec_closed := True\<rparr>))"

definition GetCurrentCompletionEvent :: "DmlExecutionContext \<Rightarrow> nat" where
  "GetCurrentCompletionEvent d =
     Queue_GetCurrentCompletionEvent (ec_queue d) + (if ec_open d \<and> rc_operations_recorded (ec_recorder d) then 1 else 0)"

definition ReleaseCompletedReferences :: "DmlExecutionContext \<Rightarrow> DmlExecutionContext" where
  "ReleaseCompletedReferences d = d\<lparr>ec_queue := Queue_ReleaseCompletedReferences (ec_gpu d) (ec_queue d)\<rparr>"

definition Context_wait :: "device \<Rightarrow> nat \<Rightarrow> DmlExecutionContext \<Rightarrow> DmlExecutionContext res" where
  "Context_wait exec event d = res_bind (WaitForSignal exec event (ec_gpu d)) (\<lambda>g. Inr (d\<lparr>ec_gpu := g\<rparr>))"

end
