(* ===== verification/DmlSafety.thy ===== *)
theory DmlSafety
  imports DmlContext
begin

text \<open>
  Safety of the submission side of the DirectML backend under every interleaving of calls with the progress of
  the device: fence values are submitted in order, no call fails, a command allocator is reset only when no
  pending list was recorded with it, and a reference is released only after the work it was queued with.
\<close>

section \<open>Queue, device and allocators\<close>

text \<open>The fence values of the pending submissions are the ones between the completed and the last value; the
  completion event of an allocator is not before any pending list recorded with it.\<close>

definition covers :: "DmlCommandAllocatorRing \<Rightarrow> (nat \<times> CommandList list) list \<Rightarrow> bool" where
  "covers r pending \<longleftrightarrow> (\<forall>f ls cl. (f, ls) \<in> set pending \<longrightarrow> cl \<in> set ls \<longrightarrow> cl_allocator cl < length (ar_events r) \<longrightarrow>
     f \<le> ar_events r ! cl_allocator cl)"

definition queue_inv :: "DmlCommandQueue \<Rightarrow> gpu \<Rightarrow> DmlCommandAllocatorRing \<Rightarrow> bool" where
  "queue_inv q g r \<longleftrightarrow> gp_completed g \<le> cq_last_fence_value q
     \<and> map fst (gp_pending g) = [Suc (gp_completed g)..<Suc (cq_last_fence_value q)]
     \<and> length (ar_events r) = 2 \<and> ar_current r < 2 \<and> covers r (gp_pending g)
     \<and> (\<forall>e\<in>set (ar_events r). e \<le> ar_events r ! ar_current r \<and> e \<le> Suc (cq_last_fence_value q))"

text \<open>The assertion of \<open>GetNextAllocator\<close>: the other allocator is free when the current one is.\<close>

lemma allocator_assertion:
  assumes "queue_inv q g r" and "IsSignaled (ar_events r ! ar_current r) g"
  shows "IsSignaled (ar_events r ! ((ar_current r + 1) mod 2)) g"
  using assms by (auto simp: queue_inv_def IsSignaled_def intro: order_trans [OF _ assms(2) [unfolded IsSignaled_def]])

lemma queue_inv_range:
  assumes "queue_inv q g r" "(f, ls) \<in> set (gp_pending g)"
  shows "gp_completed g < f \<and> f \<le> cq_last_fence_value q"
proof -
  have "f \<in> set (map fst (gp_pending g))" using assms(2) by force
  also have "\<dots> = {Suc (gp_completed g)..cq_last_fence_value q}"
    using assms(1) by (auto simp: queue_inv_def simp del: upt_Suc)
  finally show ?thesis by simp
qed

text \<open>The allocator the ring hands out is not in use, and its event is that of the next submission.\<close>

lemma GetNextAllocator_ok:
  assumes inv: "queue_inv q g r"
  shows "\<exists>a r'. GetNextAllocator (Suc (cq_last_fence_value q)) g r = Inr (a, r') \<and> queue_inv q g r' \<and> ar_current r' = a
     \<and> ar_events r' ! a = Suc (cq_last_fence_value q)"
proof -
  let ?n = "Suc (cq_last_fence_value q)"
  have len: "length (ar_events r) = 2" "ar_current r < 2" using inv by (simp_all add: queue_inv_def)
  define a where "a = (if IsSignaled (ar_events r ! ((ar_current r + 1) mod 2)) g then (ar_current r + 1) mod 2 else ar_current r)"
  have a: "a < 2" using len by (simp add: a_def)
  have reset: "Reset_allocator ((ar_current r + 1) mod 2) g = Inr ()" if "IsSignaled (ar_events r ! ((ar_current r + 1) mod 2)) g"
    unfolding Reset_allocator_def
    using inv that len queue_inv_range [OF inv] by (fastforce simp: queue_inv_def covers_def IsSignaled_def)
  let ?r = "\<lparr>ar_events = (ar_events r)[a := ?n], ar_current = a\<rparr>"
  have "GetNextAllocator ?n g r = Inr (a, ?r)"
    using len a reset by (auto simp: GetNextAllocator_def a_def Let_def)
  moreover have "covers ?r (gp_pending g)" unfolding covers_def
  proof (intro allI impI)
    fix f ls cl assume h: "(f, ls) \<in> set (gp_pending g)" "cl \<in> set ls" "cl_allocator cl < length (ar_events ?r)"
    then have "f \<le> ar_events r ! cl_allocator cl" using inv by (auto simp: queue_inv_def covers_def)
    moreover have "f < ?n" using queue_inv_range [OF inv h(1)] by simp
    ultimately show "f \<le> ar_events ?r ! cl_allocator cl" using h(3) by (cases "cl_allocator cl = a") auto
  qed
  moreover have "e \<le> ?n" if "e \<in> set ((ar_events r)[a := ?n])" for e
    using that set_update_subset_insert [of "ar_events r" a ?n] inv by (auto simp: queue_inv_def)
  ultimately show ?thesis using inv a len by (auto simp: queue_inv_def)
qed

lemma ExecuteCommandLists_inv:
  assumes inv: "queue_inv q g r" and ls: "\<And>cl. cl \<in> set ls \<Longrightarrow> cl_allocator cl < 2 \<Longrightarrow> ar_events r ! cl_allocator cl = Suc (cq_last_fence_value q)"
    and e: "ExecuteCommandLists ls (q, g) = (q', g')"
  shows "queue_inv q' g' r" "cq_last_fence_value q' = Suc (cq_last_fence_value q)" "cq_references q' = cq_references q"
    "cq_closing q' = cq_closing q" "gp_completed g' = gp_completed g" "gp_mem g' = gp_mem g"
    "gp_pending g' = gp_pending g @ [(Suc (cq_last_fence_value q), ls)]"
proof -
  have q': "q' = q\<lparr>cq_last_fence_value := Suc (cq_last_fence_value q)\<rparr>"
    and g': "g' = g\<lparr>gp_pending := gp_pending g @ [(Suc (cq_last_fence_value q), ls)]\<rparr>" using e by (auto simp: ExecuteCommandLists_def)
  show "queue_inv q' g' r"
    using inv ls unfolding q' g' queue_inv_def covers_def by (auto simp: le_Suc_eq)
qed (use e in \<open>auto simp: ExecuteCommandLists_def\<close>)

lemma gpu_step_inv:
  assumes inv: "queue_inv q g r"
  shows "queue_inv q (gpu_step exec g) r" "gp_completed g \<le> gp_completed (gpu_step exec g)"
proof -
  have "queue_inv q (gpu_step exec g) r \<and> gp_completed g \<le> gp_completed (gpu_step exec g)"
  proof (cases "gp_pending g")
    case (Cons x rest)
    obtain f ls where x: "x = (f, ls)" by (cases x)
    have e: "f # map fst rest = [Suc (gp_completed g)..<Suc (cq_last_fence_value q)]" using inv by (simp add: queue_inv_def Cons x)
    then have "Suc (gp_completed g) < Suc (cq_last_fence_value q)" by (metis list.distinct(1) upt_conv_Nil not_less)
    then have "f = Suc (gp_completed g)" "map fst rest = [Suc f..<Suc (cq_last_fence_value q)]" "f \<le> cq_last_fence_value q"
      using e by (simp_all add: upt_conv_Cons del: upt_Suc)
    then show ?thesis using inv by (auto simp: gpu_step_def x queue_inv_def covers_def Cons simp del: upt_Suc)
  qed (use assms in \<open>simp add: gpu_step_def\<close>)
  then show "queue_inv q (gpu_step exec g) r" "gp_completed g \<le> gp_completed (gpu_step exec g)" by auto
qed

lemma UpdateCurrentAllocatorCompletionEvent_ok:
  assumes inv: "queue_inv q g r"
  shows "\<exists>r'. UpdateCurrentAllocatorCompletionEvent (Suc (cq_last_fence_value q)) r = Inr r' \<and> queue_inv q g r'
     \<and> ar_current r' = ar_current r \<and> ar_events r' ! ar_current r = Suc (cq_last_fence_value q)"
proof -
  let ?n = "Suc (cq_last_fence_value q)" and ?a = "ar_current r"
  have len: "length (ar_events r) = 2" "?a < 2" using inv by (simp_all add: queue_inv_def)
  let ?r = "r\<lparr>ar_events := (ar_events r)[?a := ?n]\<rparr>"
  have "covers ?r (gp_pending g)" unfolding covers_def
  proof (intro allI impI)
    fix f ls cl assume h: "(f, ls) \<in> set (gp_pending g)" "cl \<in> set ls" "cl_allocator cl < length (ar_events ?r)"
    then have "f \<le> ar_events r ! cl_allocator cl" using inv by (auto simp: queue_inv_def covers_def)
    moreover have "f < ?n" using queue_inv_range [OF inv h(1)] by simp
    ultimately show "f \<le> ar_events ?r ! cl_allocator cl" using h(3) by (cases "cl_allocator cl = ?a") auto
  qed
  moreover have "e \<le> ?n" if "e \<in> set ((ar_events r)[?a := ?n])" for e
    using that set_update_subset_insert [of "ar_events r" ?a ?n] inv by (auto simp: queue_inv_def)
  ultimately show ?thesis using inv len by (auto simp: UpdateCurrentAllocatorCompletionEvent_def queue_inv_def)
qed

text \<open>Between two states the device has executed some commands.\<close>

definition advanced :: "device \<Rightarrow> gpu \<Rightarrow> gpu \<Rightarrow> bool" where
  "advanced exec g g' \<longleftrightarrow> gp_next g' = gp_next g \<and> (\<exists>cs. gp_mem g' = fold exec cs (gp_mem g))"

lemma advanced_same: "gp_next g' = gp_next g \<Longrightarrow> gp_mem g' = gp_mem g \<Longrightarrow> advanced exec g g'"
  by (auto simp: advanced_def intro: exI [of _ "[]"])

lemma advanced_trans: "advanced exec g g' \<Longrightarrow> advanced exec g' g'' \<Longrightarrow> advanced exec g g''"
  unfolding advanced_def by (metis comp_apply fold_append)

lemma gpu_step_advanced: "advanced exec g (gpu_step exec g)"
  by (auto simp: advanced_def gpu_step_def run_lists_def intro: exI [of _ "[]"] split: list.splits)

lemma wait_pending_advanced: "wait_pending exec event xs g = Inr g' \<Longrightarrow> advanced exec g g'"
proof (induction xs arbitrary: g)
  case (Cons x xs)
  then show ?case using gpu_step_advanced advanced_trans by (auto split: if_splits intro: advanced_same) blast
qed (auto split: if_splits intro: advanced_same)

lemma wait_pending_ok:
  assumes "queue_inv q g r" and "event \<le> cq_last_fence_value q" and "length xs = length (gp_pending g)"
  shows "\<exists>g'. wait_pending exec event xs g = Inr g' \<and> queue_inv q g' r \<and> IsSignaled event g' \<and> gp_completed g \<le> gp_completed g'"
  using assms
proof (induction xs arbitrary: g)
  case Nil
  then have "gp_completed g = cq_last_fence_value q" by (auto simp: queue_inv_def split: if_splits)
  then show ?case using Nil by (simp add: IsSignaled_def)
next
  case (Cons x xs)
  have "length xs = length (gp_pending (gpu_step exec g))"
    using Cons.prems(3) by (cases "gp_pending g") (auto simp: gpu_step_def)
  then obtain g' where "wait_pending exec event xs (gpu_step exec g) = Inr g'" "queue_inv q g' r" "IsSignaled event g'"
      "gp_completed (gpu_step exec g) \<le> gp_completed g'"
    using Cons.IH [OF gpu_step_inv(1) [OF Cons.prems(1)] Cons.prems(2)] by blast
  then show ?case using Cons.prems(1) gpu_step_inv(2) [OF Cons.prems(1), of exec] by (auto intro: order_trans)
qed

lemma WaitForSignal_ok:
  "queue_inv q g r \<Longrightarrow> event \<le> cq_last_fence_value q \<Longrightarrow>
   \<exists>g'. WaitForSignal exec event g = Inr g' \<and> queue_inv q g' r \<and> IsSignaled event g' \<and> gp_completed g \<le> gp_completed g'"
  unfolding WaitForSignal_def by (rule wait_pending_ok) simp_all

section \<open>The recorder\<close>

text \<open>The recorder has an open list with the given commands; nothing is submitted before the next fence
  value.\<close>

definition recording :: "DmlCommandQueue \<Rightarrow> gpu \<Rightarrow> DmlCommandRecorder \<Rightarrow> gpu_cmd list \<Rightarrow> bool \<Rightarrow> bool" where
  "recording q g rc cmds recorded \<longleftrightarrow> queue_inv q g (rc_ring rc)
     \<and> rc_current_command_list rc = Some \<lparr>cl_allocator = ar_current (rc_ring rc), cl_cmds = cmds\<rparr>
     \<and> ar_events (rc_ring rc) ! ar_current (rc_ring rc) = Suc (cq_last_fence_value q)
     \<and> rc_operations_recorded rc = recorded"

definition idle :: "DmlCommandQueue \<Rightarrow> gpu \<Rightarrow> DmlCommandRecorder \<Rightarrow> bool" where
  "idle q g rc \<longleftrightarrow> queue_inv q g (rc_ring rc) \<and> rc_current_command_list rc = None \<and> \<not> rc_operations_recorded rc
     \<and> rc_current_descriptor_heap rc = None"

lemma Open_ok: "idle q g rc \<Longrightarrow> \<exists>rc'. Open q g rc = Inr rc' \<and> recording q g rc' [] False"
  using GetNextAllocator_ok [of q g "rc_ring rc"]
  by (fastforce simp: idle_def Open_def recording_def GetNextCompletionEvent_def Let_def split: option.splits)

lemma record_cmd_ok: "recording q g rc cmds b \<Longrightarrow> \<exists>rc'. record_cmd c rc = Inr rc' \<and> recording q g rc' (cmds @ [c]) b"
  by (auto simp: recording_def record_cmd_def)

lemma recording_set: "recording q g rc cmds b \<Longrightarrow> recording q g (rc\<lparr>rc_operations_recorded := True\<rparr>) cmds True"
  by (simp add: recording_def)

text \<open>The commands apart from the settings of descriptor heaps, which the recorder adds on its own.\<close>

definition work :: "gpu_cmd list \<Rightarrow> gpu_cmd list" where
  "work = filter (\<lambda>c. case c of SetHeaps _ \<Rightarrow> False | _ \<Rightarrow> True)"

lemma work_append [simp]: "work (xs @ ys) = work xs @ work ys"
  by (simp add: work_def)

lemma work_simps [simp]:
  "work [] = []" "work (SetHeaps h # xs) = work xs" "work (CopyRegion a b c d n # xs) = CopyRegion a b c d n # work xs"
  "work (Transition bs # xs) = Transition bs # work xs" "work (UAV # xs) = UAV # work xs" "work (Dispatch k # xs) = Dispatch k # work xs"
  by (simp_all add: work_def)

text \<open>\<open>records f xs\<close>: the method \<open>f\<close> adds the commands \<open>xs\<close> to the open list.\<close>

definition records :: "DmlCommandQueue \<Rightarrow> gpu \<Rightarrow> (DmlCommandRecorder \<Rightarrow> DmlCommandRecorder res) \<Rightarrow> gpu_cmd list \<Rightarrow> bool" where
  "records q g f xs \<longleftrightarrow> (\<forall>rc cmds b. recording q g rc cmds b \<longrightarrow>
     (\<exists>rc' ys. f rc = Inr rc' \<and> recording q g rc' (cmds @ ys) True \<and> work ys = xs))"

lemma records_bind:
  assumes "records q g f xs" and "records q g h ys"
  shows "records q g (\<lambda>rc. res_bind (f rc) h) (xs @ ys)"
  unfolding records_def
proof (intro allI impI)
  fix rc cmds b assume "recording q g rc cmds b"
  then obtain rc1 us where 1: "f rc = Inr rc1" "recording q g rc1 (cmds @ us) True" "work us = xs"
    using assms(1) unfolding records_def by blast
  then obtain rc2 vs where 2: "h rc1 = Inr rc2" "recording q g rc2 ((cmds @ us) @ vs) True" "work vs = ys"
    using assms(2) unfolding records_def by blast
  show "\<exists>rc' zs. res_bind (f rc) h = Inr rc' \<and> recording q g rc' (cmds @ zs) True \<and> work zs = xs @ ys"
    using 1 2 by (intro exI [of _ rc2] exI [of _ "us @ vs"]) simp
qed

lemma record_and_set:
  assumes "work [c] = [c]"
  shows "records q g (\<lambda>rc. res_bind (record_cmd c rc) (\<lambda>rc'. Inr (rc'\<lparr>rc_operations_recorded := True\<rparr>))) [c]"
  unfolding records_def
  using assms record_cmd_ok recording_set by (metis res_bind_Inr)

lemma Recorder_records:
  "records q g (Recorder_CopyBufferRegion dst off src off' n) [CopyRegion dst off src off' n]"
  "records q g (Recorder_ResourceBarrier bs) [Transition bs]"
  "records q g Recorder_AddUAVBarrier [UAV]"
  using record_and_set [of "CopyRegion dst off src off' n"] record_and_set [of "Transition bs"] record_and_set [of UAV]
  by (simp_all add: records_def Recorder_CopyBufferRegion_def Recorder_ResourceBarrier_def Recorder_AddUAVBarrier_def)

lemma for_res_record:
  assumes "recording q g rc cmds b"
  shows "\<exists>rc'. for_res record_cmd cs rc = Inr rc' \<and> recording q g rc' (cmds @ cs) b"
  using assms
proof (induction cs arbitrary: rc cmds)
  case (Cons c cs)
  then show ?case using record_cmd_ok [OF Cons.prems, of c] Cons.IH by fastforce
qed simp

lemma GetCommandList_records:
  "records q g (\<lambda>rc. Recorder_GetCommandList cs (rc\<lparr>rc_current_descriptor_heap := None\<rparr>)) (work cs)"
  unfolding records_def
proof (intro allI impI)
  fix rc cmds b assume "recording q g rc cmds b"
  then have "recording q g (rc\<lparr>rc_current_descriptor_heap := None, rc_operations_recorded := True\<rparr>) cmds True"
    by (simp add: recording_def)
  from for_res_record [OF this, of cs]
  show "\<exists>rc' ys. Recorder_GetCommandList cs (rc\<lparr>rc_current_descriptor_heap := None\<rparr>) = Inr rc'
      \<and> recording q g rc' (cmds @ ys) True \<and> work ys = work cs"
    by (auto simp: Recorder_GetCommandList_def)
qed

lemma SetDescriptorHeap_ok:
  assumes "recording q g rc cmds b"
  shows "\<exists>rc' ys. SetDescriptorHeap h rc = Inr rc' \<and> recording q g rc' (cmds @ ys) b \<and> work ys = []"
proof (cases "h = None \<or> rc_current_descriptor_heap rc = h")
  case True
  then show ?thesis using assms by (intro exI [of _ rc] exI [of _ "[]"]) (auto simp: SetDescriptorHeap_def split: option.splits)
next
  case False
  then obtain k where h: "h = Some k" "rc_current_descriptor_heap rc \<noteq> Some k" by auto
  have "recording q g (rc\<lparr>rc_current_descriptor_heap := Some k\<rparr>) cmds b" using assms by (simp add: recording_def)
  from record_cmd_ok [OF this, of "SetHeaps k"] show ?thesis using h
    by (force simp: SetDescriptorHeap_def intro: exI [of _ "[SetHeaps k]"])
qed

text \<open>A new heap has room for the allocation it was created for.\<close>

lemma AllocDescriptors_ok: "\<exists>r dp'. AllocDescriptors n event flags g dp = Inr (r, dp')"
  by (auto simp: AllocDescriptors_def TryAllocDescriptors_def CreateHeap_def Let_def split: prod.splits option.splits)

lemma record_operator_records:
  "records q g (record_operator barrier op q' g') (Dispatch (op_id op) # (if barrier then [UAV] else []))"
  unfolding records_def
proof (intro allI impI)
  fix rc cmds b assume rc: "recording q g rc cmds b"
  obtain r dp where a: "AllocDescriptors (op_descriptor_count op) (GetNextCompletionEvent q') SHADER_VISIBLE g' (rc_descriptor_pool rc) = Inr (r, dp)"
    using AllocDescriptors_ok by blast
  have "recording q g (rc\<lparr>rc_descriptor_pool := dp\<rparr>) cmds b" using rc by (simp add: recording_def)
  then obtain rc1 ys where 1: "SetDescriptorHeap (Some (dr_heap r)) (rc\<lparr>rc_descriptor_pool := dp\<rparr>) = Inr rc1"
      "recording q g rc1 (cmds @ ys) b" "work ys = []" using SetDescriptorHeap_ok by blast
  obtain rc2 where 2: "record_cmd (Dispatch (op_id op)) rc1 = Inr rc2" "recording q g rc2 ((cmds @ ys) @ [Dispatch (op_id op)]) b"
    using record_cmd_ok [OF 1(2)] by blast
  let ?rc3 = "rc2\<lparr>rc_operations_recorded := True\<rparr>" and ?zs = "ys @ [Dispatch (op_id op)]"
  have 3: "recording q g ?rc3 (cmds @ ?zs) True" using recording_set [OF 2(2)] by simp
  obtain rc4 where 4: "record_cmd UAV ?rc3 = Inr rc4" "recording q g rc4 ((cmds @ ?zs) @ [UAV]) True"
    using record_cmd_ok [OF 3] by blast
  show "\<exists>rc' zs. record_operator barrier op q' g' rc = Inr rc' \<and> recording q g rc' (cmds @ zs) True
      \<and> work zs = Dispatch (op_id op) # (if barrier then [UAV] else [])"
    using a 1 2(1) 3 4
    by (intro exI [of _ "if barrier then rc4 else ?rc3"] exI [of _ "if barrier then ?zs @ [UAV] else ?zs"])
       (simp add: record_operator_def)
qed

text \<open>Closing and submitting: the recorded list goes before the caller's.\<close>

definition submits :: "DmlCommandQueue \<Rightarrow> gpu \<Rightarrow> CommandList list \<Rightarrow> DmlCommandQueue \<Rightarrow> gpu \<Rightarrow> bool" where
  "submits q g ls q' g' \<longleftrightarrow> (if ls = [] then q' = q \<and> g' = g else ExecuteCommandLists ls (q, g) = (q', g'))"

lemma submits_ex: "\<exists>q' g'. submits q g ls q' g'"
  by (cases "ls = []") (simp_all add: submits_def)

lemma CloseAndExecute_ok:
  assumes rc: "recording q g rc cmds b" and ext: "\<And>cl. ext = Some cl \<Longrightarrow> 2 \<le> cl_allocator cl"
  shows "\<exists>q' g' rc'. CloseAndExecute ext (q, g, rc) = Inr (q', g', rc') \<and> idle q' g' rc'
     \<and> submits q g ((if b then [\<lparr>cl_allocator = ar_current (rc_ring rc), cl_cmds = cmds\<rparr>] else []) @ (case ext of None \<Rightarrow> [] | Some cl \<Rightarrow> [cl])) q' g'"
proof -
  define cur where "cur = \<lparr>cl_allocator = ar_current (rc_ring rc), cl_cmds = cmds\<rparr>"
  define ls where "ls = (if b then [cur] else []) @ (case ext of None \<Rightarrow> [] | Some cl \<Rightarrow> [cl])"
  obtain q' g' where s: "submits q g ls q' g'" using submits_ex by blast
  have ev: "ar_events (rc_ring rc) ! cl_allocator cl = Suc (cq_last_fence_value q)" if "cl \<in> set ls" "cl_allocator cl < 2" for cl
    using that rc ext by (fastforce simp: ls_def cur_def recording_def split: if_splits option.splits)
  have inv: "queue_inv q g (rc_ring rc)" using rc by (simp add: recording_def)
  have "queue_inv q' g' (rc_ring rc)"
    using s inv ExecuteCommandLists_inv(1) [OF inv ev] by (auto simp: submits_def split: if_splits)
  then show ?thesis
    using rc s by (auto simp: CloseAndExecute_def recording_def idle_def submits_def ls_def cur_def Let_def split: if_splits)
qed

lemma submits_inv:
  assumes "submits q g ls q' g'"
  shows "cq_last_fence_value q \<le> cq_last_fence_value q'" "cq_references q' = cq_references q" "cq_closing q' = cq_closing q"
    "gp_completed g' = gp_completed g" "gp_mem g' = gp_mem g"
    "gp_next g' = gp_next g"
    "concat (map snd (gp_pending g')) = concat (map snd (gp_pending g)) @ ls"
    "ls \<noteq> [] \<Longrightarrow> cq_last_fence_value q' = Suc (cq_last_fence_value q)"
  using assms by (auto simp: submits_def ExecuteCommandLists_def split: if_splits)

lemma Recorder_ExecuteCommandList_ok:
  assumes rc: "recording q g rc cmds b" and ext: "\<And>cl. ext = Some cl \<Longrightarrow> 2 \<le> cl_allocator cl" and none: "ext = None \<Longrightarrow> b"
  shows "\<exists>v q' g' rc' ys. Recorder_ExecuteCommandList ext (q, g, rc) = Inr (v, q', g', rc') \<and> recording q' g' rc' ys False
     \<and> submits q g ((if b then [\<lparr>cl_allocator = ar_current (rc_ring rc), cl_cmds = cmds\<rparr>] else []) @ (case ext of None \<Rightarrow> [] | Some cl \<Rightarrow> [cl])) q' g'
     \<and> v = cq_last_fence_value q' \<and> work ys = (if b then [] else work cmds)"
proof (cases b)
  case True
  obtain q' g' rc1 where 1: "CloseAndExecute ext (q, g, rc) = Inr (q', g', rc1)" "idle q' g' rc1"
      "submits q g ((if b then [\<lparr>cl_allocator = ar_current (rc_ring rc), cl_cmds = cmds\<rparr>] else []) @ (case ext of None \<Rightarrow> [] | Some cl \<Rightarrow> [cl])) q' g'"
    using CloseAndExecute_ok [OF rc ext] by blast
  obtain rc2 where 2: "Open q' g' rc1 = Inr rc2" "recording q' g' rc2 [] False" using Open_ok [OF 1(2)] by blast
  obtain rc3 ys where 3: "SetDescriptorHeap (rc_current_descriptor_heap rc) rc2 = Inr rc3" "recording q' g' rc3 ys False" "work ys = []"
    using SetDescriptorHeap_ok [OF 2(2), of "rc_current_descriptor_heap rc"] by auto
  have "rc_operations_recorded rc" using rc True by (simp add: recording_def)
  then show ?thesis using True 1 2(1) 3
    by (intro exI [of _ "cq_last_fence_value q'"] exI [of _ q'] exI [of _ g'] exI [of _ rc3] exI [of _ ys])
       (simp add: Recorder_ExecuteCommandList_def Queue_GetCurrentCompletionEvent_def)
next
  case False
  obtain cl where cl: "ext = Some cl" "2 \<le> cl_allocator cl" using none ext False by (cases ext) auto
  obtain q' g' where e: "ExecuteCommandLists [cl] (q, g) = (q', g')" by fastforce
  have inv: "queue_inv q g (rc_ring rc)" using rc by (simp add: recording_def)
  have last: "cq_last_fence_value q' = Suc (cq_last_fence_value q)" using ExecuteCommandLists_inv(2) [OF inv _ e] cl by simp
  have "queue_inv q' g' (rc_ring rc)" using ExecuteCommandLists_inv(1) [OF inv _ e] cl by simp
  from UpdateCurrentAllocatorCompletionEvent_ok [OF this] obtain r' where
    r': "UpdateCurrentAllocatorCompletionEvent (Suc (cq_last_fence_value q')) (rc_ring rc) = Inr r'" "queue_inv q' g' r'"
      "ar_current r' = ar_current (rc_ring rc)" "ar_events r' ! ar_current (rc_ring rc) = Suc (cq_last_fence_value q')" by blast
  show ?thesis using False rc cl e r' last
    by (intro exI [of _ "cq_last_fence_value q'"] exI [of _ q'] exI [of _ g'] exI [of _ "rc\<lparr>rc_ring := r'\<rparr>"] exI [of _ cmds])
       (simp add: Recorder_ExecuteCommandList_def GetNextCompletionEvent_def recording_def submits_def)
qed

section \<open>The execution context\<close>

text \<open>The calls of the context's users, one after the other.\<close>

datatype dml_call =
    CallCopyBufferRegion resource nat "32 word" resource nat "32 word" nat
  | CallInitializeOperator CompiledOperator
  | CallExecuteCommandList "CommandList option"
  | CallAddUAVBarrier
  | CallResourceBarrier "(resource \<times> 32 word \<times> 32 word) list"
  | CallRecord "gpu_cmd list"
  | CallFlush
  | CallQueueReference nat
  | CallReleaseCompletedReferences
  | CallWait nat

fun perform :: "device \<Rightarrow> dml_call \<Rightarrow> DmlExecutionContext \<Rightarrow> DmlExecutionContext res" where
  "perform exec (CallCopyBufferRegion dst off st src off' st' n) d = CopyBufferRegion dst off st src off' st' n d"
| "perform exec (CallInitializeOperator op) d = InitializeOperator op d"
| "perform exec (CallExecuteCommandList cl) d = res_bind (ExecuteCommandList cl d) (\<lambda>(_, d'). Inr d')"
| "perform exec CallAddUAVBarrier d = AddUAVBarrier d"
| "perform exec (CallResourceBarrier bs) d = ResourceBarrier bs d"
| "perform exec (CallRecord cs) d = GetCommandListForRecordingAndInvalidateState cs d"
| "perform exec CallFlush d = Flush d"
| "perform exec (CallQueueReference obj) d = Inr (QueueReference obj d)"
| "perform exec CallReleaseCompletedReferences d = Inr (ReleaseCompletedReferences d)"
| "perform exec (CallWait event) d = Context_wait exec event d"

text \<open>What the callers see to: a list of their own is recorded with an allocator of their own, the call without a
  list submits something, and they wait for values that were submitted.\<close>

fun call_ok :: "dml_call \<Rightarrow> DmlExecutionContext \<Rightarrow> bool" where
  "call_ok (CallExecuteCommandList None) d \<longleftrightarrow> ec_open d \<and> rc_operations_recorded (ec_recorder d)"
| "call_ok (CallExecuteCommandList (Some cl)) d \<longleftrightarrow> 2 \<le> cl_allocator cl"
| "call_ok (CallWait event) d \<longleftrightarrow> event \<le> cq_last_fence_value (ec_queue d)"
| "call_ok _ d \<longleftrightarrow> True"

text \<open>The commands a call adds.\<close>

fun call_work :: "dml_call \<Rightarrow> gpu_cmd list" where
  "call_work (CallCopyBufferRegion dst off st src off' st' n) =
     (let bs = copy_barriers dst st src st' in
      (if bs = [] then [] else [Transition bs]) @ CopyRegion dst off src off' n #
      (if bs = [] then [] else [Transition (map (\<lambda>(r, b, a). (r, a, b)) bs)]))"
| "call_work (CallInitializeOperator op) = Dispatch (op_id op) # (if op_persistent op \<or> 0 < op_temporary_size op then [UAV] else [])"
| "call_work (CallExecuteCommandList cl) = (case cl of None \<Rightarrow> [] | Some l \<Rightarrow> work (cl_cmds l))"
| "call_work CallAddUAVBarrier = [UAV]"
| "call_work (CallResourceBarrier bs) = [Transition bs]"
| "call_work (CallRecord cs) = work cs"
| "call_work _ = []"

inductive dml_reach :: "device \<Rightarrow> DmlExecutionContext \<Rightarrow> bool" for exec where
  start: "gp_pending g = [] \<Longrightarrow> gp_completed g = 0 \<Longrightarrow> dml_reach exec (DmlExecutionContext_new g)"
| call: "dml_reach exec d \<Longrightarrow> call_ok c d \<Longrightarrow> perform exec c d = Inr d' \<Longrightarrow> dml_reach exec d'"
| progress: "dml_reach exec d \<Longrightarrow> dml_reach exec (d\<lparr>ec_gpu := gpu_step exec (ec_gpu d)\<rparr>)"

text \<open>The commands that are submitted or recorded and not yet executed, in their order.\<close>

definition backlog :: "DmlExecutionContext \<Rightarrow> gpu_cmd list" where
  "backlog d = work (concat (map cl_cmds (concat (map snd (gp_pending (ec_gpu d)))))
     @ (case rc_current_command_list (ec_recorder d) of None \<Rightarrow> [] | Some cl \<Rightarrow> cl_cmds cl))"

definition refs_ok :: "DmlCommandQueue \<Rightarrow> bool \<Rightarrow> bool" where
  "refs_ok q opened \<longleftrightarrow> sorted (map fst (cq_references q)) \<and> \<not> cq_closing q
     \<and> (\<forall>f\<in>fst ` set (cq_references q). f \<le> cq_last_fence_value q + (if opened then 1 else 0))"

definition ctx_inv :: "DmlExecutionContext \<Rightarrow> bool" where
  "ctx_inv d \<longleftrightarrow> refs_ok (ec_queue d) (ec_open d)
     \<and> (if ec_open d
        then \<exists>cmds b. recording (ec_queue d) (ec_gpu d) (ec_recorder d) cmds b \<and> (b \<or> work cmds = [])
        else idle (ec_queue d) (ec_gpu d) (ec_recorder d))"

lemma ctx_invI:
  "refs_ok (ec_queue d) True \<Longrightarrow> ec_open d \<Longrightarrow> recording (ec_queue d) (ec_gpu d) (ec_recorder d) cmds b \<Longrightarrow> b \<or> work cmds = [] \<Longrightarrow> ctx_inv d"
  by (auto simp: ctx_inv_def)

lemma refs_ok_open: "refs_ok q b \<Longrightarrow> refs_ok q True"
  by (auto simp: refs_ok_def split: if_splits intro: le_SucI)

lemma backlog_recording:
  "recording q (ec_gpu d) (ec_recorder d) cmds b \<Longrightarrow>
   backlog d = work (concat (map cl_cmds (concat (map snd (gp_pending (ec_gpu d)))))) @ work cmds"
  by (simp add: backlog_def recording_def)

lemma SetCommandRecorder_ok:
  assumes "ctx_inv d"
  shows "\<exists>rc cmds b. SetCommandRecorder d = Inr (d\<lparr>ec_open := True, ec_recorder := rc\<rparr>)
     \<and> recording (ec_queue d) (ec_gpu d) rc cmds b \<and> (b \<or> work cmds = []) \<and> refs_ok (ec_queue d) True
     \<and> backlog (d\<lparr>ec_open := True, ec_recorder := rc\<rparr>) = backlog d
     \<and> (if ec_open d then rc = ec_recorder d else \<not> b)"
proof (cases "ec_open d")
  case True
  then have d: "d\<lparr>ec_open := True, ec_recorder := ec_recorder d\<rparr> = d" by simp
  obtain cmds b where "recording (ec_queue d) (ec_gpu d) (ec_recorder d) cmds b" "b \<or> work cmds = []" "refs_ok (ec_queue d) True"
    using True assms by (auto simp: ctx_inv_def)
  then show ?thesis using True
    by (intro exI [of _ "ec_recorder d"] exI [of _ cmds] exI [of _ b]) (simp add: d SetCommandRecorder_def)
next
  case False
  then have i: "idle (ec_queue d) (ec_gpu d) (ec_recorder d)" and r: "refs_ok (ec_queue d) True"
    using assms refs_ok_open by (auto simp: ctx_inv_def)
  obtain rc where rc: "Open (ec_queue d) (ec_gpu d) (ec_recorder d) = Inr rc" "recording (ec_queue d) (ec_gpu d) rc [] False"
    using Open_ok [OF i] by blast
  have "backlog (d\<lparr>ec_open := True, ec_recorder := rc\<rparr>) = backlog d"
    using i rc(2) by (simp add: backlog_def idle_def recording_def)
  then show ?thesis using False rc r
    by (intro exI [of _ rc] exI [of _ "[]"] exI [of _ False]) (simp add: SetCommandRecorder_def)
qed

text \<open>A recording method adds its commands at the end and touches nothing else.\<close>

lemma with_recorder_ok:
  assumes inv: "ctx_inv d" and f: "records (ec_queue d) (ec_gpu d) f xs"
  shows "\<exists>rc. with_recorder f d = Inr (d\<lparr>ec_open := True, ec_recorder := rc\<rparr>) \<and> ctx_inv (d\<lparr>ec_open := True, ec_recorder := rc\<rparr>)
     \<and> rc_operations_recorded rc \<and> backlog (d\<lparr>ec_open := True, ec_recorder := rc\<rparr>) = backlog d @ xs"
proof -
  obtain rc cmds b where 1: "SetCommandRecorder d = Inr (d\<lparr>ec_open := True, ec_recorder := rc\<rparr>)"
      "recording (ec_queue d) (ec_gpu d) rc cmds b" "refs_ok (ec_queue d) True" "backlog (d\<lparr>ec_open := True, ec_recorder := rc\<rparr>) = backlog d"
    using SetCommandRecorder_ok [OF inv] by blast
  obtain rc' ys where 2: "f rc = Inr rc'" "recording (ec_queue d) (ec_gpu d) rc' (cmds @ ys) True" "work ys = xs"
    using f 1(2) unfolding records_def by blast
  let ?d = "d\<lparr>ec_open := True, ec_recorder := rc\<rparr>" and ?d' = "d\<lparr>ec_open := True, ec_recorder := rc'\<rparr>"
  have "backlog ?d' = backlog ?d @ xs"
    using backlog_recording [of "ec_queue d" ?d] backlog_recording [of "ec_queue d" ?d'] 1(2) 2 by simp
  moreover have "ctx_inv ?d'" using 1(3) 2(2) by (intro ctx_invI) auto
  ultimately show ?thesis using 1 2 by (intro exI [of _ rc']) (simp add: with_recorder_def recording_def)
qed

lemma copy_records:
  "records q g (\<lambda>rc. let barriers = copy_barriers dst st src st' in
       res_bind (if barriers \<noteq> [] then Recorder_ResourceBarrier barriers rc else Inr rc) (\<lambda>rc1.
       res_bind (Recorder_CopyBufferRegion dst off src off' n rc1) (\<lambda>rc2.
       if barriers \<noteq> [] then Recorder_ResourceBarrier (map (\<lambda>(r, before, after). (r, after, before)) barriers) rc2 else Inr rc2)))
     (call_work (CallCopyBufferRegion dst off st src off' st' n))"
proof (cases "copy_barriers dst st src st' = []")
  case True
  have "res_bind (Recorder_CopyBufferRegion dst off src off' n rc) Inr = Recorder_CopyBufferRegion dst off src off' n rc" for rc
    by (simp add: res_bind_def split: sum.splits)
  then show ?thesis using Recorder_records(1) True by simp
next
  case False
  let ?bs = "copy_barriers dst st src st'"
  have "records q g (\<lambda>rc. res_bind (Recorder_ResourceBarrier ?bs rc) (\<lambda>rc1. res_bind (Recorder_CopyBufferRegion dst off src off' n rc1)
       (Recorder_ResourceBarrier (map (\<lambda>(r, before, after). (r, after, before)) ?bs))))
     ([Transition ?bs] @ [CopyRegion dst off src off' n] @ [Transition (map (\<lambda>(r, b, a). (r, a, b)) ?bs)])"
    by (intro records_bind Recorder_records)
  then show ?thesis using False by (simp add: Let_def)
qed

text \<open>The contents of the buffers once everything submitted and recorded has been executed.\<close>

definition settled :: "device \<Rightarrow> DmlExecutionContext \<Rightarrow> memory" where
  "settled exec d = fold exec (backlog d) (gp_mem (ec_gpu d))"

definition heaps_neutral :: "device \<Rightarrow> bool" where
  "heaps_neutral exec \<longleftrightarrow> (\<forall>h m. exec (SetHeaps h) m = m)"

lemma fold_work: "heaps_neutral exec \<Longrightarrow> fold exec (work xs) m = fold exec xs m"
proof (induction xs arbitrary: m)
  case (Cons c xs)
  then show ?case by (cases c) (simp_all add: heaps_neutral_def)
qed simp

lemma gpu_step_settled:
  assumes "heaps_neutral exec"
  shows "settled exec (d\<lparr>ec_gpu := gpu_step exec (ec_gpu d)\<rparr>) = settled exec d"
  by (cases "gp_pending (ec_gpu d)")
     (auto simp: settled_def backlog_def gpu_step_def run_lists_def fold_work [OF assms] split: option.splits)

text \<open>A reference is dropped only when the value it was queued with is completed.\<close>

definition refs_kept :: "DmlExecutionContext \<Rightarrow> DmlExecutionContext \<Rightarrow> bool" where
  "refs_kept d d' \<longleftrightarrow> (\<forall>(f, obj)\<in>set (cq_references (ec_queue d)).
     (f, obj) \<in> set (cq_references (ec_queue d')) \<or> f \<le> gp_completed (ec_gpu d'))"

definition call_post :: "device \<Rightarrow> DmlExecutionContext \<Rightarrow> gpu_cmd list \<Rightarrow> DmlExecutionContext \<Rightarrow> bool" where
  "call_post exec d xs d' \<longleftrightarrow> ctx_inv d' \<and> settled exec d' = fold exec xs (settled exec d)
     \<and> refs_kept d d' \<and> gp_completed (ec_gpu d) \<le> gp_completed (ec_gpu d') \<and> ec_closed d' = ec_closed d
     \<and> advanced exec (ec_gpu d) (ec_gpu d') \<and> cq_last_fence_value (ec_queue d) \<le> cq_last_fence_value (ec_queue d')"

lemma with_recorder_post:
  assumes "ctx_inv d" and "records (ec_queue d) (ec_gpu d) f xs"
  shows "\<exists>d'. with_recorder f d = Inr d' \<and> call_post exec d xs d'"
  using with_recorder_ok [OF assms] by (fastforce simp: call_post_def settled_def refs_kept_def intro: advanced_same)

lemma release_split:
  "\<exists>pre. cq_references q = pre @ cq_references (Queue_ReleaseCompletedReferences g q) \<and> (\<forall>(f, obj)\<in>set pre. f \<le> gp_completed g)"
  by (intro exI [of _ "takeWhile (\<lambda>(f, _). f \<le> gp_completed g) (cq_references q)"])
     (auto simp: Queue_ReleaseCompletedReferences_def dest: set_takeWhileD)

lemma release_refs_ok: "refs_ok q b \<Longrightarrow> refs_ok (Queue_ReleaseCompletedReferences g q) b"
proof -
  assume r: "refs_ok q b"
  let ?q = "Queue_ReleaseCompletedReferences g q"
  obtain pre where "cq_references q = pre @ cq_references ?q" using release_split by blast
  moreover have "cq_last_fence_value ?q = cq_last_fence_value q" "cq_closing ?q = cq_closing q"
    by (simp_all add: Queue_ReleaseCompletedReferences_def)
  ultimately show ?thesis using r by (simp add: refs_ok_def sorted_append)
qed

lemma release_kept:
  "(f, obj) \<in> set (cq_references q) \<Longrightarrow>
   (f, obj) \<in> set (cq_references (Queue_ReleaseCompletedReferences g q)) \<or> f \<le> gp_completed g"
  using release_split [of q g] by fastforce

lemma queue_inv_release: "queue_inv (Queue_ReleaseCompletedReferences g' q) g r = queue_inv q g r"
  by (simp add: queue_inv_def Queue_ReleaseCompletedReferences_def)

lemma Flush_post:
  assumes inv: "ctx_inv d"
  shows "\<exists>d'. Flush d = Inr d' \<and> call_post exec d [] d' \<and> (ec_open d' \<longrightarrow> \<not> rc_operations_recorded (ec_recorder d'))
     \<and> cq_last_fence_value (ec_queue d') = GetCurrentCompletionEvent d"
proof (cases "ec_open d \<and> rc_operations_recorded (ec_recorder d)")
  case False
  then show ?thesis using inv by (auto simp: Flush_def call_post_def refs_kept_def GetCurrentCompletionEvent_def Queue_GetCurrentCompletionEvent_def intro: advanced_same)
next
  case True
  let ?q = "ec_queue d" and ?g = "ec_gpu d" and ?rc = "ec_recorder d"
  obtain cmds where rc: "recording ?q ?g ?rc cmds True" and refs: "refs_ok ?q True"
    using inv True by (auto simp: ctx_inv_def recording_def)
  let ?cur = "\<lparr>cl_allocator = ar_current (rc_ring ?rc), cl_cmds = cmds\<rparr>"
  obtain q' g' rc' where 1: "CloseAndExecute None (?q, ?g, ?rc) = Inr (q', g', rc')" "idle q' g' rc'" "submits ?q ?g [?cur] q' g'"
    using CloseAndExecute_ok [OF rc, of None] by auto
  note s = submits_inv [OF 1(3)]
  let ?q' = "Queue_ReleaseCompletedReferences g' q'"
  let ?d = "d\<lparr>ec_queue := ?q', ec_gpu := g', ec_recorder := rc', ec_open := False\<rparr>"
  have "refs_ok q' False" using refs s by (simp add: refs_ok_def)
  then have i: "ctx_inv ?d" using 1(2) release_refs_ok by (auto simp: ctx_inv_def idle_def queue_inv_release)
  obtain rc2 cmds2 b2 where 2: "SetCommandRecorder ?d = Inr (?d\<lparr>ec_open := True, ec_recorder := rc2\<rparr>)"
      "recording ?q' g' rc2 cmds2 b2" "b2 \<or> work cmds2 = []" "refs_ok ?q' True" "backlog (?d\<lparr>ec_open := True, ec_recorder := rc2\<rparr>) = backlog ?d"
      "\<not> b2"
    using SetCommandRecorder_ok [OF i] by auto
  let ?d2 = "?d\<lparr>ec_open := True, ec_recorder := rc2\<rparr>"
  have "backlog ?d = backlog d"
    using s(7) 1(2) backlog_recording [OF rc] by (simp add: backlog_def idle_def)
  then have "settled exec ?d2 = settled exec d" using 2(5) s(5) by (simp add: settled_def)
  moreover have "ctx_inv ?d2" using 2 by (intro ctx_invI) auto
  moreover have "refs_kept d ?d2" using release_kept [of _ _ q' g'] s(2) by (auto simp: refs_kept_def)
  ultimately have "call_post exec d [] ?d2"
    using s(1,4,5,6) by (simp add: call_post_def advanced_same Queue_ReleaseCompletedReferences_def)
  moreover have "Flush d = Inr ?d2" using True 1(1) 2(1) by (simp add: Flush_def)
  ultimately show ?thesis using 2(2,6) s(8) True
    by (simp add: recording_def GetCurrentCompletionEvent_def Queue_GetCurrentCompletionEvent_def Queue_ReleaseCompletedReferences_def)
qed

lemma ExecuteCommandList_post:
  assumes inv: "ctx_inv d" and ok: "call_ok (CallExecuteCommandList ext) d"
  shows "\<exists>d'. ExecuteCommandList ext d = Inr (cq_last_fence_value (ec_queue d'), d')
     \<and> call_post exec d (call_work (CallExecuteCommandList ext)) d'"
proof -
  let ?q = "ec_queue d" and ?g = "ec_gpu d"
  obtain rc cmds b where 1: "SetCommandRecorder d = Inr (d\<lparr>ec_open := True, ec_recorder := rc\<rparr>)"
      "recording ?q ?g rc cmds b" "b \<or> work cmds = []" "refs_ok ?q True" "backlog (d\<lparr>ec_open := True, ec_recorder := rc\<rparr>) = backlog d"
      "if ec_open d then rc = ec_recorder d else \<not> b"
    using SetCommandRecorder_ok [OF inv] by blast
  have ext: "2 \<le> cl_allocator cl" if "ext = Some cl" for cl using ok that by simp
  have none: b if "ext = None" using ok that 1(2,6) by (auto simp: recording_def split: if_splits)
  let ?ls = "(if b then [\<lparr>cl_allocator = ar_current (rc_ring rc), cl_cmds = cmds\<rparr>] else []) @ (case ext of None \<Rightarrow> [] | Some cl \<Rightarrow> [cl])"
  obtain q' g' rc' ys where 2: "Recorder_ExecuteCommandList ext (?q, ?g, rc) = Inr (cq_last_fence_value q', q', g', rc')"
      "recording q' g' rc' ys False" "submits ?q ?g ?ls q' g'" "work ys = (if b then [] else work cmds)"
    using Recorder_ExecuteCommandList_ok [OF 1(2) ext none] by blast
  note s = submits_inv [OF 2(3)]
  let ?d = "d\<lparr>ec_open := True, ec_recorder := rc\<rparr>"
  let ?d' = "d\<lparr>ec_open := True, ec_recorder := rc', ec_queue := q', ec_gpu := g'\<rparr>"
  have "?ls \<noteq> []" using none by (cases ext) auto
  then have "refs_ok q' True" using 1(4) s by (force simp: refs_ok_def)
  moreover have "work ys = []" using 2(4) 1(3) by auto
  ultimately have "ctx_inv ?d'" using 2(2) by (intro ctx_invI) auto
  moreover have "backlog ?d' = backlog ?d @ call_work (CallExecuteCommandList ext)"
    using backlog_recording [of ?q ?d] backlog_recording [of q' ?d'] 1(2,3) 2(2,4) s(7) by (cases ext) auto
  then have "settled exec ?d' = fold exec (call_work (CallExecuteCommandList ext)) (settled exec d)"
    using 1(5) s(5) by (simp add: settled_def)
  ultimately have "call_post exec d (call_work (CallExecuteCommandList ext)) ?d'"
    using s(1,2,4,5,6) by (auto simp: call_post_def refs_kept_def intro: advanced_same)
  then show ?thesis using 1(1) 2(1) by (intro exI [of _ ?d']) (simp add: ExecuteCommandList_def)
qed

lemma wait_pending_settled:
  assumes "heaps_neutral exec" and "wait_pending exec event xs (ec_gpu d) = Inr g'"
  shows "settled exec (d\<lparr>ec_gpu := g'\<rparr>) = settled exec d"
  using assms(2)
proof (induction xs arbitrary: d)
  case (Cons x xs)
  then show ?case
    using Cons.IH [of "d\<lparr>ec_gpu := gpu_step exec (ec_gpu d)\<rparr>"] gpu_step_settled [OF assms(1)] by (auto split: if_splits)
qed (auto split: if_splits)

lemma recording_gpu: "recording q g rc cmds b \<Longrightarrow> queue_inv q g' (rc_ring rc) \<Longrightarrow> recording q g' rc cmds b"
  by (simp add: recording_def)

lemma ctx_inv_queue_inv: "ctx_inv d \<Longrightarrow> queue_inv (ec_queue d) (ec_gpu d) (rc_ring (ec_recorder d))"
  by (auto simp: ctx_inv_def recording_def idle_def split: if_splits)

lemma ctx_inv_gpu:
  "ctx_inv d \<Longrightarrow> queue_inv (ec_queue d) g' (rc_ring (ec_recorder d)) \<Longrightarrow> ctx_inv (d\<lparr>ec_gpu := g'\<rparr>)"
  by (auto simp: ctx_inv_def idle_def recording_def split: if_splits)

lemma Context_wait_post:
  assumes inv: "ctx_inv d" and h: "heaps_neutral exec" and e: "event \<le> cq_last_fence_value (ec_queue d)"
  shows "\<exists>d'. Context_wait exec event d = Inr d' \<and> call_post exec d [] d' \<and> IsSignaled event (ec_gpu d')"
proof -
  obtain g' where g': "WaitForSignal exec event (ec_gpu d) = Inr g'" "queue_inv (ec_queue d) g' (rc_ring (ec_recorder d))"
      "IsSignaled event g'" "gp_completed (ec_gpu d) \<le> gp_completed g'"
    using WaitForSignal_ok [OF ctx_inv_queue_inv [OF inv] e] by blast
  have "settled exec (d\<lparr>ec_gpu := g'\<rparr>) = settled exec d"
    using g'(1) wait_pending_settled [OF h] by (simp add: WaitForSignal_def)
  then show ?thesis using g' ctx_inv_gpu [OF inv g'(2)]
    by (intro exI [of _ "d\<lparr>ec_gpu := g'\<rparr>"]) (auto simp: Context_wait_def call_post_def refs_kept_def WaitForSignal_def intro: wait_pending_advanced)
qed

lemma QueueReference_post:
  assumes inv: "ctx_inv d"
  shows "call_post exec d [] (QueueReference obj d)"
proof -
  let ?q = "ec_queue d" and ?q' = "ec_queue (QueueReference obj d)"
  have q': "cq_references ?q' = cq_references ?q @ [(cq_last_fence_value ?q + (if ec_open d then 1 else 0), obj)]"
      "cq_last_fence_value ?q' = cq_last_fence_value ?q" "\<not> cq_closing ?q'"
    using inv by (auto simp: ctx_inv_def refs_ok_def QueueReference_def Queue_QueueReference_def)
  have "refs_ok ?q' (ec_open d)" using inv q' by (auto simp: ctx_inv_def refs_ok_def sorted_append)
  moreover have "queue_inv ?q' g r = queue_inv ?q g r" for g r using q'(2) by (simp add: queue_inv_def)
  ultimately have "ctx_inv (QueueReference obj d)"
    using inv q'(2) by (auto simp: ctx_inv_def recording_def idle_def QueueReference_def split: if_splits)
  then show ?thesis using q'(1,2)
    by (auto simp: call_post_def settled_def backlog_def refs_kept_def QueueReference_def intro: advanced_same)
qed

lemma ReleaseCompletedReferences_post:
  assumes inv: "ctx_inv d"
  shows "call_post exec d [] (ReleaseCompletedReferences d)"
proof -
  have "cq_last_fence_value (Queue_ReleaseCompletedReferences g q) = cq_last_fence_value q" for g q
    by (simp add: Queue_ReleaseCompletedReferences_def)
  then have "ctx_inv (ReleaseCompletedReferences d)"
    using inv release_refs_ok
    by (auto simp: ctx_inv_def recording_def idle_def ReleaseCompletedReferences_def queue_inv_release split: if_splits)
  then show ?thesis using release_kept
    by (fastforce simp: call_post_def settled_def backlog_def refs_kept_def ReleaseCompletedReferences_def
        Queue_ReleaseCompletedReferences_def intro: advanced_same)
qed

lemma perform_post:
  assumes inv: "ctx_inv d" and h: "heaps_neutral exec" and ok: "call_ok c d"
  shows "\<exists>d'. perform exec c d = Inr d' \<and> call_post exec d (call_work c) d'"
proof (cases c)
  case (CallCopyBufferRegion dst off st src off' st' n)
  show ?thesis unfolding CallCopyBufferRegion perform.simps CopyBufferRegion_def
    by (rule with_recorder_post [OF inv copy_records])
next
  case (CallInitializeOperator op)
  show ?thesis using with_recorder_post [OF inv record_operator_records]
    by (simp add: CallInitializeOperator InitializeOperator_def Recorder_InitializeOperator_def)
next
  case (CallExecuteCommandList ext)
  then show ?thesis using ExecuteCommandList_post [OF inv, of ext exec] ok by auto
next
  case (CallRecord cs)
  show ?thesis using with_recorder_post [OF inv GetCommandList_records]
    by (simp add: CallRecord GetCommandListForRecordingAndInvalidateState_def)
next
  case CallFlush
  then show ?thesis using Flush_post [OF inv, of exec] by auto
next
  case (CallWait event)
  then show ?thesis using Context_wait_post [OF inv h, of event] ok by auto
qed (use inv QueueReference_post ReleaseCompletedReferences_post with_recorder_post [OF inv Recorder_records(2)]
       with_recorder_post [OF inv Recorder_records(3)] in \<open>simp_all add: AddUAVBarrier_def ResourceBarrier_def\<close>)

lemma dml_reach_inv: "dml_reach exec d \<Longrightarrow> heaps_neutral exec \<Longrightarrow> ctx_inv d"
proof (induction rule: dml_reach.induct)
  case (start g)
  then show ?case
    by (auto simp: DmlExecutionContext_new_def ctx_inv_def refs_ok_def DmlCommandQueue_new_def idle_def DmlCommandRecorder_new_def
        queue_inv_def covers_def DmlCommandAllocatorRing_new_def Queue_GetCurrentCompletionEvent_def nth_Cons' numeral_2_eq_2)
next
  case (call d c d')
  then show ?case using perform_post [of d exec c] by (auto simp: call_post_def)
next
  case (progress d)
  then show ?case using ctx_inv_gpu [OF _ gpu_step_inv(1) [OF ctx_inv_queue_inv]] by blast
qed

lemma completed_all: "queue_inv q g r \<Longrightarrow> IsSignaled (cq_last_fence_value q) g \<Longrightarrow> gp_pending g = []"
  by (auto simp: queue_inv_def IsSignaled_def split: if_splits)

lemma Context_Close_ok:
  assumes "ctx_inv d"
  shows "\<exists>d'. Context_Close exec d = Inr d' \<and> gp_pending (ec_gpu d') = [] \<and> cq_references (ec_queue d') = []"
proof -
  obtain g' where g': "WaitForSignal exec (cq_last_fence_value (ec_queue d)) (ec_gpu d) = Inr g'"
      "queue_inv (ec_queue d) g' (rc_ring (ec_recorder d))" "IsSignaled (cq_last_fence_value (ec_queue d)) g'"
    using WaitForSignal_ok [OF ctx_inv_queue_inv [OF assms] order_refl] by blast
  then show ?thesis using completed_all [OF g'(2,3)]
    by (simp add: Context_Close_def Queue_Close_def Queue_GetCurrentCompletionEvent_def)
qed

lemma call_post_trans:
  assumes 1: "call_post exec d xs d1" and 2: "call_post exec d1 ys d2"
  shows "call_post exec d (xs @ ys) d2"
proof -
  have "refs_kept d d2" unfolding refs_kept_def
  proof clarify
    fix f obj assume "(f, obj) \<in> set (cq_references (ec_queue d))" "\<not> f \<le> gp_completed (ec_gpu d2)"
    then show "(f, obj) \<in> set (cq_references (ec_queue d2))"
      using 1 2 unfolding call_post_def refs_kept_def by (metis (no_types, lifting) case_prodD order_trans)
  qed
  then show ?thesis using 1 2 advanced_trans unfolding call_post_def by (metis (no_types, lifting) comp_apply fold_append order_trans)
qed

text \<open>After a flush and a wait for the current completion event nothing is outstanding.\<close>

lemma flush_wait:
  assumes inv: "ctx_inv d" and h: "heaps_neutral exec"
  shows "\<exists>d1 d2. Flush d = Inr d1 \<and> GetCurrentCompletionEvent d1 = GetCurrentCompletionEvent d
     \<and> Context_wait exec (GetCurrentCompletionEvent d) d1 = Inr d2 \<and> call_post exec d [] d2 \<and> backlog d2 = []
     \<and> gp_mem (ec_gpu d2) = settled exec d \<and> cq_last_fence_value (ec_queue d2) = GetCurrentCompletionEvent d
     \<and> IsSignaled (GetCurrentCompletionEvent d) (ec_gpu d2)"
proof -
  obtain d1 where 1: "Flush d = Inr d1" "call_post exec d [] d1" "ec_open d1 \<longrightarrow> \<not> rc_operations_recorded (ec_recorder d1)"
      "cq_last_fence_value (ec_queue d1) = GetCurrentCompletionEvent d"
    using Flush_post [OF inv] by blast
  have i1: "ctx_inv d1" using 1(2) by (simp add: call_post_def)
  have g1: "GetCurrentCompletionEvent d1 = GetCurrentCompletionEvent d"
    using 1(3,4) by (auto simp: GetCurrentCompletionEvent_def Queue_GetCurrentCompletionEvent_def)
  obtain d2 where 2: "Context_wait exec (GetCurrentCompletionEvent d) d1 = Inr d2" "call_post exec d1 [] d2"
      "IsSignaled (GetCurrentCompletionEvent d) (ec_gpu d2)"
    using Context_wait_post [OF i1 h] 1(4) by (metis order_refl)
  have d2: "d2 = d1\<lparr>ec_gpu := ec_gpu d2\<rparr>" using 2(1) by (auto simp: Context_wait_def res_bind_eq_Inr)
  have same: "ec_queue d2 = ec_queue d1" "ec_open d2 = ec_open d1" "ec_recorder d2 = ec_recorder d1" by (subst d2, simp)+
  have i2: "ctx_inv d2" using 2(2) by (simp add: call_post_def)
  have p: "gp_pending (ec_gpu d2) = []" using completed_all [OF ctx_inv_queue_inv [OF i2]] 2(3) 1(4) same by simp
  have "backlog d2 = []"
  proof (cases "ec_open d2")
    case True
    then obtain cmds b where "recording (ec_queue d2) (ec_gpu d2) (ec_recorder d2) cmds b" "b \<or> work cmds = []"
      using i2 by (auto simp: ctx_inv_def)
    then show ?thesis using 1(3) same True p by (auto simp: backlog_def recording_def)
  next
    case False
    then show ?thesis using i2 p by (simp add: ctx_inv_def idle_def backlog_def)
  qed
  moreover have c: "call_post exec d [] d2" using call_post_trans [OF 1(2) 2(2)] by simp
  then have "settled exec d2 = settled exec d" by (simp add: call_post_def)
  ultimately have "gp_mem (ec_gpu d2) = settled exec d" by (simp add: settled_def)
  then show ?thesis using 1 2 g1 c \<open>backlog d2 = []\<close> same by metis
qed

text \<open>C37. In every state the users of an execution context can reach, whatever the device has executed so far,
  every call returns (no command allocator is reset while the device may still read it, no list is recorded into
  while closed, no wait lasts forever); the contents the buffers will have once all work is done are those of
  executing the calls' commands at once and in order; the fence values of the unfinished submissions are
  consecutive; a queued reference is dropped only when its fence value is completed; and closing the context waits
  for all submitted work.\<close>

theorem DmlExecutionContext_refines_sequential:
  assumes "dml_reach exec d" and "heaps_neutral exec" and "call_ok c d"
  shows "(\<exists>d'. perform exec c d = Inr d'
       \<and> settled exec d' = fold exec (call_work c) (settled exec d)
       \<and> map fst (gp_pending (ec_gpu d')) = [Suc (gp_completed (ec_gpu d'))..<Suc (cq_last_fence_value (ec_queue d'))]
       \<and> refs_kept d d')
     \<and> (\<exists>d'. Context_Close exec d = Inr d' \<and> gp_pending (ec_gpu d') = [] \<and> cq_references (ec_queue d') = [])"
proof
  have inv: "ctx_inv d" by (rule dml_reach_inv [OF assms(1,2)])
  obtain d' where d': "perform exec c d = Inr d'" "call_post exec d (call_work c) d'" using perform_post [OF inv assms(2,3)] by blast
  then have "queue_inv (ec_queue d') (ec_gpu d') (rc_ring (ec_recorder d'))" by (auto simp: call_post_def intro: ctx_inv_queue_inv)
  then show "\<exists>d'. perform exec c d = Inr d' \<and> settled exec d' = fold exec (call_work c) (settled exec d)
       \<and> map fst (gp_pending (ec_gpu d')) = [Suc (gp_completed (ec_gpu d'))..<Suc (cq_last_fence_value (ec_queue d'))] \<and> refs_kept d d'"
    using d' by (auto simp: call_post_def queue_inv_def simp del: upt_Suc)
  show "\<exists>d'. Context_Close exec d = Inr d' \<and> gp_pending (ec_gpu d') = [] \<and> cq_references (ec_queue d') = []"
    by (rule Context_Close_ok [OF inv])
qed

text \<open>A device that copies, with two buffers.\<close>

fun copy_device :: device where
  "copy_device (CopyRegion dst off src off' n) m =
     (case (m dst, m src) of
        (Some d, Some s) \<Rightarrow> if off + n \<le> length d \<and> off' + n \<le> length s then m(dst \<mapsto> blit d off (take n (drop off' s))) else m
      | _ \<Rightarrow> m)"
| "copy_device _ m = m"

definition two_buffers :: gpu where
  "two_buffers = \<lparr>gp_mem = [0 \<mapsto> [1, 2, 3, 4], 1 \<mapsto> [5, 6, 7, 8]], gp_next = 2, gp_pending = [], gp_completed = 0\<rparr>"

lemma copy_device_neutral: "heaps_neutral copy_device"
  by (simp add: heaps_neutral_def)

theorem DmlExecutionContext_refines_sequential_witness:
  "\<exists>d d'. dml_reach copy_device d \<and> perform copy_device (CallCopyBufferRegion 0 1 0 1 2 0 2) d = Inr d'
     \<and> settled copy_device d' 0 = Some [1, 7, 8, 4]"
proof -
  let ?d = "DmlExecutionContext_new two_buffers"
  have d: "dml_reach copy_device ?d" by (rule dml_reach.start) (simp_all add: two_buffers_def)
  have ok: "call_ok (CallCopyBufferRegion 0 1 0 1 2 0 2) ?d" by simp
  have s: "settled copy_device ?d = gp_mem two_buffers"
    by (simp add: settled_def backlog_def DmlExecutionContext_new_def DmlCommandRecorder_new_def two_buffers_def)
  have "fold copy_device (call_work (CallCopyBufferRegion 0 1 0 1 2 0 2)) (gp_mem two_buffers) 0 = Some [1, 7, 8, 4]"
    by (simp add: two_buffers_def copy_barriers_def COPY_DEST_def COPY_SOURCE_def blit_def Let_def)
  then show ?thesis
    using DmlExecutionContext_refines_sequential [OF d copy_device_neutral ok] d s by metis
qed

end
