(* ===== verification/DmlUpload.thy ===== *)
theory DmlUpload
  imports DmlSafety
begin

text \<open>
  Transfers between the host and the device: the pooled upload heap (\<open>dml_pooled_upload_heap.cpp\<close>), whose chunks
  are ring buffers of allocations in flight, and the readback heap (\<open>dml_readback_heap.cpp\<close>). Sizes and offsets
  are naturals below \<open>2 ^ 64\<close>; the additions of \<open>size_t\<close> values that can wrap are written with
  \<open>plus64\<close>. Direct3D calls succeed (no \<open>HRESULT\<close> error); the mapped memory of a buffer is its contents.
\<close>

section \<open>The upload heap\<close>

record Allocation =
  al_size_in_bytes :: nat
  al_offset_in_chunk :: nat
  al_done_event :: nat

record Chunk =
  ck_capacity_in_bytes :: nat
  ck_resource :: resource
  ck_allocations :: "Allocation list"

record DmlPooledUploadHeap =
  uh_chunks :: "Chunk list"
  uh_total_capacity :: nat

definition DmlPooledUploadHeap_new :: DmlPooledUploadHeap where
  "DmlPooledUploadHeap_new = \<lparr>uh_chunks = [], uh_total_capacity = 0\<rparr>"

definition c_min_chunk_size :: nat where "c_min_chunk_size = 1024 * 1024"

definition c_allocation_alignment :: nat where "c_allocation_alignment = 512"

definition plus64 :: "nat \<Rightarrow> nat \<Rightarrow> nat" where
  "plus64 a b = (a + b) mod 2 ^ 64"

unbundle bit_operations_syntax

definition Align :: "64 word \<Rightarrow> 64 word \<Rightarrow> 64 word" where
  "Align offset alignment = (offset + alignment - 1) AND NOT (alignment - 1)"

definition FindOffsetForAllocation :: "Chunk \<Rightarrow> nat \<Rightarrow> nat option" where
  "FindOffsetForAllocation chunk size_in_bytes =
     (if ck_capacity_in_bytes chunk < size_in_bytes then None
      else if ck_allocations chunk = [] then Some 0
      else
        let last_allocation = last (ck_allocations chunk);
            new_allocation_begin = plus64 (al_offset_in_chunk last_allocation) (al_size_in_bytes last_allocation);
            new_allocation_begin = unat (Align (of_nat new_allocation_begin) (of_nat c_allocation_alignment)) in
        if plus64 new_allocation_begin size_in_bytes < new_allocation_begin then None
        else
          let first_allocation = hd (ck_allocations chunk) in
          if al_offset_in_chunk first_allocation \<le> al_offset_in_chunk last_allocation then
            (if plus64 new_allocation_begin size_in_bytes \<le> ck_capacity_in_bytes chunk then Some new_allocation_begin
             else if 0 + size_in_bytes \<le> al_offset_in_chunk first_allocation then Some 0
             else None)
          else if plus64 new_allocation_begin size_in_bytes \<le> al_offset_in_chunk first_allocation then Some new_allocation_begin
          else None)"

definition CreateChunk :: "nat \<Rightarrow> gpu \<Rightarrow> Chunk \<times> gpu" where
  "CreateChunk size_in_bytes g =
     (case create_buffer size_in_bytes g of
        (upload_buffer, g') \<Rightarrow> (\<lparr>ck_capacity_in_bytes = size_in_bytes, ck_resource = upload_buffer, ck_allocations = []\<rparr>, g'))"

text \<open>The first chunk with room, as its index, and the offset in it.\<close>

fun find_chunk :: "Chunk list \<Rightarrow> nat \<Rightarrow> nat \<Rightarrow> (nat \<times> nat) option" where
  "find_chunk [] n i = None"
| "find_chunk (c # cs) n i =
     (case FindOffsetForAllocation c n of Some off \<Rightarrow> Some (i, off) | None \<Rightarrow> find_chunk cs n (Suc i))"

definition Reserve :: "nat \<Rightarrow> DmlPooledUploadHeap \<times> gpu \<Rightarrow> (nat \<times> nat) \<times> DmlPooledUploadHeap \<times> gpu" where
  "Reserve size_in_bytes = (\<lambda>(h, g).
     case find_chunk (uh_chunks h) size_in_bytes 0 of
       Some r \<Rightarrow> (r, h, g)
     | None \<Rightarrow>
         let new_chunk_size = max (uh_total_capacity h) (max c_min_chunk_size size_in_bytes);
             (chunk, g') = CreateChunk new_chunk_size g in
         ((length (uh_chunks h), 0),
          h\<lparr>uh_chunks := uh_chunks h @ [chunk], uh_total_capacity := plus64 (uh_total_capacity h) new_chunk_size\<rparr>, g'))"

definition ReclaimAllocations :: "gpu \<Rightarrow> DmlPooledUploadHeap \<Rightarrow> DmlPooledUploadHeap" where
  "ReclaimAllocations g h =
     h\<lparr>uh_chunks := map (\<lambda>c. c\<lparr>ck_allocations := dropWhile (\<lambda>a. IsSignaled (al_done_event a) g) (ck_allocations c)\<rparr>) (uh_chunks h)\<rparr>"

text \<open>\<open>memcpy\<close> through the mapped pointer of a buffer.\<close>

definition write_buffer :: "resource \<Rightarrow> nat \<Rightarrow> byte list \<Rightarrow> gpu \<Rightarrow> gpu res" where
  "write_buffer r off bytes g =
     (case gp_mem g r of
        None \<Rightarrow> Inl NullPointer
      | Some b \<Rightarrow> res_bind (copy_into b off bytes) (\<lambda>b'. Inr (g\<lparr>gp_mem := (gp_mem g)(r \<mapsto> b')\<rparr>)))"

definition BeginUploadToGpu ::
    "device \<Rightarrow> resource \<Rightarrow> nat \<Rightarrow> 32 word \<Rightarrow> byte list \<Rightarrow> DmlPooledUploadHeap \<times> DmlExecutionContext
     \<Rightarrow> (nat \<times> DmlPooledUploadHeap \<times> DmlExecutionContext) res" where
  "BeginUploadToGpu exec dst dst_offset dst_state src = (\<lambda>(h, d).
     case Reserve (length src) (ReclaimAllocations (ec_gpu d) h, ec_gpu d) of
       ((i, offset_in_chunk), h1, g1) \<Rightarrow>
         res_bind (get (uh_chunks h1) i) (\<lambda>chunk.
         res_bind (write_buffer (ck_resource chunk) offset_in_chunk src g1) (\<lambda>g2.
         res_bind (CopyBufferRegion dst dst_offset dst_state (ck_resource chunk) offset_in_chunk GENERIC_READ (length src)
                     (d\<lparr>ec_gpu := g2\<rparr>)) (\<lambda>d1.
         let done_event = GetCurrentCompletionEvent d1 in
         res_bind (Flush d1) (\<lambda>d2.
         res_bind (Context_wait exec done_event d2) (\<lambda>d3.
         let allocation = \<lparr>al_size_in_bytes = length src, al_offset_in_chunk = offset_in_chunk, al_done_event = done_event\<rparr> in
         Inr (done_event,
              h1\<lparr>uh_chunks := (uh_chunks h1)[i := chunk\<lparr>ck_allocations := ck_allocations chunk @ [allocation]\<rparr>]\<rparr>, d3)))))))"

definition Upload_Trim :: "gpu \<Rightarrow> DmlPooledUploadHeap \<Rightarrow> DmlPooledUploadHeap" where
  "Upload_Trim g h =
     (let chunks = filter (\<lambda>c. ck_allocations c \<noteq> []) (uh_chunks (ReclaimAllocations g h)) in
      \<lparr>uh_chunks = chunks, uh_total_capacity = foldl (\<lambda>n c. plus64 n (ck_capacity_in_bytes c)) 0 chunks\<rparr>)"

text \<open>The conditions \<open>AssertInvariants\<close> checks in a debug build.\<close>

definition AssertInvariants :: "memory \<Rightarrow> DmlPooledUploadHeap \<Rightarrow> bool" where
  "AssertInvariants m h \<longleftrightarrow>
     sorted (map ck_capacity_in_bytes (uh_chunks h))
     \<and> list_all (\<lambda>c. sorted (map al_done_event (ck_allocations c))) (uh_chunks h)
     \<and> list_all (\<lambda>c. map_option length (m (ck_resource c)) = Some (ck_capacity_in_bytes c)) (uh_chunks h)
     \<and> list_all (\<lambda>c. list_all (\<lambda>a. al_offset_in_chunk a + al_size_in_bytes a \<le> ck_capacity_in_bytes c
                                 \<and> al_offset_in_chunk a mod c_allocation_alignment = 0) (ck_allocations c)) (uh_chunks h)
     \<and> list_all (\<lambda>c. successively (\<lambda>a b. al_offset_in_chunk a + al_size_in_bytes a \<le> al_offset_in_chunk b)
                       (sort_key al_offset_in_chunk (ck_allocations c))) (uh_chunks h)
     \<and> foldl (\<lambda>n c. plus64 n (ck_capacity_in_bytes c)) 0 (uh_chunks h) = uh_total_capacity h"

section \<open>The readback heap\<close>

record DmlReadbackHeap =
  rb_readback_heap :: "resource option"
  rb_capacity :: nat

definition DmlReadbackHeap_new :: DmlReadbackHeap where
  "DmlReadbackHeap_new = \<lparr>rb_readback_heap = None, rb_capacity = 0\<rparr>"

definition c_initial_capacity :: nat where "c_initial_capacity = 1024 * 1024"

text \<open>Doubling; from a capacity of zero the loop would not end.\<close>

partial_function (option) ComputeNewCapacity :: "nat \<Rightarrow> nat \<Rightarrow> nat res option" where
  "ComputeNewCapacity new_capacity desired_capacity =
     (if new_capacity < desired_capacity then
        (if new_capacity \<ge> (2 ^ 64 - 1) div 2 then Some (Inl BadAlloc)
         else ComputeNewCapacity (new_capacity * 2) desired_capacity)
      else Some (Inr new_capacity))"

definition new_capacity :: "nat \<Rightarrow> nat \<Rightarrow> nat res" where
  "new_capacity existing desired = (case ComputeNewCapacity existing desired of None \<Rightarrow> Inl WaitsForever | Some r \<Rightarrow> r)"

definition EnsureReadbackHeap :: "nat \<Rightarrow> DmlReadbackHeap \<times> gpu \<Rightarrow> (DmlReadbackHeap \<times> gpu) res" where
  "EnsureReadbackHeap heap_size = (\<lambda>(rb, g).
     let create = (\<lambda>existing. res_bind (new_capacity existing heap_size) (\<lambda>capacity.
           case create_buffer capacity g of (r, g') \<Rightarrow> Inr (\<lparr>rb_readback_heap = Some r, rb_capacity = capacity\<rparr>, g'))) in
     if rb_readback_heap rb = None then create c_initial_capacity
     else if rb_capacity rb < heap_size then create (rb_capacity rb)
     else Inr (rb, g))"

definition read_buffer :: "resource \<Rightarrow> nat \<Rightarrow> nat \<Rightarrow> gpu \<Rightarrow> byte list res" where
  "read_buffer r off n g = (case gp_mem g r of None \<Rightarrow> Inl NullPointer | Some b \<Rightarrow> subspan b off n)"

definition wait_for_work :: "device \<Rightarrow> DmlExecutionContext \<Rightarrow> DmlExecutionContext res" where
  "wait_for_work exec d =
     res_bind (Flush d) (\<lambda>d1.
     res_bind (Context_wait exec (GetCurrentCompletionEvent d1) d1) (\<lambda>d2.
     Inr (ReleaseCompletedReferences d2)))"

definition the_heap :: "DmlReadbackHeap \<Rightarrow> resource res" where
  "the_heap rb = (case rb_readback_heap rb of None \<Rightarrow> Inl NullPointer | Some r \<Rightarrow> Inr r)"

definition ReadbackFromGpu ::
    "device \<Rightarrow> nat \<Rightarrow> resource \<Rightarrow> nat \<Rightarrow> 32 word \<Rightarrow> DmlReadbackHeap \<times> DmlExecutionContext
     \<Rightarrow> (byte list \<times> DmlReadbackHeap \<times> DmlExecutionContext) res" where
  "ReadbackFromGpu exec dst_size src src_offset src_state = (\<lambda>(rb, d).
     res_bind (EnsureReadbackHeap dst_size (rb, ec_gpu d)) (\<lambda>(rb', g).
     res_bind (the_heap rb') (\<lambda>r.
     res_bind (CopyBufferRegion r 0 COPY_DEST src src_offset src_state dst_size (d\<lparr>ec_gpu := g\<rparr>)) (\<lambda>d1.
     res_bind (wait_for_work exec d1) (\<lambda>d2.
     res_bind (read_buffer r 0 dst_size (ec_gpu d2)) (\<lambda>bytes.
     Inr (bytes, rb', d2)))))))"

text \<open>The batched form: the total size and the running offset are 32-bit.\<close>

definition batch_copies ::
    "resource \<Rightarrow> 32 word \<Rightarrow> (nat \<times> resource) list \<Rightarrow> DmlExecutionContext \<Rightarrow> (nat \<times> DmlExecutionContext) res" where
  "batch_copies r src_state parts d =
     for_res (\<lambda>(n, src) (off, d').
       res_bind (CopyBufferRegion r off COPY_DEST src 0 src_state n d') (\<lambda>d''. Inr ((off + n) mod 2 ^ 32, d''))) parts (0, d)"

definition batch_reads :: "resource \<Rightarrow> gpu \<Rightarrow> nat list \<Rightarrow> (nat \<times> byte list list) res" where
  "batch_reads r g dst_sizes =
     for_res (\<lambda>n (off, out). res_bind (read_buffer r off n g) (\<lambda>bytes. Inr ((off + n) mod 2 ^ 32, out @ [bytes]))) dst_sizes (0, [])"

definition ReadbackFromGpu_batch ::
    "device \<Rightarrow> nat list \<Rightarrow> resource list \<Rightarrow> 32 word \<Rightarrow> DmlReadbackHeap \<times> DmlExecutionContext
     \<Rightarrow> (byte list list \<times> DmlReadbackHeap \<times> DmlExecutionContext) res" where
  "ReadbackFromGpu_batch exec dst_sizes srcs src_state = (\<lambda>(rb, d).
     if dst_sizes = [] then Inr ([], rb, d)
     else
       let total_size = foldl (\<lambda>n s. (n + s) mod 2 ^ 32) 0 dst_sizes in
       res_bind (EnsureReadbackHeap total_size (rb, ec_gpu d)) (\<lambda>(rb', g).
       res_bind (the_heap rb') (\<lambda>r.
       res_bind (batch_copies r src_state (zip dst_sizes srcs) (d\<lparr>ec_gpu := g\<rparr>)) (\<lambda>(_, d1).
       res_bind (wait_for_work exec d1) (\<lambda>d2.
       res_bind (batch_reads r (ec_gpu d2) dst_sizes) (\<lambda>(_, out).
       Inr (out, rb', d2)))))))"

end
