(* ===== verification/DmlTransfer.thy ===== *)
theory DmlTransfer
  imports DmlUpload
begin

text \<open>
  Laws of the transfers of \<open>DmlUpload\<close>: the allocations of a chunk form a ring of disjoint, aligned ranges in
  its bounds, which every operation of the upload heap keeps under any progress of the device; what is uploaded is
  read back.
\<close>

section \<open>The ring of a chunk\<close>

abbreviation al_end :: "Allocation \<Rightarrow> nat" where
  "al_end a \<equiv> al_offset_in_chunk a + al_size_in_bytes a"

definition ascending :: "Allocation list \<Rightarrow> bool" where
  "ascending = sorted_wrt (\<lambda>a b. al_end a \<le> al_offset_in_chunk b)"

text \<open>The allocations ascend, or an older run of them is above a newer run that started again at the bottom.\<close>

definition ring :: "Allocation list \<Rightarrow> bool" where
  "ring as \<longleftrightarrow> (\<exists>xs ys. as = xs @ ys \<and> ascending xs \<and> ascending ys
     \<and> (\<forall>x\<in>set xs. \<forall>y\<in>set ys. al_end y \<le> al_offset_in_chunk x))"

definition positive :: "Allocation list \<Rightarrow> bool" where
  "positive as \<longleftrightarrow> (\<forall>a\<in>set as. 0 < al_size_in_bytes a)"

lemma ring_Nil [simp]: "ring []"
  by (simp add: ring_def ascending_def)

lemma ring_ascending: "ascending as \<Longrightarrow> ring as"
  unfolding ring_def by (intro exI [of _ as] exI [of _ "[]"]) (simp add: ascending_def)

lemma ring_tail: "ring (a # as) \<Longrightarrow> ring as"
proof -
  assume "ring (a # as)"
  then obtain xs ys where r: "a # as = xs @ ys" "ascending xs" "ascending ys" "\<forall>x\<in>set xs. \<forall>y\<in>set ys. al_end y \<le> al_offset_in_chunk x"
    unfolding ring_def by blast
  show ?thesis
  proof (cases xs)
    case Nil
    then show ?thesis using r unfolding ring_def by (intro exI [of _ "[]"] exI [of _ as]) (auto simp: ascending_def)
  next
    case (Cons x xs')
    then show ?thesis using r unfolding ring_def by (intro exI [of _ xs'] exI [of _ ys]) (auto simp: ascending_def)
  qed
qed

lemma ring_dropWhile: "ring as \<Longrightarrow> ring (dropWhile P as)"
  by (induction as) (auto dest: ring_tail)

lemma ascending_snoc: "ascending (as @ [b]) \<longleftrightarrow> ascending as \<and> (\<forall>a\<in>set as. al_end a \<le> al_offset_in_chunk b)"
  by (simp add: ascending_def sorted_wrt_append)

lemma ascending_le_last:
  assumes "ascending as" and "a \<in> set as"
  shows "al_end a \<le> al_end (last as)"
proof -
  have "as \<noteq> []" using assms(2) by auto
  then have "as = butlast as @ [last as]" by simp
  then have "ascending (butlast as @ [last as])" "a \<in> set (butlast as @ [last as])" using assms by simp_all
  then show ?thesis by (auto simp: ascending_snoc)
qed

lemma ascending_hd_le:
  assumes "ascending as" and "a \<in> set as"
  shows "al_offset_in_chunk (hd as) \<le> al_offset_in_chunk a"
  using assms by (cases as) (auto simp: ascending_def)

text \<open>Which of the two shapes a ring has is decided by its ends.\<close>

lemma ring_shape:
  assumes r: "ring as" and p: "positive as" and ne: "as \<noteq> []"
  shows "if al_offset_in_chunk (hd as) \<le> al_offset_in_chunk (last as) then ascending as
     else \<exists>xs ys. as = xs @ ys \<and> xs \<noteq> [] \<and> ys \<noteq> [] \<and> ascending xs \<and> ascending ys
       \<and> (\<forall>x\<in>set xs. \<forall>y\<in>set ys. al_end y \<le> al_offset_in_chunk x)"
proof -
  obtain xs ys where s: "as = xs @ ys" "ascending xs" "ascending ys" "\<forall>x\<in>set xs. \<forall>y\<in>set ys. al_end y \<le> al_offset_in_chunk x"
    using r unfolding ring_def by blast
  show ?thesis
  proof (cases "xs = [] \<or> ys = []")
    case True
    then have asc: "ascending as" using s by auto
    then have "al_offset_in_chunk (hd as) \<le> al_offset_in_chunk (last as)" using ascending_hd_le ne by auto
    then show ?thesis using asc by simp
  next
    case False
    then have m: "hd as \<in> set xs" "last as \<in> set ys" using s(1) by auto
    then have "al_end (last as) \<le> al_offset_in_chunk (hd as)" "0 < al_size_in_bytes (last as)" using s(1,4) p by (auto simp: positive_def)
    then have "\<not> al_offset_in_chunk (hd as) \<le> al_offset_in_chunk (last as)" by simp
    then show ?thesis using s False by auto
  qed
qed

lemma ring_no_overlap:
  assumes "ring as" and "positive as"
  shows "successively (\<lambda>a b. al_end a \<le> al_offset_in_chunk b) (sort_key al_offset_in_chunk as)"
proof -
  obtain xs ys where s: "as = xs @ ys" "ascending (ys @ xs)"
    using assms(1) unfolding ring_def ascending_def by (auto simp: sorted_wrt_append)
  have "positive (ys @ xs)" using assms(2) s(1) by (auto simp: positive_def)
  then have "sorted_wrt (\<lambda>a b. al_offset_in_chunk a < al_offset_in_chunk b) (ys @ xs)"
    using s(2) unfolding ascending_def positive_def by (elim sorted_wrt_mono_rel [rotated]) fastforce
  then have d: "sorted (map al_offset_in_chunk (ys @ xs))" "distinct (map al_offset_in_chunk (ys @ xs))"
    using strict_sorted_iff [of "map al_offset_in_chunk (ys @ xs)"] by (simp_all only: sorted_wrt_map simp_thms)
  have "sort_key al_offset_in_chunk as = ys @ xs"
  proof (rule sort_key_inj_key_eq)
    have "set as = set (ys @ xs)" by (auto simp: s(1))
    then show "inj_on al_offset_in_chunk (set as)" using d(2) unfolding distinct_map by simp
  qed (use d(1) s(1) in simp_all)
  then show ?thesis using s(2) by (simp add: ascending_def successively_if_sorted_wrt)
qed

section \<open>Finding room\<close>

lemma and_not_mask_word: "x AND NOT (Bit_Operations.mask n) = push_bit n (drop_bit n (x :: 'a::len word))"
  by (rule bit_eqI) (auto simp: bit_simps)

lemma Align_512:
  assumes "unat x + 511 < 2 ^ 64"
  shows "unat (Align x 512) = (unat x + 511) div 512 * 512"
proof -
  have "Align x 512 = push_bit 9 (drop_bit 9 (x + 511))"
    using and_not_mask_word [of "x + 511" 9] by (simp add: Align_def Bit_Operations.mask_eq_exp_minus_1 algebra_simps)
  also have "\<dots> = drop_bit 9 (x + 511) * 512" by (simp add: push_bit_eq_mult)
  finally have "unat (Align x 512) = (unat (drop_bit 9 (x + 511)) * 512) mod 2 ^ 64" by (simp add: unat_word_ariths)
  moreover have "unat (x + 511) = unat x + 511" using assms by (simp add: unat_word_ariths)
  then have "unat (drop_bit 9 (x + 511)) = (unat x + 511) div 2 ^ 9"
    unfolding unat_drop_bit_eq by (simp add: drop_bit_eq_div)
  ultimately have "unat (Align x 512) = ((unat x + 511) div 512 * 512) mod 2 ^ 64" by simp
  moreover have "(unat x + 511) div 512 * 512 < 2 ^ 64" using assms div_times_less_eq_dividend [of "unat x + 511" 512] by linarith
  ultimately show ?thesis by simp
qed

lemma aligned_begin:
  assumes "e + 511 < 2 ^ 64"
  shows "e \<le> unat (Align (of_nat e) (of_nat c_allocation_alignment))" "unat (Align (of_nat e) (of_nat c_allocation_alignment)) mod 512 = 0"
    "unat (Align (of_nat e) (of_nat c_allocation_alignment)) < 2 ^ 64"
proof -
  have "unat (of_nat e :: 64 word) = e" using assms by (simp add: unat_of_nat)
  then have "unat (Align (of_nat e) 512) = (e + 511) div 512 * 512" using Align_512 [of "of_nat e"] assms by simp
  then show "e \<le> unat (Align (of_nat e) (of_nat c_allocation_alignment))" "unat (Align (of_nat e) (of_nat c_allocation_alignment)) mod 512 = 0"
    by (simp_all add: c_allocation_alignment_def)
  show "unat (Align (of_nat e) (of_nat c_allocation_alignment)) < 2 ^ 64" using unsigned_less [of "Align (of_nat e) (of_nat c_allocation_alignment)"] by simp
qed

text \<open>The range found is inside the chunk, aligned, and can be appended to the ring.\<close>

lemma FindOffsetForAllocation_ok:
  assumes f: "FindOffsetForAllocation c n = Some off" and n: "0 < n"
    and r: "ring (ck_allocations c)" "positive (ck_allocations c)"
    and bounds: "\<forall>a\<in>set (ck_allocations c). al_end a \<le> ck_capacity_in_bytes c" and cap: "ck_capacity_in_bytes c + 512 < 2 ^ 64"
    and b: "al_offset_in_chunk b = off" "al_size_in_bytes b = n"
  shows "off + n \<le> ck_capacity_in_bytes c \<and> off mod 512 = 0 \<and> ring (ck_allocations c @ [b])"
proof (cases "ck_allocations c = []")
  case True
  then show ?thesis using f b by (auto simp: FindOffsetForAllocation_def ascending_def intro: ring_ascending split: if_splits)
next
  case False
  let ?as = "ck_allocations c" and ?cap = "ck_capacity_in_bytes c"
  define e where "e = al_end (last ?as)"
  define s where "s = unat (Align (of_nat e) (of_nat c_allocation_alignment))"
  have e: "e \<le> ?cap" using bounds False by (simp add: e_def)
  have s: "e \<le> s" "s mod 512 = 0" "s < 2 ^ 64" using aligned_begin [of e] e cap unfolding s_def by auto
  have n_le: "n \<le> ?cap" and ov: "\<not> plus64 s n < s"
    and find: "if al_offset_in_chunk (hd ?as) \<le> al_offset_in_chunk (last ?as)
       then plus64 s n \<le> ?cap \<and> off = s \<or> n \<le> al_offset_in_chunk (hd ?as) \<and> off = 0
       else plus64 s n \<le> al_offset_in_chunk (hd ?as) \<and> off = s"
    using f False e cap by (auto simp: FindOffsetForAllocation_def Let_def plus64_def e_def s_def split: if_splits)
  have sum: "plus64 s n = s + n"
  proof (rule ccontr)
    assume "plus64 s n \<noteq> s + n"
    then have ge: "2 ^ 64 \<le> s + n" by (simp add: plus64_def) (metis mod_less not_le)
    moreover have "s + n < 2 * 2 ^ 64" using s(3) n_le cap by simp
    ultimately have "plus64 s n = s + n - 2 ^ 64" by (simp add: plus64_def mod_if)
    then show False using ov n_le cap ge by linarith
  qed
  show ?thesis
  proof (cases "al_offset_in_chunk (hd ?as) \<le> al_offset_in_chunk (last ?as)")
    case True
    then have asc: "ascending ?as" using ring_shape [OF r False] by simp
    show ?thesis
    proof (cases "off = s \<and> s + n \<le> ?cap")
      case at_end: True
      have "al_end a \<le> off" if "a \<in> set ?as" for a
        using ascending_le_last [OF asc that] s(1) at_end unfolding e_def by linarith
      then have "ascending (?as @ [b])" using asc b by (simp add: ascending_snoc)
      then show ?thesis using at_end s(2) by (simp add: ring_ascending)
    next
      case False
      then have z: "off = 0" "n \<le> al_offset_in_chunk (hd ?as)" using find sum True by auto
      have "al_end b \<le> al_offset_in_chunk a" if "a \<in> set ?as" for a
        using ascending_hd_le [OF asc that] z b by simp
      then show ?thesis using z n_le asc unfolding ring_def by (intro conjI exI [of _ ?as] exI [of _ "[b]"]) (auto simp: ascending_def)
    qed
  next
    case wrapped: False
    then obtain xs ys where xy: "?as = xs @ ys" "xs \<noteq> []" "ys \<noteq> []" "ascending xs" "ascending ys"
        "\<forall>x\<in>set xs. \<forall>y\<in>set ys. al_end y \<le> al_offset_in_chunk x"
      using ring_shape [OF r False] by auto
    have off: "off = s" "s + n \<le> al_offset_in_chunk (hd xs)" using find sum wrapped xy(1,2) by auto
    have "al_end a \<le> al_offset_in_chunk b" if "a \<in> set ys" for a
      using ascending_le_last [OF xy(5) that] xy(1,3) s(1) off(1) b by (simp add: e_def)
    then have "ascending (ys @ [b])" using xy(5) by (simp add: ascending_snoc)
    moreover have below: "al_end b \<le> al_offset_in_chunk x" if "x \<in> set xs" for x
      using ascending_hd_le [OF xy(4) that] off b by simp
    ultimately have "ring (?as @ [b])" using xy unfolding ring_def by (intro exI [of _ xs] exI [of _ "ys @ [b]"]) auto
    moreover have "al_end (hd xs) \<le> ?cap" using bounds xy(1,2) by auto
    ultimately show ?thesis using off s(2) by simp
  qed
qed

section \<open>The invariant of the upload heap\<close>

definition chunk_ok :: "nat \<Rightarrow> Chunk \<Rightarrow> bool" where
  "chunk_ok fence c \<longleftrightarrow> ring (ck_allocations c) \<and> positive (ck_allocations c)
     \<and> (\<forall>a\<in>set (ck_allocations c). al_end a \<le> ck_capacity_in_bytes c \<and> al_offset_in_chunk a mod 512 = 0 \<and> al_done_event a \<le> fence)
     \<and> sorted (map al_done_event (ck_allocations c))"

definition sizes :: "memory \<Rightarrow> resource \<Rightarrow> nat option" where
  "sizes m r = map_option length (m r)"

definition heap_ok :: "nat \<Rightarrow> memory \<Rightarrow> DmlPooledUploadHeap \<Rightarrow> bool" where
  "heap_ok fence m h \<longleftrightarrow> (\<forall>c\<in>set (uh_chunks h). chunk_ok fence c \<and> sizes m (ck_resource c) = Some (ck_capacity_in_bytes c))
     \<and> sorted (map ck_capacity_in_bytes (uh_chunks h)) \<and> sum_list (map ck_capacity_in_bytes (uh_chunks h)) = uh_total_capacity h
     \<and> uh_total_capacity h + 512 < 2 ^ 64"

definition buffers_ok :: "gpu \<Rightarrow> bool" where
  "buffers_ok g \<longleftrightarrow> (\<forall>r. gp_next g \<le> r \<longrightarrow> gp_mem g r = None)"

lemma foldl_plus64:
  "acc + sum_list (map ck_capacity_in_bytes cs) < 2 ^ 64 \<Longrightarrow>
   foldl (\<lambda>n c. plus64 n (ck_capacity_in_bytes c)) acc cs = acc + sum_list (map ck_capacity_in_bytes cs)"
  by (induction cs arbitrary: acc) (auto simp: plus64_def)

lemma heap_ok_AssertInvariants: "heap_ok fence m h \<Longrightarrow> AssertInvariants m h"
  by (auto simp: heap_ok_def AssertInvariants_def list_all_iff chunk_ok_def sizes_def ring_no_overlap foldl_plus64 c_allocation_alignment_def)

lemma heap_ok_mono: "heap_ok fence m h \<Longrightarrow> fence \<le> fence' \<Longrightarrow> sizes m' = sizes m \<Longrightarrow> heap_ok fence' m' h"
  by (fastforce simp: heap_ok_def chunk_ok_def)

lemma sorted_dropWhile_map: "sorted (map f xs) \<Longrightarrow> sorted (map f (dropWhile P xs))"
  by (metis map_append sorted_append takeWhile_dropWhile_id)

lemma chunk_ok_dropWhile:
  assumes "chunk_ok fence c"
  shows "chunk_ok fence (c\<lparr>ck_allocations := dropWhile P (ck_allocations c)\<rparr>)"
proof -
  have "set (dropWhile P (ck_allocations c)) \<subseteq> set (ck_allocations c)" by (auto dest: set_dropWhileD)
  then show ?thesis using assms by (auto simp: chunk_ok_def positive_def ring_dropWhile sorted_dropWhile_map)
qed

lemma ReclaimAllocations_ok: "heap_ok fence m h \<Longrightarrow> heap_ok fence m (ReclaimAllocations g h)"
  by (simp add: heap_ok_def ReclaimAllocations_def o_def chunk_ok_dropWhile)

lemma sum_list_filter_le: "sum_list (map f (filter P xs)) \<le> sum_list (map (f :: _ \<Rightarrow> nat) xs)"
  by (induction xs) auto

lemma Upload_Trim_ok:
  assumes "heap_ok fence m h"
  shows "heap_ok fence m (Upload_Trim g h)"
proof -
  let ?h = "ReclaimAllocations g h"
  let ?cs = "filter (\<lambda>c. ck_allocations c \<noteq> []) (uh_chunks ?h)"
  have h: "heap_ok fence m ?h" using ReclaimAllocations_ok [OF assms] .
  have le: "sum_list (map ck_capacity_in_bytes ?cs) + 512 < 2 ^ 64"
    using sum_list_filter_le [of ck_capacity_in_bytes "\<lambda>c. ck_allocations c \<noteq> []" "uh_chunks ?h"] h by (simp add: heap_ok_def)
  then have "foldl (\<lambda>n c. plus64 n (ck_capacity_in_bytes c)) 0 ?cs = sum_list (map ck_capacity_in_bytes ?cs)"
    using foldl_plus64 [of 0 ?cs] by simp
  then show ?thesis using h le by (simp add: heap_ok_def Upload_Trim_def Let_def sorted_filter)
qed

section \<open>Reserving and writing\<close>

lemma find_chunk_Some:
  "find_chunk cs n k = Some (i, off) \<Longrightarrow> \<exists>j<length cs. i = k + j \<and> FindOffsetForAllocation (cs ! j) n = Some off"
proof (induction cs arbitrary: k)
  case (Cons c cs)
  show ?case
  proof (cases "FindOffsetForAllocation c n")
    case None
    then obtain j where "j < length cs" "i = Suc k + j" "FindOffsetForAllocation (cs ! j) n = Some off"
      using Cons.IH [of "Suc k"] Cons.prems by auto
    then show ?thesis by (intro exI [of _ "Suc j"]) simp
  next
    case (Some x)
    then show ?thesis using Cons.prems by (intro exI [of _ 0]) simp
  qed
qed simp

text \<open>What \<open>Reserve\<close> returns: a chunk of the heap and a free range in it; no buffer changes but a new one.\<close>

definition reserved :: "nat \<Rightarrow> Chunk \<Rightarrow> nat \<Rightarrow> bool" where
  "reserved n c off \<longleftrightarrow> off + n \<le> ck_capacity_in_bytes c \<and> off mod 512 = 0
     \<and> (\<forall>b. al_offset_in_chunk b = off \<longrightarrow> al_size_in_bytes b = n \<longrightarrow> ring (ck_allocations c @ [b]))"

definition room_for :: "nat \<Rightarrow> DmlPooledUploadHeap \<Rightarrow> bool" where
  "room_for n h \<longleftrightarrow> 0 < n \<and> uh_total_capacity h + max (uh_total_capacity h) (max c_min_chunk_size n) + 512 < 2 ^ 64"

lemma Reserve_ok:
  assumes ok: "heap_ok fence (gp_mem g) h" and m: "buffers_ok g" and n: "room_for n h"
  shows "\<exists>i off h' g'. Reserve n (h, g) = ((i, off), h', g') \<and> i < length (uh_chunks h') \<and> reserved n (uh_chunks h' ! i) off
     \<and> heap_ok fence (gp_mem g') h' \<and> buffers_ok g' \<and> gp_pending g' = gp_pending g \<and> gp_completed g' = gp_completed g
     \<and> (\<forall>r. gp_mem g r \<noteq> None \<longrightarrow> gp_mem g' r = gp_mem g r)
     \<and> ck_resource ` set (uh_chunks h') \<subseteq> insert (gp_next g) (ck_resource ` set (uh_chunks h))"
proof (cases "find_chunk (uh_chunks h) n 0")
  case (Some r)
  obtain i off where r: "r = (i, off)" by (cases r)
  then have i: "i < length (uh_chunks h)" "FindOffsetForAllocation (uh_chunks h ! i) n = Some off"
    using find_chunk_Some [of "uh_chunks h" n 0 i off] Some by auto
  let ?c = "uh_chunks h ! i"
  have c: "chunk_ok fence ?c" using ok i(1) by (simp add: heap_ok_def)
  have "ck_capacity_in_bytes ?c \<le> sum_list (map ck_capacity_in_bytes (uh_chunks h))"
    using i(1) by (intro member_le_sum_list) auto
  then have cap: "ck_capacity_in_bytes ?c + 512 < 2 ^ 64" using ok by (simp add: heap_ok_def)
  have "off + n \<le> ck_capacity_in_bytes ?c \<and> off mod 512 = 0 \<and> ring (ck_allocations ?c @ [b])"
    if "al_offset_in_chunk b = off" "al_size_in_bytes b = n" for b
    using FindOffsetForAllocation_ok [OF i(2) _ _ _ _ cap that] c n by (auto simp: chunk_ok_def room_for_def)
  from this [of "\<lparr>al_size_in_bytes = n, al_offset_in_chunk = off, al_done_event = 0\<rparr>"] this
  have "reserved n ?c off" by (simp add: reserved_def)
  then show ?thesis using Some r i(1) ok m by (simp add: Reserve_def subset_insertI)
next
  case None
  define s where "s = max (uh_total_capacity h) (max c_min_chunk_size n)"
  define c where "c = \<lparr>ck_capacity_in_bytes = s, ck_resource = gp_next g, ck_allocations = []\<rparr>"
  define h' where "h' = h\<lparr>uh_chunks := uh_chunks h @ [c], uh_total_capacity := plus64 (uh_total_capacity h) s\<rparr>"
  define g' where "g' = g\<lparr>gp_next := Suc (gp_next g), gp_mem := (gp_mem g)(gp_next g \<mapsto> replicate s 0)\<rparr>"
  have res: "Reserve n (h, g) = ((length (uh_chunks h), 0), h', g')"
    using None by (simp add: Reserve_def CreateChunk_def create_buffer_def s_def c_def h'_def g'_def Let_def)
  have le: "x \<le> s" if "x \<in> set (map ck_capacity_in_bytes (uh_chunks h))" for x
    using member_le_sum_list [OF that] ok by (simp add: heap_ok_def s_def)
  have old: "sizes (gp_mem g') (ck_resource x) = sizes (gp_mem g) (ck_resource x)" if "x \<in> set (uh_chunks h)" for x
  proof -
    have "sizes (gp_mem g) (ck_resource x) \<noteq> None" using ok that by (simp add: heap_ok_def)
    then have "ck_resource x \<noteq> gp_next g" using m by (auto simp: buffers_ok_def sizes_def)
    then show ?thesis by (simp add: sizes_def g'_def)
  qed
  have "chunk_ok fence c" by (simp add: chunk_ok_def c_def positive_def)
  moreover have "sizes (gp_mem g') (ck_resource c) = Some (ck_capacity_in_bytes c)" by (simp add: sizes_def g'_def c_def)
  moreover have "plus64 (uh_total_capacity h) s = uh_total_capacity h + s" "uh_total_capacity h + s + 512 < 2 ^ 64"
    using n by (simp_all add: room_for_def s_def plus64_def)
  ultimately have "heap_ok fence (gp_mem g') h'"
    using ok old le by (auto simp: heap_ok_def h'_def sorted_append c_def)
  moreover have "reserved n c 0" by (simp add: reserved_def c_def s_def ring_ascending ascending_def)
  moreover have "buffers_ok g'" using m by (auto simp: buffers_ok_def g'_def)
  moreover have "gp_mem g' r = gp_mem g r" if "gp_mem g r \<noteq> None" for r
    using that m by (auto simp: buffers_ok_def g'_def)
  ultimately show ?thesis using res by (simp add: h'_def g'_def c_def)
qed

text \<open>What the code relies on of the device: setting descriptor heaps changes no buffer, and no command changes
  the size of one.\<close>

definition device_ok :: "device \<Rightarrow> bool" where
  "device_ok exec \<longleftrightarrow> heaps_neutral exec \<and> (\<forall>c m. sizes (exec c m) = sizes m)"

lemma fold_sizes: "device_ok exec \<Longrightarrow> sizes (fold exec cs m) = sizes m"
  by (induction cs arbitrary: m) (auto simp: device_ok_def)

lemma sizes_None: "sizes m r = None \<longleftrightarrow> m r = None"
  by (simp add: sizes_def)

lemma advanced_sizes: "device_ok exec \<Longrightarrow> advanced exec g g' \<Longrightarrow> sizes (gp_mem g') = sizes (gp_mem g)"
  using fold_sizes by (auto simp: advanced_def)

lemma advanced_buffers_ok: "device_ok exec \<Longrightarrow> advanced exec g g' \<Longrightarrow> buffers_ok g \<Longrightarrow> buffers_ok g'"
  using advanced_sizes [of exec g g'] unfolding buffers_ok_def advanced_def by (metis sizes_None)

definition upload_inv :: "DmlPooledUploadHeap \<Rightarrow> DmlExecutionContext \<Rightarrow> bool" where
  "upload_inv h d \<longleftrightarrow> ctx_inv d \<and> heap_ok (cq_last_fence_value (ec_queue d)) (gp_mem (ec_gpu d)) h \<and> buffers_ok (ec_gpu d)"

lemma call_post_upload_inv:
  "device_ok exec \<Longrightarrow> upload_inv h d \<Longrightarrow> call_post exec d xs d' \<Longrightarrow> upload_inv h d'"
  unfolding upload_inv_def call_post_def using heap_ok_mono advanced_sizes advanced_buffers_ok by metis

lemma ctx_inv_same_queue:
  assumes "ctx_inv d" and "gp_pending g = gp_pending (ec_gpu d)" and "gp_completed g = gp_completed (ec_gpu d)"
  shows "ctx_inv (d\<lparr>ec_gpu := g\<rparr>)"
  using ctx_inv_gpu [OF assms(1)] ctx_inv_queue_inv [OF assms(1)] assms(2,3) by (simp add: queue_inv_def)

lemma heap_ok_add:
  assumes ok: "heap_ok fence m h" and i: "i < length (uh_chunks h)" and r: "reserved n (uh_chunks h ! i) off" "0 < n"
    and e: "\<forall>a\<in>set (ck_allocations (uh_chunks h ! i)). al_done_event a \<le> e" "e \<le> fence"
    and a: "a = \<lparr>al_size_in_bytes = n, al_offset_in_chunk = off, al_done_event = e\<rparr>"
  shows "heap_ok fence m (h\<lparr>uh_chunks := (uh_chunks h)[i := (uh_chunks h ! i)\<lparr>ck_allocations := ck_allocations (uh_chunks h ! i) @ [a]\<rparr>]\<rparr>)"
proof -
  let ?c = "uh_chunks h ! i"
  let ?c' = "?c\<lparr>ck_allocations := ck_allocations ?c @ [a]\<rparr>"
  have c: "chunk_ok fence ?c" "sizes m (ck_resource ?c) = Some (ck_capacity_in_bytes ?c)" using ok i by (simp_all add: heap_ok_def)
  have "chunk_ok fence ?c'" using c(1) r e by (auto simp: chunk_ok_def reserved_def positive_def sorted_append a)
  moreover have "map ck_capacity_in_bytes ((uh_chunks h)[i := ?c']) = map ck_capacity_in_bytes (uh_chunks h)"
    using i by (simp add: map_update list_update_same_conv)
  ultimately show ?thesis using ok c(2) set_update_subset_insert [of "uh_chunks h" i ?c'] unfolding heap_ok_def by auto
qed

lemma write_buffer_ok:
  assumes "sizes (gp_mem g) r = Some cap" and "off + length bytes \<le> cap"
  shows "\<exists>b g'. write_buffer r off bytes g = Inr g' \<and> length b = cap \<and> g' = g\<lparr>gp_mem := (gp_mem g)(r \<mapsto> blit b off bytes)\<rparr>
     \<and> sizes (gp_mem g') = sizes (gp_mem g)"
proof -
  obtain b where b: "gp_mem g r = Some b" "length b = cap" using assms(1) by (auto simp: sizes_def)
  then have "sizes ((gp_mem g)(r \<mapsto> blit b off bytes)) = sizes (gp_mem g)" using assms(2) by (auto simp: sizes_def)
  then show ?thesis using b assms(2) by (intro exI [of _ b] exI [of _ "g\<lparr>gp_mem := (gp_mem g)(r \<mapsto> blit b off bytes)\<rparr>"]) (simp add: write_buffer_def)
qed

text \<open>An upload returns; it keeps the invariant, and the contents it leaves are those of copying the source bytes,
  which are in a chunk, after the work that was outstanding.\<close>

lemma BeginUploadToGpu_ok:
  assumes inv: "upload_inv h d" and dev: "device_ok exec" and room: "room_for (length src) h"
  shows "\<exists>e h' d' r off b m. BeginUploadToGpu exec dst dst_off st src (h, d) = Inr (e, h', d') \<and> upload_inv h' d'
     \<and> backlog d' = [] \<and> e = cq_last_fence_value (ec_queue d') \<and> IsSignaled e (ec_gpu d')
     \<and> gp_mem (ec_gpu d') = fold exec (call_work (CallCopyBufferRegion dst dst_off st r off GENERIC_READ (length src))) (fold exec (backlog d) m)
     \<and> off + length src \<le> length b \<and> m r = Some (blit b off src) \<and> (\<forall>r'. r' \<noteq> r \<longrightarrow> gp_mem (ec_gpu d) r' \<noteq> None \<longrightarrow> m r' = gp_mem (ec_gpu d) r')
     \<and> r \<in> insert (gp_next (ec_gpu d)) (ck_resource ` set (uh_chunks h))"
proof -
  let ?h = "ReclaimAllocations (ec_gpu d) h" and ?n = "length src" and ?fence = "cq_last_fence_value (ec_queue d)"
  have neutral: "heaps_neutral exec" using dev by (simp add: device_ok_def)
  have res: "uh_total_capacity ?h = uh_total_capacity h" "ck_resource ` set (uh_chunks ?h) = ck_resource ` set (uh_chunks h)"
    by (auto simp: ReclaimAllocations_def image_iff)
  have "heap_ok ?fence (gp_mem (ec_gpu d)) ?h" "buffers_ok (ec_gpu d)" "room_for ?n ?h"
    using inv ReclaimAllocations_ok room res(1) by (auto simp: upload_inv_def room_for_def)
  from Reserve_ok [OF this] obtain i off h1 g1 where
    1: "Reserve ?n (?h, ec_gpu d) = ((i, off), h1, g1)" "i < length (uh_chunks h1)" "reserved ?n (uh_chunks h1 ! i) off"
      "heap_ok ?fence (gp_mem g1) h1" "buffers_ok g1" "gp_pending g1 = gp_pending (ec_gpu d)" "gp_completed g1 = gp_completed (ec_gpu d)"
      "\<forall>r. gp_mem (ec_gpu d) r \<noteq> None \<longrightarrow> gp_mem g1 r = gp_mem (ec_gpu d) r"
      "ck_resource ` set (uh_chunks h1) \<subseteq> insert (gp_next (ec_gpu d)) (ck_resource ` set (uh_chunks ?h))" by blast
  define c where "c = uh_chunks h1 ! i"
  have c: "c \<in> set (uh_chunks h1)" "chunk_ok ?fence c" "sizes (gp_mem g1) (ck_resource c) = Some (ck_capacity_in_bytes c)"
    "off + ?n \<le> ck_capacity_in_bytes c" using 1(2,3,4) by (auto simp: c_def heap_ok_def reserved_def)
  obtain b g2 where 2: "write_buffer (ck_resource c) off src g1 = Inr g2" "length b = ck_capacity_in_bytes c"
      "g2 = g1\<lparr>gp_mem := (gp_mem g1)(ck_resource c \<mapsto> blit b off src)\<rparr>" "sizes (gp_mem g2) = sizes (gp_mem g1)"
    using write_buffer_ok [OF c(3,4)] by blast
  let ?d = "d\<lparr>ec_gpu := g2\<rparr>" and ?copy = "CallCopyBufferRegion dst dst_off st (ck_resource c) off GENERIC_READ ?n"
  have "ctx_inv ?d" using inv 1(6,7) 2(3) by (intro ctx_inv_same_queue) (simp_all add: upload_inv_def)
  moreover have "buffers_ok g2" using 1(5) 2(3,4) unfolding buffers_ok_def by (metis gpu.select_convs(2) gpu.surjective gpu.update_convs(1) sizes_None)
  ultimately have inv2: "upload_inv h1 ?d" using 1(4) heap_ok_mono [OF 1(4) order_refl 2(4)] by (simp add: upload_inv_def)
  then obtain d1 where 3: "CopyBufferRegion dst dst_off st (ck_resource c) off GENERIC_READ ?n ?d = Inr d1" "call_post exec ?d (call_work ?copy) d1"
    using perform_post [of ?d exec ?copy] neutral by (auto simp: upload_inv_def)
  obtain d2 d3 where 4: "Flush d1 = Inr d2" "Context_wait exec (GetCurrentCompletionEvent d1) d2 = Inr d3" "call_post exec d1 [] d3"
      "backlog d3 = []" "gp_mem (ec_gpu d3) = settled exec d1" "cq_last_fence_value (ec_queue d3) = GetCurrentCompletionEvent d1"
      "IsSignaled (GetCurrentCompletionEvent d1) (ec_gpu d3)"
    using flush_wait [of d1 exec] 3(2) neutral by (auto simp: call_post_def)
  have post: "call_post exec ?d (call_work ?copy) d3" using call_post_trans [OF 3(2) 4(3)] by simp
  let ?e = "GetCurrentCompletionEvent d1"
  define a where "a = \<lparr>al_size_in_bytes = ?n, al_offset_in_chunk = off, al_done_event = ?e\<rparr>"
  let ?h' = "h1\<lparr>uh_chunks := (uh_chunks h1)[i := c\<lparr>ck_allocations := ck_allocations c @ [a]\<rparr>]\<rparr>"
  have "upload_inv h1 d3" by (rule call_post_upload_inv [OF dev inv2 post])
  moreover have "\<forall>x\<in>set (ck_allocations c). al_done_event x \<le> ?e"
    using c(2) post 4(6) by (auto simp: chunk_ok_def call_post_def intro: order_trans)
  ultimately have "upload_inv ?h' d3"
    using heap_ok_add [OF _ 1(2,3) _ _ _ a_def] room 4(6) by (auto simp: upload_inv_def c_def room_for_def)
  moreover have "BeginUploadToGpu exec dst dst_off st src (h, d) = Inr (?e, ?h', d3)"
    using 1(1,2) 2(1) 3(1) 4(1,2) by (simp add: BeginUploadToGpu_def c_def [symmetric] a_def Let_def)
  moreover have "settled exec ?d = fold exec (backlog d) (gp_mem g2)" using 1(6) 2(3) by (simp add: settled_def backlog_def)
  then have "gp_mem (ec_gpu d3) = fold exec (call_work ?copy) (fold exec (backlog d) (gp_mem g2))"
    using 4(5) 3(2) by (simp add: call_post_def)
  moreover have "ck_resource c \<in> insert (gp_next (ec_gpu d)) (ck_resource ` set (uh_chunks h))" using c(1) 1(9) res(2) by auto
  ultimately show ?thesis using 1(8) 2(2,3) 4(4,6,7) c(4)
    by (intro exI [of _ ?e] exI [of _ ?h'] exI [of _ d3] exI [of _ "ck_resource c"] exI [of _ off] exI [of _ b] exI [of _ "gp_mem g2"]) simp
qed

lemma create_buffer_ok:
  assumes "buffers_ok g" and "create_buffer n g = (r, g')"
  shows "buffers_ok g'" "sizes (gp_mem g') r = Some n" "gp_mem g r = None" "gp_mem g x \<noteq> None \<Longrightarrow> gp_mem g' x = gp_mem g x"
    "gp_pending g' = gp_pending g" "gp_completed g' = gp_completed g"
  using assms by (auto simp: create_buffer_def buffers_ok_def sizes_def)

lemma upload_inv_create:
  assumes inv: "upload_inv h d" and c: "create_buffer n (ec_gpu d) = (r, g')"
  shows "upload_inv h (d\<lparr>ec_gpu := g'\<rparr>)"
proof -
  have m: "buffers_ok (ec_gpu d)" using inv by (simp add: upload_inv_def)
  note cb = create_buffer_ok [OF m c]
  have "sizes (gp_mem g') (ck_resource x) = sizes (gp_mem (ec_gpu d)) (ck_resource x)" if "x \<in> set (uh_chunks h)" for x
  proof -
    have "sizes (gp_mem (ec_gpu d)) (ck_resource x) \<noteq> None" using inv that by (auto simp: upload_inv_def heap_ok_def)
    then show ?thesis using cb(4) by (simp add: sizes_def)
  qed
  then have "heap_ok (cq_last_fence_value (ec_queue d)) (gp_mem g') h" using inv by (auto simp: upload_inv_def heap_ok_def)
  moreover have "ctx_inv (d\<lparr>ec_gpu := g'\<rparr>)" using inv cb(5,6) by (intro ctx_inv_same_queue) (simp_all add: upload_inv_def)
  ultimately show ?thesis using cb(1) by (simp add: upload_inv_def)
qed

section \<open>Every run\<close>

text \<open>Uploads and trims, interleaved with any calls on the execution context, with the creation of other buffers and
  with the progress of the device. A readback is such a sequence.\<close>

inductive upload_reach :: "device \<Rightarrow> DmlPooledUploadHeap \<Rightarrow> DmlExecutionContext \<Rightarrow> bool" for exec where
  start: "gp_pending g = [] \<Longrightarrow> gp_completed g = 0 \<Longrightarrow> buffers_ok g \<Longrightarrow> upload_reach exec DmlPooledUploadHeap_new (DmlExecutionContext_new g)"
| call: "upload_reach exec h d \<Longrightarrow> call_ok c d \<Longrightarrow> perform exec c d = Inr d' \<Longrightarrow> upload_reach exec h d'"
| progress: "upload_reach exec h d \<Longrightarrow> upload_reach exec h (d\<lparr>ec_gpu := gpu_step exec (ec_gpu d)\<rparr>)"
| create: "upload_reach exec h d \<Longrightarrow> create_buffer n (ec_gpu d) = (r, g') \<Longrightarrow> upload_reach exec h (d\<lparr>ec_gpu := g'\<rparr>)"
| upload: "upload_reach exec h d \<Longrightarrow> room_for (length src) h \<Longrightarrow> BeginUploadToGpu exec dst off st src (h, d) = Inr (e, h', d') \<Longrightarrow>
    upload_reach exec h' d'"
| trim: "upload_reach exec h d \<Longrightarrow> upload_reach exec (Upload_Trim (ec_gpu d) h) d"

lemma upload_reach_inv:
  assumes "upload_reach exec h d" and dev: "device_ok exec"
  shows "upload_inv h d"
  using assms(1)
proof (induction rule: upload_reach.induct)
  case (start g)
  then have "ctx_inv (DmlExecutionContext_new g)" using dml_reach_inv [OF dml_reach.start] dev by (auto simp: device_ok_def)
  then show ?case using start by (simp add: upload_inv_def heap_ok_def DmlPooledUploadHeap_new_def) (simp add: DmlExecutionContext_new_def)
next
  case (call h d c d')
  have "ctx_inv d" "heaps_neutral exec" using call.IH dev by (simp_all add: upload_inv_def device_ok_def)
  then have "call_post exec d (call_work c) d'" using perform_post [OF _ _ call.hyps(2)] call.hyps(3) by force
  then show ?case by (rule call_post_upload_inv [OF dev call.IH])
next
  case (progress h d)
  have "ctx_inv (d\<lparr>ec_gpu := gpu_step exec (ec_gpu d)\<rparr>)"
    using progress ctx_inv_gpu gpu_step_inv(1) ctx_inv_queue_inv by (auto simp: upload_inv_def)
  then show ?case using progress.IH heap_ok_mono [OF _ order_refl advanced_sizes [OF dev gpu_step_advanced]]
      advanced_buffers_ok [OF dev gpu_step_advanced] by (simp add: upload_inv_def)
next
  case (upload h d src dst off st e h' d')
  have "\<exists>e' h'' d''. BeginUploadToGpu exec dst off st src (h, d) = Inr (e', h'', d'') \<and> upload_inv h'' d''"
    using BeginUploadToGpu_ok [OF upload.IH dev upload.hyps(2), of dst off st] by blast
  then show ?case using upload.hyps(3) by simp
next
  case (trim h d)
  then show ?case using Upload_Trim_ok by (auto simp: upload_inv_def)
qed (use upload_inv_create in blast)

text \<open>C38. Whatever uploads, trims, other calls and progress of the device have happened, the conditions the debug
  build asserts of the upload heap hold (chunks sorted by capacity, allocations sorted by completion, inside their
  chunk, 512-byte aligned and without overlap, the total capacity right), and a further upload returns with its copy
  completed.\<close>

theorem DmlPooledUploadHeap_invariants:
  assumes "upload_reach exec h d" and "device_ok exec" and "room_for (length src) h"
  shows "AssertInvariants (gp_mem (ec_gpu d)) h
     \<and> (\<exists>e h' d'. BeginUploadToGpu exec dst dst_offset dst_state src (h, d) = Inr (e, h', d') \<and> IsSignaled e (ec_gpu d')
          \<and> AssertInvariants (gp_mem (ec_gpu d')) h')"
proof -
  have inv: "upload_inv h d" by (rule upload_reach_inv [OF assms(1,2)])
  obtain e h' d' where u: "BeginUploadToGpu exec dst dst_offset dst_state src (h, d) = Inr (e, h', d')" "upload_inv h' d'"
      "IsSignaled e (ec_gpu d')"
    using BeginUploadToGpu_ok [OF inv assms(2,3), of dst dst_offset dst_state] by blast
  have "AssertInvariants (gp_mem (ec_gpu d)) h" "AssertInvariants (gp_mem (ec_gpu d')) h'"
    using inv u(2) heap_ok_AssertInvariants by (auto simp: upload_inv_def)
  then show ?thesis using u by blast
qed

section \<open>Reading back\<close>

lemma ComputeNewCapacity_ok:
  assumes "0 < c" and "n \<le> (2 ^ 64 - 1) div 2"
  shows "\<exists>k. ComputeNewCapacity c n = Some (Inr k) \<and> n \<le> k \<and> 0 < k"
  using assms(1)
proof (induction "n - c" arbitrary: c rule: less_induct)
  case less
  show ?case
  proof (cases "c < n")
    case True
    then have "n - c * 2 < n - c" using less.prems by simp
    then obtain k where "ComputeNewCapacity (c * 2) n = Some (Inr k)" "n \<le> k" "0 < k" using less by force
    moreover have "\<not> (2 ^ 64 - 1) div 2 \<le> c" using True assms(2) by linarith
    ultimately show ?thesis using True by (simp add: ComputeNewCapacity.simps [of c])
  next
    case False
    then show ?thesis using less.prems by (simp add: ComputeNewCapacity.simps [of c])
  qed
qed

lemma new_capacity_ok: "0 < c \<Longrightarrow> n \<le> (2 ^ 64 - 1) div 2 \<Longrightarrow> \<exists>k. new_capacity c n = Inr k \<and> n \<le> k \<and> 0 < k"
  using ComputeNewCapacity_ok [of c n] by (auto simp: new_capacity_def)

definition readback_ok :: "DmlReadbackHeap \<Rightarrow> memory \<Rightarrow> bool" where
  "readback_ok rb m \<longleftrightarrow> (case rb_readback_heap rb of None \<Rightarrow> True | Some r \<Rightarrow> 0 < rb_capacity rb \<and> sizes m r = Some (rb_capacity rb))"

lemma EnsureReadbackHeap_ok:
  assumes rb: "readback_ok rb (gp_mem g)" and m: "buffers_ok g" and n: "n \<le> (2 ^ 64 - 1) div 2"
  shows "\<exists>rb' g' r k. EnsureReadbackHeap n (rb, g) = Inr (rb', g') \<and> the_heap rb' = Inr r \<and> sizes (gp_mem g') r = Some k \<and> n \<le> k
     \<and> (\<forall>x. gp_mem g x \<noteq> None \<longrightarrow> gp_mem g' x = gp_mem g x) \<and> gp_pending g' = gp_pending g \<and> gp_completed g' = gp_completed g
     \<and> (rb_readback_heap rb = Some r \<or> gp_mem g r = None)"
proof (cases "rb_readback_heap rb \<noteq> None \<and> n \<le> rb_capacity rb")
  case True
  then obtain r where "rb_readback_heap rb = Some r" by auto
  then show ?thesis using True rb
    by (intro exI [of _ rb] exI [of _ g] exI [of _ r] exI [of _ "rb_capacity rb"]) (simp add: EnsureReadbackHeap_def readback_ok_def the_heap_def)
next
  case False
  define c where "c = (if rb_readback_heap rb = None then c_initial_capacity else rb_capacity rb)"
  have "0 < c" using rb by (auto simp: c_def c_initial_capacity_def readback_ok_def)
  then obtain k where k: "new_capacity c n = Inr k" "n \<le> k" using new_capacity_ok [OF _ n] by blast
  obtain r g' where cb: "create_buffer k g = (r, g')" by fastforce
  have "EnsureReadbackHeap n (rb, g) = Inr (\<lparr>rb_readback_heap = Some r, rb_capacity = k\<rparr>, g')"
    using False k(1) cb by (auto simp: EnsureReadbackHeap_def c_def Let_def split: if_splits)
  then show ?thesis using create_buffer_ok [OF m cb] k(2)
    by (intro exI [of _ "\<lparr>rb_readback_heap = Some r, rb_capacity = k\<rparr>"] exI [of _ g'] exI [of _ r] exI [of _ k]) (simp add: the_heap_def)
qed

text \<open>What a copy command does.\<close>

definition copies :: "device \<Rightarrow> bool" where
  "copies exec \<longleftrightarrow> (\<forall>m bs. exec (Transition bs) m = m)
     \<and> (\<forall>m dst off src off' n d s. m dst = Some d \<longrightarrow> m src = Some s \<longrightarrow> dst \<noteq> src \<longrightarrow> off + n \<le> length d \<longrightarrow> off' + n \<le> length s \<longrightarrow>
         exec (CopyRegion dst off src off' n) m = m(dst \<mapsto> blit d off (take n (drop off' s))))"

lemma copy_call:
  assumes "copies exec" and "m dst = Some d" "m src = Some s" "dst \<noteq> src" "off + n \<le> length d" "off' + n \<le> length s"
  shows "fold exec (call_work (CallCopyBufferRegion dst off st src off' st' n)) m = m(dst \<mapsto> blit d off (take n (drop off' s)))"
  using assms by (simp add: copies_def Let_def)

lemma ReadbackFromGpu_ok:
  assumes inv: "ctx_inv d" "buffers_ok (ec_gpu d)" "backlog d = []" and dev: "heaps_neutral exec" "copies exec"
    and rb: "readback_ok rb (gp_mem (ec_gpu d))" "rb_readback_heap rb \<noteq> Some src"
    and src: "gp_mem (ec_gpu d) src = Some s" "off + n \<le> length s" and n: "n \<le> (2 ^ 64 - 1) div 2"
  shows "\<exists>rb' d'. ReadbackFromGpu exec n src off st (rb, d) = Inr (take n (drop off s), rb', d')"
proof -
  obtain rb' g' r k where 1: "EnsureReadbackHeap n (rb, ec_gpu d) = Inr (rb', g')" "the_heap rb' = Inr r" "sizes (gp_mem g') r = Some k" "n \<le> k"
      "\<forall>x. gp_mem (ec_gpu d) x \<noteq> None \<longrightarrow> gp_mem g' x = gp_mem (ec_gpu d) x" "gp_pending g' = gp_pending (ec_gpu d)"
      "gp_completed g' = gp_completed (ec_gpu d)" "rb_readback_heap rb = Some r \<or> gp_mem (ec_gpu d) r = None"
    using EnsureReadbackHeap_ok [OF rb(1) inv(2) n] by blast
  obtain b where b: "gp_mem g' r = Some b" "length b = k" using 1(3) by (auto simp: sizes_def)
  have s: "gp_mem g' src = Some s" "r \<noteq> src" using 1(5,8) src(1) rb(2) by auto
  let ?d = "d\<lparr>ec_gpu := g'\<rparr>" and ?copy = "CallCopyBufferRegion r 0 COPY_DEST src off st n"
  have "ctx_inv ?d" using inv(1) 1(6,7) by (intro ctx_inv_same_queue)
  then obtain d1 where 2: "CopyBufferRegion r 0 COPY_DEST src off st n ?d = Inr d1" "call_post exec ?d (call_work ?copy) d1"
    using perform_post [of ?d exec ?copy] dev(1) by auto
  obtain d2 d3 where 3: "Flush d1 = Inr d2" "GetCurrentCompletionEvent d2 = GetCurrentCompletionEvent d1"
      "Context_wait exec (GetCurrentCompletionEvent d1) d2 = Inr d3" "gp_mem (ec_gpu d3) = settled exec d1"
    using flush_wait [of d1 exec] 2(2) dev(1) by (auto simp: call_post_def)
  have "settled exec ?d = gp_mem g'" using inv(3) 1(6) by (simp add: settled_def backlog_def)
  then have "gp_mem (ec_gpu d3) = (gp_mem g')(r \<mapsto> blit b 0 (take n (drop off s)))"
    using 3(4) 2(2) copy_call [OF dev(2) b(1) s(1,2), of 0 n off COPY_DEST st] src(2) b(2) 1(4) by (simp add: call_post_def)
  then have "read_buffer r 0 n (ec_gpu (ReleaseCompletedReferences d3)) = Inr (take n (drop off s))"
    using src(2) b(2) 1(4) by (simp add: read_buffer_def ReleaseCompletedReferences_def blit_def)
  then show ?thesis using 1(1,2) 2(1) 3(1,2,3) by (simp add: ReadbackFromGpu_def wait_for_work_def)
qed

text \<open>The device's outstanding work does not write the upload buffers (a buffer of an upload heap can only be read by
  it).\<close>

abbreviation upload_buffers :: "DmlPooledUploadHeap \<Rightarrow> DmlExecutionContext \<Rightarrow> resource set" where
  "upload_buffers h d \<equiv> insert (gp_next (ec_gpu d)) (ck_resource ` set (uh_chunks h))"

definition spares :: "device \<Rightarrow> resource set \<Rightarrow> gpu_cmd list \<Rightarrow> bool" where
  "spares exec R cs \<longleftrightarrow> (\<forall>c\<in>set cs. \<forall>m. \<forall>r\<in>R. exec c m r = m r)"

lemma fold_spares: "spares exec R cs \<Longrightarrow> r \<in> R \<Longrightarrow> fold exec cs m r = m r"
  by (induction cs arbitrary: m) (auto simp: spares_def)

text \<open>C39. Bytes uploaded into a buffer are read back from it unchanged: from every state that uploads, other work and
  the progress of the device can reach, the upload returns, and a readback of the range it wrote returns the source
  bytes, whether the transfers use existing or new heaps and whatever work was outstanding.\<close>

theorem upload_readback_roundtrip:
  assumes "upload_reach exec h d" and "device_ok exec" and "copies exec" and "spares exec (upload_buffers h d) (backlog d)"
    and "room_for (length src) h" and "length src \<le> (2 ^ 64 - 1) div 2"
    and "sizes (gp_mem (ec_gpu d)) dst = Some k" and "offset + length src \<le> k" and "dst \<notin> upload_buffers h d"
    and "readback_ok rb (gp_mem (ec_gpu d))" and "\<forall>r. rb_readback_heap rb = Some r \<longrightarrow> r \<noteq> dst \<and> r \<notin> upload_buffers h d"
  shows "\<exists>e h' d' rb' d''. BeginUploadToGpu exec dst offset dst_state src (h, d) = Inr (e, h', d')
     \<and> ReadbackFromGpu exec (length src) dst offset src_state (rb, d') = Inr (src, rb', d'')"
proof -
  have inv: "upload_inv h d" by (rule upload_reach_inv [OF assms(1,2)])
  obtain e h' d' r off b m where u: "BeginUploadToGpu exec dst offset dst_state src (h, d) = Inr (e, h', d')" "upload_inv h' d'" "backlog d' = []"
      "gp_mem (ec_gpu d') = fold exec (call_work (CallCopyBufferRegion dst offset dst_state r off GENERIC_READ (length src))) (fold exec (backlog d) m)"
      "off + length src \<le> length b" "m r = Some (blit b off src)" "\<forall>r'. r' \<noteq> r \<longrightarrow> gp_mem (ec_gpu d) r' \<noteq> None \<longrightarrow> m r' = gp_mem (ec_gpu d) r'"
      "r \<in> upload_buffers h d"
    using BeginUploadToGpu_ok [OF inv assms(2,5), of dst offset dst_state] by blast
  let ?M = "fold exec (backlog d) m"
  have sizes: "sizes ?M = sizes m" by (rule fold_sizes [OF assms(2)])
  have old: "sizes m x = sizes (gp_mem (ec_gpu d)) x" if "x \<notin> upload_buffers h d" "sizes (gp_mem (ec_gpu d)) x \<noteq> None" for x
    using that u(7,8) by (auto simp: sizes_def)
  have "sizes ?M dst = Some k" using sizes old [OF assms(9)] assms(7) by simp
  then obtain x where x: "?M dst = Some x" "length x = k" by (auto simp: sizes_def)
  have r: "?M r = Some (blit b off src)" "dst \<noteq> r" using fold_spares [OF assms(4) u(8)] u(6,8) assms(9) by auto
  then have mem: "gp_mem (ec_gpu d') = ?M(dst \<mapsto> blit x offset src)"
    using copy_call [OF assms(3) x(1) r, of offset "length src" off dst_state GENERIC_READ] u(4,5) x(2) assms(8) by (simp add: slice_blit_same)
  have "sizes (gp_mem (ec_gpu d')) = sizes m" unfolding u(4) by (simp add: fold_sizes [OF assms(2)])
  then have "readback_ok rb (gp_mem (ec_gpu d'))" using assms(10,11) old by (auto simp: readback_ok_def split: option.splits)
  then obtain rb' d'' where "ReadbackFromGpu exec (length src) dst offset src_state (rb, d') = Inr (take (length src) (drop offset (blit x offset src)), rb', d'')"
    using ReadbackFromGpu_ok [of d' exec rb dst "blit x offset src" offset "length src" src_state] u(2,3) mem assms(2,3,6,8,11) x(2)
    by (auto simp: upload_inv_def device_ok_def)
  then show ?thesis using u(1) x(2) assms(8) by (auto simp: slice_blit_same)
qed

lemma copy_device_ok: "device_ok copy_device"
proof -
  have "sizes (copy_device c m) = sizes m" for c m
    by (cases c) (auto simp: sizes_def fun_eq_iff split: option.splits)
  then show ?thesis by (simp add: device_ok_def copy_device_neutral)
qed

lemma copy_device_copies: "copies copy_device"
  by (simp add: copies_def)

definition fresh_context :: DmlExecutionContext where
  "fresh_context = DmlExecutionContext_new two_buffers"

lemma fresh_context_reach: "upload_reach copy_device DmlPooledUploadHeap_new fresh_context"
  unfolding fresh_context_def by (rule upload_reach.start) (simp_all add: two_buffers_def buffers_ok_def)

lemma fresh_room: "n \<in> {1..100} \<Longrightarrow> room_for n DmlPooledUploadHeap_new"
  by (simp add: room_for_def DmlPooledUploadHeap_new_def c_min_chunk_size_def)

theorem DmlPooledUploadHeap_invariants_witness:
  "\<exists>e h d. BeginUploadToGpu copy_device 0 1 0 [9, 10] (DmlPooledUploadHeap_new, fresh_context) = Inr (e, h, d) \<and> IsSignaled e (ec_gpu d)
     \<and> AssertInvariants (gp_mem (ec_gpu d)) h"
  using DmlPooledUploadHeap_invariants [OF fresh_context_reach copy_device_ok, of "[9, 10]" 0 1 0] fresh_room [of 2] by (simp add: numeral_2_eq_2 [symmetric])

theorem upload_readback_roundtrip_witness:
  "\<exists>e h d rb d'. BeginUploadToGpu copy_device 0 1 0 [9, 10] (DmlPooledUploadHeap_new, fresh_context) = Inr (e, h, d)
     \<and> ReadbackFromGpu copy_device 2 0 1 0 (DmlReadbackHeap_new, d) = Inr ([9, 10], rb, d')"
proof -
  let ?h = DmlPooledUploadHeap_new and ?d = fresh_context and ?rb = DmlReadbackHeap_new
  have "backlog ?d = []"
    by (simp add: fresh_context_def DmlExecutionContext_new_def DmlCommandRecorder_new_def backlog_def two_buffers_def)
  then have "spares copy_device (upload_buffers ?h ?d) (backlog ?d)" by (simp add: spares_def)
  moreover have "sizes (gp_mem (ec_gpu ?d)) 0 = Some 4" "0 \<notin> upload_buffers ?h ?d"
    by (simp_all add: sizes_def fresh_context_def DmlExecutionContext_new_def two_buffers_def DmlPooledUploadHeap_new_def)
  moreover have "readback_ok ?rb m" "rb_readback_heap ?rb \<noteq> Some r" for m r by (simp_all add: readback_ok_def DmlReadbackHeap_new_def)
  ultimately show ?thesis
    using upload_readback_roundtrip [OF fresh_context_reach copy_device_ok copy_device_copies, of "[9, 10]" 0 4 1 ?rb 0 0] fresh_room [of 2] by (simp add: numeral_2_eq_2 [symmetric])
qed

end
