(* ===== verification/CudaBeam.thy ===== *)
theory CudaBeam
  imports BeamScorer
begin

text \<open>
  \<open>src/sequences_cuda.cpp\<close>, \<open>src/sequences_cuda.cu\<close>, \<open>src/beam_search_scorer_cuda.cpp\<close> and
  \<open>src/beam_search_scorer_cuda.cu\<close>: the token store and the beam scorer on a CUDA device. A kernel launch runs its
  body once per thread; the order is not specified, so a launch takes a schedule, a function that orders the
  threads. A thread is one step: the threads of the kernels here write different cells and share only two
  counters, which they change with \<open>atomicAdd\<close>. The device arrays are those of the CPU classes and are kept in
  the same records; the counter of unfinished entries also has a copy in host memory, which the host polls.
\<close>

section \<open>Launching kernels\<close>

type_synonym schedule = "nat list \<Rightarrow> nat list"

definition fair :: "schedule \<Rightarrow> bool" where
  "fair sched \<longleftrightarrow> (\<forall>ts. mset (sched ts) = mset ts)"

text \<open>Grid and block sizes, and the coordinates of the thread with a given number.\<close>

record dim3 =
  dim_x :: nat
  dim_y :: nat

definition one_dim :: dim3 where "one_dim = \<lparr>dim_x = 1, dim_y = 1\<rparr>"

definition thread_count :: "dim3 \<Rightarrow> dim3 \<Rightarrow> nat" where
  "thread_count grid block = (dim_x grid * dim_y grid) * (dim_x block * dim_y block)"

definition thread_x :: "dim3 \<Rightarrow> dim3 \<Rightarrow> nat \<Rightarrow> nat" where
  "thread_x grid block t = (let n = dim_x block * dim_y block in (t div n mod dim_x grid) * dim_x block + t mod n mod dim_x block)"

definition thread_y :: "dim3 \<Rightarrow> dim3 \<Rightarrow> nat \<Rightarrow> nat" where
  "thread_y grid block t = (let n = dim_x block * dim_y block in (t div n div dim_x grid) * dim_y block + t mod n div dim_x block)"

definition launch :: "schedule \<Rightarrow> dim3 \<Rightarrow> dim3 \<Rightarrow> (nat \<Rightarrow> nat \<Rightarrow> 's \<Rightarrow> 's res) \<Rightarrow> 's \<Rightarrow> 's res" where
  "launch sched grid block body =
     for_res (\<lambda>t. body (thread_x grid block t) (thread_y grid block t)) (sched [0..<thread_count grid block])"

text \<open>\<open>GridBlock32\<close>: whole warps, in blocks of at most 256 threads.\<close>

definition GridBlock32 :: "nat \<Rightarrow> dim3 \<times> dim3" where
  "GridBlock32 n =
     (let block_size = (n + 31) div 32 * 32 in
      if 256 < block_size then (one_dim\<lparr>dim_x := (block_size + 255) div 256\<rparr>, one_dim\<lparr>dim_x := 256\<rparr>)
      else (one_dim, one_dim\<lparr>dim_x := block_size\<rparr>))"

section \<open>Sequences\<close>

text \<open>\<open>CudaMallocArray\<close> does not initialise: \<open>fresh\<close> gives the contents of new device memory. The two kernels of the
  store run in a single thread.\<close>

definition ExpandInputSequences :: "int list \<Rightarrow> nat \<Rightarrow> nat \<Rightarrow> nat \<Rightarrow> nat \<Rightarrow> int list \<Rightarrow> int list res" where
  "ExpandInputSequences input_sequences batches beam_size current_length max_len =
     for_res (\<lambda>batch. for_res (\<lambda>beam. for_res (\<lambda>j d.
         res_bind (get input_sequences (batch * current_length + j)) (put d ((batch * beam_size + beam) * max_len + j)))
       [0..<current_length]) [0..<beam_size]) [0..<batches]"

definition Sequences_Cuda_new :: "(nat \<Rightarrow> int) \<Rightarrow> int list \<Rightarrow> nat \<Rightarrow> nat \<Rightarrow> nat \<Rightarrow> Sequences res" where
  "Sequences_Cuda_new fresh input_sequences batches beam_size max_len =
     (if batches = 0 then Inl DivisionByZero else
      let current_length = length input_sequences div batches;
          sequences_size = batches * beam_size * max_len in
      res_bind (ExpandInputSequences input_sequences batches beam_size current_length max_len (map fresh [0..<sequences_size])) (\<lambda>d.
      Inr \<lparr>sq_data = d, sq_next = (if beam_size = 1 then [] else map fresh [sequences_size..<2 * sequences_size]),
           sq_batch_beam_size = batches * beam_size, sq_max_length = max_len, sq_current_length = current_length\<rparr>))"

definition AppendNextToken_kernel :: "int list \<Rightarrow> nat \<Rightarrow> nat \<Rightarrow> nat \<Rightarrow> int list \<Rightarrow> int list res" where
  "AppendNextToken_kernel next_tokens batch_beam_size current_length max_len =
     for_res (\<lambda>i d. res_bind (get next_tokens i) (put d (i * max_len + current_length))) [0..<batch_beam_size]"

definition Sequences_Cuda_AppendNextToken :: "int list \<Rightarrow> Sequences \<Rightarrow> Sequences res" where
  "Sequences_Cuda_AppendNextToken next_tokens s =
     res_bind (AppendNextToken_kernel next_tokens (sq_batch_beam_size s) (sq_current_length s) (sq_max_length s) (sq_data s)) (\<lambda>d.
     Inr (s\<lparr>sq_data := d, sq_current_length := Suc (sq_current_length s)\<rparr>))"

definition AfterDeviceAppendedNextToken :: "Sequences \<Rightarrow> Sequences" where
  "AfterDeviceAppendedNextToken s =
     s\<lparr>sq_current_length := Suc (sq_current_length s), sq_data := sq_next s, sq_next := sq_data s\<rparr>"

section \<open>The scorer\<close>

text \<open>The device state and, in pinned host memory, the count of unfinished entries the host reads.\<close>

record 'f BeamSearchScorer_Cuda =
  bc_device :: "'f BeamSearchScorer"
  bc_not_done_cpu :: int

definition InitializeBeamHypotheses :: "'f \<Rightarrow> nat \<Rightarrow> nat \<Rightarrow> nat \<Rightarrow> nat \<Rightarrow> 'f BeamHypotheses list \<Rightarrow> 'f BeamHypotheses list res" where
  "InitializeBeamHypotheses penalty num_beams' beam_hyps_count index y hyps =
     (if beam_hyps_count \<le> index then Inr hyps else put hyps index (BeamHypotheses_Init penalty num_beams'))"

definition InitScoresKernel :: "('f, 'g, 'y) cxx_scheme \<Rightarrow> nat \<Rightarrow> nat \<Rightarrow> nat \<Rightarrow> nat \<Rightarrow> 'f list \<Rightarrow> 'f list res" where
  "InitScoresKernel cx num_beams' total_elements index y beam_scores =
     (if index < total_elements
      then put beam_scores index (if 0 < index mod num_beams' then fbig_neg cx else fzero cx) else Inr beam_scores)"

text \<open>The constructor; \<open>fresh_scores\<close>, \<open>fresh_ints\<close> and \<open>fresh_hyps\<close> are the contents of new device memory.\<close>

definition BeamSearchScorer_Cuda_new ::
    "schedule \<Rightarrow> schedule \<Rightarrow> ('f, 'g, 'y) cxx_scheme \<Rightarrow> ('f, 't) GeneratorParams
     \<Rightarrow> (nat \<Rightarrow> 'f) \<Rightarrow> (nat \<Rightarrow> int) \<Rightarrow> (nat \<Rightarrow> 'f BeamHypotheses) \<Rightarrow> 'f BeamSearchScorer_Cuda res" where
  "BeamSearchScorer_Cuda_new sched1 sched2 cx p fresh_scores fresh_ints fresh_hyps =
     (let batch_beam_size = nbatch p * nbeams p;
          pb = per_beam (max_length (search p)) (sequence_length p);
          gb32 = GridBlock32 (nbatch p) in
      res_bind (launch sched1 (fst gb32) (snd gb32)
                  (InitializeBeamHypotheses (length_penalty (search p)) (nbeams p) (nbatch p)) (map fresh_hyps [0..<nbatch p])) (\<lambda>hyps.
      res_bind (launch sched2 (one_dim\<lparr>dim_x := (batch_beam_size + 255) div 256\<rparr>) (one_dim\<lparr>dim_x := 256\<rparr>)
                  (InitScoresKernel cx (nbeams p) batch_beam_size) (map fresh_scores [0..<batch_beam_size])) (\<lambda>scores.
      if pb < 0 \<and> 0 < batch_beam_size then Inl BadAlloc
      else Inr \<lparr>bc_device = \<lparr>bs_batch_size = nbatch p, bs_num_beams = nbeams p, bs_max_length = nmax_length p,
                  bs_pad_token_id = pad_token_id p, bs_eos_token_id = eos_token_id p,
                  bs_early_stopping = early_stopping (search p), bs_not_done_count = batch_size p,
                  bs_next_scores = scores, bs_next_tokens = map fresh_ints [0..<batch_beam_size],
                  bs_next_indices = map fresh_ints [0..<batch_beam_size],
                  bs_hyp_size = batch_beam_size * nat pb, bs_hyp_used = 0, bs_hyps = hyps\<rparr>,
                bc_not_done_cpu = batch_size p\<rparr>)))"

text \<open>The end of a thread of the \<open>Process\<close> kernel. \<open>atomicAdd\<close> returns the value before the addition, and the copy of
  the host is set when that value is zero.\<close>

definition cuda_check_done ::
    "('f::linorder, 'g, 'y) cxx_scheme \<Rightarrow> Sequences \<Rightarrow> 'f candidates \<Rightarrow> nat \<Rightarrow> 'f BeamSearchScorer_Cuda \<Rightarrow> 'f BeamSearchScorer_Cuda res" where
  "cuda_check_done cx sq cand batch c =
     (let s = bc_device c in
      res_bind (get (bs_hyps s) batch) (\<lambda>h.
      if length (bh_beams h) = bs_num_beams s then
        res_bind (if bs_early_stopping s then Inr True
                  else res_bind (subspan (next_scores cand) (batch * bs_num_beams s) (2 * bs_num_beams s)) (\<lambda>scores.
                       res_bind (get scores (max_element scores)) (\<lambda>best.
                       res_bind (CanImprove cx best (GetSequenceLength sq) h) (\<lambda>improve. Inr (\<not> improve))))) (\<lambda>finished.
        if finished then
          let previous = bs_not_done_count s in
          Inr (c\<lparr>bc_device := s\<lparr>bs_hyps := (bs_hyps s)[batch := h\<lparr>bh_done := True\<rparr>], bs_not_done_count := previous - 1\<rparr>,
                 bc_not_done_cpu := (if previous = 0 then 0 else bc_not_done_cpu c)\<rparr>)
        else Inr c)
      else Inr c))"

definition BeamSearchScorer_Process ::
    "('f::linorder, 'g, 'y) cxx_scheme \<Rightarrow> Sequences \<Rightarrow> 'f candidates \<Rightarrow> nat \<Rightarrow> nat \<Rightarrow> 'f BeamSearchScorer_Cuda \<Rightarrow> 'f BeamSearchScorer_Cuda res" where
  "BeamSearchScorer_Process cx sq cand batch y c =
     res_bind (get (bs_hyps (bc_device c)) batch) (\<lambda>h.
       if bh_done h then res_bind (pad_batch cx batch (bc_device c)) (\<lambda>s. Inr (c\<lparr>bc_device := s\<rparr>))
       else res_bind (beam_loop cx sq cand batch [0..<2 * bs_num_beams (bc_device c)] (bc_device c) 0) (\<lambda>(s, beam_idx).
            cuda_check_done cx sq cand batch (c\<lparr>bc_device := s\<rparr>)))"

definition LaunchBeamSearchScorer_Process ::
    "schedule \<Rightarrow> ('f::linorder, 'g, 'y) cxx_scheme \<Rightarrow> Sequences \<Rightarrow> 'f candidates \<Rightarrow> 'f BeamSearchScorer_Cuda \<Rightarrow> 'f BeamSearchScorer_Cuda res" where
  "LaunchBeamSearchScorer_Process sched cx sq cand c =
     launch sched one_dim (one_dim\<lparr>dim_x := bs_batch_size (bc_device c)\<rparr>) (BeamSearchScorer_Process cx sq cand) c"

text \<open>The two kernels that write the reordered sequences and the new tokens to the second buffer.\<close>

definition AppendNextTokenToSequences1 ::
    "nat \<Rightarrow> int list \<Rightarrow> nat \<Rightarrow> nat \<Rightarrow> int list \<Rightarrow> nat \<Rightarrow> nat \<Rightarrow> int list \<Rightarrow> int list res" where
  "AppendNextTokenToSequences1 max_len sequences_buffer batch_beam_size seq_len next_beam_indices beam_idx sequence_index next_sequences =
     (if batch_beam_size \<le> beam_idx then Inr next_sequences
      else if seq_len \<le> sequence_index then Inr next_sequences
      else res_bind (get next_beam_indices beam_idx) (\<lambda>i.
           res_bind (index_of i) (\<lambda>beam_index.
           res_bind (get sequences_buffer (beam_index * max_len + sequence_index)) (\<lambda>token.
           put next_sequences (beam_idx * max_len + sequence_index) token))))"

definition AppendNextTokenToSequences2 :: "nat \<Rightarrow> nat \<Rightarrow> int list \<Rightarrow> nat \<Rightarrow> nat \<Rightarrow> int list \<Rightarrow> int list res" where
  "AppendNextTokenToSequences2 max_len seq_len next_beam_tokens beam_idx y next_sequences =
     res_bind (get next_beam_tokens beam_idx) (\<lambda>token. put next_sequences (beam_idx * max_len + seq_len) token)"

definition append_dims :: "nat \<Rightarrow> nat \<Rightarrow> dim3 \<times> dim3" where
  "append_dims batch_beam_size seq_len =
     (if batch_beam_size * seq_len \<le> 512 then (one_dim, \<lparr>dim_x = batch_beam_size, dim_y = seq_len\<rparr>)
      else if seq_len \<le> 512 then
        let bx = 512 div seq_len in (one_dim\<lparr>dim_x := (batch_beam_size + bx - 1) div bx\<rparr>, \<lparr>dim_x = bx, dim_y = seq_len\<rparr>)
      else (\<lparr>dim_x = batch_beam_size, dim_y = (seq_len + 512 - 1) div 512\<rparr>, \<lparr>dim_x = 1, dim_y = 512\<rparr>))"

definition LaunchAppendNextTokenToSequences ::
    "schedule \<Rightarrow> schedule \<Rightarrow> 'f BeamSearchScorer \<Rightarrow> Sequences \<Rightarrow> Sequences res" where
  "LaunchAppendNextTokenToSequences sched1 sched2 s sq =
     (let batch_beam_size = bs_batch_size s * bs_num_beams s;
          dims = append_dims batch_beam_size (GetSequenceLength sq) in
      res_bind (launch sched1 (fst dims) (snd dims)
                  (AppendNextTokenToSequences1 (bs_max_length s) (GetSequences sq) batch_beam_size (GetSequenceLength sq) (bs_next_indices s))
                  (sq_next sq)) (\<lambda>nxt.
      res_bind (launch sched2 one_dim (one_dim\<lparr>dim_x := batch_beam_size\<rparr>)
                  (AppendNextTokenToSequences2 (bs_max_length s) (GetSequenceLength sq) (bs_next_tokens s)) nxt) (\<lambda>nxt'.
      Inr (sq\<lparr>sq_next := nxt'\<rparr>))))"

definition Process_Cuda ::
    "schedule \<Rightarrow> schedule \<Rightarrow> schedule \<Rightarrow> ('f::linorder, 'g, 'y) cxx_scheme \<Rightarrow> 'f candidates
     \<Rightarrow> 'f BeamSearchScorer_Cuda \<times> Sequences \<Rightarrow> ('f BeamSearchScorer_Cuda \<times> Sequences) res" where
  "Process_Cuda sched1 sched2 sched3 cx cand = (\<lambda>(c, sq).
     res_bind (LaunchBeamSearchScorer_Process sched1 cx sq cand c) (\<lambda>c'.
     res_bind (LaunchAppendNextTokenToSequences sched2 sched3 (bc_device c') sq) (\<lambda>sq'.
     Inr (c', sq'))))"

definition IsDoneLater :: "'f BeamSearchScorer_Cuda \<Rightarrow> bool" where
  "IsDoneLater c \<longleftrightarrow> bc_not_done_cpu c = 0"

text \<open>\<open>Output\<close> and the \<open>Finalize\<close> kernel, which returns one sequence per entry.\<close>

definition cuda_Output ::
    "nat \<Rightarrow> nat \<Rightarrow> int \<Rightarrow> nat \<Rightarrow> nat \<Rightarrow> 'f BeamHypotheses \<Rightarrow> int list \<times> 'f list \<Rightarrow> (int list \<times> 'f list) res" where
  "cuda_Output k max_len pad base score_base h =
     for_res (\<lambda>index (seqs, scores).
       res_bind (get (bh_beams h) index) (\<lambda>item.
       res_bind (copy_into seqs (base + index * max_len)
                   (hypothesis item @ replicate (max_len - length (hypothesis item)) pad)) (\<lambda>seqs'.
       if scores = [] then Inr (seqs', scores)
       else res_bind (put scores (score_base + index) (score item)) (\<lambda>scores'. Inr (seqs', scores')))))
     [0..<k]"

definition BeamSearchScorer_Finalize ::
    "('f::linorder, 'g, 'y) cxx_scheme \<Rightarrow> Sequences \<Rightarrow> nat \<Rightarrow> nat \<Rightarrow> 'f BeamSearchScorer \<times> int list \<times> 'f list
     \<Rightarrow> ('f BeamSearchScorer \<times> int list \<times> 'f list) res" where
  "BeamSearchScorer_Finalize cx sq batch_index y = (\<lambda>(s, out, scores).
     if bs_batch_size s \<le> batch_index then Inr (s, out, scores)
     else
       res_bind (finalize_open cx sq batch_index s) (\<lambda>s'.
       res_bind (get (bs_hyps s') batch_index) (\<lambda>h.
       let n_return = 1 in
       res_bind (cuda_Output n_return (bs_max_length s') (bs_pad_token_id s')
                   (batch_index * n_return * bs_max_length s') (batch_index * n_return) h (out, scores)) (\<lambda>(out', scores').
       Inr (s', out', scores')))))"

definition Finalize_Cuda ::
    "schedule \<Rightarrow> ('f::linorder, 'g, 'y) cxx_scheme \<Rightarrow> Sequences \<Rightarrow> int list \<Rightarrow> 'f list \<Rightarrow> 'f BeamSearchScorer_Cuda
     \<Rightarrow> ('f BeamSearchScorer_Cuda \<times> int list \<times> 'f list) res" where
  "Finalize_Cuda sched cx sq out scores c =
     res_bind (launch sched one_dim (one_dim\<lparr>dim_x := bs_batch_size (bc_device c)\<rparr>) (BeamSearchScorer_Finalize cx sq)
                 (bc_device c, out, scores)) (\<lambda>(s, out', scores').
     Inr (c\<lparr>bc_device := s\<rparr>, out', scores'))"

end
