(* ===== verification/CudaLaws.thy ===== *)
theory CudaLaws
  imports CudaBeam
begin

text \<open>
  Laws of the device store and scorer of \<open>CudaBeam\<close>: every launch covers its index space, the result of a step does
  not depend on the order of the threads and is the one specified for the CPU classes, and the host's copy of the
  count of unfinished entries never changes.
\<close>

section \<open>Threads\<close>

lemma fair_set: "fair sched \<Longrightarrow> set (sched ts) = set ts"
  by (metis fair_def mset_eq_setD)

lemma fair_distinct: "fair sched \<Longrightarrow> distinct (sched ts) = distinct ts"
  by (metis fair_def mset_eq_imp_distinct_iff)

lemma fair_length: "fair sched \<Longrightarrow> length (sched ts) = length ts"
  by (metis fair_def mset_eq_length)

lemma launch_row:
  assumes "fair sched"
  shows "launch sched one_dim (one_dim\<lparr>dim_x := n\<rparr>) body s = for_res (\<lambda>t. body t 0) (sched [0..<n]) s"
  unfolding launch_def
proof (intro for_res_cong refl)
  have n: "thread_count one_dim (one_dim\<lparr>dim_x := n\<rparr>) = n" by (simp add: thread_count_def one_dim_def)
  show "sched [0..<thread_count one_dim (one_dim\<lparr>dim_x := n\<rparr>)] = sched [0..<n]" by (simp add: n)
  fix t u assume "t \<in> set (sched [0..<n])"
  then have "t < n" using fair_set [OF assms, of "[0..<n]"] by simp
  then show "body (thread_x one_dim (one_dim\<lparr>dim_x := n\<rparr>) t) (thread_y one_dim (one_dim\<lparr>dim_x := n\<rparr>) t) u = body t 0 u"
    by (simp add: thread_x_def thread_y_def one_dim_def)
qed

text \<open>Every pair of coordinates in range belongs to a thread.\<close>

lemma thread_covers:
  assumes x: "x < dim_x grid * dim_x block" and y: "y < dim_y grid * dim_y block"
  shows "\<exists>t<thread_count grid block. thread_x grid block t = x \<and> thread_y grid block t = y"
proof -
  let ?bx = "dim_x block" and ?by = "dim_y block" and ?gx = "dim_x grid" and ?gy = "dim_y grid"
  define b where "b = (y div ?by) * ?gx + x div ?bx"
  define i where "i = (y mod ?by) * ?bx + x mod ?bx"
  have pos: "0 < ?bx" "0 < ?by" using x y by (auto intro: Nat.gr0I)
  have bx: "x div ?bx < ?gx" "y div ?by < ?gy" using x y by (simp_all add: less_mult_imp_div_less)
  have i: "i < ?bx * ?by" using row_bound_less [of "y mod ?by" ?by "x mod ?bx" ?bx] pos by (simp add: i_def mult.commute)
  have b: "b < ?gx * ?gy" using row_bound_less [OF bx(2,1)] by (simp add: b_def mult.commute)
  let ?t = "b * (?bx * ?by) + i"
  have t: "?t div (?bx * ?by) = b" "?t mod (?bx * ?by) = i" using row_col [OF i, of b] by simp_all
  have bb: "b div ?gx = y div ?by" "b mod ?gx = x div ?bx" using row_col [OF bx(1), of "y div ?by"] by (simp_all add: b_def)
  have ii: "i div ?bx = y mod ?by" "i mod ?bx = x mod ?bx" using row_col [of "x mod ?bx" ?bx "y mod ?by"] pos by (simp_all add: i_def)
  have "thread_x grid block ?t = x" unfolding thread_x_def Let_def t bb ii by simp
  moreover have "thread_y grid block ?t = y" unfolding thread_y_def Let_def t bb ii by simp
  moreover have "?t < thread_count grid block" using row_bound_less [OF b i] by (simp add: thread_count_def)
  ultimately show ?thesis by blast
qed

lemma ceil_div_covers: "0 < m \<Longrightarrow> n \<le> (n + m - 1) div m * (m::nat)"
  using div_mult_mod_eq [of "n + m - 1" m] mod_less_divisor [of m "n + m - 1"] by linarith

lemma append_dims_cover:
  assumes "0 < n"
  shows "n \<le> dim_x (fst (append_dims n l)) * dim_x (snd (append_dims n l))"
    and "l \<le> dim_y (fst (append_dims n l)) * dim_y (snd (append_dims n l))"
proof -
  have "0 < 512 div l" if "\<not> n * l \<le> 512" "l \<le> 512" using that by (cases "l = 0") (auto simp: div_greater_zero_iff)
  then show "n \<le> dim_x (fst (append_dims n l)) * dim_x (snd (append_dims n l))"
    using ceil_div_covers [of "512 div l" n] by (simp add: append_dims_def one_dim_def Let_def)
  show "l \<le> dim_y (fst (append_dims n l)) * dim_y (snd (append_dims n l))"
    using ceil_div_covers [of 512 l] by (simp add: append_dims_def one_dim_def Let_def)
qed

section \<open>Writing cells in any order\<close>

lemma for_res_scatter:
  assumes "\<And>t d. t \<in> set ts \<Longrightarrow> length d = n \<Longrightarrow> body t d = (if P t then Inr (d[pos t := v (pos t)]) else Inr d)"
    and "\<And>t. t \<in> set ts \<Longrightarrow> P t \<Longrightarrow> pos t < n" and "length d = n"
  shows "\<exists>d'. for_res body ts d = Inr d' \<and> length d' = n
     \<and> (\<forall>k<n. d' ! k = (if k \<in> pos ` {t \<in> set ts. P t} then v k else d ! k))"
  using assms
proof (induction ts arbitrary: d)
  case (Cons t ts)
  define d1 where "d1 = (if P t then d[pos t := v (pos t)] else d)"
  have d1: "body t d = Inr d1" "length d1 = n" using Cons.prems(1) [of t d] Cons.prems(3) by (auto simp: d1_def)
  have "\<exists>d'. for_res body ts d1 = Inr d' \<and> length d' = n
     \<and> (\<forall>k<n. d' ! k = (if k \<in> pos ` {t \<in> set ts. P t} then v k else d1 ! k))"
    using Cons.prems d1(2) by (intro Cons.IH) auto
  then obtain d' where d': "for_res body ts d1 = Inr d'" "length d' = n"
      "\<forall>k<n. d' ! k = (if k \<in> pos ` {t \<in> set ts. P t} then v k else d1 ! k)" by blast
  have "d' ! k = (if k \<in> pos ` {u \<in> set (t # ts). P u} then v k else d ! k)" if "k < n" for k
    using d'(3) that Cons.prems(2,3) by (auto simp: d1_def nth_list_update)
  then show ?case using d1 d'(1,2) by auto
qed simp

text \<open>A kernel that fills an array, one cell per thread.\<close>

lemma launch_fill:
  assumes fair: "fair sched" and cover: "n \<le> dim_x grid * dim_x block" "0 < dim_y grid * dim_y block" and len: "length d = n"
    and body: "\<And>x y d. length d = n \<Longrightarrow> body x y d = (if x < n then Inr (d[x := v x]) else Inr d)"
  shows "launch sched grid block body d = Inr (map v [0..<n])"
proof -
  let ?ts = "sched [0..<thread_count grid block]" and ?x = "thread_x grid block" and ?y = "thread_y grid block"
  have "\<exists>d'. for_res (\<lambda>t. body (?x t) (?y t)) ?ts d = Inr d' \<and> length d' = n
     \<and> (\<forall>k<n. d' ! k = (if k \<in> ?x ` {t \<in> set ?ts. ?x t < n} then v k else d ! k))"
    by (rule for_res_scatter) (use body len in simp_all)
  then obtain d' where d': "for_res (\<lambda>t. body (?x t) (?y t)) ?ts d = Inr d'" "length d' = n"
      "\<forall>k<n. d' ! k = (if k \<in> ?x ` {t \<in> set ?ts. ?x t < n} then v k else d ! k)" by blast
  have "d' ! k = v k" if k: "k < n" for k
  proof -
    obtain t where "t < thread_count grid block" "?x t = k"
      using thread_covers [of k grid block 0] k cover by auto
    then have "k \<in> ?x ` {t \<in> set ?ts. ?x t < n}" using fair_set [OF fair] k by (intro image_eqI [of _ _ t]) auto
    then show ?thesis using d'(3) k by simp
  qed
  then have "d' = map v [0..<n]" using d'(2) by (intro nth_equalityI) simp_all
  then show ?thesis using d'(1) by (simp add: launch_def)
qed

lemma GridBlock32_covers:
  "n \<le> dim_x (fst (GridBlock32 n)) * dim_x (snd (GridBlock32 n))" "0 < dim_y (fst (GridBlock32 n)) * dim_y (snd (GridBlock32 n))"
proof -
  have "n \<le> (n + 31) div 32 * 32" using ceil_div_covers [of 32 n] by simp
  moreover have "(n + 31) div 32 * 32 \<le> ((n + 31) div 32 * 32 + 255) div 256 * 256" using ceil_div_covers [of 256 "(n + 31) div 32 * 32"] by simp
  ultimately show "n \<le> dim_x (fst (GridBlock32 n)) * dim_x (snd (GridBlock32 n))"
    by (simp add: GridBlock32_def one_dim_def Let_def)
  show "0 < dim_y (fst (GridBlock32 n)) * dim_y (snd (GridBlock32 n))"
    by (simp add: GridBlock32_def one_dim_def Let_def)
qed

text \<open>The constructor builds the state of the CPU scorer, apart from the tokens and indices it leaves uninitialised.\<close>

lemma BeamSearchScorer_Cuda_new_eq:
  assumes "fair sched1" and "fair sched2" and cpu: "BeamSearchScorer_new cx p = Inr s"
  shows "BeamSearchScorer_Cuda_new sched1 sched2 cx p fresh_scores fresh_ints fresh_hyps =
     Inr \<lparr>bc_device = s\<lparr>bs_next_tokens := map fresh_ints [0..<nbatch p * nbeams p], bs_next_indices := map fresh_ints [0..<nbatch p * nbeams p]\<rparr>,
          bc_not_done_cpu = batch_size p\<rparr>"
proof -
  let ?n = "nbatch p * nbeams p" and ?init = "BeamHypotheses_Init (length_penalty (search p)) (nbeams p)"
  have hyps: "launch sched1 (fst (GridBlock32 (nbatch p))) (snd (GridBlock32 (nbatch p)))
      (InitializeBeamHypotheses (length_penalty (search p)) (nbeams p) (nbatch p)) (map fresh_hyps [0..<nbatch p]) = Inr (map (\<lambda>i. ?init) [0..<nbatch p])"
    by (rule launch_fill [OF assms(1) GridBlock32_covers]) (auto simp: InitializeBeamHypotheses_def)
  have scores: "launch sched2 (one_dim\<lparr>dim_x := (?n + 255) div 256\<rparr>) (one_dim\<lparr>dim_x := 256\<rparr>) (InitScoresKernel cx (nbeams p) ?n) (map fresh_scores [0..<?n])
      = Inr (map (\<lambda>i. if 0 < i mod nbeams p then fbig_neg cx else fzero cx) [0..<?n])"
    using ceil_div_covers [of 256 ?n] by (intro launch_fill [OF assms(2)]) (auto simp: InitScoresKernel_def one_dim_def add.commute)
  have "map (\<lambda>i. ?init) [0..<nbatch p] = replicate (nbatch p) ?init" by (simp add: map_replicate_const)
  then show ?thesis using cpu hyps scores
    by (auto simp: BeamSearchScorer_Cuda_new_def BeamSearchScorer_new_def Let_def split: if_splits)
qed

section \<open>Appending\<close>

lemma kernel1_ok:
  assumes inv: "seq_inv_beam sq" and fair: "fair sched" and bbs: "0 < sq_batch_beam_size sq"
    and idx: "length idxs = sq_batch_beam_size sq" "\<forall>i\<in>set idxs. 0 \<le> i \<and> i < int (sq_batch_beam_size sq)"
    and dims: "dims = append_dims (sq_batch_beam_size sq) (sq_current_length sq)"
  shows "\<exists>d. launch sched (fst dims) (snd dims) (AppendNextTokenToSequences1 (sq_max_length sq) (sq_data sq) (sq_batch_beam_size sq)
        (sq_current_length sq) idxs) (sq_next sq) = Inr d \<and> length d = sq_batch_beam_size sq * sq_max_length sq
     \<and> (\<forall>r < sq_batch_beam_size sq. \<forall>j < sq_current_length sq. d ! (r * sq_max_length sq + j) = seq_view sq (nat (idxs ! r)) ! j)"
proof -
  let ?n = "sq_batch_beam_size sq" and ?w = "sq_max_length sq" and ?l = "sq_current_length sq"
  let ?x = "thread_x (fst dims) (snd dims)" and ?y = "thread_y (fst dims) (snd dims)"
  let ?ts = "sched [0..<thread_count (fst dims) (snd dims)]"
  let ?P = "\<lambda>t. ?x t < ?n \<and> ?y t < ?l" and ?pos = "\<lambda>t. ?x t * ?w + ?y t"
  let ?v = "\<lambda>k. seq_view sq (nat (idxs ! (k div ?w))) ! (k mod ?w)"
  have len: "length (sq_data sq) = ?n * ?w" "length (sq_next sq) = ?n * ?w" "?l \<le> ?w" and sinv: "seq_inv sq"
    using inv by (auto simp: seq_inv_beam_def seq_inv_def)
  have row: "0 \<le> idxs ! x" "nat (idxs ! x) < ?n" if "x < ?n" for x
    using idx that by (auto simp: all_set_conv_all_nth)
  have pos: "?pos t < ?n * ?w" if "?P t" for t using that len(3) row_bound_less [of "?x t" ?n "?y t" ?w] by simp
  have body: "AppendNextTokenToSequences1 ?w (sq_data sq) ?n ?l idxs (?x t) (?y t) d
      = (if ?P t then Inr (d[?pos t := ?v (?pos t)]) else Inr d)" if "length d = ?n * ?w" for t d
  proof (cases "?P t")
    case True
    let ?b = "nat (idxs ! ?x t)"
    have y: "?y t < ?w" using True len(3) by simp
    have b: "?b * ?w + ?y t < ?n * ?w" using row(2) [of "?x t"] True y by (intro row_bound_less) auto
    have le: "?b * ?w \<le> length (sq_data sq)" using b len(1) by linarith
    have "seq_view sq ?b ! ?y t = sq_data sq ! (?b * ?w + ?y t)"
      using True le by (simp add: seq_view_def)
    moreover have "?pos t div ?w = ?x t" "?pos t mod ?w = ?y t" using row_col [OF y, of "?x t"] by simp_all
    ultimately show ?thesis using True that pos [OF True] row [of "?x t"] idx(1) b len(1)
      by (simp add: AppendNextTokenToSequences1_def)
  qed (auto simp: AppendNextTokenToSequences1_def)
  have "\<exists>d'. for_res (\<lambda>t. AppendNextTokenToSequences1 ?w (sq_data sq) ?n ?l idxs (?x t) (?y t)) ?ts (sq_next sq) = Inr d' \<and> length d' = ?n * ?w
     \<and> (\<forall>k<?n * ?w. d' ! k = (if k \<in> ?pos ` {t \<in> set ?ts. ?P t} then ?v k else sq_next sq ! k))"
    using body pos len(2) by (intro for_res_scatter) auto
  then obtain d where d: "launch sched (fst dims) (snd dims) (AppendNextTokenToSequences1 ?w (sq_data sq) ?n ?l idxs) (sq_next sq) = Inr d"
      "length d = ?n * ?w" "\<forall>k<?n * ?w. d ! k = (if k \<in> ?pos ` {t \<in> set ?ts. ?P t} then ?v k else sq_next sq ! k)"
    unfolding launch_def by blast
  have "d ! (r * ?w + j) = seq_view sq (nat (idxs ! r)) ! j" if r: "r < ?n" and j: "j < ?l" for r j
  proof -
    obtain t where t: "t < thread_count (fst dims) (snd dims)" "?x t = r" "?y t = j"
      using thread_covers [of r "fst dims" "snd dims" j] append_dims_cover [OF bbs, of ?l] r j unfolding dims by (meson less_le_trans)
    have "t \<in> set ?ts" using fair_set [OF fair] t(1) by simp
    then have "r * ?w + j \<in> ?pos ` {t \<in> set ?ts. ?P t}" using t r j by (intro image_eqI [of _ _ t]) auto
    moreover have "r * ?w + j < ?n * ?w" using r j len(3) by (intro row_bound_less) auto
    moreover have "(r * ?w + j) div ?w = r" "(r * ?w + j) mod ?w = j" using row_col [of j ?w r] j len(3) by auto
    ultimately show ?thesis using d(3) by simp
  qed
  then show ?thesis using d(1,2) by blast
qed

lemma kernel2_ok:
  assumes fair: "fair sched" and len: "length d = n * w" "length toks = n" "l < w"
  shows "\<exists>d'. launch sched one_dim (one_dim\<lparr>dim_x := n\<rparr>) (AppendNextTokenToSequences2 w l toks) d = Inr d' \<and> length d' = n * w
     \<and> (\<forall>r<n. \<forall>j\<le>l. d' ! (r * w + j) = (if j = l then toks ! r else d ! (r * w + j)))"
proof -
  let ?ts = "sched [0..<n]" and ?pos = "\<lambda>t. t * w + l"
  have ts: "set ?ts = {0..<n}" using fair_set [OF fair] by simp
  have body: "AppendNextTokenToSequences2 w l toks t 0 x = (if True then Inr (x[?pos t := toks ! (?pos t div w)]) else Inr x)"
    if "t \<in> set ?ts" "length x = n * w" for t x
    using that ts len row_bound_less [of t n l w] row_col [OF len(3), of t] by (simp add: AppendNextTokenToSequences2_def)
  have S: "{t \<in> set ?ts. True} = {0..<n}" using ts by (simp only: simp_thms Collect_mem_eq)
  have A: "\<exists>d'. for_res (\<lambda>t. AppendNextTokenToSequences2 w l toks t 0) ?ts d = Inr d' \<and> length d' = n * w
     \<and> (\<forall>k<n * w. d' ! k = (if k \<in> ?pos ` {t \<in> set ?ts. True} then toks ! (k div w) else d ! k))"
  proof (rule for_res_scatter)
    show "?pos t < n * w" if "t \<in> set ?ts" for t using that ts row_bound_less [of t n l w] len(3) by simp
  qed (use body len(1) in simp_all)
  from A [unfolded S] obtain d' where d': "launch sched one_dim (one_dim\<lparr>dim_x := n\<rparr>) (AppendNextTokenToSequences2 w l toks) d = Inr d'" "length d' = n * w"
      "\<forall>k<n * w. d' ! k = (if k \<in> ?pos ` {0..<n} then toks ! (k div w) else d ! k)"
    unfolding launch_row [OF fair] by blast
  have "d' ! (r * w + j) = (if j = l then toks ! r else d ! (r * w + j))" if r: "r < n" and j: "j \<le> l" for r j
  proof -
    have "r * w + j \<in> ?pos ` {0..<n} \<longleftrightarrow> j = l"
    proof
      assume "r * w + j \<in> ?pos ` {0..<n}"
      then obtain t where "r * w + j = t * w + l" by auto
      then show "j = l" using row_col [of j w r] row_col [OF len(3), of t] j len(3) by (metis le_less_trans)
    qed (use r in auto)
    moreover have "r * w + j < n * w" using r j len(3) by (intro row_bound_less) auto
    moreover have "(r * w + j) div w = r" using row_col [of j w r] j len(3) by auto
    ultimately show ?thesis using d'(3) by auto
  qed
  then show ?thesis using d'(1,2) by blast
qed

lemma LaunchAppend_ok:
  assumes inv: "seq_inv_beam sq" and fair: "fair sched1" "fair sched2" and room: "sq_current_length sq < sq_max_length sq"
    and cfg: "sq_batch_beam_size sq = bs_batch_size s * bs_num_beams s" "bs_max_length s = sq_max_length sq" "0 < sq_batch_beam_size sq"
    and idx: "length (bs_next_indices s) = sq_batch_beam_size sq" "\<forall>i\<in>set (bs_next_indices s). 0 \<le> i \<and> i < int (sq_batch_beam_size sq)"
    and toks: "length (bs_next_tokens s) = sq_batch_beam_size sq"
  shows "\<exists>sq'. LaunchAppendNextTokenToSequences sched1 sched2 s sq = Inr sq' \<and> seq_inv_beam (AfterDeviceAppendedNextToken sq')
     \<and> sq_batch_beam_size sq' = sq_batch_beam_size sq \<and> sq_max_length sq' = sq_max_length sq \<and> sq_current_length sq' = sq_current_length sq
     \<and> seq_abs (AfterDeviceAppendedNextToken sq') = map2 (\<lambda>i token. seq_abs sq ! nat i @ [token]) (bs_next_indices s) (bs_next_tokens s)"
proof -
  let ?n = "sq_batch_beam_size sq" and ?w = "sq_max_length sq" and ?l = "sq_current_length sq"
  let ?dims = "append_dims ?n ?l" and ?ix = "bs_next_indices s" and ?tk = "bs_next_tokens s"
  have len: "length (sq_data sq) = ?n * ?w" and sinv: "seq_inv sq" using inv by (auto simp: seq_inv_beam_def seq_inv_def)
  obtain d where d: "launch sched1 (fst ?dims) (snd ?dims) (AppendNextTokenToSequences1 ?w (sq_data sq) ?n ?l ?ix) (sq_next sq) = Inr d"
      "length d = ?n * ?w" "\<forall>r < ?n. \<forall>j < ?l. d ! (r * ?w + j) = seq_view sq (nat (?ix ! r)) ! j"
    using kernel1_ok [OF inv fair(1) cfg(3) idx refl] by blast
  obtain d' where d': "launch sched2 one_dim (one_dim\<lparr>dim_x := ?n\<rparr>) (AppendNextTokenToSequences2 ?w ?l ?tk) d = Inr d'" "length d' = ?n * ?w"
      "\<forall>r<?n. \<forall>j\<le>?l. d' ! (r * ?w + j) = (if j = ?l then ?tk ! r else d ! (r * ?w + j))"
    using kernel2_ok [OF fair(2) d(2) toks room] by blast
  let ?sq = "sq\<lparr>sq_next := d'\<rparr>"
  have "LaunchAppendNextTokenToSequences sched1 sched2 s sq = Inr ?sq"
    using d(1) d'(1) cfg by (simp add: LaunchAppendNextTokenToSequences_def GetSequenceLength_def GetSequences_def Let_def)
  moreover have "seq_inv_beam (AfterDeviceAppendedNextToken ?sq)"
    using d'(2) len room by (simp add: seq_inv_beam_def seq_inv_def AfterDeviceAppendedNextToken_def)
  moreover have "seq_abs (AfterDeviceAppendedNextToken ?sq) = map2 (\<lambda>i token. seq_abs sq ! nat i @ [token]) ?ix ?tk"
  proof (rule nth_equalityI)
    fix r assume "r < length (seq_abs (AfterDeviceAppendedNextToken ?sq))"
    then have r: "r < ?n" by (simp add: AfterDeviceAppendedNextToken_def)
    have k: "nat (?ix ! r) < ?n" using idx r by (auto simp: all_set_conv_all_nth)
    have "?n * ?w \<ge> r * ?w + Suc ?l" using row_bound [OF r Suc_leI [OF room]] by simp
    then have "take (Suc ?l) (drop (r * ?w) d') = seq_view sq (nat (?ix ! r)) @ [?tk ! r]"
      using d(3) d'(2,3) r length_seq_view [OF sinv k] by (intro nth_equalityI) (auto simp: nth_append)
    then show "seq_abs (AfterDeviceAppendedNextToken ?sq) ! r = map2 (\<lambda>i token. seq_abs sq ! nat i @ [token]) ?ix ?tk ! r"
      using r k idx(1) toks by (simp add: AfterDeviceAppendedNextToken_def seq_abs_def seq_view_def)
  qed (use idx(1) toks in \<open>simp add: AfterDeviceAppendedNextToken_def\<close>)
  ultimately show ?thesis by (intro exI [of _ ?sq]) simp
qed

section \<open>Scoring\<close>

text \<open>When a thread finishes its entry, the count it decrements is not zero: the entry is still counted.\<close>

lemma open_hyps_pos: "batch < length hs \<Longrightarrow> \<not> bh_done (hs ! batch) \<Longrightarrow> 0 < open_hyps hs"
  by (metis (mono_tags, lifting) filter_empty_conv length_greater_0_conv nth_mem open_hyps_def)

lemma cuda_check_done_eq:
  assumes inv: "scorer_inv (bc_device c)" and b: "batch < bs_batch_size (bc_device c)" and nd: "\<not> bh_done (bs_hyps (bc_device c) ! batch)"
  shows "cuda_check_done cx sq cand batch c = res_bind (check_done cx sq cand batch (bc_device c)) (\<lambda>s. Inr (c\<lparr>bc_device := s\<rparr>))"
proof -
  let ?s = "bc_device c"
  have bl: "batch < length (bs_hyps ?s)" using inv b by (simp add: scorer_inv_def)
  then have "bs_hyps ?s ! batch \<in> set (bs_hyps ?s)" by simp
  then have le: "length (bh_beams (bs_hyps ?s ! batch)) \<le> bs_num_beams ?s" using inv unfolding scorer_inv_def hyps_ok_def by metis
  have "bs_not_done_count ?s \<noteq> 0" using scorer_inv_count [OF inv] open_hyps_pos [OF bl nd] by simp
  then show ?thesis using bl le
    by (simp add: cuda_check_done_def check_done_def Let_def res_bind_assoc) (simp add: res_bind_def split: sum.splits)
qed

lemma filter_firsts: "length (filter (\<lambda>j. j < n) [0..<2 * n]) = (n::nat)"
proof -
  have "[0..<2 * n] = [0..<n] @ [n..<2 * n]" using upt_add_eq_append [of 0 n n] by (simp add: mult_2)
  then show ?thesis by simp
qed

text \<open>A thread of the kernel does what the CPU scorer does for its entry; the host's copy stays.\<close>

lemma Process_thread_eq:
  assumes inv: "scorer_inv (bc_device c)" and sq: "store_ok (bc_device c) sq" and cand: "cand_ok (bc_device c) cand"
    and b: "batch < bs_batch_size (bc_device c)"
    and room: "bs_hyp_used (bc_device c) + bs_num_beams (bc_device c) * GetSequenceLength sq \<le> bs_hyp_size (bc_device c)"
  shows "BeamSearchScorer_Process cx sq cand batch y c = res_bind (process_batch cx sq cand batch (bc_device c)) (\<lambda>s. Inr (c\<lparr>bc_device := s\<rparr>))"
proof -
  let ?s = "bc_device c" and ?js = "[0..<2 * bs_num_beams (bc_device c)]"
  have bl: "batch < length (bs_hyps ?s)" and pos: "0 < bs_num_beams ?s" using inv b by (auto simp: scorer_inv_def)
  show ?thesis
  proof (cases "bh_done (bs_hyps ?s ! batch)")
    case True
    then show ?thesis using bl by (simp add: BeamSearchScorer_Process_def process_batch_def)
  next
    case False
    have "bs_num_beams ?s \<le> 0 + length (filter (\<lambda>j. \<not> eos_cand ?s cand batch j) ?js)" using cand_ok_enough [OF cand b] by simp
    then obtain u where u: "beam_loop cx sq cand batch ?js ?s 0 = Inr (u, bs_num_beams ?s)" "loop_post sq cand batch ?js ?s 0 u"
      using beam_loop_ok [OF inv sq cand b False pos, of ?js cx] room filter_firsts by auto
    then have "scorer_inv u" "\<not> bh_done (bs_hyps u ! batch)" "batch < bs_batch_size u"
      using b by (auto simp: loop_post_def same_config_def)
    then have "cuda_check_done cx sq cand batch (c\<lparr>bc_device := u\<rparr>) = res_bind (check_done cx sq cand batch u) (\<lambda>s. Inr (c\<lparr>bc_device := s\<rparr>))"
      using cuda_check_done_eq [of "c\<lparr>bc_device := u\<rparr>" batch cx sq cand] by simp
    then show ?thesis using u(1) bl False by (simp add: BeamSearchScorer_Process_def process_batch_def)
  qed
qed

lemma Process_threads_ok:
  assumes "scorer_inv (bc_device c)" and "store_ok (bc_device c) sq" and "cand_ok (bc_device c) cand"
    and "distinct ts" and "set ts \<subseteq> {0..<bs_batch_size (bc_device c)}"
    and "bs_hyp_used (bc_device c) + length ts * (bs_num_beams (bc_device c) * GetSequenceLength sq) \<le> bs_hyp_size (bc_device c)"
  shows "\<exists>t. for_res (\<lambda>b. BeamSearchScorer_Process cx sq cand b 0) ts c = Inr (c\<lparr>bc_device := t\<rparr>) \<and> scorer_inv t \<and> same_config (bc_device c) t
     \<and> (\<forall>i\<in>set ts. entry_post cx cand (bc_device c) i t) \<and> (\<forall>i. i \<notin> set ts \<longrightarrow> entry_same (bc_device c) t i)
     \<and> bs_hyp_used t \<le> bs_hyp_used (bc_device c) + length ts * (bs_num_beams (bc_device c) * GetSequenceLength sq)"
  using assms
proof (induction ts arbitrary: c)
  case Nil
  then show ?case by (intro exI [of _ "bc_device c"]) (simp add: entry_same_def)
next
  case (Cons b ts)
  let ?s = "bc_device c" and ?L = "bs_num_beams (bc_device c) * GetSequenceLength sq"
  have b: "b < bs_batch_size ?s" and room: "bs_hyp_used ?s + ?L \<le> bs_hyp_size ?s" using Cons.prems(5,6) by auto
  obtain u where u: "process_batch cx sq cand b ?s = Inr u" "scorer_inv u" "same_config ?s u" "bs_hyp_used u \<le> bs_hyp_used ?s + ?L"
      "entry_post cx cand ?s b u" "\<forall>i. i \<noteq> b \<longrightarrow> entry_same ?s u i"
    using process_batch_ok [OF Cons.prems(1-3) b room, of cx] by blast
  let ?c = "c\<lparr>bc_device := u\<rparr>"
  have cfg: "store_ok u sq" "cand_ok u cand" "bs_batch_size u = bs_batch_size ?s" "bs_num_beams u = bs_num_beams ?s" "bs_hyp_size u = bs_hyp_size ?s"
    using Cons.prems(2,3) store_ok_config [OF u(3)] cand_ok_config [OF u(3)] u(3) by (auto simp: same_config_def)
  have "bs_hyp_used u + length ts * (bs_num_beams u * GetSequenceLength sq) \<le> bs_hyp_size u"
    using Cons.prems(6) u(4) cfg(4,5) by simp
  then obtain t where t: "for_res (\<lambda>b. BeamSearchScorer_Process cx sq cand b 0) ts ?c = Inr (?c\<lparr>bc_device := t\<rparr>)" "scorer_inv t" "same_config u t"
      "\<forall>i\<in>set ts. entry_post cx cand u i t" "\<forall>i. i \<notin> set ts \<longrightarrow> entry_same u t i"
      "bs_hyp_used t \<le> bs_hyp_used u + length ts * (bs_num_beams u * GetSequenceLength sq)"
    using Cons.IH [of ?c] u(2) cfg Cons.prems(4,5) by auto
  have "entry_post cx cand ?s i t" if "i \<in> set (b # ts)" for i
  proof (cases "i = b")
    case True
    then show ?thesis using entry_post_same [OF u(5) _ u(3) t(3)] t(5) Cons.prems(4) by simp
  next
    case False
    then show ?thesis using entry_post_start [OF _ _ u(3), of cx cand i t] t(4) u(6) that by simp
  qed
  moreover have "entry_same ?s t i" if "i \<notin> set (b # ts)" for i
    using entry_same_trans [OF _ _ u(3)] u(6) t(5) that by simp
  moreover have "for_res (\<lambda>b. BeamSearchScorer_Process cx sq cand b 0) (b # ts) c = Inr (c\<lparr>bc_device := t\<rparr>)"
    using Process_thread_eq [OF Cons.prems(1-3) b room, of cx 0] u(1) t(1) by simp
  moreover have "bs_hyp_used t \<le> bs_hyp_used ?s + length (b # ts) * ?L" using t(6) u(4) cfg(4) by simp
  ultimately show ?case using t(2) same_config_trans [OF u(3) t(3)] by blast
qed

text \<open>So the host, which polls its copy, never sees the end of the search.\<close>

lemma IsDoneLater_never:
  assumes "scorer_inv (bc_device c)" and "store_ok (bc_device c) sq" and "cand_ok (bc_device c) cand" and "fair sched"
    and "bs_hyp_used (bc_device c) + bs_batch_size (bc_device c) * (bs_num_beams (bc_device c) * GetSequenceLength sq) \<le> bs_hyp_size (bc_device c)"
    and "\<not> IsDoneLater c"
  shows "\<exists>c'. LaunchBeamSearchScorer_Process sched cx sq cand c = Inr c' \<and> \<not> IsDoneLater c'"
proof -
  let ?ts = "sched [0..<bs_batch_size (bc_device c)]"
  have "set ?ts = {0..<bs_batch_size (bc_device c)}" "distinct ?ts" "length ?ts = bs_batch_size (bc_device c)"
    using fair_set [OF assms(4)] fair_distinct [OF assms(4)] fair_length [OF assms(4)] by simp_all
  then show ?thesis using Process_threads_ok [OF assms(1-3), of ?ts cx] assms(5,6)
    by (auto simp: LaunchBeamSearchScorer_Process_def launch_row [OF assms(4)] IsDoneLater_def)
qed

lemma Process_Cuda_ok:
  assumes "scorer_inv (bc_device c)" and "store_ok (bc_device c) sq" and "cand_ok (bc_device c) cand" and "seq_inv_beam sq"
    and "bs_hyp_used (bc_device c) + bs_batch_size (bc_device c) * (bs_num_beams (bc_device c) * GetSequenceLength sq) \<le> bs_hyp_size (bc_device c)"
    and "0 < bs_batch_size (bc_device c)" and "bs_max_length (bc_device c) = sq_max_length sq" and "sq_current_length sq < sq_max_length sq"
    and "fair sched1" and "fair sched2" and "fair sched3"
  shows "\<exists>t sq'. Process_Cuda sched1 sched2 sched3 cx cand (c, sq) = Inr (c\<lparr>bc_device := t\<rparr>, sq')
     \<and> scorer_inv t \<and> same_config (bc_device c) t \<and> (\<forall>i < bs_batch_size (bc_device c). entry_post cx cand (bc_device c) i t)
     \<and> seq_inv_beam (AfterDeviceAppendedNextToken sq')
     \<and> seq_abs (AfterDeviceAppendedNextToken sq') = map2 (\<lambda>i token. seq_abs sq ! nat i @ [token]) (bs_next_indices t) (bs_next_tokens t)
     \<and> bs_hyp_used t \<le> bs_hyp_used (bc_device c) + bs_batch_size (bc_device c) * (bs_num_beams (bc_device c) * GetSequenceLength sq)
     \<and> sq_batch_beam_size sq' = sq_batch_beam_size sq \<and> sq_max_length sq' = sq_max_length sq \<and> sq_current_length sq' = sq_current_length sq
     \<and> (\<forall>i\<in>set (bs_next_indices t). 0 \<le> i \<and> i < int (sq_batch_beam_size sq))"
proof -
  let ?s = "bc_device c" and ?ts = "sched1 [0..<bs_batch_size (bc_device c)]"
  have ts: "set ?ts = {0..<bs_batch_size ?s}" "distinct ?ts" "length ?ts = bs_batch_size ?s"
    using fair_set [OF assms(9)] fair_distinct [OF assms(9)] fair_length [OF assms(9)] by simp_all
  obtain t where t: "for_res (\<lambda>b. BeamSearchScorer_Process cx sq cand b 0) ?ts c = Inr (c\<lparr>bc_device := t\<rparr>)" "scorer_inv t" "same_config ?s t"
      "\<forall>i\<in>set ?ts. entry_post cx cand ?s i t" "bs_hyp_used t \<le> bs_hyp_used ?s + length ?ts * (bs_num_beams ?s * GetSequenceLength sq)"
    using Process_threads_ok [OF assms(1-3) ts(2), of cx] ts assms(5) by auto
  have post: "\<forall>i < bs_batch_size ?s. entry_post cx cand ?s i t" using t(4) ts(1) by simp
  have cfg: "sq_batch_beam_size sq = bs_batch_size t * bs_num_beams t" "bs_max_length t = sq_max_length sq" "0 < sq_batch_beam_size sq"
      "bs_batch_size t = bs_batch_size ?s" "bs_num_beams t = bs_num_beams ?s"
    using assms(1,2,6,7) t(3) by (auto simp: same_config_def store_ok_def scorer_inv_def)
  have idx: "\<forall>i\<in>set (bs_next_indices t). 0 \<le> i \<and> i < int (sq_batch_beam_size sq)"
    using entry_post_indices [OF post assms(3) t(3)] t(2) cfg by (auto simp: scorer_inv_def all_set_conv_all_nth)
  moreover have "length (bs_next_indices t) = sq_batch_beam_size sq" "length (bs_next_tokens t) = sq_batch_beam_size sq"
    using t(2) cfg(1) by (simp_all add: scorer_inv_def)
  ultimately obtain sq' where sq': "LaunchAppendNextTokenToSequences sched2 sched3 t sq = Inr sq'" "seq_inv_beam (AfterDeviceAppendedNextToken sq')"
      "sq_batch_beam_size sq' = sq_batch_beam_size sq" "sq_max_length sq' = sq_max_length sq" "sq_current_length sq' = sq_current_length sq"
      "seq_abs (AfterDeviceAppendedNextToken sq') = map2 (\<lambda>i token. seq_abs sq ! nat i @ [token]) (bs_next_indices t) (bs_next_tokens t)"
    using LaunchAppend_ok [OF assms(4,10,11,8) cfg(1-3)] by blast
  have "Process_Cuda sched1 sched2 sched3 cx cand (c, sq) = Inr (c\<lparr>bc_device := t\<rparr>, sq')"
    using t(1) sq'(1) by (simp add: Process_Cuda_def LaunchBeamSearchScorer_Process_def launch_row [OF assms(9)])
  then show ?thesis using t(2,3,5) ts(3) post sq'(2-6) idx by auto
qed


definition example_device :: "int BeamSearchScorer_Cuda" where
  "example_device = \<lparr>bc_device = example_scorer, bc_not_done_cpu = 2\<rparr>"

lemma fair_rev: "fair rev"
  by (simp add: fair_def)


end
