(* ===== verification/CudaTopK.thy ===== *)
theory CudaTopK
  imports CudaLaws Tensors
begin

text \<open>
  \<open>src/beam_search_topk.h\<close> and \<open>src/beam_search_topk.cu\<close>: the selection of the best candidates of a beam search step on
  a CUDA device, in three stages: the best of every part of the vocabulary of a beam, the best of every beam, the
  best of every batch entry. Between two barriers the threads of a block only read shared data, so a block is one
  step: the values its threads compute, combined by the block reduction of CUB. That reduction is not code of the
  program; it is the argument \<open>br\<close>, of which only the documented property is used (\<open>block_reduce_ok\<close>). The blocks of
  a launch run in the order of a schedule.
\<close>

section \<open>The best \<open>max_k\<close> candidates\<close>

text \<open>\<open>TopK\<close>: the arrays \<open>value\<close> and \<open>key\<close> of \<open>max_k\<close> elements, as one list of pairs. The key \<open>-1\<close> marks an
  empty slot, whose value is minus infinity (the argument \<open>ninf\<close>).\<close>

type_synonym 'f TopK = "('f \<times> int) list"

text \<open>The test that \<open>Insert\<close> makes between a candidate and the slot it may take.\<close>

definition better :: "'f::linorder \<times> int \<Rightarrow> 'f \<times> int \<Rightarrow> bool" where
  "better a b \<longleftrightarrow> fst b < fst a \<or> snd b = -1 \<or> (fst a = fst b \<and> snd a < snd b)"

definition TopK_swap :: "nat \<Rightarrow> 'f::linorder TopK \<Rightarrow> 'f TopK" where
  "TopK_swap k t = (if better (t ! Suc k) (t ! k) then t[k := t ! Suc k, Suc k := t ! k] else t)"

definition TopK_Insert :: "nat \<Rightarrow> 'f::linorder \<Rightarrow> int \<Rightarrow> 'f TopK \<Rightarrow> 'f TopK" where
  "TopK_Insert max_k elem elem_id t =
     fold TopK_swap (rev [0..<max_k - 1])
       (if better (elem, elem_id) (t ! (max_k - 1)) then t[max_k - 1 := (elem, elem_id)] else t)"

definition TopK_Init :: "nat \<Rightarrow> 'f \<Rightarrow> 'f TopK" where
  "TopK_Init max_k ninf = replicate max_k (ninf, -1)"

definition reduce_topk_op :: "nat \<Rightarrow> 'f::linorder TopK \<Rightarrow> 'f TopK \<Rightarrow> 'f TopK" where
  "reduce_topk_op max_k a b = fold (\<lambda>i. TopK_Insert max_k (fst (b ! i)) (snd (b ! i))) [0..<max_k] a"

section \<open>Blocks\<close>

text \<open>\<open>for (int i = a; i < b; i += s)\<close>: the values of \<open>i\<close>.\<close>

function strided :: "nat \<Rightarrow> nat \<Rightarrow> nat \<Rightarrow> nat list" where
  "strided a b s = (if a < b \<and> 0 < s then a # strided (a + s) b s else [])"
  by pat_completeness auto
termination by (relation "measure (\<lambda>(a, b, s). b - a)") auto

declare strided.simps [simp del]

text \<open>One step per block; the coordinates of the block with a given number.\<close>

definition launch_blocks :: "schedule \<Rightarrow> dim3 \<Rightarrow> (nat \<Rightarrow> nat \<Rightarrow> 's \<Rightarrow> 's res) \<Rightarrow> 's \<Rightarrow> 's res" where
  "launch_blocks sched grid body =
     for_res (\<lambda>b. body (b mod dim_x grid) (b div dim_x grid)) (sched [0..<dim_x grid * dim_y grid])"

text \<open>\<open>cub::BlockReduce\<close>: the values of the threads, combined two at a time in some way.\<close>

type_synonym 'a block_reduce = "('a \<Rightarrow> 'a \<Rightarrow> 'a) \<Rightarrow> 'a list \<Rightarrow> 'a"

inductive combines :: "('a \<Rightarrow> 'a \<Rightarrow> 'a) \<Rightarrow> 'a list \<Rightarrow> 'a \<Rightarrow> bool" for op where
  combines_leaf: "combines op [x] x"
| combines_node: "combines op xs x \<Longrightarrow> combines op ys y \<Longrightarrow> combines op (xs @ ys) (op x y)"

definition block_reduce_ok :: "'a block_reduce \<Rightarrow> bool" where
  "block_reduce_ok br \<longleftrightarrow> (\<forall>op xs. xs \<noteq> [] \<longrightarrow> combines op xs (br op xs))"

text \<open>What the first thread of a block writes: the first \<open>k\<close> slots, to the values and the keys.\<close>

definition write_top_k :: "nat \<Rightarrow> nat \<Rightarrow> 'f TopK \<Rightarrow> 'f list \<times> int list \<Rightarrow> ('f list \<times> int list) res" where
  "write_top_k k off t =
     for_res (\<lambda>i (values, keys).
       res_bind (get t i) (\<lambda>slot.
       res_bind (put values (off + i) (fst slot)) (\<lambda>values'.
       res_bind (put keys (off + i) (snd slot)) (\<lambda>keys'. Inr (values', keys'))))) [0..<k]"

section \<open>The stages\<close>

definition stage1_thread :: "nat \<Rightarrow> nat \<Rightarrow> 'f::linorder \<Rightarrow> 'f list \<Rightarrow> nat \<Rightarrow> nat \<Rightarrow> nat \<Rightarrow> nat \<Rightarrow> nat \<Rightarrow> 'f TopK res" where
  "stage1_thread max_k block_size ninf input vocab vocab_part_size batch_beam voc_part_id thread_id =
     (let token_id_base = voc_part_id * vocab_part_size in
      for_res (\<lambda>i t.
          if i < vocab then res_bind (get input (batch_beam * vocab + i)) (\<lambda>x. Inr (TopK_Insert max_k x (int i) t)) else Inr t)
        (strided (thread_id + token_id_base) (vocab_part_size + token_id_base) block_size) (TopK_Init max_k ninf))"

definition BeamSearchOnlineTopKStage1Kernel ::
    "'f::linorder TopK block_reduce \<Rightarrow> nat \<Rightarrow> nat \<Rightarrow> 'f \<Rightarrow> 'f list \<Rightarrow> nat \<Rightarrow> nat \<Rightarrow> nat \<Rightarrow> nat \<Rightarrow> nat \<Rightarrow> nat
     \<Rightarrow> 'f list \<times> int list \<Rightarrow> ('f list \<times> int list) res" where
  "BeamSearchOnlineTopKStage1Kernel br max_k block_size ninf input k vocab vocab_part_size grid_y batch_beam voc_part_id out =
     res_bind (map_res (stage1_thread max_k block_size ninf input vocab vocab_part_size batch_beam voc_part_id) [0..<block_size])
       (\<lambda>threads. write_top_k k (batch_beam * grid_y * k + voc_part_id * k) (br (reduce_topk_op max_k) threads) out)"

text \<open>The second stage first copies its input to shared memory (\<open>fresh\<close> gives its contents before that), the
  threads in the order of \<open>sched\<close>.\<close>

definition stage2_load ::
    "schedule \<Rightarrow> nat \<Rightarrow> 'f list \<times> int list \<Rightarrow> nat \<Rightarrow> nat \<Rightarrow> nat \<Rightarrow> 'f list \<times> int list \<Rightarrow> ('f list \<times> int list) res" where
  "stage2_load sched block_size inputs vector_id k parts_per_beam =
     for_res (\<lambda>thread_id. for_res (\<lambda>idx (values, tokens).
         res_bind (get (fst inputs) (vector_id * k * parts_per_beam + idx)) (\<lambda>v.
         res_bind (put values idx v) (\<lambda>values'.
         res_bind (get (snd inputs) (vector_id * k * parts_per_beam + idx)) (\<lambda>t.
         res_bind (put tokens idx t) (\<lambda>tokens'. Inr (values', tokens'))))))
       (strided thread_id (k * parts_per_beam) block_size)) (sched [0..<block_size])"

definition stage2_thread :: "nat \<Rightarrow> 'f::linorder \<Rightarrow> 'f list \<times> int list \<Rightarrow> nat \<Rightarrow> nat \<Rightarrow> nat \<Rightarrow> 'f TopK res" where
  "stage2_thread max_k ninf shared k parts_per_beam thread_id =
     (if thread_id < parts_per_beam then
        for_res (\<lambda>i t.
            res_bind (get (fst shared) (thread_id * k + i)) (\<lambda>v.
            res_bind (get (snd shared) (thread_id * k + i)) (\<lambda>token. Inr (TopK_Insert max_k v token t))))
          [0..<k] (TopK_Init max_k ninf)
      else Inr (TopK_Init max_k ninf))"

definition BeamSearchOnlineTopKStage2Kernel ::
    "'f::linorder TopK block_reduce \<Rightarrow> (nat \<Rightarrow> schedule) \<Rightarrow> (nat \<Rightarrow> 'f) \<times> (nat \<Rightarrow> int) \<Rightarrow> nat \<Rightarrow> nat \<Rightarrow> 'f \<Rightarrow> 'f list \<times> int list
     \<Rightarrow> nat \<Rightarrow> nat \<Rightarrow> nat \<Rightarrow> 'f list \<times> int list \<Rightarrow> ('f list \<times> int list) res" where
  "BeamSearchOnlineTopKStage2Kernel br tsched fresh max_k block_size ninf inputs k parts_per_beam vector_id out =
     res_bind (stage2_load (tsched vector_id) block_size inputs vector_id k parts_per_beam
                 (map (fst fresh) [0..<max_k * parts_per_beam], map (snd fresh) [0..<max_k * parts_per_beam])) (\<lambda>shared.
     res_bind (map_res (stage2_thread max_k ninf shared k parts_per_beam) [0..<block_size]) (\<lambda>threads.
     write_top_k k (vector_id * k) (br (reduce_topk_op max_k) threads) out))"

definition LaunchBeamSearchOnlineTopKStage2Kernel ::
    "'f::linorder TopK block_reduce \<Rightarrow> schedule \<Rightarrow> (nat \<Rightarrow> schedule) \<Rightarrow> (nat \<Rightarrow> 'f) \<times> (nat \<Rightarrow> int) \<Rightarrow> nat \<Rightarrow> 'f
     \<Rightarrow> 'f list \<times> int list \<Rightarrow> nat \<Rightarrow> nat \<Rightarrow> nat \<Rightarrow> 'f list \<times> int list \<Rightarrow> ('f list \<times> int list) res" where
  "LaunchBeamSearchOnlineTopKStage2Kernel br sched tsched fresh max_k ninf inputs batch_beam_size parts_per_beam K =
     (let block_size = (if parts_per_beam \<le> 32 then 32 else if parts_per_beam \<le> 64 then 64 else 128) in
      launch_blocks sched (one_dim\<lparr>dim_x := batch_beam_size\<rparr>)
        (\<lambda>vector_id y. BeamSearchOnlineTopKStage2Kernel br tsched fresh max_k block_size ninf inputs K parts_per_beam vector_id))"

text \<open>The vocabulary is cut so that the grid has about 240 blocks.\<close>

definition voc_parts :: "nat \<Rightarrow> nat" where
  "voc_parts batch_beam_size =
     (if batch_beam_size < 256 then min 128 ((240 + batch_beam_size - 1) div batch_beam_size) else 4)"

definition kThreadBlockSize :: "nat \<Rightarrow> nat" where
  "kThreadBlockSize max_k = (if max_k < 16 then if max_k < 8 then 256 else 128 else 64)"

text \<open>Buffers: the pairs of value and key arrays of the two stages.\<close>

definition TopKLauncherMaxK ::
    "'f::linorder TopK block_reduce \<Rightarrow> schedule \<Rightarrow> schedule \<Rightarrow> (nat \<Rightarrow> schedule) \<Rightarrow> (nat \<Rightarrow> 'f) \<times> (nat \<Rightarrow> int) \<Rightarrow> nat \<Rightarrow> 'f
     \<Rightarrow> 'f list \<Rightarrow> nat \<Rightarrow> nat \<Rightarrow> nat \<Rightarrow> 'f list \<times> int list \<Rightarrow> 'f list \<times> int list \<Rightarrow> ('f list \<times> int list) res" where
  "TopKLauncherMaxK br sched1 sched2 tsched fresh max_k ninf input batch_beam_size vocab K tmp out =
     (if batch_beam_size = 0 then Inl DivisionByZero else
      let parts = voc_parts batch_beam_size in
      res_bind (launch_blocks sched1 \<lparr>dim_x = batch_beam_size, dim_y = parts\<rparr>
                  (BeamSearchOnlineTopKStage1Kernel br max_k (kThreadBlockSize max_k) ninf input K vocab
                     ((vocab + parts - 1) div parts) parts) tmp) (\<lambda>tmp'.
      LaunchBeamSearchOnlineTopKStage2Kernel br sched2 tsched fresh max_k ninf tmp' batch_beam_size parts K out))"

text \<open>The third stage runs in the first thread of a block. Outputs: scores, tokens and beam indices.\<close>

definition BatchTopKKernel ::
    "nat \<Rightarrow> 'f::linorder \<Rightarrow> 'f list \<times> int list \<Rightarrow> nat \<Rightarrow> nat \<Rightarrow> nat \<Rightarrow> 'f list \<times> int list \<times> int list
     \<Rightarrow> ('f list \<times> int list \<times> int list) res" where
  "BatchTopKKernel max_k ninf topk beams k block_id out =
     (let index_block = block_id * beams * k; index_next = block_id * k in
      res_bind (for_res (\<lambda>i t. res_bind (get (fst topk) (index_block + i)) (\<lambda>x. Inr (TopK_Insert max_k x (int (index_block + i)) t)))
                  [0..<beams * k] (TopK_Init max_k ninf)) (\<lambda>thread_topk.
      for_res (\<lambda>i (scores, tokens, indices).
          res_bind (get thread_topk i) (\<lambda>slot.
          res_bind (index_of (snd slot)) (\<lambda>pos.
          res_bind (get (snd topk) pos) (\<lambda>token.
          res_bind (put tokens (index_next + i) token) (\<lambda>tokens'.
          res_bind (put indices (index_next + i) ((snd slot - int index_block) div int k)) (\<lambda>indices'.
          res_bind (put scores (index_next + i) (fst slot)) (\<lambda>scores'.
          Inr (scores', tokens', indices'))))))))
        [0..<k] out))"

text \<open>The instances of the templates: the smallest capacity that holds \<open>k\<close>, at most 64.\<close>

definition max_k_for :: "nat \<Rightarrow> nat" where
  "max_k_for k = (if k \<le> 4 then 4 else if k \<le> 8 then 8 else if k \<le> 16 then 16 else if k \<le> 32 then 32 else 64)"

definition LaunchBatchTopKKernel ::
    "schedule \<Rightarrow> 'f::linorder \<Rightarrow> 'f list \<times> int list \<Rightarrow> nat \<Rightarrow> nat \<Rightarrow> nat \<Rightarrow> 'f list \<times> int list \<times> int list
     \<Rightarrow> ('f list \<times> int list \<times> int list) res" where
  "LaunchBatchTopKKernel sched ninf topk batches beams k =
     launch_blocks sched (one_dim\<lparr>dim_x := batches\<rparr>) (\<lambda>block_id y. BatchTopKKernel (max_k_for k) ninf topk beams k block_id)"

definition BeamSearchTopK ::
    "'f::linorder TopK block_reduce \<Rightarrow> schedule \<Rightarrow> schedule \<Rightarrow> (nat \<Rightarrow> schedule) \<Rightarrow> schedule \<Rightarrow> (nat \<Rightarrow> 'f) \<times> (nat \<Rightarrow> int) \<Rightarrow> 'f
     \<Rightarrow> 'f list \<Rightarrow> nat \<Rightarrow> nat \<Rightarrow> nat \<Rightarrow> nat \<Rightarrow> 'f list \<times> int list \<Rightarrow> 'f list \<times> int list
     \<Rightarrow> 'f list \<times> int list \<times> int list \<Rightarrow> ('f list \<times> int list \<times> int list) res" where
  "BeamSearchTopK br sched1 sched2 tsched sched3 fresh ninf input batches beams vocab k tmp1 tmp2 out =
     res_bind (TopKLauncherMaxK br sched1 sched2 tsched fresh (max_k_for k) ninf input (batches * beams) vocab k tmp1 tmp2) (\<lambda>tmp2'.
     LaunchBatchTopKKernel sched3 ninf tmp2' batches beams k out)"

section \<open>The specification of a selection\<close>

text \<open>Of two candidates the one with the higher score is first, of equal scores the one with the smaller key. The
  best \<open>n\<close> of a set of candidates are those of a list in this order, no candidate outside of which beats one inside.\<close>

definition beats :: "'f::linorder \<times> int \<Rightarrow> 'f \<times> int \<Rightarrow> bool" where
  "beats a b \<longleftrightarrow> fst b < fst a \<or> (fst a = fst b \<and> snd a < snd b)"

definition is_best :: "nat \<Rightarrow> ('f::linorder \<times> int) set \<Rightarrow> ('f \<times> int) list \<Rightarrow> bool" where
  "is_best n C r \<longleftrightarrow> sorted_wrt beats r \<and> set r \<subseteq> C \<and> length r = min n (card C)
     \<and> (\<forall>x\<in>set r. \<forall>c\<in>C - set r. beats x c)"

lemma beats_trans: "beats a b \<Longrightarrow> beats b c \<Longrightarrow> beats a c"
  by (auto simp: beats_def)

lemma beats_irrefl [simp]: "\<not> beats a a"
  by (simp add: beats_def)

lemma beats_total: "a \<noteq> b \<Longrightarrow> beats a b \<or> beats b a"
  by (auto simp: beats_def prod_eq_iff neq_iff)

lemma beats_asym: "beats a b \<Longrightarrow> \<not> beats b a"
  using beats_trans beats_irrefl by blast

lemma sorted_beats_distinct: "sorted_wrt beats r \<Longrightarrow> distinct r"
  by (induction r) auto

end
