(* ===== verification/CudaTopKLaws.thy ===== *)
theory CudaTopKLaws
  imports CudaTopK
begin

text \<open>
  Correctness of the selection of \<open>CudaTopK\<close>: the slots of a thread hold the best of the candidates it was given, the
  reduction of a block combines them, and the three stages together return the best candidates of every batch entry.
\<close>

section \<open>Inserting into a ranking\<close>

definition ins :: "'f::linorder \<times> int \<Rightarrow> ('f \<times> int) list \<Rightarrow> ('f \<times> int) list" where
  "ins e r = takeWhile (\<lambda>x. \<not> beats e x) r @ e # dropWhile (\<lambda>x. \<not> beats e x) r"

lemma set_ins [simp]: "set (ins e r) = insert e (set r)"
  unfolding ins_def by (metis set_append list.simps(15) takeWhile_dropWhile_id Un_insert_right)

lemma length_ins [simp]: "length (ins e r) = Suc (length r)"
  unfolding ins_def by (metis add_Suc_right length_Cons length_append takeWhile_dropWhile_id)

lemma before_e: "x \<in> set (takeWhile (\<lambda>x. \<not> beats e x) r) \<Longrightarrow> \<not> beats e x"
  by (blast dest: set_takeWhileD)

lemma after_e: "sorted_wrt beats r \<Longrightarrow> x \<in> set (dropWhile (\<lambda>x. \<not> beats e x) r) \<Longrightarrow> beats e x"
  by (induction r) (auto split: if_splits dest: beats_trans)

lemma sorted_wrt_insert:
  assumes "sorted_wrt R (a @ b)" and "\<And>x. x \<in> set a \<Longrightarrow> R x e" and "\<And>x. x \<in> set b \<Longrightarrow> R e x"
  shows "sorted_wrt R (a @ e # b)"
  using assms by (simp add: sorted_wrt_append)

lemma sorted_ins:
  assumes "sorted_wrt beats r" and "e \<notin> set r"
  shows "sorted_wrt beats (ins e r)"
  unfolding ins_def
proof (rule sorted_wrt_insert)
  fix x assume x: "x \<in> set (takeWhile (\<lambda>x. \<not> beats e x) r)"
  then show "beats x e" using before_e [OF x] beats_total [of x e] assms(2) set_takeWhileD [OF x] by auto
qed (use assms(1) after_e in simp_all)

lemma is_best_distinct: "is_best n C r \<Longrightarrow> distinct r"
  by (simp add: is_best_def sorted_beats_distinct)

lemma is_best_all: "is_best n C r \<Longrightarrow> finite C \<Longrightarrow> length r < n \<Longrightarrow> set r = C"
  using is_best_distinct [of n C r] by (intro card_subset_eq) (auto simp: is_best_def distinct_card min_def split: if_splits)

lemma is_best_full: "is_best n C r \<Longrightarrow> finite C \<Longrightarrow> c \<in> C - set r \<Longrightarrow> length r = n"
  using is_best_all [of n C r] by (fastforce simp: is_best_def)

lemma is_best_ins:
  assumes best: "is_best n C r" and fin: "finite C" and e: "e \<notin> C"
  shows "is_best n (insert e C) (take n (ins e r))"
proof -
  let ?P = "\<lambda>x. \<not> beats e x" and ?t = "take n (ins e r)"
  have r: "sorted_wrt beats r" "set r \<subseteq> C" "length r = min n (card C)" "\<forall>x\<in>set r. \<forall>c\<in>C - set r. beats x c"
    using best by (auto simp: is_best_def)
  have srt: "sorted_wrt beats (ins e r)" using r(1,2) e by (intro sorted_ins) auto
  then have split: "\<forall>x\<in>set ?t. \<forall>y\<in>set (drop n (ins e r)). beats x y"
    by (metis append_take_drop_id sorted_wrt_append)
  have sub: "set ?t \<subseteq> insert e (set r)" using set_take_subset [of n "ins e r"] by simp
  have "beats x c" if x: "x \<in> set ?t" and c: "c \<in> insert e C - set ?t" for x c
  proof (cases "c \<in> insert e (set r)")
    case True
    then have "c \<in> set (take n (ins e r) @ drop n (ins e r))" by simp
    then have "c \<in> set (drop n (ins e r))" using c unfolding set_append by blast
    then show ?thesis using split x by blast
  next
    case False
    then have cr: "c \<in> C - set r" using c by auto
    then have n: "length r = n" using is_best_full [OF best fin] by blast
    show ?thesis
    proof (cases "x = e")
      case True
      have "dropWhile ?P r \<noteq> []"
      proof
        assume "dropWhile ?P r = []"
        then have "ins e r = r @ [e]" by (simp add: ins_def)
        then have "e \<in> set r" using x n True by simp
        then show False using r(2) e by blast
      qed
      then obtain y where y: "y \<in> set (dropWhile ?P r)" by (metis list.set_intros(1) neq_Nil_conv)
      then have "beats e y" "y \<in> set r" using after_e [OF r(1)] set_dropWhileD by metis+
      then show ?thesis using r(4) cr True beats_trans by blast
    qed (use x sub r(4) cr in blast)
  qed
  then show ?thesis
    using srt sub r(2,3) fin e by (auto simp: is_best_def sorted_wrt_take min_def)
qed

lemma is_best_take: "is_best n C r \<Longrightarrow> finite C \<Longrightarrow> k \<le> n \<Longrightarrow> is_best k C (take k r)"
proof -
  assume best: "is_best n C r" and fin: "finite C" and kn: "k \<le> n"
  then have r: "sorted_wrt beats r" "set r \<subseteq> C" "length r = min n (card C)" "\<forall>x\<in>set r. \<forall>c\<in>C - set r. beats x c"
    by (auto simp: is_best_def)
  have split: "\<forall>x\<in>set (take k r). \<forall>y\<in>set (drop k r). beats x y"
    using r(1) by (metis append_take_drop_id sorted_wrt_append)
  have "beats x c" if x: "x \<in> set (take k r)" and c: "c \<in> C - set (take k r)" for x c
  proof (cases "c \<in> set r")
    case True
    then have "c \<in> set (take k r @ drop k r)" by simp
    then have "c \<in> set (drop k r)" using c unfolding set_append by blast
    then show ?thesis using split x by blast
  next
    case False
    then show ?thesis using r(4) x c in_set_takeD by fastforce
  qed
  then show ?thesis
    using r kn set_take_subset [of k r] by (auto simp: is_best_def sorted_wrt_take min_def)
qed

text \<open>A set of candidates may be replaced by its best.\<close>

lemma is_best_union:
  assumes b: "is_best n B b" and r: "is_best n (A \<union> set b) r" and fin: "finite A" "finite B"
  shows "is_best n (A \<union> B) r"
proof (cases "set b = B")
  case False
  have bs: "set b \<subseteq> B" "\<forall>x\<in>set b. \<forall>c\<in>B - set b. beats x c" using b by (auto simp: is_best_def)
  obtain c0 where "c0 \<in> B - set b" using False bs by blast
  then have lb: "length b = n" using is_best_full [OF b fin(2)] by blast
  have db: "distinct b" using is_best_distinct [OF b] .
  have rs: "sorted_wrt beats r" "set r \<subseteq> A \<union> set b" "length r = min n (card (A \<union> set b))"
      "\<forall>x\<in>set r. \<forall>c\<in>A \<union> set b - set r. beats x c"
    using r by (auto simp: is_best_def)
  have "n \<le> card (A \<union> set b)" using lb db fin(1) distinct_card [OF db] card_mono [of "A \<union> set b" "set b"] by simp
  then have lr: "length r = n" using rs(3) by simp
  moreover have "n \<le> card (A \<union> B)" using \<open>n \<le> card (A \<union> set b)\<close> card_mono [of "A \<union> B" "A \<union> set b"] fin bs(1) by force
  moreover have "beats x c" if x: "x \<in> set r" and c: "c \<in> A \<union> B - set r" for x c
  proof (cases "c \<in> A \<union> set b")
    case True
    then show ?thesis using rs(4) x c by blast
  next
    case out: False
    then have cB: "c \<in> B - set b" using c by blast
    show ?thesis
    proof (cases "set b \<subseteq> set r")
      case True
      have "distinct r" using is_best_distinct [OF r] .
      then have "set b = set r" using True lb lr db by (intro card_subset_eq) (simp_all add: distinct_card)
      then show ?thesis using bs(2) x cB by blast
    next
      case False
      then obtain y where "y \<in> set b" "y \<notin> set r" by blast
      then show ?thesis using rs(4) x bs(2) cB beats_trans by blast
    qed
  qed
  ultimately show ?thesis using rs(1,2) bs(1) by (auto simp: is_best_def)
qed (use r in simp)

lemma is_best_UN:
  assumes "finite I" and "\<And>i. i \<in> I \<Longrightarrow> is_best n (B i) (b i) \<and> finite (B i)" and "finite A"
    and "is_best n (A \<union> (\<Union>i\<in>I. set (b i))) r"
  shows "is_best n (A \<union> (\<Union>i\<in>I. B i)) r"
  using assms
proof (induction I arbitrary: A rule: finite_induct)
  case (insert j I)
  have j: "is_best n (B j) (b j)" "finite (B j)" using insert.prems(1) by auto
  have "is_best n (A \<union> (\<Union>i\<in>I. set (b i)) \<union> set (b j)) r" using insert.prems(3) by (simp add: Un_ac)
  from is_best_union [OF j(1) this] have "is_best n (A \<union> (\<Union>i\<in>I. set (b i)) \<union> B j) r"
    using insert.prems(2) insert.hyps(1) j(2) by simp
  then have "is_best n (A \<union> B j \<union> (\<Union>i\<in>I. set (b i))) r" by (simp add: Un_ac)
  from insert.IH [OF _ _ this] have "is_best n (A \<union> B j \<union> (\<Union>i\<in>I. B i)) r"
    using insert.prems(1,2) j(2) by simp
  then show ?case by (simp add: Un_ac)
qed simp

lemma is_best_image:
  assumes best: "is_best n C r" and mono: "\<And>a b. a \<in> C \<Longrightarrow> b \<in> C \<Longrightarrow> beats a b \<Longrightarrow> beats (f a) (f b)"
  shows "is_best n (f ` C) (map f r)"
proof -
  have r: "sorted_wrt beats r" "set r \<subseteq> C" "length r = min n (card C)" "\<forall>x\<in>set r. \<forall>c\<in>C - set r. beats x c"
    using best by (auto simp: is_best_def)
  have inj: "inj_on f C"
  proof (rule inj_onI)
    fix a b assume "a \<in> C" "b \<in> C" "f a = f b"
    then show "a = b" using beats_total [of a b] mono [of a b] mono [of b a] beats_irrefl by metis
  qed
  have "sorted_wrt beats (map f r)"
    unfolding sorted_wrt_map using r(1) by (rule sorted_wrt_mono_rel [rotated]) (use mono r(2) in blast)
  moreover have "beats (f x) (f c)" if "x \<in> set r" "c \<in> C" "f c \<notin> f ` set r" for x c
    using that r(2,4) mono by blast
  ultimately show ?thesis using r(2,3) by (auto simp: is_best_def card_image [OF inj])
qed

section \<open>The slots\<close>

text \<open>A candidate in a slot; the empty slots follow the candidates.\<close>

definition candidate :: "'f::linorder \<Rightarrow> 'f \<times> int \<Rightarrow> bool" where
  "candidate ninf c \<longleftrightarrow> ninf < fst c \<and> 0 \<le> snd c"

definition pad :: "'f \<Rightarrow> nat \<Rightarrow> ('f \<times> int) list \<Rightarrow> 'f TopK" where
  "pad ninf n r = r @ replicate (n - length r) (ninf, -1)"

lemma length_pad [simp]: "length r \<le> n \<Longrightarrow> length (pad ninf n r) = n"
  by (simp add: pad_def)

lemma better_candidate: "candidate ninf b \<Longrightarrow> better a b = beats a b"
  by (auto simp: better_def beats_def candidate_def)

lemma better_empty: "better a (ninf, -1)"
  by (simp add: better_def)

lemma empty_not_better: "candidate ninf b \<Longrightarrow> \<not> better (ninf, -1) b"
  by (auto simp: better_def candidate_def)

lemma length_TopK_swap [simp]: "length (TopK_swap k t) = length t"
  by (simp add: TopK_swap_def)

lemma length_swaps [simp]: "length (fold TopK_swap ks t) = length t"
  by (induction ks arbitrary: t) simp_all

lemma length_TopK_Insert [simp]: "length (TopK_Insert n v key t) = length t"
  by (simp add: TopK_Insert_def)

lemma TopK_swap_append: "Suc k < length xs \<Longrightarrow> TopK_swap k (xs @ ys) = TopK_swap k xs @ ys"
  by (simp add: TopK_swap_def nth_append list_update_append)

lemma swaps_append: "\<forall>k\<in>set ks. Suc k < length xs \<Longrightarrow> fold TopK_swap ks (xs @ ys) = fold TopK_swap ks xs @ ys"
  by (induction ks arbitrary: xs) (simp_all add: TopK_swap_append)

text \<open>A pass changes nothing when no slot is better than the one before it.\<close>

definition in_order :: "'f::linorder TopK \<Rightarrow> bool" where
  "in_order t \<longleftrightarrow> (\<forall>k. Suc k < length t \<longrightarrow> \<not> better (t ! Suc k) (t ! k) \<or> t ! Suc k = t ! k)"

lemma in_order_swaps: "in_order t \<Longrightarrow> \<forall>k\<in>set ks. Suc k < length t \<Longrightarrow> fold TopK_swap ks t = t"
proof (induction ks)
  case (Cons k ks)
  then have "TopK_swap k t = t" by (auto simp: TopK_swap_def in_order_def) (metis list_update_id)
  then show ?case using Cons by simp
qed simp

lemma in_order_butlast: "in_order (xs @ [x]) \<Longrightarrow> in_order xs"
  by (auto simp: in_order_def nth_append split: if_splits)

lemma swaps_snoc:
  assumes "in_order xs" and "sorted_wrt (\<lambda>a b. better e a \<longrightarrow> better e b) xs"
  shows "fold TopK_swap (rev [0..<length xs]) (xs @ [e]) = takeWhile (\<lambda>x. \<not> better e x) xs @ e # dropWhile (\<lambda>x. \<not> better e x) xs"
  using assms
proof (induction xs rule: rev_induct)
  case (snoc x xs)
  have xs: "in_order xs" "sorted_wrt (\<lambda>a b. better e a \<longrightarrow> better e b) xs" "\<forall>y\<in>set xs. better e y \<longrightarrow> better e x"
    using snoc.prems in_order_butlast [OF snoc.prems(1)] by (simp_all add: sorted_wrt_append)
  have first: "TopK_swap (length xs) ((xs @ [x]) @ [e]) = (if better e x then (xs @ [e]) @ [x] else (xs @ [x]) @ [e])"
    by (simp add: TopK_swap_def nth_append list_update_append)
  have ix: "\<forall>k\<in>set (rev [0..<length xs]). Suc k < length (xs @ [y])" for y by simp
  show ?case
  proof (cases "better e x")
    case True
    then have "fold TopK_swap (rev [0..<length (xs @ [x])]) ((xs @ [x]) @ [e]) = fold TopK_swap (rev [0..<length xs]) (xs @ [e]) @ [x]"
      using first swaps_append [OF ix, of e "[x]"] by simp
    also have "\<dots> = takeWhile (\<lambda>x. \<not> better e x) xs @ e # dropWhile (\<lambda>x. \<not> better e x) xs @ [x]"
      using snoc.IH [OF xs(1,2)] by simp
    finally show ?thesis using True by (cases "\<forall>y\<in>set xs. \<not> better e y") (auto simp: takeWhile_tail dropWhile_append3)
  next
    case False
    then have "fold TopK_swap (rev [0..<length (xs @ [x])]) ((xs @ [x]) @ [e]) = fold TopK_swap (rev [0..<length xs]) (xs @ [x]) @ [e]"
      using first swaps_append [OF ix, of x "[e]"] by simp
    also have "\<dots> = (xs @ [x]) @ [e]" using in_order_swaps [OF snoc.prems(1) ix [of x]] by simp
    finally show ?thesis using False xs(3) by (simp add: takeWhile_eq_all_conv dropWhile_eq_Nil_conv [THEN iffD2])
  qed
qed simp

lemma in_order_pad:
  assumes "sorted_wrt beats r" and "\<forall>c\<in>set r. candidate ninf c"
  shows "in_order (r @ replicate m (ninf, -1))"
  unfolding in_order_def
proof (intro allI impI)
  let ?t = "r @ replicate m (ninf, -1)"
  fix k assume k: "Suc k < length ?t"
  consider "Suc k < length r" | "Suc k = length r" | "length r \<le> k" by linarith
  then show "\<not> better (?t ! Suc k) (?t ! k) \<or> ?t ! Suc k = ?t ! k"
  proof cases
    case 1
    then have "beats (r ! k) (r ! Suc k)" using assms(1) by (simp add: sorted_wrt_iff_nth_less)
    then have "\<not> beats (r ! Suc k) (r ! k)" by (rule beats_asym)
    then show ?thesis using 1 assms(2) better_candidate [of ninf "r ! k"] by (simp add: nth_append)
  next
    case 2
    then show ?thesis using k assms(2) by (simp add: nth_append empty_not_better)
  next
    case 3
    then show ?thesis using k by (simp add: nth_append)
  qed
qed

lemma better_mono:
  assumes r: "sorted_wrt beats r" "\<forall>c\<in>set r. candidate ninf c"
  shows "sorted_wrt (\<lambda>a b. better e a \<longrightarrow> better e b) (r @ replicate m (ninf, -1))"
proof -
  have "sorted_wrt (\<lambda>a b. better e a \<longrightarrow> better e b) r"
    using r(1) by (rule sorted_wrt_mono_rel [rotated]) (use r(2) better_candidate beats_trans in metis)
  moreover have "sorted_wrt (\<lambda>a b. better e a \<longrightarrow> better e b) (replicate m (ninf, -1))"
    by (induction m) (auto simp: better_empty)
  ultimately show ?thesis by (auto simp: sorted_wrt_append better_empty)
qed

lemma better_while:
  assumes "\<forall>c\<in>set r. candidate ninf c"
  shows "takeWhile (\<lambda>x. \<not> better e x) r = takeWhile (\<lambda>x. \<not> beats e x) r"
    and "dropWhile (\<lambda>x. \<not> better e x) r = dropWhile (\<lambda>x. \<not> beats e x) r"
  using assms by (induction r) (simp_all add: better_candidate [of ninf])

text \<open>\<open>Insert\<close> ranks a candidate and drops the last slot.\<close>

lemma TopK_Insert_candidate:
  assumes n: "0 < n" and r: "sorted_wrt beats r" "\<forall>c\<in>set r. candidate ninf c" "length r \<le> n" and e: "candidate ninf e"
  shows "TopK_Insert n (fst e) (snd e) (pad ninf n r) = pad ninf n (take n (ins e r))"
proof (cases "length r < n")
  case True
  define m where "m = n - length r - 1"
  let ?xs = "r @ replicate m (ninf, -1)" and ?P = "\<lambda>x. \<not> better e x"
  have p: "pad ninf n r = ?xs @ [(ninf, -1)]" using True by (simp add: pad_def m_def replicate_append_same [symmetric])
      (metis Suc_diff_Suc replicate_Suc replicate_app_Cons_same append_Nil2 replicate_append_same)
  have lx: "length ?xs = n - 1" using True by (simp add: m_def)
  have "TopK_Insert n (fst e) (snd e) (pad ninf n r) = fold TopK_swap (rev [0..<length ?xs]) (?xs @ [e])"
    unfolding p TopK_Insert_def using lx better_empty [of e ninf]
    by (simp add: nth_append list_update_append del: append_assoc)
  also have "\<dots> = takeWhile ?P ?xs @ e # dropWhile ?P ?xs"
    by (rule swaps_snoc [OF in_order_pad [OF r(1,2)] better_mono [OF r(1,2)]])
  also have "takeWhile ?P ?xs = takeWhile (\<lambda>x. \<not> beats e x) r"
  proof -
    have "takeWhile ?P ?xs = takeWhile ?P r" using better_empty [of e ninf] by (cases "\<forall>x\<in>set r. ?P x") (auto simp: takeWhile_append1 takeWhile_eq_all_conv [THEN iffD2])
    then show ?thesis using better_while [OF r(2), of e] by simp
  qed
  also have "dropWhile ?P ?xs = dropWhile (\<lambda>x. \<not> beats e x) r @ replicate m (ninf, -1)"
  proof -
    have "dropWhile ?P ?xs = dropWhile ?P r @ replicate m (ninf, -1)"
      using better_empty [of e ninf] by (cases "\<forall>x\<in>set r. ?P x") (auto simp: dropWhile_append1)
    then show ?thesis using better_while [OF r(2), of e] by simp
  qed
  finally have "TopK_Insert n (fst e) (snd e) (pad ninf n r) = ins e r @ replicate m (ninf, -1)" by (simp add: ins_def)
  then show ?thesis using True by (simp add: pad_def m_def)
next
  case False
  then have ln: "length r = n" using r(3) by simp
  then obtain xs l where xl: "r = xs @ [l]" using n by (metis append_butlast_last_id length_0_conv less_not_refl)
  have cl: "candidate ninf l" "\<forall>c\<in>set xs. candidate ninf c" "sorted_wrt beats xs" "\<forall>x\<in>set xs. beats x l" using r xl by (auto simp: sorted_wrt_append)
  have lx: "length xs = n - 1" using ln xl by simp
  have p: "pad ninf n r = xs @ [l]" using ln xl by (simp add: pad_def)
  show ?thesis
  proof (cases "beats e l")
    case True
    have "TopK_Insert n (fst e) (snd e) (pad ninf n r) = fold TopK_swap (rev [0..<length xs]) (xs @ [e])"
      unfolding p TopK_Insert_def using lx True better_candidate [OF cl(1), of e] by (simp add: nth_append list_update_append)
    also have "\<dots> = takeWhile (\<lambda>x. \<not> better e x) xs @ e # dropWhile (\<lambda>x. \<not> better e x) xs"
      using swaps_snoc [of xs e] in_order_pad [OF cl(3,2), of 0] better_mono [OF cl(3,2), of e 0] by simp
    also have "\<dots> = ins e xs" using better_while [OF cl(2), of e] by (simp add: ins_def)
    finally have 1: "TopK_Insert n (fst e) (snd e) (pad ninf n r) = ins e xs" .
    have "ins e r = ins e xs @ [l]" using True xl
      by (cases "\<forall>y\<in>set xs. \<not> beats e y") (auto simp: ins_def takeWhile_tail dropWhile_append3 takeWhile_eq_all_conv [THEN iffD2])
    then have "take n (ins e r) = ins e xs" using lx n by simp
    then show ?thesis using 1 lx n by (simp add: pad_def)
  next
    case False
    have "\<not> beats e x" if "x \<in> set r" for x using that False xl cl(4) beats_trans [of e x l] by auto
    then have "ins e r = r @ [e]" by (simp add: ins_def)
    then have "take n (ins e r) = r" using ln by simp
    moreover have "fold TopK_swap (rev [0..<n - 1]) (xs @ [l]) = xs @ [l]"
      by (rule in_order_swaps) (use in_order_pad [OF r(1,2), of 0] xl lx in auto)
    then have "TopK_Insert n (fst e) (snd e) (pad ninf n r) = xs @ [l]"
      unfolding p TopK_Insert_def using lx n False better_candidate [OF cl(1), of e] by (simp add: nth_append)
    ultimately show ?thesis using ln xl by (simp add: pad_def take_append)
  qed
qed

lemma TopK_Insert_empty:
  assumes n: "0 < n" and r: "sorted_wrt beats r" "\<forall>c\<in>set r. candidate ninf c" "length r \<le> n"
  shows "TopK_Insert n ninf (-1) (pad ninf n r) = pad ninf n r"
proof -
  let ?t = "pad ninf n r"
  have lt: "length ?t = n" using r(3) by simp
  have "(if better (ninf, -1) (?t ! (n - 1)) then ?t[n - 1 := (ninf, -1)] else ?t) = ?t"
  proof (cases "length r = n")
    case True
    then have "?t ! (n - 1) \<in> set r" using n by (simp add: pad_def nth_append)
    then show ?thesis using r(2) empty_not_better by fastforce
  next
    case False
    then have "?t ! (n - 1) = (ninf, -1)" using r(3) n False by (auto simp: pad_def nth_append)
    then show ?thesis by (metis list_update_id)
  qed
  moreover have "fold TopK_swap (rev [0..<n - 1]) ?t = ?t"
    by (rule in_order_swaps) (use in_order_pad [OF r(1,2)] lt in \<open>auto simp: pad_def\<close>)
  ultimately show ?thesis by (simp add: TopK_Insert_def)
qed

section \<open>Threads and blocks\<close>

text \<open>The slots hold the best of a set of candidates.\<close>

definition topk_of :: "'f::linorder \<Rightarrow> nat \<Rightarrow> ('f \<times> int) set \<Rightarrow> 'f TopK \<Rightarrow> bool" where
  "topk_of ninf n C t \<longleftrightarrow> finite C \<and> (\<forall>c\<in>C. candidate ninf c) \<and> (\<exists>r. is_best n C r \<and> t = pad ninf n r)"

lemma topk_of_Init: "topk_of ninf n {} (TopK_Init n ninf)"
  by (simp add: topk_of_def is_best_def TopK_Init_def pad_def)

lemma is_best_length: "is_best n C r \<Longrightarrow> length r \<le> n"
  by (simp add: is_best_def)

lemma topk_of_Insert:
  assumes "0 < n" and t: "topk_of ninf n C t" and e: "candidate ninf e" "e \<notin> C"
  shows "topk_of ninf n (insert e C) (TopK_Insert n (fst e) (snd e) t)"
proof -
  obtain r where r: "is_best n C r" "t = pad ninf n r" and C: "finite C" "\<forall>c\<in>C. candidate ninf c" using t by (auto simp: topk_of_def)
  have "sorted_wrt beats r" "\<forall>c\<in>set r. candidate ninf c" using r(1) C(2) by (auto simp: is_best_def)
  then have "TopK_Insert n (fst e) (snd e) t = pad ninf n (take n (ins e r))"
    using TopK_Insert_candidate [OF assms(1) _ _ is_best_length [OF r(1)] e(1)] r(2) by simp
  then show ?thesis using is_best_ins [OF r(1) C(1) e(2)] C e(1) by (auto simp: topk_of_def)
qed

lemma topk_of_Insert_empty: "0 < n \<Longrightarrow> topk_of ninf n C t \<Longrightarrow> TopK_Insert n ninf (-1) t = t"
  using TopK_Insert_empty [of n] is_best_length [of n C] by (fastforce simp: topk_of_def is_best_def)

text \<open>A loop of insertions; the entries it skips are not candidates.\<close>

lemma insert_loop:
  assumes n: "0 < n" and "topk_of ninf n C t" and "distinct js"
    and "\<And>i t. i \<in> set js \<Longrightarrow> body i t = (if Q i then Inr (TopK_Insert n (fst (e i)) (snd (e i)) t) else Inr t)"
    and "\<And>i. i \<in> set js \<Longrightarrow> Q i \<Longrightarrow> e i \<noteq> (ninf, -1) \<Longrightarrow> candidate ninf (e i) \<and> e i \<notin> C"
    and "inj_on e {i \<in> set js. Q i \<and> e i \<noteq> (ninf, -1)}"
  shows "\<exists>t'. for_res body js t = Inr t' \<and> topk_of ninf n (C \<union> e ` {i \<in> set js. Q i \<and> e i \<noteq> (ninf, -1)}) t'"
  using assms(2-)
proof (induction js arbitrary: C t)
  case (Cons i js)
  let ?real = "Q i \<and> e i \<noteq> (ninf, -1)" and ?J = "{i \<in> set js. Q i \<and> e i \<noteq> (ninf, -1)}"
  define C1 where "C1 = (if ?real then insert (e i) C else C)"
  define t1 where "t1 = (if ?real then TopK_Insert n (fst (e i)) (snd (e i)) t else t)"
  have b: "body i t = Inr t1"
    using Cons.prems(3) [of i t] topk_of_Insert_empty [OF n Cons.prems(1)] by (cases "e i = (ninf, -1)") (auto simp: t1_def)
  have t1: "topk_of ninf n C1 t1" using topk_of_Insert [OF n Cons.prems(1)] Cons.prems(1) Cons.prems(4) [of i] by (auto simp: C1_def t1_def)
  have other: "e j \<notin> C1" if j: "j \<in> ?J" for j
  proof -
    have "e j \<notin> C" "j \<noteq> i" using Cons.prems(4) [of j] j Cons.prems(2) by auto
    moreover have "e j \<noteq> e i" if ?real using inj_onD [OF Cons.prems(5), of j i] that j \<open>j \<noteq> i\<close> by auto
    ultimately show ?thesis by (auto simp: C1_def)
  qed
  have "\<exists>t'. for_res body js t1 = Inr t' \<and> topk_of ninf n (C1 \<union> e ` ?J) t'"
  proof (rule Cons.IH [OF t1])
    show "distinct js" using Cons.prems(2) by simp
    show "inj_on e ?J" using Cons.prems(5) by (rule inj_on_subset) auto
    show "body j t = (if Q j then Inr (TopK_Insert n (fst (e j)) (snd (e j)) t) else Inr t)" if "j \<in> set js" for j t
      using Cons.prems(3) that by simp
    show "candidate ninf (e j) \<and> e j \<notin> C1" if "j \<in> set js" "Q j" "e j \<noteq> (ninf, -1)" for j
      using Cons.prems(4) [of j] other [of j] that by simp
  qed
  moreover have "C1 \<union> e ` ?J = C \<union> e ` {j \<in> set (i # js). Q j \<and> e j \<noteq> (ninf, -1)}" by (auto simp: C1_def)
  ultimately show ?case using b by auto
qed simp

lemma fold_as_for_res: "for_res (\<lambda>i s. Inr (f i s)) js s = Inr (fold f js s)"
  by (induction js arbitrary: s) simp_all

text \<open>Inserting the slots of another ranking.\<close>

lemma insert_padded:
  assumes n: "0 < n" and a: "topk_of ninf n A a" and r: "distinct r" "\<forall>c\<in>set r. candidate ninf c" "set r \<inter> A = {}" "length r \<le> k"
    and body: "\<And>i t. i < k \<Longrightarrow> body i t = Inr (TopK_Insert n (fst (pad ninf k r ! i)) (snd (pad ninf k r ! i)) t)"
  shows "\<exists>t. for_res body [0..<k] a = Inr t \<and> topk_of ninf n (A \<union> set r) t"
proof -
  let ?e = "\<lambda>i. pad ninf k r ! i" and ?J = "{i \<in> set [0..<k]. True \<and> pad ninf k r ! i \<noteq> (ninf, -1)}"
  have nth: "?e i = (if i < length r then r ! i else (ninf, -1))" if "i < k" for i using that r(4) by (simp add: pad_def nth_append)
  have real: "r ! i \<noteq> (ninf, -1)" if "i < length r" for i using that r(2) nth_mem [OF that] by (force simp: candidate_def)
  have J: "?J = {..<length r}" using nth real r(4) by (auto split: if_splits)
  have "\<exists>t. for_res body [0..<k] a = Inr t \<and> topk_of ninf n (A \<union> ?e ` ?J) t"
  proof (rule insert_loop [OF n a])
    show "candidate ninf (?e i) \<and> ?e i \<notin> A" if "i \<in> set [0..<k]" "?e i \<noteq> (ninf, -1)" for i
    proof -
      have "i < length r" using that nth [of i] by (auto split: if_splits)
      then have "?e i \<in> set r" using nth [of i] that(1) by auto
      then show ?thesis using r(2,3) by auto
    qed
    show "inj_on ?e ?J" unfolding J using nth r(1,4) by (auto simp: inj_on_def nth_eq_iff_index_eq)
  qed (simp_all add: body)
  moreover have "?e ` ?J = set r" unfolding J using nth r(4) by (auto simp: set_conv_nth image_def)
  ultimately show ?thesis by simp
qed

lemma topk_of_reduce:
  assumes n: "0 < n" and a: "topk_of ninf n A a" and b: "topk_of ninf n B b" and dis: "A \<inter> B = {}"
  shows "topk_of ninf n (A \<union> B) (reduce_topk_op n a b)"
proof -
  obtain r where r: "is_best n B r" "b = pad ninf n r" and B: "finite B" "\<forall>c\<in>B. candidate ninf c" using b by (auto simp: topk_of_def)
  have sub: "length r \<le> n" "set r \<subseteq> B" "distinct r" using r(1) is_best_distinct [OF r(1)] by (auto simp: is_best_def)
  have "\<exists>t. for_res (\<lambda>i s. Inr (TopK_Insert n (fst (b ! i)) (snd (b ! i)) s)) [0..<n] a = Inr t \<and> topk_of ninf n (A \<union> set r) t"
    by (rule insert_padded [OF n a]) (use sub B dis r(2) in auto)
  then have "topk_of ninf n (A \<union> set r) (reduce_topk_op n a b)" by (simp add: fold_as_for_res reduce_topk_op_def)
  then show ?thesis using is_best_union [OF r(1)] a B by (auto simp: topk_of_def)
qed

lemma topk_of_take:
  assumes "topk_of ninf n C t" and "k \<le> n"
  shows "\<exists>r. is_best k C r \<and> take k t = pad ninf k r"
proof -
  obtain r where r: "is_best n C r" "t = pad ninf n r" "finite C" using assms(1) by (auto simp: topk_of_def)
  have "take k t = pad ninf k (take k r)" using r(2) assms(2) by (simp add: pad_def min_def)
  then show ?thesis using is_best_take [OF r(1,3) assms(2)] by blast
qed

lemma topk_of_length: "topk_of ninf n C t \<Longrightarrow> length t = n"
  using is_best_length by (fastforce simp: topk_of_def)

text \<open>The block reduction: the threads have different candidates.\<close>

lemma topk_of_combines:
  assumes "combines (reduce_topk_op n) ts t" and "0 < n" and "list_all2 (topk_of ninf n) Cs ts" and "sorted_wrt (\<lambda>A B. A \<inter> B = {}) Cs"
  shows "topk_of ninf n (\<Union> (set Cs)) t"
  using assms
proof (induction arbitrary: Cs rule: combines.induct)
  case (combines_leaf x)
  then obtain C where "Cs = [C]" "topk_of ninf n C x" by (auto simp: list_all2_Cons2)
  then show ?case by simp
next
  case (combines_node xs x ys y)
  obtain As Bs where Cs: "Cs = As @ Bs" "list_all2 (topk_of ninf n) As xs" "list_all2 (topk_of ninf n) Bs ys"
    using combines_node.prems(2) by (auto simp: list_all2_append2)
  have "sorted_wrt (\<lambda>A B. A \<inter> B = {}) As" "sorted_wrt (\<lambda>A B. A \<inter> B = {}) Bs" and dis: "\<Union> (set As) \<inter> \<Union> (set Bs) = {}"
    using combines_node.prems(3) by (auto simp: Cs sorted_wrt_append)
  then have "topk_of ninf n (\<Union> (set As)) x" "topk_of ninf n (\<Union> (set Bs)) y"
    using combines_node.IH combines_node.prems(1) Cs(2,3) by auto
  from topk_of_reduce [OF combines_node.prems(1) this dis] show ?case by (simp add: Cs)
qed

lemma topk_of_block:
  assumes "block_reduce_ok br" and n: "0 < n" and bs: "0 < bs" and t: "\<And>i. i < bs \<Longrightarrow> topk_of ninf n (C i) (t i)"
    and dis: "\<And>i j. i < bs \<Longrightarrow> j < bs \<Longrightarrow> i \<noteq> j \<Longrightarrow> C i \<inter> C j = {}"
  shows "topk_of ninf n (\<Union>i<bs. C i) (br (reduce_topk_op n) (map t [0..<bs]))"
proof -
  have "combines (reduce_topk_op n) (map t [0..<bs]) (br (reduce_topk_op n) (map t [0..<bs]))"
    using assms(1) bs by (simp add: block_reduce_ok_def)
  moreover have "list_all2 (topk_of ninf n) (map C [0..<bs]) (map t [0..<bs])" using t by (simp add: list_all2_conv_all_nth)
  moreover have "sorted_wrt (\<lambda>A B. A \<inter> B = {}) (map C [0..<bs])" using dis by (simp add: sorted_wrt_iff_nth_less)
  ultimately have "topk_of ninf n (\<Union> (set (map C [0..<bs]))) (br (reduce_topk_op n) (map t [0..<bs]))"
    by (rule topk_of_combines [OF _ n])
  then show ?thesis by (simp add: lessThan_atLeast0)
qed

text \<open>The indices of a strided loop.\<close>

lemma set_strided: "0 < s \<Longrightarrow> set (strided a b s) = {i. a \<le> i \<and> i < b \<and> s dvd (i - a)}"
proof (induction a b s rule: strided.induct)
  case (1 a b s)
  have "a \<le> i \<and> i < b \<and> s dvd (i - a) \<longleftrightarrow> i = a \<or> (a + s \<le> i \<and> i < b \<and> s dvd (i - (a + s)))" if "a < b" for i
  proof (cases "a + s \<le> i")
    case True
    then have "i - a = (i - (a + s)) + s" by simp
    then have "s dvd (i - a) \<longleftrightarrow> s dvd (i - (a + s))" using dvd_add_left_iff [of s s "i - (a + s)"] by simp
    then show ?thesis using True \<open>0 < s\<close> by auto
  next
    case False
    then have "s dvd (i - a) \<longleftrightarrow> i \<le> a" using dvd_imp_le [of s "i - a"] by (cases "a < i") auto
    then show ?thesis using False that by auto
  qed
  then have "{i. a \<le> i \<and> i < b \<and> s dvd (i - a)} = insert a {i. a + s \<le> i \<and> i < b \<and> s dvd (i - (a + s))}" if "a < b"
    using that by (intro set_eqI) simp
  then show ?case using 1 by (cases "a < b") (simp_all add: strided.simps [of a])
qed

lemma distinct_strided: "0 < s \<Longrightarrow> distinct (strided a b s)"
proof (induction a b s rule: strided.induct)
  case (1 a b s)
  then show ?case by (subst strided.simps) (auto simp: set_strided)
qed

lemma strided_of_residue: "i \<in> set (strided (t + base) (m + base) bs) \<longleftrightarrow> base \<le> i \<and> i < base + m \<and> (i - base) mod bs = t"
  if "t < bs"
proof -
  have "t + base \<le> i \<and> bs dvd (i - (t + base)) \<longleftrightarrow> base \<le> i \<and> (i - base) mod bs = t"
  proof (cases "t + base \<le> i")
    case True
    then have "(i - base) mod bs = t \<longleftrightarrow> bs dvd ((i - base) - t)" using that mod_eq_dvd_iff_nat [of t "i - base" bs] by auto
    then show ?thesis using True by (simp add: add.commute)
  next
    case False
    then have "(i - base) mod bs = i - base" using that by simp
    then show ?thesis using False that by auto
  qed
  moreover have "i \<in> set (strided (t + base) (m + base) bs) \<longleftrightarrow> t + base \<le> i \<and> i < m + base \<and> bs dvd (i - (t + base))"
    using that by (subst set_strided) simp_all
  ultimately show ?thesis by (auto simp: add.commute)
qed

section \<open>Writing and reading slots\<close>

text \<open>The \<open>k\<close> slots stored from an offset on.\<close>

definition slots_at :: "nat \<Rightarrow> nat \<Rightarrow> 'f list \<times> int list \<Rightarrow> 'f TopK" where
  "slots_at k off d = map (\<lambda>i. (fst d ! (off + i), snd d ! (off + i))) [0..<k]"

definition arrays_of :: "nat \<Rightarrow> 'f list \<times> int list \<Rightarrow> bool" where
  "arrays_of n d \<longleftrightarrow> length (fst d) = n \<and> length (snd d) = n"

lemma write_top_k_ok:
  assumes "arrays_of n d" and "off + k \<le> n" and "k \<le> length t"
  shows "write_top_k k off t d = Inr (blit (fst d) off (map fst (take k t)), blit (snd d) off (map snd (take k t)))"
  using assms(2,3)
proof (induction k)
  case 0
  then show ?case by (simp add: write_top_k_def)
next
  case (Suc k)
  let ?d = "(blit (fst d) off (map fst (take k t)), blit (snd d) off (map snd (take k t)))"
  have "write_top_k (Suc k) off t d = res_bind (write_top_k k off t d) (\<lambda>(values, keys).
       res_bind (put values (off + k) (fst (t ! k))) (\<lambda>values'.
       res_bind (put keys (off + k) (snd (t ! k))) (\<lambda>keys'. Inr (values', keys'))))"
    using Suc.prems by (simp add: write_top_k_def case_prod_unfold)
  also have "\<dots> = Inr ((fst ?d)[off + k := fst (t ! k)], (snd ?d)[off + k := snd (t ! k)])"
    using Suc assms(1) by (simp add: arrays_of_def)
  also have "(fst ?d)[off + k := fst (t ! k)] = blit (fst d) off (map fst (take (Suc k) t))"
    using blit_snoc [of off "map fst (take k t)" "fst d" "fst (t ! k)"] Suc.prems assms(1) by (simp add: arrays_of_def take_Suc_conv_app_nth)
  also have "(snd ?d)[off + k := snd (t ! k)] = blit (snd d) off (map snd (take (Suc k) t))"
    using blit_snoc [of off "map snd (take k t)" "snd d" "snd (t ! k)"] Suc.prems assms(1) by (simp add: arrays_of_def take_Suc_conv_app_nth)
  finally show ?case .
qed

text \<open>A block writes the slots of its own row and leaves those of the others.\<close>

lemma write_top_k_slots:
  assumes d: "arrays_of n d" and n: "m * k \<le> n" and x: "x < m" and t: "k \<le> length t"
  shows "\<exists>d'. write_top_k k (x * k) t d = Inr d' \<and> arrays_of n d' \<and> slots_at k (x * k) d' = take k t
     \<and> (\<forall>y. y < m \<longrightarrow> y \<noteq> x \<longrightarrow> slots_at k (y * k) d' = slots_at k (y * k) d)"
proof -
  let ?v = "map fst (take k t)" and ?s = "map snd (take k t)"
  have off: "x * k + k \<le> n" using row_bound [OF x, of k k] n by simp
  have len: "length (fst d) = n" "length (snd d) = n" using d by (simp_all add: arrays_of_def)
  have w: "write_top_k k (x * k) t d = Inr (blit (fst d) (x * k) ?v, blit (snd d) (x * k) ?s)"
    using write_top_k_ok [OF d off t] .
  have "slots_at k (x * k) (blit (fst d) (x * k) ?v, blit (snd d) (x * k) ?s) = take k t"
    using t off len by (intro nth_equalityI) (simp_all add: slots_at_def nth_blit)
  moreover have "slots_at k (y * k) (blit (fst d) (x * k) ?v, blit (snd d) (x * k) ?s) = slots_at k (y * k) d" if y: "y < m" "y \<noteq> x" for y
  proof -
    have "\<not> (x * k \<le> y * k + i \<and> y * k + i < x * k + k)" if "i < k" for i
      using row_col [OF that, of y] div_nat_eqI [of k x "y * k + i"] y(2) by (auto simp: mult.commute)
    moreover have "y * k + i < n" if "i < k" for i using row_bound_less [OF y(1) that] n by simp
    ultimately have "y * k + i < n" "\<not> (x * k \<le> y * k + i \<and> y * k + i < x * k + k)" if "i < k" for i using that by blast+
    then show ?thesis using t off len by (intro nth_equalityI) (auto simp: slots_at_def nth_blit)
  qed
  ultimately show ?thesis using w t off len by (simp add: arrays_of_def)
qed

text \<open>Steps that establish one property each and keep those of the others, in any order.\<close>

lemma for_res_each:
  assumes "ok s"
    and "\<And>t s. t \<in> set ts \<Longrightarrow> ok s \<Longrightarrow> \<exists>s'. body t s = Inr s' \<and> ok s' \<and> R t s' \<and> (\<forall>u\<in>set ts. u \<noteq> t \<longrightarrow> R u s \<longrightarrow> R u s')"
  shows "\<exists>s'. for_res body ts s = Inr s' \<and> ok s' \<and> (\<forall>t\<in>set ts. R t s')"
proof -
  have "\<exists>s'. for_res body us s = Inr s' \<and> ok s' \<and> (\<forall>t\<in>set us. R t s')" if "set us \<subseteq> set ts" for us
    using that
  proof (induction us rule: rev_induct)
    case (snoc u us)
    then obtain s1 where s1: "for_res body us s = Inr s1" "ok s1" "\<forall>t\<in>set us. R t s1" by auto
    obtain s2 where "body u s1 = Inr s2" "ok s2" "R u s2" "\<forall>v\<in>set ts. v \<noteq> u \<longrightarrow> R v s1 \<longrightarrow> R v s2"
      using assms(2) [of u s1] s1(2) snoc.prems(1) by auto
    then show ?case using s1 snoc.prems by (cases "u \<in> set us") auto
  qed (use assms(1) in simp)
  then show ?thesis by blast
qed

text \<open>A launch each block of which writes the slots of its own row.\<close>

lemma launch_rows:
  fixes d :: "'f list \<times> int list"
  assumes fair: "fair sched" and d: "arrays_of n d" and n: "m * k \<le> n" and gx: "0 < gx"
    and row: "\<And>x y. x < gx \<Longrightarrow> y < gy \<Longrightarrow> row x y < m"
    and inj: "\<And>x y x' y'. x < gx \<Longrightarrow> y < gy \<Longrightarrow> x' < gx \<Longrightarrow> y' < gy \<Longrightarrow> row x y = row x' y' \<Longrightarrow> x = x' \<and> y = y'"
    and body: "\<And>x y d. x < gx \<Longrightarrow> y < gy \<Longrightarrow> arrays_of n d \<Longrightarrow>
       \<exists>t. body x y d = write_top_k k (row x y * k) t d \<and> k \<le> length t \<and> Q x y (take k t)"
  shows "\<exists>d'. launch_blocks sched \<lparr>dim_x = gx, dim_y = gy\<rparr> body d = Inr d' \<and> arrays_of n d'
     \<and> (\<forall>x<gx. \<forall>y<gy. Q x y (slots_at k (row x y * k) d'))"
proof -
  let ?ts = "sched [0..<gx * gy]" and ?body = "\<lambda>b. body (b mod gx) (b div gx)"
  let ?R = "\<lambda>b d. Q (b mod gx) (b div gx) (slots_at k (row (b mod gx) (b div gx) * k) d)"
  have ts: "set ?ts = {0..<gx * gy}" using fair_set [OF fair] by simp
  have co: "b mod gx < gx" "b div gx < gy" if "b \<in> set ?ts" for b
    using that gx ts by (auto simp: less_mult_imp_div_less mult.commute)
  have "\<exists>d'. for_res ?body ?ts d = Inr d' \<and> arrays_of n d' \<and> (\<forall>b\<in>set ?ts. ?R b d')"
  proof (rule for_res_each [where R = ?R and ok = "arrays_of n", OF d])
    fix b and e :: "'f list \<times> int list" assume b: "b \<in> set ?ts" and e: "arrays_of n e"
    obtain t where t: "?body b e = write_top_k k (row (b mod gx) (b div gx) * k) t e" "k \<le> length t" "Q (b mod gx) (b div gx) (take k t)"
      using body [OF co [OF b] e] by blast
    obtain e' where e': "?body b e = Inr e'" "arrays_of n e'" "slots_at k (row (b mod gx) (b div gx) * k) e' = take k t"
        "\<forall>y. y < m \<longrightarrow> y \<noteq> row (b mod gx) (b div gx) \<longrightarrow> slots_at k (y * k) e' = slots_at k (y * k) e"
      using write_top_k_slots [OF e n row [OF co [OF b]] t(2)] t(1) by auto
    have "?R u e'" if u: "u \<in> set ?ts" "u \<noteq> b" "?R u e" for u
    proof -
      have "row (u mod gx) (u div gx) \<noteq> row (b mod gx) (b div gx)"
        using inj [OF co [OF u(1)] co [OF b]] u(2) by (metis div_mult_mod_eq)
      then show ?thesis using e'(4) row [OF co [OF u(1)]] u(3) by simp
    qed
    then show "\<exists>e'. ?body b e = Inr e' \<and> arrays_of n e' \<and> ?R b e' \<and> (\<forall>u\<in>set ?ts. u \<noteq> b \<longrightarrow> ?R u e \<longrightarrow> ?R u e')"
      using e'(1-3) t(3) by auto
  qed
  then obtain d' where d': "for_res ?body ?ts d = Inr d'" "arrays_of n d'" "\<forall>b\<in>set ?ts. ?R b d'" by blast
  have "Q x y (slots_at k (row x y * k) d')" if "x < gx" "y < gy" for x y
  proof -
    have "y * gx + x \<in> set ?ts" unfolding ts using row_bound_less [OF that(2,1)] by (simp add: mult.commute)
    then show ?thesis using d'(3) row_col [OF that(1), of y] by fastforce
  qed
  then show ?thesis using d'(1,2) by (auto simp: launch_blocks_def)
qed

end
