(* ===== verification/CudaSelect.thy ===== *)
theory CudaSelect
  imports CudaTopKLaws
begin

text \<open>
  The three stages of the selection: what every launch leaves in its output arrays, and the theorem on
  \<open>BeamSearchTopK\<close>.
\<close>

section \<open>A block\<close>

lemma block_threads:
  assumes br: "block_reduce_ok br" and n: "0 < n" and bs: "0 < bs"
    and thread: "\<And>i. i < bs \<Longrightarrow> \<exists>t. thread i = Inr t \<and> topk_of ninf n (C i) t"
    and dis: "\<And>i j. i < bs \<Longrightarrow> j < bs \<Longrightarrow> i \<noteq> j \<Longrightarrow> C i \<inter> C j = {}"
  shows "\<exists>ts. map_res thread [0..<bs] = Inr ts \<and> topk_of ninf n (\<Union>i<bs. C i) (br (reduce_topk_op n) ts)"
proof -
  have "\<forall>i. \<exists>t. i < bs \<longrightarrow> thread i = Inr t \<and> topk_of ninf n (C i) t" using thread by blast
  then obtain f where f: "\<forall>i. i < bs \<longrightarrow> thread i = Inr (f i) \<and> topk_of ninf n (C i) (f i)" by metis
  have "map_res thread [0..<bs] = Inr (map f [0..<bs])" using map_res_map [of "[0..<bs]" thread "\<lambda>i. i" f] f by simp
  moreover have "topk_of ninf n (\<Union>i<bs. C i) (br (reduce_topk_op n) (map f [0..<bs]))"
    using topk_of_block [OF br n bs, of ninf C f] f dis by blast
  ultimately show ?thesis by blast
qed

section \<open>First stage\<close>

text \<open>The candidate of a token in a row of scores.\<close>

definition row_cand :: "'f list \<Rightarrow> nat \<Rightarrow> nat \<Rightarrow> nat \<Rightarrow> 'f \<times> int" where
  "row_cand input vocab bb i = (input ! (bb * vocab + i), int i)"

lemma inj_row_cand: "inj_on (row_cand input vocab bb) I"
  by (auto simp: inj_on_def row_cand_def)

lemma row_cand_disjoint: "I \<inter> J = {} \<Longrightarrow> row_cand input vocab bb ` I \<inter> row_cand input vocab bb ` J = {}"
  by (auto simp: row_cand_def)

text \<open>The tokens of a part of the vocabulary.\<close>

definition part_tokens :: "nat \<Rightarrow> nat \<Rightarrow> nat \<Rightarrow> nat set" where
  "part_tokens vocab part y = {i. y * part \<le> i \<and> i < y * part + part \<and> i < vocab}"

lemma stage1_thread_ok:
  assumes n: "0 < n" and t: "thread_id < bs" and bb: "bb < h" and input: "length input = h * vocab" "\<forall>x\<in>set input. ninf < x"
  shows "\<exists>t. stage1_thread n bs ninf input vocab part bb y thread_id = Inr t
     \<and> topk_of ninf n (row_cand input vocab bb ` {i \<in> part_tokens vocab part y. (i - y * part) mod bs = thread_id}) t"
proof -
  let ?js = "strided (thread_id + y * part) (part + y * part) bs" and ?e = "row_cand input vocab bb"
  have pos: "bb * vocab + i < length input" if "i < vocab" for i using row_bound_less [OF bb that] input(1) by simp
  have "\<exists>t. for_res (\<lambda>i t. if i < vocab then res_bind (get input (bb * vocab + i)) (\<lambda>x. Inr (TopK_Insert n x (int i) t)) else Inr t) ?js (TopK_Init n ninf)
        = Inr t \<and> topk_of ninf n ({} \<union> ?e ` {i \<in> set ?js. i < vocab \<and> ?e i \<noteq> (ninf, -1)}) t"
  proof (rule insert_loop [OF n topk_of_Init])
    show "distinct ?js" using t by (intro distinct_strided) simp
    show "candidate ninf (?e i) \<and> ?e i \<notin> {}" if "i < vocab" for i
      using pos [OF that] input(2) by (simp add: row_cand_def candidate_def)
  qed (use pos in \<open>auto simp: row_cand_def inj_on_def\<close>)
  moreover have "{i \<in> set ?js. i < vocab \<and> ?e i \<noteq> (ninf, -1)} = {i \<in> part_tokens vocab part y. (i - y * part) mod bs = thread_id}"
    using strided_of_residue [OF t] by (auto simp: part_tokens_def row_cand_def)
  ultimately show ?thesis by (simp add: stage1_thread_def Let_def)
qed

lemma stage1_block_ok:
  assumes br: "block_reduce_ok br" and n: "0 < n" "k \<le> n" and bs: "0 < bs" and bb: "bb < h"
    and input: "length input = h * vocab" "\<forall>x\<in>set input. ninf < x"
  shows "\<exists>t r. BeamSearchOnlineTopKStage1Kernel br n bs ninf input k vocab part gy bb y d = write_top_k k ((bb * gy + y) * k) t d
     \<and> k \<le> length t \<and> is_best k (row_cand input vocab bb ` part_tokens vocab part y) r \<and> take k t = pad ninf k r"
proof -
  let ?C = "\<lambda>i. row_cand input vocab bb ` {j \<in> part_tokens vocab part y. (j - y * part) mod bs = i}"
  have "\<exists>ts. map_res (stage1_thread n bs ninf input vocab part bb y) [0..<bs] = Inr ts \<and> topk_of ninf n (\<Union>i<bs. ?C i) (br (reduce_topk_op n) ts)"
    by (rule block_threads [OF br n(1) bs]) (use stage1_thread_ok [OF n(1) _ bb input] in blast, rule row_cand_disjoint, auto)
  then obtain ts where ts: "map_res (stage1_thread n bs ninf input vocab part bb y) [0..<bs] = Inr ts"
      "topk_of ninf n (\<Union>i<bs. ?C i) (br (reduce_topk_op n) ts)" by blast
  have "(\<Union>i<bs. {j \<in> part_tokens vocab part y. (j - y * part) mod bs = i}) = part_tokens vocab part y" using bs by auto
  then have "(\<Union>i<bs. ?C i) = row_cand input vocab bb ` part_tokens vocab part y" by (simp flip: image_UN)
  then obtain r where "is_best k (row_cand input vocab bb ` part_tokens vocab part y) r" "take k (br (reduce_topk_op n) ts) = pad ninf k r"
    using topk_of_take [OF ts(2) n(2)] by auto
  moreover have "bb * gy * k + y * k = (bb * gy + y) * k" by (simp add: algebra_simps)
  ultimately show ?thesis
    using ts(1) topk_of_length [OF ts(2)] n(2)
    by (intro exI [of _ "br (reduce_topk_op n) ts"] exI [of _ r]) (simp add: BeamSearchOnlineTopKStage1Kernel_def)
qed

text \<open>The rows of a grid are numbered one after the other.\<close>

lemma grid_row_inj: "y < gy \<Longrightarrow> y' < gy \<Longrightarrow> x * gy + y = x' * gy + y' \<Longrightarrow> x = x' \<and> y = (y'::nat)"
  using row_col [of y gy x] row_col [of y' gy x'] by metis

lemma stage1_ok:
  assumes br: "block_reduce_ok br" and fair: "fair sched" and n: "0 < n" "k \<le> n" and bs: "0 < bs" and gx: "0 < gx"
    and input: "length input = gx * vocab" "\<forall>x\<in>set input. ninf < x" and d: "arrays_of l d" and m: "gx * gy \<le> m" "m * k \<le> l"
  shows "\<exists>d'. launch_blocks sched \<lparr>dim_x = gx, dim_y = gy\<rparr> (BeamSearchOnlineTopKStage1Kernel br n bs ninf input k vocab part gy) d = Inr d'
     \<and> arrays_of l d' \<and> (\<forall>x<gx. \<forall>y<gy. \<exists>r. is_best k (row_cand input vocab x ` part_tokens vocab part y) r
         \<and> slots_at k ((x * gy + y) * k) d' = pad ninf k r)"
proof (rule launch_rows [OF fair d m(2) gx])
  fix x y assume x: "x < gx" and y: "y < gy"
  show "x * gy + y < m" using row_bound_less [OF x y] m(1) by simp
  show "\<exists>t. BeamSearchOnlineTopKStage1Kernel br n bs ninf input k vocab part gy x y e = write_top_k k ((x * gy + y) * k) t e
     \<and> k \<le> length t \<and> (\<exists>r. is_best k (row_cand input vocab x ` part_tokens vocab part y) r \<and> take k t = pad ninf k r)" for e
    using stage1_block_ok [OF br n bs x input] by blast
qed (use grid_row_inj in blast)

section \<open>Second stage\<close>

lemma for_res_nested: "for_res (\<lambda>t. for_res f (g t)) ts s = for_res f (concat (map g ts)) s"
  by (induction ts arbitrary: s) (simp_all cong: res_bind_cong)

lemma stage2_load_ok:
  fixes inputs d :: "'f list \<times> int list"
  assumes fair: "fair sched" and bs: "0 < bs" and k: "k \<le> n" and d: "arrays_of (n * parts) d"
    and inputs: "arrays_of M inputs" "x * k * parts + k * parts \<le> M"
  shows "\<exists>d'. stage2_load sched bs inputs x k parts d = Inr d' \<and> arrays_of (n * parts) d'
     \<and> (\<forall>i<k * parts. fst d' ! i = fst inputs ! (x * k * parts + i) \<and> snd d' ! i = snd inputs ! (x * k * parts + i))"
proof -
  let ?ts = "concat (map (\<lambda>t. strided t (k * parts) bs) (sched [0..<bs]))"
  let ?R = "\<lambda>i d'. fst d' ! i = fst inputs ! (x * k * parts + i) \<and> snd d' ! i = snd inputs ! (x * k * parts + i)"
  let ?body = "\<lambda>idx (values, tokens).
         res_bind (get (fst inputs) (x * k * parts + idx)) (\<lambda>v.
         res_bind (put values idx v) (\<lambda>values'.
         res_bind (get (snd inputs) (x * k * parts + idx)) (\<lambda>t.
         res_bind (put tokens idx t) (\<lambda>tokens'. Inr (values', tokens')))))"
  have ts: "set ?ts = {..<k * parts}"
  proof -
    have "i \<in> set (strided t (k * parts) bs) \<longleftrightarrow> i < k * parts \<and> i mod bs = t" if "t < bs" for i t
      using strided_of_residue [OF that, of i 0 "k * parts"] by simp
    then show ?thesis using fair_set [OF fair, of "[0..<bs]"] bs by auto
  qed
  have kp: "k * parts \<le> n * parts" using k by simp
  have "\<exists>d'. for_res ?body ?ts d = Inr d' \<and> arrays_of (n * parts) d' \<and> (\<forall>i\<in>set ?ts. ?R i d')"
  proof (rule for_res_each [where ok = "arrays_of (n * parts)" and R = ?R, OF d])
    fix i and e :: "'f list \<times> int list" assume i: "i \<in> set ?ts" and e: "arrays_of (n * parts) e"
    let ?e = "((fst e)[i := fst inputs ! (x * k * parts + i)], (snd e)[i := snd inputs ! (x * k * parts + i)])"
    have il: "i < k * parts" using i unfolding ts by simp
    then have "i < n * parts" using kp by linarith
    with il have "i < length (fst e)" "i < length (snd e)" "x * k * parts + i < length (fst inputs)" "x * k * parts + i < length (snd inputs)"
      using e inputs by (simp_all add: arrays_of_def)
    then have "?body i e = Inr ?e \<and> arrays_of (n * parts) ?e \<and> ?R i ?e" using e by (simp add: case_prod_unfold arrays_of_def)
    moreover have "?R u ?e" if "u \<noteq> i" "?R u e" for u using that by simp
    ultimately show "\<exists>e'. ?body i e = Inr e' \<and> arrays_of (n * parts) e' \<and> ?R i e' \<and> (\<forall>u\<in>set ?ts. u \<noteq> i \<longrightarrow> ?R u e \<longrightarrow> ?R u e')"
      by blast
  qed
  then show ?thesis unfolding ts stage2_load_def for_res_nested by (simp only: Ball_def lessThan_iff)
qed

lemma stage2_thread_ok:
  assumes n: "0 < n" and r: "\<And>p. p < parts \<Longrightarrow> distinct (r p) \<and> (\<forall>c\<in>set (r p). candidate ninf c) \<and> length (r p) \<le> k"
    and d: "arrays_of M d" "k * parts \<le> M" and slots: "\<And>p. p < parts \<Longrightarrow> slots_at k (p * k) d = pad ninf k (r p)"
  shows "\<exists>t. stage2_thread n ninf d k parts i = Inr t \<and> topk_of ninf n (if i < parts then set (r i) else {}) t"
proof (cases "i < parts")
  case True
  have nth: "pad ninf k (r i) ! j = (fst d ! (i * k + j), snd d ! (i * k + j))" if "j < k" for j
    using slots [OF True] that by (simp add: slots_at_def flip: slots [OF True])
  have pos: "i * k + j < M" if "j < k" for j using row_bound_less [OF True that] d(2) by (simp add: mult.commute)
  have "\<exists>t. for_res (\<lambda>j t. res_bind (get (fst d) (i * k + j)) (\<lambda>v. res_bind (get (snd d) (i * k + j)) (\<lambda>token. Inr (TopK_Insert n v token t))))
      [0..<k] (TopK_Init n ninf) = Inr t \<and> topk_of ninf n ({} \<union> set (r i)) t"
    by (rule insert_padded [OF n topk_of_Init]) (use r [OF True] nth pos d(1) in \<open>auto simp: arrays_of_def\<close>)
  then show ?thesis using True by (simp add: stage2_thread_def)
qed (simp add: stage2_thread_def topk_of_Init)

lemma stage2_block_ok:
  assumes br: "block_reduce_ok br" and fair: "fair (tsched x)" and n: "0 < n" "k \<le> n" and bs: "0 < bs" "parts \<le> bs"
    and inputs: "arrays_of M inputs" "(x * parts + parts) * k \<le> M"
    and parts: "\<And>p. p < parts \<Longrightarrow> is_best k (S p) (r p) \<and> finite (S p) \<and> (\<forall>c\<in>S p. candidate ninf c) \<and> slots_at k ((x * parts + p) * k) inputs = pad ninf k (r p)"
    and dis: "\<And>p q. p < parts \<Longrightarrow> q < parts \<Longrightarrow> p \<noteq> q \<Longrightarrow> S p \<inter> S q = {}"
  shows "\<exists>t r. BeamSearchOnlineTopKStage2Kernel br tsched fresh n bs ninf inputs k parts x d = write_top_k k (x * k) t d
     \<and> k \<le> length t \<and> is_best k (\<Union>p<parts. S p) r \<and> take k t = pad ninf k r"
proof -
  let ?C = "\<lambda>i. if i < parts then set (r i) else {}"
  have off: "x * k * parts + k * parts \<le> M" using inputs(2) by (simp add: algebra_simps)
  obtain sh where sh: "stage2_load (tsched x) bs inputs x k parts (map (fst fresh) [0..<n * parts], map (snd fresh) [0..<n * parts]) = Inr sh"
      "arrays_of (n * parts) sh" "\<forall>i<k * parts. fst sh ! i = fst inputs ! (x * k * parts + i) \<and> snd sh ! i = snd inputs ! (x * k * parts + i)"
    using stage2_load_ok [OF fair bs(1) n(2) _ inputs(1) off, of "(map (fst fresh) [0..<n * parts], map (snd fresh) [0..<n * parts])"]
    by (auto simp: arrays_of_def)
  have slots: "slots_at k (p * k) sh = pad ninf k (r p)" if p: "p < parts" for p
  proof -
    have "p * k + j < k * parts" if "j < k" for j using row_bound_less [OF p that] by (simp add: algebra_simps)
    moreover have "x * k * parts + (p * k + j) = (x * parts + p) * k + j" for j by (simp add: algebra_simps)
    ultimately have "slots_at k (p * k) sh = slots_at k ((x * parts + p) * k) inputs"
      using sh(3) by (intro nth_equalityI) (simp_all add: slots_at_def flip: add.assoc)
    then show ?thesis using parts [OF p] by simp
  qed
  have rp: "distinct (r p) \<and> (\<forall>c\<in>set (r p). candidate ninf c) \<and> length (r p) \<le> k" if "p < parts" for p
    using parts [OF that] is_best_distinct [of k "S p" "r p"] by (auto simp: is_best_def)
  have kp: "k * parts \<le> n * parts" using n(2) by simp
  have "\<exists>ts. map_res (stage2_thread n ninf sh k parts) [0..<bs] = Inr ts \<and> topk_of ninf n (\<Union>i<bs. ?C i) (br (reduce_topk_op n) ts)"
  proof (rule block_threads [OF br n(1) bs(1)])
    show "\<exists>t. stage2_thread n ninf sh k parts i = Inr t \<and> topk_of ninf n (?C i) t" for i
      using stage2_thread_ok [OF n(1) rp sh(2) kp slots] .
    show "?C i \<inter> ?C j = {}" if "i \<noteq> j" for i j
    proof -
      have "set (r p) \<subseteq> S p" if "p < parts" for p using parts [OF that] by (simp add: is_best_def)
      then show ?thesis using dis [of i j] \<open>i \<noteq> j\<close> by (auto split: if_splits)
    qed
  qed
  then obtain ts where ts: "map_res (stage2_thread n ninf sh k parts) [0..<bs] = Inr ts" "topk_of ninf n (\<Union>i<bs. ?C i) (br (reduce_topk_op n) ts)" by blast
  have "(\<Union>i<bs. ?C i) = (\<Union>p<parts. set (r p))" using bs(2) by (auto split: if_splits) (metis IntI lessThan_iff mem_Collect_eq order_less_le_trans)
  then obtain r' where r': "is_best k (\<Union>p<parts. set (r p)) r'" "take k (br (reduce_topk_op n) ts) = pad ninf k r'"
    using topk_of_take [OF ts(2) n(2)] by auto
  have "is_best k ({} \<union> (\<Union>p\<in>{..<parts}. S p)) r'" by (rule is_best_UN [where b = r]) (use parts r'(1) in simp_all)
  then show ?thesis
    using sh(1) ts(1) topk_of_length [OF ts(2)] n(2) r'(2)
    by (intro exI [of _ "br (reduce_topk_op n) ts"] exI [of _ r']) (simp add: BeamSearchOnlineTopKStage2Kernel_def)
qed

section \<open>The first two stages\<close>

lemma voc_parts_bounds: "0 < n \<Longrightarrow> 0 < voc_parts n" "voc_parts n \<le> 128"
  by (simp_all add: voc_parts_def div_greater_zero_iff)

lemma kThreadBlockSize_pos: "0 < kThreadBlockSize n"
  by (simp add: kThreadBlockSize_def)

lemma part_tokens_disjoint:
  assumes "p \<noteq> q"
  shows "part_tokens vocab part p \<inter> part_tokens vocab part q = {}"
proof -
  have "i div part = p" if "i \<in> part_tokens vocab part p" for i p
    using that div_nat_eqI [of part p i] by (simp add: part_tokens_def mult.commute)
  then show ?thesis using assms by blast
qed

lemma part_tokens_cover:
  assumes "0 < parts"
  shows "(\<Union>p<parts. part_tokens vocab ((vocab + parts - 1) div parts) p) = {..<vocab}"
proof -
  let ?w = "(vocab + parts - 1) div parts"
  have w: "vocab \<le> ?w * parts" using ceil_div_covers [OF assms] by simp
  have "\<exists>p<parts. i \<in> part_tokens vocab ?w p" if i: "i < vocab" for i
  proof -
    have wp: "0 < ?w" using i w by (cases ?w) auto
    have "i < parts * ?w" using i w by (simp add: mult.commute)
    then have "i div ?w < parts" by (simp add: less_mult_imp_div_less)
    moreover have "i div ?w * ?w \<le> i" "i < i div ?w * ?w + ?w"
      using div_mult_mod_eq [of i ?w] mod_less_divisor [OF wp, of i] by linarith+
    ultimately show ?thesis using i unfolding part_tokens_def by blast
  qed
  then show ?thesis by (auto simp: part_tokens_def)
qed

lemma finite_part_tokens: "finite (part_tokens vocab part p)"
  by (rule finite_subset [of _ "{..<vocab}"]) (auto simp: part_tokens_def)

text \<open>After the second stage every row of the output has the best \<open>k\<close> tokens of a row of scores.\<close>

lemma TopKLauncherMaxK_ok:
  fixes out :: "'f::linorder list \<times> int list"
  assumes br: "block_reduce_ok br" and fair: "fair sched1" "fair sched2" "\<And>x. fair (tsched x)" and n: "0 < n" "k \<le> n" and h: "0 < h"
    and input: "length input = h * vocab" "\<forall>x\<in>set input. ninf < x"
    and tmp: "arrays_of (h * 128 * k) tmp" and out: "arrays_of (h * k) out"
  shows "\<exists>d. TopKLauncherMaxK br sched1 sched2 tsched fresh n ninf input h vocab k tmp out = Inr d \<and> arrays_of (h * k) d
     \<and> (\<forall>x<h. \<exists>r. is_best k (row_cand input vocab x ` {..<vocab}) r \<and> slots_at k (x * k) d = pad ninf k r)"
proof -
  let ?p = "voc_parts h" and ?bs1 = "kThreadBlockSize n"
  let ?w = "(vocab + ?p - 1) div ?p" and ?bs2 = "if ?p \<le> 32 then 32 else if ?p \<le> 64 then 64 else 128 :: nat"
  let ?S = "\<lambda>x y. row_cand input vocab x ` part_tokens vocab ?w y"
  have p: "0 < ?p" "?p \<le> 128" "?p \<le> ?bs2" using voc_parts_bounds(1) [OF h] voc_parts_bounds(2) [of h] by auto
  have hp: "h * ?p \<le> h * 128" using p(2) by simp
  obtain t1 where t1: "launch_blocks sched1 \<lparr>dim_x = h, dim_y = ?p\<rparr> (BeamSearchOnlineTopKStage1Kernel br n ?bs1 ninf input k vocab ?w ?p) tmp = Inr t1"
      "arrays_of (h * 128 * k) t1"
      "\<forall>x<h. \<forall>y<?p. \<exists>r. is_best k (?S x y) r \<and> slots_at k ((x * ?p + y) * k) t1 = pad ninf k r"
    using stage1_ok [OF br fair(1) n kThreadBlockSize_pos h input tmp hp order_refl] by blast
  have cand: "\<forall>c\<in>?S x y. candidate ninf c" if "x < h" for x y
    using row_bound_less [OF that] input by (auto simp: part_tokens_def row_cand_def candidate_def)
  have row: "(\<Union>y<?p. ?S x y) = row_cand input vocab x ` {..<vocab}" for x
    using part_tokens_cover [OF p(1), of vocab] by (metis image_UN)
  have "\<exists>d. launch_blocks sched2 \<lparr>dim_x = h, dim_y = 1\<rparr> (\<lambda>x y. BeamSearchOnlineTopKStage2Kernel br tsched fresh n ?bs2 ninf t1 k ?p x) out = Inr d
     \<and> arrays_of (h * k) d \<and> (\<forall>x<h. \<forall>y<1::nat. \<exists>r. is_best k (row_cand input vocab x ` {..<vocab}) r \<and> slots_at k (x * k) d = pad ninf k r)"
  proof (rule launch_rows [where row = "\<lambda>x y. x" and Q = "\<lambda>x y l. \<exists>r. is_best k (row_cand input vocab x ` {..<vocab}) r \<and> l = pad ninf k r", OF fair(2) out order_refl h])
    fix x y and e :: "'f list \<times> int list" assume x: "x < h"
    have "\<forall>y. \<exists>r. y < ?p \<longrightarrow> is_best k (?S x y) r \<and> slots_at k ((x * ?p + y) * k) t1 = pad ninf k r" using t1(3) x by blast
    then obtain r where r: "\<forall>y. y < ?p \<longrightarrow> is_best k (?S x y) (r y) \<and> slots_at k ((x * ?p + y) * k) t1 = pad ninf k (r y)" by metis
    have "x * ?p + ?p \<le> h * ?p" using row_bound [OF x, of ?p ?p] by simp
    then have "x * ?p + ?p \<le> h * 128" using hp by linarith
    then have "(x * ?p + ?p) * k \<le> h * 128 * k" by (rule mult_le_mono1)
    have "\<exists>t r. BeamSearchOnlineTopKStage2Kernel br tsched fresh n ?bs2 ninf t1 k ?p x e = write_top_k k (x * k) t e
        \<and> k \<le> length t \<and> is_best k (\<Union>y<?p. ?S x y) r \<and> take k t = pad ninf k r"
    proof (rule stage2_block_ok [where r = r, OF br fair(3) n _ p(3) t1(2)])
      show "?S x p \<inter> ?S x q = {}" if "p \<noteq> q" for p q by (rule row_cand_disjoint [OF part_tokens_disjoint [OF that]])
      show "is_best k (?S x p) (r p) \<and> finite (?S x p) \<and> (\<forall>c\<in>?S x p. candidate ninf c) \<and> slots_at k ((x * ?p + p) * k) t1 = pad ninf k (r p)"
        if "p < ?p" for p using r that cand [OF x] finite_part_tokens by blast
    qed (use \<open>(x * ?p + ?p) * k \<le> h * 128 * k\<close> in simp_all)
    then show "\<exists>t. BeamSearchOnlineTopKStage2Kernel br tsched fresh n ?bs2 ninf t1 k ?p x e = write_top_k k (x * k) t e
        \<and> k \<le> length t \<and> (\<exists>r. is_best k (row_cand input vocab x ` {..<vocab}) r \<and> take k t = pad ninf k r)"
      unfolding row by blast
  qed simp_all
  then show ?thesis
    using t1(1) h by (simp add: TopKLauncherMaxK_def LaunchBeamSearchOnlineTopKStage2Kernel_def Let_def one_dim_def)
qed

section \<open>Third stage\<close>

text \<open>The candidate of a position of a batch entry: all rows of its beams, one after the other.\<close>

definition flat_cand :: "'f list \<Rightarrow> nat \<Rightarrow> nat \<Rightarrow> nat \<Rightarrow> 'f \<times> int" where
  "flat_cand input n b i = (input ! (b * n + i), int i)"

definition triples_of :: "nat \<Rightarrow> 'f list \<times> int list \<times> int list \<Rightarrow> bool" where
  "triples_of n d \<longleftrightarrow> length (fst d) = n \<and> length (fst (snd d)) = n \<and> length (snd (snd d)) = n"

text \<open>The outputs of a batch entry: score, token and beam.\<close>

definition entry_at :: "nat \<Rightarrow> 'f list \<times> int list \<times> int list \<Rightarrow> 'f \<times> int \<times> int" where
  "entry_at i d = (fst d ! i, fst (snd d) ! i, snd (snd d) ! i)"

definition shift_cand :: "nat \<Rightarrow> nat \<Rightarrow> 'f \<times> int \<Rightarrow> 'f \<times> int" where
  "shift_cand vocab beam c = (fst c, int (beam * vocab) + snd c)"

lemma beats_shift: "beats a b \<Longrightarrow> beats (shift_cand vocab beam a) (shift_cand vocab beam b)"
  by (simp add: beats_def shift_cand_def)

lemma is_best_shift: "is_best n C r \<Longrightarrow> is_best n (shift_cand vocab beam ` C) (map (shift_cand vocab beam) r)"
  by (erule is_best_image, erule beats_shift)

lemma flat_cands:
  "flat_cand input (beams * vocab) b ` {..<beams * vocab} =
   (\<Union>beam<beams. shift_cand vocab beam ` row_cand input vocab (b * beams + beam) ` {..<vocab})"
proof -
  have "shift_cand vocab beam (row_cand input vocab (b * beams + beam) i) = flat_cand input (beams * vocab) b (beam * vocab + i)" for beam i
    by (simp add: shift_cand_def row_cand_def flat_cand_def algebra_simps)
  then have "(\<Union>beam<beams. shift_cand vocab beam ` row_cand input vocab (b * beams + beam) ` {..<vocab})
      = (\<Union>beam<beams. (\<lambda>i. flat_cand input (beams * vocab) b (beam * vocab + i)) ` {..<vocab})" by (simp add: image_image)
  also have "\<dots> = flat_cand input (beams * vocab) b ` (\<Union>beam<beams. (\<lambda>i. beam * vocab + i) ` {..<vocab})"
    by (simp add: image_UN image_image)
  also have "(\<Union>beam<beams. (\<lambda>i. beam * vocab + i) ` {..<vocab}) = {..<beams * vocab}"
  proof (intro equalityI subsetI)
    fix i assume "i \<in> {..<beams * vocab}"
    then have i: "i < beams * vocab" by simp
    then have "0 < vocab" by (cases vocab) auto
    then have "i div vocab < beams" "i mod vocab < vocab" "i = i div vocab * vocab + i mod vocab" using i by (simp_all add: less_mult_imp_div_less)
    then show "i \<in> (\<Union>beam<beams. (\<lambda>i. beam * vocab + i) ` {..<vocab})" by blast
  qed (use row_bound_less in auto)
  finally show ?thesis by simp
qed

text \<open>The last loop of the kernel.\<close>

lemma write_entries_ok:
  fixes d :: "'f list \<times> int list \<times> int list"
  assumes d: "triples_of n d" and off: "off + k \<le> n" and t: "k \<le> length t"
    and key: "\<And>i. i < k \<Longrightarrow> 0 \<le> snd (t ! i) \<and> nat (snd (t ! i)) < length tokens"
  shows "\<exists>d'. for_res (\<lambda>i (scores, toks, indices).
          res_bind (get t i) (\<lambda>slot.
          res_bind (index_of (snd slot)) (\<lambda>pos.
          res_bind (get tokens pos) (\<lambda>token.
          res_bind (put toks (off + i) token) (\<lambda>toks'.
          res_bind (put indices (off + i) (f slot)) (\<lambda>indices'.
          res_bind (put scores (off + i) (fst slot)) (\<lambda>scores'.
          Inr (scores', toks', indices')))))))) [0..<k] d = Inr d' \<and> triples_of n d'
     \<and> (\<forall>i<k. entry_at (off + i) d' = (fst (t ! i), tokens ! nat (snd (t ! i)), f (t ! i)))
     \<and> (\<forall>j. j < off \<or> off + k \<le> j \<longrightarrow> entry_at j d' = entry_at j d)"
  (is "\<exists>d'. for_res ?body _ _ = _ \<and> _")
proof -
  let ?I = "\<lambda>m d'. triples_of n d' \<and> (\<forall>i<m. entry_at (off + i) d' = (fst (t ! i), tokens ! nat (snd (t ! i)), f (t ! i)))
     \<and> (\<forall>j. j < off \<or> off + k \<le> j \<longrightarrow> entry_at j d' = entry_at j d)"
  have "\<exists>d'. for_res ?body [0..<k] d = Inr d' \<and> ?I k d'"
  proof (rule for_res_upt_rule [where I = ?I])
    fix i and e :: "'f list \<times> int list \<times> int list" assume i: "i < k" and e: "?I i e"
    let ?e = "((fst e)[off + i := fst (t ! i)], (fst (snd e))[off + i := tokens ! nat (snd (t ! i))], (snd (snd e))[off + i := f (t ! i)])"
    have len: "off + i < length (fst e)" "off + i < length (fst (snd e))" "off + i < length (snd (snd e))" using e i off by (auto simp: triples_of_def)
    have "?body i e = Inr ?e" using len key [OF i] i t by (simp add: case_prod_unfold)
    moreover have "?I (Suc i) ?e" using e len i by (auto simp: entry_at_def triples_of_def less_Suc_eq)
    ultimately show "\<exists>e'. ?body i e = Inr e' \<and> ?I (Suc i) e'" by blast
  qed (use d in simp)
  then show ?thesis by blast
qed

text \<open>The outputs of a batch entry are its best \<open>k\<close> candidates, the position of a candidate written as beam and token.\<close>

definition entry_ok :: "'f::linorder list \<Rightarrow> nat \<Rightarrow> nat \<Rightarrow> nat \<Rightarrow> nat \<Rightarrow> 'f list \<times> int list \<times> int list \<Rightarrow> bool" where
  "entry_ok input beams vocab k b d \<longleftrightarrow>
     is_best k (flat_cand input (beams * vocab) b ` {..<beams * vocab})
       (map (\<lambda>i. let (v, token, beam) = entry_at (b * k + i) d in (v, beam * int vocab + token)) [0..<k])
     \<and> (\<forall>i<k. let (v, token, beam) = entry_at (b * k + i) d in 0 \<le> token \<and> token < int vocab \<and> 0 \<le> beam \<and> beam < int beams)"

text \<open>Candidates that are numbered by their position in the rows of a batch entry are in the order of the flat row.\<close>

lemma positions_mono:
  assumes srt: "\<And>x. x < beams \<Longrightarrow> sorted_wrt beats (r x) \<and> length (r x) = k \<and> (\<forall>c\<in>set (r x). 0 \<le> snd c \<and> snd c < int vocab)"
    and q: "q < beams * k" and q': "q' < beams * k"
    and beats: "beats (fst (r (q div k) ! (q mod k)), int q) (fst (r (q' div k) ! (q' mod k)), int q')"
  shows "beats (shift_cand vocab (q div k) (r (q div k) ! (q mod k))) (shift_cand vocab (q' div k) (r (q' div k) ! (q' mod k)))"
proof -
  let ?c = "r (q div k) ! (q mod k)" and ?c' = "r (q' div k) ! (q' mod k)"
  have k: "0 < k" using q by (cases k) auto
  have div: "q div k < beams" "q' div k < beams" using q q' by (simp_all add: less_mult_imp_div_less)
  have tok: "0 \<le> snd ?c" "snd ?c < int vocab" "0 \<le> snd ?c'" using srt [OF div(1)] srt [OF div(2)] k by simp_all
  show ?thesis
  proof (cases "fst ?c = fst ?c'")
    case True
    then have less: "q < q'" using beats by (simp add: beats_def)
    then have "q div k \<le> q' div k" by (simp add: div_le_mono)
    then consider "q div k < q' div k" | "q div k = q' div k" by linarith
    then have "int (q div k * vocab) + snd ?c < int (q' div k * vocab) + snd ?c'"
    proof cases
      case 1
      then have "Suc (q div k) * vocab \<le> q' div k * vocab" by (intro mult_le_mono1) simp
      then have "int (q div k * vocab) + int vocab \<le> int (q' div k * vocab)" by (metis add.commute mult_Suc of_nat_add of_nat_mono)
      then show ?thesis using tok by linarith
    next
      case 2
      then have "q mod k < q' mod k" using less div_mult_mod_eq [of q k] div_mult_mod_eq [of q' k] by (metis nat_add_left_cancel_less)
      then have "beats ?c ?c'" using srt [OF div(1)] k 2 by (simp add: sorted_wrt_iff_nth_less)
      then show ?thesis using True 2 by (simp add: beats_def)
    qed
    then show ?thesis using True by (simp add: beats_def shift_cand_def)
  qed (use beats in \<open>simp add: beats_def shift_cand_def\<close>)
qed

lemma is_best_positions:
  assumes row: "\<And>x. x < beams \<Longrightarrow> is_best k (row_cand input vocab (b * beams + x) ` {..<vocab}) (r x) \<and> length (r x) = k"
    and k: "0 < k" and s: "is_best k ((\<lambda>q. (fst (r (q div k) ! (q mod k)), int q)) ` {..<beams * k}) s"
  shows "is_best k (flat_cand input (beams * vocab) b ` {..<beams * vocab})
     (map (\<lambda>c. shift_cand vocab (nat (snd c) div k) (r (nat (snd c) div k) ! (nat (snd c) mod k))) s)"
proof -
  let ?c = "\<lambda>q. r (q div k) ! (q mod k)" and ?f = "\<lambda>c. shift_cand vocab (nat (snd c) div k) (r (nat (snd c) div k) ! (nat (snd c) mod k))"
  have srt: "sorted_wrt beats (r x) \<and> length (r x) = k \<and> (\<forall>c\<in>set (r x). 0 \<le> snd c \<and> snd c < int vocab)" if "x < beams" for x
    using row [OF that] by (auto simp: is_best_def row_cand_def)
  have mono: "beats (?f (fst (?c q), int q)) (?f (fst (?c q'), int q'))"
    if "q < beams * k" "q' < beams * k" "beats (fst (?c q), int q) (fst (?c q'), int q')" for q q'
    using positions_mono [of beams r k vocab, OF srt that] by simp
  let ?P = "(\<lambda>q. (fst (?c q), int q)) ` {..<beams * k}"
  have "is_best k (?f ` ?P) (map ?f s)" by (rule is_best_image [OF s]) (use mono in fast)
  also have "?f ` ?P = (\<lambda>q. shift_cand vocab (q div k) (?c q)) ` {..<beams * k}" by (simp add: image_image)
  also have "\<dots> = {} \<union> (\<Union>x\<in>{..<beams}. set (map (shift_cand vocab x) (r x)))"
  proof (intro equalityI subsetI)
    fix c assume "c \<in> (\<lambda>q. shift_cand vocab (q div k) (?c q)) ` {..<beams * k}"
    then obtain q where q: "q < beams * k" "c = shift_cand vocab (q div k) (?c q)" by auto
    then have "q div k < beams" by (simp add: less_mult_imp_div_less)
    then show "c \<in> {} \<union> (\<Union>x\<in>{..<beams}. set (map (shift_cand vocab x) (r x)))" using q(2) srt k by fastforce
  next
    fix c assume "c \<in> {} \<union> (\<Union>x\<in>{..<beams}. set (map (shift_cand vocab x) (r x)))"
    then obtain x j where x: "x < beams" "j < k" "c = shift_cand vocab x (r x ! j)" using srt by (auto simp: in_set_conv_nth)
    then show "c \<in> (\<lambda>q. shift_cand vocab (q div k) (?c q)) ` {..<beams * k}"
      using row_bound_less [OF x(1,2)] row_col [OF x(2), of x] by (intro image_eqI [of _ _ "x * k + j"]) simp_all
  qed
  finally have pos: "is_best k ({} \<union> (\<Union>x\<in>{..<beams}. set (map (shift_cand vocab x) (r x)))) (map ?f s)" .
  have shifted: "is_best k (shift_cand vocab x ` row_cand input vocab (b * beams + x) ` {..<vocab}) (map (shift_cand vocab x) (r x))" if "x < beams" for x
    using is_best_shift row [OF that] by blast
  from pos have "is_best k ({} \<union> (\<Union>x\<in>{..<beams}. shift_cand vocab x ` row_cand input vocab (b * beams + x) ` {..<vocab})) (map ?f s)"
    by (rule is_best_UN [rotated -1]) (simp_all add: shifted)
  then show ?thesis by (simp add: flat_cands)
qed

lemma BatchTopKKernel_ok:
  fixes d :: "'f::linorder list \<times> int list \<times> int list"
  assumes k: "0 < k" "k \<le> n" and b: "b < batches" and topk: "arrays_of (batches * beams * k) topk" and d: "triples_of (batches * k) d"
    and beams: "0 < beams"
    and row: "\<And>x. x < batches * beams \<Longrightarrow> is_best k (row_cand input vocab x ` {..<vocab}) (slots_at k (x * k) topk)"
    and input: "length input = batches * beams * vocab" "\<forall>x\<in>set input. ninf < x"
  shows "\<exists>d'. BatchTopKKernel n ninf topk beams k b d = Inr d' \<and> triples_of (batches * k) d' \<and> entry_ok input beams vocab k b d'
     \<and> (\<forall>j. j < b * k \<or> b * k + k \<le> j \<longrightarrow> entry_at j d' = entry_at j d)"
proof -
  let ?ib = "b * beams * k"
  define r where "r x = slots_at k ((b * beams + x) * k) topk" for x
  let ?c = "\<lambda>q. r (q div k) ! (q mod k)" and ?e = "\<lambda>q. (fst topk ! (?ib + q), int (?ib + q))"
  have rx: "b * beams + x < batches * beams" if "x < beams" for x using row_bound_less [OF b that] .
  have len: "length (r x) = k" for x by (simp add: r_def slots_at_def)
  have best: "is_best k (row_cand input vocab (b * beams + x) ` {..<vocab}) (r x)" if "x < beams" for x
    using row [OF rx [OF that]] by (simp add: r_def)
  have div: "q div k < beams" if "q < beams * k" for q using that by (simp add: less_mult_imp_div_less)
  have c: "(fst topk ! (?ib + q), snd topk ! (?ib + q)) = ?c q" for q
  proof -
    have "(b * beams + q div k) * k + q mod k = ?ib + (q div k * k + q mod k)" by (simp add: algebra_simps)
    then have "(b * beams + q div k) * k + q mod k = ?ib + q" by (simp only: div_mult_mod_eq)
    then show ?thesis using k(1) by (simp add: r_def slots_at_def)
  qed
  have member: "?c q \<in> row_cand input vocab (b * beams + q div k) ` {..<vocab}" if "q < beams * k" for q
    using best [OF div [OF that]] len [of "q div k"] k(1) by (auto simp: is_best_def)
  have cand: "ninf < fst topk ! (?ib + q)" if q: "q < beams * k" for q
  proof -
    obtain i where "i < vocab" "?c q = row_cand input vocab (b * beams + q div k) i" using member [OF q] by auto
    then have "fst (?c q) \<in> set input" using row_bound_less [OF rx [OF div [OF q]]] input(1) by (simp add: row_cand_def)
    then show ?thesis using input(2) c [of q] by (metis fst_conv)
  qed
  have pos: "?ib + q < batches * beams * k" if "q < beams * k" for q using row_bound_less [OF b that] by (simp add: algebra_simps)
  have "\<exists>t. for_res (\<lambda>i t. res_bind (get (fst topk) (?ib + i)) (\<lambda>x. Inr (TopK_Insert n x (int (?ib + i)) t))) [0..<beams * k] (TopK_Init n ninf) = Inr t
      \<and> topk_of ninf n ({} \<union> ?e ` {i \<in> set [0..<beams * k]. True \<and> ?e i \<noteq> (ninf, -1)}) t"
    by (rule insert_loop [OF _ topk_of_Init]) (use k pos topk cand in \<open>auto simp: arrays_of_def candidate_def inj_on_def\<close>)
  moreover have "?e q \<noteq> (ninf, -1)" if "q < beams * k" for q using cand [OF that] by auto
  then have "{i \<in> set [0..<beams * k]. True \<and> ?e i \<noteq> (ninf, -1)} = {..<beams * k}" by fastforce
  ultimately obtain t where t: "for_res (\<lambda>i t. res_bind (get (fst topk) (?ib + i)) (\<lambda>x. Inr (TopK_Insert n x (int (?ib + i)) t))) [0..<beams * k] (TopK_Init n ninf) = Inr t"
      "topk_of ninf n (?e ` {..<beams * k}) t" by auto
  obtain s where s: "is_best k (?e ` {..<beams * k}) s" "take k t = pad ninf k s" using topk_of_take [OF t(2) k(2)] by blast
  have "card (?e ` {..<beams * k}) = beams * k" by (subst card_image) (auto simp: inj_on_def)
  then have ls: "length s = k" using s(1) beams by (simp add: is_best_def)
  then have st: "t ! i = s ! i" if "i < k" for i using s(2) that by (metis append_Nil2 diff_self_eq_0 nth_take pad_def replicate_0)
  have s_at: "\<exists>q<beams * k. s ! i = ?e q" if "i < k" for i
  proof -
    have "set s \<subseteq> ?e ` {..<beams * k}" using s(1) unfolding is_best_def by blast
    then have "s ! i \<in> ?e ` {..<beams * k}" using nth_mem [of i s] that ls by blast
    then show ?thesis by (simp only: image_iff lessThan_iff Bex_def)
  qed
  let ?entry = "\<lambda>c. (fst c, snd topk ! nat (snd c), (snd c - int ?ib) div int k)"
  have key: "0 \<le> snd (t ! i) \<and> nat (snd (t ! i)) < length (snd topk)" if i: "i < k" for i
  proof -
    obtain q where q: "q < beams * k" "s ! i = ?e q" using s_at [OF i] by blast
    then have "snd (t ! i) = int (?ib + q)" using st [OF i] by simp
    then show ?thesis using pos [OF q(1)] topk by (simp only: arrays_of_def nat_int of_nat_0_le_iff)
  qed
  have lt: "k \<le> length t" using topk_of_length [OF t(2)] k(2) by simp
  have off: "b * k + k \<le> batches * k" using row_bound [OF b, of k k] by simp
  obtain d' where d': "BatchTopKKernel n ninf topk beams k b d = Inr d'" "triples_of (batches * k) d'"
      "\<forall>i<k. entry_at (b * k + i) d' = ?entry (t ! i)" "\<forall>j. j < b * k \<or> b * k + k \<le> j \<longrightarrow> entry_at j d' = entry_at j d"
    using write_entries_ok [OF d off lt key, of "\<lambda>c. (snd c - int ?ib) div int k"] t(1) by (auto simp: BatchTopKKernel_def Let_def)
  let ?g = "\<lambda>c. (fst c, snd c - int ?ib)" and ?F = "\<lambda>c. shift_cand vocab (nat (snd c) div k) (r (nat (snd c) div k) ! (nat (snd c) mod k))"
  have "is_best k (?g ` ?e ` {..<beams * k}) (map ?g s)" by (rule is_best_image [OF s(1)]) (simp add: beats_def)
  moreover have "?g ` ?e ` {..<beams * k} = (\<lambda>q. (fst (?c q), int q)) ` {..<beams * k}" by (simp add: image_image flip: c)
  ultimately have "is_best k ((\<lambda>q. (fst (?c q), int q)) ` {..<beams * k}) (map ?g s)" by metis
  then have flat: "is_best k (flat_cand input (beams * vocab) b ` {..<beams * vocab}) (map ?F (map ?g s))"
    by (rule is_best_positions [rotated -1]) (use best len k(1) in simp_all)
  have entry: "\<exists>q<beams * k. entry_at (b * k + i) d' = (fst (?c q), snd (?c q), int (q div k)) \<and> ?F (?g (s ! i)) = shift_cand vocab (q div k) (?c q)"
    if i: "i < k" for i
  proof -
    obtain q where q: "q < beams * k" "s ! i = ?e q" using s_at [OF i] by blast
    have "entry_at (b * k + i) d' = ?entry (?e q)" using d'(3) i st [OF i] q(2) by simp
    moreover have "nat (snd (?e q)) = ?ib + q" by (simp only: snd_conv nat_int)
    moreover have "(snd (?e q) - int ?ib) div int k = int (q div k)" by (simp add: zdiv_int)
    ultimately have "entry_at (b * k + i) d' = (fst (?c q), snd (?c q), int (q div k))" by (simp flip: c)
    moreover have "?F (?g (s ! i)) = shift_cand vocab (q div k) (?c q)" using q(2) by simp
    ultimately show ?thesis using q(1) by blast
  qed
  have "map (\<lambda>i. let (v, token, beam) = entry_at (b * k + i) d' in (v, beam * int vocab + token)) [0..<k] = map ?F (map ?g s)"
  proof (rule nth_equalityI)
    fix i assume "i < length (map (\<lambda>i. let (v, token, beam) = entry_at (b * k + i) d' in (v, beam * int vocab + token)) [0..<k])"
    then have i: "i < k" by simp
    then show "map (\<lambda>i. let (v, token, beam) = entry_at (b * k + i) d' in (v, beam * int vocab + token)) [0..<k] ! i = map ?F (map ?g s) ! i"
      using entry [OF i] ls by (auto simp: shift_cand_def)
  qed (simp add: ls)
  moreover have "let (v, token, beam) = entry_at (b * k + i) d' in 0 \<le> token \<and> token < int vocab \<and> 0 \<le> beam \<and> beam < int beams" if i: "i < k" for i
  proof -
    obtain q where q: "q < beams * k" "entry_at (b * k + i) d' = (fst (?c q), snd (?c q), int (q div k))" using entry [OF i] by blast
    have "0 \<le> snd (?c q)" "snd (?c q) < int vocab" using member [OF q(1)] by (auto simp: row_cand_def)
    then show ?thesis using q(2) div [OF q(1)] by simp
  qed
  ultimately have "entry_ok input beams vocab k b d'" using flat by (simp add: entry_ok_def)
  then show ?thesis using d' by blast
qed

section \<open>The selection\<close>

lemma max_k_for_bounds: "0 < max_k_for k" "k \<le> 64 \<Longrightarrow> k \<le> max_k_for k"
  by (auto simp: max_k_for_def)

lemma entry_ok_cong:
  assumes "\<And>i. i < k \<Longrightarrow> entry_at (b * k + i) d' = entry_at (b * k + i) d"
  shows "entry_ok input beams vocab k b d' = entry_ok input beams vocab k b d"
proof -
  have "map (\<lambda>i. let (v, token, beam) = entry_at (b * k + i) d' in (v, beam * int vocab + token)) [0..<k]
      = map (\<lambda>i. let (v, token, beam) = entry_at (b * k + i) d in (v, beam * int vocab + token)) [0..<k]"
    using assms by (intro map_cong refl) simp
  then show ?thesis unfolding entry_ok_def by (simp only:) (simp add: assms)
qed

lemma LaunchBatchTopKKernel_ok:
  fixes d :: "'f::linorder list \<times> int list \<times> int list"
  assumes fair: "fair sched" and k: "0 < k" "k \<le> 64" and topk: "arrays_of (batches * beams * k) topk" and d: "triples_of (batches * k) d"
    and beams: "0 < beams" and row: "\<And>x. x < batches * beams \<Longrightarrow> is_best k (row_cand input vocab x ` {..<vocab}) (slots_at k (x * k) topk)"
    and input: "length input = batches * beams * vocab" "\<forall>x\<in>set input. ninf < x"
  shows "\<exists>d'. LaunchBatchTopKKernel sched ninf topk batches beams k d = Inr d' \<and> triples_of (batches * k) d' \<and> (\<forall>b<batches. entry_ok input beams vocab k b d')"
proof -
  let ?ts = "sched [0..<batches]" and ?body = "\<lambda>b. BatchTopKKernel (max_k_for k) ninf topk beams k (b mod batches)"
  have ts: "set ?ts = {0..<batches}" using fair_set [OF fair] by simp
  have "\<exists>d'. for_res ?body ?ts d = Inr d' \<and> triples_of (batches * k) d' \<and> (\<forall>b\<in>set ?ts. entry_ok input beams vocab k b d')"
  proof (rule for_res_each [where R = "entry_ok input beams vocab k" and ok = "triples_of (batches * k)", OF d])
    fix b and e :: "'f list \<times> int list \<times> int list" assume "b \<in> set ?ts" and e: "triples_of (batches * k) e"
    then have b: "b < batches" unfolding ts by simp
    obtain e' where e': "?body b e = Inr e'" "triples_of (batches * k) e'" "entry_ok input beams vocab k b e'"
        "\<forall>j. j < b * k \<or> b * k + k \<le> j \<longrightarrow> entry_at j e' = entry_at j e"
      using BatchTopKKernel_ok [OF k(1) max_k_for_bounds(2) [OF k(2)] b topk e beams row input] b by auto
    have "entry_ok input beams vocab k u e'" if "u \<noteq> b" "entry_ok input beams vocab k u e" for u
    proof -
      have "u * k + i < b * k \<or> b * k + k \<le> u * k + i" if "i < k" for i
      proof (rule ccontr)
        assume "\<not> (u * k + i < b * k \<or> b * k + k \<le> u * k + i)"
        then have "(u * k + i) div k = b" by (intro div_nat_eqI) (auto simp: mult.commute)
        then show False using row_col [OF that, of u] \<open>u \<noteq> b\<close> by simp
      qed
      then show ?thesis using e'(4) that(2) entry_ok_cong [of k u e' e] by blast
    qed
    then show "\<exists>e'. ?body b e = Inr e' \<and> triples_of (batches * k) e' \<and> entry_ok input beams vocab k b e'
        \<and> (\<forall>u\<in>set ?ts. u \<noteq> b \<longrightarrow> entry_ok input beams vocab k u e \<longrightarrow> entry_ok input beams vocab k u e')" using e'(1-3) by blast
  qed
  then show ?thesis unfolding ts by (simp add: LaunchBatchTopKKernel_def launch_blocks_def one_dim_def Ball_def)
qed

lemma BeamSearchTopK_ok:
  fixes out :: "'f::linorder list \<times> int list \<times> int list"
  assumes br: "block_reduce_ok br" and fair: "fair sched1" "fair sched2" "\<And>x. fair (tsched x)" "fair sched3"
    and size: "0 < batches" "0 < beams" "0 < k" "k \<le> 64" "k \<le> vocab"
    and input: "length input = batches * beams * vocab" "\<forall>x\<in>set input. ninf < x"
    and bufs: "arrays_of (batches * beams * 128 * k) tmp1" "arrays_of (batches * beams * k) tmp2" "triples_of (batches * k) out"
  shows "\<exists>d. BeamSearchTopK br sched1 sched2 tsched sched3 fresh ninf input batches beams vocab k tmp1 tmp2 out = Inr d
     \<and> triples_of (batches * k) d \<and> (\<forall>b<batches. entry_ok input beams vocab k b d)"
proof -
  let ?h = "batches * beams"
  obtain t where t: "TopKLauncherMaxK br sched1 sched2 tsched fresh (max_k_for k) ninf input ?h vocab k tmp1 tmp2 = Inr t" "arrays_of (?h * k) t"
      "\<forall>x<?h. \<exists>r. is_best k (row_cand input vocab x ` {..<vocab}) r \<and> slots_at k (x * k) t = pad ninf k r"
    using TopKLauncherMaxK_ok [where fresh = fresh and tsched = tsched and n = "max_k_for k" and h = ?h, OF br fair(1-3) max_k_for_bounds(1) max_k_for_bounds(2) [OF size(4)] _ input bufs(1,2)] size by auto
  have "is_best k (row_cand input vocab x ` {..<vocab}) (slots_at k (x * k) t)" if "x < ?h" for x
  proof -
    obtain r where r: "is_best k (row_cand input vocab x ` {..<vocab}) r" "slots_at k (x * k) t = pad ninf k r" using t(3) \<open>x < ?h\<close> by blast
    have "card (row_cand input vocab x ` {..<vocab}) = vocab" by (simp add: card_image [OF inj_row_cand])
    then have "length r = k" using r(1) size(5) by (simp add: is_best_def)
    then show ?thesis using r by (simp add: pad_def)
  qed
  from LaunchBatchTopKKernel_ok [OF fair(4) size(3,4) t(2) bufs(3) size(2) this input] show ?thesis using t(1) by (simp add: BeamSearchTopK_def)
qed

text \<open>C4. The three-stage selection on the device is a correct top-k selection. For any block reduction that combines
  the values of the threads of a block, under every order of the blocks of the three kernels and of the threads that
  load shared memory, with at most 64 and at most \<open>vocab_size\<close> candidates per entry and no score of minus infinity,
  \<open>BeamSearchTopK\<close> returns, and for every batch entry its outputs are the \<open>k\<close> best of the \<open>num_beams * vocab_size\<close>
  candidates of the entry: best score first, of equal scores the lower beam and then the lower token first, each with
  its token and its beam.\<close>

theorem BeamSearchTopK_correct:
  fixes out :: "'f::linorder list \<times> int list \<times> int list"
  assumes "block_reduce_ok br" and "fair sched1" and "fair sched2" and "\<And>x. fair (tsched x)" and "fair sched3"
    and "0 < batches" and "0 < beams" and "0 < k" and "k \<le> 64" and "k \<le> vocab"
    and "length input = batches * beams * vocab" and "\<forall>x\<in>set input. ninf < x"
    and "arrays_of (batches * beams * 128 * k) tmp1" and "arrays_of (batches * beams * k) tmp2" and "triples_of (batches * k) out"
  shows "\<exists>d. BeamSearchTopK br sched1 sched2 tsched sched3 fresh ninf input batches beams vocab k tmp1 tmp2 out = Inr d
     \<and> triples_of (batches * k) d \<and> (\<forall>b<batches. entry_ok input beams vocab k b d)"
  using assms by (rule BeamSearchTopK_ok)

text \<open>A reduction that combines from the left.\<close>

definition reduce_left :: "'a block_reduce" where
  "reduce_left op xs = foldl op (hd xs) (tl xs)"

lemma reduce_left_ok: "block_reduce_ok reduce_left"
proof -
  have "combines op (x # xs) (foldl op x xs)" for op :: "'a \<Rightarrow> 'a \<Rightarrow> 'a" and x xs
  proof (induction xs rule: rev_induct)
    case Nil
    show ?case by (simp add: combines_leaf)
  next
    case (snoc y ys)
    then show ?case using combines_node [OF snoc combines_leaf [of op y]] by simp
  qed
  then have "combines op xs (reduce_left op xs)" if "xs \<noteq> []" for op :: "'a \<Rightarrow> 'a \<Rightarrow> 'a" and xs
    using that by (cases xs) (simp_all add: reduce_left_def)
  then show ?thesis by (simp add: block_reduce_ok_def)
qed

theorem BeamSearchTopK_correct_witness:
  "\<exists>d. BeamSearchTopK reduce_left rev rev (\<lambda>x. rev) rev (\<lambda>i. 0, \<lambda>i. 0) (-100) [5, 1, 9, 7, 2, 8, 9, 0] 1 2 4 4
      (replicate 1024 0, replicate 1024 0) (replicate 8 0, replicate 8 0) (replicate 4 0, replicate 4 0, replicate 4 0) = Inr d
     \<and> triples_of 4 d \<and> entry_ok [5, 1, 9, 7, 2, 8, 9, 0 :: int] 2 4 4 0 d"
proof -
  let ?in = "[5, 1, 9, 7, 2, 8, 9, 0 :: int]"
  have "\<exists>d. BeamSearchTopK reduce_left rev rev (\<lambda>x. rev) rev (\<lambda>i. 0, \<lambda>i. 0) (-100) ?in 1 2 4 4
      (replicate 1024 0, replicate 1024 0) (replicate 8 0, replicate 8 0) (replicate 4 0, replicate 4 0, replicate 4 0) = Inr d
     \<and> triples_of (1 * 4) d \<and> (\<forall>b<1. entry_ok ?in 2 4 4 b d)"
    by (rule BeamSearchTopK_correct) (simp_all add: reduce_left_ok fair_rev arrays_of_def triples_of_def)
  then show ?thesis by simp
qed

end
