(* ===== verification/CudaSearch.thy ===== *)
theory CudaSearch
  imports CudaSelect BeamSearch
begin

text \<open>
  \<open>src/search_cuda.h\<close>, \<open>src/search_cuda.cpp\<close> and \<open>src/search_cuda.cu\<close>: the state shared by the device searches, the
  kernels that change the scores of a step, the beam search, and what greedy search does after the tokens of a step
  have been sampled (\<open>CudaSampling\<close> has the sampling).
\<close>

section \<open>State\<close>

record ('f, 't) Search_Cuda =
  cs_params :: "('f, 't) GeneratorParams"
  cs_sequences :: Sequences
  cs_sequence_lengths :: "int list"
  cs_next_tokens :: "int list"
  cs_next_token_scores :: "'f list"
  cs_eos_meet :: "bool list"
  cs_done_cpu :: bool

definition Search_Cuda_new :: "(nat \<Rightarrow> int) \<Rightarrow> ('f, 't) GeneratorParams \<Rightarrow> ('f, 't) Search_Cuda res" where
  "Search_Cuda_new fresh p =
     (if num_beams (search p) < 0 then Inl BadAlloc else
      res_bind (Sequences_Cuda_new fresh (input_ids p) (nbatch p) (nbeams p) (nmax_length p)) (\<lambda>q.
      Inr \<lparr>cs_params = p, cs_sequences = q, cs_sequence_lengths = replicate (nat (BatchBeamSize p)) 0, cs_next_tokens = [], cs_next_token_scores = [],
           cs_eos_meet = replicate (nat (BatchBeamSize p)) False, cs_done_cpu = False\<rparr>))"

definition Cuda_SetLogits :: "'f list \<Rightarrow> ('f, 't, 'z) Search_Cuda_scheme \<Rightarrow> ('f, 't, 'z) Search_Cuda_scheme" where
  "Cuda_SetLogits logits s = s\<lparr>cs_next_token_scores := logits\<rparr>"

definition Cuda_GetScores :: "nat \<Rightarrow> ('f, 't, 'z) Search_Cuda_scheme \<Rightarrow> 'f list res" where
  "Cuda_GetScores batch_beam_index s =
     (let v = nat (vocab_size (cs_params s)) in subspan (cs_next_token_scores s) (batch_beam_index * v) v)"

section \<open>Score kernels\<close>

text \<open>All three are launched with blocks of 256 threads in one dimension.\<close>

definition launch256 :: "schedule \<Rightarrow> nat \<Rightarrow> (nat \<Rightarrow> nat \<Rightarrow> 's \<Rightarrow> 's res) \<Rightarrow> 's \<Rightarrow> 's res" where
  "launch256 sched total_elements =
     launch sched (one_dim\<lparr>dim_x := (total_elements + 256 - 1) div 256\<rparr>) (one_dim\<lparr>dim_x := 256\<rparr>)"

definition AddProbsKernel :: "('f, 'g, 'y) cxx_scheme \<Rightarrow> 'f list \<Rightarrow> nat \<Rightarrow> nat \<Rightarrow> nat \<Rightarrow> nat \<Rightarrow> 'f list \<Rightarrow> 'f list res" where
  "AddProbsKernel cx cum_log_probs vocab total_elements index y log_probs =
     (if index < total_elements then
        res_bind (get cum_log_probs (index div vocab)) (\<lambda>c.
        res_bind (get log_probs index) (\<lambda>p. put log_probs index (fadd cx p c)))
      else Inr log_probs)"

definition LaunchAddProbsKernel ::
    "schedule \<Rightarrow> ('f, 'g, 'y) cxx_scheme \<Rightarrow> 'f list \<Rightarrow> nat \<Rightarrow> nat \<Rightarrow> nat \<Rightarrow> 'f list \<Rightarrow> 'f list res" where
  "LaunchAddProbsKernel sched cx cum_log_probs batches beams vocab =
     launch256 sched (batches * beams * vocab) (AddProbsKernel cx cum_log_probs vocab (batches * beams * vocab))"

definition SetScoreProcessor :: "nat \<Rightarrow> nat \<Rightarrow> int \<Rightarrow> 'f \<Rightarrow> nat \<Rightarrow> nat \<Rightarrow> 'f list \<Rightarrow> 'f list res" where
  "SetScoreProcessor batch_beam_size vocab token score_value index y scores =
     (if batch_beam_size \<le> index then Inr scores
      else res_bind (index_of (int (index * vocab) + token)) (\<lambda>k. put scores k score_value))"

definition RepetitionPenaltyProcessor ::
    "('f::linorder, 'g, 'y) cxx_scheme \<Rightarrow> int list \<Rightarrow> nat \<Rightarrow> nat \<Rightarrow> nat \<Rightarrow> nat \<Rightarrow> 'f \<Rightarrow> nat \<Rightarrow> nat \<Rightarrow> 'f list \<Rightarrow> 'f list res" where
  "RepetitionPenaltyProcessor cx seqs max_len vocab total_elements seq_len penalty index y scores =
     (if total_elements \<le> index then Inr scores
      else
        let batch_beam_index = index div vocab; word_id = int (index mod vocab) in
        res_bind (subspan seqs (batch_beam_index * max_len) seq_len) (\<lambda>current_sequence.
        if word_id \<in> set current_sequence then
          res_bind (get scores index) (\<lambda>sc. put scores index (penalize cx penalty sc))
        else Inr scores))"

definition Cuda_ApplyMinLength ::
    "schedule \<Rightarrow> ('f, 'g, 'y) cxx_scheme \<Rightarrow> int \<Rightarrow> ('f, 't, 'z) Search_Cuda_scheme \<Rightarrow> ('f, 't, 'z) Search_Cuda_scheme res" where
  "Cuda_ApplyMinLength sched cx min_len s =
     (if min_len \<le> int (GetSequenceLength (cs_sequences s)) then Inr s
      else
        let n = nat (BatchBeamSize (cs_params s)) in
        res_bind (launch256 sched n (SetScoreProcessor n (nat (vocab_size (cs_params s))) (eos_token_id (cs_params s)) (flowest cx))
                    (cs_next_token_scores s)) (\<lambda>scores.
        Inr (s\<lparr>cs_next_token_scores := scores\<rparr>)))"

definition Cuda_ApplyRepetitionPenalty ::
    "schedule \<Rightarrow> ('f::linorder, 'g, 'y) cxx_scheme \<Rightarrow> 'f \<Rightarrow> ('f, 't, 'z) Search_Cuda_scheme \<Rightarrow> ('f, 't, 'z) Search_Cuda_scheme res" where
  "Cuda_ApplyRepetitionPenalty sched cx penalty s =
     (if penalty = fone cx then Inr s
      else
        let p = cs_params s; vocab = nat (vocab_size p); total = nbatch p * nbeams p * vocab in
        res_bind (launch256 sched total
                    (RepetitionPenaltyProcessor cx (GetSequences (cs_sequences s)) (nmax_length p) vocab total
                       (GetSequenceLength (cs_sequences s)) penalty) (cs_next_token_scores s)) (\<lambda>scores.
        Inr (s\<lparr>cs_next_token_scores := scores\<rparr>)))"

section \<open>Greedy search after sampling\<close>

text \<open>The kernel runs in one thread: a token that ends its sequence, and every token after it, becomes padding.\<close>

definition CheckForEOS :: "('f, 't, 'z) Search_Cuda_scheme \<Rightarrow> ('f, 't, 'z) Search_Cuda_scheme res" where
  "CheckForEOS s =
     res_bind (for_res (\<lambda>batch_id (tokens, eos).
         res_bind (get tokens batch_id) (\<lambda>token.
         res_bind (get eos batch_id) (\<lambda>met.
         if token = eos_token_id (cs_params s) \<or> met then
           res_bind (put eos batch_id True) (\<lambda>eos'.
           res_bind (put tokens batch_id (pad_token_id (cs_params s))) (\<lambda>tokens'.
           Inr (tokens', eos')))
         else Inr (tokens, eos))))
       [0..<length (cs_next_tokens s)] (cs_next_tokens s, cs_eos_meet s)) (\<lambda>(tokens, eos).
     let all_met = (\<forall>b\<in>set (take (length tokens) eos). b) in
     Inr (s\<lparr>cs_next_tokens := tokens, cs_eos_meet := eos, cs_done_cpu := (if all_met then True else cs_done_cpu s)\<rparr>))"

definition Cuda_AppendNextTokensToSequences :: "('f, 't, 'z) Search_Cuda_scheme \<Rightarrow> ('f, 't, 'z) Search_Cuda_scheme res" where
  "Cuda_AppendNextTokensToSequences s =
     res_bind (Sequences_Cuda_AppendNextToken (cs_next_tokens s) (cs_sequences s)) (\<lambda>q.
     Inr (s\<lparr>cs_sequences := q,
            cs_done_cpu := (if int (GetSequenceLength q) = max_length (search (cs_params s)) then True else cs_done_cpu s)\<rparr>))"

text \<open>\<open>SelectTop\<close> and the sampling methods, from the tokens the device has sampled.\<close>

definition GreedySearch_Cuda_select :: "int list \<Rightarrow> ('f, 't, 'z) Search_Cuda_scheme \<Rightarrow> ('f, 't, 'z) Search_Cuda_scheme res" where
  "GreedySearch_Cuda_select sampled s =
     res_bind (CheckForEOS (s\<lparr>cs_next_tokens := sampled\<rparr>)) Cuda_AppendNextTokensToSequences"

definition Cuda_IsDone :: "('f, 't, 'z) Search_Cuda_scheme \<Rightarrow> bool" where
  "Cuda_IsDone s = cs_done_cpu s"

section \<open>Beam search\<close>

text \<open>The arrays of the selected candidates (scores, tokens, beam indices) and the size of the scratch buffer of the
  selection. What the buffer holds between two steps is never read.\<close>

record ('f, 't) BeamSearch_Cuda = "('f, 't) Search_Cuda" +
  cb_scorer :: "'f BeamSearchScorer_Cuda"
  cb_topk_next :: "'f list \<times> int list \<times> int list"
  cb_topk_buffer_size :: nat

text \<open>The constructor; \<open>fresh_scores\<close>, \<open>fresh_ints\<close> and \<open>fresh_hyps\<close> are the contents of new device memory.\<close>

definition BeamSearch_Cuda_new ::
    "schedule \<Rightarrow> schedule \<Rightarrow> ('f, 'g, 'y) cxx_scheme \<Rightarrow> ('f, 't) GeneratorParams
     \<Rightarrow> (nat \<Rightarrow> 'f) \<Rightarrow> (nat \<Rightarrow> int) \<Rightarrow> (nat \<Rightarrow> 'f BeamHypotheses) \<Rightarrow> ('f, 't) BeamSearch_Cuda res" where
  "BeamSearch_Cuda_new sched1 sched2 cx p fresh_scores fresh_ints fresh_hyps =
     res_bind (Search_Cuda_new fresh_ints p) (\<lambda>b.
     let batch_beam_size = nat (BatchBeamSize p); max_parts_of_vocab = 128 in
     res_bind (BeamSearchScorer_Cuda_new sched1 sched2 cx p fresh_scores fresh_ints fresh_hyps) (\<lambda>scorer.
     Inr \<lparr>cs_params = cs_params b, cs_sequences = cs_sequences b, cs_sequence_lengths = cs_sequence_lengths b,
          cs_next_tokens = cs_next_tokens b, cs_next_token_scores = cs_next_token_scores b,
          cs_eos_meet = cs_eos_meet b, cs_done_cpu = cs_done_cpu b, cb_scorer = scorer,
          cb_topk_next = (map fresh_scores [0..<2 * batch_beam_size], map fresh_ints [0..<2 * batch_beam_size],
                          map fresh_ints [0..<2 * batch_beam_size]),
          cb_topk_buffer_size = batch_beam_size * (max_parts_of_vocab + 1) * nbeams p * 2 * 2\<rparr>))"

definition BeamSearch_Cuda_GetNextTokens :: "('f, 't) BeamSearch_Cuda \<Rightarrow> int list" where
  "BeamSearch_Cuda_GetNextTokens s = bs_next_tokens (bc_device (cb_scorer s))"

definition BeamSearch_Cuda_GetNextIndices :: "('f, 't) BeamSearch_Cuda \<Rightarrow> int list" where
  "BeamSearch_Cuda_GetNextIndices s = bs_next_indices (bc_device (cb_scorer s))"

text \<open>The orders in which the kernels of a step run their threads and blocks, the block reduction of the library and
  the contents of scratch memory.\<close>

record 'f cuda_device =
  dv_add :: schedule
  dv_stage1 :: schedule
  dv_stage2 :: schedule
  dv_load :: "nat \<Rightarrow> schedule"
  dv_batch :: schedule
  dv_process :: schedule
  dv_append1 :: schedule
  dv_append2 :: schedule
  dv_reduce :: "'f TopK block_reduce"
  dv_scratch :: "(nat \<Rightarrow> 'f) \<times> (nat \<Rightarrow> int)"

text \<open>The scratch buffer is cut into a value and a token array for either stage; pieces that are larger than the
  buffer are an error.\<close>

definition topk_piece :: "'f cuda_device \<Rightarrow> nat \<Rightarrow> 'f list \<times> int list" where
  "topk_piece dv n = (map (fst (dv_scratch dv)) [0..<n], map (snd (dv_scratch dv)) [0..<n])"

definition BeamSearch_Cuda_topk ::
    "'f::linorder cuda_device \<Rightarrow> 'f \<Rightarrow> 'f list \<Rightarrow> ('f, 't) BeamSearch_Cuda \<Rightarrow> ('f list \<times> int list \<times> int list) res" where
  "BeamSearch_Cuda_topk dv ninf scores s =
     (let p = cs_params s; max_parts_of_vocab = 128; candidate_count = nat (BatchBeamSize p) * 2 * nbeams p in
      if num_beams (search p) \<le> 32 then
        if cb_topk_buffer_size s < 2 * (candidate_count * max_parts_of_vocab) + 2 * candidate_count then Inl OutOfBounds
        else BeamSearchTopK (dv_reduce dv) (dv_stage1 dv) (dv_stage2 dv) (dv_load dv) (dv_batch dv) (dv_scratch dv) ninf
               scores (nbatch p) (nbeams p) (nvocab p) (2 * nbeams p)
               (topk_piece dv (candidate_count * max_parts_of_vocab)) (topk_piece dv candidate_count) (cb_topk_next s)
      else Inr (cb_topk_next s))"

definition BeamSearch_Cuda_SelectTop ::
    "'f::linorder cuda_device \<Rightarrow> ('f, 'g, 'y) cxx_scheme \<Rightarrow> 'f \<Rightarrow> ('f, 't) BeamSearch_Cuda \<Rightarrow> ('f, 't) BeamSearch_Cuda res" where
  "BeamSearch_Cuda_SelectTop dv cx ninf s =
     (let p = cs_params s; sz = nat (BatchBeamSize p) * 2 in
      res_bind (LaunchAddProbsKernel (dv_add dv) cx (bs_next_scores (bc_device (cb_scorer s))) (nbatch p) (nbeams p) (nvocab p)
                  (cs_next_token_scores s)) (\<lambda>scores.
      res_bind (BeamSearch_Cuda_topk dv ninf scores s) (\<lambda>topk.
      res_bind (subspan (fst topk) 0 sz) (\<lambda>next_scores'.
      res_bind (subspan (fst (snd topk)) 0 sz) (\<lambda>next_tokens'.
      res_bind (subspan (snd (snd topk)) 0 sz) (\<lambda>next_indices'.
      res_bind (Process_Cuda (dv_process dv) (dv_append1 dv) (dv_append2 dv) cx
                  \<lparr>next_scores = next_scores', cand_tokens = next_tokens', next_indices = next_indices'\<rparr>
                  (cb_scorer s, cs_sequences s)) (\<lambda>(scorer, q).
      Inr (s\<lparr>cs_next_token_scores := scores, cb_topk_next := topk, cb_scorer := scorer,
             cs_next_tokens := bs_next_tokens (bc_device scorer), cs_sequences := AfterDeviceAppendedNextToken q\<rparr>))))))))"

definition BeamSearch_Cuda_IsDone :: "('f, 't) BeamSearch_Cuda \<Rightarrow> bool" where
  "BeamSearch_Cuda_IsDone s \<longleftrightarrow>
     IsDoneLater (cb_scorer s) \<or> int (GetSequenceLength (cs_sequences s)) = max_length (search (cs_params s))"

definition BeamSearch_Cuda_Finalize ::
    "schedule \<Rightarrow> ('f::linorder, 'g, 'y) cxx_scheme \<Rightarrow> int list \<Rightarrow> 'f list \<Rightarrow> ('f, 't) BeamSearch_Cuda
     \<Rightarrow> (('f, 't) BeamSearch_Cuda \<times> int list \<times> 'f list) res" where
  "BeamSearch_Cuda_Finalize sched cx output sequence_scores s =
     res_bind (Finalize_Cuda sched cx (cs_sequences s) output sequence_scores (cb_scorer s)) (\<lambda>(c, out, scs).
     Inr (s\<lparr>cb_scorer := c\<rparr>, out, scs))"

end
