(* ===== verification/CudaSoftmax.thy ===== *)
theory CudaSoftmax
  imports CudaSelect
begin

text \<open>
  The softmax kernels of \<open>src/cuda_sampling.cu\<close>. A block computes a row: its threads visit the elements in groups that
  are aligned in memory, reduce what they saw in shared memory to the maximum and to the sum of the exponentials, and
  write the results. What a thread reads between two barriers is not written by another one, so a block is run thread by
  thread between them.
\<close>

section \<open>Softmax\<close>

definition MaxFloat :: "'f::linorder \<Rightarrow> 'f \<Rightarrow> 'f" where
  "MaxFloat m v = max m v"

definition Max_op :: "'f::linorder \<Rightarrow> 'f \<Rightarrow> 'f" where
  "Max_op a b = (if a < b then b else a)"

definition SumExpFloat :: "('f, 'g, 'y) cxx_scheme \<Rightarrow> 'f \<Rightarrow> 'f \<Rightarrow> 'f \<Rightarrow> 'f" where
  "SumExpFloat cx max_k acc v = fadd cx acc (fexp cx (fsub cx v max_k))"

definition Add_op :: "('f, 'g, 'y) cxx_scheme \<Rightarrow> 'f \<Rightarrow> 'f \<Rightarrow> 'f" where
  "Add_op cx a b = fadd cx a b"

text \<open>The elements of a row that a thread of \<open>IlpReduce\<close> visits, in order: one element before the aligned part,
  groups of \<open>ilp\<close> elements, and the tail. \<open>offset * ILP < size - last\<close> is \<open>offset < \<lceil>(size - last) / ILP\<rceil>\<close>.\<close>

definition ilp_indices :: "nat \<Rightarrow> nat \<Rightarrow> nat \<Rightarrow> nat \<Rightarrow> nat \<Rightarrow> nat list" where
  "ilp_indices ilp bs shift sz tid =
     (let first = (if 0 < shift \<and> shift \<le> tid \<and> tid < sz + shift then [tid - shift] else []);
          sz' = (if 0 < shift then sz + shift - bs else sz);
          base = (if 0 < shift then bs - shift else 0);
          last = sz' mod (ilp * bs) in
      first @ (if sz' = 0 then [] else
        map (\<lambda>i. base + i)
          (concat (map (\<lambda>offset. [offset * ilp..<offset * ilp + ilp]) (strided tid ((sz' - last + ilp - 1) div ilp) bs))
           @ strided (sz' - last + tid) sz' bs)))"

definition IlpReduce :: "('f \<Rightarrow> 'f \<Rightarrow> 'f) \<Rightarrow> nat \<Rightarrow> nat \<Rightarrow> nat \<Rightarrow> 'f list \<Rightarrow> nat \<Rightarrow> nat \<Rightarrow> 'f \<Rightarrow> nat \<Rightarrow> 'f res" where
  "IlpReduce r ilp bs shift input row sz default_val tid =
     for_res (\<lambda>i v. res_bind (get input (row + i)) (\<lambda>x. Inr (r v x))) (ilp_indices ilp bs shift sz tid) default_val"

definition kGPUWarpSize :: nat where "kGPUWarpSize = 32"
definition kMaxThreads :: nat where "kMaxThreads = 1024"

text \<open>The values of the threads, reduced by the first warp and then by the first thread.\<close>

definition SoftmaxReduce :: "('f \<Rightarrow> 'f \<Rightarrow> 'f) \<Rightarrow> nat \<Rightarrow> 'f \<Rightarrow> 'f list \<Rightarrow> 'f res" where
  "SoftmaxReduce r bs default_val smem =
     res_bind (map_res (\<lambda>tid. for_res (\<lambda>i v. res_bind (get smem (i * kGPUWarpSize + tid)) (\<lambda>x. Inr (r v x)))
                 [0..<bs div kGPUWarpSize] default_val) [0..<kGPUWarpSize]) (\<lambda>warps.
     for_res (\<lambda>i v. res_bind (get warps i) (\<lambda>x. Inr (r v x))) [0..<kGPUWarpSize] default_val)"

function double_until :: "nat \<Rightarrow> nat \<Rightarrow> nat" where
  "double_until b m = (if 0 < b \<and> b < m then double_until (b * 2) m else b)"
  by pat_completeness auto
termination by (relation "measure (\<lambda>(b, m). m - b)") auto

declare double_until.simps [simp del]

definition SoftmaxGetBlockSize :: "nat \<Rightarrow> nat \<Rightarrow> nat" where
  "SoftmaxGetBlockSize ilp sz =
     (let max_block_size = min (sz div ilp) kMaxThreads;
          max_block_size' = (if 1 < ilp then max_block_size div 2 else max_block_size) in
      max (double_until 1 max_block_size') kGPUWarpSize)"

definition SoftmaxForwardEpilogue :: "('f, 'g, 'y) cxx_scheme \<Rightarrow> 'f \<Rightarrow> 'f \<Rightarrow> 'f \<Rightarrow> 'f" where
  "SoftmaxForwardEpilogue cx max_input sum_exp x = fdiv cx (fexp cx (fsub cx x max_input)) sum_exp"

definition LogSoftmaxForwardEpilogue :: "('f, 'g, 'y) cxx_scheme \<Rightarrow> 'f \<Rightarrow> 'f \<Rightarrow> 'f \<Rightarrow> 'f" where
  "LogSoftmaxForwardEpilogue cx max_input sum_exp x = fsub cx (fsub cx x max_input) (flog cx sum_exp)"

definition write_epilogue :: "('f \<Rightarrow> 'f) \<Rightarrow> 'f list \<Rightarrow> nat \<Rightarrow> nat \<Rightarrow> nat list \<Rightarrow> 'f list \<Rightarrow> 'f list res" where
  "write_epilogue epilogue input in_row out_row =
     for_res (\<lambda>i out. res_bind (get input (in_row + i)) (\<lambda>x. put out (out_row + i) (epilogue x)))"

definition WriteFpropResultsVectorized :: "nat \<Rightarrow> nat \<Rightarrow> nat \<Rightarrow> nat \<Rightarrow> 'f list \<Rightarrow> nat \<Rightarrow> nat \<Rightarrow> ('f \<Rightarrow> 'f) \<Rightarrow> nat \<Rightarrow> 'f list \<Rightarrow> 'f list res" where
  "WriteFpropResultsVectorized ilp bs sz shift input in_row out_row epilogue tid =
     write_epilogue epilogue input in_row out_row (ilp_indices ilp bs shift sz tid)"

text \<open>The elements a thread writes without alignment; the second loop goes on where the first one stopped.\<close>

definition plain_indices :: "nat \<Rightarrow> nat \<Rightarrow> nat \<Rightarrow> nat \<Rightarrow> nat list" where
  "plain_indices ilp bs classes tid =
     (let last = classes mod (ilp * bs); offsets = strided tid (classes - last) (bs * ilp) in
      concat (map (\<lambda>offset. map (\<lambda>j. offset + j * bs) [0..<ilp]) offsets)
      @ strided (tid + length offsets * (bs * ilp)) classes bs)"

definition WriteFpropResults :: "nat \<Rightarrow> nat \<Rightarrow> nat \<Rightarrow> 'f list \<Rightarrow> nat \<Rightarrow> nat \<Rightarrow> ('f \<Rightarrow> 'f) \<Rightarrow> nat \<Rightarrow> 'f list \<Rightarrow> 'f list res" where
  "WriteFpropResults ilp bs classes input in_row out_row epilogue tid =
     write_epilogue epilogue input in_row out_row (plain_indices ilp bs classes tid)"

text \<open>A block of the softmax. \<open>addr_in\<close> and \<open>addr_out\<close> are the addresses of the arrays, in floats; the threads write in
  the order of \<open>sched\<close>.\<close>

definition SoftmaxBlockForward ::
    "schedule \<Rightarrow> ('f::linorder, 'g, 'y) cxx_scheme \<Rightarrow> ('f \<Rightarrow> 'f \<Rightarrow> 'f \<Rightarrow> 'f) \<Rightarrow> nat \<Rightarrow> nat \<Rightarrow> nat \<Rightarrow> nat \<Rightarrow> 'f list \<Rightarrow> nat \<Rightarrow> nat \<Rightarrow> nat \<Rightarrow> 'f
     \<Rightarrow> nat \<Rightarrow> 'f list \<Rightarrow> 'f list res" where
  "SoftmaxBlockForward sched cx epilogue ilp bs addr_in addr_out input classes input_stride output_stride temp block output =
     (let in_row = block * input_stride; out_row = block * output_stride;
          shift = (addr_in + in_row) mod ilp; output_shift = (addr_out + out_row) mod ilp in
      res_bind (map_res (IlpReduce MaxFloat ilp bs shift input in_row classes (flowest cx)) [0..<bs]) (\<lambda>thread_max.
      res_bind (SoftmaxReduce Max_op bs (flowest cx) thread_max) (\<lambda>max_k.
      res_bind (map_res (IlpReduce (SumExpFloat cx (fdiv cx max_k temp)) ilp bs shift input in_row classes (fzero cx)) [0..<bs]) (\<lambda>thread_exp.
      res_bind (SoftmaxReduce (Add_op cx) bs (fzero cx) thread_exp) (\<lambda>sum_all.
      for_res (\<lambda>tid.
          if shift = output_shift then WriteFpropResultsVectorized ilp bs classes shift input in_row out_row (epilogue max_k sum_all) tid
          else WriteFpropResults ilp bs classes input in_row out_row (epilogue max_k sum_all) tid)
        (sched [0..<bs]) output)))))"

definition DispatchBlockwiseSoftmaxForward ::
    "bool \<Rightarrow> schedule \<Rightarrow> (nat \<Rightarrow> schedule) \<Rightarrow> ('f::linorder, 'g, 'y) cxx_scheme \<Rightarrow> nat \<Rightarrow> nat \<Rightarrow> 'f list \<Rightarrow> nat \<Rightarrow> nat \<Rightarrow> nat \<Rightarrow> nat \<Rightarrow> 'f
     \<Rightarrow> 'f list \<Rightarrow> 'f list res" where
  "DispatchBlockwiseSoftmaxForward is_log_softmax sched tsched cx addr_in addr_out input softmax_elements input_stride output_stride
       batch_count temp =
     (let ilp = 4; bs = SoftmaxGetBlockSize ilp softmax_elements in
      launch_blocks sched (one_dim\<lparr>dim_x := batch_count\<rparr>) (\<lambda>block y.
        SoftmaxBlockForward (tsched block) cx (if is_log_softmax then LogSoftmaxForwardEpilogue cx else SoftmaxForwardEpilogue cx)
          ilp bs addr_in addr_out input softmax_elements input_stride output_stride temp block))"

end
