(* ===== verification/CudaSampling.thy ===== *)
theory CudaSampling
  imports CudaSearch CudaSoftmax
begin

text \<open>
  \<open>src/cuda_sampling.cuh\<close>, \<open>src/cuda_sampling.cu\<close> and the greedy and sampling methods of \<open>src/search_cuda.cpp\<close>: the
  sorted or selected candidates of a row of softmaxed scores (\<open>CudaSoftmax\<close>), their prefix sums, and the choice of a token by a
  random threshold. The scans and sorts of CUB and the random numbers of cuRAND are not code of the program; they are
  the record \<open>cuda_lib\<close>. A block is run between its barriers as in \<open>CudaTopK\<close>: what a thread reads there is not
  written by another one.
\<close>

section \<open>State and libraries\<close>

record ('f, 'r) SamplingData =
  sd_indices_sorted :: "int list"
  sd_scores_sorted :: "'f list"
  sd_scores_softmaxed :: "'f list"
  sd_prefix_sums :: "'f list"
  sd_thresholds :: "'f list"
  sd_indices_in :: "int list"
  sd_offsets :: "int list"
  sd_curand_states :: "'r list"

record ('f, 'r) cuda_lib =
  curand_init :: "int \<Rightarrow> nat \<Rightarrow> 'r"  \<comment> \<open>seed and subsequence\<close>
  curand_uniform :: "'r \<Rightarrow> 'f \<times> 'r"
  block_scan :: "'f list \<Rightarrow> 'f list"  \<comment> \<open>\<open>cub::BlockScan::InclusiveSum\<close> over the threads of a block\<close>
  sort_descending :: "('f \<times> int) list \<Rightarrow> ('f \<times> int) list"  \<comment> \<open>a segment of \<open>SortPairsDescending\<close>\<close>
  sort_ascending :: "('f \<times> int) list \<Rightarrow> ('f \<times> int) list"  \<comment> \<open>a segment of \<open>SortPairs\<close>\<close>
  top_reduce :: "'f TopK block_reduce"

definition launch1 :: "schedule \<Rightarrow> nat \<Rightarrow> nat \<Rightarrow> (nat \<Rightarrow> nat \<Rightarrow> 's \<Rightarrow> 's res) \<Rightarrow> 's \<Rightarrow> 's res" where
  "launch1 sched grid block = launch sched (one_dim\<lparr>dim_x := grid\<rparr>) (one_dim\<lparr>dim_x := block\<rparr>)"

definition InitCurandStates :: "('f, 'r) cuda_lib \<Rightarrow> int \<Rightarrow> nat \<Rightarrow> nat \<Rightarrow> nat \<Rightarrow> 'r list \<Rightarrow> 'r list res" where
  "InitCurandStates lib seed batches index y states =
     (if batches \<le> index then Inr states else put states index (curand_init lib seed index))"

text \<open>\<open>fresh_f\<close>, \<open>fresh_i\<close> and \<open>fresh_r\<close> are the contents of new device memory.\<close>

definition SamplingData_new ::
    "schedule \<Rightarrow> ('f, 'r) cuda_lib \<Rightarrow> (nat \<Rightarrow> 'f) \<Rightarrow> (nat \<Rightarrow> int) \<Rightarrow> (nat \<Rightarrow> 'r) \<Rightarrow> int \<Rightarrow> nat \<Rightarrow> nat \<Rightarrow> ('f, 'r) SamplingData res" where
  "SamplingData_new sched lib fresh_f fresh_i fresh_r seed batches vocab =
     (let n = vocab * batches in
      res_bind (launch1 sched (batches div 128 + 1) 128 (InitCurandStates lib seed batches) (map fresh_r [0..<batches])) (\<lambda>states.
      Inr \<lparr>sd_indices_sorted = map fresh_i [0..<n], sd_scores_sorted = map fresh_f [0..<n], sd_scores_softmaxed = map fresh_f [0..<n],
           sd_prefix_sums = map fresh_f [0..<n], sd_thresholds = map fresh_f [0..<batches], sd_indices_in = map fresh_i [0..<n],
           sd_offsets = map fresh_i [0..<batches + 1], sd_curand_states = states\<rparr>))"

section \<open>Indices, offsets and sorting\<close>

definition PopulateIndices :: "nat \<Rightarrow> nat \<Rightarrow> nat \<Rightarrow> nat \<Rightarrow> int list \<Rightarrow> int list res" where
  "PopulateIndices sz batches global_index y indices =
     (if global_index < sz * batches then put indices global_index (int (global_index mod sz)) else Inr indices)"

definition LaunchPopulateIndices :: "schedule \<Rightarrow> nat \<Rightarrow> nat \<Rightarrow> int list \<Rightarrow> int list res" where
  "LaunchPopulateIndices sched sz batches = launch1 sched (batches * sz div 256 + 1) 256 (PopulateIndices sz batches)"

definition PopulateOffsets :: "nat \<Rightarrow> nat \<Rightarrow> nat \<Rightarrow> nat \<Rightarrow> int list \<Rightarrow> int list res" where
  "PopulateOffsets sz batches index y offsets = (if index < batches + 1 then put offsets index (int (index * sz)) else Inr offsets)"

definition LaunchPopulateOffsets :: "schedule \<Rightarrow> nat \<Rightarrow> nat \<Rightarrow> int list \<Rightarrow> int list res" where
  "LaunchPopulateOffsets sched sz batches = launch1 sched (batches div 128 + 1) 128 (PopulateOffsets sz batches)"

text \<open>Segment \<open>s\<close> is the range from \<open>offsets[s]\<close> to \<open>offsets[s + 1]\<close>.\<close>

definition LaunchSortPairs ::
    "('f, 'r) cuda_lib \<Rightarrow> 'f list \<Rightarrow> int list \<Rightarrow> nat \<Rightarrow> int list \<Rightarrow> bool \<Rightarrow> 'f list \<times> int list \<Rightarrow> ('f list \<times> int list) res" where
  "LaunchSortPairs lib keys_in values_in num_segments offsets is_descending =
     for_res (\<lambda>s (keys_out, values_out).
       res_bind (res_bind (get offsets s) index_of) (\<lambda>from.
       res_bind (res_bind (get offsets (s + 1)) index_of) (\<lambda>to.
       res_bind (subspan keys_in from (to - from)) (\<lambda>ks.
       res_bind (subspan values_in from (to - from)) (\<lambda>vs.
       let sorted = (if is_descending then sort_descending lib else sort_ascending lib) (zip ks vs) in
       res_bind (copy_into keys_out from (map fst sorted)) (\<lambda>keys_out'.
       res_bind (copy_into values_out from (map snd sorted)) (\<lambda>values_out'. Inr (keys_out', values_out')))))))) [0..<num_segments]"

section \<open>Sampling kernels\<close>

text \<open>The prefix sums of a row, 256 elements at a time. Every thread keeps its own running sum.\<close>

definition PrefixSumKernel :: "('f, 'r) cuda_lib \<Rightarrow> ('f, 'g, 'y) cxx_scheme \<Rightarrow> nat \<Rightarrow> 'f list \<Rightarrow> nat \<Rightarrow> nat \<Rightarrow> 'f list \<Rightarrow> 'f list res" where
  "PrefixSumKernel lib cx bs scores sample_range batch prefix_sums =
     res_bind (for_res (\<lambda>i (prefix_sum, out).
         res_bind (map_res (\<lambda>tid. if tid + i < sample_range then get scores (tid + i + batch * sample_range) else Inr (fzero cx)) [0..<bs]) (\<lambda>score.
         let scanned = block_scan lib score; prefix_sum' = map2 (fadd cx) prefix_sum scanned in
         res_bind (for_res (\<lambda>tid out. if tid + i < sample_range
                       then res_bind (get prefix_sum' tid) (put out (tid + i + batch * sample_range)) else Inr out) [0..<bs] out) (\<lambda>out'.
         Inr (prefix_sum', out'))))
       (strided 0 sample_range bs) (replicate bs (fzero cx), prefix_sums)) (\<lambda>(prefix_sum, out). Inr out)"

definition GetTopKKernel_thread :: "nat \<Rightarrow> nat \<Rightarrow> 'f::linorder \<Rightarrow> 'f list \<Rightarrow> nat \<Rightarrow> nat \<Rightarrow> nat \<Rightarrow> 'f TopK res" where
  "GetTopKKernel_thread max_k bs ninf scores_in vocab batch tid =
     for_res (\<lambda>i t. res_bind (get scores_in (i + batch * vocab)) (\<lambda>x. Inr (TopK_Insert max_k x (int i) t)))
       (strided tid vocab bs) (TopK_Init max_k ninf)"

definition GetTopKKernel ::
    "'f::linorder TopK block_reduce \<Rightarrow> nat \<Rightarrow> nat \<Rightarrow> 'f \<Rightarrow> 'f list \<Rightarrow> nat \<Rightarrow> nat \<Rightarrow> nat \<Rightarrow> 'f list \<times> int list \<Rightarrow> ('f list \<times> int list) res" where
  "GetTopKKernel br max_k bs ninf scores_in vocab k batch out =
     res_bind (map_res (GetTopKKernel_thread max_k bs ninf scores_in vocab batch) [0..<bs]) (\<lambda>threads.
     write_top_k k (batch * k) (br (reduce_topk_op max_k) threads) out)"

definition LaunchGetTopKSubset ::
    "nat \<Rightarrow> schedule \<Rightarrow> ('f::linorder, 'r) cuda_lib \<Rightarrow> 'f \<Rightarrow> 'f list \<Rightarrow> nat \<Rightarrow> nat \<Rightarrow> nat \<Rightarrow> 'f list \<times> int list \<Rightarrow> ('f list \<times> int list) res" where
  "LaunchGetTopKSubset max_k sched lib ninf scores_in vocab batches k =
     launch_blocks sched (one_dim\<lparr>dim_x := batches\<rparr>) (\<lambda>batch y. GetTopKKernel (top_reduce lib) max_k 256 ninf scores_in vocab k batch)"

text \<open>The random thresholds. The state is the generators and the thresholds; \<open>prefix_sums[k - 1]\<close> is the sum of the first
  batch entry for every thread.\<close>

definition draw_threshold ::
    "('f, 'r) cuda_lib \<Rightarrow> ('f, 'g, 'y) cxx_scheme \<Rightarrow> nat \<Rightarrow> 'f \<Rightarrow> nat \<Rightarrow> 'r list \<times> 'f list \<Rightarrow> ('r list \<times> 'f list) res" where
  "draw_threshold lib cx batches bound index = (\<lambda>(states, thresholds).
     if index < batches then
       res_bind (get states index) (\<lambda>g.
       let (u, g') = curand_uniform lib g in
       res_bind (put states index g') (\<lambda>states'.
       res_bind (put thresholds index (fmul cx bound u)) (\<lambda>thresholds'. Inr (states', thresholds'))))
     else Inr (states, thresholds))"

definition RandomThresholdKernelTopPAndK ::
    "('f::linorder, 'r) cuda_lib \<Rightarrow> ('f, 'g, 'y) cxx_scheme \<Rightarrow> 'f list \<Rightarrow> nat \<Rightarrow> 'f \<Rightarrow> nat \<Rightarrow> nat \<Rightarrow> nat \<Rightarrow> 'r list \<times> 'f list \<Rightarrow> ('r list \<times> 'f list) res" where
  "RandomThresholdKernelTopPAndK lib cx prefix_sums batches p k index y s =
     res_bind (get prefix_sums (k - 1)) (\<lambda>k_prob. draw_threshold lib cx batches (min p k_prob) index s)"

definition RandomThresholdKernelTopP ::
    "('f, 'r) cuda_lib \<Rightarrow> ('f, 'g, 'y) cxx_scheme \<Rightarrow> nat \<Rightarrow> 'f \<Rightarrow> nat \<Rightarrow> nat \<Rightarrow> 'r list \<times> 'f list \<Rightarrow> ('r list \<times> 'f list) res" where
  "RandomThresholdKernelTopP lib cx batches p index y s = draw_threshold lib cx batches p index s"

definition RandomThresholdKernelTopK ::
    "('f, 'r) cuda_lib \<Rightarrow> ('f, 'g, 'y) cxx_scheme \<Rightarrow> 'f list \<Rightarrow> nat \<Rightarrow> nat \<Rightarrow> nat \<Rightarrow> nat \<Rightarrow> 'r list \<times> 'f list \<Rightarrow> ('r list \<times> 'f list) res" where
  "RandomThresholdKernelTopK lib cx prefix_sums batches k index y s =
     (if index < batches then res_bind (get prefix_sums (k - 1)) (\<lambda>k_prob. draw_threshold lib cx batches k_prob index s) else Inr s)"

text \<open>A thread of \<open>SampleKernel\<close> stops at its first index whose sum reaches the threshold, or at the last index.\<close>

fun sample_scan :: "'f::linorder list \<Rightarrow> 'f list \<Rightarrow> nat \<Rightarrow> nat \<Rightarrow> nat \<Rightarrow> nat list \<Rightarrow> nat option res" where
  "sample_scan prefix_sums thresholds bs sample_range batch [] = Inr None"
| "sample_scan prefix_sums thresholds bs sample_range batch (index # is) =
     (if index + batch * sample_range < bs * sample_range then
        res_bind (get prefix_sums (index + batch * sample_range)) (\<lambda>reached.
        res_bind (get thresholds batch) (\<lambda>threshold.
        if threshold \<le> reached \<or> index = sample_range - 1 then Inr (Some index)
        else sample_scan prefix_sums thresholds bs sample_range batch is))
      else sample_scan prefix_sums thresholds bs sample_range batch is)"

definition SampleKernel ::
    "schedule \<Rightarrow> nat \<Rightarrow> 'f::linorder list \<Rightarrow> int list \<Rightarrow> nat \<Rightarrow> 'f list \<Rightarrow> nat \<Rightarrow> int list \<Rightarrow> int list res" where
  "SampleKernel sched bs prefix_sums indices sample_range thresholds batch index_out =
     res_bind (for_res (\<lambda>tid first_index.
         res_bind (sample_scan prefix_sums thresholds bs sample_range batch (strided tid sample_range bs)) (\<lambda>found.
         Inr (case found of None \<Rightarrow> first_index | Some index \<Rightarrow> min first_index index)))
       (sched [0..<bs]) (sample_range - 1)) (\<lambda>first_index.
     res_bind (get indices (first_index + batch * sample_range)) (put index_out batch))"

section \<open>Launchers\<close>

text \<open>The orders in which the kernels run, and the addresses of the scores and of the softmax buffer in floats.\<close>

record sampling_run =
  sr_soft :: schedule
  sr_soft_threads :: "nat \<Rightarrow> schedule"
  sr_offsets :: schedule
  sr_indices :: schedule
  sr_topk :: schedule
  sr_prefix :: schedule
  sr_random :: schedule
  sr_sample :: schedule
  sr_sample_threads :: "nat \<Rightarrow> schedule"
  sr_addr_in :: nat
  sr_addr_out :: nat

text \<open>The threshold kernels are chosen by \<open>p\<close> and \<open>k\<close>; greedy search uses none of them.\<close>

definition draw_thresholds ::
    "sampling_run \<Rightarrow> ('f::linorder, 'r) cuda_lib \<Rightarrow> ('f, 'g, 'y) cxx_scheme \<Rightarrow> nat \<Rightarrow> 'f \<Rightarrow> int \<Rightarrow> 'f list \<Rightarrow> 'r list \<times> 'f list \<Rightarrow> ('r list \<times> 'f list) res" where
  "draw_thresholds sr lib cx batches p k prefix_sums s =
     (let grid = batches div 128 + 1 in
      if fzero cx < p \<and> 1 < k then launch1 (sr_random sr) grid 128 (RandomThresholdKernelTopPAndK lib cx prefix_sums batches p (nat k)) s
      else if fzero cx < p then launch1 (sr_random sr) grid 128 (RandomThresholdKernelTopP lib cx batches p) s
      else if 1 < k then launch1 (sr_random sr) grid 128 (RandomThresholdKernelTopK lib cx prefix_sums batches (nat k)) s
      else Inr s)"

definition LaunchSampleKernel ::
    "sampling_run \<Rightarrow> ('f::linorder, 'r) cuda_lib \<Rightarrow> ('f, 'g, 'y) cxx_scheme \<Rightarrow> 'f list \<Rightarrow> int list \<Rightarrow> nat \<Rightarrow> nat \<Rightarrow> 'f \<Rightarrow> int
     \<Rightarrow> ('f, 'r) SamplingData \<times> int list \<Rightarrow> (('f, 'r) SamplingData \<times> int list) res" where
  "LaunchSampleKernel sr lib cx scores indices sample_range batches p k = (\<lambda>(data, index_out).
     res_bind (launch_blocks (sr_prefix sr) (one_dim\<lparr>dim_x := batches\<rparr>) (\<lambda>batch y. PrefixSumKernel lib cx 256 scores sample_range batch)
                 (sd_prefix_sums data)) (\<lambda>prefix_sums.
     res_bind (draw_thresholds sr lib cx batches p k prefix_sums (sd_curand_states data, sd_thresholds data)) (\<lambda>(states, thresholds).
     res_bind (launch_blocks (sr_sample sr) (one_dim\<lparr>dim_x := batches\<rparr>)
                 (\<lambda>batch y. SampleKernel (sr_sample_threads sr batch) 256 prefix_sums indices sample_range thresholds batch) index_out) (\<lambda>index_out'.
     Inr (data\<lparr>sd_prefix_sums := prefix_sums, sd_curand_states := states, sd_thresholds := thresholds\<rparr>, index_out')))))"

text \<open>The results of the sort are the arrays \<open>scores_sorted\<close> and \<open>indices_sorted\<close>.\<close>

definition sort_rows ::
    "sampling_run \<Rightarrow> ('f, 'r) cuda_lib \<Rightarrow> 'f list \<Rightarrow> nat \<Rightarrow> nat \<Rightarrow> ('f, 'r) SamplingData \<Rightarrow> ('f, 'r) SamplingData res" where
  "sort_rows sr lib scores vocab batches data =
     res_bind (LaunchPopulateOffsets (sr_offsets sr) vocab batches (sd_offsets data)) (\<lambda>offsets.
     res_bind (LaunchPopulateIndices (sr_indices sr) vocab batches (sd_indices_in data)) (\<lambda>indices_in.
     res_bind (LaunchSortPairs lib scores indices_in batches offsets True (sd_scores_sorted data, sd_indices_sorted data)) (\<lambda>(keys, values).
     Inr (data\<lparr>sd_offsets := offsets, sd_indices_in := indices_in, sd_scores_sorted := keys, sd_indices_sorted := values\<rparr>))))"

definition softmax_rows ::
    "sampling_run \<Rightarrow> ('f::linorder, 'g, 'y) cxx_scheme \<Rightarrow> 'f list \<Rightarrow> nat \<Rightarrow> nat \<Rightarrow> 'f \<Rightarrow> ('f, 'r) SamplingData \<Rightarrow> ('f, 'r) SamplingData res" where
  "softmax_rows sr cx scores_in vocab batches temp data =
     res_bind (DispatchBlockwiseSoftmaxForward False (sr_soft sr) (sr_soft_threads sr) cx (sr_addr_in sr) (sr_addr_out sr) scores_in
                 vocab vocab vocab batches temp (sd_scores_softmaxed data)) (\<lambda>softmaxed.
     Inr (data\<lparr>sd_scores_softmaxed := softmaxed\<rparr>))"

definition SoftmaxAndSort ::
    "sampling_run \<Rightarrow> ('f::linorder, 'r) cuda_lib \<Rightarrow> ('f, 'g, 'y) cxx_scheme \<Rightarrow> 'f list \<Rightarrow> nat \<Rightarrow> nat \<Rightarrow> 'f
     \<Rightarrow> ('f, 'r) SamplingData \<Rightarrow> ('f, 'r) SamplingData res" where
  "SoftmaxAndSort sr lib cx scores_in vocab batches temp data =
     res_bind (softmax_rows sr cx scores_in vocab batches temp data) (\<lambda>d. sort_rows sr lib (sd_scores_softmaxed d) vocab batches d)"

definition LaunchGetTopKSubsetFullSort ::
    "sampling_run \<Rightarrow> ('f, 'r) cuda_lib \<Rightarrow> 'f list \<Rightarrow> nat \<Rightarrow> nat \<Rightarrow> ('f, 'r) SamplingData \<Rightarrow> ('f, 'r) SamplingData res" where
  "LaunchGetTopKSubsetFullSort sr lib scores_in vocab batches data = sort_rows sr lib scores_in vocab batches data"

definition GetTopKSubset ::
    "sampling_run \<Rightarrow> ('f::linorder, 'r) cuda_lib \<Rightarrow> ('f, 'g, 'y) cxx_scheme \<Rightarrow> 'f \<Rightarrow> 'f list \<Rightarrow> nat \<Rightarrow> nat \<Rightarrow> nat \<Rightarrow> 'f
     \<Rightarrow> ('f, 'r) SamplingData \<Rightarrow> ('f, 'r) SamplingData res" where
  "GetTopKSubset sr lib cx ninf scores_in vocab batches k temp data =
     res_bind (softmax_rows sr cx scores_in vocab batches temp data) (\<lambda>d.
     if k \<le> 64 then
       res_bind (LaunchGetTopKSubset (max_k_for k) (sr_topk sr) lib ninf (sd_scores_softmaxed d) vocab batches k
                   (sd_scores_sorted d, sd_indices_sorted d)) (\<lambda>(scores_out, indices_out).
       Inr (d\<lparr>sd_scores_sorted := scores_out, sd_indices_sorted := indices_out\<rparr>))
     else LaunchGetTopKSubsetFullSort sr lib (sd_scores_softmaxed d) vocab batches d)"

definition GetSample ::
    "sampling_run \<Rightarrow> ('f::linorder, 'r) cuda_lib \<Rightarrow> ('f, 'g, 'y) cxx_scheme \<Rightarrow> 'f \<Rightarrow> 'f list \<Rightarrow> nat \<Rightarrow> nat \<Rightarrow> int \<Rightarrow> 'f \<Rightarrow> 'f
     \<Rightarrow> ('f, 'r) SamplingData \<times> int list \<Rightarrow> (('f, 'r) SamplingData \<times> int list) res" where
  "GetSample sr lib cx ninf scores_in vocab batches k p temp = (\<lambda>(data, next_token_out).
     let sample_range = (if 0 < k \<and> k \<le> 64 then nat k else vocab) in
     res_bind (if 0 < k \<and> k < int vocab then GetTopKSubset sr lib cx ninf scores_in vocab batches (nat k) temp data
               else SoftmaxAndSort sr lib cx scores_in vocab batches temp data) (\<lambda>d.
     LaunchSampleKernel sr lib cx (sd_scores_sorted d) (sd_indices_sorted d) sample_range batches p k (d, next_token_out)))"

section \<open>Greedy search\<close>

record ('f, 't, 'r) GreedySearch_Cuda = "('f, 't) Search_Cuda" +
  cg_samplingdata :: "('f, 'r) SamplingData"

text \<open>The buffer for the tokens of a step is set to zero; \<open>random_device\<close> gives the seed when the options have none.\<close>

definition GreedySearch_Cuda_new ::
    "schedule \<Rightarrow> ('f, 'r) cuda_lib \<Rightarrow> (nat \<Rightarrow> 'f) \<Rightarrow> (nat \<Rightarrow> int) \<Rightarrow> (nat \<Rightarrow> 'r) \<Rightarrow> int \<Rightarrow> ('f, 't) GeneratorParams
     \<Rightarrow> ('f, 't, 'r) GreedySearch_Cuda res" where
  "GreedySearch_Cuda_new sched lib fresh_f fresh_i fresh_r random_device p =
     res_bind (Search_Cuda_new fresh_i p) (\<lambda>s.
     let seed = (if random_seed (search p) \<noteq> -1 then random_seed (search p) else random_device) in
     res_bind (SamplingData_new sched lib fresh_f fresh_i fresh_r seed (nbatch p) (nvocab p)) (\<lambda>data.
     Inr \<lparr>cs_params = cs_params s, cs_sequences = cs_sequences s, cs_sequence_lengths = cs_sequence_lengths s,
          cs_next_tokens = replicate (nbatch p) 0, cs_next_token_scores = cs_next_token_scores s,
          cs_eos_meet = cs_eos_meet s, cs_done_cpu = cs_done_cpu s, cg_samplingdata = data\<rparr>))"

definition GreedySearch_Cuda_GetNextTokens :: "('f, 't, 'r) GreedySearch_Cuda \<Rightarrow> int list" where
  "GreedySearch_Cuda_GetNextTokens s = cs_next_tokens s"

text \<open>The four methods differ in the arguments of \<open>GetSample\<close> only.\<close>

definition GreedySearch_Cuda_sample ::
    "sampling_run \<Rightarrow> ('f::linorder, 'r) cuda_lib \<Rightarrow> ('f, 'g, 'y) cxx_scheme \<Rightarrow> 'f \<Rightarrow> int \<Rightarrow> 'f \<Rightarrow> 'f
     \<Rightarrow> ('f, 't, 'r) GreedySearch_Cuda \<Rightarrow> ('f, 't, 'r) GreedySearch_Cuda res" where
  "GreedySearch_Cuda_sample sr lib cx ninf k p temp s =
     (let batches = nbatch (cs_params s) in
      res_bind (subspan (cs_next_token_scores s) 0 (batches * nvocab (cs_params s))) (\<lambda>scores.
      if batches = 0 then Inl DivisionByZero else
      res_bind (GetSample sr lib cx ninf scores (length scores div batches) batches k p temp
                  (cg_samplingdata s, cs_next_tokens s)) (\<lambda>(data, sampled).
      GreedySearch_Cuda_select sampled (s\<lparr>cg_samplingdata := data\<rparr>))))"

definition GreedySearch_Cuda_SelectTop ::
    "sampling_run \<Rightarrow> ('f::linorder, 'r) cuda_lib \<Rightarrow> ('f, 'g, 'y) cxx_scheme \<Rightarrow> 'f \<Rightarrow> ('f, 't, 'r) GreedySearch_Cuda \<Rightarrow> ('f, 't, 'r) GreedySearch_Cuda res" where
  "GreedySearch_Cuda_SelectTop sr lib cx ninf = GreedySearch_Cuda_sample sr lib cx ninf 1 (fzero cx) (fone cx)"

definition GreedySearch_Cuda_SampleTopP ::
    "sampling_run \<Rightarrow> ('f::linorder, 'r) cuda_lib \<Rightarrow> ('f, 'g, 'y) cxx_scheme \<Rightarrow> 'f \<Rightarrow> 'f \<Rightarrow> 'f
     \<Rightarrow> ('f, 't, 'r) GreedySearch_Cuda \<Rightarrow> ('f, 't, 'r) GreedySearch_Cuda res" where
  "GreedySearch_Cuda_SampleTopP sr lib cx ninf p temp = GreedySearch_Cuda_sample sr lib cx ninf (-1) p temp"

definition GreedySearch_Cuda_SampleTopK ::
    "sampling_run \<Rightarrow> ('f::linorder, 'r) cuda_lib \<Rightarrow> ('f, 'g, 'y) cxx_scheme \<Rightarrow> 'f \<Rightarrow> int \<Rightarrow> 'f
     \<Rightarrow> ('f, 't, 'r) GreedySearch_Cuda \<Rightarrow> ('f, 't, 'r) GreedySearch_Cuda res" where
  "GreedySearch_Cuda_SampleTopK sr lib cx ninf k temp = GreedySearch_Cuda_sample sr lib cx ninf k (fzero cx) temp"

definition GreedySearch_Cuda_SampleTopKTopP ::
    "sampling_run \<Rightarrow> ('f::linorder, 'r) cuda_lib \<Rightarrow> ('f, 'g, 'y) cxx_scheme \<Rightarrow> 'f \<Rightarrow> int \<Rightarrow> 'f \<Rightarrow> 'f
     \<Rightarrow> ('f, 't, 'r) GreedySearch_Cuda \<Rightarrow> ('f, 't, 'r) GreedySearch_Cuda res" where
  "GreedySearch_Cuda_SampleTopKTopP sr lib cx ninf k p temp = GreedySearch_Cuda_sample sr lib cx ninf k p temp"

end
