(* ===== verification/CudaSearchLaws.thy ===== *)
theory CudaSearchLaws
  imports CudaSearch
begin

text \<open>
  Laws of the device searches: the score kernels compute, under every order of their threads, what the CPU search
  computes, and a step of the device beam search meets the specification of a step of the CPU beam search.
\<close>

section \<open>One cell per thread\<close>


lemma launch_line:
  assumes "fair sched" and "0 < bx"
  shows "launch sched (one_dim\<lparr>dim_x := gx\<rparr>) (one_dim\<lparr>dim_x := bx\<rparr>) body s = for_res (\<lambda>t. body t 0) (sched [0..<gx * bx]) s"
  unfolding launch_def
proof (intro for_res_cong refl)
  let ?g = "one_dim\<lparr>dim_x := gx\<rparr>" and ?b = "one_dim\<lparr>dim_x := bx\<rparr>"
  have n: "thread_count ?g ?b = gx * bx" by (simp add: thread_count_def one_dim_def)
  show "sched [0..<thread_count ?g ?b] = sched [0..<gx * bx]" by (simp add: n)
  fix t u assume "t \<in> set (sched [0..<gx * bx])"
  then have "t < gx * bx" using fair_set [OF assms(1), of "[0..<gx * bx]"] by simp
  then have "t div bx < gx" by (simp add: less_mult_imp_div_less)
  then show "body (thread_x ?g ?b t) (thread_y ?g ?b t) u = body t 0 u"
    using assms(2) by (simp add: thread_x_def thread_y_def one_dim_def)
qed

text \<open>Threads that each change a cell of their own.\<close>

lemma for_res_cells:
  assumes "distinct ts" and "inj_on pos {t \<in> set ts. P t}"
    and "\<And>t d. t \<in> set ts \<Longrightarrow> length d = n \<Longrightarrow> body t d = (if P t then Inr (d[pos t := f t (d ! pos t)]) else Inr d)"
    and "\<And>t. t \<in> set ts \<Longrightarrow> P t \<Longrightarrow> pos t < n" and "length d = n"
  shows "\<exists>d'. for_res body ts d = Inr d' \<and> length d' = n
     \<and> (\<forall>t\<in>set ts. P t \<longrightarrow> d' ! pos t = f t (d ! pos t)) \<and> (\<forall>k<n. k \<notin> pos ` {t \<in> set ts. P t} \<longrightarrow> d' ! k = d ! k)"
  using assms
proof (induction ts arbitrary: d)
  case (Cons t ts)
  define d1 where "d1 = (if P t then d[pos t := f t (d ! pos t)] else d)"
  have d1: "body t d = Inr d1" "length d1 = n" using Cons.prems(3) [of t d] Cons.prems(5) by (auto simp: d1_def)
  have "\<exists>d'. for_res body ts d1 = Inr d' \<and> length d' = n
     \<and> (\<forall>t\<in>set ts. P t \<longrightarrow> d' ! pos t = f t (d1 ! pos t)) \<and> (\<forall>k<n. k \<notin> pos ` {t \<in> set ts. P t} \<longrightarrow> d' ! k = d1 ! k)"
    using Cons.prems d1(2) by (intro Cons.IH) (auto intro: inj_on_subset)
  then obtain d' where d': "for_res body ts d1 = Inr d'" "length d' = n" "\<forall>t\<in>set ts. P t \<longrightarrow> d' ! pos t = f t (d1 ! pos t)"
      "\<forall>k<n. k \<notin> pos ` {t \<in> set ts. P t} \<longrightarrow> d' ! k = d1 ! k" by blast
  have other: "pos u \<noteq> pos t" if "u \<in> set ts" "P u" "P t" for u
  proof
    assume "pos u = pos t"
    then have "u = t" using that inj_onD [OF Cons.prems(2), of u t] by simp
    then show False using that(1) Cons.prems(1) by simp
  qed
  have "d' ! pos u = f u (d ! pos u)" if u: "u \<in> set (t # ts)" "P u" for u
  proof (cases "u \<in> set ts")
    case True
    then show ?thesis using d'(3) other [OF True u(2)] u(2) by (cases "P t") (simp_all add: d1_def)
  next
    case False
    then have "u = t" using u(1) by simp
    moreover have "pos t \<notin> pos ` {u \<in> set ts. P u}" using other u(2) \<open>u = t\<close> by (metis (no_types, lifting) imageE mem_Collect_eq)
    ultimately show ?thesis using d'(4) Cons.prems(4,5) u by (auto simp: d1_def)
  qed
  moreover have "d' ! k = d ! k" if "k < n" "k \<notin> pos ` {u \<in> set (t # ts). P u}" for k
  proof -
    have "d' ! k = d1 ! k" using d'(4) that by auto
    moreover have "P t \<longrightarrow> k \<noteq> pos t" using that(2) by auto
    ultimately show ?thesis by (cases "P t") (auto simp: d1_def)
  qed
  ultimately show ?case using d1(1) d'(1,2) by auto
qed simp

lemma launch256_map:
  fixes d :: "'f list"
  assumes fair: "fair sched" and d: "length d = n"
    and body: "\<And>i (e :: 'f list). length e = n \<Longrightarrow> body i 0 e = (if i < n then Inr (e[i := f i (e ! i)]) else Inr e)"
  shows "launch256 sched n body d = Inr (map (\<lambda>i. f i (d ! i)) [0..<n])"
proof -
  let ?g = "(n + 256 - 1) div 256" let ?ts = "sched [0..<?g * 256]"
  have ts: "set ?ts = {0..<?g * 256}" "distinct ?ts" using fair_set [OF fair] fair_distinct [OF fair] by simp_all
  have cover: "n \<le> ?g * 256" using ceil_div_covers [of 256 n] by simp
  have "\<exists>d'. for_res (\<lambda>t. body t 0) ?ts d = Inr d' \<and> length d' = n
     \<and> (\<forall>t\<in>set ?ts. t < n \<longrightarrow> d' ! t = f t (d ! t)) \<and> (\<forall>k<n. k \<notin> (\<lambda>t. t) ` {t \<in> set ?ts. t < n} \<longrightarrow> d' ! k = d ! k)"
    by (rule for_res_cells [OF ts(2)]) (use body d in simp_all)
  then obtain d' where d': "for_res (\<lambda>t. body t 0) ?ts d = Inr d'" "length d' = n" "\<forall>t\<in>set ?ts. t < n \<longrightarrow> d' ! t = f t (d ! t)" by blast
  have "d' = map (\<lambda>i. f i (d ! i)) [0..<n]" using d'(2,3) cover unfolding ts(1) by (intro nth_equalityI) simp_all
  then show ?thesis using d'(1) launch_line [OF fair, of 256 ?g body d] by (simp add: launch256_def)
qed

section \<open>The score kernels\<close>

text \<open>Adding the beam scores gives the scores the CPU beam search ranks.\<close>

lemma LaunchAddProbsKernel_eq:
  assumes fair: "fair sched" and len: "length beam_scores = batch_n * beam_n" "length scores = batch_n * beam_n * vocab"
  shows "LaunchAddProbsKernel sched cx beam_scores batch_n beam_n vocab scores = add_beam_scores cx batch_n beam_n vocab beam_scores scores"
proof -
  have "launch256 sched (batch_n * beam_n * vocab) (AddProbsKernel cx beam_scores vocab (batch_n * beam_n * vocab)) scores
      = Inr (map (\<lambda>i. fadd cx (scores ! i) (beam_scores ! (i div vocab))) [0..<batch_n * beam_n * vocab])"
    by (rule launch256_map [OF fair len(2)]) (use len(1) in \<open>auto simp: AddProbsKernel_def less_mult_imp_div_less\<close>)
  then show ?thesis using add_beam_scores_ok [OF len, of cx] len(2) by (simp add: LaunchAddProbsKernel_def)
qed

text \<open>The part of a device search that the CPU class has too.\<close>

definition cpu_search :: "('f, 't, 'z) Search_Cuda_scheme \<Rightarrow> ('f, 't) Search_Cpu" where
  "cpu_search s = \<lparr>params = cs_params s, sequences = cs_sequences s, sequence_lengths = cs_sequence_lengths s,
     next_tokens = cs_next_tokens s, next_token_scores = cs_next_token_scores s, is_done = cs_done_cpu s\<rparr>"

lemma cpu_search_simps [simp]:
  "params (cpu_search s) = cs_params s" "sequences (cpu_search s) = cs_sequences s" "next_token_scores (cpu_search s) = cs_next_token_scores s"
  "cpu_search (s\<lparr>cs_next_token_scores := sc\<rparr>) = (cpu_search s)\<lparr>next_token_scores := sc\<rparr>"
  by (simp_all add: cpu_search_def)

text \<open>The minimum length: one write per row.\<close>

lemma Cuda_ApplyMinLength_eq:
  fixes s :: "('f, 't, 'z) Search_Cuda_scheme"
  assumes fair: "fair sched" and ready: "scores_ready (cpu_search s)"
    and eos: "0 \<le> eos_token_id (cs_params s)" "eos_token_id (cs_params s) < vocab_size (cs_params s)"
  shows "\<exists>t. Cuda_ApplyMinLength sched cx min_len s = Inr t \<and> ApplyMinLength cx min_len (cpu_search s) = Inr (cpu_search t)"
proof (cases "min_len \<le> int (GetSequenceLength (cs_sequences s))")
  case True
  then show ?thesis by (simp add: Cuda_ApplyMinLength_def ApplyMinLength_def)
next
  case False
  let ?p = "cs_params s" and ?d = "cs_next_token_scores s"
  let ?w = "nvocab ?p" and ?h = "nat (BatchBeamSize ?p)" and ?e = "nat (eos_token_id ?p)"
  let ?g = "(?h + 256 - 1) div 256" let ?ts = "sched [0..<?g * 256]"
  have ew: "?e < ?w" using eos by simp
  have "eos_token_id ?p = int ?e" using eos(1) by simp
  then have ix: "index_of (int (t * ?w) + eos_token_id ?p) = Inr (t * ?w + ?e)" for t by (metis index_of_of_nat of_nat_add)
  have len: "length ?d = ?h * ?w" using ready by (simp add: scores_ready_def)
  have ts: "set ?ts = {0..<?g * 256}" using fair_set [OF fair] by simp
  have cover: "?h \<le> ?g * 256" using ceil_div_covers [of 256 ?h] by simp
  have pos: "t * ?w + ?e < ?h * ?w" if "t < ?h" for t using row_bound_less [OF that ew] .
  have "\<exists>d'. for_res (\<lambda>t. SetScoreProcessor ?h ?w (eos_token_id ?p) (flowest cx) t 0) ?ts ?d = Inr d' \<and> length d' = ?h * ?w
     \<and> (\<forall>k<?h * ?w. d' ! k = (if k \<in> (\<lambda>t. t * ?w + ?e) ` {t \<in> set ?ts. t < ?h} then flowest cx else ?d ! k))"
    by (rule for_res_scatter) (use pos len in \<open>simp_all add: SetScoreProcessor_def ix not_le del: of_nat_mult\<close>)
  then obtain d' where d': "for_res (\<lambda>t. SetScoreProcessor ?h ?w (eos_token_id ?p) (flowest cx) t 0) ?ts ?d = Inr d'" "length d' = ?h * ?w"
     "\<forall>k<?h * ?w. d' ! k = (if k \<in> (\<lambda>t. t * ?w + ?e) ` {t \<in> set ?ts. t < ?h} then flowest cx else ?d ! k)" by blast
  have rows: "k \<in> (\<lambda>t. t * ?w + ?e) ` {t \<in> set ?ts. t < ?h} \<longleftrightarrow> int (k mod ?w) = eos_token_id ?p" if k: "k < ?h * ?w" for k
  proof
    assume "int (k mod ?w) = eos_token_id ?p"
    then have "k = k div ?w * ?w + ?e" using div_mult_mod_eq [of k ?w] by (metis nat_int)
    moreover have "k div ?w < ?h" using k by (simp add: less_mult_imp_div_less)
    ultimately show "k \<in> (\<lambda>t. t * ?w + ?e) ` {t \<in> set ?ts. t < ?h}" unfolding ts using cover by (intro image_eqI [of _ _ "k div ?w"]) auto
  qed (use row_col [OF ew] eos(1) in auto)
  obtain sc where sc: "ApplyMinLength cx min_len (cpu_search s) = Inr ((cpu_search s)\<lparr>next_token_scores := sc\<rparr>)" "length sc = length ?d"
      "\<forall>j<length sc. sc ! j = (if int (j mod ?w) = eos_token_id ?p then flowest cx else ?d ! j)"
    using ApplyMinLength_scores [OF ready, of cx min_len] eos False by (auto simp: Search_GetSequenceLength_def)
  have "sc = d'" using sc(2,3) d'(2,3) rows len by (intro nth_equalityI) simp_all
  then have "Cuda_ApplyMinLength sched cx min_len s = Inr (s\<lparr>cs_next_token_scores := sc\<rparr>)"
    using False d'(1) launch_line [OF fair, of 256 ?g "SetScoreProcessor ?h ?w (eos_token_id ?p) (flowest cx)" ?d]
    by (simp add: Cuda_ApplyMinLength_def launch256_def Let_def)
  then show ?thesis using sc(1) by simp
qed

text \<open>The repetition penalty: one thread per score, which searches the sequence for its token.\<close>

lemma Cuda_ApplyRepetitionPenalty_eq:
  fixes s :: "('f::linorder, 't, 'z) Search_Cuda_scheme"
  assumes fair: "fair sched" and ready: "scores_ready (cpu_search s)" and inv: "seq_inv (cs_sequences s)" and p: "params_ok (cs_params s)"
    and n: "sq_batch_beam_size (cs_sequences s) = nat (BatchBeamSize (cs_params s))" "sq_max_length (cs_sequences s) = nmax_length (cs_params s)"
    and toks: "\<forall>i<nat (BatchBeamSize (cs_params s)). \<forall>w\<in>set (seq_abs (cs_sequences s) ! i). 0 \<le> w \<and> w < vocab_size (cs_params s)"
  shows "\<exists>t. Cuda_ApplyRepetitionPenalty sched cx penalty s = Inr t \<and> ApplyRepetitionPenalty cx penalty (cpu_search s) = Inr (cpu_search t)"
proof (cases "penalty = fone cx")
  case True
  then show ?thesis by (simp add: Cuda_ApplyRepetitionPenalty_def ApplyRepetitionPenalty_def)
next
  case False
  let ?p = "cs_params s" and ?d = "cs_next_token_scores s" and ?q = "cs_sequences s"
  let ?w = "nvocab ?p" and ?h = "nat (BatchBeamSize ?p)"
  have len: "length ?d = ?h * ?w" using ready by (simp add: scores_ready_def)
  have view: "subspan (GetSequences ?q) (r * nmax_length ?p) (GetSequenceLength ?q) = Inr (seq_view ?q r)" if r: "r < ?h" for r
  proof -
    have "sq_current_length ?q \<le> sq_max_length ?q" "length (sq_data ?q) = ?h * sq_max_length ?q" using inv n(1) by (auto simp: seq_inv_def)
    then show ?thesis using row_bound [OF r, of "sq_current_length ?q" "sq_max_length ?q"] n(2)
      by (simp add: GetSequences_def GetSequenceLength_def seq_view_def)
  qed
  let ?f = "\<lambda>j x. if int (j mod ?w) \<in> set (seq_view ?q (j div ?w)) then penalize cx penalty x else x"
  let ?k = "RepetitionPenaltyProcessor cx (GetSequences ?q) (nmax_length ?p) ?w (?h * ?w) (GetSequenceLength ?q) penalty"
  have "launch256 sched (?h * ?w) ?k ?d = Inr (map (\<lambda>j. ?f j (?d ! j)) [0..<?h * ?w])"
  proof (rule launch256_map [OF fair len])
    fix i and e :: "'f list" assume e: "length e = ?h * ?w"
    show "?k i 0 e = (if i < ?h * ?w then Inr (e[i := ?f i (e ! i)]) else Inr e)"
      using view [of "i div ?w"] e by (simp add: RepetitionPenaltyProcessor_def Let_def less_mult_imp_div_less not_le)
  qed
  then have cuda: "Cuda_ApplyRepetitionPenalty sched cx penalty s = Inr (s\<lparr>cs_next_token_scores := map (\<lambda>j. ?f j (?d ! j)) [0..<?h * ?w]\<rparr>)"
    using False by (simp add: Cuda_ApplyRepetitionPenalty_def Let_def nat_BatchBeamSize [OF p, symmetric])
  obtain sc where sc: "ApplyRepetitionPenalty cx penalty (cpu_search s) = Inr ((cpu_search s)\<lparr>next_token_scores := sc\<rparr>)" "length sc = length ?d"
      "\<forall>j<length sc. sc ! j = (if int (j mod ?w) \<in> set (seq_abs ?q ! (j div ?w)) then penalize cx penalty (?d ! j) else ?d ! j)"
    using ApplyRepetitionPenalty_scores [OF ready, of cx penalty] inv n(1) toks False by auto
  have "j div ?w < ?h" if "j < ?h * ?w" for j using that by (simp add: less_mult_imp_div_less)
  then have "sc = map (\<lambda>j. ?f j (?d ! j)) [0..<?h * ?w]" using sc(2,3) len n(1) by (intro nth_equalityI) simp_all
  then show ?thesis using cuda sc(1) by simp
qed

section \<open>The candidates of the selection\<close>

definition entries :: "nat \<Rightarrow> 'f list \<times> int list \<times> int list \<Rightarrow> ('f \<times> int \<times> int) list" where
  "entries n d = map (\<lambda>i. entry_at i d) [0..<n]"

lemma cand_of_entries:
  "triples_of n d \<Longrightarrow> cand_of_array (entries n d) = \<lparr>next_scores = fst d, cand_tokens = fst (snd d), next_indices = snd (snd d)\<rparr>"
  by (auto simp: cand_of_array_def entries_def entry_at_def triples_of_def comp_def intro: nth_equalityI)

lemma flat_best_first:
  assumes best: "is_best k (flat_cand scores m b ` {..<m}) l" and k: "k \<le> m" and len: "b * m + m \<le> length scores"
  shows "best_first k (scored (take m (drop (b * m) scores))) (map (\<lambda>c. (fst c, nat (snd c))) l)"
proof -
  let ?q = "scored (take m (drop (b * m) scores))" and ?f = "\<lambda>c. (fst c, nat (snd c))" and ?C = "flat_cand scores m b ` {..<m}"
  have l: "sorted_wrt beats l" "set l \<subseteq> ?C" "length l = min k (card ?C)" "\<forall>x\<in>set l. \<forall>c\<in>?C - set l. beats x c"
    using best unfolding is_best_def by blast+
  have key: "0 \<le> snd c" if "c \<in> ?C" for c using that by (auto simp: flat_cand_def)
  have "card ?C = m" by (subst card_image) (auto simp: inj_on_def flat_cand_def)
  then have "length l = k" using l(3) k by simp
  moreover have "distinct (map ?f l)" unfolding distinct_map
    using is_best_distinct [OF best] l(2) key by (auto simp: inj_on_def prod_eq_iff) (meson eq_nat_nat_iff subsetD)
  moreover have q: "x \<in> set ?q \<longleftrightarrow> snd x < m \<and> fst x = scores ! (b * m + snd x)" for x unfolding scored_mem using len by auto
  have "?f c \<in> set ?q" if "c \<in> ?C" for c unfolding q using that by (auto simp: flat_cand_def)
  then have "set (map ?f l) \<subseteq> set ?q" unfolding set_map using l(2) by blast
  moreover have "sorted_wrt (\<lambda>a b. fst b \<le> fst a) (map ?f l)"
    unfolding sorted_wrt_map using l(1) by (rule sorted_wrt_mono_rel [rotated]) (auto simp: beats_def)
  moreover have "fst x \<le> fst v" if x: "x \<in> set ?q - set (map ?f l)" and v: "v \<in> set (map ?f l)" for x v
  proof -
    obtain c where c: "c \<in> set l" "v = ?f c" using v by auto
    have "(fst x, int (snd x)) \<in> ?C" using x q by (auto simp: flat_cand_def image_iff)
    moreover have "(fst x, int (snd x)) \<notin> set l"
    proof
      assume "(fst x, int (snd x)) \<in> set l"
      then have "?f (fst x, int (snd x)) \<in> set (map ?f l)" by (simp only: set_map) (rule imageI)
      then show False using x by simp
    qed
    ultimately have "beats c (fst x, int (snd x))" using l(4) c(1) by blast
    then show ?thesis using c(2) by (auto simp: beats_def)
  qed
  ultimately show ?thesis unfolding best_first_def length_map by blast
qed

lemma entries_candidate_rows:
  assumes d: "triples_of (B * (2 * n)) d" and ok: "\<forall>b<B. entry_ok scores n V (2 * n) b d" and v: "2 \<le> V"
    and len: "length scores = B * n * V"
  shows "candidate_rows B n V scores (entries (B * (2 * n)) d)"
  unfolding candidate_rows_def
proof (intro conjI allI impI)
  fix b assume b: "b < B"
  let ?e = "\<lambda>i. entry_at (b * (2 * n) + i) d" and ?c = "\<lambda>(v, token, beam). (v, beam * int V + token)"
  let ?l = "map (\<lambda>i. ?c (?e i)) [0..<2 * n]"
  have e: "is_best (2 * n) (flat_cand scores (n * V) b ` {..<n * V}) ?l"
      "\<And>i. i < 2 * n \<Longrightarrow> (case ?e i of (v, token, beam) \<Rightarrow> 0 \<le> token \<and> token < int V \<and> 0 \<le> beam)"
    using ok b by (fastforce simp: entry_ok_def Let_def)+
  have k: "2 * n \<le> n * V" using v by (metis mult.commute mult_le_mono2)
  have bd: "b * (n * V) + n * V \<le> length scores" using row_bound [OF b order_refl, of "n * V"] len by (simp add: mult.assoc)
  let ?vs = "map (\<lambda>c. (fst c, nat (snd c))) ?l"
  have "best_first (2 * n) (scored (entry_scores n V scores b)) ?vs"
    using flat_best_first [OF e(1) k bd] by (simp add: entry_scores_def mult.assoc)
  moreover have "take (2 * n) (drop (b * (2 * n)) (entries (B * (2 * n)) d)) = map (candidate_of V) ?vs"
  proof (rule nth_equalityI)
    have bnd: "b * (2 * n) + 2 * n \<le> B * (2 * n)" using row_bound [OF b order_refl] .
    then show "length (take (2 * n) (drop (b * (2 * n)) (entries (B * (2 * n)) d))) = length (map (candidate_of V) ?vs)" by (simp add: entries_def)
    fix i assume "i < length (take (2 * n) (drop (b * (2 * n)) (entries (B * (2 * n)) d)))"
    then have i: "i < 2 * n" by simp
    obtain v token beam where eq: "?e i = (v, token, beam)" by (metis prod.exhaust)
    have t: "0 \<le> token" "token < int V" "0 \<le> beam" using e(2) [OF i] eq by auto
    have "nat (beam * int V + token) = nat beam * V + nat token" using t by (simp add: nat_add_distrib nat_mult_distrib)
    moreover have "nat token < V" using t by linarith
    ultimately have "candidate_of V (v, nat (beam * int V + token)) = (v, token, beam)"
      using row_col [of "nat token" V "nat beam"] t by (simp add: candidate_of_def)
    moreover have "b * (2 * n) \<le> length (entries (B * (2 * n)) d)" using bnd by (simp only: entries_def length_map length_upt)
    then have "drop (b * (2 * n)) (entries (B * (2 * n)) d) ! i = ?e i" using bnd i by (subst nth_drop) (simp_all add: entries_def)
    ultimately show "take (2 * n) (drop (b * (2 * n)) (entries (B * (2 * n)) d)) ! i = map (candidate_of V) ?vs ! i"
      using i eq by simp
  qed
  ultimately show "\<exists>vs. take (2 * n) (drop (b * (2 * n)) (entries (B * (2 * n)) d)) = map (candidate_of V) vs
      \<and> best_first (2 * n) (scored (entry_scores n V scores b)) vs" by blast
qed (simp add: entries_def)

section \<open>A step of the device beam search\<close>

text \<open>The CPU beam search a device beam search stands for.\<close>

definition cpu_beam :: "('f, 't) BeamSearch_Cuda \<Rightarrow> ('f, 't) BeamSearch_Cpu" where
  "cpu_beam s = \<lparr>params = cs_params s, sequences = cs_sequences s, sequence_lengths = cs_sequence_lengths s,
     next_tokens = cs_next_tokens s, next_token_scores = cs_next_token_scores s, is_done = BeamSearch_Cuda_IsDone s,
     beam_scorer = bc_device (cb_scorer s)\<rparr>"

lemma cpu_beam_simps [simp]:
  "params (cpu_beam s) = cs_params s" "sequences (cpu_beam s) = cs_sequences s" "next_token_scores (cpu_beam s) = cs_next_token_scores s"
  "is_done (cpu_beam s) = BeamSearch_Cuda_IsDone s" "beam_scorer (cpu_beam s) = bc_device (cb_scorer s)"
  by (simp_all add: cpu_beam_def)

definition beam_cuda_inv :: "('f::linorder, 't) BeamSearch_Cuda \<Rightarrow> bool" where
  "beam_cuda_inv s \<longleftrightarrow> beam_inv (cpu_beam s) \<and> num_beams (search (cs_params s)) \<le> 32
     \<and> 2 * nbeams (cs_params s) \<le> nvocab (cs_params s)
     \<and> bs_max_length (bc_device (cb_scorer s)) = nmax_length (cs_params s) \<and> \<not> IsDoneLater (cb_scorer s)
     \<and> triples_of (nbatch (cs_params s) * (2 * nbeams (cs_params s))) (cb_topk_next s)
     \<and> cb_topk_buffer_size s = nat (BatchBeamSize (cs_params s)) * 129 * nbeams (cs_params s) * 2 * 2"

text \<open>What is relied on of the device: every thread runs, and the block reduction combines the values of its threads.\<close>

definition cuda_ok :: "'f cuda_device \<Rightarrow> bool" where
  "cuda_ok dv \<longleftrightarrow> fair (dv_add dv) \<and> fair (dv_stage1 dv) \<and> fair (dv_stage2 dv) \<and> (\<forall>x. fair (dv_load dv x)) \<and> fair (dv_batch dv)
     \<and> fair (dv_process dv) \<and> fair (dv_append1 dv) \<and> fair (dv_append2 dv) \<and> block_reduce_ok (dv_reduce dv)"

lemma BeamSearch_Cuda_topk_ok:
  assumes inv: "beam_cuda_inv s" and dv: "cuda_ok dv" and len: "length scores = nbatch (cs_params s) * nbeams (cs_params s) * nvocab (cs_params s)"
    and ninf: "\<forall>x\<in>set scores. ninf < x"
  shows "\<exists>d. BeamSearch_Cuda_topk dv ninf scores s = Inr d \<and> triples_of (nbatch (cs_params s) * (2 * nbeams (cs_params s))) d
     \<and> candidate_rows (nbatch (cs_params s)) (nbeams (cs_params s)) (nvocab (cs_params s)) scores
         (entries (nbatch (cs_params s) * (2 * nbeams (cs_params s))) d)"
proof -
  let ?p = "cs_params s" let ?B = "nbatch ?p" and ?n = "nbeams ?p" and ?V = "nvocab ?p"
  have p: "params_ok ?p" "1 \<le> num_beams (search ?p)" "num_beams (search ?p) \<le> 32" "2 * ?n \<le> ?V" "2 \<le> ?V"
      "triples_of (?B * (2 * ?n)) (cb_topk_next s)"
    using inv by (auto simp: beam_cuda_inv_def beam_inv_def le_nat_iff)
  have pos: "0 < ?B" "0 < ?n" "2 * ?n \<le> 64" using p(1-3) by (auto simp: params_ok_def)
  have BB: "nat (BatchBeamSize ?p) = ?B * ?n" by (rule nat_BatchBeamSize [OF p(1)])
  let ?cc = "?B * ?n * 2 * ?n"
  have piece: "arrays_of (?B * ?n * 128 * (2 * ?n)) (topk_piece dv (?cc * 128))" "arrays_of (?B * ?n * (2 * ?n)) (topk_piece dv ?cc)"
    by (simp_all add: arrays_of_def topk_piece_def)
  have "\<exists>d. BeamSearchTopK (dv_reduce dv) (dv_stage1 dv) (dv_stage2 dv) (dv_load dv) (dv_batch dv) (dv_scratch dv) ninf
        scores ?B ?n ?V (2 * ?n) (topk_piece dv (?cc * 128)) (topk_piece dv ?cc) (cb_topk_next s) = Inr d
      \<and> triples_of (?B * (2 * ?n)) d \<and> (\<forall>b<?B. entry_ok scores ?n ?V (2 * ?n) b d)"
    by (rule BeamSearchTopK_ok) (use dv pos p(4,6) len ninf piece in \<open>simp_all add: cuda_ok_def\<close>)
  then obtain d where d: "BeamSearchTopK (dv_reduce dv) (dv_stage1 dv) (dv_stage2 dv) (dv_load dv) (dv_batch dv) (dv_scratch dv) ninf
        scores ?B ?n ?V (2 * ?n) (topk_piece dv (?cc * 128)) (topk_piece dv ?cc) (cb_topk_next s) = Inr d"
      "triples_of (?B * (2 * ?n)) d" "\<forall>b<?B. entry_ok scores ?n ?V (2 * ?n) b d" by blast
  have "BeamSearch_Cuda_topk dv ninf scores s = Inr d"
    using inv p(3) d(1) by (simp add: BeamSearch_Cuda_topk_def Let_def beam_cuda_inv_def BB)
  then show ?thesis using d(2) entries_candidate_rows [OF d(2,3) p(5) len] by blast
qed

lemma BeamSearch_Cuda_SelectTop_ok:
  assumes inv: "beam_cuda_inv s" and dv: "cuda_ok dv" and ready: "scores_ready (cpu_beam s)"
    and room: "GetSequenceLength (cs_sequences s) < nmax_length (cs_params s)" and ninf: "\<forall>x\<in>set (ranked_scores cx (cpu_beam s)). ninf < x"
  shows "\<exists>s'. BeamSearch_Cuda_SelectTop dv cx ninf s = Inr s' \<and> beam_cuda_inv s' \<and> beam_step_post cx (cpu_beam s) (cpu_beam s')"
proof -
  let ?p = "cs_params s" and ?c = "cb_scorer s" and ?sq = "cs_sequences s" and ?r = "ranked_scores cx (cpu_beam s)"
  let ?B = "nbatch ?p" and ?n = "nbeams ?p" and ?V = "nvocab ?p" and ?sc = "bc_device (cb_scorer s)"
  have b: "beam_inv (cpu_beam s)" using inv by (simp add: beam_cuda_inv_def)
  have cfg: "bs_batch_size ?sc = ?B" "bs_num_beams ?sc = ?n" "0 < ?n" "scorer_inv ?sc" "seq_inv_beam ?sq" "sq_batch_beam_size ?sq = ?B * ?n"
      "sq_max_length ?sq = nmax_length ?p" "params_ok ?p" "bs_max_length ?sc = sq_max_length ?sq" "0 < ?B" "\<not> IsDoneLater ?c"
    using inv by (auto simp: beam_cuda_inv_def beam_inv_def params_ok_def)
  have BB: "nat (BatchBeamSize ?p) = ?B * ?n" by (rule nat_BatchBeamSize [OF cfg(8)])
  have rl: "length (cs_next_token_scores s) = ?B * ?n * ?V" using ready BB by (simp add: scores_ready_def)
  have bl: "length (bs_next_scores ?sc) = ?B * ?n" using cfg by (simp add: scorer_inv_def)
  have add: "LaunchAddProbsKernel (dv_add dv) cx (bs_next_scores ?sc) ?B ?n ?V (cs_next_token_scores s) = Inr ?r"
    using LaunchAddProbsKernel_eq [where sched = "dv_add dv" and cx = cx, OF _ bl rl] add_beam_scores_ok [OF bl rl, of cx] dv by (simp add: cuda_ok_def ranked_scores_def)
  have sl: "length ?r = ?B * ?n * ?V" using rl by (simp add: ranked_scores_def)
  obtain d where d: "BeamSearch_Cuda_topk dv ninf ?r s = Inr d" "triples_of (?B * (2 * ?n)) d" "candidate_rows ?B ?n ?V ?r (entries (?B * (2 * ?n)) d)"
    using BeamSearch_Cuda_topk_ok [OF inv dv sl ninf] by blast
  let ?arr = "entries (?B * (2 * ?n)) d"
  have co: "cand_ok ?sc (cand_of_array ?arr)" using candidate_rows_cand_ok [of ?sc ?V ?r ?arr] d(3) sl cfg by simp
  have so: "store_ok ?sc ?sq" using cfg by (simp add: store_ok_def seq_inv_beam_def)
  let ?len = "GetSequenceLength ?sq"
  have room': "bs_hyp_used ?sc + ?B * ?n * (?len + (\<Sum>l=Suc ?len..<nmax_length ?p. l)) \<le> bs_hyp_size ?sc"
    using b room sum_step [of ?len "nmax_length ?p"] by (simp add: beam_inv_def)
  then have hyp: "bs_hyp_used ?sc + bs_batch_size ?sc * (bs_num_beams ?sc * ?len) \<le> bs_hyp_size ?sc" using cfg by (simp add: distrib_left mult.assoc)
  have fair: "fair (dv_process dv)" "fair (dv_append1 dv)" "fair (dv_append2 dv)" using dv by (simp_all add: cuda_ok_def)
  obtain t sq' where t: "Process_Cuda (dv_process dv) (dv_append1 dv) (dv_append2 dv) cx (cand_of_array ?arr) (?c, ?sq) = Inr (?c\<lparr>bc_device := t\<rparr>, sq')"
      "scorer_inv t" "same_config ?sc t" "\<forall>i<bs_batch_size ?sc. entry_post cx (cand_of_array ?arr) ?sc i t"
      "seq_inv_beam (AfterDeviceAppendedNextToken sq')"
      "seq_abs (AfterDeviceAppendedNextToken sq') = map2 (\<lambda>i token. seq_abs ?sq ! nat i @ [token]) (bs_next_indices t) (bs_next_tokens t)"
      "bs_hyp_used t \<le> bs_hyp_used ?sc + bs_batch_size ?sc * (bs_num_beams ?sc * ?len)"
      "sq_batch_beam_size sq' = sq_batch_beam_size ?sq" "sq_max_length sq' = sq_max_length ?sq" "sq_current_length sq' = sq_current_length ?sq"
      "\<forall>i\<in>set (bs_next_indices t). 0 \<le> i \<and> i < int (sq_batch_beam_size ?sq)"
    using Process_Cuda_ok [OF cfg(4) so co cfg(5) hyp _ cfg(9) _ fair, of cx] cfg(1,7,10) room by (auto simp: GetSequenceLength_def)
  let ?s = "s\<lparr>cs_next_token_scores := ?r, cb_topk_next := d, cb_scorer := ?c\<lparr>bc_device := t\<rparr>,
      cs_next_tokens := bs_next_tokens t, cs_sequences := AfterDeviceAppendedNextToken sq'\<rparr>"
  have spans: "fst d = take (?B * ?n * 2) (fst d)" "fst (snd d) = take (?B * ?n * 2) (fst (snd d))" "snd (snd d) = take (?B * ?n * 2) (snd (snd d))"
      "?B * ?n * 2 \<le> length (fst d)" "?B * ?n * 2 \<le> length (fst (snd d))" "?B * ?n * 2 \<le> length (snd (snd d))"
    using d(2) by (simp_all add: triples_of_def)
  have eq: "BeamSearch_Cuda_SelectTop dv cx ninf s = Inr ?s"
    using add d(1) t(1) spans by (simp add: BeamSearch_Cuda_SelectTop_def Let_def BB cand_of_entries [OF d(2)])
  have len': "GetSequenceLength (AfterDeviceAppendedNextToken sq') = Suc ?len"
    using t(10) by (simp add: AfterDeviceAppendedNextToken_def GetSequenceLength_def)
  have fin: "BeamSearch_Cuda_IsDone ?s \<longleftrightarrow> int (Suc ?len) = max_length (search ?p)" using cfg(11) len' by (simp add: BeamSearch_Cuda_IsDone_def IsDoneLater_def)
  have old: "\<not> BeamSearch_Cuda_IsDone s" using cfg(11) room by (auto simp: BeamSearch_Cuda_IsDone_def)
  have hyp': "bs_hyp_used t + ?B * ?n * (\<Sum>l=Suc ?len..<nmax_length ?p. l) \<le> bs_hyp_size t"
    using room' t(3,7) cfg by (simp add: distrib_left mult.assoc same_config_def)
  have store: "sq_batch_beam_size (AfterDeviceAppendedNextToken sq') = ?B * ?n" "sq_max_length (AfterDeviceAppendedNextToken sq') = nmax_length ?p"
    using t(8,9) cfg(6,7) by (simp_all add: AfterDeviceAppendedNextToken_def)
  have scorer: "bs_batch_size t = ?B" "bs_num_beams t = ?n" using t(3) cfg(1,2) by (simp_all add: same_config_def)
  have idx: "indices_ok (?B * ?n) (bs_next_indices t)" using t(11) unfolding cfg(6) indices_ok_def .
  have end_: "BeamSearch_Cuda_IsDone ?s" if "Suc ?len = nmax_length ?p" unfolding fin using that cfg(8) by (simp add: params_ok_def)
  have "1 \<le> num_beams (search ?p)" "2 \<le> vocab_size ?p" using b by (simp_all add: beam_inv_def)
  then have "beam_inv (cpu_beam ?s)"
    unfolding beam_inv_def cpu_beam_simps using cfg(8) t(2,5) store scorer idx hyp' len' end_ by simp
  then have "beam_cuda_inv ?s"
    using inv t(3) d(2) by (simp add: beam_cuda_inv_def same_config_def IsDoneLater_def)
  moreover have "beam_step_post cx (cpu_beam s) (cpu_beam ?s)"
    using len' t(4,6) d(3) cfg(1) fin old
    by (auto simp: beam_step_post_def Search_GetSequenceLength_def BeamSearch_GetNextIndices_def BeamSearch_GetNextTokens_def)
  ultimately show ?thesis using eq by blast
qed


definition example_dv :: "int cuda_device" where
  "example_dv = \<lparr>dv_add = rev, dv_stage1 = rev, dv_stage2 = rev, dv_load = (\<lambda>x. rev), dv_batch = rev, dv_process = rev,
     dv_append1 = rev, dv_append2 = rev, dv_reduce = reduce_left, dv_scratch = (\<lambda>i. 0, \<lambda>i. 0)\<rparr>"

definition example_beam_cuda :: "(int, unit) BeamSearch_Cuda" where
  "example_beam_cuda = \<lparr>cs_params = example_params\<lparr>search := example_search\<lparr>num_beams := 2\<rparr>, vocab_size := 4\<rparr>,
     cs_sequences = example_store, cs_sequence_lengths = [0, 0, 0, 0], cs_next_tokens = [],
     cs_next_token_scores = [3, 9, 5, 0, 4, 1, 8, 0, 7, 2, 6, 0, 1, 2, 3, 0], cs_eos_meet = [False, False, False, False],
     cs_done_cpu = False, cb_scorer = example_device, cb_topk_next = (replicate 8 0, replicate 8 0, replicate 8 0),
     cb_topk_buffer_size = 4128\<rparr>"

lemma example_beam_cuda_inv: "beam_cuda_inv example_beam_cuda"
proof -
  have "(\<Sum>l=Suc 0..<3. l) = (3::nat)" by (simp add: numeral_eq_Suc)
  then have "beam_inv (cpu_beam example_beam_cuda)"
    using example_scorer_inv
    by (simp add: beam_inv_def example_beam_cuda_def example_params_defs params_ok_def example_store_def BeamSearch_Cuda_IsDone_def
        seq_inv_beam_def seq_inv_def GetSequenceLength_def example_scorer_def example_device_def indices_ok_def)
  then show ?thesis
    by (simp add: beam_cuda_inv_def example_beam_cuda_def example_params_defs BatchBeamSize_def triples_of_def IsDoneLater_def
        example_device_def example_scorer_def)
qed

lemma example_dv_ok: "cuda_ok example_dv"
  by (simp add: cuda_ok_def example_dv_def fair_rev reduce_left_ok)


end
