(* ===== verification/CudaSoftmaxLaws.thy ===== *)
theory CudaSoftmaxLaws
  imports CudaSoftmax
begin

text \<open>
  Laws of the softmax kernels: the access patterns of the threads of a block visit every element of a row exactly once,
  so the reductions combine every element once, in an order that depends on the size and the alignment of the row, and
  every result is written once.
\<close>

section \<open>Work shared among threads\<close>

text \<open>Every index below \<open>n\<close> belongs to one thread, and a thread visits its indices once.\<close>

lemma owner_cover:
  assumes "\<And>t. t < bs \<Longrightarrow> distinct (f t)" and "\<And>t i. t < bs \<Longrightarrow> i \<in> set (f t) \<longleftrightarrow> i < n \<and> owner i = t" and "\<And>i. i < n \<Longrightarrow> owner i < bs"
  shows "mset (concat (map f [0..<bs])) = mset [0..<n]"
proof -
  have part: "distinct (concat (map f [0..<m])) \<and> set (concat (map f [0..<m])) = {i. i < n \<and> owner i < m}" if "m \<le> bs" for m
    using that
  proof (induction m)
    case (Suc m)
    have "i \<in> set (f m) \<longleftrightarrow> i < n \<and> owner i = m" for i using assms(2) [of m i] Suc.prems by simp
    then have fm: "set (f m) = {i. i < n \<and> owner i = m}" by blast
    have IH: "distinct (concat (map f [0..<m]))" "set (concat (map f [0..<m])) = {i. i < n \<and> owner i < m}" using Suc by simp_all
    have "concat (map f [0..<Suc m]) = concat (map f [0..<m]) @ f m" by simp
    moreover have "distinct (concat (map f [0..<m]) @ f m)" unfolding distinct_append IH fm using IH(1) assms(1) [of m] Suc.prems by auto
    moreover have "set (concat (map f [0..<m]) @ f m) = {i. i < n \<and> owner i < Suc m}" unfolding set_append IH fm by auto
    ultimately show ?case by simp
  qed simp
  have "set (concat (map f [0..<bs])) = set [0..<n]" using part [of bs] assms(3) by auto
  then show ?thesis using part [of bs] by (simp only: set_eq_iff_mset_eq_distinct [symmetric] distinct_upt)
qed

text \<open>Groups of \<open>ilp\<close> neighbours.\<close>

lemma group_iff: "0 < g \<Longrightarrow> o1 * g \<le> i \<and> i < o1 * g + g \<longleftrightarrow> i div g = (o1::nat)"
  by (metis div_nat_eqI dividend_less_div_times div_times_less_eq_dividend mult.commute mult_Suc_right add.commute)

lemma set_groups: "0 < g \<Longrightarrow> i \<in> set (concat (map (\<lambda>k. [k * g..<k * g + g]) xs)) \<longleftrightarrow> i div g \<in> set xs"
  by (simp add: group_iff)

lemma distinct_groups: "0 < g \<Longrightarrow> distinct xs \<Longrightarrow> distinct (concat (map (\<lambda>k. [k * g..<k * g + g]) xs))"
proof (induction xs)
  case (Cons x xs)
  then have "set [x * g..<x * g + g] \<inter> set (concat (map (\<lambda>k. [k * g..<k * g + g]) xs)) = {}"
    using set_groups [of g _ xs] set_groups [of g _ "[x]"] by fastforce
  then show ?case using Cons by simp
qed simp

lemma strided_from_0: "t < bs \<Longrightarrow> i \<in> set (strided t m bs) \<longleftrightarrow> i < m \<and> i mod bs = t"
  using strided_of_residue [of t bs i 0 m] by simp

text \<open>The thread that visits an element in the aligned pattern.\<close>

definition ilp_part_owner :: "nat \<Rightarrow> nat \<Rightarrow> nat \<Rightarrow> nat \<Rightarrow> nat" where
  "ilp_part_owner ilp bs sz i = (let a = sz - sz mod (ilp * bs) in if i < a then (i div ilp) mod bs else (i - a) mod bs)"

definition ilp_part :: "nat \<Rightarrow> nat \<Rightarrow> nat \<Rightarrow> nat \<Rightarrow> nat list" where
  "ilp_part ilp bs sz tid = (let last = sz mod (ilp * bs) in
     concat (map (\<lambda>offset. [offset * ilp..<offset * ilp + ilp]) (strided tid ((sz - last + ilp - 1) div ilp) bs))
     @ strided (sz - last + tid) sz bs)"

lemma ilp_part_ok:
  assumes ilp: "0 < ilp" and t: "t < bs"
  shows "distinct (ilp_part ilp bs sz t) \<and> (i \<in> set (ilp_part ilp bs sz t) \<longleftrightarrow> i < sz \<and> ilp_part_owner ilp bs sz i = t)"
proof -
  let ?a = "sz - sz mod (ilp * bs)"
  have bs: "0 < bs" using t by simp
  have "ilp dvd ?a" using dvd_minus_mod [of "ilp * bs" sz] dvd_mult_left by blast
  then obtain c where c: "?a = ilp * c" by (elim dvdE)
  have m: "(?a + ilp - 1) div ilp = c"
  proof -
    have "ilp * c + ilp - 1 = (ilp - 1) + c * ilp" using ilp by (simp add: mult.commute)
    then show ?thesis unfolding c using ilp div_mult_self1 [of ilp "ilp - 1" c] by simp
  qed
  have main: "j \<in> set (concat (map (\<lambda>k. [k * ilp..<k * ilp + ilp]) (strided t c bs))) \<longleftrightarrow> j < ?a \<and> (j div ilp) mod bs = t" for j
    unfolding set_groups [OF ilp] strided_from_0 [OF t] c using ilp by (simp add: div_less_iff_less_mult mult.commute)
  have tail: "j \<in> set (strided (?a + t) sz bs) \<longleftrightarrow> ?a \<le> j \<and> j < sz \<and> (j - ?a) mod bs = t" for j
  proof -
    have "sz = sz mod (ilp * bs) + ?a" by (simp add: mod_less_eq_dividend)
    then show ?thesis using strided_of_residue [OF t, of j ?a "sz mod (ilp * bs)"] by (simp add: add.commute)
  qed
  have "distinct (concat (map (\<lambda>k. [k * ilp..<k * ilp + ilp]) (strided t c bs)))" by (intro distinct_groups ilp distinct_strided bs)
  moreover have "distinct (strided (?a + t) sz bs)" by (intro distinct_strided bs)
  moreover have "set (concat (map (\<lambda>k. [k * ilp..<k * ilp + ilp]) (strided t c bs))) \<inter> set (strided (?a + t) sz bs) = {}"
    unfolding disjoint_iff main tail by simp
  ultimately have "distinct (ilp_part ilp bs sz t)" unfolding ilp_part_def Let_def m by (simp only: distinct_append)
  moreover have "i \<in> set (ilp_part ilp bs sz t) \<longleftrightarrow> i < sz \<and> ilp_part_owner ilp bs sz i = t"
    unfolding ilp_part_def Let_def m set_append Un_iff main tail ilp_part_owner_def by auto
  ultimately show ?thesis by blast
qed

definition ilp_owner :: "nat \<Rightarrow> nat \<Rightarrow> nat \<Rightarrow> nat \<Rightarrow> nat \<Rightarrow> nat" where
  "ilp_owner ilp bs shift sz i =
     (if shift = 0 then ilp_part_owner ilp bs sz i
      else if i + shift < bs then i + shift else ilp_part_owner ilp bs (sz + shift - bs) (i + shift - bs))"

lemma ilp_indices_ok:
  assumes ilp: "0 < ilp" and t: "t < bs" and shift: "shift \<le> bs"
  shows "distinct (ilp_indices ilp bs shift sz t)" and "i \<in> set (ilp_indices ilp bs shift sz t) \<longleftrightarrow> i < sz \<and> ilp_owner ilp bs shift sz i = t"
proof -
  let ?first = "if 0 < shift \<and> shift \<le> t \<and> t < sz + shift then [t - shift] else []"
  let ?sz = "if 0 < shift then sz + shift - bs else sz" and ?base = "if 0 < shift then bs - shift else 0"
  let ?rest = "map (\<lambda>i. ?base + i) (ilp_part ilp bs ?sz t)"
  have empty: "ilp_part ilp bs 0 t = []" using ilp_part_ok [OF ilp t, of 0] by (metis list.set_intros(1) neq_Nil_conv not_less0)
  have eq: "ilp_indices ilp bs shift sz t = ?first @ ?rest"
    using empty by (simp add: ilp_indices_def ilp_part_def Let_def)
  have rest: "j \<in> set ?rest \<longleftrightarrow> ?base \<le> j \<and> j - ?base < ?sz \<and> ilp_part_owner ilp bs ?sz (j - ?base) = t" for j
  proof -
    have "j \<in> set ?rest \<longleftrightarrow> ?base \<le> j \<and> j - ?base \<in> set (ilp_part ilp bs ?sz t)" by (auto simp: image_iff) (metis le_add_diff_inverse)+
    then show ?thesis using ilp_part_ok [OF ilp t] by blast
  qed
  have "distinct ?rest" using ilp_part_ok [OF ilp t] by (simp add: distinct_map)
  then show "distinct (ilp_indices ilp bs shift sz t)" unfolding eq using rest t by auto
  show "i \<in> set (ilp_indices ilp bs shift sz t) \<longleftrightarrow> i < sz \<and> ilp_owner ilp bs shift sz i = t"
  proof (cases "shift = 0")
    case True
    then show ?thesis unfolding eq using rest [of i] by (simp add: ilp_owner_def)
  next
    case False
    then have "i \<in> set ?rest \<longleftrightarrow> bs \<le> i + shift \<and> i < sz \<and> ilp_part_owner ilp bs (sz + shift - bs) (i + shift - bs) = t"
      unfolding rest using shift by auto
    moreover have "i \<in> set ?first \<longleftrightarrow> i < sz \<and> i + shift = t" using False by auto
    ultimately show ?thesis unfolding eq set_append Un_iff using False t by (auto simp: ilp_owner_def)
  qed
qed

lemma ilp_cover:
  assumes "0 < ilp" and "0 < bs" and "shift \<le> bs"
  shows "mset (concat (map (ilp_indices ilp bs shift sz) [0..<bs])) = mset [0..<sz]"
proof (rule owner_cover [where owner = "ilp_owner ilp bs shift sz"])
  show "ilp_owner ilp bs shift sz i < bs" for i using assms(2) by (simp add: ilp_owner_def ilp_part_owner_def Let_def)
qed (use ilp_indices_ok [OF assms(1) _ assms(3)] in blast)+

text \<open>The pattern without alignment is the plain strided one.\<close>

lemma strided_upt: "0 < s \<Longrightarrow> strided a b s = map (\<lambda>n. a + n * s) [0..<(b - a + s - 1) div s]"
proof (induction a b s rule: strided.induct)
  case (1 a b s)
  show ?case
  proof (cases "a < b")
    case True
    have "(b - a + s - 1) div s = Suc ((b - (a + s) + s - 1) div s)"
    proof (cases "s \<le> b - a")
      case True
      then have "b - a + s - 1 = (b - (a + s) + s - 1) + s" using \<open>0 < s\<close> by simp
      then show ?thesis using \<open>0 < s\<close> by (simp only: div_add_self2)
    next
      case False
      then have "b - a + s - 1 = (b - a - 1) + s" "b - a - 1 < s" "b - (a + s) = 0" using True by simp_all
      then show ?thesis using \<open>0 < s\<close> by (simp only: div_add_self2) simp
    qed
    then show ?thesis using 1 True by (subst strided.simps) (simp add: upt_conv_Cons map_Suc_upt [symmetric] algebra_simps del: upt_Suc)
  qed (use 1 in \<open>simp add: strided.simps [of a]\<close>)
qed

lemma plain_groups:
  "concat (map (\<lambda>n. map (\<lambda>j. t + n * (bs * ilp) + j * bs) [0..<ilp]) [0..<q]) = map (\<lambda>m. t + m * bs) [0..<q * (ilp::nat)]"
proof (induction q)
  case (Suc q)
  have "[0..<Suc q * ilp] = [0..<q * ilp] @ map (\<lambda>j. q * ilp + j) [0..<ilp]"
    using upt_add_eq_append [of 0 "q * ilp" ilp] map_add_upt [of "q * ilp" ilp] by (simp add: add.commute)
  then show ?case using Suc by (simp add: algebra_simps)
qed simp

lemma plain_indices_ok:
  assumes ilp: "0 < ilp" and t: "t < bs"
  shows "distinct (plain_indices ilp bs n t)" and "i \<in> set (plain_indices ilp bs n t) \<longleftrightarrow> i < n \<and> i mod bs = t"
proof -
  let ?W = "bs * ilp" let ?q = "n div ?W"
  have W: "0 < ?W" and bs: "0 < bs" using ilp t by simp_all
  have a: "n - n mod (ilp * bs) = ?q * ?W" by (simp add: minus_mod_eq_mult_div mult.commute)
  have "(?q * ?W - t + ?W - 1) div ?W = ?q"
  proof (cases "?q = 0")
    case False
    then have "?W \<le> ?q * ?W" by simp
    moreover have "bs \<le> ?W" using ilp by simp
    ultimately have "?q * ?W - t + ?W - 1 = ?q * ?W + (?W - t - 1)" "?W - t - 1 < ?W" using t by linarith+
    then show ?thesis using W by (simp only: div_mult_self3) simp
  qed (use W in simp)
  then have off: "strided t (?q * ?W) ?W = map (\<lambda>m. t + m * ?W) [0..<?q]" using strided_upt [OF W] by simp
  have eq: "plain_indices ilp bs n t = map (\<lambda>m. t + m * bs) [0..<?q * ilp] @ strided (t + ?q * ?W) n bs"
    unfolding plain_indices_def Let_def a off by (simp add: comp_def plain_groups)
  have main: "j \<in> set (map (\<lambda>m. t + m * bs) [0..<?q * ilp]) \<longleftrightarrow> j < ?q * ?W \<and> j mod bs = t" for j
  proof
    assume "j < ?q * ?W \<and> j mod bs = t"
    then have "j = t + (j div bs) * bs" "j div bs < ?q * ilp" using bs by (auto simp: less_mult_imp_div_less algebra_simps)
    then show "j \<in> set (map (\<lambda>m. t + m * bs) [0..<?q * ilp])" by auto
  next
    assume "j \<in> set (map (\<lambda>m. t + m * bs) [0..<?q * ilp])"
    then obtain m where m: "m < ?q * ilp" "j = t + m * bs" by auto
    then show "j < ?q * ?W \<and> j mod bs = t" using row_bound_less [OF m(1) t] t by (simp add: algebra_simps)
  qed
  have tail: "j \<in> set (strided (t + ?q * ?W) n bs) \<longleftrightarrow> ?q * ?W \<le> j \<and> j < n \<and> j mod bs = t" for j
  proof -
    have n: "n = n mod ?W + ?q * ?W" by (simp only: mod_div_mult_eq)
    have "(j - ?q * ?W) mod bs = j mod bs" if "?q * ?W \<le> j"
      using that mod_mult_self2 [of "j - ?q * ?W" bs "ilp * ?q"] by (simp add: algebra_simps)
    moreover have "j \<in> set (strided (t + ?q * ?W) n bs) \<longleftrightarrow> ?q * ?W \<le> j \<and> j < ?q * ?W + n mod ?W \<and> (j - ?q * ?W) mod bs = t"
      using strided_of_residue [OF t, of j "?q * ?W" "n mod ?W"] unfolding n [symmetric] .
    ultimately show ?thesis using n by (metis add.commute)
  qed
  have "distinct (map (\<lambda>m. t + m * bs) [0..<?q * ilp])" using bs by (simp add: distinct_map inj_on_def)
  moreover have "set (map (\<lambda>m. t + m * bs) [0..<?q * ilp]) \<inter> set (strided (t + ?q * ?W) n bs) = {}" unfolding disjoint_iff main tail by simp
  ultimately show "distinct (plain_indices ilp bs n t)" unfolding eq distinct_append using distinct_strided [OF bs] by blast
  have "?q * ?W \<le> n" by (simp only: div_times_less_eq_dividend)
  then show "i \<in> set (plain_indices ilp bs n t) \<longleftrightarrow> i < n \<and> i mod bs = t" unfolding eq set_append Un_iff main tail by (meson linorder_not_le order_less_le_trans)
qed

lemma plain_cover:
  assumes "0 < ilp" and "0 < bs"
  shows "mset (concat (map (plain_indices ilp bs n) [0..<bs])) = mset [0..<n]"
  by (rule owner_cover [where owner = "\<lambda>i. i mod bs"]) (use plain_indices_ok [OF assms(1)] assms(2) in auto)

section \<open>Reductions\<close>

text \<open>A value that combines the elements of a multiset, each once, in some order; the neutral element may occur any
  number of times. The operation need not be associative: floating-point addition is not.\<close>

inductive reduces :: "('a \<Rightarrow> 'a \<Rightarrow> 'a) \<Rightarrow> 'a \<Rightarrow> 'a multiset \<Rightarrow> 'a \<Rightarrow> bool" for r e where
  reduces_unit: "reduces r e {#} e"
| reduces_leaf: "reduces r e {#x#} x"
| reduces_node: "reduces r e A a \<Longrightarrow> reduces r e B b \<Longrightarrow> reduces r e (A + B) (r a b)"

lemma reduces_fold:
  assumes "reduces r e A a" and "\<And>x. x \<in> set xs \<Longrightarrow> reduces r e (M x) (v x)"
  shows "reduces r e (A + (\<Sum>x\<leftarrow>xs. M x)) (fold (\<lambda>x a. r a (v x)) xs a)"
  using assms
proof (induction xs arbitrary: A a)
  case (Cons x xs)
  have "reduces r e (A + M x) (r a (v x))" using Cons.prems by (intro reduces_node) simp_all
  from Cons.IH [OF this] Cons.prems show ?case by (simp add: add.assoc)
qed simp

lemma reduces_leaves: "reduces r e (image_mset g (mset xs)) (fold (\<lambda>x a. r a (g x)) xs e)"
proof -
  have "(\<Sum>x\<leftarrow>xs. {#g x#}) = image_mset g (mset xs)" by (induction xs) simp_all
  then show ?thesis using reduces_fold [OF reduces_unit, where xs = xs and M = "\<lambda>x. {#g x#}" and v = g] reduces_leaf by fastforce
qed

text \<open>For the maximum, and for an associative and commutative addition, the order does not matter.\<close>

lemma reduces_max:
  assumes "reduces max e M m" and "\<forall>x\<in>#M. e \<le> x" and "M \<noteq> {#}"
  shows "m = Max_mset M"
proof -
  have "(m = e \<or> m \<in># M) \<and> (\<forall>x\<in>#M. x \<le> m) \<and> e \<le> m" if "\<forall>x\<in>#M. e \<le> x" using assms(1) that
    by (induction rule: reduces.induct) (auto simp: max_def dest: order_trans)
  then have m: "m = e \<or> m \<in># M" "\<forall>x\<in>#M. x \<le> m" using assms(2) by auto
  obtain x where "x \<in># M" using assms(3) by blast
  then have "m \<in># M" using m assms(2) by (metis order_antisym)
  then show ?thesis using m(2) by (intro Max_eqI [symmetric]) auto
qed

lemma reduces_sum: "reduces (+) 0 M v \<Longrightarrow> v = sum_mset M" for v :: "'a::comm_monoid_add"
  by (induction rule: reduces.induct) simp_all

lemma sum_list_nested: "(\<Sum>x\<leftarrow>xs. \<Sum>y\<leftarrow>f x. M y) = (\<Sum>y\<leftarrow>concat (map f xs). M y)" for M :: "'b \<Rightarrow> 'c::monoid_add"
  by (induction xs) simp_all

lemma sum_list_mset_cong: "mset xs = mset ys \<Longrightarrow> (\<Sum>x\<leftarrow>xs. M x) = (\<Sum>y\<leftarrow>ys. M y)" for M :: "'b \<Rightarrow> 'c::comm_monoid_add"
  by (metis mset_map sum_mset_sum_list)

lemma sum_list_image_mset: "(\<Sum>t\<leftarrow>ts. image_mset g (mset (f t))) = image_mset g (mset (concat (map f ts)))"
  by (induction ts) simp_all

section \<open>A block\<close>

lemma IlpReduce_ok:
  assumes ilp: "0 < ilp" and t: "tid < bs" and shift: "shift \<le> bs" and pos: "\<And>i. i < sz \<Longrightarrow> row + i < length input"
  shows "IlpReduce r ilp bs shift input row sz d tid = Inr (fold (\<lambda>i v. r v (input ! (row + i))) (ilp_indices ilp bs shift sz tid) d)"
proof -
  have "IlpReduce r ilp bs shift input row sz d tid = for_res (\<lambda>i v. Inr (r v (input ! (row + i)))) (ilp_indices ilp bs shift sz tid) d"
    unfolding IlpReduce_def by (rule for_res_cong) (use ilp_indices_ok(2) [OF ilp t shift] pos in simp_all)
  then show ?thesis by (simp add: fold_as_for_res)
qed

lemma warp_cover:
  assumes "n dvd bs" and "0 < n"
  shows "mset (concat (map (\<lambda>w. map (\<lambda>i. i * n + w) [0..<bs div n]) [0..<n])) = mset [0..<bs]"
proof (rule owner_cover [where owner = "\<lambda>i. i mod n"])
  show "distinct (map (\<lambda>i. i * n + w) [0..<bs div n])" for w using assms(2) by (simp add: distinct_map inj_on_def)
  fix w i assume w: "w < n"
  have bs: "bs = bs div n * n" using assms(1) by simp
  show "i \<in> set (map (\<lambda>i. i * n + w) [0..<bs div n]) \<longleftrightarrow> i < bs \<and> i mod n = w"
  proof
    assume "i \<in> set (map (\<lambda>i. i * n + w) [0..<bs div n])"
    then obtain k where k: "k < bs div n" "i = k * n + w" by auto
    then show "i < bs \<and> i mod n = w" using row_bound_less [OF k(1) w] row_col [OF w, of k] bs by simp
  next
    assume i: "i < bs \<and> i mod n = w"
    then have "i div n < bs div n" using bs by (metis less_mult_imp_div_less)
    moreover have "i = i div n * n + w" using i div_mult_mod_eq [of i n] by simp
    ultimately show "i \<in> set (map (\<lambda>i. i * n + w) [0..<bs div n])" by (auto simp: image_iff)
  qed
qed (use assms(2) in simp)

lemma SoftmaxReduce_ok:
  assumes bs: "32 dvd bs" and ts: "length ts = bs" and M: "\<And>t. t < bs \<Longrightarrow> reduces r e (M t) (ts ! t)"
  shows "\<exists>v. SoftmaxReduce r bs e ts = Inr v \<and> reduces r e (\<Sum>t\<leftarrow>[0..<bs]. M t) v"
proof -
  let ?W = "\<lambda>w. fold (\<lambda>i a. r a (ts ! (i * 32 + w))) [0..<bs div 32] e"
  have idx: "i * 32 + w < bs" if "i < bs div 32" "w < 32" for i w using row_bound_less [OF that] bs by simp
  have warp: "for_res (\<lambda>i v. res_bind (get ts (i * kGPUWarpSize + w)) (\<lambda>x. Inr (r v x))) [0..<bs div kGPUWarpSize] e = Inr (?W w)" if "w < 32" for w
  proof -
    have "for_res (\<lambda>i v. res_bind (get ts (i * 32 + w)) (\<lambda>x. Inr (r v x))) [0..<bs div 32] e = for_res (\<lambda>i v. Inr (r v (ts ! (i * 32 + w)))) [0..<bs div 32] e"
      by (rule for_res_cong) (use idx that ts in simp_all)
    then show ?thesis by (simp add: fold_as_for_res kGPUWarpSize_def)
  qed
  have red: "reduces r e (\<Sum>i\<leftarrow>[0..<bs div 32]. M (i * 32 + w)) (?W w)" if "w < 32" for w
    using reduces_fold [OF reduces_unit, where xs = "[0..<bs div 32]" and M = "\<lambda>i. M (i * 32 + w)" and v = "\<lambda>i. ts ! (i * 32 + w)"] M idx that by simp
  let ?v = "fold (\<lambda>w a. r a (?W w)) [0..<32] e"
  have "map_res (\<lambda>w. for_res (\<lambda>i v. res_bind (get ts (i * kGPUWarpSize + w)) (\<lambda>x. Inr (r v x))) [0..<bs div kGPUWarpSize] e) [0..<kGPUWarpSize]
      = Inr (map ?W [0..<32])"
    using map_res_map [of "[0..<32]" _ "\<lambda>w. w" ?W] warp by (simp add: kGPUWarpSize_def del: upt_Suc upt_rec_numeral)
  moreover have "for_res (\<lambda>i v. res_bind (get (map ?W [0..<32]) i) (\<lambda>x. Inr (r v x))) [0..<kGPUWarpSize] e = Inr ?v"
  proof -
    have "for_res (\<lambda>i v. res_bind (get (map ?W [0..<32]) i) (\<lambda>x. Inr (r v x))) [0..<32] e = for_res (\<lambda>i v. Inr (r v (?W i))) [0..<32] e"
      by (rule for_res_cong) (simp_all del: upt_rec_numeral)
    then show ?thesis by (simp add: fold_as_for_res kGPUWarpSize_def del: upt_rec_numeral)
  qed
  ultimately have "SoftmaxReduce r bs e ts = Inr ?v" by (simp add: SoftmaxReduce_def)
  moreover have "reduces r e (\<Sum>w\<leftarrow>[0..<32]. \<Sum>i\<leftarrow>[0..<bs div 32]. M (i * 32 + w)) ?v"
    using reduces_fold [OF reduces_unit, where xs = "[0..<32]" and M = "\<lambda>w. \<Sum>i\<leftarrow>[0..<bs div 32]. M (i * 32 + w)" and v = ?W] red by (simp del: upt_rec_numeral)
  moreover have "(\<Sum>w\<leftarrow>[0..<32]. \<Sum>i\<leftarrow>[0..<bs div 32]. M (i * 32 + w)) = (\<Sum>t\<leftarrow>[0..<bs]. M t)"
    using sum_list_nested [of M "\<lambda>w. map (\<lambda>i. i * 32 + w) [0..<bs div 32]" "[0..<32]"] sum_list_mset_cong [OF warp_cover [OF bs], of M]
    by (simp add: comp_def del: upt_rec_numeral)
  ultimately show ?thesis by auto
qed

text \<open>Both steps: every element of the row is combined once.\<close>

lemma block_reduction:
  assumes ilp: "0 < ilp" and bs: "0 < bs" "32 dvd bs" and shift: "shift \<le> bs" and pos: "\<And>i. i < sz \<Longrightarrow> row + i < length input"
  shows "\<exists>ts v. map_res (IlpReduce (\<lambda>v x. r v (g x)) ilp bs shift input row sz e) [0..<bs] = Inr ts \<and> SoftmaxReduce r bs e ts = Inr v
     \<and> reduces r e (image_mset (\<lambda>i. g (input ! (row + i))) (mset [0..<sz])) v"
proof -
  let ?G = "\<lambda>i. g (input ! (row + i))" let ?F = "\<lambda>t. fold (\<lambda>i v. r v (?G i)) (ilp_indices ilp bs shift sz t) e"
  let ?M = "\<lambda>t. image_mset ?G (mset (ilp_indices ilp bs shift sz t))"
  have "map_res (IlpReduce (\<lambda>v x. r v (g x)) ilp bs shift input row sz e) [0..<bs] = Inr (map ?F [0..<bs])"
    using map_res_map [of "[0..<bs]" _ "\<lambda>t. t" ?F] IlpReduce_ok [OF ilp _ shift pos] by simp
  moreover obtain v where "SoftmaxReduce r bs e (map ?F [0..<bs]) = Inr v" "reduces r e (\<Sum>t\<leftarrow>[0..<bs]. ?M t) v"
    using SoftmaxReduce_ok [OF bs(2), of "map ?F [0..<bs]" r e ?M] reduces_leaves [of r e ?G] by auto
  moreover have "(\<Sum>t\<leftarrow>[0..<bs]. ?M t) = image_mset ?G (mset [0..<sz])"
    unfolding sum_list_image_mset ilp_cover [OF ilp bs(1) shift] ..
  ultimately show ?thesis by metis
qed

lemma double_until_pow: "\<exists>k. double_until (2 ^ j) m = 2 ^ k"
proof (induction "m - 2 ^ j" arbitrary: j rule: less_induct)
  case less
  show ?case
  proof (cases "2 ^ j < m")
    case True
    have "(2::nat) ^ j < 2 ^ Suc j" by simp
    then have "m - 2 ^ Suc j < m - 2 ^ j" using True by linarith
    from less [OF this] show ?thesis using True by (simp add: double_until.simps [of "2 ^ j"] mult.commute)
  qed (auto simp: double_until.simps [of "2 ^ j"])
qed

lemma SoftmaxGetBlockSize_warps: "32 dvd SoftmaxGetBlockSize ilp sz" "32 \<le> SoftmaxGetBlockSize ilp sz"
proof -
  define m where "m = (let b = min (sz div ilp) kMaxThreads in if 1 < ilp then b div 2 else b)"
  obtain k where k: "double_until 1 m = 2 ^ k" using double_until_pow [of 0 m] by auto
  have bs: "SoftmaxGetBlockSize ilp sz = max (2 ^ k) 32" using k by (simp add: SoftmaxGetBlockSize_def m_def kGPUWarpSize_def Let_def)
  show "32 \<le> SoftmaxGetBlockSize ilp sz" by (simp add: bs)
  show "32 dvd SoftmaxGetBlockSize ilp sz"
  proof (cases "k \<le> 5")
    case True
    then have "(2::nat) ^ k \<le> 2 ^ 5" by (intro power_increasing) simp_all
    then show ?thesis by (simp add: bs)
  next
    case False
    then have "(2::nat) ^ 5 dvd 2 ^ k" "(2::nat) ^ 5 \<le> 2 ^ k" using le_imp_power_dvd [of 5 k "2::nat"] power_increasing [of 5 k "2::nat"] by simp_all
    then show ?thesis by (simp add: bs max_def)
  qed
qed

text \<open>The results, in either pattern.\<close>

lemma write_epilogue_all:
  fixes out :: "'f list"
  assumes fair: "fair sched" and cover: "mset (concat (map ix [0..<bs])) = mset [0..<n]"
    and pos: "\<And>i. i < n \<Longrightarrow> in_row + i < length input" "out_row + n \<le> length out"
  shows "for_res (\<lambda>t. write_epilogue f input in_row out_row (ix t)) (sched [0..<bs]) out
     = Inr (blit out out_row (map (\<lambda>i. f (input ! (in_row + i))) [0..<n]))"
proof -
  let ?ts = "concat (map ix (sched [0..<bs]))" and ?N = "length out"
  let ?body = "\<lambda>i out. res_bind (get input (in_row + i)) (\<lambda>x. put out (out_row + i) (f x))"
  let ?v = "\<lambda>k. f (input ! (in_row + (k - out_row)))"
  have "mset (map ix (sched [0..<bs])) = mset (map ix [0..<bs])" using fair by (simp add: fair_def)
  then have "set (map ix (sched [0..<bs])) = set (map ix [0..<bs])" by (rule mset_eq_setD)
  then have "set ?ts = set (concat (map ix [0..<bs]))" by (simp only: set_concat)
  then have ts: "set ?ts = {0..<n}" using mset_eq_setD [OF cover] by simp
  have "\<exists>d'. for_res ?body ?ts out = Inr d' \<and> length d' = ?N
     \<and> (\<forall>k<?N. d' ! k = (if k \<in> (\<lambda>i. out_row + i) ` {t \<in> set ?ts. True} then ?v k else out ! k))"
  proof (rule for_res_scatter [where P = "\<lambda>t. True"])
    fix t and d :: "'f list" assume "t \<in> set ?ts" and d: "length d = ?N"
    then have "t < n" unfolding ts by simp
    then show "?body t d = (if True then Inr (d[out_row + t := ?v (out_row + t)]) else Inr d)" using pos(1) [of t] pos(2) d by simp
  next
    show "out_row + t < ?N" if "t \<in> set ?ts" for t using that pos(2) unfolding ts by simp
  qed simp
  then obtain d' where d': "for_res ?body ?ts out = Inr d'" "length d' = ?N"
      "\<forall>k<?N. d' ! k = (if k \<in> (\<lambda>i. out_row + i) ` {t \<in> {0..<n}. True} then ?v k else out ! k)" unfolding ts by blast
  have "k \<in> (\<lambda>i. out_row + i) ` {t \<in> {0..<n}. True} \<longleftrightarrow> out_row \<le> k \<and> k < out_row + n" for k by (auto simp: image_iff) presburger
  then have "d' = blit out out_row (map (\<lambda>i. f (input ! (in_row + i))) [0..<n])"
    using d'(2,3) pos(2) by (intro nth_equalityI) (auto simp: nth_blit)
  then show ?thesis using d'(1) by (simp add: write_epilogue_def for_res_nested)
qed

text \<open>A block: the maximum of the row, a sum of the exponentials in some order, and the results in its row of the output.\<close>

definition exp_sum_of :: "('f, 'g, 'y) cxx_scheme \<Rightarrow> 'f \<Rightarrow> 'f list \<Rightarrow> 'f \<Rightarrow> bool" where
  "exp_sum_of cx shift_by row s \<longleftrightarrow> reduces (fadd cx) (fzero cx) (image_mset (\<lambda>x. fexp cx (fsub cx x shift_by)) (mset row)) s"

definition row_of :: "nat \<Rightarrow> nat \<Rightarrow> 'f list \<Rightarrow> 'f list" where
  "row_of n b xs = map (\<lambda>i. xs ! (b * n + i)) [0..<n]"

lemma SoftmaxBlockForward_ok:
  fixes out :: "'f::linorder list"
  assumes fair: "fair sched" and bs: "32 dvd bs" "32 \<le> bs" and n: "0 < n" and ilp: "0 < ilp" "ilp \<le> bs" and b: "b < h"
    and len: "length input = h * n" "length out = h * n" and low: "\<forall>x\<in>set input. flowest cx \<le> x"
  shows "\<exists>s. exp_sum_of cx (fdiv cx (Max (set (row_of n b input))) temp) (row_of n b input) s
     \<and> SoftmaxBlockForward sched cx ep ilp bs addr_in addr_out input n n n temp b out
         = Inr (blit out (b * n) (map (ep (Max (set (row_of n b input))) s) (row_of n b input)))"
proof -
  let ?row = "b * n" and ?shift = "(addr_in + b * n) mod ilp"
  have shift: "?shift \<le> bs" using ilp mod_less_divisor [of ilp "addr_in + b * n"] by linarith
  have bs0: "0 < bs" using bs(2) by simp
  have pos: "?row + i < length input" if "i < n" for i using row_bound_less [OF b that] len(1) by simp
  have room: "?row + n \<le> length out" using row_bound [OF b, of n n] len(2) by simp
  have maxs: "MaxFloat = (\<lambda>v x. max v x)" "Max_op = (max :: 'f \<Rightarrow> 'f \<Rightarrow> 'f)" by (auto simp: MaxFloat_def Max_op_def max_def fun_eq_iff)
  let ?mr = "image_mset (\<lambda>i. input ! (?row + i)) (mset [0..<n])"
  have mr: "?mr = mset (row_of n b input)" by (simp add: row_of_def)
  obtain tm m where m: "map_res (IlpReduce MaxFloat ilp bs ?shift input ?row n (flowest cx)) [0..<bs] = Inr tm"
      "SoftmaxReduce Max_op bs (flowest cx) tm = Inr m" "reduces max (flowest cx) ?mr m"
    using block_reduction [where r = max and g = "\<lambda>x. x" and e = "flowest cx", OF ilp(1) bs0 bs(1) shift pos] unfolding maxs by blast
  have "\<forall>x\<in>#?mr. flowest cx \<le> x" using low nth_mem [OF pos] by auto
  moreover have "?mr \<noteq> {#}" using n by (simp add: mset_set_empty_iff)
  ultimately have max: "m = Max (set (row_of n b input))" using reduces_max [OF m(3)] unfolding mr by simp
  have sumexp: "SumExpFloat cx c = (\<lambda>v x. Add_op cx v (fexp cx (fsub cx x c)))" for c by (simp add: SumExpFloat_def Add_op_def fun_eq_iff)
  obtain te s where s: "map_res (IlpReduce (SumExpFloat cx (fdiv cx m temp)) ilp bs ?shift input ?row n (fzero cx)) [0..<bs] = Inr te"
      "SoftmaxReduce (Add_op cx) bs (fzero cx) te = Inr s"
      "reduces (Add_op cx) (fzero cx) (image_mset (\<lambda>i. fexp cx (fsub cx (input ! (?row + i)) (fdiv cx m temp))) (mset [0..<n])) s"
    using block_reduction [where r = "Add_op cx" and g = "\<lambda>x. fexp cx (fsub cx x (fdiv cx m temp))" and e = "fzero cx", OF ilp(1) bs0 bs(1) shift pos]
    unfolding sumexp by blast
  have "Add_op cx = fadd cx" by (simp add: Add_op_def fun_eq_iff)
  then have "exp_sum_of cx (fdiv cx m temp) (row_of n b input) s"
    using s(3) by (simp add: exp_sum_of_def row_of_def multiset.map_comp comp_def)
  moreover have "for_res (\<lambda>tid. if c then WriteFpropResultsVectorized ilp bs n ?shift input ?row ?row (ep m s) tid
        else WriteFpropResults ilp bs n input ?row ?row (ep m s) tid) (sched [0..<bs]) out
      = Inr (blit out ?row (map (ep m s) (row_of n b input)))" for c
    using write_epilogue_all [OF fair ilp_cover [OF ilp(1) bs0 shift] pos room, of "ep m s"] write_epilogue_all [OF fair plain_cover [OF ilp(1) bs0] pos room, of "ep m s"]
    by (cases c) (simp_all add: WriteFpropResultsVectorized_def WriteFpropResults_def row_of_def comp_def)
  ultimately show ?thesis using m s by (auto simp: SoftmaxBlockForward_def Let_def max [symmetric])
qed

section \<open>All rows\<close>

lemma length_row_of [simp]: "length (row_of n b xs) = n"
  by (simp add: row_of_def)

lemma row_of_blit:
  assumes b: "b < h" and u: "u < h" and len: "h * n \<le> length out" "length vals = n"
  shows "row_of n u (blit out (b * n) vals) = (if u = b then vals else row_of n u out)"
proof (rule nth_equalityI)
  fix i assume "i < length (row_of n u (blit out (b * n) vals))"
  then have i: "i < n" by simp
  have room: "b * n + n \<le> h * n" using row_bound [OF b, of n n] by simp
  have "b * n \<le> u * n + i \<and> u * n + i < b * n + n \<longleftrightarrow> u = b"
    using row_col [OF i, of u] div_nat_eqI [of n b "u * n + i"] i by (auto simp: mult.commute)
  then show "row_of n u (blit out (b * n) vals) ! i = (if u = b then vals else row_of n u out) ! i"
    using i room len row_bound_less [OF u i] by (simp add: row_of_def nth_blit)
qed (use len in simp)

text \<open>A launch each block of which writes its own row.\<close>

lemma launch_row_blocks:
  fixes out :: "'f list"
  assumes fair: "fair sched" and room: "h * n \<le> length out"
    and block: "\<And>b d. b < h \<Longrightarrow> length d = length out \<Longrightarrow> \<exists>vals. body b 0 d = Inr (blit d (b * n) vals) \<and> length vals = n \<and> Q b vals"
  shows "\<exists>res. launch_blocks sched (one_dim\<lparr>dim_x := h\<rparr>) body out = Inr res \<and> length res = length out \<and> (\<forall>b<h. Q b (row_of n b res))"
proof -
  let ?ts = "sched [0..<h]" and ?body = "\<lambda>b. body (b mod h) (b div h)" and ?R = "\<lambda>b res. Q b (row_of n b res)"
  have ts: "set ?ts = {0..<h}" using fair_set [OF fair] by simp
  have "\<exists>res. for_res ?body ?ts out = Inr res \<and> length res = length out \<and> (\<forall>b\<in>set ?ts. ?R b res)"
  proof (rule for_res_each [where ok = "\<lambda>d. length d = length out" and R = ?R])
    fix b and d :: "'f list" assume "b \<in> set ?ts" and d: "length d = length out"
    then have b: "b < h" unfolding ts by simp
    obtain vals where vals: "?body b d = Inr (blit d (b * n) vals)" "length vals = n" "Q b vals" using block [OF b d] b by auto
    have "row_of n u (blit d (b * n) vals) = (if u = b then vals else row_of n u d)" if "u < h" for u
      using row_of_blit [OF b that _ vals(2), of d] d room by simp
    moreover have "length (blit d (b * n) vals) = length out" using d row_bound [OF b, of n n] vals(2) room by simp
    ultimately show "\<exists>d'. ?body b d = Inr d' \<and> length d' = length out \<and> ?R b d' \<and> (\<forall>u\<in>set ?ts. u \<noteq> b \<longrightarrow> ?R u d \<longrightarrow> ?R u d')"
      using vals b unfolding ts by auto
  qed simp
  then show ?thesis unfolding ts by (simp add: launch_blocks_def one_dim_def Ball_def)
qed

text \<open>The row of the output that belongs to a row of the input.\<close>

definition softmaxed :: "('f::linorder, 'g, 'y) cxx_scheme \<Rightarrow> ('f \<Rightarrow> 'f \<Rightarrow> 'f \<Rightarrow> 'f) \<Rightarrow> 'f \<Rightarrow> 'f list \<Rightarrow> 'f list \<Rightarrow> bool" where
  "softmaxed cx ep temp row result \<longleftrightarrow>
     (\<exists>s. exp_sum_of cx (fdiv cx (Max (set row)) temp) row s \<and> result = map (ep (Max (set row)) s) row)"

definition softmax_epilogue :: "bool \<Rightarrow> ('f, 'g, 'y) cxx_scheme \<Rightarrow> 'f \<Rightarrow> 'f \<Rightarrow> 'f \<Rightarrow> 'f" where
  "softmax_epilogue is_log cx = (if is_log then LogSoftmaxForwardEpilogue cx else SoftmaxForwardEpilogue cx)"

lemma DispatchBlockwiseSoftmaxForward_ok:
  fixes out :: "'f::linorder list"
  assumes fair: "fair sched" "\<And>b. fair (tsched b)" and n: "0 < n"
    and len: "length input = batches * n" "length out = batches * n" and low: "\<forall>x\<in>set input. flowest cx \<le> x"
  shows "\<exists>res. DispatchBlockwiseSoftmaxForward is_log sched tsched cx addr_in addr_out input n n n batches temp out = Inr res
     \<and> length res = batches * n \<and> (\<forall>b<batches. softmaxed cx (softmax_epilogue is_log cx) temp (row_of n b input) (row_of n b res))"
proof -
  let ?ep = "softmax_epilogue is_log cx" and ?bs = "SoftmaxGetBlockSize 4 n"
  have bs: "4 \<le> ?bs" using SoftmaxGetBlockSize_warps(2) [of 4 n] by simp
  have block: "\<exists>vals. SoftmaxBlockForward (tsched b) cx ?ep 4 ?bs addr_in addr_out input n n n temp b d = Inr (blit d (b * n) vals)
      \<and> length vals = n \<and> softmaxed cx ?ep temp (row_of n b input) vals" if b: "b < batches" and d: "length d = length out" for b d
  proof -
    obtain s where s: "exp_sum_of cx (fdiv cx (Max (set (row_of n b input))) temp) (row_of n b input) s"
        "SoftmaxBlockForward (tsched b) cx ?ep 4 ?bs addr_in addr_out input n n n temp b d
           = Inr (blit d (b * n) (map (?ep (Max (set (row_of n b input))) s) (row_of n b input)))"
      using SoftmaxBlockForward_ok [where sched = "tsched b" and ep = ?ep and temp = temp and addr_in = addr_in and addr_out = addr_out,
          OF fair(2) SoftmaxGetBlockSize_warps n _ bs b len(1) _ low] d len(2) by auto
    then show ?thesis unfolding softmaxed_def
      by (intro exI [of _ "map (?ep (Max (set (row_of n b input))) s) (row_of n b input)"]) auto
  qed
  have "\<exists>res. launch_blocks sched (one_dim\<lparr>dim_x := batches\<rparr>)
        (\<lambda>b y. SoftmaxBlockForward (tsched b) cx ?ep 4 ?bs addr_in addr_out input n n n temp b) out = Inr res
     \<and> length res = length out \<and> (\<forall>b<batches. softmaxed cx ?ep temp (row_of n b input) (row_of n b res))"
    by (rule launch_row_blocks [where n = n, OF fair(1)]) (use len block in simp_all)
  then show ?thesis using len by (simp add: DispatchBlockwiseSoftmaxForward_def softmax_epilogue_def Let_def)
qed

text \<open>With an addition whose order does not matter and no temperature, a row is the softmax of the CPU code.\<close>

lemma reduces_fold_eq:
  assumes "reduces r e M v" and "\<And>a b c. r (r a b) c = r a (r b c)" and "\<And>a b. r a b = r b a" and "\<And>a. r e a = a"
  shows "mset xs = M \<Longrightarrow> v = foldl r e xs"
proof -
  define f where "f = (\<lambda>x a. r a x)"
  have comm: "comp_fun_commute f" by standard (auto simp: f_def fun_eq_iff assms(2) intro: assms(3) arg_cong [of _ _ "r _"])
  have fold: "fold_mset f b M = r b (fold_mset f e M)" for b M
  proof (induction M)
    case empty
    show ?case using assms(3,4) by simp
  next
    case (add x M)
    have "r (r b c) x = r b (r c x)" for c by (rule assms(2))
    then show ?case using add by (simp add: comp_fun_commute.fold_mset_add_mset [OF comm]) (simp add: f_def)
  qed
  have "v = fold_mset f e M" using assms(1)
  proof (induction rule: reduces.induct)
    case (reduces_node A a B b)
    then show ?case using comp_fun_commute.fold_mset_union [OF comm, of e A B] fold [of "fold_mset f e A" B] by simp
  qed (simp_all add: comp_fun_commute.fold_mset_add_mset [OF comm] f_def assms(4))
  moreover have "fold_mset f e (mset xs) = foldl r e xs" for xs
  proof (induction xs rule: rev_induct)
    case (snoc x xs)
    then show ?case by (simp add: comp_fun_commute.fold_mset_add_mset [OF comm]) (simp add: f_def)
  qed simp
  ultimately show "mset xs = M \<Longrightarrow> v = foldl r e xs" by metis
qed

lemma softmaxed_cpu:
  assumes add: "\<And>a b c. fadd cx (fadd cx a b) c = fadd cx a (fadd cx b c)" "\<And>a b. fadd cx a b = fadd cx b a" "\<And>a. fadd cx (fzero cx) a = a"
    and div: "\<And>a. fdiv cx a temp = a" and row: "row \<noteq> []"
  shows "softmaxed cx (softmax_epilogue False cx) temp row result \<longleftrightarrow> softmax cx row = Inr result"
    and "softmaxed cx (softmax_epilogue True cx) temp row result \<longleftrightarrow> log_softmax cx row = Inr result"
proof -
  let ?m = "Max (set row)" let ?s = "foldl (fadd cx) (fzero cx) (map (\<lambda>x. fexp cx (fsub cx x ?m)) row)"
  have "first_max row (max_element row)" by (rule max_element_first_max [OF row])
  then have m: "get row (max_element row) = Inr ?m" using max_element_less [OF row]
    by (auto simp: first_max_def in_set_conv_nth intro!: Max_eqI [symmetric])
  have "exp_sum_of cx (fdiv cx ?m temp) row s \<longleftrightarrow> s = ?s" for s
  proof
    assume "exp_sum_of cx (fdiv cx ?m temp) row s"
    then show "s = ?s" unfolding exp_sum_of_def div by (intro reduces_fold_eq [OF _ add]) simp_all
  next
    assume "s = ?s"
    then show "exp_sum_of cx (fdiv cx ?m temp) row s"
      using reduces_leaves [of "fadd cx" "fzero cx" "\<lambda>x. fexp cx (fsub cx x ?m)" row] unfolding exp_sum_of_def div by (simp add: foldl_conv_fold fold_map comp_def)
  qed
  then have eq: "softmaxed cx ep temp row result \<longleftrightarrow> result = map (ep ?m ?s) row" for ep by (auto simp: softmaxed_def)
  show "softmaxed cx (softmax_epilogue False cx) temp row result \<longleftrightarrow> softmax cx row = Inr result"
    unfolding eq softmax_def m by (auto simp: softmax_epilogue_def SoftmaxForwardEpilogue_def Let_def comp_def)
  show "softmaxed cx (softmax_epilogue True cx) temp row result \<longleftrightarrow> log_softmax cx row = Inr result"
    unfolding eq log_softmax_def m by (auto simp: softmax_epilogue_def LogSoftmaxForwardEpilogue_def Let_def comp_def)
qed

section \<open>Result\<close>

text \<open>An addition whose order does not matter.\<close>

definition exact_add :: "('f, 'g, 'y) cxx_scheme \<Rightarrow> bool" where
  "exact_add cx \<longleftrightarrow> (\<forall>a b c. fadd cx (fadd cx a b) c = fadd cx a (fadd cx b c)) \<and> (\<forall>a b. fadd cx a b = fadd cx b a) \<and> (\<forall>a. fadd cx (fzero cx) a = a)"

text \<open>C7. The device softmax. For rows of any length and alignment, and any order of the blocks and threads,
  \<open>DispatchBlockwiseSoftmaxForward\<close> returns; every row of its output is computed from the largest element of the row and a sum of
  the exponentials that has every element exactly once, in some order of the additions. When the order of additions does not
  matter and the temperature is neutral, the row is the result of the CPU function on it, \<open>softmax\<close> or \<open>log_softmax\<close>.\<close>

theorem DispatchBlockwiseSoftmaxForward_correct:
  fixes out :: "'f::linorder list"
  assumes "fair sched" and "\<And>b. fair (tsched b)" and "0 < n"
    and "length input = batches * n" and "length out = batches * n" and "\<forall>x\<in>set input. flowest cx \<le> x"
  shows "\<exists>res. DispatchBlockwiseSoftmaxForward is_log sched tsched cx addr_in addr_out input n n n batches temp out = Inr res
     \<and> length res = batches * n \<and> (\<forall>b<batches. softmaxed cx (softmax_epilogue is_log cx) temp (row_of n b input) (row_of n b res)
        \<and> (exact_add cx \<and> (\<forall>a. fdiv cx a temp = a)
            \<longrightarrow> (if is_log then log_softmax cx (row_of n b input) else softmax cx (row_of n b input)) = Inr (row_of n b res)))"
proof -
  have "(if is_log then log_softmax cx (row_of n b input) else softmax cx (row_of n b input)) = Inr result"
    if "softmaxed cx (softmax_epilogue is_log cx) temp (row_of n b input) result" "exact_add cx" "\<forall>a. fdiv cx a temp = a" for b result
  proof -
    have row: "row_of n b input \<noteq> []" using assms(3) by (simp add: row_of_def)
    have add: "\<And>a b c. fadd cx (fadd cx a b) c = fadd cx a (fadd cx b c)" "\<And>a b. fadd cx a b = fadd cx b a" "\<And>a. fadd cx (fzero cx) a = a"
      using that(2) unfolding exact_add_def by blast+
    note cpu = softmaxed_cpu [OF add spec [OF that(3)] row, of result]
    show ?thesis using that(1) cpu by (cases is_log) (simp_all only: if_True if_False)
  qed
  then show ?thesis using DispatchBlockwiseSoftmaxForward_ok [where tsched = tsched and is_log = is_log and addr_in = addr_in and addr_out = addr_out and temp = temp, OF assms] by blast
qed

theorem DispatchBlockwiseSoftmaxForward_correct_witness:
  "\<exists>res. DispatchBlockwiseSoftmaxForward False rev (\<lambda>b. rev) int_cxx 3 1 [4, 9, 7, 2, 8, 5] 3 3 3 2 1 [0, 0, 0, 0, 0, 0] = Inr res
     \<and> softmax int_cxx [2, 8, 5] = Inr (row_of 3 1 res)"
proof -
  have "\<exists>res. DispatchBlockwiseSoftmaxForward False rev (\<lambda>b. rev) int_cxx 3 1 [4, 9, 7, 2, 8, 5] 3 3 3 2 1 [0, 0, 0, 0, 0, 0] = Inr res
     \<and> length res = 2 * 3 \<and> (\<forall>b<2. softmaxed int_cxx (softmax_epilogue False int_cxx) 1 (row_of 3 b [4, 9, 7, 2, 8, 5]) (row_of 3 b res)
        \<and> (exact_add int_cxx \<and> (\<forall>a. fdiv int_cxx a 1 = a)
            \<longrightarrow> (if False then log_softmax int_cxx (row_of 3 b [4, 9, 7, 2, 8, 5]) else softmax int_cxx (row_of 3 b [4, 9, 7, 2, 8, 5])) = Inr (row_of 3 b res)))"
    by (rule DispatchBlockwiseSoftmaxForward_correct) (simp_all add: fair_rev int_cxx_def)
  then obtain res where res: "DispatchBlockwiseSoftmaxForward False rev (\<lambda>b. rev) int_cxx 3 1 [4, 9, 7, 2, 8, 5] 3 3 3 2 1 [0, 0, 0, 0, 0, 0] = Inr res"
      "\<forall>b<2. exact_add int_cxx \<and> (\<forall>a. fdiv int_cxx a 1 = a) \<longrightarrow> softmax int_cxx (row_of 3 b [4, 9, 7, 2, 8, 5]) = Inr (row_of 3 b res)" by auto
  have "row_of 3 1 [4, 9, 7, 2, 8, 5 :: int] = [2, 8, 5]" by code_simp
  moreover have "exact_add int_cxx" "\<forall>a. fdiv int_cxx a 1 = a" by (simp_all add: exact_add_def int_cxx_def)
  ultimately show ?thesis using res by (metis one_less_numeral_iff semiring_norm(76))
qed

end
