(* ===== verification/CudaSamplingLaws.thy ===== *)
theory CudaSamplingLaws
  imports Complex_Main CudaSampling CudaSearchLaws CudaSoftmaxLaws
begin

text \<open>
  Laws of the sampling kernels: the best candidates of a row, their prefix sums, the index that a threshold selects under
  every order of the threads, and what \<open>GetSample\<close> returns when it samples from the \<open>k\<close> best tokens.
\<close>

section \<open>The first index that reaches a threshold\<close>

lemma sorted_strided: "0 < s \<Longrightarrow> sorted (strided a b s)"
  unfolding strided_upt by (simp add: sorted_map sorted_wrt_iff_nth_less)

lemma find_least:
  assumes "sorted xs" and "j \<in> set xs" and "P j" and "\<And>i. P i \<Longrightarrow> j \<le> i"
  shows "find P xs = Some (j :: nat)"
  using assms(1,2)
proof (induction xs)
  case (Cons x xs)
  show ?case
  proof (cases "P x")
    case True
    then have "x = j" using assms(4) [OF True] Cons.prems by auto
    then show ?thesis using True by simp
  next
    case False
    then show ?thesis using Cons assms(3) by auto
  qed
qed simp

lemma fold_min_found:
  assumes "\<And>t i. t \<in> set ts \<Longrightarrow> f t = Some i \<Longrightarrow> j \<le> i" and "j \<le> m" and "m = j \<or> (\<exists>t\<in>set ts. f t = Some j)"
  shows "fold (\<lambda>t m. case f t of None \<Rightarrow> m | Some i \<Rightarrow> min m i) ts m = (j :: nat)"
  using assms
proof (induction ts arbitrary: m)
  case (Cons t ts)
  let ?m = "case f t of None \<Rightarrow> m | Some i \<Rightarrow> min m i"
  have "j \<le> ?m" using Cons.prems(1) [of t] Cons.prems(2) by (auto split: option.splits)
  moreover have "?m = j \<or> (\<exists>u\<in>set ts. f u = Some j)" using Cons.prems \<open>j \<le> ?m\<close> by (auto split: option.splits)
  ultimately have "fold (\<lambda>t m. case f t of None \<Rightarrow> m | Some i \<Rightarrow> min m i) ts ?m = j" using Cons.prems(1) by (intro Cons.IH) auto
  then show ?case by simp
qed auto

text \<open>The index: the first of \<open>n\<close> sums that reaches the threshold, or the last one.\<close>

definition reach_index :: "'f::linorder \<Rightarrow> 'f list \<Rightarrow> nat" where
  "reach_index threshold scan = min (length (takeWhile (\<lambda>s. s < threshold) scan)) (length scan - 1)"

lemma reach_index_least:
  fixes threshold :: "'f::linorder"
  assumes "scan \<noteq> []"
  defines "P \<equiv> \<lambda>i. threshold \<le> scan ! i \<or> i = length scan - 1"
  shows "reach_index threshold scan < length scan" and "P (reach_index threshold scan)"
    and "i < length scan \<Longrightarrow> P i \<Longrightarrow> reach_index threshold scan \<le> i"
proof -
  let ?n = "length (takeWhile (\<lambda>s. s < threshold) scan)"
  show "reach_index threshold scan < length scan" using assms(1) by (simp add: reach_index_def min_less_iff_disj)
  have "threshold \<le> scan ! ?n" if "?n < length scan" using nth_length_takeWhile [OF that] by (simp add: not_less)
  moreover have "?n \<le> length scan" by (rule length_takeWhile_le)
  moreover have "min ?n (length scan - 1) = length scan - 1" if "?n = length scan" using that by simp
  ultimately show "P (reach_index threshold scan)" unfolding P_def reach_index_def
    by (cases "?n < length scan") (auto simp: min_def)
  show "reach_index threshold scan \<le> i" if i: "i < length scan" "P i"
  proof (cases "i < ?n")
    case True
    then have "scan ! i < threshold" using set_takeWhileD [OF nth_mem [OF True]] takeWhile_nth [OF True] by metis
    then have "i = length scan - 1" using i(2) unfolding P_def by auto
    then show ?thesis by (simp add: reach_index_def)
  qed (simp add: reach_index_def)
qed

lemma sample_scan_find:
  assumes "\<And>i. i \<in> set is \<Longrightarrow> i < n" and "batch < bs" and "batch < length thresholds" and "batch * n + n \<le> length prefix_sums"
  shows "sample_scan prefix_sums thresholds bs n batch is
     = Inr (find (\<lambda>i. thresholds ! batch \<le> prefix_sums ! (batch * n + i) \<or> i = n - 1) is)"
  using assms(1)
proof (induction "is")
  case (Cons i "is")
  then have "i < n" by simp
  then have "i + batch * n < bs * n" using row_bound_less [OF assms(2), of i n] by (simp add: add.commute)
  moreover have "i + batch * n < length prefix_sums" using assms(4) \<open>i < n\<close> by simp
  then have "get prefix_sums (i + batch * n) = Inr (prefix_sums ! (batch * n + i))" by (simp add: add.commute)
  ultimately show ?case using Cons assms(3) by auto
qed simp

text \<open>A block of the last kernel, whatever the order in which its threads update the shared index.\<close>

lemma SampleKernel_ok:
  assumes fair: "fair sched" and n: "0 < n" and b: "batch < bs" and th: "batch < length thresholds"
    and sz: "batch * n + n \<le> length prefix_sums" "batch * n + n \<le> length indices" and out: "batch < length index_out"
  shows "SampleKernel sched bs prefix_sums indices n thresholds batch index_out
     = Inr (index_out[batch := indices ! (batch * n + reach_index (thresholds ! batch) (row_of n batch prefix_sums))])"
proof -
  let ?scan = "row_of n batch prefix_sums" let ?P = "\<lambda>i. thresholds ! batch \<le> prefix_sums ! (batch * n + i) \<or> i = n - 1"
  let ?j = "reach_index (thresholds ! batch) ?scan" and ?f = "\<lambda>t. find ?P (strided t n bs)"
  have bs: "0 < bs" using b by simp
  have ne: "?scan \<noteq> []" using n by (simp add: row_of_def)
  have P: "(thresholds ! batch \<le> ?scan ! i \<or> i = length ?scan - 1) \<longleftrightarrow> ?P i" if "i < n" for i using that by (simp add: row_of_def)
  have j: "?j < n" using reach_index_least(1) [OF ne] by simp
  have Pj: "?P ?j" using reach_index_least(2) [OF ne, of "thresholds ! batch"] P [OF j] by blast
  have least: "?j \<le> i" if "?P i" for i
    using reach_index_least(3) [OF ne, of i "thresholds ! batch"] P [of i] j that by (cases "i < n") auto
  have scan: "sample_scan prefix_sums thresholds bs n batch (strided t n bs) = Inr (?f t)" for t
    by (rule sample_scan_find [OF _ b th sz(1)]) (use bs in \<open>simp add: set_strided\<close>)
  have "for_res (\<lambda>tid first_index. res_bind (sample_scan prefix_sums thresholds bs n batch (strided tid n bs)) (\<lambda>found.
         Inr (case found of None \<Rightarrow> first_index | Some index \<Rightarrow> min first_index index))) (sched [0..<bs]) (n - 1)
      = Inr (fold (\<lambda>t m. case ?f t of None \<Rightarrow> m | Some i \<Rightarrow> min m i) (sched [0..<bs]) (n - 1))"
    unfolding scan by (simp add: fold_as_for_res)
  also have "fold (\<lambda>t m. case ?f t of None \<Rightarrow> m | Some i \<Rightarrow> min m i) (sched [0..<bs]) (n - 1) = ?j"
  proof (rule fold_min_found)
    show "?j \<le> i" if "?f t = Some i" for t i using that least by (auto simp: find_Some_iff)
    show "?j \<le> n - 1" using j by simp
    have "?j mod bs < bs" using bs by simp
    moreover have "?f (?j mod bs) = Some ?j"
      by (rule find_least [OF sorted_strided [OF bs]]) (use j Pj least strided_from_0 [of "?j mod bs" bs] bs in auto)
    ultimately have "?j mod bs \<in> set (sched [0..<bs])" "?f (?j mod bs) = Some ?j" using fair_set [OF fair] by auto
    then show "n - 1 = ?j \<or> (\<exists>t\<in>set (sched [0..<bs]). ?f t = Some ?j)" by blast
  qed
  finally show ?thesis using j sz(2) out by (simp add: SampleKernel_def add.commute)
qed

section \<open>Prefix sums\<close>

text \<open>The sums of the initial parts of a row, added in some order.\<close>

definition prefix_sums_of :: "('f, 'g, 'y) cxx_scheme \<Rightarrow> 'f list \<Rightarrow> 'f list \<Rightarrow> bool" where
  "prefix_sums_of cx row scan \<longleftrightarrow>
     length scan = length row \<and> (\<forall>i<length row. reduces (fadd cx) (fzero cx) (mset (take (Suc i) row)) (scan ! i))"

text \<open>What CUB documents of \<open>InclusiveSum\<close>.\<close>

definition scan_ok :: "('f, 'r) cuda_lib \<Rightarrow> ('f, 'g, 'y) cxx_scheme \<Rightarrow> bool" where
  "scan_ok lib cx \<longleftrightarrow> (\<forall>xs. prefix_sums_of cx xs (block_scan lib xs))"

text \<open>What the kernel computes: the threads take a chunk of a row at a time, and every thread adds up what the scans gave at
  its own place.\<close>

definition scan_chunk :: "('f, 'g, 'y) cxx_scheme \<Rightarrow> nat \<Rightarrow> 'f list \<Rightarrow> nat \<Rightarrow> 'f list" where
  "scan_chunk cx bs row c = map (\<lambda>t. if c * bs + t < length row then row ! (c * bs + t) else fzero cx) [0..<bs]"

primrec thread_sums :: "('f, 'r) cuda_lib \<Rightarrow> ('f, 'g, 'y) cxx_scheme \<Rightarrow> nat \<Rightarrow> 'f list \<Rightarrow> nat \<Rightarrow> 'f list" where
  "thread_sums lib cx bs row 0 = replicate bs (fzero cx)"
| "thread_sums lib cx bs row (Suc c) = map2 (fadd cx) (thread_sums lib cx bs row c) (block_scan lib (scan_chunk cx bs row c))"

definition kernel_sums :: "('f, 'r) cuda_lib \<Rightarrow> ('f, 'g, 'y) cxx_scheme \<Rightarrow> nat \<Rightarrow> 'f list \<Rightarrow> 'f list" where
  "kernel_sums lib cx bs row = map (\<lambda>i. thread_sums lib cx bs row (Suc (i div bs)) ! (i mod bs)) [0..<length row]"

lemma length_scan_chunk [simp]: "length (scan_chunk cx bs row c) = bs"
  by (simp add: scan_chunk_def)

lemma length_kernel_sums [simp]: "length (kernel_sums lib cx bs row) = length row"
  by (simp add: kernel_sums_def)

lemma length_block_scan: "scan_ok lib cx \<Longrightarrow> length (block_scan lib xs) = length xs"
  by (simp add: scan_ok_def prefix_sums_of_def)

lemma length_thread_sums: "scan_ok lib cx \<Longrightarrow> length (thread_sums lib cx bs row c) = bs"
  by (induction c) (simp_all add: length_block_scan)

text \<open>A chunk.\<close>

lemma write_chunk:
  fixes out :: "'f list"
  assumes room: "off + n \<le> length out" and ks: "length ks = n" and v: "length v = bs" "\<And>t. t < bs \<Longrightarrow> c * bs + t < n \<Longrightarrow> v ! t = ks ! (c * bs + t)"
  shows "for_res (\<lambda>t out. if t + c * bs < n then res_bind (get v t) (put out (t + c * bs + off)) else Inr out) [0..<bs] (blit out off (take (c * bs) ks))
     = Inr (blit out off (take (Suc c * bs) ks))" (is "for_res ?body _ ?out = _")
proof -
  let ?pos = "\<lambda>t. off + (c * bs + t)"
  have len: "length ?out = length out" using room ks by simp
  have "\<exists>d'. for_res ?body [0..<bs] ?out = Inr d' \<and> length d' = length out
     \<and> (\<forall>k<length out. d' ! k = (if k \<in> ?pos ` {t \<in> set [0..<bs]. t + c * bs < n} then ks ! (k - off) else ?out ! k))"
  proof (rule for_res_scatter [OF _ _ len])
    fix t and d :: "'f list" assume t: "t \<in> set [0..<bs]" and d: "length d = length out"
    show "?body t d = (if t + c * bs < n then Inr (d[?pos t := ks ! (?pos t - off)]) else Inr d)"
      using t d v room by (simp add: ac_simps)
  qed (use room in simp)
  then obtain d' where d': "for_res ?body [0..<bs] ?out = Inr d'" "length d' = length out"
      "\<forall>k<length out. d' ! k = (if k \<in> ?pos ` {t \<in> set [0..<bs]. t + c * bs < n} then ks ! (k - off) else ?out ! k)" by blast
  have mem: "k \<in> ?pos ` {t \<in> set [0..<bs]. t + c * bs < n} \<longleftrightarrow> off + c * bs \<le> k \<and> k < off + Suc c * bs \<and> k < off + n" for k
  proof
    assume "off + c * bs \<le> k \<and> k < off + Suc c * bs \<and> k < off + n"
    then show "k \<in> ?pos ` {t \<in> set [0..<bs]. t + c * bs < n}" by (intro image_eqI [of _ _ "k - off - c * bs"]) auto
  qed auto
  have "d' = blit out off (take (Suc c * bs) ks)"
  proof (rule nth_equalityI)
    fix k assume "k < length d'"
    then have k: "k < length out" using d'(2) by simp
    define a e where "a = c * bs" and "e = Suc c * bs"
    have ae: "a \<le> e" by (simp add: a_def e_def)
    have "d' ! k = (if off + a \<le> k \<and> k < off + e \<and> k < off + n then ks ! (k - off) else blit out off (take a ks) ! k)"
      using d'(3) k unfolding mem a_def e_def by blast
    also have "\<dots> = blit out off (take e ks) ! k" using k ks room ae by (auto simp: nth_blit)
    finally show "d' ! k = blit out off (take (Suc c * bs) ks) ! k" unfolding e_def .
  qed (use d'(2) room ks in simp)
  then show ?thesis using d'(1) by simp
qed

lemma PrefixSumKernel_eq:
  fixes out :: "'f list"
  assumes scan: "scan_ok lib cx" and bs: "0 < bs" and sz: "b * n + n \<le> length scores" "b * n + n \<le> length out"
  shows "PrefixSumKernel lib cx bs scores n b out = Inr (blit out (b * n) (kernel_sums lib cx bs (row_of n b scores)))"
proof -
  let ?row = "row_of n b scores" let ?ks = "kernel_sums lib cx bs ?row" and ?T = "thread_sums lib cx bs ?row" and ?m = "(n + bs - 1) div bs"
  let ?body = "\<lambda>i (prefix_sum, out).
         res_bind (map_res (\<lambda>tid. if tid + i < n then get scores (tid + i + b * n) else Inr (fzero cx)) [0..<bs]) (\<lambda>score.
         let scanned = block_scan lib score; prefix_sum' = map2 (fadd cx) prefix_sum scanned in
         res_bind (for_res (\<lambda>tid out. if tid + i < n
                       then res_bind (get prefix_sum' tid) (put out (tid + i + b * n)) else Inr out) [0..<bs] out) (\<lambda>out'.
         Inr (prefix_sum', out')))"
  have read: "map_res (\<lambda>tid. if tid + c * bs < n then get scores (tid + c * bs + b * n) else Inr (fzero cx)) [0..<bs] = Inr (scan_chunk cx bs ?row c)" for c
  proof -
    have "map_res (\<lambda>tid. if tid + c * bs < n then get scores (tid + c * bs + b * n) else Inr (fzero cx)) (map (\<lambda>t. t) [0..<bs])
        = Inr (map (\<lambda>t. if c * bs + t < length ?row then ?row ! (c * bs + t) else fzero cx) [0..<bs])"
    proof (rule map_res_map)
      fix t
      show "(if t + c * bs < n then get scores (t + c * bs + b * n) else Inr (fzero cx))
          = Inr (if c * bs + t < length ?row then ?row ! (c * bs + t) else fzero cx)" using sz(1) by (simp add: row_of_def ac_simps)
    qed
    then show ?thesis by (simp add: scan_chunk_def)
  qed
  have lT: "length (?T c) = bs" for c by (rule length_thread_sums [OF scan])
  have "for_res ?body (map (\<lambda>c. c * bs) [0..<m]) (?T 0, out) = Inr (?T m, blit out (b * n) (take (m * bs) ?ks))" for m
  proof (induction m)
    case 0
    show ?case by (simp add: blit_def)
  next
    case (Suc m)
    have "?T (Suc m) ! t = ?ks ! (m * bs + t)" if "t < bs" "m * bs + t < n" for t
      using that row_col [OF that(1), of m] by (simp add: kernel_sums_def)
    then have "for_res (\<lambda>t out. if t + m * bs < n then res_bind (get (?T (Suc m)) t) (put out (t + m * bs + b * n)) else Inr out) [0..<bs]
        (blit out (b * n) (take (m * bs) ?ks)) = Inr (blit out (b * n) (take (Suc m * bs) ?ks))"
      using sz(2) lT [of "Suc m"] by (intro write_chunk) (simp_all del: thread_sums.simps)
    note step = this [unfolded thread_sums.simps(2)]
    show ?case using Suc.IH by (simp add: read step Let_def del: mult_Suc)
  qed
  from this [of ?m] have "for_res ?body (strided 0 n bs) (replicate bs (fzero cx), out) = Inr (?T ?m, blit out (b * n) (take (?m * bs) ?ks))"
    using strided_upt [OF bs, of 0 n] by simp
  moreover have "take (?m * bs) ?ks = ?ks" using ceil_div_covers [OF bs, of n] by simp
  ultimately show ?thesis by (simp add: PrefixSumKernel_def)
qed

text \<open>A row of at most one chunk gets its prefix sums.\<close>

lemma kernel_sums_prefix:
  assumes scan: "scan_ok lib cx" and n: "length row \<le> bs"
  shows "prefix_sums_of cx row (kernel_sums lib cx bs row)"
proof -
  have "reduces (fadd cx) (fzero cx) (mset (take (Suc i) row)) (kernel_sums lib cx bs row ! i)" if i: "i < length row" for i
  proof -
    let ?c = "scan_chunk cx bs row 0"
    have ib: "i < bs" using i n by simp
    have "reduces (fadd cx) (fzero cx) (mset (take (Suc i) ?c)) (block_scan lib ?c ! i)" using scan ib by (simp add: scan_ok_def prefix_sums_of_def)
    moreover have "take (Suc i) ?c = take (Suc i) row" using i n by (intro nth_equalityI) (auto simp: scan_chunk_def)
    moreover have "kernel_sums lib cx bs row ! i = fadd cx (fzero cx) (block_scan lib ?c ! i)"
      using i ib length_block_scan [OF scan] by (simp add: kernel_sums_def)
    ultimately show ?thesis using reduces_node [OF reduces_unit] by fastforce
  qed
  then show ?thesis by (simp add: prefix_sums_of_def)
qed

section \<open>Thresholds\<close>

lemma draw_threshold_all:
  assumes "distinct us" and "length states = batches" and "length thresholds = batches"
  shows "\<exists>states' thresholds'. for_res (draw_threshold lib cx batches bound) us (states, thresholds) = Inr (states', thresholds')
     \<and> length states' = batches \<and> length thresholds' = batches
     \<and> (\<forall>t<batches. if t \<in> set us then thresholds' ! t = fmul cx bound (fst (curand_uniform lib (states ! t))) \<and> states' ! t = snd (curand_uniform lib (states ! t))
          else thresholds' ! t = thresholds ! t \<and> states' ! t = states ! t)"
  using assms(1)
proof (induction us rule: rev_induct)
  case (snoc u us)
  then obtain st th where IH: "for_res (draw_threshold lib cx batches bound) us (states, thresholds) = Inr (st, th)"
      "length st = batches" "length th = batches"
      "\<forall>t<batches. if t \<in> set us then th ! t = fmul cx bound (fst (curand_uniform lib (states ! t))) \<and> st ! t = snd (curand_uniform lib (states ! t))
          else th ! t = thresholds ! t \<and> st ! t = states ! t" by auto
  have "u < batches \<Longrightarrow> st ! u = states ! u" using IH(4) snoc.prems by auto
  then have "draw_threshold lib cx batches bound u (st, th) = Inr (if u < batches
      then (st[u := snd (curand_uniform lib (states ! u))], th[u := fmul cx bound (fst (curand_uniform lib (states ! u)))]) else (st, th))"
    using IH(2,3) by (simp add: draw_threshold_def case_prod_unfold Let_def)
  then show ?case using IH snoc.prems by (cases "u < batches") (auto simp: nth_list_update)
qed (use assms in simp)

text \<open>What the random number of an entry is multiplied by.\<close>

definition threshold_bound :: "('f::linorder, 'g, 'y) cxx_scheme \<Rightarrow> 'f \<Rightarrow> int \<Rightarrow> 'f list \<Rightarrow> 'f" where
  "threshold_bound cx p k prefix_sums =
     (if fzero cx < p \<and> 1 < k then min p (prefix_sums ! (nat k - 1)) else if fzero cx < p then p else prefix_sums ! (nat k - 1))"

lemma launch1_draw:
  assumes fair: "fair sched" and body: "\<And>t s. body t 0 s = draw_threshold lib cx batches bound t s"
    and len: "length states = batches" "length thresholds = batches"
  shows "\<exists>states' thresholds'. launch1 sched (batches div 128 + 1) 128 body (states, thresholds) = Inr (states', thresholds')
     \<and> length states' = batches \<and> length thresholds' = batches
     \<and> (\<forall>t<batches. thresholds' ! t = fmul cx bound (fst (curand_uniform lib (states ! t))))"
proof -
  let ?us = "sched [0..<(batches div 128 + 1) * 128]"
  have us: "t \<in> set ?us" if "t < batches" for t using that fair_set [OF fair] by simp
  have "distinct ?us" using fair_distinct [OF fair] by simp
  from draw_threshold_all [OF this len, of lib cx bound] obtain st th where
    "for_res (draw_threshold lib cx batches bound) ?us (states, thresholds) = Inr (st, th)" "length st = batches" "length th = batches"
    "\<forall>t<batches. if t \<in> set ?us then th ! t = fmul cx bound (fst (curand_uniform lib (states ! t))) \<and> st ! t = snd (curand_uniform lib (states ! t))
          else th ! t = thresholds ! t \<and> st ! t = states ! t" by blast
  then show ?thesis using us unfolding launch1_def launch_line [OF fair zero_less_numeral] body by auto
qed

lemma draw_thresholds_ok:
  assumes fair: "fair (sr_random sr)" and len: "length states = batches" "length thresholds = batches"
    and k: "1 < k \<Longrightarrow> nat k \<le> length prefix_sums"
  shows "\<exists>states' thresholds'. draw_thresholds sr lib cx batches p k prefix_sums (states, thresholds) = Inr (states', thresholds')
     \<and> length states' = batches \<and> length thresholds' = batches
     \<and> (fzero cx < p \<or> 1 < k \<longrightarrow> (\<forall>t<batches. thresholds' ! t = fmul cx (threshold_bound cx p k prefix_sums) (fst (curand_uniform lib (states ! t)))))"
proof -
  let ?bound = "threshold_bound cx p k prefix_sums"
  have read: "get prefix_sums (nat k - 1) = Inr (prefix_sums ! (nat k - 1))" if "1 < k" using k [OF that] that by simp
  have "RandomThresholdKernelTopPAndK lib cx prefix_sums batches p (nat k) t 0 s = draw_threshold lib cx batches ?bound t s" if "fzero cx < p" "1 < k" for t s
    using read [OF that(2)] that by (simp add: RandomThresholdKernelTopPAndK_def threshold_bound_def)
  moreover have "RandomThresholdKernelTopP lib cx batches p t 0 s = draw_threshold lib cx batches ?bound t s" if "fzero cx < p" "\<not> 1 < k" for t s
    using that by (simp add: RandomThresholdKernelTopP_def threshold_bound_def)
  moreover have "RandomThresholdKernelTopK lib cx prefix_sums batches (nat k) t 0 s = draw_threshold lib cx batches ?bound t s" if "\<not> fzero cx < p" "1 < k" for t s
    using read [OF that(2)] that by (simp add: RandomThresholdKernelTopK_def threshold_bound_def draw_threshold_def case_prod_unfold)
  ultimately show ?thesis
    using launch1_draw [OF fair _ len, where bound = ?bound and lib = lib and cx = cx] len unfolding draw_thresholds_def Let_def
    by (cases "fzero cx < p"; cases "1 < k") simp_all
qed

section \<open>Candidates\<close>

lemma LaunchGetTopKSubset_ok:
  assumes br: "block_reduce_ok (top_reduce lib)" and fair: "fair sched" and n: "0 < n" "k \<le> n" and batches: "0 < batches"
    and input: "length input = batches * vocab" "\<forall>x\<in>set input. ninf < x" and d: "arrays_of l d" "batches * k \<le> l" and k: "k \<le> vocab"
  shows "\<exists>d'. LaunchGetTopKSubset n sched lib ninf input vocab batches k d = Inr d' \<and> arrays_of l d'
     \<and> (\<forall>b<batches. is_best k (row_cand input vocab b ` {..<vocab}) (slots_at k (b * k) d'))"
proof -
  have thread: "GetTopKKernel_thread n 256 ninf input vocab b = stage1_thread n 256 ninf input vocab vocab b 0" for b
  proof
    fix t
    have "i < vocab" if "i \<in> set (strided t vocab 256)" for i using that by (simp add: set_strided)
    then show "GetTopKKernel_thread n 256 ninf input vocab b t = stage1_thread n 256 ninf input vocab vocab b 0 t"
      unfolding GetTopKKernel_thread_def stage1_thread_def Let_def by (intro for_res_cong) (simp_all add: add.commute)
  qed
  have kernel: "GetTopKKernel (top_reduce lib) n 256 ninf input vocab k b e
      = BeamSearchOnlineTopKStage1Kernel (top_reduce lib) n 256 ninf input k vocab vocab 1 b 0 e" for b e
    by (simp add: GetTopKKernel_def BeamSearchOnlineTopKStage1Kernel_def thread)
  let ?grid = "\<lparr>dim_x = batches, dim_y = 1\<rparr>"
  have "LaunchGetTopKSubset n sched lib ninf input vocab batches k d
      = launch_blocks sched ?grid (BeamSearchOnlineTopKStage1Kernel (top_reduce lib) n 256 ninf input k vocab vocab 1) d"
    unfolding LaunchGetTopKSubset_def launch_blocks_def kernel
  proof (intro for_res_cong)
    fix b u assume "b \<in> set (sched [0..<dim_x ?grid * dim_y ?grid])"
    then have "b div batches = 0" using fair_set [OF fair] by simp
    then show "BeamSearchOnlineTopKStage1Kernel (top_reduce lib) n 256 ninf input k vocab vocab 1 (b mod dim_x (one_dim\<lparr>dim_x := batches\<rparr>)) 0 u
        = BeamSearchOnlineTopKStage1Kernel (top_reduce lib) n 256 ninf input k vocab vocab 1 (b mod dim_x ?grid) (b div dim_x ?grid) u"
      by (simp add: one_dim_def)
  qed (simp_all add: one_dim_def)
  moreover have "\<exists>d'. launch_blocks sched ?grid (BeamSearchOnlineTopKStage1Kernel (top_reduce lib) n 256 ninf input k vocab vocab 1) d = Inr d'
     \<and> arrays_of l d' \<and> (\<forall>x<batches. \<forall>y<1. \<exists>r. is_best k (row_cand input vocab x ` part_tokens vocab vocab y) r
         \<and> slots_at k ((x * 1 + y) * k) d' = pad ninf k r)"
    by (rule stage1_ok [OF br fair n zero_less_numeral batches input d(1) _ d(2)]) simp
  moreover have "part_tokens vocab vocab 0 = {..<vocab}" by (auto simp: part_tokens_def)
  ultimately obtain d' where d': "LaunchGetTopKSubset n sched lib ninf input vocab batches k d = Inr d'" "arrays_of l d'"
      "\<forall>x<batches. \<exists>r. is_best k (row_cand input vocab x ` {..<vocab}) r \<and> slots_at k (x * k) d' = pad ninf k r" by auto
  have "is_best k (row_cand input vocab b ` {..<vocab}) (slots_at k (b * k) d')" if b: "b < batches" for b
  proof -
    obtain r where r: "is_best k (row_cand input vocab b ` {..<vocab}) r" "slots_at k (b * k) d' = pad ninf k r" using d'(3) b by blast
    have "card (row_cand input vocab b ` {..<vocab}) = vocab" by (simp add: card_image [OF inj_row_cand])
    then have "length r = k" using r(1) k by (simp add: is_best_def)
    then show ?thesis using r by (simp add: pad_def)
  qed
  then show ?thesis using d' by blast
qed

section \<open>Sampling\<close>

definition sampling_fair :: "sampling_run \<Rightarrow> bool" where
  "sampling_fair sr \<longleftrightarrow> fair (sr_soft sr) \<and> (\<forall>b. fair (sr_soft_threads sr b)) \<and> fair (sr_topk sr) \<and> fair (sr_prefix sr) \<and> fair (sr_random sr)
     \<and> fair (sr_sample sr) \<and> (\<forall>b. fair (sr_sample_threads sr b))"

text \<open>The sizes of the buffers.\<close>

definition sampling_data_ok :: "nat \<Rightarrow> nat \<Rightarrow> ('f, 'r) SamplingData \<Rightarrow> bool" where
  "sampling_data_ok batches vocab data \<longleftrightarrow>
     length (sd_indices_sorted data) = vocab * batches \<and> length (sd_scores_sorted data) = vocab * batches
     \<and> length (sd_scores_softmaxed data) = vocab * batches \<and> length (sd_prefix_sums data) = vocab * batches
     \<and> length (sd_thresholds data) = batches \<and> length (sd_indices_in data) = vocab * batches
     \<and> length (sd_offsets data) = batches + 1 \<and> length (sd_curand_states data) = batches"

lemma SamplingData_new_ok:
  assumes fair: "fair sched"
  shows "\<exists>data. SamplingData_new sched lib fresh_f fresh_i fresh_r seed batches vocab = Inr data \<and> sampling_data_ok batches vocab data
     \<and> sd_curand_states data = map (curand_init lib seed) [0..<batches]"
proof -
  have "launch sched (one_dim\<lparr>dim_x := batches div 128 + 1\<rparr>) (one_dim\<lparr>dim_x := 128\<rparr>) (InitCurandStates lib seed batches) (map fresh_r [0..<batches])
      = Inr (map (curand_init lib seed) [0..<batches])"
    by (rule launch_fill [OF fair]) (auto simp: InitCurandStates_def one_dim_def)
  then show ?thesis by (simp add: SamplingData_new_def launch1_def sampling_data_ok_def Let_def)
qed

lemma LaunchSampleKernel_ok:
  assumes fair: "sampling_fair sr" and scan: "scan_ok lib cx" and n: "0 < n" and batches: "batches \<le> 256" and k: "nat k \<le> n"
    and sz: "batches * n \<le> length scores" "batches * n \<le> length indices" "batches * n \<le> length (sd_prefix_sums data)"
    and data: "length (sd_thresholds data) = batches" "length (sd_curand_states data) = batches" "length out = batches" and b0: "0 < batches"
  shows "\<exists>ps th st tokens. LaunchSampleKernel sr lib cx scores indices n batches p k (data, out)
       = Inr (data\<lparr>sd_prefix_sums := ps, sd_curand_states := st, sd_thresholds := th\<rparr>, tokens)
     \<and> length ps = length (sd_prefix_sums data) \<and> length th = batches \<and> length st = batches \<and> length tokens = batches
     \<and> (\<forall>b<batches. row_of n b ps = kernel_sums lib cx 256 (row_of n b scores) \<and> tokens ! b = indices ! (b * n + reach_index (th ! b) (row_of n b ps)))
     \<and> (fzero cx < p \<or> 1 < k \<longrightarrow> (\<forall>b<batches. th ! b = fmul cx (threshold_bound cx p k ps) (fst (curand_uniform lib (sd_curand_states data ! b)))))"
proof -
  have room: "b * n + n \<le> m" if "b < batches" "batches * n \<le> m" for b m using row_bound [OF that(1), of n n] that(2) by simp
  have "\<exists>ps. launch_blocks (sr_prefix sr) (one_dim\<lparr>dim_x := batches\<rparr>) (\<lambda>b y. PrefixSumKernel lib cx 256 scores n b) (sd_prefix_sums data) = Inr ps
     \<and> length ps = length (sd_prefix_sums data) \<and> (\<forall>b<batches. row_of n b ps = kernel_sums lib cx 256 (row_of n b scores))"
  proof (rule launch_row_blocks [OF _ sz(3)])
    show "fair (sr_prefix sr)" using fair by (simp add: sampling_fair_def)
  qed (use PrefixSumKernel_eq [OF scan zero_less_numeral] room sz in simp)
  then obtain ps where ps: "launch_blocks (sr_prefix sr) (one_dim\<lparr>dim_x := batches\<rparr>) (\<lambda>b y. PrefixSumKernel lib cx 256 scores n b) (sd_prefix_sums data) = Inr ps"
      "length ps = length (sd_prefix_sums data)" "\<forall>b<batches. row_of n b ps = kernel_sums lib cx 256 (row_of n b scores)" by blast
  have "n \<le> length ps" using room [OF b0 sz(3)] ps(2) by simp
  then obtain st th where th: "draw_thresholds sr lib cx batches p k ps (sd_curand_states data, sd_thresholds data) = Inr (st, th)"
      "length st = batches" "length th = batches"
      "fzero cx < p \<or> 1 < k \<longrightarrow> (\<forall>t<batches. th ! t = fmul cx (threshold_bound cx p k ps) (fst (curand_uniform lib (sd_curand_states data ! t))))"
    using draw_thresholds_ok [where sr = sr, OF _ data(2,1), of k ps lib cx p] fair k by (auto simp: sampling_fair_def)
  let ?t = "\<lambda>b. indices ! (b * n + reach_index (th ! b) (row_of n b ps))"
  have "\<exists>tokens. launch_blocks (sr_sample sr) (one_dim\<lparr>dim_x := batches\<rparr>)
        (\<lambda>b y. SampleKernel (sr_sample_threads sr b) 256 ps indices n th b) out = Inr tokens
     \<and> length tokens = length out \<and> (\<forall>b<batches. row_of 1 b tokens = [?t b])"
  proof (rule launch_row_blocks)
    show "fair (sr_sample sr)" using fair by (simp add: sampling_fair_def)
    show "batches * 1 \<le> length out" using data(3) by simp
    fix b and d :: "int list" assume b: "b < batches" and d: "length d = length out"
    have "SampleKernel (sr_sample_threads sr b) 256 ps indices n th b d = Inr (d[b := ?t b])"
      by (rule SampleKernel_ok) (use fair n b d batches th(3) room sz ps(2) data(3) in \<open>simp_all add: sampling_fair_def\<close>)
    moreover have "blit d (b * 1) [?t b] = d[b := ?t b]" using b d data(3) by (intro nth_equalityI) (auto simp: nth_blit nth_list_update)
    ultimately show "\<exists>vals. SampleKernel (sr_sample_threads sr b) 256 ps indices n th b d = Inr (blit d (b * 1) vals) \<and> length vals = 1 \<and> vals = [?t b]"
      by simp
  qed
  then obtain tokens where tokens: "launch_blocks (sr_sample sr) (one_dim\<lparr>dim_x := batches\<rparr>)
        (\<lambda>b y. SampleKernel (sr_sample_threads sr b) 256 ps indices n th b) out = Inr tokens" "length tokens = batches" "\<forall>b<batches. tokens ! b = ?t b"
    using data(3) by (auto simp: row_of_def)
  then show ?thesis using ps th
    by (intro exI [of _ ps] exI [of _ th] exI [of _ st] exI [of _ tokens]) (simp add: LaunchSampleKernel_def)
qed

section \<open>The choice among the \<open>k\<close> best\<close>

text \<open>What the kernels need of the arithmetic of floats: exponentials are not negative, sums and quotients of such values are
  not negative either, and so above minus infinity.\<close>

locale nonneg_floats =
  fixes cx :: "('f::linorder, 'g, 'y) cxx_scheme" and ninf :: 'f
  assumes exp_nonneg: "fzero cx \<le> fexp cx a"
    and add_nonneg: "fzero cx \<le> a \<Longrightarrow> fzero cx \<le> b \<Longrightarrow> fzero cx \<le> fadd cx a b"
    and div_above: "fzero cx \<le> a \<Longrightarrow> fzero cx \<le> b \<Longrightarrow> ninf < fdiv cx a b"
begin

lemma reduces_nonneg: "reduces (fadd cx) (fzero cx) M v \<Longrightarrow> \<forall>x\<in>#M. fzero cx \<le> x \<Longrightarrow> fzero cx \<le> v"
  by (induction rule: reduces.induct) (auto intro: add_nonneg)

lemma softmaxed_above:
  assumes "softmaxed cx (softmax_epilogue False cx) temp row probs" and "x \<in> set probs"
  shows "ninf < x"
proof -
  obtain s where s: "exp_sum_of cx (fdiv cx (Max (set row)) temp) row s" "probs = map (softmax_epilogue False cx (Max (set row)) s) row"
    using assms(1) by (auto simp: softmaxed_def)
  have "fzero cx \<le> s" using s(1) unfolding exp_sum_of_def by (rule reduces_nonneg) (auto simp: exp_nonneg)
  then show ?thesis using assms(2) s(2) by (auto simp: softmax_epilogue_def SoftmaxForwardEpilogue_def intro: div_above exp_nonneg)
qed

lemma rows_above:
  assumes "length res = batches * n" and "\<forall>b<batches. softmaxed cx (softmax_epilogue False cx) temp (row_of n b input) (row_of n b res)"
  shows "\<forall>x\<in>set res. ninf < x"
proof
  fix x assume "x \<in> set res"
  then obtain k where k: "k < batches * n" "x = res ! k" using assms(1) by (auto simp: in_set_conv_nth)
  then have "0 < n" by (cases n) simp_all
  then have "k div n < batches" "k mod n < n" "k = k div n * n + k mod n" using k(1) by (simp_all add: less_mult_imp_div_less)
  then have "x \<in> set (row_of n (k div n) res)" 
    using k(2) unfolding row_of_def set_map by (intro image_eqI [of _ _ "k mod n"]) simp_all
  then show "ninf < x" using assms(2) \<open>k div n < batches\<close> softmaxed_above by blast
qed

end

text \<open>The candidates of a row of probabilities, and the token that a threshold selects among its \<open>k\<close> best.\<close>

definition prob_cands :: "'f list \<Rightarrow> ('f \<times> int) set" where
  "prob_cands probs = (\<lambda>i. (probs ! i, int i)) ` {..<length probs}"

definition top_k_sample :: "('f::linorder, 'g, 'y) cxx_scheme \<Rightarrow> 'f \<Rightarrow> nat \<Rightarrow> 'f list \<Rightarrow> 'f \<Rightarrow> int \<Rightarrow> bool" where
  "top_k_sample cx temp k row threshold token \<longleftrightarrow>
     (\<exists>probs ranked scan. softmaxed cx (softmax_epilogue False cx) temp row probs \<and> is_best k (prob_cands probs) ranked \<and> length ranked = k
        \<and> prefix_sums_of cx (map fst ranked) scan \<and> token = snd (ranked ! reach_index threshold scan))"

lemma row_cand_probs: "row_cand input n b ` {..<n} = prob_cands (row_of n b input)"
  by (auto simp: prob_cands_def row_cand_def row_of_def)

lemma length_slots_at [simp]: "length (slots_at k off d) = k"
  by (simp add: slots_at_def)

lemma row_of_slots: "row_of k b (fst d) = map fst (slots_at k (b * k) d)"
  by (simp add: row_of_def slots_at_def)

lemma GetSample_top_k_ok:
  assumes floats: "nonneg_floats cx ninf" and fair: "sampling_fair sr" and br: "block_reduce_ok (top_reduce lib)" and scan: "scan_ok lib cx"
    and k: "0 < k" "k \<le> 64" "k < vocab" and batches: "0 < batches" "batches \<le> 256"
    and scores: "length scores = batches * vocab" "\<forall>x\<in>set scores. flowest cx \<le> x"
    and data: "sampling_data_ok batches vocab data" and out: "length out = batches"
  shows "\<exists>data' tokens. GetSample sr lib cx ninf scores vocab batches (int k) p temp (data, out) = Inr (data', tokens)
     \<and> sampling_data_ok batches vocab data' \<and> length tokens = batches
     \<and> (\<forall>b<batches. top_k_sample cx temp k (row_of vocab b scores) (sd_thresholds data' ! b) (tokens ! b))
     \<and> (fzero cx < p \<or> 1 < k \<longrightarrow> (\<forall>b<batches. sd_thresholds data' ! b
          = fmul cx (threshold_bound cx p (int k) (sd_prefix_sums data')) (fst (curand_uniform lib (sd_curand_states data ! b)))))"
proof -
  let ?n = "max_k_for k" and ?d0 = "(sd_scores_sorted data, sd_indices_sorted data)"
  have len: "length (sd_scores_softmaxed data) = batches * vocab" using data by (simp add: sampling_data_ok_def mult.commute)
  have "0 < vocab" using k by simp
  then obtain sm where sm: "DispatchBlockwiseSoftmaxForward False (sr_soft sr) (sr_soft_threads sr) cx (sr_addr_in sr) (sr_addr_out sr) scores
        vocab vocab vocab batches temp (sd_scores_softmaxed data) = Inr sm" "length sm = batches * vocab"
      "\<forall>b<batches. softmaxed cx (softmax_epilogue False cx) temp (row_of vocab b scores) (row_of vocab b sm)"
    using DispatchBlockwiseSoftmaxForward_ok [where is_log = False and temp = temp and tsched = "sr_soft_threads sr" and sched = "sr_soft sr"
        and addr_in = "sr_addr_in sr" and addr_out = "sr_addr_out sr", OF _ _ _ scores(1) len scores(2)] fair by (auto simp: sampling_fair_def)
  have above: "\<forall>x\<in>set sm. ninf < x" by (rule nonneg_floats.rows_above [OF floats sm(2,3)])
  have kv: "batches * k \<le> vocab * batches" using k(3) by (simp add: mult.commute)
  have d0: "arrays_of (vocab * batches) ?d0" using data by (simp add: sampling_data_ok_def arrays_of_def)
  obtain d where d: "LaunchGetTopKSubset ?n (sr_topk sr) lib ninf sm vocab batches k ?d0 = Inr d" "arrays_of (vocab * batches) d"
      "\<forall>b<batches. is_best k (prob_cands (row_of vocab b sm)) (slots_at k (b * k) d)"
    using LaunchGetTopKSubset_ok [where n = ?n, OF br _ max_k_for_bounds(1) max_k_for_bounds(2) [OF k(2)] batches(1) sm(2) above d0 kv, of "sr_topk sr"]
      fair k(3) by (auto simp: sampling_fair_def row_cand_probs)
  let ?data = "data\<lparr>sd_scores_softmaxed := sm, sd_scores_sorted := fst d, sd_indices_sorted := snd d\<rparr>"
  have subset: "GetTopKSubset sr lib cx ninf scores vocab batches k temp data = Inr ?data"
    using sm(1) d(1) k(2) by (simp add: GetTopKSubset_def softmax_rows_def case_prod_unfold)
  have sz: "batches * k \<le> length (fst d)" "batches * k \<le> length (snd d)" "batches * k \<le> length (sd_prefix_sums ?data)"
      "length (sd_thresholds ?data) = batches" "length (sd_curand_states ?data) = batches"
    using d(2) kv data by (simp_all add: arrays_of_def sampling_data_ok_def)
  obtain ps th st tokens where ls: "LaunchSampleKernel sr lib cx (fst d) (snd d) k batches p (int k) (?data, out)
       = Inr (?data\<lparr>sd_prefix_sums := ps, sd_curand_states := st, sd_thresholds := th\<rparr>, tokens)"
      "length ps = length (sd_prefix_sums ?data)" "length th = batches" "length st = batches" "length tokens = batches"
      "\<forall>b<batches. row_of k b ps = kernel_sums lib cx 256 (row_of k b (fst d)) \<and> tokens ! b = snd d ! (b * k + reach_index (th ! b) (row_of k b ps))"
      "fzero cx < p \<or> 1 < int k \<longrightarrow> (\<forall>b<batches. th ! b = fmul cx (threshold_bound cx p (int k) ps) (fst (curand_uniform lib (sd_curand_states ?data ! b))))"
    using LaunchSampleKernel_ok [where data = ?data and p = p and k = "int k", OF fair scan k(1) batches(2) _ sz out batches(1)] k(2) by auto
  have "top_k_sample cx temp k (row_of vocab b scores) (th ! b) (tokens ! b)" if b: "b < batches" for b
  proof -
    have "row_of k b ps \<noteq> []" using k(1) by (simp add: row_of_def)
    then have "reach_index (th ! b) (row_of k b ps) < k" using reach_index_least(1) by fastforce
    then have "tokens ! b = snd (slots_at k (b * k) d ! reach_index (th ! b) (row_of k b ps))" using ls(6) b by (simp add: slots_at_def)
    moreover have "prefix_sums_of cx (map fst (slots_at k (b * k) d)) (row_of k b ps)"
      using ls(6) b kernel_sums_prefix [OF scan, of "row_of k b (fst d)" 256] k(2) by (simp add: row_of_slots)
    ultimately show ?thesis using sm(3) d(3) b length_slots_at unfolding top_k_sample_def by blast
  qed
  moreover have "GetSample sr lib cx ninf scores vocab batches (int k) p temp (data, out)
      = Inr (?data\<lparr>sd_prefix_sums := ps, sd_curand_states := st, sd_thresholds := th\<rparr>, tokens)"
    using subset ls(1) k by (simp add: GetSample_def)
  moreover have "sampling_data_ok batches vocab (?data\<lparr>sd_prefix_sums := ps, sd_curand_states := st, sd_thresholds := th\<rparr>)"
    using data sm(2) d(2) ls(2-4) by (simp add: sampling_data_ok_def arrays_of_def mult.commute)
  ultimately show ?thesis using ls(5,7) by auto
qed

section \<open>Exact arithmetic\<close>

text \<open>Real numbers in place of floats.\<close>

definition real_cxx :: "(real, nat) cxx" where
  "real_cxx = \<lparr>fzero = 0, fone = 1, flowest = -1000000, fbig_neg = -100000,
     fadd = (+), fsub = (-), fmul = (*), fdiv = (/), fexp = exp, flog = ln, fpow = (powr), fof_int = of_int,
     sort_indices = (\<lambda>scores k. sort_key (\<lambda>i. - (scores ! i)) [0..<length scores]),
     queue_top = (\<lambda>q. q ! max_element (map fst q)),
     uniform = (\<lambda>p g. (0, Suc g)), discrete = (\<lambda>w g. (g mod length w, Suc g))\<rparr>"

interpretation real_floats: nonneg_floats real_cxx "-1 :: real"
proof
  show "-1 < fdiv real_cxx a b" if "fzero real_cxx \<le> a" "fzero real_cxx \<le> b" for a b
  proof -
    have "0 \<le> a / b" using that by (simp add: real_cxx_def)
    then show ?thesis by (simp add: real_cxx_def)
  qed
qed (simp_all add: real_cxx_def)

text \<open>The temperature only changes the sum that the exponentials are divided by, so the results of a row do not add up to
  one unless the temperature is one or the largest score is zero.\<close>

lemma softmax_temperature_sum:
  assumes "softmaxed real_cxx (softmax_epilogue False real_cxx) temp row probs" and "row \<noteq> []"
  shows "sum_list probs = exp (Max (set row) / temp - Max (set row))"
proof -
  let ?m = "Max (set row)" let ?E = "\<Sum>x\<leftarrow>row. exp x"
  obtain s where s: "exp_sum_of real_cxx (?m / temp) row s" "probs = map (\<lambda>x. exp (x - ?m) / s) row"
    using assms(1) by (auto simp: softmaxed_def softmax_epilogue_def SoftmaxForwardEpilogue_def real_cxx_def)
  have scale: "(\<Sum>x\<leftarrow>row. exp (x - c)) = ?E * exp (- c)" for c by (induction row) (simp_all add: exp_diff exp_minus field_simps)
  have "s = (\<Sum>x\<leftarrow>row. exp (x - ?m / temp))"
    using reduces_sum [of "image_mset (\<lambda>x. exp (x - ?m / temp)) (mset row)" s] s(1)
    by (simp add: exp_sum_of_def real_cxx_def sum_mset_sum_list flip: mset_map)
  then have "s = ?E * exp (- (?m / temp))" by (simp add: scale)
  moreover have "sum_list (map (\<lambda>x. exp (x - c) / s) row) = (\<Sum>x\<leftarrow>row. exp (x - c)) / s" for c by (induction row) (simp_all add: add_divide_distrib)
  then have "sum_list probs = (\<Sum>x\<leftarrow>row. exp (x - ?m)) / s" unfolding s(2) .
  moreover have "0 < ?E" using assms(2) by (cases row) (auto intro!: add_pos_nonneg sum_list_nonneg)
  ultimately have "sum_list probs = (?E * exp (- ?m)) / (?E * exp (- (?m / temp)))" "?E \<noteq> 0" using scale [of ?m] by simp_all
  then have "sum_list probs = exp (- ?m) / exp (- (?m / temp))" by simp
  then show ?thesis by (simp add: exp_diff [symmetric])
qed

text \<open>A library for exact arithmetic, which draws the same number every time.\<close>

definition plain_lib :: "'f \<Rightarrow> ('f::{linorder, comm_monoid_add}, nat) cuda_lib" where
  "plain_lib u = \<lparr>curand_init = (\<lambda>seed i. i), curand_uniform = (\<lambda>g. (u, Suc g)),
     block_scan = (\<lambda>xs. map (\<lambda>i. sum_list (take (Suc i) xs)) [0..<length xs]),
     sort_descending = (\<lambda>xs. rev (sort_key fst xs)), sort_ascending = sort_key fst, top_reduce = reduce_left\<rparr>"

lemma plain_lib_scan:
  fixes cx :: "('f::{linorder, comm_monoid_add}, 'g, 'y) cxx_scheme"
  assumes "fadd cx = (+)" and "fzero cx = 0"
  shows "scan_ok (plain_lib u) cx"
proof -
  have fold: "fold (\<lambda>x a. a + x) ys c = c + sum_list ys" for ys :: "'f list" and c by (induction ys arbitrary: c) (simp_all add: add.assoc)
  have "reduces (+) 0 (mset ys) (sum_list ys)" for ys :: "'f list"
    using reduces_leaves [of "(+)" "0 :: 'f" "\<lambda>x. x" ys] by (simp add: fold)
  then show ?thesis using assms by (simp add: scan_ok_def prefix_sums_of_def plain_lib_def)
qed

lemma plain_lib_reduce: "block_reduce_ok (top_reduce (plain_lib u))"
  by (simp add: plain_lib_def reduce_left_ok)

definition backward_run :: sampling_run where
  "backward_run = \<lparr>sr_soft = rev, sr_soft_threads = (\<lambda>b. rev), sr_offsets = rev, sr_indices = rev, sr_topk = rev, sr_prefix = rev, sr_random = rev,
     sr_sample = rev, sr_sample_threads = (\<lambda>b. rev), sr_addr_in = 1, sr_addr_out = 0\<rparr>"

lemma backward_run_fair: "sampling_fair backward_run"
  by (simp add: sampling_fair_def backward_run_def fair_rev)

text \<open>Beyond the first 256 elements the kernel's sums are not the prefix sums of the row: each thread adds up the scans at its own
  place and not whole chunks. Of 257 elements the last sum has two terms.\<close>

lemma kernel_sums_second_chunk: "kernel_sums (plain_lib 0) real_cxx 256 (replicate 257 1) ! 256 = 2"
proof -
  have first: "block_scan (plain_lib 0) xs ! 0 = xs ! 0" if "0 < length xs" for xs :: "real list" using that by (cases xs) (simp_all add: plain_lib_def del: upt_Suc)
  have len: "length (block_scan (plain_lib 0) xs) = length xs" for xs :: "real list" by (simp add: plain_lib_def)
  have "kernel_sums (plain_lib 0) real_cxx 256 (replicate 257 1) ! 256 = thread_sums (plain_lib 0) real_cxx 256 (replicate 257 1) (Suc (Suc 0)) ! 0"
    by (simp add: kernel_sums_def del: thread_sums.simps upt_rec_numeral)
  also have "\<dots> = 2" by (simp add: len first scan_chunk_def real_cxx_def del: upt_rec_numeral)
  finally show ?thesis .
qed

section \<open>Results\<close>

text \<open>C6. Sampling from the \<open>k\<close> best tokens on the device. For at most 64 candidates, fewer than the vocabulary, and at most 256
  batch entries, whatever the order of the threads and blocks of the kernels, the alignment of the rows, and the order in which
  the library adds and reduces, \<open>GetSample\<close> returns and keeps the sizes of its buffers; the token of every entry is the one of
  its \<open>k\<close> most probable tokens, ranked by the softmax of its scores with the lower token first among equals, at which the sum of
  the probabilities first reaches the threshold of the entry, or the last of them. With \<open>top_p\<close> or more than one candidate the
  threshold is the entry's random number times the bound that \<open>top_p\<close> and the sum of the candidates give.\<close>

theorem GetSample_top_k:
  assumes "nonneg_floats cx ninf" and "sampling_fair sr" and "block_reduce_ok (top_reduce lib)" and "scan_ok lib cx"
    and "0 < k" and "k \<le> 64" and "k < vocab" and "0 < batches" and "batches \<le> 256"
    and "length scores = batches * vocab" and "\<forall>x\<in>set scores. flowest cx \<le> x"
    and "sampling_data_ok batches vocab data" and "length out = batches"
  shows "\<exists>data' tokens. GetSample sr lib cx ninf scores vocab batches (int k) p temp (data, out) = Inr (data', tokens)
     \<and> sampling_data_ok batches vocab data' \<and> length tokens = batches
     \<and> (\<forall>b<batches. top_k_sample cx temp k (row_of vocab b scores) (sd_thresholds data' ! b) (tokens ! b))
     \<and> (fzero cx < p \<or> 1 < k \<longrightarrow> (\<forall>b<batches. sd_thresholds data' ! b
          = fmul cx (threshold_bound cx p (int k) (sd_prefix_sums data')) (fst (curand_uniform lib (sd_curand_states data ! b)))))"
  using assms by (rule GetSample_top_k_ok)

theorem GetSample_top_k_witness:
  "\<exists>data' tokens. GetSample backward_run (plain_lib (1 / 2)) real_cxx (-1) [1, 5, 2] 3 1 2 0 1
      (\<lparr>sd_indices_sorted = [0, 0, 0], sd_scores_sorted = [0, 0, 0], sd_scores_softmaxed = [0, 0, 0], sd_prefix_sums = [0, 0, 0],
        sd_thresholds = [0], sd_indices_in = [0, 0, 0], sd_offsets = [0, 0], sd_curand_states = [7]\<rparr>, [0]) = Inr (data', tokens)
     \<and> length tokens = 1 \<and> top_k_sample real_cxx 1 2 [1, 5, 2] (sd_thresholds data' ! 0) (tokens ! 0)
     \<and> sd_thresholds data' ! 0 = sd_prefix_sums data' ! 1 * (1 / 2)"
proof -
  let ?data = "\<lparr>sd_indices_sorted = [0, 0, 0], sd_scores_sorted = [0, 0, 0], sd_scores_softmaxed = [0, 0, 0], sd_prefix_sums = [0, 0, 0],
        sd_thresholds = [0], sd_indices_in = [0, 0, 0], sd_offsets = [0, 0], sd_curand_states = [7 :: nat]\<rparr>"
  have scan: "scan_ok (plain_lib (1 / 2)) real_cxx" by (rule plain_lib_scan) (simp_all add: real_cxx_def)
  have data: "sampling_data_ok 1 3 ?data" by (simp add: sampling_data_ok_def)
  have sc: "length [1, 5, 2 :: real] = 1 * 3" "\<forall>x\<in>set [1, 5, 2]. flowest real_cxx \<le> x" "length [0 :: int] = 1" by (simp_all add: real_cxx_def)
  have num: "(0::nat) < 2" "(2::nat) \<le> 64" "(2::nat) < 3" "(0::nat) < 1" "(1::nat) \<le> 256" by simp_all
  note sampled = GetSample_top_k [where p = 0 and temp = 1,
      OF real_floats.nonneg_floats_axioms backward_run_fair plain_lib_reduce scan num sc(1,2) data sc(3)]
  have row: "row_of 3 0 [1, 5, 2 :: real] = [1, 5, 2]" by code_simp
  from sampled row show ?thesis by (auto simp: real_cxx_def plain_lib_def threshold_bound_def)
qed

end
