(* ===== verification/CudaGreedy.thy ===== *)
theory CudaGreedy
  imports CudaSamplingLaws
begin

text \<open>
  Laws of greedy search on the device: sorting whole rows, what \<open>GetSample\<close> returns for any number of candidates, and a
  step of the search.
\<close>

section \<open>Sorting the rows\<close>

text \<open>What CUB documents of the descending sort of a segment.\<close>

definition sort_law :: "('f::linorder, 'r) cuda_lib \<Rightarrow> bool" where
  "sort_law lib \<longleftrightarrow> (\<forall>xs. mset (sort_descending lib xs) = mset xs \<and> sorted_wrt (\<lambda>a b. fst b \<le> fst a) (sort_descending lib xs))"

lemma LaunchPopulateIndices_eq:
  assumes "fair sched" and "length d = batches * n"
  shows "LaunchPopulateIndices sched n batches d = Inr (map (\<lambda>i. int (i mod n)) [0..<batches * n])"
  unfolding LaunchPopulateIndices_def launch1_def
  by (rule launch_fill [OF assms(1)]) (use assms(2) in \<open>auto simp: PopulateIndices_def one_dim_def mult.commute\<close>)

lemma LaunchPopulateOffsets_eq:
  assumes "fair sched" and "length d = batches + 1"
  shows "LaunchPopulateOffsets sched n batches d = Inr (map (\<lambda>i. int (i * n)) [0..<batches + 1])"
  unfolding LaunchPopulateOffsets_def launch1_def
  by (rule launch_fill [OF assms(1)]) (use assms(2) in \<open>auto simp: PopulateOffsets_def one_dim_def\<close>)

definition rows_sorted :: "('f, 'r) cuda_lib \<Rightarrow> nat \<Rightarrow> 'f list \<Rightarrow> nat \<Rightarrow> 'f list \<times> int list \<Rightarrow> bool" where
  "rows_sorted lib n scores b d \<longleftrightarrow> zip (row_of n b (fst d)) (row_of n b (snd d)) = sort_descending lib (zip (row_of n b scores) (map int [0..<n]))"

lemma take_drop_row: "b * n + n \<le> length xs \<Longrightarrow> take n (drop (b * n) xs) = row_of n b xs"
  by (intro nth_equalityI) (auto simp: row_of_def)

lemma LaunchSortPairs_ok:
  fixes d :: "'f::linorder list \<times> int list"
  assumes sort: "sort_law lib" and len: "length scores = batches * n" and d: "arrays_of (batches * n) d"
  shows "\<exists>d'. LaunchSortPairs lib scores (map (\<lambda>i. int (i mod n)) [0..<batches * n]) batches (map (\<lambda>i. int (i * n)) [0..<batches + 1]) True d = Inr d'
     \<and> arrays_of (batches * n) d' \<and> (\<forall>b<batches. rows_sorted lib n scores b d')"
proof -
  let ?vals = "map (\<lambda>i. int (i mod n)) [0..<batches * n]" and ?offs = "map (\<lambda>i. int (i * n)) [0..<batches + 1]"
  let ?sorted = "\<lambda>s. sort_descending lib (zip (row_of n s scores) (map int [0..<n]))"
  let ?body = "\<lambda>s (keys_out, values_out).
       res_bind (res_bind (get ?offs s) index_of) (\<lambda>from.
       res_bind (res_bind (get ?offs (s + 1)) index_of) (\<lambda>to.
       res_bind (subspan scores from (to - from)) (\<lambda>ks.
       res_bind (subspan ?vals from (to - from)) (\<lambda>vs.
       let sorted = (if True then sort_descending lib else sort_ascending lib) (zip ks vs) in
       res_bind (copy_into keys_out from (map fst sorted)) (\<lambda>keys_out'.
       res_bind (copy_into values_out from (map snd sorted)) (\<lambda>values_out'. Inr (keys_out', values_out')))))))"
  have "\<exists>d'. for_res ?body [0..<batches] d = Inr d' \<and> arrays_of (batches * n) d' \<and> (\<forall>b\<in>set [0..<batches]. rows_sorted lib n scores b d')"
  proof (rule for_res_each [where ok = "arrays_of (batches * n)" and R = "rows_sorted lib n scores", OF d])
    fix s and e :: "'f list \<times> int list" assume "s \<in> set [0..<batches]" and e: "arrays_of (batches * n) e"
    then have s: "s < batches" by simp
    have room: "s * n + n \<le> batches * n" using row_bound [OF s, of n n] by simp
    have le: "length (fst e) = batches * n" "length (snd e) = batches * n" using e by (simp_all add: arrays_of_def)
    have ls: "length (?sorted s) = n" using sort mset_eq_length [of "?sorted s" "zip (row_of n s scores) (map int [0..<n])"] by (simp add: sort_law_def)
    have offs: "get ?offs s = Inr (int (s * n))" "get ?offs (s + 1) = Inr (int (s * n + n))"
      using s by (simp_all add: nth_map algebra_simps del: upt_Suc)
    have "row_of n s ?vals = map int [0..<n]"
      using row_bound_less [OF s] row_col by (intro nth_equalityI) (simp_all add: row_of_def)
    then have spans: "subspan scores (s * n) n = Inr (row_of n s scores)" "subspan ?vals (s * n) n = Inr (map int [0..<n])"
      using room len take_drop_row [of s n scores] take_drop_row [of s n ?vals] by simp_all
    let ?e = "(blit (fst e) (s * n) (map fst (?sorted s)), blit (snd e) (s * n) (map snd (?sorted s)))"
    have diff: "s * n + n - s * n = n" by simp
    have "?body s e = Inr ?e" unfolding case_prod_unfold offs res_bind_Inr index_of_of_nat diff spans Let_def
      using room le ls by simp
    moreover have "arrays_of (batches * n) ?e" using room le ls by (simp add: arrays_of_def)
    moreover have rows: "row_of n u (fst ?e) = (if u = s then map fst (?sorted s) else row_of n u (fst e))"
        "row_of n u (snd ?e) = (if u = s then map snd (?sorted s) else row_of n u (snd e))" if "u < batches" for u
      using row_of_blit [OF s that, of n "fst e" "map fst (?sorted s)"] row_of_blit [OF s that, of n "snd e" "map snd (?sorted s)"] le ls by simp_all
    moreover have "rows_sorted lib n scores s ?e" using rows [OF s] by (simp add: rows_sorted_def zip_map_fst_snd)
    moreover have "rows_sorted lib n scores u ?e" if "u < batches" "u \<noteq> s" "rows_sorted lib n scores u e" for u
      using rows [OF that(1)] that by (simp add: rows_sorted_def)
    ultimately show "\<exists>e'. ?body s e = Inr e' \<and> arrays_of (batches * n) e' \<and> rows_sorted lib n scores s e'
        \<and> (\<forall>u\<in>set [0..<batches]. u \<noteq> s \<longrightarrow> rows_sorted lib n scores u e \<longrightarrow> rows_sorted lib n scores u e')" by auto
  qed
  then show ?thesis unfolding LaunchSortPairs_def by (simp only: Ball_def set_upt atLeastLessThan_iff le0 simp_thms)
qed

lemma sort_rows_ok:
  assumes sort: "sort_law lib" and fair: "fair (sr_offsets sr)" "fair (sr_indices sr)" and len: "length scores = batches * n"
    and data: "sampling_data_ok batches n data"
  shows "\<exists>offs idx d. sort_rows sr lib scores n batches data
       = Inr (data\<lparr>sd_offsets := offs, sd_indices_in := idx, sd_scores_sorted := fst d, sd_indices_sorted := snd d\<rparr>)
     \<and> length offs = batches + 1 \<and> length idx = batches * n \<and> arrays_of (batches * n) d \<and> (\<forall>b<batches. rows_sorted lib n scores b d)"
proof -
  let ?idx = "map (\<lambda>i. int (i mod n)) [0..<batches * n]" and ?offs = "map (\<lambda>i. int (i * n)) [0..<batches + 1]"
  have "arrays_of (batches * n) (sd_scores_sorted data, sd_indices_sorted data)" using data by (simp add: arrays_of_def sampling_data_ok_def mult.commute)
  from LaunchSortPairs_ok [OF sort len this] obtain d where d: "LaunchSortPairs lib scores ?idx batches ?offs True (sd_scores_sorted data, sd_indices_sorted data) = Inr d"
      "arrays_of (batches * n) d" "\<forall>b<batches. rows_sorted lib n scores b d" by blast
  have "LaunchPopulateOffsets (sr_offsets sr) n batches (sd_offsets data) = Inr ?offs" "LaunchPopulateIndices (sr_indices sr) n batches (sd_indices_in data) = Inr ?idx"
    using LaunchPopulateOffsets_eq [OF fair(1)] LaunchPopulateIndices_eq [OF fair(2)] data by (simp_all add: sampling_data_ok_def mult.commute)
  then show ?thesis using d by (intro exI [of _ ?offs] exI [of _ ?idx] exI [of _ d]) (simp add: sort_rows_def case_prod_unfold del: upt_Suc)
qed

section \<open>Tokens in range\<close>

definition sampling_fair_all :: "sampling_run \<Rightarrow> bool" where
  "sampling_fair_all sr \<longleftrightarrow> sampling_fair sr \<and> fair (sr_offsets sr) \<and> fair (sr_indices sr)"

text \<open>A token among the \<open>k\<close> best is a token of the vocabulary.\<close>

lemma top_k_sample_range:
  assumes "top_k_sample cx temp k row threshold token" and "0 < k"
  shows "0 \<le> token \<and> token < int (length row)"
proof -
  obtain probs ranked scan where s: "softmaxed cx (softmax_epilogue False cx) temp row probs" "is_best k (prob_cands probs) ranked" "length ranked = k"
      "prefix_sums_of cx (map fst ranked) scan" "token = snd (ranked ! reach_index threshold scan)"
    using assms(1) unfolding top_k_sample_def by blast
  have "length scan = k" using s(3,4) by (simp add: prefix_sums_of_def)
  then have "reach_index threshold scan < k" using reach_index_least(1) [of scan threshold] assms(2) by auto
  then have "ranked ! reach_index threshold scan \<in> prob_cands probs" using s(2,3) by (auto simp: is_best_def)
  moreover have "length probs = length row" using s(1) by (auto simp: softmaxed_def)
  ultimately show ?thesis using s(5) by (auto simp: prob_cands_def)
qed

lemma rows_sorted_range:
  assumes sort: "sort_law lib" and rows: "rows_sorted lib n scores b d" and i: "i < n"
  shows "0 \<le> snd d ! (b * n + i) \<and> snd d ! (b * n + i) < int n"
proof -
  let ?z = "zip (row_of n b (fst d)) (row_of n b (snd d))" and ?c = "zip (row_of n b scores) (map int [0..<n])"
  have "mset ?z = mset ?c" using rows sort by (simp add: rows_sorted_def sort_law_def)
  then have "set ?z = set ?c" by (rule mset_eq_setD)
  moreover have "?z ! i \<in> set ?z" using i by (intro nth_mem) simp
  ultimately have "snd (?z ! i) \<in> snd ` set ?c" by blast
  then have "snd (?z ! i) \<in> set (map int [0..<n])" by (auto dest: set_zip_rightD)
  then show ?thesis using i by (auto simp: row_of_def)
qed

text \<open>Without a limit on the candidates, or with more than 64, whole rows are sorted.\<close>

lemma GetSample_sorted_ok:
  assumes fair: "sampling_fair_all sr" and scan: "scan_ok lib cx" and sort: "sort_law lib"
    and k: "k < int vocab" "\<not> (0 < k \<and> k \<le> 64)" and vocab: "0 < vocab" and batches: "0 < batches" "batches \<le> 256"
    and scores: "length scores = batches * vocab" "\<forall>x\<in>set scores. flowest cx \<le> x"
    and data: "sampling_data_ok batches vocab data" and out: "length out = batches"
  shows "\<exists>data' tokens. GetSample sr lib cx ninf scores vocab batches k p temp (data, out) = Inr (data', tokens)
     \<and> sampling_data_ok batches vocab data' \<and> length tokens = batches \<and> (\<forall>b<batches. 0 \<le> tokens ! b \<and> tokens ! b < int vocab)"
proof -
  have fs: "sampling_fair sr" "fair (sr_offsets sr)" "fair (sr_indices sr)" using fair by (simp_all add: sampling_fair_all_def)
  have len: "length (sd_scores_softmaxed data) = batches * vocab" using data by (simp add: sampling_data_ok_def mult.commute)
  obtain sm where sm: "DispatchBlockwiseSoftmaxForward False (sr_soft sr) (sr_soft_threads sr) cx (sr_addr_in sr) (sr_addr_out sr) scores
        vocab vocab vocab batches temp (sd_scores_softmaxed data) = Inr sm" "length sm = batches * vocab"
    using DispatchBlockwiseSoftmaxForward_ok [where is_log = False and temp = temp and tsched = "sr_soft_threads sr" and sched = "sr_soft sr"
        and addr_in = "sr_addr_in sr" and addr_out = "sr_addr_out sr", OF _ _ vocab scores(1) len scores(2)] fs by (auto simp: sampling_fair_def)
  let ?d1 = "data\<lparr>sd_scores_softmaxed := sm\<rparr>"
  have soft: "softmax_rows sr cx scores vocab batches temp data = Inr ?d1" using sm(1) by (simp add: softmax_rows_def)
  have d1: "sampling_data_ok batches vocab ?d1" using data sm(2) by (simp add: sampling_data_ok_def mult.commute)
  obtain offs idx d where d: "sort_rows sr lib sm vocab batches ?d1
       = Inr (?d1\<lparr>sd_offsets := offs, sd_indices_in := idx, sd_scores_sorted := fst d, sd_indices_sorted := snd d\<rparr>)"
      "length offs = batches + 1" "length idx = batches * vocab" "arrays_of (batches * vocab) d" "\<forall>b<batches. rows_sorted lib vocab sm b d"
    using sort_rows_ok [OF sort fs(2,3) sm(2) d1] by blast
  let ?d2 = "?d1\<lparr>sd_offsets := offs, sd_indices_in := idx, sd_scores_sorted := fst d, sd_indices_sorted := snd d\<rparr>"
  have kn: "nat k \<le> vocab" using k(1) by simp
  have sz: "batches * vocab \<le> length (fst d)" "batches * vocab \<le> length (snd d)" "batches * vocab \<le> length (sd_prefix_sums ?d2)"
      "length (sd_thresholds ?d2) = batches" "length (sd_curand_states ?d2) = batches"
    using d(4) data by (simp_all add: arrays_of_def sampling_data_ok_def mult.commute)
  obtain ps th st tokens where ls: "LaunchSampleKernel sr lib cx (fst d) (snd d) vocab batches p k (?d2, out)
       = Inr (?d2\<lparr>sd_prefix_sums := ps, sd_curand_states := st, sd_thresholds := th\<rparr>, tokens)"
      "length ps = length (sd_prefix_sums ?d2)" "length th = batches" "length st = batches" "length tokens = batches"
      "\<forall>b<batches. row_of vocab b ps = kernel_sums lib cx 256 (row_of vocab b (fst d)) \<and> tokens ! b = snd d ! (b * vocab + reach_index (th ! b) (row_of vocab b ps))"
    using LaunchSampleKernel_ok [where data = ?d2 and p = p and k = k, OF fs(1) scan vocab batches(2) kn sz out batches(1)] by blast
  have "0 \<le> tokens ! b \<and> tokens ! b < int vocab" if b: "b < batches" for b
  proof -
    have "row_of vocab b ps \<noteq> []" using vocab by (simp add: row_of_def)
    then have "reach_index (th ! b) (row_of vocab b ps) < vocab" using reach_index_least(1) by fastforce
    then have "0 \<le> snd d ! (b * vocab + reach_index (th ! b) (row_of vocab b ps)) \<and> snd d ! (b * vocab + reach_index (th ! b) (row_of vocab b ps)) < int vocab"
      using rows_sorted_range [OF sort] d(5) b by blast
    then show ?thesis using ls(6) b by metis
  qed
  moreover have "GetSample sr lib cx ninf scores vocab batches k p temp (data, out)
      = Inr (?d2\<lparr>sd_prefix_sums := ps, sd_curand_states := st, sd_thresholds := th\<rparr>, tokens)"
  proof -
    have "(if 0 < k \<and> k < int vocab then GetTopKSubset sr lib cx ninf scores vocab batches (nat k) temp data
        else SoftmaxAndSort sr lib cx scores vocab batches temp data) = Inr ?d2"
      using soft d(1) k nat_le_iff [of k 64] by (auto simp: GetTopKSubset_def SoftmaxAndSort_def LaunchGetTopKSubsetFullSort_def)
    moreover have "(if 0 < k \<and> k \<le> 64 then nat k else vocab) = vocab" using k(2) by (simp only: if_False)
    ultimately show ?thesis using ls(1) by (simp only: GetSample_def Let_def prod.case res_bind_Inr) simp
  qed
  moreover have "sampling_data_ok batches vocab (?d2\<lparr>sd_prefix_sums := ps, sd_curand_states := st, sd_thresholds := th\<rparr>)"
    using data sm(2) d(2-4) ls(2-4) by (simp add: sampling_data_ok_def arrays_of_def mult.commute)
  ultimately show ?thesis using ls(5) by blast
qed

lemma GetSample_in_range_ok:
  assumes floats: "nonneg_floats cx ninf" and fair: "sampling_fair_all sr" and br: "block_reduce_ok (top_reduce lib)"
    and scan: "scan_ok lib cx" and sort: "sort_law lib" and k: "k < int vocab" and vocab: "0 < vocab" and batches: "0 < batches" "batches \<le> 256"
    and scores: "length scores = batches * vocab" "\<forall>x\<in>set scores. flowest cx \<le> x"
    and data: "sampling_data_ok batches vocab data" and out: "length out = batches"
  shows "\<exists>data' tokens. GetSample sr lib cx ninf scores vocab batches k p temp (data, out) = Inr (data', tokens)
     \<and> sampling_data_ok batches vocab data' \<and> length tokens = batches \<and> (\<forall>b<batches. 0 \<le> tokens ! b \<and> tokens ! b < int vocab)"
proof (cases "0 < k \<and> k \<le> 64")
  case True
  then have n: "0 < nat k" "nat k \<le> 64" "nat k < vocab" "int (nat k) = k" using k by linarith+
  have fs: "sampling_fair sr" using fair by (simp add: sampling_fair_all_def)
  obtain data' tokens where t: "GetSample sr lib cx ninf scores vocab batches k p temp (data, out) = Inr (data', tokens)"
      "sampling_data_ok batches vocab data'" "length tokens = batches"
      "\<forall>b<batches. top_k_sample cx temp (nat k) (row_of vocab b scores) (sd_thresholds data' ! b) (tokens ! b)"
    using GetSample_top_k_ok [where p = p and temp = temp, OF floats fs br scan n(1-3) batches scores data out] unfolding n(4) by blast
  then show ?thesis using top_k_sample_range [OF _ n(1)] by fastforce
next
  case False
  then show ?thesis using GetSample_sorted_ok [OF fair scan sort k _ vocab batches scores data out] by blast
qed

section \<open>A step\<close>

text \<open>The invariant of greedy search.\<close>

definition cuda_greedy_inv :: "('f, 't, 'r) GreedySearch_Cuda \<Rightarrow> bool" where
  "cuda_greedy_inv s \<longleftrightarrow> (let p = cs_params s; n = nbatch p in
     0 < n \<and> 0 < nvocab p \<and> seq_inv (cs_sequences s) \<and> sq_batch_beam_size (cs_sequences s) = n \<and> sq_max_length (cs_sequences s) = nmax_length p
     \<and> length (cs_next_tokens s) = n \<and> length (cs_eos_meet s) = n \<and> sampling_data_ok n (nvocab p) (cg_samplingdata s))"

text \<open>The tokens of a step: padding for an entry that has ended or ends with this step.\<close>

definition cuda_step :: "int list \<Rightarrow> ('f, 't, 'r) GreedySearch_Cuda \<Rightarrow> ('f, 't, 'r) GreedySearch_Cuda \<Rightarrow> bool" where
  "cuda_step sampled s s' \<longleftrightarrow> (let p = cs_params s; n = nbatch p; ended = (\<lambda>b. sampled ! b = eos_token_id p \<or> cs_eos_meet s ! b) in
     cs_params s' = p
     \<and> cs_eos_meet s' = map ended [0..<n]
     \<and> cs_next_tokens s' = map (\<lambda>b. if ended b then pad_token_id p else sampled ! b) [0..<n]
     \<and> seq_abs (cs_sequences s') = map2 (\<lambda>row token. row @ [token]) (seq_abs (cs_sequences s)) (cs_next_tokens s')
     \<and> GetSequenceLength (cs_sequences s') = Suc (GetSequenceLength (cs_sequences s))
     \<and> (Cuda_IsDone s' \<longleftrightarrow> Cuda_IsDone s \<or> (\<forall>b<n. ended b) \<or> int (GetSequenceLength (cs_sequences s')) = max_length (search p)))"

lemma CheckForEOS_ok:
  fixes s :: "('f, 't, 'z) Search_Cuda_scheme"
  assumes len: "length (cs_next_tokens s) = n" "length (cs_eos_meet s) = n"
  defines "ended \<equiv> \<lambda>b. cs_next_tokens s ! b = eos_token_id (cs_params s) \<or> cs_eos_meet s ! b"
  shows "CheckForEOS s = Inr (s\<lparr>cs_next_tokens := map (\<lambda>b. if ended b then pad_token_id (cs_params s) else cs_next_tokens s ! b) [0..<n],
     cs_eos_meet := map ended [0..<n], cs_done_cpu := (cs_done_cpu s \<or> (\<forall>b<n. ended b))\<rparr>)"
proof -
  let ?pad = "pad_token_id (cs_params s)" and ?T = "cs_next_tokens s" and ?E = "cs_eos_meet s"
  let ?body = "\<lambda>batch_id (tokens, eos).
         res_bind (get tokens batch_id) (\<lambda>token.
         res_bind (get eos batch_id) (\<lambda>met.
         if token = eos_token_id (cs_params s) \<or> met then
           res_bind (put eos batch_id True) (\<lambda>eos'.
           res_bind (put tokens batch_id ?pad) (\<lambda>tokens'. Inr (tokens', eos')))
         else Inr (tokens, eos)))"
  let ?tok = "\<lambda>b. if ended b then ?pad else ?T ! b"
  let ?I = "\<lambda>k st. length (fst st) = n \<and> length (snd st) = n \<and> (\<forall>b<n. fst st ! b = (if b < k then ?tok b else ?T ! b) \<and> snd st ! b = (if b < k then ended b else ?E ! b))"
  have "\<exists>st. for_res ?body [0..<n] (?T, ?E) = Inr st \<and> ?I n st"
  proof (rule for_res_upt_rule [where I = ?I])
    show "?I 0 (?T, ?E)" using len by simp
    fix i and st :: "int list \<times> bool list" assume i: "i < n" and I: "?I i st"
    let ?st = "if ended i then ((fst st)[i := ?pad], (snd st)[i := True]) else st"
    have "?body i st = Inr ?st" using i I by (cases st) (auto simp: ended_def)
    moreover have "?I (Suc i) ?st" using i I by (auto simp: nth_list_update less_Suc_eq ended_def)
    ultimately show "\<exists>st'. ?body i st = Inr st' \<and> ?I (Suc i) st'" by blast
  qed
  then obtain st where st: "for_res ?body [0..<n] (?T, ?E) = Inr st" "?I n st" by blast
  then have eq: "st = (map ?tok [0..<n], map ended [0..<n])" by (cases st) (auto intro: nth_equalityI)
  have all_met: "(\<forall>b\<in>set (take (length (map ?tok [0..<n])) (map ended [0..<n])). b) \<longleftrightarrow> (\<forall>b<n. ended b)" by auto
  have flag: "(if P then True else Q) = (Q \<or> P)" for P Q by auto
  show ?thesis unfolding CheckForEOS_def len(1) st(1) eq res_bind_Inr prod.case all_met Let_def flag ..
qed

lemma GreedySearch_Cuda_select_ok:
  assumes inv: "cuda_greedy_inv s" and room: "GetSequenceLength (cs_sequences s) < nmax_length (cs_params s)"
    and sampled: "length sampled = nbatch (cs_params s)" and data: "sampling_data_ok (nbatch (cs_params s)) (nvocab (cs_params s)) data"
  shows "\<exists>s'. GreedySearch_Cuda_select sampled (s\<lparr>cg_samplingdata := data\<rparr>) = Inr s' \<and> cuda_greedy_inv s' \<and> cuda_step sampled s s'"
proof -
  let ?p = "cs_params s" let ?n = "nbatch ?p" let ?ended = "\<lambda>b. sampled ! b = eos_token_id ?p \<or> cs_eos_meet s ! b"
  let ?toks = "map (\<lambda>b. if ?ended b then pad_token_id ?p else sampled ! b) [0..<?n]"
  let ?s1 = "s\<lparr>cg_samplingdata := data, cs_next_tokens := ?toks, cs_eos_meet := map ?ended [0..<?n], cs_done_cpu := (cs_done_cpu s \<or> (\<forall>b<?n. ?ended b))\<rparr>"
  have i: "seq_inv (cs_sequences s)" "sq_batch_beam_size (cs_sequences s) = ?n" "sq_max_length (cs_sequences s) = nmax_length ?p"
      "length (cs_eos_meet s) = ?n" "0 < ?n" "0 < nvocab ?p"
    using inv by (simp_all add: cuda_greedy_inv_def Let_def)
  have eos: "CheckForEOS (s\<lparr>cg_samplingdata := data, cs_next_tokens := sampled\<rparr>) = Inr ?s1"
    using CheckForEOS_ok [of "s\<lparr>cg_samplingdata := data, cs_next_tokens := sampled\<rparr>" ?n] sampled i(4) by simp
  have "sq_current_length (cs_sequences s) < sq_max_length (cs_sequences s)" "length ?toks = sq_batch_beam_size (cs_sequences s)"
    using room i by (simp_all add: GetSequenceLength_def)
  from AppendNextTokenToSequences_step [OF i(1) this] obtain q where q: "AppendNextTokenToSequences ?toks (cs_sequences s) = Inr q" "seq_inv q"
      "sq_batch_beam_size q = ?n" "sq_max_length q = nmax_length ?p" "GetSequenceLength q = Suc (GetSequenceLength (cs_sequences s))"
      "seq_abs q = map2 (\<lambda>row token. row @ [token]) (seq_abs (cs_sequences s)) ?toks"
    using i(2,3) by auto
  have "Sequences_Cuda_AppendNextToken ?toks (cs_sequences s) = AppendNextTokenToSequences ?toks (cs_sequences s)"
    by (simp add: Sequences_Cuda_AppendNextToken_def AppendNextToken_kernel_def AppendNextTokenToSequences_def)
  then have "GreedySearch_Cuda_select sampled (s\<lparr>cg_samplingdata := data\<rparr>)
      = Inr (?s1\<lparr>cs_sequences := q, cs_done_cpu := (if int (GetSequenceLength q) = max_length (search ?p) then True else cs_done_cpu ?s1)\<rparr>)"
    using q(1) eos by (simp add: GreedySearch_Cuda_select_def Cuda_AppendNextTokensToSequences_def)
  moreover have "cuda_greedy_inv (?s1\<lparr>cs_sequences := q, cs_done_cpu := (if int (GetSequenceLength q) = max_length (search ?p) then True else cs_done_cpu ?s1)\<rparr>)"
    using q(2-4) i data by (simp add: cuda_greedy_inv_def Let_def)
  moreover have "cuda_step sampled s (?s1\<lparr>cs_sequences := q, cs_done_cpu := (if int (GetSequenceLength q) = max_length (search ?p) then True else cs_done_cpu ?s1)\<rparr>)"
    using q(5,6) unfolding cuda_step_def Let_def by (simp add: Cuda_IsDone_def)
  ultimately show ?thesis by blast
qed

text \<open>What the four methods need.\<close>

definition cuda_scores_ready :: "('f::linorder, 'g, 'y) cxx_scheme \<Rightarrow> ('f, 't, 'r) GreedySearch_Cuda \<Rightarrow> bool" where
  "cuda_scores_ready cx s \<longleftrightarrow> nbatch (cs_params s) * nvocab (cs_params s) \<le> length (cs_next_token_scores s)
     \<and> (\<forall>x\<in>set (cs_next_token_scores s). flowest cx \<le> x)"

definition lib_laws :: "('f::linorder, 'r) cuda_lib \<Rightarrow> ('f, 'g, 'y) cxx_scheme \<Rightarrow> bool" where
  "lib_laws lib cx \<longleftrightarrow> block_reduce_ok (top_reduce lib) \<and> scan_ok lib cx \<and> sort_law lib"

lemma GreedySearch_Cuda_sample_eq:
  assumes inv: "cuda_greedy_inv s" and ready: "cuda_scores_ready cx s"
  defines "scores \<equiv> take (nbatch (cs_params s) * nvocab (cs_params s)) (cs_next_token_scores s)"
  shows "GreedySearch_Cuda_sample sr lib cx ninf k p temp s =
     res_bind (GetSample sr lib cx ninf scores (nvocab (cs_params s)) (nbatch (cs_params s)) k p temp (cg_samplingdata s, cs_next_tokens s))
       (\<lambda>(data, sampled). GreedySearch_Cuda_select sampled (s\<lparr>cg_samplingdata := data\<rparr>))"
    and "length scores = nbatch (cs_params s) * nvocab (cs_params s)" and "\<forall>x\<in>set scores. flowest cx \<le> x"
    and "b < nbatch (cs_params s) \<Longrightarrow> row_of (nvocab (cs_params s)) b scores = row_of (nvocab (cs_params s)) b (cs_next_token_scores s)"
proof -
  let ?n = "nbatch (cs_params s)" and ?v = "nvocab (cs_params s)"
  have n: "0 < ?n" using inv by (simp add: cuda_greedy_inv_def Let_def)
  show len: "length scores = ?n * ?v" using ready by (simp add: scores_def cuda_scores_ready_def)
  show "\<forall>x\<in>set scores. flowest cx \<le> x" using ready by (auto simp: scores_def cuda_scores_ready_def dest: in_set_takeD)
  show "row_of ?v b scores = row_of ?v b (cs_next_token_scores s)" if "b < ?n"
    using row_bound_less [OF that] by (auto simp: row_of_def scores_def)
  have "subspan (cs_next_token_scores s) 0 (?n * ?v) = Inr scores" using ready by (simp add: scores_def cuda_scores_ready_def)
  moreover have "length scores div ?n = ?v" using n len by simp
  ultimately show "GreedySearch_Cuda_sample sr lib cx ninf k p temp s =
     res_bind (GetSample sr lib cx ninf scores ?v ?n k p temp (cg_samplingdata s, cs_next_tokens s))
       (\<lambda>(data, sampled). GreedySearch_Cuda_select sampled (s\<lparr>cg_samplingdata := data\<rparr>))"
    using n by (simp add: GreedySearch_Cuda_sample_def Let_def)
qed

text \<open>Every method returns, keeps the invariant and extends the sequences by tokens of the vocabulary or padding.\<close>

lemma GreedySearch_Cuda_sample_ok:
  assumes floats: "nonneg_floats cx ninf" and fair: "sampling_fair_all sr" and lib: "lib_laws lib cx"
    and inv: "cuda_greedy_inv s" and ready: "cuda_scores_ready cx s" and room: "GetSequenceLength (cs_sequences s) < nmax_length (cs_params s)"
    and batch: "nbatch (cs_params s) \<le> 256" and k: "k < int (nvocab (cs_params s))"
  shows "\<exists>s' sampled. GreedySearch_Cuda_sample sr lib cx ninf k p temp s = Inr s' \<and> cuda_greedy_inv s' \<and> cuda_step sampled s s'
     \<and> (\<forall>b<nbatch (cs_params s). 0 \<le> sampled ! b \<and> sampled ! b < int (nvocab (cs_params s)))"
proof -
  let ?n = "nbatch (cs_params s)" and ?v = "nvocab (cs_params s)"
  have i: "0 < ?n" "0 < ?v" "sampling_data_ok ?n ?v (cg_samplingdata s)" "length (cs_next_tokens s) = ?n" using inv by (simp_all add: cuda_greedy_inv_def Let_def)
  have l: "block_reduce_ok (top_reduce lib)" "scan_ok lib cx" "sort_law lib" using lib by (simp_all add: lib_laws_def)
  obtain data sampled where d: "GetSample sr lib cx ninf (take (?n * ?v) (cs_next_token_scores s)) ?v ?n k p temp (cg_samplingdata s, cs_next_tokens s)
        = Inr (data, sampled)" "sampling_data_ok ?n ?v data" "length sampled = ?n" "\<forall>b<?n. 0 \<le> sampled ! b \<and> sampled ! b < int ?v"
    using GetSample_in_range_ok [where p = p and temp = temp, OF floats fair l k i(2,1) batch GreedySearch_Cuda_sample_eq(2,3) [OF inv ready] i(3,4)] by blast
  obtain s' where "GreedySearch_Cuda_select sampled (s\<lparr>cg_samplingdata := data\<rparr>) = Inr s'" "cuda_greedy_inv s'" "cuda_step sampled s s'"
    using GreedySearch_Cuda_select_ok [OF inv room d(3,2)] by blast
  then show ?thesis using d(1,4) unfolding GreedySearch_Cuda_sample_eq(1) [OF inv ready] by auto
qed

text \<open>The best of the candidates of a row is its first largest element.\<close>

lemma is_best_first_max:
  assumes "is_best 1 (prob_cands probs) ranked" and "length ranked = 1"
  shows "0 \<le> snd (ranked ! 0) \<and> first_max probs (nat (snd (ranked ! 0)))"
proof -
  obtain c where r: "ranked = [c]" using assms(2) by (cases ranked) auto
  then obtain i where i: "i < length probs" "c = (probs ! i, int i)" using assms(1) by (auto simp: is_best_def prob_cands_def)
  have "beats c (probs ! j, int j)" if "j < length probs" "j \<noteq> i" for j
  proof -
    have "(probs ! j, int j) \<in> prob_cands probs - set ranked" using that i r by (auto simp: prob_cands_def)
    then show ?thesis using assms(1) r by (auto simp: is_best_def)
  qed
  then have b: "probs ! j < probs ! i \<or> probs ! j = probs ! i \<and> i < j" if "j < length probs" "j \<noteq> i" for j using that i(2) by (force simp: beats_def)
  have "first_max probs i" unfolding first_max_def using b i(1) by (metis less_trans linorder_not_le nless_le order_less_irrefl order_refl)
  then show ?thesis using r i(2) by simp
qed

text \<open>C5. Greedy decoding on the device. On a search in its invariant with room left and at most 256 batch entries, under every
  order of the threads and blocks of the kernels, \<open>SelectTop\<close> returns and keeps the invariant; every entry gets the first token
  whose softmaxed score is largest, or padding if that token ends the sequence or the sequence had ended; all sequences grow by
  that token, the flags record the ended sequences, and the search is done iff it was, or all sequences have ended, or
  \<open>max_length\<close> is reached.\<close>

theorem GreedySearch_Cuda_SelectTop_correct:
  assumes "nonneg_floats cx ninf" and "sampling_fair_all sr" and "lib_laws lib cx" and "cuda_greedy_inv s" and "cuda_scores_ready cx s"
    and "GetSequenceLength (cs_sequences s) < nmax_length (cs_params s)" and "nbatch (cs_params s) \<le> 256" and "1 < nvocab (cs_params s)"
  shows "\<exists>s' sampled. GreedySearch_Cuda_SelectTop sr lib cx ninf s = Inr s' \<and> cuda_greedy_inv s' \<and> cuda_step sampled s s'
     \<and> (\<forall>b<nbatch (cs_params s). \<exists>probs.
          softmaxed cx (softmax_epilogue False cx) (fone cx) (row_of (nvocab (cs_params s)) b (cs_next_token_scores s)) probs
          \<and> 0 \<le> sampled ! b \<and> first_max probs (nat (sampled ! b)))"
proof -
  let ?n = "nbatch (cs_params s)" and ?v = "nvocab (cs_params s)"
  note eq = GreedySearch_Cuda_sample_eq [OF assms(4,5)]
  have i: "0 < ?n" "sampling_data_ok ?n ?v (cg_samplingdata s)" "length (cs_next_tokens s) = ?n" using assms(4) by (simp_all add: cuda_greedy_inv_def Let_def)
  have l: "block_reduce_ok (top_reduce lib)" "scan_ok lib cx" "sampling_fair sr" using assms(2,3) by (simp_all add: lib_laws_def sampling_fair_all_def)
  have one: "(0::nat) < 1" "(1::nat) \<le> 64" by simp_all
  obtain data sampled where d: "GetSample sr lib cx ninf (take (?n * ?v) (cs_next_token_scores s)) ?v ?n 1 (fzero cx) (fone cx) (cg_samplingdata s, cs_next_tokens s)
        = Inr (data, sampled)" "sampling_data_ok ?n ?v data" "length sampled = ?n"
      "\<forall>b<?n. top_k_sample cx (fone cx) 1 (row_of ?v b (take (?n * ?v) (cs_next_token_scores s))) (sd_thresholds data ! b) (sampled ! b)"
    using GetSample_top_k_ok [where p = "fzero cx" and temp = "fone cx", OF assms(1) l(3,1,2) one assms(8) i(1) assms(7) eq(2,3) i(2,3)]
    unfolding of_nat_1 by blast
  obtain s' where s': "GreedySearch_Cuda_select sampled (s\<lparr>cg_samplingdata := data\<rparr>) = Inr s'" "cuda_greedy_inv s'" "cuda_step sampled s s'"
    using GreedySearch_Cuda_select_ok [OF assms(4,6) d(3,2)] by blast
  have "\<exists>probs. softmaxed cx (softmax_epilogue False cx) (fone cx) (row_of ?v b (cs_next_token_scores s)) probs
      \<and> 0 \<le> sampled ! b \<and> first_max probs (nat (sampled ! b))" if b: "b < ?n" for b
  proof -
    have "top_k_sample cx (fone cx) 1 (row_of ?v b (cs_next_token_scores s)) (sd_thresholds data ! b) (sampled ! b)"
      using d(4) b eq(4) [OF b] by metis
    then obtain probs ranked scan where t: "softmaxed cx (softmax_epilogue False cx) (fone cx) (row_of ?v b (cs_next_token_scores s)) probs"
        "is_best 1 (prob_cands probs) ranked" "length ranked = 1" "prefix_sums_of cx (map fst ranked) scan"
        "sampled ! b = snd (ranked ! reach_index (sd_thresholds data ! b) scan)"
      unfolding top_k_sample_def by blast
    have "length scan = 1" using t(3,4) by (simp add: prefix_sums_of_def)
    then have "reach_index (sd_thresholds data ! b) scan = 0" by (simp add: reach_index_def)
    then show ?thesis using t(1,5) is_best_first_max [OF t(2,3)] by auto
  qed
  then show ?thesis using d(1) s' unfolding GreedySearch_Cuda_SelectTop_def eq(1) by auto
qed

text \<open>An example: integers, with an exponential that is not negative.\<close>

definition int_soft :: "(int, nat) cxx" where
  "int_soft = int_cxx\<lparr>fexp := (\<lambda>x. max 0 (x + 10))\<rparr>"

interpretation int_floats: nonneg_floats int_soft "-1 :: int"
proof
  show "-1 < fdiv int_soft a b" if "fzero int_soft \<le> a" "fzero int_soft \<le> b" for a b
    using that pos_imp_zdiv_nonneg_iff [of b a] by (cases "b = 0") (auto simp: int_soft_def int_cxx_def)
qed (simp_all add: int_soft_def int_cxx_def)

lemma plain_lib_laws:
  fixes cx :: "('f::{linorder, comm_monoid_add}, 'g, 'y) cxx_scheme"
  assumes "fadd cx = (+)" and "fzero cx = 0"
  shows "lib_laws (plain_lib u) cx"
proof -
  have "sorted_wrt (\<lambda>a b. fst b \<le> fst a) (rev (sort_key fst xs))" for xs :: "('f \<times> int) list"
    unfolding sorted_wrt_rev using sorted_sort_key [of fst xs] by (simp add: sorted_map)
  then show ?thesis using plain_lib_reduce plain_lib_scan [OF assms] by (simp add: lib_laws_def sort_law_def plain_lib_def)
qed

definition example_cuda_greedy :: "(int, unit, nat) GreedySearch_Cuda" where
  "example_cuda_greedy = \<lparr>cs_params = example_params,
     cs_sequences = \<lparr>sq_data = [1, 0, 0, 1, 0, 0], sq_next = [], sq_batch_beam_size = 2, sq_max_length = 3, sq_current_length = 1\<rparr>,
     cs_sequence_lengths = [0, 0], cs_next_tokens = [0, 0], cs_next_token_scores = [3, 9, 5, 4, 1, 8], cs_eos_meet = [False, True], cs_done_cpu = False,
     cg_samplingdata = \<lparr>sd_indices_sorted = replicate 6 0, sd_scores_sorted = replicate 6 0, sd_scores_softmaxed = replicate 6 0, sd_prefix_sums = replicate 6 0,
        sd_thresholds = [0, 0], sd_indices_in = replicate 6 0, sd_offsets = [0, 0, 0], sd_curand_states = [0, 1]\<rparr>\<rparr>"

theorem GreedySearch_Cuda_SelectTop_correct_witness:
  "\<exists>s' sampled. GreedySearch_Cuda_SelectTop backward_run (plain_lib 0) int_soft (-1) example_cuda_greedy = Inr s' \<and> cuda_greedy_inv s'
     \<and> cuda_step sampled example_cuda_greedy s'
     \<and> (\<exists>probs. softmaxed int_soft (softmax_epilogue False int_soft) 1 [3, 9, 5] probs \<and> 0 \<le> sampled ! 0 \<and> first_max probs (nat (sampled ! 0)))"
proof -
  let ?s = example_cuda_greedy
  have fair: "sampling_fair_all backward_run" using backward_run_fair by (simp add: sampling_fair_all_def backward_run_def fair_rev)
  have lib: "lib_laws (plain_lib 0) int_soft" by (rule plain_lib_laws) (simp_all add: int_soft_def int_cxx_def)
  have inv: "cuda_greedy_inv ?s" "cuda_scores_ready int_soft ?s" "GetSequenceLength (cs_sequences ?s) < nmax_length (cs_params ?s)"
      "nbatch (cs_params ?s) \<le> 256" "1 < nvocab (cs_params ?s)"
    by (simp_all add: cuda_greedy_inv_def cuda_scores_ready_def example_cuda_greedy_def example_params_defs seq_inv_def sampling_data_ok_def
        GetSequenceLength_def int_soft_def int_cxx_def)
  obtain s' sampled where t: "GreedySearch_Cuda_SelectTop backward_run (plain_lib 0) int_soft (-1) ?s = Inr s'" "cuda_greedy_inv s'" "cuda_step sampled ?s s'"
      "\<forall>b<nbatch (cs_params ?s). \<exists>probs. softmaxed int_soft (softmax_epilogue False int_soft) (fone int_soft)
          (row_of (nvocab (cs_params ?s)) b (cs_next_token_scores ?s)) probs \<and> 0 \<le> sampled ! b \<and> first_max probs (nat (sampled ! b))"
    using GreedySearch_Cuda_SelectTop_correct [OF int_floats.nonneg_floats_axioms fair lib inv] by blast
  have "nbatch (cs_params ?s) = 2" "nvocab (cs_params ?s) = 3" "fone int_soft = 1" "cs_next_token_scores ?s = [3, 9, 5, 4, 1, 8]"
    by (simp_all add: example_cuda_greedy_def example_params_defs int_soft_def int_cxx_def)
  moreover have "row_of 3 0 [3, 9, 5, 4, 1, 8 :: int] = [3, 9, 5]" by code_simp
  ultimately have "\<exists>probs. softmaxed int_soft (softmax_epilogue False int_soft) 1 [3, 9, 5] probs \<and> 0 \<le> sampled ! 0 \<and> first_max probs (nat (sampled ! 0))"
    using t(4) by (metis zero_less_numeral)
  then show ?thesis using t(1-3) by blast
qed

end
