(* ===== verification/Spec2Isabelle.thy ===== *)
theory Spec2Isabelle
  imports ConfigParse TopK Logging Float16 DecoderOnly DmlTransfer CudaGreedy
begin

text \<open>
  Verification of the generation core of onnxruntime-genai: the C++ library that runs a language model with
  ONNX Runtime and generates token sequences (\<open>src/src\<close>).

  \<^bold>\<open>The program.\<close> A client loads a configuration (\<open>config.cpp\<close>, parsed by \<open>json.cpp\<close>), from which a model with
  its sessions and session options is made (\<open>models/model.cpp\<close>), sets the parameters of a generation
  (\<open>GeneratorParams\<close>), and creates a \<open>Generator\<close> (\<open>generators.cpp\<close>). The generator alternates two steps:
  \<open>ComputeLogits\<close> runs the state of the model, which updates its input and output tensors (token ids,
  positions, attention mask, key-value cache, logits), calls the session and hands one row of scores per beam
  to the search; \<open>GenerateNextToken\<close> lets the search (\<open>search.cpp\<close>: greedy, sampling or beam search with the
  scorer of \<open>beam_search_scorer.cpp\<close>) choose a token per beam and append it to the stored sequences
  (\<open>sequences.cpp\<close>), until every sequence has ended or the maximal length is reached.

  \<^bold>\<open>Theories and sources.\<close>
  \<^item> \<open>Prelude\<close>: errors as values, checked accesses, counted loops, blocks of rows. \<open>Cxx\<close>: the parts of the C++
    library the code calls (float operations, sorting, priority queue, random numbers) as a record with laws.
  \<^item> \<open>Sequences\<close> (\<open>sequences.cpp\<close>): the token store; its operations refine a list of token lists.
  \<^item> \<open>Params\<close> (\<open>GeneratorParams\<close>, \<open>Config::Search\<close>), \<open>Search\<close> (\<open>Search_Cpu\<close>, \<open>GreedySearch_Cpu\<close>, \<open>softmax_cpu.cpp\<close>),
    \<open>BeamScorer\<close> (\<open>beam_search_scorer.cpp\<close>), \<open>BeamSearch\<close> (\<open>BeamSearch_Cpu\<close>), \<open>TopK\<close> (\<open>top_k_cpu.cpp\<close>).
  \<^item> \<open>Json\<close> (\<open>json.cpp\<close>), \<open>Config\<close> (\<open>config.h\<close>), \<open>ConfigParse\<close> (the handlers of \<open>config.cpp\<close>), \<open>Logging\<close> (\<open>logging.cpp\<close>).
  \<^item> \<open>Generator\<close> (\<open>generators.cpp\<close>): the client-visible state machine and \<open>Generate\<close>.
  \<^item> \<open>ElementType\<close>, \<open>Float16\<close> (\<open>models/utils.cpp\<close>), \<open>Tensors\<close> (tensor memory, \<open>ExpandInputs\<close>, \<open>static_buffer.cpp\<close>),
    \<open>Models\<close> (\<open>models/model.cpp\<close>: state slots, session run, tokenizer, session options, model dispatch).
  \<^item> \<open>ModelInputs\<close> (\<open>input_ids.cpp\<close>, \<open>position_inputs.cpp\<close>, \<open>extra_inputs.cpp\<close>, \<open>embeddings.cpp\<close>), \<open>LogitsIO\<close>
    (\<open>logits.cpp\<close>), \<open>KvCache\<close> (\<open>kv_cache.cpp\<close>), \<open>ModelStates\<close> (\<open>decoder_only.cpp\<close>, \<open>gpt.cpp\<close>, \<open>whisper.cpp\<close>,
    \<open>multi_modal_vision_model.cpp\<close>).
  \<^item> \<open>Components\<close>: the contract of an input or output component of a model state (locale \<open>io_component\<close>) and the
    composition of two components that own different tensors and slots (\<open>io_pair\<close>). \<open>SessionCalls\<close>: the abstract
    specification of a session call at each length. \<open>InputLaws\<close>, \<open>CacheLaws\<close>, \<open>LogitsLaws\<close>: the components of the code
    follow the contract (an interpretation each). \<open>DecoderLaws\<close>, \<open>DecoderStart\<close>, \<open>DecoderOnly\<close>: the decoder-only
    state as their composition, its constructor, and the theorems from end to end.
  \<^item> \<open>CudaBeam\<close> (\<open>sequences_cuda.cpp\<close>, \<open>beam_search_scorer_cuda.cpp\<close> and their kernels) and \<open>CudaLaws\<close>: the token store and
    the beam scorer on a CUDA device, correct under every order of the threads. \<open>CudaTopK\<close> (\<open>beam_search_topk.cu\<close>),
    \<open>CudaTopKLaws\<close> and \<open>CudaSelect\<close>: the selection of the candidates of a beam search step in three kernels.
    \<open>CudaSearch\<close> (\<open>search_cuda.cpp\<close>, \<open>search_cuda.cu\<close>) and \<open>CudaSearchLaws\<close>: the device searches; the score kernels compute
    what the CPU search computes, and a beam search step refines the specification of the CPU step. \<open>CudaSoftmax\<close>,
    \<open>CudaSampling\<close> (\<open>cuda_sampling.cu\<close>), \<open>CudaSoftmaxLaws\<close>, \<open>CudaSamplingLaws\<close> and \<open>CudaGreedy\<close>: softmax, sorting, prefix sums and
    the choice of a token on the device, and greedy search there; the device softmax visits every element once and is the
    CPU softmax up to the order of additions, the token is chosen among the \<open>k\<close> best, and a greedy step picks the first best
    token. The libraries CUB and cuRAND are the record \<open>cuda_lib\<close>, with their documented laws as hypotheses.
  \<^item> \<open>DmlContext\<close> (\<open>dml/dml_gpu_event.h\<close>, \<open>dml_command_queue.cpp\<close>, \<open>dml_command_allocator_ring.h\<close>, \<open>dml_descriptor_pool.cpp\<close>,
    \<open>dml_command_recorder.cpp\<close>, \<open>dml_execution_context.cpp\<close>): submission of commands to the DirectML device. \<open>DmlSafety\<close>: it is
    safe under every interleaving with the device and refines immediate execution. \<open>DmlUpload\<close>
    (\<open>dml_pooled_upload_heap.cpp\<close>, \<open>dml_readback_heap.cpp\<close>) and \<open>DmlTransfer\<close>: transfers to and from the device, their
    ring invariant and round trip.

  \<^bold>\<open>How the code is modelled.\<close> Classes are records and operations are functions on them that return the new
  record; every throw, early return and access outside an array is a value of \<open>err\<close>, so a theorem that an
  operation returns \<open>Inr\<close> says it neither raises nor reads or writes out of bounds. Tensors live in an explicit
  memory (\<open>mem\<close>: addresses to values): allocation, release and aliasing are those of the code, reading a
  released tensor is \<open>UseAfterFree\<close>, reading an element never written is \<open>UninitializedRead\<close>. Floats are an
  ordered type with the operations of \<open>Cxx\<close>; half floats are 16-bit words. Token ids are \<open>int\<close>, and the 32-bit
  computations that can wrap are written with \<open>s32\<close> or on words. Loops are structural; the generation loop and
  the JSON parser run on fuel, and the theorems show that \<open>max_length - sequence_length\<close> rounds, and the length
  of the text, are enough. The ONNX Runtime session, the tokenizer library, the file system and the C++
  library's float and sorting functions are parameters, with what the code relies on stated as hypotheses
  (\<open>accepts\<close>, \<open>queue_ok\<close>, \<open>sort_ok\<close>, \<open>block_reduce_ok\<close>); so is what a device command does to the buffers (\<open>device_ok\<close>, \<open>copies\<close>), while
  the device itself is the queue of submitted lists, executed in order, and a fence value.

  \<^bold>\<open>What is shown.\<close> Refinement of the token store, correctness of every greedy and sampling choice and of the
  beam search step, of the top-k selection, the logits processors and the hypothesis lists; termination of the
  JSON parser and round trips of JSON and of the configuration; the protocol and termination of the generator;
  agreement of the fast half-float conversions with the reference one; the tensor helpers, caches and logits;
  and for decoder-only models that every call of the session has exactly the specified inputs and outputs and
  that generation ends with a result; for the DirectML context that asynchronous execution refines immediate
  execution, and that uploads and readbacks are exact; for the CUDA beam search that its selection is the exact
  top-k and its step the one of the CPU. Error theorems record the paths on which the code fails.

  \<^bold>\<open>Not modelled.\<close> Of the CUDA backend the kernels of the model inputs; of the DirectML
  backend the choice of the adapter and the operator graphs and shaders, and the graph pool that only the device
  backends use; the wrappers of
  the ONNX Runtime C API (\<open>onnxruntime_api.h\<close>, \<open>onnxruntime_inline.h\<close>), whose behaviour is the parameter \<open>OrtSession\<close>;
  the language bindings (C, C++, Python, Java, C#), which forward to the functions modelled here; the image
  preprocessing, which calls the ortx image library; and the printing of tensors for debugging.
  One simplification of memory: with 32-bit ids the code lays the first token-id tensor over the caller's
  array, the model copies it.
\<close>

end
